(* ===== verification/Prelude.thy ===== *)
theory Prelude
  imports Main "HOL-Library.Word" "HOL-Library.While_Combinator" "HOL-Library.Code_Target_Nat"
begin

text \<open>
  Shared vocabulary of the development: size arithmetic with the wrap-around of
  \<^verbatim>\<open>size_t\<close> written out, results with errors as sums, the ordered map
  \<^verbatim>\<open>std::map\<close> as a sorted association list, and two interfaces used by several
  components: a keyed store (last write wins) and a first-in first-out queue.
\<close>

section \<open>Collections of facts\<close>

named_theorems size_defs \<open>definitions of the wrapping size operations\<close>
named_theorems size_simps \<open>wrapping size operations that do not wrap\<close>
named_theorems inv_intros \<open>preservation lemmas of the component invariants\<close>

section \<open>Sizes: 64-bit unsigned arithmetic on naturals\<close>

text \<open>
  \<^verbatim>\<open>size_t\<close> and \<^verbatim>\<open>uint64_t\<close> values are naturals below \<open>2 ^ 64\<close>; an operation whose
  wrap-around can matter is written with one of these.
\<close>

type_synonym size_t = nat

abbreviation two64 :: nat where
  "two64 \<equiv> 18446744073709551616"

definition add64 :: "size_t \<Rightarrow> size_t \<Rightarrow> size_t" where [size_defs]:
  "add64 a b = (a + b) mod two64"

definition mul64 :: "size_t \<Rightarrow> size_t \<Rightarrow> size_t" where [size_defs]:
  "mul64 a b = (a * b) mod two64"

definition sub64 :: "size_t \<Rightarrow> size_t \<Rightarrow> size_t" where [size_defs]:
  "sub64 a b = (a + (two64 - b mod two64)) mod two64"

lemma add64_small [size_simps]: "a + b < two64 \<Longrightarrow> add64 a b = a + b"
  by (simp add: add64_def)

lemma mul64_small [size_simps]: "a * b < two64 \<Longrightarrow> mul64 a b = a * b"
  by (simp add: mul64_def)

lemma sub64_small [size_simps]:
  assumes "b \<le> a" and "a < two64"
  shows "sub64 a b = a - b"
proof -
  have "sub64 a b = ((a - b) + two64) mod two64"
    using assms by (simp add: sub64_def)
  also have "\<dots> = a - b" using assms by (simp only: mod_add_self2) simp
  finally show ?thesis .
qed

lemma size64_bounds [simp]: "add64 a b < two64" "mul64 a b < two64" "sub64 a b < two64"
  by (simp_all add: size_defs)

section \<open>Results with errors\<close>

fun sbind :: "'e + 'a \<Rightarrow> ('a \<Rightarrow> 'e + 'b) \<Rightarrow> 'e + 'b" where
  "sbind (Inl e) f = Inl e"
| "sbind (Inr x) f = f x"

lemma sbind_Inr_iff: "sbind r f = Inr y \<longleftrightarrow> (\<exists>x. r = Inr x \<and> f x = Inr y)"
  by (cases r) auto

lemma sbind_Inl_iff: "sbind r f = Inl e \<longleftrightarrow> r = Inl e \<or> (\<exists>x. r = Inr x \<and> f x = Inl e)"
  by (cases r) auto

text \<open>A loop over a list whose body may throw: it stops at the first error.\<close>

fun sfold :: "('s \<Rightarrow> 'a \<Rightarrow> 'e + 's) \<Rightarrow> 's \<Rightarrow> 'a list \<Rightarrow> 'e + 's" where
  "sfold f s [] = Inr s"
| "sfold f s (x # xs) = sbind (f s x) (\<lambda>s'. sfold f s' xs)"

lemma sfold_append:
  "sfold f s (xs @ ys) = sbind (sfold f s xs) (\<lambda>s'. sfold f s' ys)"
proof (induction xs arbitrary: s)
  case Nil
  then show ?case by simp
next
  case (Cons x xs)
  then show ?case by (cases "f s x") auto
qed

lemma sfold_invariant:
  assumes step: "\<And>s x s'. x \<in> set xs \<Longrightarrow> P s \<Longrightarrow> f s x = Inr s' \<Longrightarrow> P s'"
    and "P s" and "sfold f s xs = Inr s'"
  shows "P s'"
  using assms
proof (induction xs arbitrary: s)
  case Nil
  then show ?case by simp
next
  case (Cons x xs)
  from Cons.prems(3) obtain t where t: "f s x = Inr t" and r: "sfold f t xs = Inr s'"
    by (auto simp: sbind_Inr_iff)
  have "P t" using Cons.prems(1)[OF _ Cons.prems(2) t] by simp
  then show ?case using Cons.IH[OF _ _ r] Cons.prems(1) by auto
qed

text \<open>Two runs of the same loop whose bodies agree on a projection agree on it.\<close>

lemma sfold_project:
  assumes "\<And>s t x. x \<in> set xs \<Longrightarrow> p s = q t \<Longrightarrow>
      (case (f s x, g t x) of
         (Inr s', Inr t') \<Rightarrow> p s' = q t' | (Inl e, Inl d) \<Rightarrow> e = d | _ \<Rightarrow> False)"
    and "p s = q t"
  shows "case (sfold f s xs, sfold g t xs) of
         (Inr s', Inr t') \<Rightarrow> p s' = q t' | (Inl e, Inl d) \<Rightarrow> e = d | _ \<Rightarrow> False"
  using assms
proof (induction xs arbitrary: s t)
  case Nil
  then show ?case by simp
next
  case (Cons x xs)
  from Cons.prems(1)[of x s t] Cons.prems(2)
  have h: "case (f s x, g t x) of
         (Inr s', Inr t') \<Rightarrow> p s' = q t' | (Inl e, Inl d) \<Rightarrow> e = d | _ \<Rightarrow> False"
    by simp
  show ?case
  proof (cases "f s x")
    case (Inl e)
    with h show ?thesis by (cases "g t x") auto
  next
    case (Inr s1)
    with h obtain t1 where "g t x = Inr t1" and "p s1 = q t1" by (cases "g t x") auto
    then show ?thesis using Inr Cons.IH[of s1 t1] Cons.prems(1) by auto
  qed
qed

section \<open>Keyed stores: the map interface\<close>

text \<open>
  What the code relies on of \<^verbatim>\<open>std::map\<close> and \<^verbatim>\<open>std::unordered_map\<close>: a lookup after
  a store sees the stored value at equal keys and is unchanged elsewhere. Key equality is
  a parameter, because \<^verbatim>\<open>OpKey\<close> brings its own.
\<close>

locale keyed_store =
  fixes keq :: "'k \<Rightarrow> 'k \<Rightarrow> bool"
    and get :: "'m \<Rightarrow> 'k \<Rightarrow> 'v option"
    and put :: "'k \<Rightarrow> 'v \<Rightarrow> 'm \<Rightarrow> 'm"
    and none :: "'m"
    and valid :: "'m \<Rightarrow> bool"
  assumes keq_refl: "keq k k"
    and keq_sym: "keq k l \<Longrightarrow> keq l k"
    and keq_trans: "keq k l \<Longrightarrow> keq l j \<Longrightarrow> keq k j"
    and valid_none: "valid none"
    and valid_put: "valid m \<Longrightarrow> valid (put k v m)"
    and get_none: "get none k = None"
    and get_put: "valid m \<Longrightarrow> get (put k v m) l = (if keq k l then Some v else get m l)"
begin

definition put_all :: "('k \<times> 'v) list \<Rightarrow> 'm \<Rightarrow> 'm" where
  "put_all kvs m = foldl (\<lambda>m (k, v). put k v m) m kvs"

lemma put_all_Nil [simp]: "put_all [] m = m"
  by (simp add: put_all_def)

lemma put_all_snoc [simp]: "put_all (kvs @ [(k, v)]) m = put k v (put_all kvs m)"
  by (simp add: put_all_def)

lemma valid_put_all: "valid m \<Longrightarrow> valid (put_all kvs m)"
  by (induction kvs rule: rev_induct) (auto simp: valid_put)

text \<open>A batch of stores: the last one at an equal key is what a lookup sees.\<close>

lemma get_put_all:
  "valid m \<Longrightarrow> get (put_all kvs m) l =
     (case filter (\<lambda>(k, v). keq k l) kvs of [] \<Rightarrow> get m l | hits \<Rightarrow> Some (snd (last hits)))"
proof (induction kvs rule: rev_induct)
  case Nil
  then show ?case by simp
next
  case (snoc kv kvs)
  obtain k v where kv: "kv = (k, v)" by (cases kv)
  show ?case
  proof (cases "keq k l")
    case True
    then show ?thesis using snoc.prems
      by (cases "filter (\<lambda>(k, v). keq k l) kvs") (simp_all add: kv get_put valid_put_all)
  next
    case False
    then show ?thesis using snoc by (simp add: kv get_put valid_put_all)
  qed
qed

lemma get_put_twice:
  assumes "valid m" and "keq k j"
  shows "get (put k v (put j w m)) l = get (put k v m) l"
proof (cases "keq j l")
  case True
  then show ?thesis using assms keq_trans[OF assms(2) True] by (simp add: get_put valid_put)
next
  case False
  then show ?thesis using assms by (simp add: get_put valid_put)
qed

end

section \<open>The ordered map \<^verbatim>\<open>std::map\<close>\<close>

text \<open>
  An association list sorted by key, so that iterating over it visits the keys in the
  order of \<^verbatim>\<open>operator<\<close>, as a range-for over a \<^verbatim>\<open>std::map\<close> does.
\<close>

type_synonym ('k, 'v) omap = "('k \<times> 'v) list"

definition om_get :: "('k, 'v) omap \<Rightarrow> 'k \<Rightarrow> 'v option" where
  "om_get m k = map_of m k"

fun om_put :: "'k::linorder \<Rightarrow> 'v \<Rightarrow> ('k, 'v) omap \<Rightarrow> ('k, 'v) omap" where
  "om_put k v [] = [(k, v)]"
| "om_put k v ((l, w) # m) =
     (if k < l then (k, v) # (l, w) # m
      else if k = l then (k, v) # m
      else (l, w) # om_put k v m)"

text \<open>\<^verbatim>\<open>emplace\<close>: insert only when the key is not there yet.\<close>

definition om_emplace :: "'k::linorder \<Rightarrow> 'v \<Rightarrow> ('k, 'v) omap \<Rightarrow> ('k, 'v) omap" where
  "om_emplace k v m = (if om_get m k = None then om_put k v m else m)"

definition om_ok :: "('k::linorder, 'v) omap \<Rightarrow> bool" where
  "om_ok m \<longleftrightarrow> sorted_wrt (<) (map fst m)"

lemma om_ok_Nil [simp]: "om_ok []"
  by (simp add: om_ok_def)

lemma fst_set_om_put [simp]: "fst ` set (om_put k v m) = insert k (fst ` set m)"
  by (induction k v m rule: om_put.induct) auto

lemma om_ok_Cons: "om_ok ((k, v) # m) \<longleftrightarrow> (\<forall>l \<in> fst ` set m. k < l) \<and> om_ok m"
  by (auto simp: om_ok_def)

lemma om_ok_put [simp]: "om_ok m \<Longrightarrow> om_ok (om_put k v m)"
proof (induction k v m rule: om_put.induct)
  case (1 k v)
  then show ?case by (simp add: om_ok_def)
next
  case (2 k v l w m)
  then show ?case
    using order.strict_trans[of k l] by (auto simp: om_ok_Cons)
qed

lemma om_ok_emplace [simp]: "om_ok m \<Longrightarrow> om_ok (om_emplace k v m)"
  by (simp add: om_emplace_def)

lemma om_get_Nil [simp]: "om_get [] k = None"
  by (simp add: om_get_def)

lemma om_get_put [simp]: "om_get (om_put k v m) l = (if k = l then Some v else om_get m l)"
  by (induction k v m rule: om_put.induct) (auto simp: om_get_def)

lemma om_get_emplace:
  "om_get (om_emplace k v m) l =
     (if k = l then (case om_get m k of None \<Rightarrow> Some v | Some w \<Rightarrow> Some w) else om_get m l)"
  by (auto simp: om_emplace_def split: option.split)

lemma om_ok_distinct: "om_ok m \<Longrightarrow> distinct (map fst m)"
  by (auto simp: om_ok_def strict_sorted_iff)

lemma om_get_Some_iff: "om_ok m \<Longrightarrow> om_get m k = Some v \<longleftrightarrow> (k, v) \<in> set m"
  using om_ok_distinct[of m] by (simp add: om_get_def)

text \<open>The sorted representation is canonical: it is determined by the lookups.\<close>

lemma om_ext:
  assumes "om_ok m" and "om_ok n" and eq: "\<And>k. om_get m k = om_get n k"
  shows "m = n"
proof -
  have s: "set m = set n"
    using om_get_Some_iff[OF assms(1)] om_get_Some_iff[OF assms(2)] eq by auto
  have "map fst m = map fst n"
    using assms(1,2) s by (intro sorted_distinct_set_unique)
      (auto simp: om_ok_def strict_sorted_iff)
  moreover have "map snd m = map snd n"
  proof (rule nth_equalityI)
    show l: "length (map snd m) = length (map snd n)"
      using calculation by (metis length_map)
    fix i assume i: "i < length (map snd m)"
    have "fst (m ! i) = fst (n ! i)" using calculation i l by (metis length_map nth_map)
    moreover have "m ! i \<in> set n" "n ! i \<in> set n"
      using i l s nth_mem[of i m] nth_mem[of i n] by auto
    ultimately have "m ! i = n ! i"
      using om_ok_distinct[OF assms(2)] by (metis eq_key_imp_eq_value prod.collapse)
    then show "map snd m ! i = map snd n ! i" using i l by simp
  qed
  ultimately show "m = n" by (metis zip_map_fst_snd)
qed

interpretation om: keyed_store "(=)" om_get om_put "[]" om_ok
  by unfold_locales auto

section \<open>First-in first-out queues\<close>

text \<open>
  The queue interface shared by the DMA event rings, the executor's work queue and the
  per-stream lists of pending collectives: \<open>items\<close> is the abstract content, oldest first.
\<close>

locale fifo =
  fixes items :: "'q \<Rightarrow> 'a list"
    and enq :: "'a \<Rightarrow> 'q \<Rightarrow> 'q"
    and deq :: "'q \<Rightarrow> 'q"
    and ok :: "'q \<Rightarrow> bool"
    and room :: "'q \<Rightarrow> bool"
  assumes items_enq: "ok q \<Longrightarrow> room q \<Longrightarrow> items (enq x q) = items q @ [x]"
    and ok_enq: "ok q \<Longrightarrow> room q \<Longrightarrow> ok (enq x q)"
    and items_deq: "ok q \<Longrightarrow> items q \<noteq> [] \<Longrightarrow> items (deq q) = tl (items q)"
    and ok_deq: "ok q \<Longrightarrow> items q \<noteq> [] \<Longrightarrow> ok (deq q)"
begin

text \<open>A run of the queue: each operation is an enqueue or a dequeue of the oldest item.\<close>

fun run :: "'a option list \<Rightarrow> 'q \<Rightarrow> ('a list \<times> 'q) option" where
  "run [] q = Some ([], q)"
| "run (Some x # ops) q = (if room q then run ops (enq x q) else None)"
| "run (None # ops) q =
     (case items q of [] \<Rightarrow> None
      | y # _ \<Rightarrow> map_option (\<lambda>(out, q'). (y # out, q')) (run ops (deq q)))"

text \<open>
  Whatever the interleaving, the items come out in the order they went in: what was in the
  queue followed by what was enqueued is what came out followed by what is still inside.
\<close>

lemma run_order:
  "ok q \<Longrightarrow> run ops q = Some (out, q') \<Longrightarrow>
     items q @ List.map_filter id ops = out @ items q' \<and> ok q'"
proof (induction ops q arbitrary: out q' rule: run.induct)
  case (1 q)
  then show ?case by (simp add: List.map_filter_def)
next
  case (2 x ops q)
  then show ?case
    by (auto simp: items_enq ok_enq List.map_filter_def split: if_splits)
next
  case (3 ops q)
  then obtain y ys where q: "items q = y # ys" by (cases "items q") auto
  with 3 obtain out' where r: "run ops (deq q) = Some (out', q')" and out: "out = y # out'"
    by auto
  have "items (deq q) = ys" and "ok (deq q)"
    using items_deq[of q] ok_deq[of q] 3 q by simp_all
  with "3.IH"[OF q _ r] show ?case by (simp add: q out List.map_filter_def)
qed

end

section \<open>Reachable states\<close>

text \<open>The states a step relation reaches from its initial states.\<close>

inductive reach :: "('s \<Rightarrow> bool) \<Rightarrow> ('s \<Rightarrow> 's \<Rightarrow> bool) \<Rightarrow> 's \<Rightarrow> bool"
  for init :: "'s \<Rightarrow> bool" and step :: "'s \<Rightarrow> 's \<Rightarrow> bool" where
  reach_init: "init s \<Longrightarrow> reach init step s"
| reach_step: "reach init step s \<Longrightarrow> step s t \<Longrightarrow> reach init step t"

lemma reach_invariant:
  assumes "reach init step s"
    and "\<And>s. init s \<Longrightarrow> I s"
    and "\<And>s t. I s \<Longrightarrow> step s t \<Longrightarrow> I t"
  shows "I s"
  using assms(1) by induction (use assms(2,3) in blast)+

lemma reach_steps:
  "reach init step s \<Longrightarrow> step\<^sup>*\<^sup>* s t \<Longrightarrow> reach init step t"
  by (rotate_tac, induction rule: rtranclp_induct) (auto intro: reach_step)

section \<open>Lists\<close>

lemma list_all2_map_same: "list_all2 P (map f xs) (map g xs) \<longleftrightarrow> (\<forall>x \<in> set xs. P (f x) (g x))"
  by (simp add: list_all2_map1 list_all2_map2 list.rel_refl_strong list_all2_same)

lemma foldl_invariant:
  assumes "\<And>s x. x \<in> set xs \<Longrightarrow> P s \<Longrightarrow> P (f s x)" and "P s"
  shows "P (foldl f s xs)"
  using assms by (induction xs arbitrary: s) auto

lemma nth_upd_same: "i < length xs \<Longrightarrow> xs[i := v] ! j = (if i = j then v else xs ! j)"
  by (auto simp: nth_list_update)

end
