(* ===== verification/CEnv.thy ===== *)
theory CEnv
  imports Prelude
begin

text \<open>
  The C library calls the sources use to read settings from the environment
  (\<^verbatim>\<open>strtol\<close>, \<^verbatim>\<open>strtoull\<close>, \<^verbatim>\<open>atoi\<close>, base 10) and the settings read through them.
  The environment itself is an argument: \<open>None\<close> is an unset variable.
\<close>

section \<open>Number parsing of the C library\<close>

definition c_isspace :: "char \<Rightarrow> bool" where
  "c_isspace c \<longleftrightarrow> of_char c \<in> {9, 10, 11, 12, 13, 32 :: nat}"

definition c_digit :: "char \<Rightarrow> nat option" where
  "c_digit c = (let n = of_char c :: nat in if 48 \<le> n \<and> n \<le> 57 then Some (n - 48) else None)"

fun scan_digits :: "nat \<Rightarrow> string \<Rightarrow> nat \<times> string" where
  "scan_digits acc [] = (acc, [])"
| "scan_digits acc (c # cs) =
     (case c_digit c of None \<Rightarrow> (acc, c # cs) | Some d \<Rightarrow> scan_digits (10 * acc + d) cs)"

definition scan_sign :: "string \<Rightarrow> bool \<times> string" where
  "scan_sign s = (case s of [] \<Rightarrow> (False, [])
     | c # cs \<Rightarrow> if c = CHR ''-'' then (True, cs) else if c = CHR ''+'' then (False, cs)
                else (False, s))"

text \<open>
  The common scan: skip white space, an optional sign, at least one digit. \<open>None\<close> is the
  case \<^verbatim>\<open>end == s\<close> (nothing converted); otherwise the sign, the magnitude and the rest.
\<close>

definition scan_number :: "string \<Rightarrow> (bool \<times> nat \<times> string) option" where
  "scan_number s =
     (let (neg, t) = scan_sign (dropWhile c_isspace s) in
      case t of [] \<Rightarrow> None
      | c # _ \<Rightarrow> (case c_digit c of None \<Rightarrow> None
                  | Some _ \<Rightarrow> (let (n, rest) = scan_digits 0 t in Some (neg, n, rest))))"

definition clamp_long :: "int \<Rightarrow> int" where
  "clamp_long v = max (- 9223372036854775808) (min 9223372036854775807 v)"

definition strtol10 :: "string \<Rightarrow> (int \<times> string) option" where
  "strtol10 s = map_option (\<lambda>(neg, n, rest). (clamp_long (if neg then - int n else int n), rest))
     (scan_number s)"

definition strtoull10 :: "string \<Rightarrow> (nat \<times> string) option" where
  "strtoull10 s = map_option (\<lambda>(neg, n, rest).
       (if two64 \<le> n then two64 - 1 else if neg then sub64 0 n else n, rest)) (scan_number s)"

text \<open>\<^verbatim>\<open>static_cast<int>\<close> of a \<^verbatim>\<open>long\<close> keeps the low 32 bits.\<close>

definition to_int32 :: "int \<Rightarrow> int" where
  "to_int32 v = (v + 2147483648) mod 4294967296 - 2147483648"

definition c_atoi :: "string \<Rightarrow> int" where
  "c_atoi s = (case strtol10 s of None \<Rightarrow> 0 | Some (v, _) \<Rightarrow> to_int32 v)"

lemma to_int32_id [simp]: "- 2147483648 \<le> v \<Longrightarrow> v < 2147483648 \<Longrightarrow> to_int32 v = v"
  by (simp add: to_int32_def)

text \<open>\<^verbatim>\<open>std::to_string\<close> of an \<^verbatim>\<open>int\<close>, and an \<^verbatim>\<open>int\<close> used as a \<^verbatim>\<open>size_t\<close>.\<close>

fun nat_digits :: "nat \<Rightarrow> string" where
  "nat_digits n =
     (if n < 10 then [char_of (48 + n)] else nat_digits (n div 10) @ [char_of (48 + n mod 10)])"

declare nat_digits.simps [simp del]

definition c_to_string :: "int \<Rightarrow> string" where
  "c_to_string v = (if v < 0 then CHR ''-'' # nat_digits (nat (- v)) else nat_digits (nat v))"

definition int_to_size :: "int \<Rightarrow> size_t" where
  "int_to_size v = nat (v mod 18446744073709551616)"

lemma int_to_size_nonneg [simp]:
  "0 \<le> v \<Longrightarrow> v < 18446744073709551616 \<Longrightarrow> int_to_size v = nat v"
  by (simp add: int_to_size_def)

section \<open>Settings of the PCIe library\<close>

text \<open>\<^verbatim>\<open>!e || e[0] == '\0'\<close>: unset or empty.\<close>

fun env_unset :: "string option \<Rightarrow> bool" where
  "env_unset None = True"
| "env_unset (Some s) = (s = [])"

definition PCCL_EXECUTOR_QUEUE_DEPTH_DEFAULT :: int where
  "PCCL_EXECUTOR_QUEUE_DEPTH_DEFAULT = 16"

definition PCCL_EXECUTOR_QUEUE_DEPTH_MAX :: int where
  "PCCL_EXECUTOR_QUEUE_DEPTH_MAX = 16"

definition PCCL_MAX_CONCURRENT_COMMS :: nat where
  "PCCL_MAX_CONCURRENT_COMMS = 16"

definition executorQueueDepthFromEnv :: "string option \<Rightarrow> int" where
  "executorQueueDepthFromEnv env =
     (if env_unset env then PCCL_EXECUTOR_QUEUE_DEPTH_DEFAULT
      else case strtol10 (the env) of
             None \<Rightarrow> PCCL_EXECUTOR_QUEUE_DEPTH_DEFAULT
           | Some (parsed, _) \<Rightarrow>
               if parsed \<le> 0 then PCCL_EXECUTOR_QUEUE_DEPTH_DEFAULT
               else to_int32 (max 1 (min PCCL_EXECUTOR_QUEUE_DEPTH_MAX parsed)))"

definition executorTimeoutMs :: "string option \<Rightarrow> int" where
  "executorTimeoutMs env =
     (if env_unset env then 120000
      else case strtol10 (the env) of
             None \<Rightarrow> 120000
           | Some (parsed, _) \<Rightarrow> if parsed \<le> 0 then 120000 else to_int32 parsed)"

definition coldStartDrainFromEnv :: "string option \<Rightarrow> int" where
  "coldStartDrainFromEnv env =
     (if env_unset env then 0
      else case strtol10 (the env) of
             None \<Rightarrow> 0
           | Some (parsed, _) \<Rightarrow> if parsed < 0 then 0 else to_int32 parsed)"

definition pcclTimeoutMsFromEnv :: "string option \<Rightarrow> int \<Rightarrow> int" where
  "pcclTimeoutMsFromEnv env default_ms =
     (if env_unset env then default_ms
      else case strtol10 (the env) of
             None \<Rightarrow> default_ms
           | Some (parsed, _) \<Rightarrow> if parsed \<le> 0 then default_ms else to_int32 parsed)"

definition slotCountFromEnv :: "string option \<Rightarrow> int" where
  "slotCountFromEnv env =
     (if env_unset env then PCCL_EXECUTOR_QUEUE_DEPTH_DEFAULT
      else case strtol10 (the env) of
             None \<Rightarrow> PCCL_EXECUTOR_QUEUE_DEPTH_DEFAULT
           | Some (parsed, _) \<Rightarrow>
               if parsed \<le> 0 then PCCL_EXECUTOR_QUEUE_DEPTH_DEFAULT
               else to_int32 (max 1 (min PCCL_EXECUTOR_QUEUE_DEPTH_MAX parsed)))"

definition enableRemoteD2DPush :: "string option \<Rightarrow> bool" where
  "enableRemoteD2DPush env = (case env of None \<Rightarrow> True | Some e \<Rightarrow> c_atoi e \<noteq> 0)"

text \<open>\<open>None\<close>: the variable is unset and the caller's flag stays as it is.\<close>

definition envOverridesD2DInputFirst :: "string option \<Rightarrow> bool option" where
  "envOverridesD2DInputFirst env = map_option (\<lambda>e. c_atoi e \<noteq> 0) env"

definition skipDma :: "string option \<Rightarrow> bool" where
  "skipDma env = (case env of None \<Rightarrow> False | Some e \<Rightarrow> c_atoi e \<noteq> 0)"

definition pcclHostRingSlots :: "string option \<Rightarrow> int" where
  "pcclHostRingSlots env =
     (if env_unset env then 3
      else (let v = c_atoi (the env) in if 2 \<le> v then v else 0))"

definition forcedSliceFromEnv :: "string option \<Rightarrow> size_t" where
  "forcedSliceFromEnv env =
     (if env_unset env then 0
      else case strtoull10 (the env) of
             None \<Rightarrow> 0
           | Some (parsed, _) \<Rightarrow> if parsed < 4096 then 0 else parsed)"

lemmas env_defs = executorQueueDepthFromEnv_def slotCountFromEnv_def
  PCCL_EXECUTOR_QUEUE_DEPTH_DEFAULT_def PCCL_EXECUTOR_QUEUE_DEPTH_MAX_def

lemma queue_depth_eq_slot_count: "executorQueueDepthFromEnv = slotCountFromEnv"
  by (simp add: fun_eq_iff env_defs)

lemma slotCount_range: "1 \<le> slotCountFromEnv env \<and> slotCountFromEnv env \<le> 16"
  by (auto simp: env_defs to_int32_def split: option.split)

lemma ring_slots_cases: "pcclHostRingSlots env = 0 \<or> 2 \<le> pcclHostRingSlots env"
  by (simp add: pcclHostRingSlots_def Let_def)

end
