(* ===== verification/IR.thy ===== *)
theory IR
  imports CEnv
begin

text \<open>
  The vocabulary of the PCIe library (\<^verbatim>\<open>pcie-ccl-cuda/src/ir\<close>): opcodes, device buffers,
  versioned progress keys with their order, instructions, layouts, compiled graphs, and the
  sizes of subchunk slices and staging rings.
\<close>

section \<open>Limits\<close>

definition MAX_CHUNKS :: int where "MAX_CHUNKS = 128"
definition MAX_RANKS :: int where "MAX_RANKS = 8"
definition MAX_NUMA_NODES :: int where "MAX_NUMA_NODES = 8"
definition MAX_PROGRESS_VERSIONS :: int where "MAX_PROGRESS_VERSIONS = 16"
definition MAX_PROGRESS_READERS :: int where "MAX_PROGRESS_READERS = 32"
definition PCCL_D2H_LEAD_WINDOW :: nat where "PCCL_D2H_LEAD_WINDOW = 4"
definition DOUBLE_BUFFER_SLOTS :: nat where "DOUBLE_BUFFER_SLOTS = 2"

lemmas limit_defs = MAX_CHUNKS_def MAX_RANKS_def MAX_NUMA_NODES_def
  MAX_PROGRESS_VERSIONS_def MAX_PROGRESS_READERS_def

section \<open>Enumerations\<close>

datatype op_code = NOP | D2D | D2H | H2D | H2H | H2HReduce | D2DReduce

datatype device_buffer_kind = INPUT | OUTPUT | SCRATCH | INTERNAL

datatype progress_space = PS_HOST | PS_INPUT | PS_OUTPUT | PS_SCRATCH | PS_INTERNAL

datatype scalar_type = Int8 | Uint8 | Int32 | Uint32 | Int64 | Uint64
  | Float16 | Float32 | Float64 | Bfloat16

datatype reduce_op = Sum_op | Max_op | Min_op

datatype in_place_alias_mode = SameBase | AllGatherAlias

datatype d2d_placement = Local | RemoteRead | RemoteWrite

datatype staging_policy = Auto | Conservative | DirectOverwrite | ForceInternal

text \<open>\<^verbatim>\<open>static_cast<int>(space)\<close>: the enumerators in declaration order.\<close>

fun space_code :: "progress_space \<Rightarrow> nat" where
  "space_code PS_HOST = 0"
| "space_code PS_INPUT = 1"
| "space_code PS_OUTPUT = 2"
| "space_code PS_SCRATCH = 3"
| "space_code PS_INTERNAL = 4"

lemma space_code_inj [simp]: "space_code a = space_code b \<longleftrightarrow> a = b"
  by (cases a; cases b) simp_all

lemma space_code_less [simp]: "space_code a < 5"
  by (cases a) simp_all

fun progressSpaceForDeviceBuffer :: "device_buffer_kind \<Rightarrow> progress_space" where
  "progressSpaceForDeviceBuffer INPUT = PS_INPUT"
| "progressSpaceForDeviceBuffer OUTPUT = PS_OUTPUT"
| "progressSpaceForDeviceBuffer SCRATCH = PS_SCRATCH"
| "progressSpaceForDeviceBuffer INTERNAL = PS_INTERNAL"

fun deviceBufferKindForProgressSpace :: "progress_space \<Rightarrow> device_buffer_kind" where
  "deviceBufferKindForProgressSpace PS_INPUT = INPUT"
| "deviceBufferKindForProgressSpace PS_OUTPUT = OUTPUT"
| "deviceBufferKindForProgressSpace PS_SCRATCH = SCRATCH"
| "deviceBufferKindForProgressSpace PS_INTERNAL = INTERNAL"
| "deviceBufferKindForProgressSpace PS_HOST = OUTPUT"

fun isDeviceProgressSpace :: "progress_space \<Rightarrow> bool" where
  "isDeviceProgressSpace s = (s \<noteq> PS_HOST)"

fun deviceProgressSpaceIndex :: "progress_space \<Rightarrow> nat" where
  "deviceProgressSpaceIndex PS_INPUT = 0"
| "deviceProgressSpaceIndex PS_OUTPUT = 1"
| "deviceProgressSpaceIndex PS_SCRATCH = 2"
| "deviceProgressSpaceIndex PS_INTERNAL = 3"
| "deviceProgressSpaceIndex PS_HOST = 0"

fun deviceBufferKindName :: "device_buffer_kind \<Rightarrow> string" where
  "deviceBufferKindName INPUT = ''input''"
| "deviceBufferKindName OUTPUT = ''output''"
| "deviceBufferKindName SCRATCH = ''scratch''"
| "deviceBufferKindName INTERNAL = ''internal''"

lemma device_kind_roundtrip [simp]:
  "deviceBufferKindForProgressSpace (progressSpaceForDeviceBuffer k) = k"
  by (cases k) simp_all

lemma device_space_roundtrip:
  "isDeviceProgressSpace s \<Longrightarrow>
     progressSpaceForDeviceBuffer (deviceBufferKindForProgressSpace s) = s"
  by (cases s) simp_all

lemma device_space_not_host [simp]: "progressSpaceForDeviceBuffer k \<noteq> PS_HOST"
  by (cases k) simp_all

lemma device_space_eq [simp]:
  "progressSpaceForDeviceBuffer k = progressSpaceForDeviceBuffer l \<longleftrightarrow> k = l"
  by (cases k; cases l) simp_all

lemma device_space_eq_const [simp]:
  "progressSpaceForDeviceBuffer k = PS_INPUT \<longleftrightarrow> k = INPUT"
  "progressSpaceForDeviceBuffer k = PS_OUTPUT \<longleftrightarrow> k = OUTPUT"
  "progressSpaceForDeviceBuffer k = PS_SCRATCH \<longleftrightarrow> k = SCRATCH"
  "progressSpaceForDeviceBuffer k = PS_INTERNAL \<longleftrightarrow> k = INTERNAL"
  by (cases k; simp)+

lemma device_index_inj:
  "isDeviceProgressSpace a \<Longrightarrow> isDeviceProgressSpace b \<Longrightarrow>
     deviceProgressSpaceIndex a = deviceProgressSpaceIndex b \<Longrightarrow> a = b"
  by (cases a; cases b) simp_all

section \<open>Progress keys\<close>

datatype progress_key =
  ProgressKey (pk_space: progress_space) (pk_owner: int) (pk_chunk: int) (pk_version: int)

text \<open>\<^verbatim>\<open>ProgressKey::operator<\<close>, with its early returns.\<close>

definition key_less :: "progress_key \<Rightarrow> progress_key \<Rightarrow> bool" where
  "key_less a b \<longleftrightarrow>
     (if pk_space a \<noteq> pk_space b then space_code (pk_space a) < space_code (pk_space b)
      else if pk_owner a \<noteq> pk_owner b then pk_owner a < pk_owner b
      else if pk_chunk a \<noteq> pk_chunk b then pk_chunk a < pk_chunk b
      else pk_version a < pk_version b)"

instantiation progress_key :: linorder
begin

definition less_progress_key :: "progress_key \<Rightarrow> progress_key \<Rightarrow> bool" where
  "less_progress_key a b = key_less a b"

definition less_eq_progress_key :: "progress_key \<Rightarrow> progress_key \<Rightarrow> bool" where
  "less_eq_progress_key a b = (a = b \<or> key_less a b)"

instance
proof
  fix a b c :: progress_key
  show "a < b \<longleftrightarrow> a \<le> b \<and> \<not> b \<le> a"
    by (cases a; cases b)
      (auto simp: less_progress_key_def less_eq_progress_key_def key_less_def split: if_splits)
  show "a \<le> a" by (simp add: less_eq_progress_key_def)
  show "a \<le> b \<Longrightarrow> b \<le> c \<Longrightarrow> a \<le> c"
    by (cases a; cases b; cases c)
      (auto simp: less_eq_progress_key_def key_less_def split: if_splits)
  show "a \<le> b \<Longrightarrow> b \<le> a \<Longrightarrow> a = b"
    by (cases a; cases b) (auto simp: less_eq_progress_key_def key_less_def split: if_splits)
  show "a \<le> b \<or> b \<le> a"
    using space_code_inj[of "pk_space a" "pk_space b"]
      linorder_neqE_nat[of "space_code (pk_space a)" "space_code (pk_space b)"]
    by (cases a; cases b) (auto simp: less_eq_progress_key_def key_less_def)
qed

end

definition hostKey :: "int \<Rightarrow> int \<Rightarrow> int \<Rightarrow> progress_key" where
  "hostKey numa chunk version = ProgressKey PS_HOST numa chunk version"

definition deviceKey :: "device_buffer_kind \<Rightarrow> int \<Rightarrow> int \<Rightarrow> int \<Rightarrow> progress_key" where
  "deviceKey kind owner chunk version =
     ProgressKey (progressSpaceForDeviceBuffer kind) owner chunk version"

definition sameBaseKey :: "progress_key \<Rightarrow> progress_key \<Rightarrow> bool" where
  "sameBaseKey a b \<longleftrightarrow> pk_space a = pk_space b \<and> pk_owner a = pk_owner b \<and> pk_chunk a = pk_chunk b"

text \<open>\<open>base.version = 0\<close> and \<open>key.version = v\<close>.\<close>

definition with_version :: "progress_key \<Rightarrow> int \<Rightarrow> progress_key" where
  "with_version k v = ProgressKey (pk_space k) (pk_owner k) (pk_chunk k) v"

abbreviation base_key :: "progress_key \<Rightarrow> progress_key" where
  "base_key k \<equiv> with_version k 0"

lemma with_version_sel [simp]:
  "pk_space (with_version k v) = pk_space k" "pk_owner (with_version k v) = pk_owner k"
  "pk_chunk (with_version k v) = pk_chunk k" "pk_version (with_version k v) = v"
  "with_version (with_version k v) w = with_version k w"
  by (simp_all add: with_version_def)

lemma with_version_same [simp]: "with_version k (pk_version k) = k"
  by (cases k) (simp add: with_version_def)

lemma sameBase_iff: "sameBaseKey a b \<longleftrightarrow> base_key a = base_key b"
  by (cases a; cases b) (auto simp: sameBaseKey_def with_version_def)

lemma with_version_eq_iff:
  "with_version k v = with_version l w \<longleftrightarrow> base_key k = base_key l \<and> v = w"
  by (auto simp: with_version_def)

lemma hostKey_sel [simp]: "pk_space (hostKey n c v) = PS_HOST" "pk_owner (hostKey n c v) = n"
  "pk_chunk (hostKey n c v) = c" "pk_version (hostKey n c v) = v"
  by (simp_all add: hostKey_def)

lemma deviceKey_sel [simp]:
  "pk_space (deviceKey d n c v) = progressSpaceForDeviceBuffer d"
  "pk_owner (deviceKey d n c v) = n" "pk_chunk (deviceKey d n c v) = c"
  "pk_version (deviceKey d n c v) = v"
  by (simp_all add: deviceKey_def)

lemma key_base_simps [simp]:
  "base_key (hostKey n c v) = hostKey n c 0" "base_key (deviceKey d n c v) = deviceKey d n c 0"
  by (simp_all add: with_version_def hostKey_def deviceKey_def)

section \<open>Instructions and programs\<close>

record chunk_address =
  numa_id :: int
  chunk_idx :: int

record instruction =
  i_op :: op_code
  i_rank :: int
  i_src_rank :: int
  i_src_buf :: device_buffer_kind
  i_dst_buf :: device_buffer_kind
  i_src :: chunk_address
  i_src2 :: chunk_address
  i_dst :: chunk_address

record ir_program =
  p_name :: string
  p_nranks :: int
  p_input_chunk_count :: int
  p_output_chunk_count :: int
  p_instructions :: "instruction list"
  p_all_instructions :: "instruction list"

text \<open>\<^verbatim>\<open>src_rank >= 0 ? src_rank : rank\<close>, as the compiler writes it everywhere.\<close>

definition eff_src_rank :: "instruction \<Rightarrow> int" where
  "eff_src_rank inst = (if 0 \<le> i_src_rank inst then i_src_rank inst else i_rank inst)"

section \<open>Layouts, nodes and compiled graphs\<close>

record layout_desc =
  segment_size :: size_t
  stride_offset :: size_t
  l_chunk_size :: size_t
  chunks_per_segment :: int
  chunk_offsets :: "size_t list"
  chunk_sizes :: "size_t list"

record node_input =
  ni_key :: progress_key
  ni_reader_id :: int
  ni_ring_buffered :: bool

record instruction_node =
  n_op :: op_code
  n_source_rank :: int
  n_destination_rank :: int
  n_placement :: d2d_placement
  n_work_bytes :: size_t
  n_inputs :: "node_input list"
  n_output :: progress_key
  n_output_ring :: bool
  n_overwrite_guard :: "progress_key option"
  n_resource_key :: string
  n_terminal :: bool

record chunk_version =
  cv_key :: progress_key
  cv_ring_buffered :: bool
  cv_num_readers :: int

record compile_options =
  seg_count :: size_t
  element_size :: size_t
  co_scalar_type :: scalar_type
  co_reduce_op :: reduce_op
  stride :: size_t
  d2h_segments :: int
  h2d_segments :: int
  is_in_place :: bool
  in_place_mode :: in_place_alias_mode

record graph_options =
  legacy_layout :: compile_options
  go_staging_policy :: staging_policy
  prioritize_input_d2d :: bool

record compiled_graph =
  g_rank :: int
  g_world_size :: int
  g_input_chunk_count :: int
  g_output_chunk_count :: int
  g_total_bytes :: size_t
  g_chunk_size :: size_t
  g_element_size :: size_t
  g_num_subchunks :: size_t
  g_scalar_type :: scalar_type
  g_reduce_op :: reduce_op
  g_is_in_place :: bool
  g_has_remote_d2d :: bool
  g_internal_bytes :: size_t
  g_layout :: "progress_space \<Rightarrow> layout_desc"
  g_nodes :: "instruction_node list"
  g_initial_ready_inputs :: "progress_key list"
  g_terminal_outputs :: "progress_key list"
  g_active_keys :: "progress_key list"
  g_reader_assignment :: "chunk_version list"

section \<open>Subchunk slices and staging rings\<close>

text \<open>\<^verbatim>\<open>while (s * 2 <= target && s * 2 <= hi) s *= 2;\<close>\<close>

definition grow_slice :: "size_t \<Rightarrow> size_t \<Rightarrow> size_t \<Rightarrow> size_t" where
  "grow_slice target hi s0 = while (\<lambda>s. s * 2 \<le> target \<and> s * 2 \<le> hi) (\<lambda>s. s * 2) s0"

definition pcclSubchunkSliceFor :: "size_t \<Rightarrow> size_t \<Rightarrow> size_t" where
  "pcclSubchunkSliceFor forced chunk_size =
     (if forced \<noteq> 0 then forced
      else (let lo = 524288; hi = 4194304; target = chunk_size div 8;
                s = grow_slice target hi lo;
                big_hi = 16777216; big_target = chunk_size div 64
            in if 536870912 \<le> chunk_size then grow_slice big_target big_hi s else s))"

definition pcclRingSlotsFor :: "int \<Rightarrow> nat" where
  "pcclRingSlotsFor host_ring_slots =
     (let slots = nat host_ring_slots in if 2 \<le> slots then slots else DOUBLE_BUFFER_SLOTS)"

definition numSubchunks :: "size_t \<Rightarrow> size_t \<Rightarrow> size_t" where
  "numSubchunks chunk_size sl =
     (let n = sub64 (add64 chunk_size sl) 1 div sl in if n = 0 then 1 else n)"

lemma grow_slice_prop:
  assumes "0 < s0" and "P s0" and "\<And>s. P s \<Longrightarrow> s * 2 \<le> target \<Longrightarrow> s * 2 \<le> hi \<Longrightarrow> P (s * 2)"
  shows "P (grow_slice target hi s0) \<and> 0 < grow_slice target hi s0 \<and>
    \<not> (grow_slice target hi s0 * 2 \<le> target \<and> grow_slice target hi s0 * 2 \<le> hi)"
  unfolding grow_slice_def
  by (rule while_rule [where P = "\<lambda>s. P s \<and> 0 < s" and r = "measure (\<lambda>s. hi - s)"])
    (use assms in auto)

lemma grow_slice_range:
  assumes "0 < s0"
  shows "s0 \<le> grow_slice target hi s0 \<and> grow_slice target hi s0 \<le> max s0 (min target hi)"
  using grow_slice_prop[of s0 "\<lambda>s. s0 \<le> s \<and> s \<le> max s0 (min target hi)"] assms by force

lemma grow_slice_pow2:
  assumes "0 < s0"
  shows "\<exists>k. grow_slice target hi s0 = s0 * 2 ^ k"
proof -
  have "\<exists>k. s * 2 = s0 * 2 ^ k" if "\<exists>k. s = s0 * 2 ^ k" for s
    using that by (metis mult.assoc power_Suc2)
  then show ?thesis
    using grow_slice_prop[of s0 "\<lambda>s. \<exists>k. s = s0 * 2 ^ k"] assms
    by (metis mult.right_neutral power_0)
qed

lemma slice_default_range:
  "524288 \<le> pcclSubchunkSliceFor 0 chunk \<and> pcclSubchunkSliceFor 0 chunk \<le> 16777216 \<and>
   pcclSubchunkSliceFor 0 chunk \<le> max 524288 (chunk div 8)"
proof -
  define a where "a = grow_slice (chunk div 8) 4194304 524288"
  define b where "b = grow_slice (chunk div 64) 16777216 a"
  have a: "524288 \<le> a" "a \<le> max 524288 (min (chunk div 8) 4194304)"
    using grow_slice_range[of 524288 "chunk div 8" 4194304] by (simp_all add: a_def)
  then have b: "a \<le> b" "b \<le> max a (min (chunk div 64) 16777216)"
    using grow_slice_range[of a "chunk div 64" 16777216] by (simp_all add: b_def)
  have d: "chunk div 64 \<le> chunk div 8" by (simp add: div_le_mono2)
  have e: "pcclSubchunkSliceFor 0 chunk = (if 536870912 \<le> chunk then b else a)"
    by (simp add: pcclSubchunkSliceFor_def Let_def a_def b_def)
  have "524288 \<le> x \<and> x \<le> 16777216 \<and> x \<le> max 524288 (chunk div 8)" if "x = a \<or> x = b" for x
    using that a b d by (simp add: max_def min_def split: if_splits) linarith+
  then show ?thesis by (simp add: e)
qed

lemma slice_pos: "0 < pcclSubchunkSliceFor forced chunk"
proof (cases "forced = 0")
  case True
  then show ?thesis using slice_default_range[of chunk] by simp
next
  case False
  then show ?thesis by (simp add: pcclSubchunkSliceFor_def)
qed

lemma slice_default_pow2: "\<exists>k. pcclSubchunkSliceFor 0 chunk = 2 ^ k"
proof -
  obtain k where k: "grow_slice (chunk div 8) 4194304 524288 = 524288 * 2 ^ k"
    using grow_slice_pow2[of 524288 "chunk div 8" 4194304] by auto
  obtain j where
    j: "grow_slice (chunk div 64) 16777216 (524288 * 2 ^ k) = 524288 * 2 ^ k * 2 ^ j"
    using grow_slice_pow2[of "524288 * 2 ^ k" "chunk div 64" 16777216] by auto
  have e1: "524288 * 2 ^ k = (2 :: nat) ^ (19 + k)"
    by (simp only: power_add) simp
  have e2: "524288 * 2 ^ k * 2 ^ j = (2 :: nat) ^ (19 + k + j)"
    by (simp only: e1 power_add)
  have "pcclSubchunkSliceFor 0 chunk =
      (if 536870912 \<le> chunk then 524288 * 2 ^ k * 2 ^ j else 524288 * 2 ^ k)"
    by (simp add: pcclSubchunkSliceFor_def Let_def k j)
  then have "pcclSubchunkSliceFor 0 chunk =
      2 ^ (if 536870912 \<le> chunk then 19 + k + j else 19 + k)"
    by (simp add: power_add split: if_split)
  then show ?thesis ..
qed

lemma numSubchunks_pos [simp]: "0 < numSubchunks c s"
  by (simp add: numSubchunks_def Let_def)

lemma numSubchunks_covers:
  assumes "0 < s" and "c + s < two64"
  shows "c \<le> numSubchunks c s * s" and "0 < c \<Longrightarrow> (numSubchunks c s - 1) * s < c"
proof -
  have w: "sub64 (add64 c s) 1 = c + s - 1"
    using assms by (simp add: size_simps)
  have d: "(c + s - 1) div s * s + (c + s - 1) mod s = c + s - 1" by simp
  have m: "(c + s - 1) mod s < s" using assms by simp
  show "c \<le> numSubchunks c s * s"
  proof (cases "(c + s - 1) div s = 0")
    case True
    then have "c + s - 1 < s" using assms by (simp add: div_eq_0_iff)
    then show ?thesis by simp
  next
    case False
    then have "numSubchunks c s * s = (c + s - 1) div s * s"
      unfolding numSubchunks_def w by (simp add: Let_def)
    then show ?thesis using d m assms by linarith
  qed
  assume "0 < c"
  then have "(c + s - 1) div s \<noteq> 0" using assms by (simp add: div_eq_0_iff)
  then have n: "numSubchunks c s = (c + s - 1) div s"
    unfolding numSubchunks_def w by (simp add: Let_def)
  have "(numSubchunks c s - 1) * s = (c + s - 1) div s * s - s"
    unfolding n by (simp add: diff_mult_distrib)
  also have "\<dots> < c" using d \<open>0 < c\<close> assms by linarith
  finally show "(numSubchunks c s - 1) * s < c" .
qed

lemma ring_slots_ge2: "2 \<le> pcclRingSlotsFor n"
  by (simp add: pcclRingSlotsFor_def DOUBLE_BUFFER_SLOTS_def Let_def)

end
