(* ===== verification/SharedState.thy ===== *)
theory SharedState
  imports IR
begin

text \<open>
  The shared-memory state of the PCIe library (\<^verbatim>\<open>memory/shared_state.hpp\<close> and
  \<^verbatim>\<open>shared_state.cpp\<close>): the progress counters of every chunk version and epoch, the
  per-communicator publication slots, and the table that maps communicator hashes to slots.
  Each operation here is one atomic call; the interleavings inside a call are the subject of
  the theories on concurrency.
\<close>

section \<open>State\<close>

text \<open>Cells are indexed by version index and \<^verbatim>\<open>epoch & 1\<close>; readers come first.\<close>

record chunk_state =
  cs_write :: "nat \<Rightarrow> nat \<Rightarrow> nat"
  cs_consume :: "nat \<Rightarrow> nat \<Rightarrow> nat"
  cs_reader_done :: "nat \<Rightarrow> nat \<Rightarrow> nat \<Rightarrow> nat"
  cs_num_readers :: "nat \<Rightarrow> int"

datatype chunk_loc =
  HostLoc (loc_comm: nat) (loc_owner: int) (loc_chunk: int)
| DeviceLoc (loc_comm: nat) (loc_space: nat) (loc_owner: int) (loc_chunk: int)

record shared_state =
  ss_transfer_complete :: int
  ss_comm_hash :: "nat \<Rightarrow> nat"
  ss_user_ready :: "int \<Rightarrow> int \<Rightarrow> int \<Rightarrow> nat"
  ss_fp_ready :: "int \<Rightarrow> int \<Rightarrow> int \<Rightarrow> nat"
  ss_fp_stage :: "int \<Rightarrow> int \<Rightarrow> int \<Rightarrow> nat"
  ss_fp_direct_ok :: "int \<Rightarrow> int \<Rightarrow> int \<Rightarrow> nat"
  ss_fp_direct_missing :: "int \<Rightarrow> int \<Rightarrow> int \<Rightarrow> nat"
  ss_fp_available :: "int \<Rightarrow> int \<Rightarrow> bool"
  ss_fp_threshold :: "int \<Rightarrow> int \<Rightarrow> nat"
  ss_chunks :: "chunk_loc \<Rightarrow> chunk_state"

definition zero_chunk :: chunk_state where
  "zero_chunk = \<lparr>cs_write = \<lambda>_ _. 0, cs_consume = \<lambda>_ _. 0, cs_reader_done = \<lambda>_ _ _. 0,
     cs_num_readers = \<lambda>_. 0\<rparr>"

definition zero_state :: shared_state where
  "zero_state = \<lparr>ss_transfer_complete = 0, ss_comm_hash = \<lambda>_. 0, ss_user_ready = \<lambda>_ _ _. 0,
     ss_fp_ready = \<lambda>_ _ _. 0, ss_fp_stage = \<lambda>_ _ _. 0, ss_fp_direct_ok = \<lambda>_ _ _. 0,
     ss_fp_direct_missing = \<lambda>_ _ _. 0, ss_fp_available = \<lambda>_ _. False, ss_fp_threshold = \<lambda>_ _. 0,
     ss_chunks = \<lambda>_. zero_chunk\<rparr>"

section \<open>Addressing a cell\<close>

definition progressVersionIndex :: "int \<Rightarrow> nat" where
  "progressVersionIndex version = (if version < 0 then 0 else nat (version mod MAX_PROGRESS_VERSIONS))"

definition commIndex :: "int \<Rightarrow> nat" where
  "commIndex comm_id = (if 0 \<le> comm_id \<and> comm_id < int PCCL_MAX_CONCURRENT_COMMS then nat comm_id else 0)"

text \<open>\<^verbatim>\<open>epoch & 1\<close> on an \<^verbatim>\<open>int\<close> epoch.\<close>

definition epoch_bit :: "int \<Rightarrow> nat" where
  "epoch_bit epoch = nat (epoch mod 2)"

definition chunk_loc_of :: "int \<Rightarrow> progress_key \<Rightarrow> chunk_loc" where
  "chunk_loc_of comm_id key =
     (let comm = commIndex comm_id in
      if pk_space key = PS_HOST then HostLoc comm (pk_owner key) (pk_chunk key)
      else DeviceLoc comm (deviceProgressSpaceIndex (pk_space key)) (pk_owner key) (pk_chunk key))"

definition chunkState :: "shared_state \<Rightarrow> int \<Rightarrow> progress_key \<Rightarrow> chunk_state" where
  "chunkState s comm_id key = ss_chunks s (chunk_loc_of comm_id key)"

definition upd_chunk ::
  "int \<Rightarrow> progress_key \<Rightarrow> (chunk_state \<Rightarrow> chunk_state) \<Rightarrow> shared_state \<Rightarrow> shared_state" where
  "upd_chunk comm_id key f s =
     s\<lparr>ss_chunks := (ss_chunks s)(chunk_loc_of comm_id key := f (chunkState s comm_id key))\<rparr>"

text \<open>Replace one cell of a table indexed by version and epoch.\<close>

definition upd2 :: "nat \<Rightarrow> nat \<Rightarrow> 'a \<Rightarrow> (nat \<Rightarrow> nat \<Rightarrow> 'a) \<Rightarrow> nat \<Rightarrow> nat \<Rightarrow> 'a" where
  "upd2 v e x f = f(v := (f v)(e := x))"

section \<open>Progress counters\<close>

definition getWriteProgress :: "shared_state \<Rightarrow> int \<Rightarrow> progress_key \<Rightarrow> int \<Rightarrow> nat" where
  "getWriteProgress s comm_id key epoch =
     cs_write (chunkState s comm_id key) (progressVersionIndex (pk_version key)) (epoch_bit epoch)"

definition getConsumeProgress :: "shared_state \<Rightarrow> int \<Rightarrow> progress_key \<Rightarrow> int \<Rightarrow> nat" where
  "getConsumeProgress s comm_id key epoch =
     cs_consume (chunkState s comm_id key) (progressVersionIndex (pk_version key)) (epoch_bit epoch)"

definition getReaderDone :: "shared_state \<Rightarrow> int \<Rightarrow> progress_key \<Rightarrow> nat \<Rightarrow> int \<Rightarrow> nat" where
  "getReaderDone s comm_id key reader epoch =
     cs_reader_done (chunkState s comm_id key) reader (progressVersionIndex (pk_version key)) (epoch_bit epoch)"

definition getNumReaders :: "shared_state \<Rightarrow> int \<Rightarrow> progress_key \<Rightarrow> int" where
  "getNumReaders s comm_id key =
     cs_num_readers (chunkState s comm_id key) (progressVersionIndex (pk_version key))"

definition setWriteProgress :: "int \<Rightarrow> progress_key \<Rightarrow> nat \<Rightarrow> int \<Rightarrow> shared_state \<Rightarrow> shared_state" where
  "setWriteProgress comm_id key value epoch =
     upd_chunk comm_id key (\<lambda>cs. cs\<lparr>cs_write :=
       upd2 (progressVersionIndex (pk_version key)) (epoch_bit epoch) value (cs_write cs)\<rparr>)"

text \<open>
  The compare-exchange loop \<^verbatim>\<open>while (new > old) if (CAS(old, new)) break;\<close> leaves the
  larger of the two values.
\<close>

definition cas_advance :: "nat \<Rightarrow> nat \<Rightarrow> nat" where
  "cas_advance old new = (if old < new then new else old)"

definition advanceWriteProgress :: "int \<Rightarrow> progress_key \<Rightarrow> nat \<Rightarrow> int \<Rightarrow> shared_state \<Rightarrow> shared_state" where
  "advanceWriteProgress comm_id key new_progress epoch s =
     setWriteProgress comm_id key (cas_advance (getWriteProgress s comm_id key epoch) new_progress) epoch s"

definition setNumReaders :: "int \<Rightarrow> progress_key \<Rightarrow> int \<Rightarrow> shared_state \<Rightarrow> shared_state" where
  "setNumReaders comm_id key count =
     upd_chunk comm_id key (\<lambda>cs. cs\<lparr>cs_num_readers :=
       (cs_num_readers cs)(progressVersionIndex (pk_version key) := count)\<rparr>)"

text \<open>The minimum over the first \<open>n\<close> readers, starting from \<open>m\<close>.\<close>

fun min_reader_done :: "(nat \<Rightarrow> nat) \<Rightarrow> nat \<Rightarrow> nat \<Rightarrow> nat" where
  "min_reader_done rd 0 m = m"
| "min_reader_done rd (Suc n) m =
     (let m' = min_reader_done rd n m in if rd n < m' then rd n else m')"

definition advanceReaderDone ::
  "int \<Rightarrow> progress_key \<Rightarrow> int \<Rightarrow> nat \<Rightarrow> int \<Rightarrow> shared_state \<Rightarrow> shared_state" where
  "advanceReaderDone comm_id key reader_id new_val epoch s =
     (if reader_id < 0 \<or> MAX_PROGRESS_READERS \<le> reader_id then s
      else
       (let v = progressVersionIndex (pk_version key); e = epoch_bit epoch;
            cs = chunkState s comm_id key;
            rd = (cs_reader_done cs)(nat reader_id :=
                   upd2 v e (cas_advance (cs_reader_done cs (nat reader_id) v e) new_val)
                     (cs_reader_done cs (nat reader_id)));
            min_rd = min_reader_done (\<lambda>i. rd i v e) (nat (cs_num_readers cs v)) new_val;
            cp = upd2 v e (cas_advance (cs_consume cs v e) min_rd) (cs_consume cs)
        in upd_chunk comm_id key (\<lambda>cs. cs\<lparr>cs_reader_done := rd, cs_consume := cp\<rparr>) s))"

text \<open>
  \<^verbatim>\<open>waitSlotFree\<close> spins until the slot is free: the value it needs, computed in
  \<^verbatim>\<open>uint64_t\<close>, and the test it makes.
\<close>

definition slot_free_needed :: "int \<Rightarrow> nat" where
  "slot_free_needed sc_idx = add64 (sub64 (int_to_size sc_idx) DOUBLE_BUFFER_SLOTS) 1"

definition waitSlotFree_returns :: "shared_state \<Rightarrow> int \<Rightarrow> progress_key \<Rightarrow> int \<Rightarrow> int \<Rightarrow> bool" where
  "waitSlotFree_returns s comm_id key sc_idx epoch \<longleftrightarrow>
     slot_free_needed sc_idx \<le> getConsumeProgress s comm_id key epoch"

definition incrementTransferCompleteCount :: "shared_state \<Rightarrow> int \<times> shared_state" where
  "incrementTransferCompleteCount s =
     (ss_transfer_complete s + 1, s\<lparr>ss_transfer_complete := ss_transfer_complete s + 1\<rparr>)"

definition resetTransferCompleteCount :: "shared_state \<Rightarrow> shared_state" where
  "resetTransferCompleteCount s = s\<lparr>ss_transfer_complete := 0\<rparr>"

section \<open>Publication slots\<close>

definition slot_args_ok :: "int \<Rightarrow> int \<Rightarrow> int \<Rightarrow> bool" where
  "slot_args_ok comm_id rank slot_idx \<longleftrightarrow>
     0 \<le> comm_id \<and> comm_id < int PCCL_MAX_CONCURRENT_COMMS \<and> 0 \<le> rank \<and> rank < MAX_RANKS \<and>
     0 \<le> slot_idx \<and> slot_idx < PCCL_EXECUTOR_QUEUE_DEPTH_MAX"

definition upd3 :: "int \<Rightarrow> int \<Rightarrow> int \<Rightarrow> 'a \<Rightarrow> (int \<Rightarrow> int \<Rightarrow> int \<Rightarrow> 'a) \<Rightarrow> int \<Rightarrow> int \<Rightarrow> int \<Rightarrow> 'a" where
  "upd3 a b c x f = f(a := (f a)(b := (f a b)(c := x)))"

definition publishUserReadySeq :: "int \<Rightarrow> int \<Rightarrow> int \<Rightarrow> nat \<Rightarrow> shared_state \<Rightarrow> shared_state" where
  "publishUserReadySeq comm_id rank slot_idx work_seq s =
     (if \<not> slot_args_ok comm_id rank slot_idx then s
      else s\<lparr>ss_user_ready := upd3 comm_id rank slot_idx work_seq (ss_user_ready s)\<rparr>)"

definition getUserReadySeq :: "shared_state \<Rightarrow> int \<Rightarrow> int \<Rightarrow> int \<Rightarrow> nat" where
  "getUserReadySeq s comm_id rank slot_idx =
     (if \<not> slot_args_ok comm_id rank slot_idx then 0 else ss_user_ready s comm_id rank slot_idx)"

definition publishFastpathReadySeq :: "int \<Rightarrow> int \<Rightarrow> int \<Rightarrow> nat \<Rightarrow> shared_state \<Rightarrow> shared_state" where
  "publishFastpathReadySeq comm_id rank slot_idx work_seq s =
     (if \<not> slot_args_ok comm_id rank slot_idx then s
      else s\<lparr>ss_fp_ready := upd3 comm_id rank slot_idx work_seq (ss_fp_ready s)\<rparr>)"

definition getFastpathReadySeq :: "shared_state \<Rightarrow> int \<Rightarrow> int \<Rightarrow> int \<Rightarrow> nat" where
  "getFastpathReadySeq s comm_id rank slot_idx =
     (if \<not> slot_args_ok comm_id rank slot_idx then 0 else ss_fp_ready s comm_id rank slot_idx)"

definition publishFastpathStageSeq :: "int \<Rightarrow> int \<Rightarrow> int \<Rightarrow> nat \<Rightarrow> shared_state \<Rightarrow> shared_state" where
  "publishFastpathStageSeq comm_id rank slot_idx work_seq s =
     (if \<not> slot_args_ok comm_id rank slot_idx then s
      else s\<lparr>ss_fp_stage := upd3 comm_id rank slot_idx work_seq (ss_fp_stage s)\<rparr>)"

definition getFastpathStageSeq :: "shared_state \<Rightarrow> int \<Rightarrow> int \<Rightarrow> int \<Rightarrow> nat" where
  "getFastpathStageSeq s comm_id rank slot_idx =
     (if \<not> slot_args_ok comm_id rank slot_idx then 0 else ss_fp_stage s comm_id rank slot_idx)"

text \<open>The two stores of a direct-status publication, in the order the code makes them.\<close>

definition publishFastpathDirectStatus :: "int \<Rightarrow> int \<Rightarrow> int \<Rightarrow> nat \<Rightarrow> bool \<Rightarrow> shared_state \<Rightarrow> shared_state" where
  "publishFastpathDirectStatus comm_id rank slot_idx work_seq all_direct s =
     (if \<not> slot_args_ok comm_id rank slot_idx then s
      else if all_direct then
        (let s1 = s\<lparr>ss_fp_direct_missing := upd3 comm_id rank slot_idx 0 (ss_fp_direct_missing s)\<rparr>
         in s1\<lparr>ss_fp_direct_ok := upd3 comm_id rank slot_idx work_seq (ss_fp_direct_ok s1)\<rparr>)
      else
        (let s1 = s\<lparr>ss_fp_direct_ok := upd3 comm_id rank slot_idx 0 (ss_fp_direct_ok s)\<rparr>
         in s1\<lparr>ss_fp_direct_missing := upd3 comm_id rank slot_idx work_seq (ss_fp_direct_missing s1)\<rparr>))"

definition getFastpathDirectStatus :: "shared_state \<Rightarrow> int \<Rightarrow> int \<Rightarrow> int \<Rightarrow> nat \<Rightarrow> int" where
  "getFastpathDirectStatus s comm_id rank slot_idx work_seq =
     (if \<not> slot_args_ok comm_id rank slot_idx then -1
      else if ss_fp_direct_ok s comm_id rank slot_idx = work_seq then 1
      else if ss_fp_direct_missing s comm_id rank slot_idx = work_seq then 0
      else -1)"

definition fp_args_ok :: "int \<Rightarrow> int \<Rightarrow> bool" where
  "fp_args_ok comm_id rank \<longleftrightarrow>
     0 \<le> comm_id \<and> comm_id < int PCCL_MAX_CONCURRENT_COMMS \<and> 0 \<le> rank \<and> rank < MAX_RANKS"

definition publishFastpathStatus :: "int \<Rightarrow> int \<Rightarrow> bool \<Rightarrow> nat \<Rightarrow> shared_state \<Rightarrow> shared_state" where
  "publishFastpathStatus comm_id rank available threshold s =
     (if \<not> fp_args_ok comm_id rank then s
      else s\<lparr>ss_fp_threshold := (ss_fp_threshold s)(comm_id := (ss_fp_threshold s comm_id)(rank := threshold)),
             ss_fp_available := (ss_fp_available s)(comm_id := (ss_fp_available s comm_id)(rank := available))\<rparr>)"

definition isFastpathRankAvailable :: "shared_state \<Rightarrow> int \<Rightarrow> int \<Rightarrow> bool" where
  "isFastpathRankAvailable s comm_id rank \<longleftrightarrow> fp_args_ok comm_id rank \<and> ss_fp_available s comm_id rank"

definition getFastpathThresholdBytes :: "shared_state \<Rightarrow> int \<Rightarrow> int \<Rightarrow> nat" where
  "getFastpathThresholdBytes s comm_id rank =
     (if \<not> fp_args_ok comm_id rank then 0 else ss_fp_threshold s comm_id rank)"

section \<open>Communicator slots\<close>

text \<open>
  The probing loop of \<^verbatim>\<open>userReadyCommSlot\<close> from attempt \<open>n\<close> on: claim an empty slot by
  compare-exchange, or find the hash already there.
\<close>

fun probe_slots :: "nat \<Rightarrow> nat \<Rightarrow> nat \<Rightarrow> (nat \<Rightarrow> nat) \<Rightarrow> int \<times> (nat \<Rightarrow> nat)" where
  "probe_slots 0 n h table = (-1, table)"
| "probe_slots (Suc fuel) n h table =
     (let idx = add64 h n mod PCCL_MAX_CONCURRENT_COMMS in
      if table idx = 0 then (int idx, table(idx := h))
      else if table idx = h then (int idx, table)
      else probe_slots fuel (Suc n) h table)"

definition userReadyCommSlot :: "nat \<Rightarrow> shared_state \<Rightarrow> int \<times> shared_state" where
  "userReadyCommSlot comm_hash s =
     (let h = (if comm_hash = 0 then 1 else comm_hash);
          (r, table) = probe_slots (PCCL_MAX_CONCURRENT_COMMS * 2) 0 h (ss_comm_hash s)
      in (r, s\<lparr>ss_comm_hash := table\<rparr>))"

section \<open>Resetting an epoch\<close>

definition reset_cell :: "nat \<Rightarrow> nat \<Rightarrow> chunk_state \<Rightarrow> chunk_state" where
  "reset_cell v e cs = cs\<lparr>cs_write := upd2 v e 0 (cs_write cs), cs_consume := upd2 v e 0 (cs_consume cs),
     cs_reader_done := (\<lambda>r. if int r < MAX_PROGRESS_READERS then upd2 v e 0 (cs_reader_done cs r)
                            else cs_reader_done cs r)\<rparr>"

definition reset_versions :: "nat \<Rightarrow> chunk_state \<Rightarrow> chunk_state" where
  "reset_versions e cs = foldl (\<lambda>cs v. reset_cell v e cs) cs [0..<nat MAX_PROGRESS_VERSIONS]"

definition DeviceProgressSpaceCount :: nat where "DeviceProgressSpaceCount = 4"

definition loc_of_comm :: "nat \<Rightarrow> chunk_loc \<Rightarrow> bool" where
  "loc_of_comm comm loc \<longleftrightarrow> loc_comm loc = comm \<and> 0 \<le> loc_chunk loc \<and> loc_chunk loc < MAX_CHUNKS \<and>
     0 \<le> loc_owner loc \<and>
     (case loc of HostLoc _ n _ \<Rightarrow> n < MAX_NUMA_NODES
      | DeviceLoc _ s r _ \<Rightarrow> s < DeviceProgressSpaceCount \<and> r < MAX_RANKS)"

definition resetEpoch :: "int \<Rightarrow> int \<Rightarrow> shared_state \<Rightarrow> shared_state" where
  "resetEpoch comm_id epoch s =
     s\<lparr>ss_chunks := (\<lambda>loc. if loc_of_comm (commIndex comm_id) loc
                           then reset_versions (epoch_bit epoch) (ss_chunks s loc) else ss_chunks s loc)\<rparr>"

definition reset_key_ok :: "progress_key \<Rightarrow> bool" where
  "reset_key_ok key \<longleftrightarrow> 0 \<le> pk_owner key \<and> 0 \<le> pk_chunk key \<and> pk_chunk key < MAX_CHUNKS \<and>
     (if pk_space key = PS_HOST then pk_owner key < MAX_NUMA_NODES else pk_owner key < MAX_RANKS)"

definition resetEpochKeys :: "int \<Rightarrow> int \<Rightarrow> progress_key list \<Rightarrow> shared_state \<Rightarrow> shared_state" where
  "resetEpochKeys comm_id epoch keys s =
     foldl (\<lambda>s key. if \<not> reset_key_ok key then s
                    else upd_chunk comm_id key
                      (reset_cell (progressVersionIndex (pk_version key)) (epoch_bit epoch)) s) s keys"

section \<open>Cells\<close>

text \<open>The cell a progress operation touches: where the chunk is, its version and its epoch.\<close>

definition cell_of :: "int \<Rightarrow> progress_key \<Rightarrow> int \<Rightarrow> chunk_loc \<times> nat \<times> nat" where
  "cell_of comm_id key epoch =
     (chunk_loc_of comm_id key, progressVersionIndex (pk_version key), epoch_bit epoch)"

definition cell_write :: "shared_state \<Rightarrow> chunk_loc \<times> nat \<times> nat \<Rightarrow> nat" where
  "cell_write s c = (case c of (loc, v, e) \<Rightarrow> cs_write (ss_chunks s loc) v e)"

definition cell_consume :: "shared_state \<Rightarrow> chunk_loc \<times> nat \<times> nat \<Rightarrow> nat" where
  "cell_consume s c = (case c of (loc, v, e) \<Rightarrow> cs_consume (ss_chunks s loc) v e)"

definition cell_reader :: "shared_state \<Rightarrow> nat \<Rightarrow> chunk_loc \<times> nat \<times> nat \<Rightarrow> nat" where
  "cell_reader s r c = (case c of (loc, v, e) \<Rightarrow> cs_reader_done (ss_chunks s loc) r v e)"

lemma get_cell:
  "getWriteProgress s comm key epoch = cell_write s (cell_of comm key epoch)"
  "getConsumeProgress s comm key epoch = cell_consume s (cell_of comm key epoch)"
  "getReaderDone s comm key r epoch = cell_reader s r (cell_of comm key epoch)"
  by (simp_all add: getWriteProgress_def getConsumeProgress_def getReaderDone_def cell_write_def
      cell_consume_def cell_reader_def cell_of_def chunkState_def)

lemma upd2_apply [simp]: "upd2 v e x f v' e' = (if v = v' \<and> e = e' then x else f v' e')"
  by (simp add: upd2_def)

lemma upd3_apply [simp]: "upd3 a b c x f a' b' c' = (if a = a' \<and> b = b' \<and> c = c' then x else f a' b' c')"
  by (simp add: upd3_def)

lemma upd_chunk_apply:
  "ss_chunks (upd_chunk comm key f s) loc =
     (if loc = chunk_loc_of comm key then f (ss_chunks s loc) else ss_chunks s loc)"
  by (simp add: upd_chunk_def chunkState_def)

lemma cell_write_set:
  "cell_write (setWriteProgress comm key x epoch s) c =
     (if c = cell_of comm key epoch then x else cell_write s c)"
  by (cases c) (auto simp: cell_write_def setWriteProgress_def upd_chunk_apply cell_of_def)

lemma cell_write_advance:
  "cell_write (advanceWriteProgress comm key x epoch s) c =
     (if c = cell_of comm key epoch then max (cell_write s c) x else cell_write s c)"
  by (auto simp: advanceWriteProgress_def cell_write_set get_cell cas_advance_def)

lemma commIndex_inj:
  assumes "0 \<le> a" "a < int PCCL_MAX_CONCURRENT_COMMS" "0 \<le> b" "b < int PCCL_MAX_CONCURRENT_COMMS"
    and "commIndex a = commIndex b"
  shows "a = b"
  using assms by (simp add: commIndex_def)

text \<open>A key the compiler emits: its version fits the table of versions.\<close>

definition version_fits :: "progress_key \<Rightarrow> bool" where
  "version_fits key \<longleftrightarrow> 0 \<le> pk_version key \<and> pk_version key < MAX_PROGRESS_VERSIONS"

lemma version_index_fits:
  "version_fits k \<Longrightarrow> int (progressVersionIndex (pk_version k)) = pk_version k"
  by (simp add: version_fits_def progressVersionIndex_def)

lemma chunk_loc_eq:
  assumes "chunk_loc_of a k = chunk_loc_of b l"
  shows "commIndex a = commIndex b \<and> pk_space k = pk_space l \<and> pk_owner k = pk_owner l \<and> pk_chunk k = pk_chunk l"
  using assms device_index_inj[of "pk_space k" "pk_space l"]
  by (auto simp: chunk_loc_of_def Let_def split: if_splits)

lemma cell_of_eq:
  assumes "version_fits k" "version_fits l" and "cell_of a k d = cell_of b l e"
  shows "commIndex a = commIndex b \<and> k = l \<and> epoch_bit d = epoch_bit e"
proof -
  have c: "chunk_loc_of a k = chunk_loc_of b l" and v: "progressVersionIndex (pk_version k) = progressVersionIndex (pk_version l)"
    and e: "epoch_bit d = epoch_bit e"
    using assms(3) by (simp_all add: cell_of_def)
  have "pk_version k = pk_version l"
    using version_index_fits[OF assms(1)] version_index_fits[OF assms(2)] v by metis
  then show ?thesis using chunk_loc_eq[OF c] e by (cases k; cases l) simp
qed

lemma min_reader_done_le:
  "min_reader_done rd n m \<le> m" "i < n \<Longrightarrow> min_reader_done rd n m \<le> rd i"
proof (induction n)
  case 0
  { case 1 then show ?case by simp }
  { case 2 then show ?case by simp }
next
  case (Suc n)
  { case 1 then show ?case using Suc by (auto simp: Let_def) }
  { case 2 then show ?case using Suc by (auto simp: Let_def less_Suc_eq) }
qed

lemma min_reader_done_ge:
  "k \<le> m \<Longrightarrow> (\<And>i. i < n \<Longrightarrow> k \<le> rd i) \<Longrightarrow> k \<le> min_reader_done rd n m"
  by (induction n) (auto simp: Let_def)

lemma advanceReaderDone_chunks:
  assumes "0 \<le> reader" "reader < MAX_PROGRESS_READERS"
    and v: "v = progressVersionIndex (pk_version key)" and e: "e = epoch_bit epoch"
    and l: "l = chunk_loc_of comm key" and cs: "cs = ss_chunks s l"
    and rd: "rd = (cs_reader_done cs)(nat reader :=
        upd2 v e (max (cs_reader_done cs (nat reader) v e) x) (cs_reader_done cs (nat reader)))"
  shows "ss_chunks (advanceReaderDone comm key reader x epoch s) = (ss_chunks s)(l :=
     cs\<lparr>cs_reader_done := rd,
        cs_consume := upd2 v e (max (cs_consume cs v e)
          (min_reader_done (\<lambda>i. rd i v e) (nat (cs_num_readers cs v)) x)) (cs_consume cs)\<rparr>)"
proof -
  have m: "cas_advance a b = max a b" for a b by (simp add: cas_advance_def max_def)
  have n: "\<not> (reader < 0 \<or> MAX_PROGRESS_READERS \<le> reader)" using assms(1,2) by simp
  have sel: "ss_chunks (s\<lparr>ss_chunks := f\<rparr>) = f" for f by simp
  show ?thesis
    unfolding advanceReaderDone_def Let_def m upd_chunk_def chunkState_def if_not_P[OF n] sel v e l cs rd
    by (rule refl)
qed

lemma advanceReaderDone_effect:
  assumes r: "0 \<le> reader" "reader < MAX_PROGRESS_READERS"
  shows "cell_reader (advanceReaderDone comm key reader x epoch s) i c =
      (if c = cell_of comm key epoch \<and> i = nat reader then max (cell_reader s i c) x else cell_reader s i c)"
    and "cell_consume (advanceReaderDone comm key reader x epoch s) c =
      (if c = cell_of comm key epoch
       then max (cell_consume s c)
         (min_reader_done (\<lambda>i. cell_reader (advanceReaderDone comm key reader x epoch s) i c)
            (nat (getNumReaders s comm key)) x)
       else cell_consume s c)"
    and "cell_write (advanceReaderDone comm key reader x epoch s) c = cell_write s c"
    and "cs_num_readers (ss_chunks (advanceReaderDone comm key reader x epoch s) loc) = cs_num_readers (ss_chunks s loc)"
proof -
  obtain loc' v' e' where c: "c = (loc', v', e')" by (cases c)
  note S = advanceReaderDone_chunks[OF r refl refl refl refl refl, of comm key x epoch s]
  show "cell_reader (advanceReaderDone comm key reader x epoch s) i c =
      (if c = cell_of comm key epoch \<and> i = nat reader then max (cell_reader s i c) x else cell_reader s i c)" for i
    unfolding cell_reader_def S c cell_of_def by simp
  show "cell_write (advanceReaderDone comm key reader x epoch s) c = cell_write s c"
    unfolding cell_write_def S c by simp
  show "cs_num_readers (ss_chunks (advanceReaderDone comm key reader x epoch s) loc) = cs_num_readers (ss_chunks s loc)"
    unfolding S by simp
  show "cell_consume (advanceReaderDone comm key reader x epoch s) c =
      (if c = cell_of comm key epoch
       then max (cell_consume s c)
         (min_reader_done (\<lambda>i. cell_reader (advanceReaderDone comm key reader x epoch s) i c)
            (nat (getNumReaders s comm key)) x)
       else cell_consume s c)"
    unfolding cell_consume_def cell_reader_def S c cell_of_def getNumReaders_def chunkState_def by simp
qed

section \<open>Resetting\<close>

lemma reset_cell_sel [simp]:
  "cs_write (reset_cell v e cs) v' e' = (if v = v' \<and> e = e' then 0 else cs_write cs v' e')"
  "cs_consume (reset_cell v e cs) v' e' = (if v = v' \<and> e = e' then 0 else cs_consume cs v' e')"
  "int r < MAX_PROGRESS_READERS \<Longrightarrow>
     cs_reader_done (reset_cell v e cs) r v' e' = (if v = v' \<and> e = e' then 0 else cs_reader_done cs r v' e')"
  "cs_num_readers (reset_cell v e cs) = cs_num_readers cs"
  by (simp_all add: reset_cell_def)

lemma reset_one:
  "cell_write (upd_chunk comm key (reset_cell (progressVersionIndex (pk_version key)) (epoch_bit epoch)) s) c =
     (if c = cell_of comm key epoch then 0 else cell_write s c)"
  "cell_consume (upd_chunk comm key (reset_cell (progressVersionIndex (pk_version key)) (epoch_bit epoch)) s) c =
     (if c = cell_of comm key epoch then 0 else cell_consume s c)"
  "int r < MAX_PROGRESS_READERS \<Longrightarrow>
   cell_reader (upd_chunk comm key (reset_cell (progressVersionIndex (pk_version key)) (epoch_bit epoch)) s) r c =
     (if c = cell_of comm key epoch then 0 else cell_reader s r c)"
  by (cases c; auto simp: cell_write_def cell_consume_def cell_reader_def upd_chunk_apply cell_of_def)+

lemma reset_keys_cells:
  "cell_write (resetEpochKeys comm epoch keys s) c =
     (if c \<in> (\<lambda>k. cell_of comm k epoch) ` set (filter reset_key_ok keys) then 0 else cell_write s c)"
  "cell_consume (resetEpochKeys comm epoch keys s) c =
     (if c \<in> (\<lambda>k. cell_of comm k epoch) ` set (filter reset_key_ok keys) then 0 else cell_consume s c)"
  "int r < MAX_PROGRESS_READERS \<Longrightarrow> cell_reader (resetEpochKeys comm epoch keys s) r c =
     (if c \<in> (\<lambda>k. cell_of comm k epoch) ` set (filter reset_key_ok keys) then 0 else cell_reader s r c)"
  unfolding resetEpochKeys_def
  by (induction keys arbitrary: s) (auto simp: reset_one)

section \<open>Probing\<close>

definition probe_at :: "nat \<Rightarrow> nat \<Rightarrow> nat" where
  "probe_at h n = add64 h n mod PCCL_MAX_CONCURRENT_COMMS"

lemma probe_at_mod: "probe_at h n = (h + n) mod 16"
proof -
  have "(h + n) mod two64 mod 16 = (h + n) mod 16" by (rule mod_mod_cancel) simp
  then show ?thesis by (simp add: probe_at_def add64_def PCCL_MAX_CONCURRENT_COMMS_def)
qed

lemma probe_found:
  assumes "k < fuel" "\<And>i. i < k \<Longrightarrow> t (probe_at h (n + i)) \<noteq> 0 \<and> t (probe_at h (n + i)) \<noteq> h"
    and "t (probe_at h (n + k)) = 0 \<or> t (probe_at h (n + k)) = h"
  shows "probe_slots fuel n h t = (int (probe_at h (n + k)), t(probe_at h (n + k) := h))"
  using assms
proof (induction k arbitrary: fuel n)
  case 0
  then obtain f where "fuel = Suc f" by (cases fuel) auto
  then show ?case using 0(3) by (auto simp: probe_at_def Let_def fun_upd_idem)
next
  case (Suc k)
  then obtain f where f: "fuel = Suc f" "k < f" by (cases fuel) auto
  have "probe_slots fuel n h t = probe_slots f (Suc n) h t"
    using Suc.prems(2)[of 0] by (simp add: f probe_at_def Let_def)
  then show ?case using Suc.IH[OF f(2), of "Suc n"] Suc.prems(2)[of "Suc _"] Suc.prems(3) by simp
qed

lemma probe_cases:
  "(\<exists>k < fuel. (\<forall>i < k. t (probe_at h (n + i)) \<noteq> 0 \<and> t (probe_at h (n + i)) \<noteq> h) \<and>
      (t (probe_at h (n + k)) = 0 \<or> t (probe_at h (n + k)) = h)) \<or>
   (\<forall>i < fuel. t (probe_at h (n + i)) \<noteq> 0 \<and> t (probe_at h (n + i)) \<noteq> h) \<and> probe_slots fuel n h t = (-1, t)"
proof (induction fuel arbitrary: n)
  case 0
  then show ?case by simp
next
  case (Suc fuel)
  show ?case
  proof (cases "t (probe_at h n) = 0 \<or> t (probe_at h n) = h")
    case True
    then show ?thesis by (intro disjI1 exI[of _ 0]) simp
  next
    case False
    then have e: "probe_slots (Suc fuel) n h t = probe_slots fuel (Suc n) h t"
      by (simp add: probe_at_def Let_def)
    have sh: "(\<forall>i < Suc m. P i) \<longleftrightarrow> P 0 \<and> (\<forall>i < m. P (Suc i))" for m and P :: "nat \<Rightarrow> bool"
      by (auto simp: less_Suc_eq_0_disj)
    show ?thesis
    proof (cases "\<exists>k < fuel. (\<forall>i < k. t (probe_at h (Suc n + i)) \<noteq> 0 \<and> t (probe_at h (Suc n + i)) \<noteq> h) \<and>
      (t (probe_at h (Suc n + k)) = 0 \<or> t (probe_at h (Suc n + k)) = h)")
      case True
      then obtain k where k: "k < fuel" "\<forall>i < k. t (probe_at h (Suc n + i)) \<noteq> 0 \<and> t (probe_at h (Suc n + i)) \<noteq> h"
        "t (probe_at h (Suc n + k)) = 0 \<or> t (probe_at h (Suc n + k)) = h" by blast
      then show ?thesis using False by (intro disjI1 exI[of _ "Suc k"]) (simp add: sh)
    next
      case none: False
      have "A \<or> B \<Longrightarrow> \<not> A \<Longrightarrow> B" for A B by blast
      from this[OF Suc[of "Suc n"] none]
      show ?thesis using False e by (intro disjI2) (simp add: sh del: probe_slots.simps)
    qed
  qed
qed

section \<open>Properties\<close>

text \<open>
  Progress counters. For keys whose versions fit the table, advancing a write counter
  raises it to the requested value if that is larger and leaves the counter of every other
  key, communicator or epoch parity unchanged.
\<close>

theorem advance_write_exact:
  assumes "version_fits key" "version_fits key'"
    and "0 \<le> comm" "comm < int PCCL_MAX_CONCURRENT_COMMS"
    and "0 \<le> comm'" "comm' < int PCCL_MAX_CONCURRENT_COMMS"
  shows "getWriteProgress (advanceWriteProgress comm key x epoch s) comm' key' epoch' =
     (if comm' = comm \<and> key' = key \<and> epoch_bit epoch' = epoch_bit epoch
      then max (getWriteProgress s comm key epoch) x
      else getWriteProgress s comm' key' epoch')"
proof (cases "cell_of comm' key' epoch' = cell_of comm key epoch")
  case True
  then show ?thesis
    using cell_of_eq[OF assms(2,1) True] commIndex_inj[OF assms(5,6,3,4)]
    by (simp add: get_cell cell_write_advance)
next
  case False
  then have n: "\<not> (comm' = comm \<and> key' = key \<and> epoch_bit epoch' = epoch_bit epoch)"
    by (auto simp: cell_of_def)
  show ?thesis unfolding get_cell cell_write_advance if_not_P[OF False] if_not_P[OF n] by (rule refl)
qed

theorem advance_write_exact_witness:
  "getWriteProgress (advanceWriteProgress 1 (hostKey 0 3 2) 5 7 zero_state) 1 (hostKey 0 3 2) 9 = 5 \<and>
   getWriteProgress (advanceWriteProgress 1 (hostKey 0 3 2) 5 7 zero_state) 1 (hostKey 0 3 1) 9 = 0"
proof -
  have f: "version_fits (hostKey 0 3 2)" "version_fits (hostKey 0 3 1)"
    by (simp_all add: version_fits_def MAX_PROGRESS_VERSIONS_def)
  have z: "getWriteProgress zero_state c k e = 0" for c k e
    by (simp add: getWriteProgress_def chunkState_def zero_state_def zero_chunk_def)
  have ne: "hostKey 0 3 1 \<noteq> hostKey 0 3 2" by (simp add: hostKey_def)
  show ?thesis
    using advance_write_exact[OF f(1) f(1), of 1 1 5 7 zero_state 9]
      advance_write_exact[OF f(1) f(2), of 1 1 5 7 zero_state 9]
    by (simp add: z ne epoch_bit_def PCCL_MAX_CONCURRENT_COMMS_def)
qed

text \<open>
  Epoch reset. Resetting the keys of an epoch zeroes the write counter, the consume
  counter and every reader cursor of exactly the cells of the keys that are in range, and
  touches nothing else.
\<close>

theorem reset_keys_exact:
  assumes "int r < MAX_PROGRESS_READERS"
  shows "getWriteProgress (resetEpochKeys comm epoch keys s) comm' key' epoch' =
      (if cell_of comm' key' epoch' \<in> (\<lambda>k. cell_of comm k epoch) ` set (filter reset_key_ok keys)
       then 0 else getWriteProgress s comm' key' epoch') \<and>
    getConsumeProgress (resetEpochKeys comm epoch keys s) comm' key' epoch' =
      (if cell_of comm' key' epoch' \<in> (\<lambda>k. cell_of comm k epoch) ` set (filter reset_key_ok keys)
       then 0 else getConsumeProgress s comm' key' epoch') \<and>
    getReaderDone (resetEpochKeys comm epoch keys s) comm' key' r epoch' =
      (if cell_of comm' key' epoch' \<in> (\<lambda>k. cell_of comm k epoch) ` set (filter reset_key_ok keys)
       then 0 else getReaderDone s comm' key' r epoch')"
  using assms by (simp add: get_cell reset_keys_cells)

theorem reset_keys_exact_witness:
  "getWriteProgress (resetEpochKeys 0 4 [hostKey 1 2 3]
     (setWriteProgress 0 (hostKey 1 2 3) 9 5 (setWriteProgress 0 (hostKey 1 2 3) 7 4 zero_state))) 0 (hostKey 1 2 3) 4 = 0 \<and>
   getWriteProgress (resetEpochKeys 0 4 [hostKey 1 2 3]
     (setWriteProgress 0 (hostKey 1 2 3) 9 5 (setWriteProgress 0 (hostKey 1 2 3) 7 4 zero_state))) 0 (hostKey 1 2 3) 5 = 9"
proof -
  let ?s = "setWriteProgress 0 (hostKey 1 2 3) 9 5 (setWriteProgress 0 (hostKey 1 2 3) 7 4 zero_state)"
  have r: "int 0 < MAX_PROGRESS_READERS" by (simp add: MAX_PROGRESS_READERS_def)
  have k: "reset_key_ok (hostKey 1 2 3)" by (simp add: reset_key_ok_def limit_defs)
  have ne: "cell_of 0 (hostKey 1 2 3) 5 \<noteq> cell_of 0 (hostKey 1 2 3) 4" by (simp add: cell_of_def epoch_bit_def)
  have g: "getWriteProgress ?s 0 (hostKey 1 2 3) 5 = 9" by (simp add: get_cell cell_write_set)
  show ?thesis
    using reset_keys_exact[OF r, of 0 4 "[hostKey 1 2 3]" ?s 0 "hostKey 1 2 3" 4]
      reset_keys_exact[OF r, of 0 4 "[hostKey 1 2 3]" ?s 0 "hostKey 1 2 3" 5] k ne g by simp
qed

text \<open>
  C15. Communicator slots. A successful \<^verbatim>\<open>userReadyCommSlot\<close> returns a slot below 16 that
  holds the hash, overwrites no other communicator's slot, and returns the same slot again in
  every later state in which the claimed slots are still claimed.
\<close>

theorem comm_slot_stable:
  assumes call: "userReadyCommSlot h s = (i, s1)" and i: "0 \<le> i"
    and later: "\<And>j. ss_comm_hash s1 j \<noteq> 0 \<Longrightarrow> ss_comm_hash s2 j = ss_comm_hash s1 j"
  shows "i < 16 \<and> ss_comm_hash s1 (nat i) = (if h = 0 then 1 else h) \<and>
    (\<forall>j. ss_comm_hash s j = 0 \<or> ss_comm_hash s1 j = ss_comm_hash s j) \<and>
    userReadyCommSlot h s2 = (i, s2)"
proof -
  define g where "g = (if h = 0 then 1 else h)"
  let ?t = "ss_comm_hash s"
  have fuel: "PCCL_MAX_CONCURRENT_COMMS * 2 = 32" by (simp add: PCCL_MAX_CONCURRENT_COMMS_def)
  have e: "userReadyCommSlot h s' = (case probe_slots 32 0 g (ss_comm_hash s') of
      (r, t) \<Rightarrow> (r, s'\<lparr>ss_comm_hash := t\<rparr>))" for s'
    by (simp add: userReadyCommSlot_def Let_def g_def fuel)
  have "probe_slots 32 0 g ?t \<noteq> (-1, ?t)" using call i by (auto simp: e)
  then obtain k where k: "k < 32" "\<forall>j < k. ?t (probe_at g j) \<noteq> 0 \<and> ?t (probe_at g j) \<noteq> g"
    "?t (probe_at g k) = 0 \<or> ?t (probe_at g k) = g"
    using probe_cases[of 32 ?t g 0] by auto
  let ?p = "probe_at g k"
  have "probe_slots 32 0 g ?t = (int ?p, ?t(?p := g))"
    using probe_found[of k 32 ?t g 0] k by simp
  then have i_eq: "i = int ?p" and s1: "s1 = s\<lparr>ss_comm_hash := ?t(?p := g)\<rparr>"
    using call by (auto simp: e)
  have g0: "g \<noteq> 0" by (simp add: g_def)
  have same: "ss_comm_hash s2 (probe_at g j) = ?t (probe_at g j)" if "j < k" for j
  proof -
    have "probe_at g j \<noteq> ?p" using k(2)[rule_format, OF that] k(3) by auto
    then show ?thesis using later[of "probe_at g j"] k(2)[rule_format, OF that] by (simp add: s1)
  qed
  have hit: "ss_comm_hash s2 ?p = g" using later[of ?p] g0 by (simp add: s1)
  have "probe_slots 32 0 g (ss_comm_hash s2) = (int ?p, (ss_comm_hash s2)(?p := g))"
    using probe_found[of k 32 "ss_comm_hash s2" g 0] k same hit by simp
  then have "userReadyCommSlot h s2 = (i, s2)"
    using hit by (simp add: e i_eq fun_upd_idem)
  moreover have "ss_comm_hash s j = 0 \<or> ss_comm_hash s1 j = ss_comm_hash s j" for j
    using k(3) by (auto simp: s1)
  moreover have "i < 16" by (simp add: i_eq probe_at_mod)
  ultimately show ?thesis by (simp add: i_eq s1 flip: g_def)
qed

theorem comm_slot_stable_witness:
  "userReadyCommSlot 17 (snd (userReadyCommSlot 33 (snd (userReadyCommSlot 17 zero_state)))) =
     (1, snd (userReadyCommSlot 33 (snd (userReadyCommSlot 17 zero_state))))"
proof -
  let ?s1 = "snd (userReadyCommSlot 17 zero_state)" and ?s2 = "snd (userReadyCommSlot 33 (snd (userReadyCommSlot 17 zero_state)))"
  have fuel: "PCCL_MAX_CONCURRENT_COMMS * 2 = 32" by (simp add: PCCL_MAX_CONCURRENT_COMMS_def)
  have p1: "probe_slots 32 0 17 (\<lambda>_. 0) = (1, (\<lambda>_. 0)(1 := 17))"
    using probe_found[of 0 32 "\<lambda>_. 0" 17 0] by (simp add: probe_at_mod)
  have p2: "probe_slots 32 0 33 ((\<lambda>_. 0)(1 := 17)) = (2, (\<lambda>_. 0)(1 := 17, 2 := 33))"
    using probe_found[of 1 32 "(\<lambda>_. 0)(1 := 17)" 33 0] by (simp add: probe_at_mod)
  have 1: "userReadyCommSlot 17 zero_state = (1, zero_state\<lparr>ss_comm_hash := (\<lambda>_. 0)(1 := 17)\<rparr>)"
    by (simp add: userReadyCommSlot_def Let_def fuel zero_state_def p1)
  have 2: "userReadyCommSlot 33 ?s1 = (2, ?s1\<lparr>ss_comm_hash := (\<lambda>_. 0)(1 := 17, 2 := 33)\<rparr>)"
    unfolding 1 snd_conv
    using p2 by (simp add: userReadyCommSlot_def Let_def fuel)
  have later: "ss_comm_hash ?s1 j \<noteq> 0 \<Longrightarrow> ss_comm_hash ?s2 j = ss_comm_hash ?s1 j" for j
    unfolding 2 snd_conv unfolding 1 by (simp split: if_splits)
  have "userReadyCommSlot 17 zero_state = (1, ?s1)" by (simp add: 1)
  from comm_slot_stable[OF this _ later] show ?thesis by (simp del: One_nat_def)
qed

end
