(* ===== verification/EventRing.thy ===== *)
theory EventRing
  imports Prelude
begin

text \<open>
  The ring of in-flight device events of one DMA lane (\<^verbatim>\<open>executor/event_ring.hpp\<close>) with the
  executor's parallel array of slot information. Head and tail are free-running 64-bit
  counters; the ring is shown to be a first-in first-out queue even across their wrap-around.
\<close>

section \<open>The ring\<close>

record 'a event_ring =
  er_capacity :: "64 word"
  er_head :: "64 word"
  er_tail :: "64 word"
  er_initialized :: bool
  er_info :: "nat \<Rightarrow> 'a"     \<comment> \<open>the executor's \<^verbatim>\<open>slot_info_rings_\<close> row\<close>

definition DEFAULT_CAPACITY :: "64 word" where "DEFAULT_CAPACITY = 64"

definition new_ring :: "64 word \<Rightarrow> 'a \<Rightarrow> 'a event_ring" where
  "new_ring capacity x =
     \<lparr>er_capacity = capacity, er_head = 0, er_tail = 0, er_initialized = False, er_info = \<lambda>_. x\<rparr>"

text \<open>
  \<^verbatim>\<open>initialize\<close>: \<open>create i\<close> says whether \<^verbatim>\<open>devCreateEvent\<close> succeeds for event \<open>i\<close>. After a
  failure the events created so far are destroyed and the ring stays uninitialised.
\<close>

definition initialize :: "(nat \<Rightarrow> bool) \<Rightarrow> 'a event_ring \<Rightarrow> int \<times> 'a event_ring" where
  "initialize create r =
     (if er_initialized r then (0, r)
      else if list_all create [0..<unat (er_capacity r)]
      then (0, r\<lparr>er_head := 0, er_tail := 0, er_initialized := True\<rparr>)
      else (-1, r))"

definition cleanup :: "'a event_ring \<Rightarrow> 'a event_ring" where
  "cleanup r = (if \<not> er_initialized r then r else r\<lparr>er_initialized := False\<rparr>)"

definition inflight :: "'a event_ring \<Rightarrow> 64 word" where
  "inflight r = er_head r - er_tail r"

definition isFull :: "'a event_ring \<Rightarrow> bool" where
  "isFull r \<longleftrightarrow> er_capacity r \<le> inflight r"

text \<open>\<^verbatim>\<open>nextSlot\<close>: the index of the event handed out, and the ring with the head advanced.\<close>

definition nextSlot :: "'a event_ring \<Rightarrow> nat \<times> 'a event_ring" where
  "nextSlot r = (unat (er_head r mod er_capacity r), r\<lparr>er_head := er_head r + 1\<rparr>)"

definition lastHeadIndex :: "'a event_ring \<Rightarrow> nat" where
  "lastHeadIndex r = unat ((er_head r + er_capacity r - 1) mod er_capacity r)"

definition tailIndex :: "'a event_ring \<Rightarrow> nat" where
  "tailIndex r = unat (er_tail r mod er_capacity r)"

definition peekOldest :: "'a event_ring \<Rightarrow> nat" where
  "peekOldest r = unat (er_tail r mod er_capacity r)"

definition peekNewest :: "'a event_ring \<Rightarrow> nat" where
  "peekNewest r = unat ((er_head r + er_capacity r - 1) mod er_capacity r)"

definition releaseOldest :: "'a event_ring \<Rightarrow> 'a event_ring" where
  "releaseOldest r = r\<lparr>er_tail := er_tail r + 1\<rparr>"

definition ring_reset :: "'a event_ring \<Rightarrow> 'a event_ring" where
  "ring_reset r = r\<lparr>er_head := 0, er_tail := 0\<rparr>"

text \<open>
  How the executor adds a transfer: take the next slot, then store its information at
  \<^verbatim>\<open>lastHeadIndex()\<close>.
\<close>

definition push_info :: "'a \<Rightarrow> 'a event_ring \<Rightarrow> 'a event_ring" where
  "push_info x r = (let r' = snd (nextSlot r) in r'\<lparr>er_info := (er_info r')(lastHeadIndex r' := x)\<rparr>)"

section \<open>The ring as a queue\<close>

definition ring_items :: "'a event_ring \<Rightarrow> 'a list" where
  "ring_items r = map (\<lambda>i. er_info r (unat ((er_tail r + of_nat i) mod er_capacity r)))
     [0..<unat (inflight r)]"

text \<open>The capacity divides \<open>2 ^ 64\<close> and the counters are at most a capacity apart.\<close>

definition ring_ok :: "'a event_ring \<Rightarrow> bool" where
  "ring_ok r \<longleftrightarrow> 1 < unat (er_capacity r) \<and> unat (er_capacity r) dvd two64 \<and>
     unat (inflight r) \<le> unat (er_capacity r)"

lemma unat_mod_index:
  assumes "unat c dvd two64"
  shows "unat ((t + of_nat i) mod c) = (unat t + i) mod unat (c :: 64 word)"
proof -
  have "unat (t + of_nat i) = (unat t + i) mod two64"
    by (simp add: unat_word_ariths unat_of_nat mod_simps)
  then show ?thesis using assms by (simp add: unat_mod mod_mod_cancel)
qed

lemma last_index:
  assumes "unat (c :: 64 word) dvd two64" "0 < unat c"
  shows "unat ((h + 1 + c - 1) mod c) = unat (h mod c)"
proof -
  have "h + 1 + c - 1 = h + of_nat (unat c)" by simp
  then show ?thesis using unat_mod_index[OF assms(1), of h "unat c"] by (simp add: unat_mod)
qed

lemma inflight_nextSlot:
  assumes "ring_ok r" "\<not> isFull r"
  shows "unat (inflight (r\<lparr>er_head := er_head r + 1\<rparr>)) = Suc (unat (inflight r))"
proof -
  have l: "unat (inflight r) < unat (er_capacity r)"
    using assms(2) by (simp add: isFull_def word_le_nat_alt)
  moreover have "unat (er_capacity r) < 2 ^ LENGTH(64)" by (rule unsigned_less)
  ultimately have "unat (inflight r) + 1 < two64" by simp
  moreover have "inflight (r\<lparr>er_head := er_head r + 1\<rparr>) = inflight r + 1"
    by (simp add: inflight_def)
  ultimately show ?thesis by (simp add: unat_word_ariths)
qed

lemma ring_items_push:
  assumes ok: "ring_ok r" and room: "\<not> isFull r"
  shows "ring_items (push_info x r) = ring_items r @ [x]" "ring_ok (push_info x r)"
proof -
  let ?c = "er_capacity r" and ?n = "unat (inflight r)"
  have d: "unat ?c dvd two64" and c: "0 < unat ?c" using ok by (auto simp: ring_ok_def)
  have n: "?n < unat ?c" using room by (simp add: isFull_def word_le_nat_alt)
  have inf: "unat (inflight (push_info x r)) = Suc ?n"
    using inflight_nextSlot[OF ok room] by (simp add: push_info_def nextSlot_def inflight_def Let_def)
  have head: "er_head r = er_tail r + of_nat ?n" by (simp add: inflight_def)
  have ix: "unat (er_head r mod ?c) = (unat (er_tail r) + ?n) mod unat ?c"
    using unat_mod_index[OF d, of "er_tail r" ?n] head by simp
  have p: "push_info x r = r\<lparr>er_head := er_head r + 1, er_info := (er_info r)(unat (er_head r mod ?c) := x)\<rparr>"
    using last_index[OF d c, of "er_head r"] by (simp add: push_info_def nextSlot_def lastHeadIndex_def)
  have other: "(unat (er_tail r) + i) mod unat ?c \<noteq> (unat (er_tail r) + ?n) mod unat ?c" if "i < ?n" for i
  proof
    assume "(unat (er_tail r) + i) mod unat ?c = (unat (er_tail r) + ?n) mod unat ?c"
    then have "unat ?c dvd (unat (er_tail r) + ?n) - (unat (er_tail r) + i)"
      using that by (metis mod_eq_dvd_iff_nat add_le_mono le_refl less_imp_le)
    then have "unat ?c dvd ?n - i" by simp
    then show False using that n by (auto dest: dvd_imp_le)
  qed
  show "ring_items (push_info x r) = ring_items r @ [x]"
    unfolding ring_items_def inf
    by (simp add: p unat_mod_index[OF d] ix other)
  show "ring_ok (push_info x r)" using ok n inf by (simp add: ring_ok_def p)
qed

lemma ring_items_release:
  assumes ok: "ring_ok r" and ne: "ring_items r \<noteq> []"
  shows "ring_items (releaseOldest r) = tl (ring_items r)" "ring_ok (releaseOldest r)"
proof -
  let ?c = "er_capacity r" and ?n = "unat (inflight r)"
  have d: "unat ?c dvd two64" using ok by (auto simp: ring_ok_def)
  have n: "0 < ?n" using ne by (simp add: ring_items_def)
  have "inflight (releaseOldest r) = inflight r - 1" by (simp add: releaseOldest_def inflight_def)
  moreover have "1 \<le> inflight r" using n by (simp add: word_le_nat_alt)
  ultimately have inf: "unat (inflight (releaseOldest r)) = ?n - 1"
    by (simp add: unat_sub)
  have up: "[0..<?n] = 0 # map Suc [0..<?n - 1]" using n by (simp add: map_Suc_upt upt_conv_Cons)
  have sh: "er_tail r + 1 + of_nat i = er_tail r + of_nat (Suc i)" for i by simp
  show "ring_items (releaseOldest r) = tl (ring_items r)"
    unfolding ring_items_def inf up by (simp add: releaseOldest_def add.assoc)
  have "unat (inflight r) - 1 \<le> unat (er_capacity r)" using ok unfolding ring_ok_def by linarith
  then show "ring_ok (releaseOldest r)" using ok inf by (simp add: ring_ok_def releaseOldest_def)
qed

interpretation er: fifo ring_items push_info releaseOldest ring_ok "\<lambda>r. \<not> isFull r"
  by unfold_locales (auto simp: ring_items_push ring_items_release)

lemma ring_items_oldest:
  "ring_items r \<noteq> [] \<Longrightarrow> hd (ring_items r) = er_info r (tailIndex r)"
  by (simp add: ring_items_def tailIndex_def upt_conv_Cons)

lemma ring_items_empty_iff: "ring_items r = [] \<longleftrightarrow> inflight r = 0"
  by (simp add: ring_items_def unat_eq_zero)

lemma ring_items_reset [simp]: "ring_items (ring_reset r) = []"
  by (simp add: ring_items_empty_iff ring_reset_def inflight_def)

lemma ring_ok_reset [simp]: "ring_ok r \<Longrightarrow> ring_ok (ring_reset r)"
  by (simp add: ring_ok_def ring_reset_def inflight_def)

lemma ring_ok_new [simp]: "ring_ok (new_ring DEFAULT_CAPACITY x)"
  by (simp add: ring_ok_def new_ring_def inflight_def DEFAULT_CAPACITY_def dvd_def)

section \<open>Runs of the executor's operations\<close>

text \<open>
  Each operation adds a transfer (refused when the ring is full) or reads the information of
  the oldest one at \<^verbatim>\<open>tailIndex()\<close> and releases it (refused when nothing is in flight).
\<close>

fun ring_run :: "'a option list \<Rightarrow> 'a event_ring \<Rightarrow> ('a list \<times> 'a event_ring) option" where
  "ring_run [] r = Some ([], r)"
| "ring_run (Some x # ops) r = (if isFull r then None else ring_run ops (push_info x r))"
| "ring_run (None # ops) r =
     (if inflight r = 0 then None
      else map_option (\<lambda>(out, r'). (er_info r (tailIndex r) # out, r')) (ring_run ops (releaseOldest r)))"

lemma ring_run_queue: "ring_run ops r = er.run ops r"
proof (induction ops r rule: ring_run.induct)
  case (3 ops r)
  show ?case
  proof (cases "inflight r = 0")
    case True
    then show ?thesis using ring_items_empty_iff[of r] by simp
  next
    case False
    then obtain y ys where q: "ring_items r = y # ys" using ring_items_empty_iff[of r] by (cases "ring_items r") auto
    then have "er_info r (tailIndex r) = y" using ring_items_oldest[of r] by simp
    then show ?thesis using 3 False q by simp
  qed
qed simp_all

text \<open>
  C16. The event ring is a queue. Whatever sequence of additions and releases the executor
  makes on a lane, transfers are released in the order they were added, also when the 64-bit
  head and tail counters wrap around.
\<close>

theorem ring_fifo:
  assumes "ring_ok r" "ring_run ops r = Some (out, r')"
  shows "ring_items r @ List.map_filter id ops = out @ ring_items r' \<and> ring_ok r'"
  using assms unfolding ring_run_queue by (rule er.run_order)

definition ex_wrap_ring :: "nat event_ring" where
  "ex_wrap_ring = (new_ring DEFAULT_CAPACITY 0)\<lparr>er_head := - 1, er_tail := - 1\<rparr>"

theorem ring_fifo_witness:
  "\<exists>r'. ring_run [Some 7, Some 8, None, Some 9, None] ex_wrap_ring = Some ([7, 8], r') \<and> ring_items r' = [9]"
proof -
  have ok: "ring_ok ex_wrap_ring"
    by (simp add: ex_wrap_ring_def ring_ok_def new_ring_def inflight_def DEFAULT_CAPACITY_def dvd_def)
  have r: "map_option fst (ring_run [Some 7, Some 8, None, Some 9, None] ex_wrap_ring) = Some [7, 8]"
    by code_simp
  then obtain r' where r': "ring_run [Some 7, Some 8, None, Some 9, None] ex_wrap_ring = Some ([7, 8], r')"
    by auto
  have "ring_items ex_wrap_ring = []" by code_simp
  then have "ring_items r' = [9]"
    using ring_fifo[OF ok r'] by (simp add: List.map_filter_def)
  then show ?thesis using r' by blast
qed

end
