(* ===== verification/Layout.thy ===== *)
theory Layout
  imports IR
begin

text \<open>
  The chunk layouts the compiler attaches to the device buffers
  (\<^verbatim>\<open>pcie-ccl-cuda/src/ir/compiler.cpp\<close>, \<^verbatim>\<open>makeLayout\<close> to \<^verbatim>\<open>chunkBytesForKey\<close>): a segment's
  active elements are cut into \<^verbatim>\<open>chunks_per_segment\<close> pieces whose borders are rounded down
  to whole elements.  The lemmas show that the pieces tile the active region.
\<close>

section \<open>Definitions\<close>

definition divUp :: "size_t \<Rightarrow> size_t \<Rightarrow> size_t" where
  "divUp a b = (if b = 0 then 0 else sub64 (add64 a b) 1 div b)"

definition makeLayout :: "size_t \<Rightarrow> size_t \<Rightarrow> size_t \<Rightarrow> int \<Rightarrow> layout_desc" where
  "makeLayout seg_size stride_off chunk_sz cps =
     \<lparr>segment_size = seg_size, stride_offset = stride_off, l_chunk_size = chunk_sz,
      chunks_per_segment = max 1 cps, chunk_offsets = [], chunk_sizes = []\<rparr>"

text \<open>First element of piece \<open>i\<close> of a segment.\<close>

definition chunk_begin :: "size_t \<Rightarrow> nat \<Rightarrow> nat \<Rightarrow> size_t" where
  "chunk_begin active cps i = mul64 active i div cps"

definition makeDeviceLayout ::
  "size_t \<Rightarrow> size_t \<Rightarrow> size_t \<Rightarrow> size_t \<Rightarrow> int \<Rightarrow> int \<Rightarrow> size_t \<Rightarrow> layout_desc" where
  "makeDeviceLayout seg_size stride_off elem_size active total_chunks cps_arg slot_size =
     (let cps = nat (max 1 cps_arg);
          chunks = nat (max 0 total_chunks);
          begin_elem = (\<lambda>c. chunk_begin active cps (c mod cps));
          end_elem = (\<lambda>c. chunk_begin active cps (c mod cps + 1))
      in (makeLayout seg_size stride_off slot_size cps_arg)
         \<lparr>chunk_offsets := map (\<lambda>c. mul64 (begin_elem c) elem_size) [0..<chunks],
          chunk_sizes := map (\<lambda>c. mul64 (sub64 (end_elem c) (begin_elem c)) elem_size) [0..<chunks]\<rparr>)"

definition maxChunkBytes :: "size_t \<Rightarrow> size_t \<Rightarrow> int \<Rightarrow> size_t" where
  "maxChunkBytes active elem_size cps_arg =
     mul64 (divUp active (nat (max 1 cps_arg))) elem_size"

definition chunkBytesForKey :: "progress_key \<Rightarrow> compiled_graph \<Rightarrow> size_t" where
  "chunkBytesForKey key graph =
     (if pk_space key = PS_HOST \<or> pk_space key = PS_INTERNAL then g_chunk_size graph
      else (let sizes = chunk_sizes (g_layout graph (pk_space key)) in
        if 0 \<le> pk_chunk key \<and> nat (pk_chunk key) < length sizes
        then sizes ! nat (pk_chunk key) else g_chunk_size graph))"

section \<open>The pieces tile the active region\<close>

lemma divUp_bounds:
  assumes "0 < b" and "a + b < two64"
  shows "a \<le> divUp a b * b" and "divUp a b * b < a + b"
proof -
  have w: "divUp a b = (a + b - 1) div b"
    using assms by (simp add: divUp_def size_simps)
  have d: "(a + b - 1) div b * b + (a + b - 1) mod b = a + b - 1" by simp
  have m: "(a + b - 1) mod b < b" using assms by simp
  show "a \<le> divUp a b * b" and "divUp a b * b < a + b"
    unfolding w using d m assms by linarith+
qed

lemma chunk_begin_0 [simp]: "chunk_begin active cps 0 = 0"
  by (simp add: chunk_begin_def mul64_def)

lemma chunk_begin_end:
  assumes "active * cps < two64" and "0 < cps"
  shows "chunk_begin active cps cps = active"
  using assms by (simp add: chunk_begin_def size_simps)

lemma chunk_begin_small:
  assumes "active * cps < two64" and "i \<le> cps"
  shows "chunk_begin active cps i = active * i div cps"
proof -
  have "active * i < two64"
    using mult_le_mono2[OF assms(2)] assms(1) by (rule le_less_trans)
  then show ?thesis by (simp add: chunk_begin_def size_simps)
qed

lemma chunk_begin_mono:
  assumes "active * cps < two64" and "i \<le> j" and "j \<le> cps"
  shows "chunk_begin active cps i \<le> chunk_begin active cps j"
  using assms by (simp add: chunk_begin_small div_le_mono)

text \<open>A piece holds at most the rounded-up share of the elements.\<close>

lemma chunk_piece_le:
  assumes nz: "active * cps < two64" and w: "active + cps < two64" and i: "i < cps"
  shows "chunk_begin active cps (Suc i) - chunk_begin active cps i \<le> divUp active cps"
proof -
  let ?q = "divUp active cps"
  have cps: "0 < cps" using i by simp
  have q: "active \<le> ?q * cps" by (rule divUp_bounds(1)[OF cps w])
  have "active * Suc i div cps \<le> (active * i + ?q * cps) div cps"
    using q by (intro div_le_mono) simp
  also have "\<dots> = active * i div cps + ?q" using cps by simp
  finally show ?thesis using nz i by (simp add: chunk_begin_small)
qed

lemma device_layout_nth:
  assumes "c < nat nchunks"
  shows "chunk_offsets (makeDeviceLayout seg so es active nchunks cps slot) ! c =
           mul64 (chunk_begin active (nat (max 1 cps)) (c mod nat (max 1 cps))) es"
    and "chunk_sizes (makeDeviceLayout seg so es active nchunks cps slot) ! c =
           mul64 (sub64 (chunk_begin active (nat (max 1 cps)) (c mod nat (max 1 cps) + 1))
                        (chunk_begin active (nat (max 1 cps)) (c mod nat (max 1 cps)))) es"
  using assms by (simp_all add: makeDeviceLayout_def Let_def)

lemma device_layout_length [simp]:
  "length (chunk_offsets (makeDeviceLayout seg so es active nchunks cps slot)) = nat nchunks"
  "length (chunk_sizes (makeDeviceLayout seg so es active nchunks cps slot)) = nat nchunks"
  by (simp_all add: makeDeviceLayout_def Let_def)

text \<open>No multiplication of the layout wraps when the whole segment fits.\<close>

definition layout_fits :: "size_t \<Rightarrow> size_t \<Rightarrow> int \<Rightarrow> bool" where
  "layout_fits active es cps \<longleftrightarrow>
     active * nat (max 1 cps) < two64 \<and> active * es < two64 \<and> active + nat (max 1 cps) < two64"

lemma device_chunk_exact:
  assumes fits: "layout_fits active es cps" and c: "c < nat nchunks"
  defines "n \<equiv> nat (max 1 cps)"
  shows "chunk_offsets (makeDeviceLayout seg so es active nchunks cps slot) ! c =
           (active * (c mod n) div n) * es"
    and "chunk_sizes (makeDeviceLayout seg so es active nchunks cps slot) ! c =
           (active * (c mod n + 1) div n - active * (c mod n) div n) * es"
proof -
  have n: "0 < n" "c mod n < n" by (simp_all add: n_def)
  have f: "active * n < two64" "active * es < two64"
    using fits by (simp_all add: layout_fits_def n_def)
  have b: "chunk_begin active n (c mod n) = active * (c mod n) div n"
    and e: "chunk_begin active n (c mod n + 1) = active * (c mod n + 1) div n"
    using f n by (simp_all add: chunk_begin_small)
  have "active * (c mod n) div n \<le> active * n div n"
    using n by (intro div_le_mono mult_le_mono2) simp
  then have bl: "active * (c mod n) div n \<le> active" using n by simp
  have "active * (c mod n + 1) div n \<le> active * n div n"
    using n by (intro div_le_mono mult_le_mono2) simp
  then have el: "active * (c mod n + 1) div n \<le> active" using n by simp
  have be: "active * (c mod n) div n \<le> active * (c mod n + 1) div n"
    by (intro div_le_mono mult_le_mono2) simp
  have a: "active < two64" using f(1) n(1) by (cases n) auto
  have s: "sub64 (active * (c mod n + 1) div n) (active * (c mod n) div n) =
      active * (c mod n + 1) div n - active * (c mod n) div n"
    using be el a by (intro sub64_small) simp_all
  have m1: "active * (c mod n) div n * es < two64"
    using mult_le_mono1[OF bl] f(2) by (rule le_less_trans)
  have "(active * (c mod n + 1) div n - active * (c mod n) div n) * es \<le> active * es"
    using el by (intro mult_le_mono1) simp
  then have m2: "(active * (c mod n + 1) div n - active * (c mod n) div n) * es < two64"
    using f(2) by (rule le_less_trans)
  show "chunk_offsets (makeDeviceLayout seg so es active nchunks cps slot) ! c =
      (active * (c mod n) div n) * es"
    using device_layout_nth(1)[OF c, of seg so es active cps slot, folded n_def] b m1
    by (simp add: size_simps)
  show "chunk_sizes (makeDeviceLayout seg so es active nchunks cps slot) ! c =
      (active * (c mod n + 1) div n - active * (c mod n) div n) * es"
    using device_layout_nth(2)[OF c, of seg so es active cps slot, folded n_def] b e s m2
    by (simp add: size_simps)
qed

text \<open>
  Consecutive pieces of a segment meet: the first starts at offset 0, each starts where the
  one before ends, and the last one ends at the end of the active region.
\<close>

lemma device_layout_step:
  assumes fits: "layout_fits active es cps" and c: "c < nat nchunks"
    and n_def: "n = nat (max 1 cps)"
    and d_def: "d = makeDeviceLayout seg so es active nchunks cps slot"
  shows "c mod n = 0 \<Longrightarrow> chunk_offsets d ! c = 0"
    and "c mod n \<noteq> n - 1 \<Longrightarrow> Suc c < nat nchunks \<Longrightarrow>
           chunk_offsets d ! Suc c = chunk_offsets d ! c + chunk_sizes d ! c"
    and "c mod n = n - 1 \<Longrightarrow> chunk_offsets d ! c + chunk_sizes d ! c = active * es"
proof -
  have n: "0 < n" "c mod n < n" by (simp_all add: n_def)
  note off = device_chunk_exact(1)[OF fits, folded n_def, where slot = slot and seg = seg and so = so]
  note siz = device_chunk_exact(2)[OF fits, folded n_def, where slot = slot and seg = seg and so = so]
  show "chunk_offsets d ! c = 0" if "c mod n = 0"
    using that off[OF c] by (simp add: d_def)
  have be: "active * (c mod n) div n \<le> active * (c mod n + 1) div n"
    by (intro div_le_mono mult_le_mono2) simp
  have sum: "chunk_offsets d ! c + chunk_sizes d ! c = active * (c mod n + 1) div n * es"
    unfolding d_def off[OF c] siz[OF c] using be by (simp flip: distrib_right)
  show "chunk_offsets d ! Suc c = chunk_offsets d ! c + chunk_sizes d ! c"
    if "c mod n \<noteq> n - 1" "Suc c < nat nchunks"
  proof -
    have "Suc c mod n = c mod n + 1" using that(1) n by (simp add: mod_Suc)
    then show ?thesis unfolding sum unfolding d_def off[OF that(2)] by simp
  qed
  show "chunk_offsets d ! c + chunk_sizes d ! c = active * es" if "c mod n = n - 1"
    unfolding sum using that n by simp
qed

lemma device_chunk_le_max:
  assumes fits: "layout_fits active es cps" and c: "c < nat nchunks"
    and w: "divUp active (nat (max 1 cps)) * es < two64"
  shows "chunk_sizes (makeDeviceLayout seg so es active nchunks cps slot) ! c
           \<le> maxChunkBytes active es cps"
proof -
  define n where "n = nat (max 1 cps)"
  have n: "0 < n" "c mod n < n" by (simp_all add: n_def)
  have "chunk_begin active n (Suc (c mod n)) - chunk_begin active n (c mod n) \<le> divUp active n"
    using fits n by (intro chunk_piece_le) (auto simp: layout_fits_def n_def)
  moreover have "active * n < two64" using fits by (simp add: layout_fits_def n_def)
  ultimately have "active * Suc (c mod n) div n - active * (c mod n) div n \<le> divUp active n"
    using n by (simp add: chunk_begin_small)
  then show ?thesis
    using device_chunk_exact(2)[OF fits c, of seg so slot, folded n_def] w
    by (simp add: maxChunkBytes_def mul64_small flip: n_def)
qed

end
