(* ===== verification/Versioning.thy ===== *)
theory Versioning
  imports Layout
begin

text \<open>
  The versioning pass of the graph compiler (\<^verbatim>\<open>pcie-ccl-cuda/src/ir/compiler.cpp\<close>,
  \<^verbatim>\<open>compileGraph\<close> from \<^verbatim>\<open>stage_output_chunk_by_rank\<close> on): which in-place output chunks
  are staged, which host chunks may use a ring, and, instruction by instruction, the
  versioned progress keys that are read and written and the reader numbers.  Nothing in
  this theory looks at the rank that is being compiled for.
\<close>

datatype compile_error = TooManyReaders | OutOfBounds

section \<open>Staging of in-place outputs\<close>

definition maxInputChunkCount :: "ir_program \<Rightarrow> int \<Rightarrow> int" where
  "maxInputChunkCount program rank =
     foldl (\<lambda>count inst.
         if (i_op inst = D2D \<or> i_op inst = D2DReduce) \<and> i_src_buf inst = INPUT \<and>
            i_src_rank inst = rank
         then max count (chunk_idx (i_src inst) + 1) else count)
       (p_input_chunk_count program) (p_all_instructions program)"

text \<open>
  \<^verbatim>\<open>mark_input_read\<close>: set a bit of an owner's row, growing the row on demand.
\<close>

definition mark_input_read :: "int \<Rightarrow> bool list list \<Rightarrow> int \<Rightarrow> int \<Rightarrow> bool list list" where
  "mark_input_read world_size rows owner chunk =
     (if owner < 0 \<or> world_size \<le> owner \<or> chunk < 0 then rows
      else (let row = rows ! nat owner;
                row' = row @ replicate (nat chunk + 1 - length row) False
            in rows[nat owner := row'[nat chunk := True]]))"

definition mark_inst_read :: "int \<Rightarrow> bool list list \<Rightarrow> instruction \<Rightarrow> bool list list" where
  "mark_inst_read world_size rows inst =
     (case i_op inst of
        D2H \<Rightarrow> mark_input_read world_size rows (i_rank inst) (chunk_idx (i_src inst))
      | D2D \<Rightarrow> (if i_src_buf inst = INPUT
                then mark_input_read world_size rows (eff_src_rank inst) (chunk_idx (i_src inst))
                else rows)
      | D2DReduce \<Rightarrow> (if i_src_buf inst = INPUT
                then mark_input_read world_size rows (eff_src_rank inst) (chunk_idx (i_src inst))
                else rows)
      | _ \<Rightarrow> rows)"

definition input_read_by_rank :: "ir_program \<Rightarrow> int \<Rightarrow> bool list list" where
  "input_read_by_rank program world_size =
     foldl (mark_inst_read world_size)
       (map (\<lambda>r. replicate (nat (max 1 (maxInputChunkCount program (int r)))) False)
          [0..<nat world_size])
       (p_all_instructions program)"

definition row_bit :: "bool list list \<Rightarrow> int \<Rightarrow> int \<Rightarrow> bool" where
  "row_bit rows owner chunk \<longleftrightarrow> 0 \<le> chunk \<and> nat chunk < length (rows ! nat owner) \<and>
     rows ! nat owner ! nat chunk"

definition output_overlaps_live_input ::
  "in_place_alias_mode \<Rightarrow> ir_program \<Rightarrow> int \<Rightarrow> bool list list \<Rightarrow> int \<Rightarrow> int \<Rightarrow> bool" where
  "output_overlaps_live_input mode program world_size rows owner output_chunk =
     (if owner < 0 \<or> world_size \<le> owner \<or> output_chunk < 0 then False
      else if mode = AllGatherAlias
      then row_bit rows owner (output_chunk - owner * max 1 (p_input_chunk_count program))
      else row_bit rows owner output_chunk)"

definition writes_output :: "ir_program \<Rightarrow> int \<Rightarrow> instruction \<Rightarrow> bool" where
  "writes_output program world_size inst \<longleftrightarrow>
     (i_op inst = H2D \<or> i_op inst = D2D \<or> i_op inst = D2DReduce) \<and> i_dst_buf inst = OUTPUT \<and>
     0 \<le> i_rank inst \<and> i_rank inst < world_size \<and>
     0 \<le> chunk_idx (i_dst inst) \<and> chunk_idx (i_dst inst) < p_output_chunk_count program"

text \<open>
  \<^verbatim>\<open>stage_output_chunk_by_rank\<close>: the output chunks whose result goes through the internal
  buffer and is copied back at the end.
\<close>

definition stage_rows :: "graph_options \<Rightarrow> ir_program \<Rightarrow> int \<Rightarrow> bool list list" where
  "stage_rows gopts program world_size =
     (let opts = legacy_layout gopts;
          empty_rows = replicate (nat world_size) (replicate (nat (p_output_chunk_count program)) False)
      in if \<not> is_in_place opts then empty_rows
         else (let reads = input_read_by_rank program world_size in
           foldl (\<lambda>rows inst.
               if writes_output program world_size inst \<and>
                  output_overlaps_live_input (in_place_mode opts) program world_size reads
                    (i_rank inst) (chunk_idx (i_dst inst))
               then (if go_staging_policy gopts = DirectOverwrite \<or> go_staging_policy gopts = Auto
                     then rows
                     else rows[nat (i_rank inst) :=
                            (rows ! nat (i_rank inst))[nat (chunk_idx (i_dst inst)) := True]])
               else rows)
             empty_rows (p_all_instructions program)))"

text \<open>The test both \<^verbatim>\<open>visible_dst_buf\<close> and \<^verbatim>\<open>visible_src_buf\<close> make.\<close>

definition is_staged ::
  "compile_options \<Rightarrow> ir_program \<Rightarrow> int \<Rightarrow> bool list list \<Rightarrow> device_buffer_kind \<Rightarrow> int \<Rightarrow> int \<Rightarrow> bool"
where
  "is_staged opts program world_size stage buf owner chunk \<longleftrightarrow>
     is_in_place opts \<and> buf = OUTPUT \<and> 0 \<le> owner \<and> owner < world_size \<and>
     0 \<le> chunk \<and> chunk < p_output_chunk_count program \<and> stage ! nat owner ! nat chunk"

record version_env =
  ve_opts :: compile_options
  ve_program :: ir_program
  ve_world :: int
  ve_stage :: "bool list list"

definition visible_src_buf :: "version_env \<Rightarrow> device_buffer_kind \<Rightarrow> int \<Rightarrow> int \<Rightarrow> device_buffer_kind" where
  "visible_src_buf ve buf owner chunk =
     (if is_staged (ve_opts ve) (ve_program ve) (ve_world ve) (ve_stage ve) buf owner chunk
      then INTERNAL else buf)"

definition visible_dst_buf :: "version_env \<Rightarrow> instruction \<Rightarrow> device_buffer_kind" where
  "visible_dst_buf ve inst =
     (if is_staged (ve_opts ve) (ve_program ve) (ve_world ve) (ve_stage ve)
           (i_dst_buf inst) (i_rank inst) (chunk_idx (i_dst inst))
      then INTERNAL else i_dst_buf inst)"

section \<open>Ring eligibility of host chunks\<close>

record chunk_meta =
  is_d2h_dst :: bool
  is_h2d_src :: bool
  is_h2h_dst :: bool
  d2h_writers :: nat
  m_ring :: bool

definition empty_meta :: chunk_meta where
  "empty_meta = \<lparr>is_d2h_dst = False, is_h2d_src = False, is_h2h_dst = False,
     d2h_writers = 0, m_ring = False\<rparr>"

type_synonym meta_table = "int \<Rightarrow> int \<Rightarrow> chunk_meta"

definition meta_in_range :: "int \<Rightarrow> int \<Rightarrow> bool" where
  "meta_in_range n c \<longleftrightarrow> 0 \<le> n \<and> n < MAX_NUMA_NODES \<and> 0 \<le> c \<and> c < MAX_CHUNKS"

text \<open>A write through \<^verbatim>\<open>host_meta[n][c]\<close>; outside the array it is an error.\<close>

definition meta_upd ::
  "chunk_address \<Rightarrow> (chunk_meta \<Rightarrow> chunk_meta) \<Rightarrow> meta_table \<Rightarrow> compile_error + meta_table" where
  "meta_upd a f meta =
     (if meta_in_range (numa_id a) (chunk_idx a)
      then Inr (\<lambda>n c. if n = numa_id a \<and> c = chunk_idx a then f (meta n c) else meta n c)
      else Inl OutOfBounds)"

definition meta_inst :: "meta_table \<Rightarrow> instruction \<Rightarrow> compile_error + meta_table" where
  "meta_inst meta inst =
     (case i_op inst of
        D2H \<Rightarrow> meta_upd (i_dst inst)
                 (\<lambda>m. m\<lparr>is_d2h_dst := True, d2h_writers := d2h_writers m + 1\<rparr>) meta
      | H2D \<Rightarrow> meta_upd (i_src inst) (\<lambda>m. m\<lparr>is_h2d_src := True\<rparr>) meta
      | H2H \<Rightarrow> meta_upd (i_dst inst) (\<lambda>m. m\<lparr>is_h2h_dst := True\<rparr>) meta
      | H2HReduce \<Rightarrow> meta_upd (i_dst inst) (\<lambda>m. m\<lparr>is_h2h_dst := True\<rparr>) meta
      | _ \<Rightarrow> Inr meta)"

definition set_ring :: "bool \<Rightarrow> chunk_meta \<Rightarrow> chunk_meta" where
  "set_ring staging_ring m =
     (let m1 = m\<lparr>m_ring := is_h2h_dst m \<and> \<not> is_d2h_dst m \<and> \<not> is_h2d_src m\<rparr> in
      if staging_ring \<and> is_d2h_dst m \<and> d2h_writers m = 1 \<and> is_h2d_src m \<and> \<not> is_h2h_dst m
      then m1\<lparr>m_ring := True\<rparr> else m1)"

definition staging_ring_enabled :: "int \<Rightarrow> size_t \<Rightarrow> size_t \<Rightarrow> size_t \<Rightarrow> bool" where
  "staging_ring_enabled host_ring_slots chunk_size num_subchunks sl \<longleftrightarrow>
     2 \<le> host_ring_slots \<and> pcclRingSlotsFor host_ring_slots < num_subchunks \<and>
     mul64 (pcclRingSlotsFor host_ring_slots) sl \<le> chunk_size"

definition host_meta_of :: "bool \<Rightarrow> instruction list \<Rightarrow> compile_error + meta_table" where
  "host_meta_of staging_ring insts =
     sbind (sfold meta_inst (\<lambda>_ _. empty_meta) insts)
       (\<lambda>meta. Inr (\<lambda>n c. set_ring staging_ring (meta n c)))"

section \<open>Versions of progress keys\<close>

type_synonym key_map = "(progress_key, progress_key) omap"

definition produced_base_for_inst :: "version_env \<Rightarrow> instruction \<Rightarrow> progress_key option" where
  "produced_base_for_inst ve inst =
     (case i_op inst of
        D2H \<Rightarrow> Some (hostKey (numa_id (i_dst inst)) (chunk_idx (i_dst inst)) 0)
      | H2D \<Rightarrow> Some (deviceKey (visible_dst_buf ve inst) (i_rank inst) (chunk_idx (i_dst inst)) 0)
      | H2H \<Rightarrow> Some (hostKey (numa_id (i_dst inst)) (chunk_idx (i_dst inst)) 0)
      | H2HReduce \<Rightarrow> Some (hostKey (numa_id (i_dst inst)) (chunk_idx (i_dst inst)) 0)
      | D2D \<Rightarrow> Some (deviceKey (visible_dst_buf ve inst) (i_rank inst) (chunk_idx (i_dst inst)) 0)
      | D2DReduce \<Rightarrow> Some (deviceKey (visible_dst_buf ve inst) (i_rank inst) (chunk_idx (i_dst inst)) 0)
      | NOP \<Rightarrow> None)"

text \<open>The block that fills \<^verbatim>\<open>final_produced_by_base\<close>: the map of counters and the map of keys.\<close>

definition final_step ::
  "version_env \<Rightarrow> (progress_key, int) omap \<times> key_map \<Rightarrow> instruction \<Rightarrow>
   (progress_key, int) omap \<times> key_map" where
  "final_step ve st inst =
     (case produced_base_for_inst ve inst of None \<Rightarrow> st
      | Some base \<Rightarrow>
          (let version = (case om_get (fst st) base of None \<Rightarrow> 0 | Some v \<Rightarrow> v) + 1
           in (om_put base version (fst st), om_put base (with_version base version) (snd st))))"

definition final_produced :: "version_env \<Rightarrow> key_map" where
  "final_produced ve = snd (foldl (final_step ve) ([], []) (p_all_instructions (ve_program ve)))"

text \<open>The lambdas \<^verbatim>\<open>latest\<close>, \<^verbatim>\<open>latest_existing\<close> and \<^verbatim>\<open>produce\<close>.\<close>

definition latest :: "key_map \<Rightarrow> key_map \<Rightarrow> progress_key \<Rightarrow> progress_key \<times> key_map" where
  "latest final lat key =
     (let base = base_key key in
      case om_get lat base of Some k \<Rightarrow> (k, lat)
      | None \<Rightarrow> (case om_get final base of Some k \<Rightarrow> (k, lat)
                | None \<Rightarrow> (base, om_emplace base base lat)))"

definition latest_existing :: "key_map \<Rightarrow> progress_key \<Rightarrow> progress_key" where
  "latest_existing lat key =
     (let base = base_key key in
      case om_get lat base of Some k \<Rightarrow> k | None \<Rightarrow> base)"

definition produce :: "key_map \<Rightarrow> progress_key \<Rightarrow> progress_key \<times> key_map" where
  "produce lat key =
     (let base = base_key key;
          key' = with_version key
                   (case om_get lat base of None \<Rightarrow> 1 | Some k \<Rightarrow> pk_version k + 1)
      in (key', om_put base key' lat))"

text \<open>
  Initialisation of \<^verbatim>\<open>latest_by_base\<close>: the own inputs first, then every rank's inputs.
\<close>

definition init_own_inputs :: "ir_program \<Rightarrow> int \<Rightarrow> key_map" where
  "init_own_inputs program rank =
     foldl (\<lambda>lat c. om_put (deviceKey INPUT rank (int c) 0) (deviceKey INPUT rank (int c) 0) lat)
       [] [0..<nat (maxInputChunkCount program rank)]"

definition init_all_inputs :: "ir_program \<Rightarrow> int \<Rightarrow> key_map \<Rightarrow> key_map" where
  "init_all_inputs program world_size lat0 =
     foldl (\<lambda>lat r.
         foldl (\<lambda>lat c. om_emplace (deviceKey INPUT (int r) (int c) 0)
                   (deviceKey INPUT (int r) (int c) 0) lat)
           lat [0..<nat (maxInputChunkCount program (int r))])
       lat0 [0..<nat world_size]"

section \<open>One instruction of the versioning pass\<close>

record resolved =
  r_inst :: instruction
  r_inputs :: "(progress_key \<times> int) list"   \<comment> \<open>key and reader id\<close>
  r_old_output :: progress_key
  r_output :: progress_key
  r_has_output :: bool

record version_state =
  vs_latest :: key_map
  vs_readers :: "(progress_key, int) omap"

text \<open>The first \<^verbatim>\<open>switch\<close>: inputs, old output and produced output of an instruction.\<close>

definition default_key :: progress_key where
  "default_key = ProgressKey PS_HOST 0 0 0"

definition inst_keys ::
  "version_env \<Rightarrow> key_map \<Rightarrow> key_map \<Rightarrow> instruction \<Rightarrow>
   (progress_key list \<times> progress_key \<times> progress_key \<times> bool) \<times> key_map" where
  "inst_keys ve final lat inst =
     (let host_src = hostKey (numa_id (i_src inst)) (chunk_idx (i_src inst)) 0;
          host_src2 = hostKey (numa_id (i_src2 inst)) (chunk_idx (i_src2 inst)) 0;
          host_dst = hostKey (numa_id (i_dst inst)) (chunk_idx (i_dst inst)) 0;
          dev_dst = deviceKey (visible_dst_buf ve inst) (i_rank inst) (chunk_idx (i_dst inst)) 0;
          dev_src = (\<lambda>owner. deviceKey (visible_src_buf ve (i_src_buf inst) owner (chunk_idx (i_src inst)))
                       owner (chunk_idx (i_src inst)) 0);
          one_input = (\<lambda>src dst.
             (let (k, lat1) = latest final lat src;
                  old = latest_existing lat1 dst;
                  (out, lat2) = produce lat1 dst
              in (([k], old, out, True), lat2)));
          two_inputs = (\<lambda>src1 src2 dst.
             (let (k1, lat1) = latest final lat src1;
                  (k2, lat2) = latest final lat1 src2;
                  old = latest_existing lat2 dst;
                  (out, lat3) = produce lat2 dst
              in (([k1, k2], old, out, True), lat3)))
      in case i_op inst of
           D2H \<Rightarrow> one_input (dev_src (i_rank inst)) host_dst
         | H2D \<Rightarrow> one_input host_src dev_dst
         | H2H \<Rightarrow> one_input host_src host_dst
         | H2HReduce \<Rightarrow> two_inputs host_src host_src2 host_dst
         | D2D \<Rightarrow> one_input (dev_src (eff_src_rank inst)) dev_dst
         | D2DReduce \<Rightarrow> two_inputs (dev_src (eff_src_rank inst)) dev_dst dev_dst
         | NOP \<Rightarrow> (([], default_key, default_key, False), lat))"

text \<open>
  The loop over the inputs: a reader number each, except for the destination that a
  \<^verbatim>\<open>D2DReduce\<close> reads and rewrites itself.
\<close>

fun assign_readers ::
  "op_code \<Rightarrow> progress_key \<Rightarrow> nat \<Rightarrow> (progress_key, int) omap \<Rightarrow> progress_key list \<Rightarrow>
   compile_error + ((progress_key \<times> int) list \<times> (progress_key, int) omap)" where
  "assign_readers op output idx counts [] = Inr ([], counts)"
| "assign_readers op output idx counts (input # inputs) =
     (if op = D2DReduce \<and> idx = 1 \<and> sameBaseKey input output
      then sbind (assign_readers op output (idx + 1) counts inputs)
             (\<lambda>(ids, counts'). Inr ((input, -1) # ids, counts'))
      else (let reader_id = (case om_get counts input of None \<Rightarrow> 0 | Some n \<Rightarrow> n) in
        if MAX_PROGRESS_READERS \<le> reader_id then Inl TooManyReaders
        else if pk_space input = PS_HOST \<and> \<not> meta_in_range (pk_owner input) (pk_chunk input)
        then Inl OutOfBounds
        else sbind (assign_readers op output (idx + 1) (om_put input (reader_id + 1) counts) inputs)
               (\<lambda>(ids, counts'). Inr ((input, reader_id) # ids, counts'))))"

definition resolve_inst ::
  "version_env \<Rightarrow> key_map \<Rightarrow> version_state \<Rightarrow> instruction \<Rightarrow>
   compile_error + (resolved \<times> version_state)" where
  "resolve_inst ve final vs inst =
     (let ((inputs, old, out, has_out), lat') = inst_keys ve final (vs_latest vs) inst in
      sbind (assign_readers (i_op inst) out 0 (vs_readers vs) inputs)
        (\<lambda>(ids, counts').
          Inr (\<lparr>r_inst = inst, r_inputs = ids, r_old_output = old, r_output = out,
                r_has_output = has_out\<rparr>,
               \<lparr>vs_latest = lat', vs_readers = counts'\<rparr>)))"

text \<open>The whole pass, as a list of resolved instructions and the final maps.\<close>

fun resolve_all ::
  "version_env \<Rightarrow> key_map \<Rightarrow> version_state \<Rightarrow> instruction list \<Rightarrow>
   compile_error + (resolved list \<times> version_state)" where
  "resolve_all ve final vs [] = Inr ([], vs)"
| "resolve_all ve final vs (inst # insts) =
     sbind (resolve_inst ve final vs inst)
       (\<lambda>(r, vs'). sbind (resolve_all ve final vs' insts) (\<lambda>(rs, vs''). Inr (r # rs, vs'')))"

end
