(* ===== verification/Compiler.thy ===== *)
theory Compiler
  imports Versioning
begin

text \<open>
  \<^verbatim>\<open>Compiler::compileGraph\<close> of \<^verbatim>\<open>pcie-ccl-cuda/src/ir/compiler.cpp\<close>: sizes and layouts,
  the nodes the compiled rank executes, terminal outputs with the copy-back of staged
  chunks, and the final order of the nodes.  The settings read from the environment are
  the record \<open>pccl_env\<close>.
\<close>

record pccl_env =
  d2d_push_env :: "string option"
  d2d_input_first_env :: "string option"
  subchunk_slice_env :: "string option"
  host_ring_slots_env :: "string option"

definition env_slice :: "pccl_env \<Rightarrow> size_t \<Rightarrow> size_t" where
  "env_slice env chunk_size = pcclSubchunkSliceFor (forcedSliceFromEnv (subchunk_slice_env env)) chunk_size"

section \<open>Sizes and layouts\<close>

definition addUniqueKey :: "progress_key list \<Rightarrow> progress_key \<Rightarrow> progress_key list" where
  "addUniqueKey keys key = (if key \<in> set keys then keys else keys @ [key])"

definition has_remote_inst :: "instruction \<Rightarrow> bool" where
  "has_remote_inst inst \<longleftrightarrow> i_op inst = D2D \<and> eff_src_rank inst \<noteq> i_rank inst"

definition graph_skeleton ::
  "pccl_env \<Rightarrow> ir_program \<Rightarrow> int \<Rightarrow> int \<Rightarrow> graph_options \<Rightarrow> compiled_graph" where
  "graph_skeleton env program rank world_size gopts =
     (let options = legacy_layout gopts;
          input_count = maxInputChunkCount program rank;
          output_count = p_output_chunk_count program;
          seg_size = mul64 (seg_count options) (element_size options);
          stride_off = mul64 (stride options) (element_size options);
          pcie_per_seg = sub64 seg_size stride_off;
          active_elems = sub64 (seg_count options) (stride options);
          d2h_cps = max 1 (p_input_chunk_count program div max 1 (d2h_segments options));
          h2d_cps = max 1 (p_output_chunk_count program div max 1 (h2d_segments options));
          chunk_sz = max (maxChunkBytes active_elems (element_size options) d2h_cps)
                         (maxChunkBytes active_elems (element_size options) h2d_cps);
          dev_layout = (\<lambda>chunks cps. makeDeviceLayout seg_size stride_off (element_size options)
                          active_elems chunks cps chunk_sz)
      in \<lparr>g_rank = rank, g_world_size = world_size,
          g_input_chunk_count = input_count, g_output_chunk_count = output_count,
          g_total_bytes = mul64 pcie_per_seg
             (int_to_size (max (d2h_segments options) (h2d_segments options))),
          g_chunk_size = chunk_sz, g_element_size = element_size options,
          g_num_subchunks = numSubchunks chunk_sz (env_slice env chunk_sz),
          g_scalar_type = co_scalar_type options, g_reduce_op = co_reduce_op options,
          g_is_in_place = is_in_place options,
          g_has_remote_d2d = list_ex has_remote_inst (p_all_instructions program),
          g_internal_bytes = 0,
          g_layout = (\<lambda>space. case space of
              PS_HOST \<Rightarrow> makeLayout seg_size 0 chunk_sz 1
            | PS_INPUT \<Rightarrow> dev_layout input_count d2h_cps
            | PS_OUTPUT \<Rightarrow> dev_layout output_count h2d_cps
            | PS_SCRATCH \<Rightarrow> dev_layout output_count h2d_cps
            | PS_INTERNAL \<Rightarrow> makeLayout chunk_sz 0 chunk_sz 1),
          g_nodes = [], g_initial_ready_inputs = [], g_terminal_outputs = [],
          g_active_keys = [], g_reader_assignment = []\<rparr>)"

text \<open>Bytes of the internal buffer: the largest internal chunk the rank touches.\<close>

definition mark_internal :: "int \<Rightarrow> int \<Rightarrow> device_buffer_kind \<Rightarrow> int \<Rightarrow> int \<Rightarrow> int" where
  "mark_internal rank m buf owner chunk =
     (if owner = rank \<and> buf = INTERNAL \<and> 0 \<le> chunk then max m chunk else m)"

definition max_internal_chunk :: "ir_program \<Rightarrow> int \<Rightarrow> bool list \<Rightarrow> int" where
  "max_internal_chunk program rank stage_row =
     (let m1 = foldl (\<lambda>m inst.
              mark_internal rank
                (mark_internal rank m (i_src_buf inst) (eff_src_rank inst) (chunk_idx (i_src inst)))
                (i_dst_buf inst) (i_rank inst) (chunk_idx (i_dst inst)))
            (-1) (p_all_instructions program)
      in foldl (\<lambda>m c. if stage_row ! c then max m (int c) else m) m1 [0..<length stage_row])"

definition internal_bytes_for :: "int \<Rightarrow> size_t \<Rightarrow> size_t" where
  "internal_bytes_for m chunk_sz = (if 0 \<le> m then mul64 (nat (m + 1)) chunk_sz else 0)"

section \<open>The nodes of one rank\<close>

definition placement_of :: "bool \<Rightarrow> instruction \<Rightarrow> int \<times> d2d_placement" where
  "placement_of remote_d2d_push inst =
     (if i_op inst = D2D then
        (if eff_src_rank inst = i_rank inst then (i_rank inst, Local)
         else if remote_d2d_push then (eff_src_rank inst, RemoteWrite)
         else (i_rank inst, RemoteRead))
      else (i_rank inst, Local))"

definition resource_key_of :: "instruction \<Rightarrow> d2d_placement \<Rightarrow> string" where
  "resource_key_of inst pl =
     (case i_op inst of
        D2H \<Rightarrow> ''d2h''
      | H2D \<Rightarrow> ''h2d''
      | D2D \<Rightarrow> (case pl of Local \<Rightarrow> ''d2d:same''
               | RemoteWrite \<Rightarrow> ''d2d:push:'' @ c_to_string (eff_src_rank inst) @ ''->'' @
                                c_to_string (i_rank inst)
               | RemoteRead \<Rightarrow> ''d2d:pull:'' @ c_to_string (eff_src_rank inst) @ ''->'' @
                                c_to_string (i_rank inst))
      | D2DReduce \<Rightarrow> ''d2d_reduce''
      | H2H \<Rightarrow> ''h2h:numa'' @ c_to_string (numa_id (i_dst inst))
      | H2HReduce \<Rightarrow> ''h2h:numa'' @ c_to_string (numa_id (i_dst inst))
      | NOP \<Rightarrow> ''nop'')"

definition ring_of :: "meta_table \<Rightarrow> progress_key \<Rightarrow> bool" where
  "ring_of meta key \<longleftrightarrow> pk_space key = PS_HOST \<and> m_ring (meta (pk_owner key) (pk_chunk key))"

definition mk_node :: "bool \<Rightarrow> meta_table \<Rightarrow> compiled_graph \<Rightarrow> resolved \<Rightarrow> instruction_node" where
  "mk_node push meta graph r =
     (let inst = r_inst r; (_, pl) = placement_of push inst in
      \<lparr>n_op = i_op inst, n_source_rank = eff_src_rank inst, n_destination_rank = i_rank inst,
       n_placement = pl, n_work_bytes = chunkBytesForKey (r_output r) graph,
       n_inputs = map (\<lambda>(k, rid). \<lparr>ni_key = k, ni_reader_id = rid, ni_ring_buffered = ring_of meta k\<rparr>)
                    (r_inputs r),
       n_output = r_output r, n_output_ring = ring_of meta (r_output r),
       n_overwrite_guard =
         (if sameBaseKey (r_old_output r) (r_output r) \<and>
             pk_version (r_old_output r) \<noteq> pk_version (r_output r)
          then Some (r_old_output r) else None),
       n_resource_key = resource_key_of inst pl, n_terminal = False\<rparr>)"

text \<open>The part of the loop body after \<^verbatim>\<open>execution_rank\<close>: skip, or append a node.\<close>

definition executes_on :: "bool \<Rightarrow> int \<Rightarrow> resolved \<Rightarrow> bool" where
  "executes_on push rank r \<longleftrightarrow> fst (placement_of push (r_inst r)) = rank \<and> r_has_output r"

definition emit_node :: "bool \<Rightarrow> meta_table \<Rightarrow> int \<Rightarrow> compiled_graph \<Rightarrow> resolved \<Rightarrow> compiled_graph" where
  "emit_node push meta rank graph r =
     (if \<not> executes_on push rank r then graph
      else (let node = mk_node push meta graph r;
                active1 = foldl addUniqueKey (g_active_keys graph) (map fst (r_inputs r));
                active2 = (case n_overwrite_guard node of None \<Rightarrow> active1
                           | Some k \<Rightarrow> addUniqueKey active1 k)
            in graph\<lparr>g_nodes := g_nodes graph @ [node],
                     g_active_keys := addUniqueKey active2 (r_output r),
                     g_has_remote_d2d := g_has_remote_d2d graph \<or>
                       (i_op (r_inst r) = D2D \<and>
                        (eff_src_rank (r_inst r) \<noteq> rank \<or> i_rank (r_inst r) \<noteq> rank))\<rparr>))"

section \<open>Terminal outputs\<close>

definition copyback_node :: "int \<Rightarrow> compiled_graph \<Rightarrow> progress_key \<Rightarrow> progress_key \<Rightarrow> progress_key \<Rightarrow> instruction_node" where
  "copyback_node rank graph staged old_visible copyback =
     \<lparr>n_op = D2D, n_source_rank = rank, n_destination_rank = -1, n_placement = Local,
      n_work_bytes = chunkBytesForKey copyback graph,
      n_inputs = [\<lparr>ni_key = staged, ni_reader_id = -1, ni_ring_buffered = False\<rparr>],
      n_output = copyback, n_output_ring = False, n_overwrite_guard = Some old_visible,
      n_resource_key = ''d2d:copyback'', n_terminal = True\<rparr>"

definition terminal_step ::
  "key_map \<Rightarrow> in_place_alias_mode \<Rightarrow> bool list \<Rightarrow> int \<Rightarrow> compiled_graph \<times> key_map \<Rightarrow> nat \<Rightarrow>
   compiled_graph \<times> key_map" where
  "terminal_step final mode stage_row rank st c =
     (let (graph, lat) = st;
          (visible, lat1) = latest final lat (deviceKey OUTPUT rank (int c) 0)
      in if stage_row ! c then
           (let (staged, lat2) = latest final lat1 (deviceKey INTERNAL rank (int c) 0);
                (old_visible, lat3) =
                  (if mode = SameBase \<and> int c < g_input_chunk_count graph
                   then latest final lat2 (deviceKey INPUT rank (int c) 0) else (visible, lat2));
                (copyback, lat4) = produce lat3 (deviceKey OUTPUT rank (int c) 0)
            in (graph\<lparr>g_nodes := g_nodes graph @ [copyback_node rank graph staged old_visible copyback],
                      g_terminal_outputs := g_terminal_outputs graph @ [copyback],
                      g_active_keys := foldl addUniqueKey (g_active_keys graph)
                        [staged, old_visible, copyback]\<rparr>, lat4))
         else (graph\<lparr>g_terminal_outputs := g_terminal_outputs graph @ [visible],
                     g_active_keys := addUniqueKey (g_active_keys graph) visible\<rparr>, lat1))"

definition mark_terminal :: "progress_key list \<Rightarrow> instruction_node \<Rightarrow> instruction_node" where
  "mark_terminal terminals node =
     (if n_output node \<in> set terminals then node\<lparr>n_terminal := True\<rparr> else node)"

definition nodeScheduleClass :: "instruction_node \<Rightarrow> int" where
  "nodeScheduleClass node =
     (if n_op node = D2H then 0
      else if n_op node = D2D \<and> n_inputs node \<noteq> [] \<and>
              pk_space (ni_key (hd (n_inputs node))) = PS_INPUT then 1
      else if n_op node = D2D \<and> n_placement node = Local then 2
      else if n_op node = H2D then 3
      else if n_op node = D2DReduce then 4
      else if n_op node = D2D then 5
      else 6)"

section \<open>compileGraph\<close>

definition version_env_of :: "ir_program \<Rightarrow> int \<Rightarrow> graph_options \<Rightarrow> version_env" where
  "version_env_of program world_size gopts =
     \<lparr>ve_opts = legacy_layout gopts, ve_program = program, ve_world = world_size,
      ve_stage = stage_rows gopts program world_size\<rparr>"

definition initial_versions :: "ir_program \<Rightarrow> int \<Rightarrow> int \<Rightarrow> version_state" where
  "initial_versions program rank world_size =
     \<lparr>vs_latest = init_all_inputs program world_size (init_own_inputs program rank),
      vs_readers = []\<rparr>"

definition reader_assignment_of :: "meta_table \<Rightarrow> (progress_key, int) omap \<Rightarrow> chunk_version list" where
  "reader_assignment_of meta counts =
     map (\<lambda>(k, n). \<lparr>cv_key = k, cv_ring_buffered = ring_of meta k, cv_num_readers = n\<rparr>) counts"

definition own_input_keys :: "int \<Rightarrow> int \<Rightarrow> progress_key list" where
  "own_input_keys rank count = map (\<lambda>c. deviceKey INPUT rank (int c) 0) [0..<nat count]"

definition finish_graph ::
  "pccl_env \<Rightarrow> graph_options \<Rightarrow> key_map \<Rightarrow> bool list \<Rightarrow> int \<Rightarrow> compiled_graph \<Rightarrow> key_map \<Rightarrow> compiled_graph" where
  "finish_graph env gopts final stage_row rank graph lat =
     (let (graph1, _) = foldl (terminal_step final (in_place_mode (legacy_layout gopts)) stage_row rank)
                          (graph, lat) [0..<nat (g_output_chunk_count graph)];
          nodes1 = map (mark_terminal (g_terminal_outputs graph1)) (g_nodes graph1);
          prioritize = (case envOverridesD2DInputFirst (d2d_input_first_env env) of
                          None \<Rightarrow> prioritize_input_d2d gopts | Some b \<Rightarrow> b);
          nodes2 = (if prioritize \<and> g_has_remote_d2d graph1
                    then sort_key nodeScheduleClass nodes1 else nodes1)
      in graph1\<lparr>g_nodes := nodes2,
                g_active_keys := foldl addUniqueKey (g_active_keys graph1) (g_terminal_outputs graph1)\<rparr>)"

text \<open>The graph before the loop over the instructions.\<close>

definition start_graph :: "pccl_env \<Rightarrow> ir_program \<Rightarrow> int \<Rightarrow> int \<Rightarrow> graph_options \<Rightarrow> compiled_graph" where
  "start_graph env program rank world_size gopts =
     (let skel = graph_skeleton env program rank world_size gopts;
          stage_row = stage_rows gopts program world_size ! nat rank;
          inputs = own_input_keys rank (g_input_chunk_count skel)
      in skel\<lparr>g_internal_bytes := internal_bytes_for
                   (max_internal_chunk program rank stage_row) (g_chunk_size skel),
              g_initial_ready_inputs := inputs,
              g_active_keys := foldl addUniqueKey [] inputs\<rparr>)"

text \<open>What is built from the host metadata and the resolved instructions.\<close>

definition assemble_graph ::
  "pccl_env \<Rightarrow> ir_program \<Rightarrow> int \<Rightarrow> int \<Rightarrow> graph_options \<Rightarrow>
   meta_table \<Rightarrow> resolved list \<Rightarrow> version_state \<Rightarrow> compiled_graph" where
  "assemble_graph env program rank world_size gopts meta rs vs =
     (let ve = version_env_of program world_size gopts;
          graph1 = foldl (emit_node (enableRemoteD2DPush (d2d_push_env env)) meta rank)
                     (start_graph env program rank world_size gopts) rs;
          graph2 = graph1\<lparr>g_reader_assignment := reader_assignment_of meta (vs_readers vs)\<rparr>
      in finish_graph env gopts (final_produced ve) (ve_stage ve ! nat rank) rank graph2 (vs_latest vs))"

text \<open>\<^verbatim>\<open>staging_ring\<close>, from the sizes of the graph.\<close>

definition staging_ring_of :: "pccl_env \<Rightarrow> compiled_graph \<Rightarrow> bool" where
  "staging_ring_of env g =
     staging_ring_enabled (pcclHostRingSlots (host_ring_slots_env env)) (g_chunk_size g)
       (g_num_subchunks g) (env_slice env (g_chunk_size g))"

definition compileGraph ::
  "pccl_env \<Rightarrow> ir_program \<Rightarrow> int \<Rightarrow> int \<Rightarrow> graph_options \<Rightarrow> compile_error + compiled_graph" where
  "compileGraph env program rank world_size gopts =
     (if rank < 0 \<or> world_size \<le> rank then Inl OutOfBounds
      else
        sbind (host_meta_of (staging_ring_of env (start_graph env program rank world_size gopts))
                 (p_all_instructions program)) (\<lambda>meta.
        sbind (resolve_all (version_env_of program world_size gopts)
                 (final_produced (version_env_of program world_size gopts))
                 (initial_versions program rank world_size) (p_all_instructions program)) (\<lambda>(rs, vs).
          Inr (assemble_graph env program rank world_size gopts meta rs vs))))"

end
