(* ===== verification/Binding.thy ===== *)
theory Binding
  imports Compiler
begin

text \<open>
  \<^verbatim>\<open>Compiler::makeRuntimeBinding\<close> of \<^verbatim>\<open>ir/compiler.cpp\<close>: the addresses a compiled graph runs
  on. Addresses are \<open>size_t\<close> values and 0 is the null pointer. The buffers come from the
  host pool and the process state; what their getters return is a parameter, for remote
  buffers as a function of the attempt, since the code asks again until the peer has
  published its buffer.
\<close>

section \<open>Bindings\<close>

record runtime_binding =
  rb_host_base :: "int \<Rightarrow> size_t"
  rb_device_base :: "progress_space \<Rightarrow> int \<Rightarrow> size_t"
  rb_layout :: "progress_space \<Rightarrow> layout_desc"
  rb_scalar_type :: scalar_type
  rb_reduce_op :: reduce_op
  rb_element_size :: size_t

datatype bind_error =
  InternalBufferFailed
| RemoteBufferTimeout string int

record process_view =
  pv_present :: bool                               \<comment> \<open>\<^verbatim>\<open>process_state != nullptr\<close>\<close>
  pv_multi_process :: bool
  pv_ensure_internal :: "size_t \<Rightarrow> bool"            \<comment> \<open>\<^verbatim>\<open>ensureInternalBuffer(...) == 0\<close>\<close>
  pv_input :: "int \<Rightarrow> nat \<Rightarrow> size_t"
  pv_output :: "int \<Rightarrow> nat \<Rightarrow> size_t"
  pv_internal :: "int \<Rightarrow> nat \<Rightarrow> size_t"
  pv_remote :: "int \<Rightarrow> int \<Rightarrow> nat \<Rightarrow> size_t"         \<comment> \<open>\<^verbatim>\<open>getRemoteDeviceBuffer\<close>: kind, owner\<close>

section \<open>Waiting for a remote buffer\<close>

text \<open>The ten thousand attempts of \<^verbatim>\<open>wait_for_remote\<close>.\<close>

definition wait_for_remote :: "string \<Rightarrow> int \<Rightarrow> (nat \<Rightarrow> size_t) \<Rightarrow> bind_error + size_t" where
  "wait_for_remote label owner getter =
     (case find (\<lambda>attempt. getter attempt \<noteq> 0) [0..<10000] of
        None \<Rightarrow> Inl (RemoteBufferTimeout label owner)
      | Some attempt \<Rightarrow> Inr (getter attempt))"

fun device_ipc_kind_for_space :: "progress_space \<Rightarrow> int" where
  "device_ipc_kind_for_space PS_INPUT = 0"
| "device_ipc_kind_for_space PS_OUTPUT = 1"
| "device_ipc_kind_for_space PS_SCRATCH = 1"
| "device_ipc_kind_for_space PS_INTERNAL = 2"
| "device_ipc_kind_for_space PS_HOST = -1"

definition remote_device_base ::
  "process_view \<Rightarrow> progress_space \<Rightarrow> int \<Rightarrow> (nat \<Rightarrow> size_t) \<Rightarrow> nat \<Rightarrow> size_t" where
  "remote_device_base pv space owner fallback attempt =
     (let kind = device_ipc_kind_for_space space in
      if pv_present pv \<and> pv_multi_process pv \<and> 0 \<le> kind then pv_remote pv kind owner attempt
      else fallback attempt)"

definition needs_device_base :: "compiled_graph \<Rightarrow> progress_space \<Rightarrow> int \<Rightarrow> bool" where
  "needs_device_base graph space owner \<longleftrightarrow>
     list_ex (\<lambda>key. pk_space key \<noteq> PS_HOST \<and> 0 \<le> pk_owner key \<and> pk_owner key < MAX_RANKS \<and>
       pk_space key = space \<and> pk_owner key = owner) (g_active_keys graph)"

section \<open>The binding\<close>

text \<open>The host bases: one per NUMA node that owns an active host key.\<close>

definition bind_host :: "(int \<Rightarrow> size_t) option \<Rightarrow> compiled_graph \<Rightarrow> int \<Rightarrow> size_t" where
  "bind_host host_pool graph =
     foldl (\<lambda>base key.
         case host_pool of None \<Rightarrow> base
         | Some getChunkBuffer \<Rightarrow>
             if pk_space key = PS_HOST \<and> 0 \<le> pk_owner key \<and> pk_owner key < MAX_NUMA_NODES \<and>
                base (pk_owner key) = 0
             then base(pk_owner key := getChunkBuffer (pk_owner key)) else base)
       (\<lambda>_. 0) (g_active_keys graph)"

text \<open>The base of the internal buffer, which must exist when the graph uses one.\<close>

definition bind_internal :: "process_view \<Rightarrow> compiled_graph \<Rightarrow> bind_error + size_t" where
  "bind_internal pv graph =
     (if 0 < g_internal_bytes graph then
        (if \<not> pv_present pv \<or> \<not> pv_ensure_internal pv (g_internal_bytes graph) then Inl InternalBufferFailed
         else Inr (pv_internal pv (g_rank graph) 0))
      else if pv_present pv then Inr (pv_internal pv (g_rank graph) 0)
      else Inr 0)"

text \<open>One space of one remote rank: wait when an active key needs it, else take what is there.\<close>

definition remote_base ::
  "process_view \<Rightarrow> compiled_graph \<Rightarrow> string \<Rightarrow> progress_space \<Rightarrow> (int \<Rightarrow> nat \<Rightarrow> size_t) \<Rightarrow> int \<Rightarrow> bind_error + size_t" where
  "remote_base pv graph label space getter r =
     (if needs_device_base graph space r
      then wait_for_remote label r (remote_device_base pv space r (getter r))
      else Inr (getter r 0))"

definition set_base :: "progress_space \<Rightarrow> int \<Rightarrow> size_t \<Rightarrow> runtime_binding \<Rightarrow> runtime_binding" where
  "set_base space r a b =
     b\<lparr>rb_device_base := (rb_device_base b)(space := (rb_device_base b space)(r := a))\<rparr>"

definition bind_rank ::
  "process_view \<Rightarrow> compiled_graph \<Rightarrow> size_t \<Rightarrow> size_t \<Rightarrow> size_t \<Rightarrow> runtime_binding \<Rightarrow> int \<Rightarrow> bind_error + runtime_binding" where
  "bind_rank pv graph send_base recv_base internal_base binding r =
     sbind
       (if r = g_rank graph \<or> \<not> pv_present pv
        then Inr (set_base PS_INTERNAL r internal_base
               (set_base PS_OUTPUT r recv_base (set_base PS_INPUT r send_base binding)))
        else
          sbind (remote_base pv graph ''INPUT'' PS_INPUT (pv_input pv) r) (\<lambda>inp.
          sbind (remote_base pv graph ''OUTPUT'' PS_OUTPUT (pv_output pv) r) (\<lambda>outp.
          sbind (remote_base pv graph ''INTERNAL'' PS_INTERNAL (pv_internal pv) r) (\<lambda>inter.
            Inr (set_base PS_INTERNAL r inter
                   (set_base PS_OUTPUT r outp (set_base PS_INPUT r inp binding)))))))
       (\<lambda>b. Inr (set_base PS_SCRATCH r (rb_device_base b PS_OUTPUT r) b))"

definition makeRuntimeBinding ::
  "process_view \<Rightarrow> compiled_graph \<Rightarrow> compile_options \<Rightarrow> size_t \<Rightarrow> size_t \<Rightarrow> (int \<Rightarrow> size_t) option \<Rightarrow>
   bind_error + runtime_binding" where
  "makeRuntimeBinding pv graph options sendbuff recvbuff host_pool =
     (let b0 = \<lparr>rb_host_base = bind_host host_pool graph, rb_device_base = \<lambda>_ _. 0,
                rb_layout = g_layout graph, rb_scalar_type = co_scalar_type options,
                rb_reduce_op = co_reduce_op options, rb_element_size = element_size options\<rparr>
      in sbind (bind_internal pv graph) (\<lambda>internal_base.
           sfold (bind_rank pv graph sendbuff recvbuff internal_base) b0
             (map int [0..<nat (g_world_size graph)])))"

section \<open>What a binding guarantees\<close>

lemma wait_for_remote_nonnull: "wait_for_remote label owner getter = Inr a \<Longrightarrow> a \<noteq> 0"
  by (auto simp: wait_for_remote_def find_Some_iff split: option.splits)

lemma wait_for_remote_hit:
  assumes "getter k \<noteq> 0" "k < 10000" "\<And>i. i < k \<Longrightarrow> getter i = 0"
  shows "wait_for_remote label owner getter = Inr (getter k)"
proof -
  have nth: "[0..<10000] ! i = i" if "i < 10000" for i using that by (simp del: upt_rec_numeral)
  have "find (\<lambda>attempt. getter attempt \<noteq> 0) [0..<10000] = Some k"
    unfolding find_Some_iff using assms nth by (intro exI[of _ k]) (auto simp del: upt_rec_numeral)
  then show ?thesis unfolding wait_for_remote_def by (simp only: option.case)
qed

lemma set_base_sel [simp]:
  "rb_device_base (set_base sp r a b) sp' r' = (if sp' = sp \<and> r' = r then a else rb_device_base b sp' r')"
  "rb_host_base (set_base sp r a b) = rb_host_base b"
  "rb_layout (set_base sp r a b) = rb_layout b"
  by (simp_all add: set_base_def)

text \<open>Binding a rank touches no other rank.\<close>

lemma bind_rank_other:
  "bind_rank pv g s d i b r = Inr b' \<Longrightarrow> r' \<noteq> r \<Longrightarrow> rb_device_base b' sp r' = rb_device_base b sp r'"
  by (auto simp: bind_rank_def sbind_Inr_iff split: if_splits)

lemma bind_rank_frame:
  "bind_rank pv g s d i b r = Inr b' \<Longrightarrow> rb_host_base b' = rb_host_base b \<and> rb_layout b' = rb_layout b"
  by (auto simp: bind_rank_def sbind_Inr_iff split: if_splits)

lemma sfold_bind_other:
  "sfold (bind_rank pv g s d i) b rs = Inr b' \<Longrightarrow> r \<notin> set rs \<Longrightarrow> rb_device_base b' sp r = rb_device_base b sp r"
proof (induction rs arbitrary: b)
  case Nil
  then show ?case by simp
next
  case (Cons q rs)
  then obtain b1 where "bind_rank pv g s d i b q = Inr b1" "sfold (bind_rank pv g s d i) b1 rs = Inr b'"
    by (auto simp: sbind_Inr_iff)
  then show ?case using Cons bind_rank_other[of pv g s d i b q b1 r sp] by simp
qed

text \<open>What rank \<open>r\<close> gets is decided at its own turn.\<close>

lemma sfold_bind_at:
  assumes "sfold (bind_rank pv g s d i) b rs = Inr b'" "distinct rs" "r \<in> set rs"
  shows "\<exists>b1 b2. bind_rank pv g s d i b1 r = Inr b2 \<and>
    (\<forall>sp. rb_device_base b' sp r = rb_device_base b2 sp r)"
  using assms
proof (induction rs arbitrary: b)
  case Nil
  then show ?case by simp
next
  case (Cons q rs)
  then obtain b1 where b1: "bind_rank pv g s d i b q = Inr b1" "sfold (bind_rank pv g s d i) b1 rs = Inr b'"
    by (auto simp: sbind_Inr_iff)
  show ?case
  proof (cases "q = r")
    case True
    then show ?thesis using Cons.prems(2) b1 sfold_bind_other[OF b1(2), of r] by (intro exI conjI) auto
  next
    case False
    then show ?thesis using Cons b1 by simp
  qed
qed


definition ex_bind_options :: compile_options where
  "ex_bind_options = \<lparr>seg_count = 8, element_size = 4, co_scalar_type = Float32, co_reduce_op = Sum_op,
     stride = 0, d2h_segments = 1, h2d_segments = 1, is_in_place = False, in_place_mode = SameBase\<rparr>"

definition ex_bind_graph :: compiled_graph where
  "ex_bind_graph = (graph_skeleton
     \<lparr>d2d_push_env = None, d2d_input_first_env = None, subchunk_slice_env = None, host_ring_slots_env = None\<rparr>
     \<lparr>p_name = ''x'', p_nranks = 2, p_input_chunk_count = 1, p_output_chunk_count = 1,
       p_instructions = [], p_all_instructions = []\<rparr> 0 2
     \<lparr>legacy_layout = ex_bind_options, go_staging_policy = Auto, prioritize_input_d2d = False\<rparr>)
     \<lparr>g_active_keys := [deviceKey INPUT 1 0 0]\<rparr>"

text \<open>A peer that publishes its input buffer at the third attempt.\<close>

definition ex_view :: process_view where
  "ex_view = \<lparr>pv_present = True, pv_multi_process = True, pv_ensure_internal = \<lambda>_. True,
     pv_input = \<lambda>_ _. 0, pv_output = \<lambda>_ _. 0, pv_internal = \<lambda>_ _. 0,
     pv_remote = \<lambda>_ _ attempt. if attempt < 2 then 0 else 4096\<rparr>"


end
