(* ===== verification/H2H.thy ===== *)
theory H2H
  imports Binding
begin

text \<open>
  The host engine (\<^verbatim>\<open>executor/h2h_engine.cpp\<close>): a host copy or host reduction of one subchunk
  is split into shares that worker threads take from a queue and apply to memory. Memory is
  a function from addresses to bytes; elements are little-endian. The floating-point
  operations of the machine are a parameter on bit patterns.
\<close>

section \<open>Elements in memory\<close>

type_synonym memory = "nat \<Rightarrow> nat"

definition load_le :: "nat \<Rightarrow> memory \<Rightarrow> nat \<Rightarrow> nat" where
  "load_le w m a = sum_list (map (\<lambda>i. m (a + i) * 256 ^ i) [0..<w])"

definition store_le :: "nat \<Rightarrow> nat \<Rightarrow> nat \<Rightarrow> memory \<Rightarrow> memory" where
  "store_le w a v m = (\<lambda>x. if a \<le> x \<and> x < a + w then v div 256 ^ (x - a) mod 256 else m x)"

record float_ops =
  fo_add :: "scalar_type \<Rightarrow> nat \<Rightarrow> nat \<Rightarrow> nat"
  fo_less :: "scalar_type \<Rightarrow> nat \<Rightarrow> nat \<Rightarrow> bool"

fun scalarElementSize :: "scalar_type \<Rightarrow> nat" where
  "scalarElementSize Int8 = 1"
| "scalarElementSize Uint8 = 1"
| "scalarElementSize Float16 = 2"
| "scalarElementSize Bfloat16 = 2"
| "scalarElementSize Int32 = 4"
| "scalarElementSize Uint32 = 4"
| "scalarElementSize Float32 = 4"
| "scalarElementSize Int64 = 8"
| "scalarElementSize Uint64 = 8"
| "scalarElementSize Float64 = 8"

text \<open>\<open>a < b\<close> of the C++ type.\<close>

definition to_signed :: "nat \<Rightarrow> nat \<Rightarrow> int" where
  "to_signed bits n = (if n < 2 ^ (bits - 1) then int n else int n - 2 ^ bits)"

definition scalar_less :: "float_ops \<Rightarrow> scalar_type \<Rightarrow> nat \<Rightarrow> nat \<Rightarrow> bool" where
  "scalar_less fops ty a b =
     (if ty \<in> {Int8, Int32, Int64}
      then to_signed (8 * scalarElementSize ty) a < to_signed (8 * scalarElementSize ty) b
      else if ty \<in> {Uint8, Uint32, Uint64} then a < b
      else fo_less fops ty a b)"

definition reduceValue :: "float_ops \<Rightarrow> scalar_type \<Rightarrow> reduce_op \<Rightarrow> nat \<Rightarrow> nat \<Rightarrow> nat" where
  "reduceValue fops ty op a b =
     (case op of
        Sum_op \<Rightarrow> if ty \<in> {Int8, Int32, Int64, Uint8, Uint32, Uint64}
                  then (a + b) mod 2 ^ (8 * scalarElementSize ty) else fo_add fops ty a b
      | Max_op \<Rightarrow> if scalar_less fops ty b a then a else b
      | Min_op \<Rightarrow> if scalar_less fops ty a b then a else b)"

definition reduceTyped ::
  "float_ops \<Rightarrow> scalar_type \<Rightarrow> nat \<Rightarrow> nat \<Rightarrow> nat \<Rightarrow> nat \<Rightarrow> reduce_op \<Rightarrow> memory \<Rightarrow> memory" where
  "reduceTyped fops ty dst src1 src2 count op mem =
     (let w = scalarElementSize ty in
      foldl (\<lambda>m i. store_le w (dst + i * w)
               (reduceValue fops ty op (load_le w m (src1 + i * w)) (load_le w m (src2 + i * w))) m)
        mem [0..<count])"

definition reduceHostBuffer ::
  "float_ops \<Rightarrow> nat \<Rightarrow> nat \<Rightarrow> nat \<Rightarrow> nat \<Rightarrow> scalar_type \<Rightarrow> reduce_op \<Rightarrow> memory \<Rightarrow> memory" where
  "reduceHostBuffer fops dst src1 src2 bytes ty op mem =
     (if ty \<in> {Float16, Bfloat16} then mem
      else reduceTyped fops ty dst src1 src2 (bytes div scalarElementSize ty) op mem)"

definition hostMemcpy :: "nat \<Rightarrow> nat \<Rightarrow> nat \<Rightarrow> memory \<Rightarrow> memory" where
  "hostMemcpy dst src n mem = (\<lambda>x. if dst \<le> x \<and> x < dst + n then mem (src + (x - dst)) else mem x)"

section \<open>Work items and the engine\<close>

record h2h_item =
  hw_dst :: size_t
  hw_src1 :: size_t
  hw_src2 :: size_t
  hw_src1_numa :: int
  hw_src2_numa :: int
  hw_dst_numa :: int
  hw_dst_chunk :: int
  hw_is_copy :: bool
  hw_scalar :: scalar_type
  hw_reduce :: reduce_op
  hw_element_size :: size_t
  hw_tid :: nat
  hw_num_threads :: nat
  hw_bytes :: size_t
  hw_done :: nat              \<comment> \<open>which completion counter\<close>

record h2h_engine =
  he_num_numa :: int
  he_spawned :: "int \<Rightarrow> bool"
  he_queue :: "int \<Rightarrow> h2h_item list"
  he_pending :: nat
  he_done :: "nat \<Rightarrow> nat"     \<comment> \<open>the completion counters\<close>

definition MAX_H2H_THREADS_PER_TASK :: nat where "MAX_H2H_THREADS_PER_TASK = 16"
definition MAX_H2H_WORKERS_PER_NUMA :: nat where "MAX_H2H_WORKERS_PER_NUMA = 16"

text \<open>The constructor; \<open>topo_numa\<close> is the topology's node count, 1 without a topology.\<close>

definition new_engine :: "int \<Rightarrow> h2h_engine" where
  "new_engine topo_numa = \<lparr>he_num_numa = max 1 (min topo_numa MAX_NUMA_NODES), he_spawned = \<lambda>_. False,
     he_queue = \<lambda>_. [], he_pending = 0, he_done = \<lambda>_. 0\<rparr>"

definition resolveGraphHostPtr ::
  "pccl_env \<Rightarrow> runtime_binding \<Rightarrow> progress_key \<Rightarrow> nat \<Rightarrow> size_t \<Rightarrow> bool \<Rightarrow> size_t" where
  "resolveGraphHostPtr env binding key subchunk_idx chunk_size ring_buffered =
     (let sl = env_slice env chunk_size; base = rb_host_base binding (pk_owner key) in
      if base = 0 then 0
      else
       (let chunk_offset = mul64 (int_to_size (pk_chunk key)) chunk_size;
            sub_offset = (if ring_buffered
              then mul64 (subchunk_idx mod pcclRingSlotsFor (pcclHostRingSlots (host_ring_slots_env env))) sl
              else mul64 subchunk_idx sl)
        in add64 (add64 base chunk_offset) sub_offset))"

text \<open>
  \<^verbatim>\<open>submitGraphWork\<close>: one work item per thread goes to the queue of the destination's node;
  the result is the number of items, 0 when the node or its addresses do not fit.
\<close>

definition submitGraphWork ::
  "pccl_env \<Rightarrow> instruction_node \<Rightarrow> runtime_binding \<Rightarrow> nat \<Rightarrow> size_t \<Rightarrow> size_t \<Rightarrow> nat \<Rightarrow> h2h_engine \<Rightarrow> nat \<times> h2h_engine" where
  "submitGraphWork env node binding subchunk_idx chunk_size bytes counter eng =
     (if n_op node \<noteq> H2H \<and> n_op node \<noteq> H2HReduce then (0, eng)
      else if n_inputs node = [] then (0, eng)
      else
       (let dst_numa = max 0 (min (pk_owner (n_output node)) (he_num_numa eng - 1));
            eng1 = eng\<lparr>he_spawned := (he_spawned eng)(dst_numa := True)\<rparr>;
            ptr = (\<lambda>k ring. resolveGraphHostPtr env binding k subchunk_idx chunk_size ring);
            dst = ptr (n_output node) (n_output_ring node);
            src1 = ptr (ni_key (n_inputs node ! 0)) (ni_ring_buffered (n_inputs node ! 0));
            two = n_op node = H2HReduce \<and> 1 < length (n_inputs node);
            src2 = (if two then ptr (ni_key (n_inputs node ! 1)) (ni_ring_buffered (n_inputs node ! 1)) else 0)
        in if dst = 0 \<or> src1 = 0 \<or> (n_op node = H2HReduce \<and> src2 = 0) then (0, eng1)
           else
            (let num_threads = max 1 (min MAX_H2H_THREADS_PER_TASK MAX_H2H_WORKERS_PER_NUMA);
                 item = (\<lambda>tid. \<lparr>hw_dst = dst, hw_src1 = src1, hw_src2 = src2,
                   hw_src1_numa = pk_owner (ni_key (n_inputs node ! 0)),
                   hw_src2_numa = (if two then pk_owner (ni_key (n_inputs node ! 1)) else -1),
                   hw_dst_numa = dst_numa, hw_dst_chunk = pk_chunk (n_output node),
                   hw_is_copy = (n_op node = H2H), hw_scalar = rb_scalar_type binding,
                   hw_reduce = rb_reduce_op binding, hw_element_size = rb_element_size binding,
                   hw_tid = tid, hw_num_threads = num_threads, hw_bytes = bytes, hw_done = counter\<rparr>)
             in (num_threads,
                 eng1\<lparr>he_queue := (he_queue eng1)(dst_numa := he_queue eng1 dst_numa @ map item [0..<num_threads]),
                      he_pending := he_pending eng1 + num_threads\<rparr>))))"

section \<open>The workers\<close>

definition share_unit :: "h2h_item \<Rightarrow> nat" where
  "share_unit item =
     (if hw_is_copy item then 1
      else max 1 (if hw_element_size item \<noteq> 0 then hw_element_size item
                  else scalarElementSize (hw_scalar item)))"

definition share_start :: "h2h_item \<Rightarrow> nat" where
  "share_start item =
     (let unit = share_unit item; units = hw_bytes item div unit;
          per_thread = (units + hw_num_threads item - 1) div hw_num_threads item
      in min (hw_tid item * per_thread * unit) (hw_bytes item))"

definition share_end :: "h2h_item \<Rightarrow> nat" where
  "share_end item =
     (let unit = share_unit item; units = hw_bytes item div unit;
          per_thread = (units + hw_num_threads item - 1) div hw_num_threads item
      in min (share_start item + per_thread * unit) (hw_bytes item))"

definition processGraphWork :: "float_ops \<Rightarrow> h2h_item \<Rightarrow> memory \<Rightarrow> memory" where
  "processGraphWork fops item mem =
     (let my_start = share_start item; my_end = share_end item in
      if my_start < my_end then
        (let my_bytes = my_end - my_start in
         if hw_is_copy item then hostMemcpy (hw_dst item + my_start) (hw_src1 item + my_start) my_bytes mem
         else reduceHostBuffer fops (hw_dst item + my_start) (hw_src1 item + my_start)
                (hw_src2 item + my_start) my_bytes (hw_scalar item) (hw_reduce item) mem)
      else mem)"

text \<open>One turn of a worker of a NUMA node: take the oldest item, apply it, count it.\<close>

definition worker_turn :: "float_ops \<Rightarrow> int \<Rightarrow> h2h_engine \<times> memory \<Rightarrow> (h2h_engine \<times> memory) option" where
  "worker_turn fops numa st =
     (case st of (eng, mem) \<Rightarrow>
       (case he_queue eng numa of
          [] \<Rightarrow> None
        | item # rest \<Rightarrow>
            Some (eng\<lparr>he_queue := (he_queue eng)(numa := rest),
                      he_done := (he_done eng)(hw_done item := he_done eng (hw_done item) + 1),
                      he_pending := he_pending eng - 1\<rparr>,
                  processGraphWork fops item mem)))"

section \<open>What a share computes\<close>

text \<open>The byte at offset \<open>off\<close> of the result, from the memory before.\<close>

definition result_byte :: "float_ops \<Rightarrow> h2h_item \<Rightarrow> memory \<Rightarrow> nat \<Rightarrow> nat" where
  "result_byte fops item m off =
     (if hw_is_copy item then m (hw_src1 item + off)
      else (let w = share_unit item; e = off div w * w in
        reduceValue fops (hw_scalar item) (hw_reduce item) (load_le w m (hw_src1 item + e))
          (load_le w m (hw_src2 item + e)) div 256 ^ (off mod w) mod 256))"

text \<open>Two buffers of \<open>n\<close> bytes are the same or disjoint.\<close>

definition alias_ok :: "nat \<Rightarrow> nat \<Rightarrow> nat \<Rightarrow> bool" where
  "alias_ok n a b \<longleftrightarrow> a = b \<or> a + n \<le> b \<or> b + n \<le> a"

definition item_ok :: "h2h_item \<Rightarrow> bool" where
  "item_ok item \<longleftrightarrow> 0 < hw_num_threads item \<and> alias_ok (hw_bytes item) (hw_dst item) (hw_src1 item) \<and>
     (hw_is_copy item \<or> (alias_ok (hw_bytes item) (hw_dst item) (hw_src2 item) \<and>
        hw_scalar item \<notin> {Float16, Bfloat16} \<and>
        hw_element_size item \<in> {0, scalarElementSize (hw_scalar item)}))"

lemma scalar_size_pos [simp]: "0 < scalarElementSize ty"
  by (cases ty) simp_all

lemma load_le_cong: "(\<And>i. i < w \<Longrightarrow> m (a + i) = m' (a + i)) \<Longrightarrow> load_le w m a = load_le w m' a"
  unfolding load_le_def by (intro arg_cong[where f = sum_list] map_cong) auto

text \<open>The elementwise loop, on buffers that are the same or disjoint.\<close>

lemma reduce_loop:
  assumes w: "w = scalarElementSize ty" and s1: "alias_ok (n * w) d a" and s2: "alias_ok (n * w) d b"
    and k: "k \<le> n"
  shows "reduceTyped fops ty d a b k op mem x =
    (if d \<le> x \<and> x < d + k * w
     then reduceValue fops ty op (load_le w mem (a + (x - d) div w * w)) (load_le w mem (b + (x - d) div w * w))
            div 256 ^ ((x - d) mod w) mod 256
     else mem x)"
  using k
proof (induction k arbitrary: x)
  case 0
  then show ?case by (simp add: reduceTyped_def)
next
  case (Suc k)
  let ?m = "reduceTyped fops ty d a b k op mem"
  have wp: "0 < w" by (simp add: w)
  have kn: "k * w + w \<le> n * w" using Suc.prems by (metis add.commute mult_Suc mult_le_mono1)
  have ld: "load_le w ?m (c + k * w) = load_le w mem (c + k * w)" if "alias_ok (n * w) d c" for c
  proof (rule load_le_cong)
    fix i assume i: "i < w"
    have "\<not> (d \<le> c + k * w + i \<and> c + k * w + i < d + k * w)"
      using that i kn by (auto simp: alias_ok_def)
    then show "?m (c + k * w + i) = mem (c + k * w + i)"
      unfolding Suc.IH[OF Suc_leD[OF Suc.prems]] by (rule if_not_P)
  qed
  have r: "reduceTyped fops ty d a b (Suc k) op mem = store_le w (d + k * w)
      (reduceValue fops ty op (load_le w mem (a + k * w)) (load_le w mem (b + k * w))) ?m"
    using ld[OF s1] ld[OF s2] by (simp add: reduceTyped_def w Let_def)
  show ?case
  proof (cases "d + k * w \<le> x \<and> x < d + k * w + w")
    case True
    then obtain y where y: "x = d + k * w + y" "y < w"
      by (metis add_less_cancel_left le_Suc_ex)
    then have e: "(x - d) div w = k" "(x - d) mod w = x - (d + k * w)"
      using wp by (simp_all add: add.assoc)
    show ?thesis using True by (simp add: r store_le_def e add.commute)
  next
    case False
    then have "(d \<le> x \<and> x < d + Suc k * w) = (d \<le> x \<and> x < d + k * w)" by auto
    moreover have "reduceTyped fops ty d a b (Suc k) op mem x = ?m x"
      unfolding r store_le_def by (rule if_not_P[OF False])
    ultimately show ?thesis unfolding Suc.IH[OF Suc_leD[OF Suc.prems]] by simp
  qed
qed

lemma share_bounds:
  assumes "0 < hw_num_threads item"
  defines "u \<equiv> share_unit item"
  defines "n \<equiv> hw_bytes item div u"
  defines "p \<equiv> (n + hw_num_threads item - 1) div hw_num_threads item"
  shows "share_start item < share_end item \<Longrightarrow> share_start item = hw_tid item * p * u"
    and "(share_end item - share_start item) div u = min p (n - hw_tid item * p)"
    and "share_start item \<le> share_end item" "share_end item \<le> hw_bytes item"
proof -
  let ?t = "hw_tid item"
  have u: "0 < u" by (simp add: u_def share_unit_def less_max_iff_disj)
  have s: "share_start item = min (?t * p * u) (hw_bytes item)"
    by (simp add: share_start_def Let_def u_def n_def p_def)
  have e: "share_end item = min (share_start item + p * u) (hw_bytes item)"
    by (simp add: share_end_def Let_def u_def n_def p_def)
  show "share_start item < share_end item \<Longrightarrow> share_start item = ?t * p * u"
    using s e by auto
  show "share_start item \<le> share_end item" "share_end item \<le> hw_bytes item"
    using s e by auto
  show "(share_end item - share_start item) div u = min p (n - ?t * p)"
  proof (cases "?t * p * u \<le> hw_bytes item")
    case True
    then have d: "share_end item - share_start item = min (p * u) (hw_bytes item - ?t * p * u)"
      using s e by auto
    obtain y where y: "hw_bytes item = ?t * p * u + y" using True le_Suc_ex by blast
    then have n: "n = ?t * p + y div u" using u by (simp add: n_def)
    have "min (p * u) y div u = min p (y div u)"
      using u by (cases "p * u \<le> y") (simp_all add: min_def less_eq_div_iff_mult_less_eq div_le_mono)
    then show ?thesis unfolding d using y n by simp
  next
    case False
    then have "n \<le> ?t * p" using u by (simp add: n_def less_mult_imp_div_less less_imp_le)
    then show ?thesis using False s e by simp
  qed
qed


text \<open>The units of a share: how many there are in all, and which ones belong to thread \<open>t\<close>.\<close>

definition share_units :: "h2h_item \<Rightarrow> nat" where
  "share_units item = hw_bytes item div share_unit item"

definition share_step :: "h2h_item \<Rightarrow> nat" where
  "share_step item = (share_units item + hw_num_threads item - 1) div hw_num_threads item"

definition in_share :: "h2h_item \<Rightarrow> nat \<Rightarrow> nat \<Rightarrow> bool" where
  "in_share item t off \<longleftrightarrow> t * share_step item \<le> off div share_unit item \<and>
     off div share_unit item < t * share_step item + min (share_step item) (share_units item - t * share_step item)"

lemma in_share_tid [simp]:
  "share_unit (item\<lparr>hw_tid := t\<rparr>) = share_unit item" "share_units (item\<lparr>hw_tid := t\<rparr>) = share_units item"
  "share_step (item\<lparr>hw_tid := t\<rparr>) = share_step item" "in_share (item\<lparr>hw_tid := t\<rparr>) = in_share item"
  "item_ok (item\<lparr>hw_tid := t\<rparr>) = item_ok item" "result_byte fops (item\<lparr>hw_tid := t\<rparr>) = result_byte fops item"
  unfolding share_unit_def share_units_def share_step_def in_share_def item_ok_def result_byte_def
  by (cases item; simp_all only: h2h_item.simps)+

lemma share_unit_pos [simp]: "0 < share_unit item"
  by (simp add: share_unit_def less_max_iff_disj)

lemma max_scalar_size: "max 1 (scalarElementSize ty) = scalarElementSize ty" "scalarElementSize ty \<noteq> 0"
  by (cases ty; simp)+

lemma share_unit_reduce: "item_ok item \<Longrightarrow> \<not> hw_is_copy item \<Longrightarrow> share_unit item = scalarElementSize (hw_scalar item)"
  by (auto simp: item_ok_def share_unit_def max_scalar_size[unfolded One_nat_def] simp del: scalar_size_pos)

lemma alias_part: "alias_ok n a b \<Longrightarrow> s + m \<le> n \<Longrightarrow> alias_ok m (a + s) (b + s)"
  by (auto simp: alias_ok_def)

lemma block_range:
  assumes "0 < (u::nat)"
  shows "t * u \<le> off \<and> off < t * u + c * u \<longleftrightarrow> t \<le> off div u \<and> off div u < t + c"
  using assms by (simp add: less_eq_div_iff_mult_less_eq div_less_iff_less_mult add_mult_distrib)

lemma share_effect:
  assumes ok: "item_ok item"
  shows "processGraphWork fops item mem x =
    (if hw_dst item \<le> x \<and> in_share item (hw_tid item) (x - hw_dst item)
     then result_byte fops item mem (x - hw_dst item) else mem x)"
proof -
  let ?u = "share_unit item" and ?d = "hw_dst item"
  let ?s = "share_start item" and ?e = "share_end item"
  have t: "0 < hw_num_threads item" using ok by (simp add: item_ok_def)
  note B = share_bounds[OF t]
  have c: "(?e - ?s) div ?u = min (share_step item) (share_units item - hw_tid item * share_step item)"
    using B(2) by (simp add: share_units_def share_step_def)
  show ?thesis
  proof (cases "?s < ?e")
    case False
    then have "min (share_step item) (share_units item - hw_tid item * share_step item) = 0" using c by simp
    then have "\<not> in_share item (hw_tid item) off" for off by (simp add: in_share_def)
    then show ?thesis using False by (simp add: processGraphWork_def)
  next
    case True
    then have s: "?s = hw_tid item * share_step item * ?u"
      using B(1) by (simp add: share_units_def share_step_def)
    have se: "?s + (?e - ?s) \<le> hw_bytes item" using B(4) True by simp
    have rng: "(?d + ?s \<le> x \<and> x < ?d + ?s + (?e - ?s) div ?u * ?u) =
        (?d \<le> x \<and> in_share item (hw_tid item) (x - ?d))"
    proof (cases "?d \<le> x")
      case True
      then obtain y where y: "x = ?d + y" using le_Suc_ex by blast
      show ?thesis
        using block_range[OF share_unit_pos, of "hw_tid item * share_step item" item y
            "min (share_step item) (share_units item - hw_tid item * share_step item)"]
        unfolding c in_share_def y by (simp add: s)
    next
      case False
      then show ?thesis by auto
    qed
    show ?thesis
    proof (cases "hw_is_copy item")
      case True
      have u: "?u = 1" using True by (simp add: share_unit_def)
      have "processGraphWork fops item mem x = hostMemcpy (?d + ?s) (hw_src1 item + ?s) (?e - ?s) mem x"
        using \<open>?s < ?e\<close> True by (simp add: processGraphWork_def Let_def)
      also have "\<dots> = (if ?d + ?s \<le> x \<and> x < ?d + ?s + (?e - ?s) div ?u * ?u
          then mem (hw_src1 item + (x - ?d)) else mem x)"
        unfolding hostMemcpy_def u by (auto intro!: arg_cong[of _ _ mem])
      finally show ?thesis unfolding rng using True by (simp add: result_byte_def)
    next
      case False
      let ?ty = "hw_scalar item" and ?k = "(?e - ?s) div ?u"
      have w: "?u = scalarElementSize ?ty" by (rule share_unit_reduce[OF ok False])
      have le: "?s + ?k * ?u \<le> hw_bytes item" using se div_times_less_eq_dividend[of "?e - ?s" ?u] by linarith
      have a: "alias_ok (?k * ?u) (?d + ?s) (hw_src1 item + ?s)" "alias_ok (?k * ?u) (?d + ?s) (hw_src2 item + ?s)"
        using ok False by (auto simp: item_ok_def intro!: alias_part[OF _ le])
      have "processGraphWork fops item mem x =
          reduceTyped fops ?ty (?d + ?s) (hw_src1 item + ?s) (hw_src2 item + ?s) ?k (hw_reduce item) mem x"
        using \<open>?s < ?e\<close> False ok by (simp add: processGraphWork_def reduceHostBuffer_def Let_def w item_ok_def)
      also have "\<dots> = (if ?d + ?s \<le> x \<and> x < ?d + ?s + ?k * ?u
          then result_byte fops item mem (x - ?d) else mem x)"
      proof -
        have "(x - ?d) div ?u * ?u = ?s + (x - (?d + ?s)) div ?u * ?u" "(x - ?d) mod ?u = (x - (?d + ?s)) mod ?u"
          if x: "?d + ?s \<le> x"
        proof -
          obtain y where y: "x = ?d + ?s + y" using x le_Suc_ex by blast
          then have "x - ?d = y + hw_tid item * share_step item * ?u" by (simp add: s)
          then show "(x - ?d) div ?u * ?u = ?s + (x - (?d + ?s)) div ?u * ?u"
            "(x - ?d) mod ?u = (x - (?d + ?s)) mod ?u"
            by (simp_all add: y s add_mult_distrib)
        qed
        then show ?thesis
          unfolding reduce_loop[OF w a le_refl] result_byte_def Let_def using False
          by (auto simp: add.assoc)
      qed
      finally show ?thesis unfolding rng .
    qed
  qed
qed

lemma result_byte_cong:
  assumes "\<And>j. j div share_unit item = off div share_unit item \<Longrightarrow>
      m (hw_src1 item + j) = m' (hw_src1 item + j) \<and> (hw_is_copy item \<or> m (hw_src2 item + j) = m' (hw_src2 item + j))"
  shows "result_byte fops item m off = result_byte fops item m' off"
proof (cases "hw_is_copy item")
  case True
  then show ?thesis using assms[of off] by (simp add: result_byte_def)
next
  case False
  let ?u = "share_unit item"
  have "m (c + off div ?u * ?u + i) = m' (c + off div ?u * ?u + i)"
    if i: "i < ?u" and c: "c = hw_src1 item \<or> c = hw_src2 item" for i c
  proof -
    have "(off div ?u * ?u + i) div ?u = off div ?u" using i by simp
    from assms[OF this] show ?thesis using c False by (auto simp: add.assoc)
  qed
  then have "load_le ?u m (c + off div ?u * ?u) = load_le ?u m' (c + off div ?u * ?u)"
    if "c = hw_src1 item \<or> c = hw_src2 item" for c using that by (intro load_le_cong) blast
  then show ?thesis using False by (simp add: result_byte_def Let_def)
qed

lemma in_share_units: "in_share item t off \<Longrightarrow> off div share_unit item < share_units item"
  by (auto simp: in_share_def)

lemma unit_in_buffer: "j div share_unit item < share_units item \<Longrightarrow> j < hw_bytes item"
proof -
  assume "j div share_unit item < share_units item"
  then have "j < share_units item * share_unit item" by (simp add: div_less_iff_less_mult)
  also have "\<dots> \<le> hw_bytes item" unfolding share_units_def by (rule div_times_less_eq_dividend)
  finally show ?thesis .
qed

lemma in_share_unique: "in_share item t off \<Longrightarrow> in_share item t' off \<Longrightarrow> t = t'"
proof (rule ccontr)
  have "\<not> (in_share item a off \<and> in_share item b off)" if "a < b" for a b
  proof -
    have "a * share_step item + share_step item \<le> b * share_step item"
      using that by (metis Suc_leI add.commute mult_Suc mult_le_mono1)
    then show ?thesis by (auto simp: in_share_def)
  qed
  then show "in_share item t off \<Longrightarrow> in_share item t' off \<Longrightarrow> t \<noteq> t' \<Longrightarrow> False" by (metis nat_neq_iff)
qed

text \<open>The shares of distinct threads, applied one after the other.\<close>

lemma shares_fold:
  assumes ok: "item_ok item" and d: "distinct tids"
  shows "foldl (\<lambda>m t. processGraphWork fops (item\<lparr>hw_tid := t\<rparr>) m) mem tids x =
    (if hw_dst item \<le> x \<and> (\<exists>t \<in> set tids. in_share item t (x - hw_dst item))
     then result_byte fops item mem (x - hw_dst item) else mem x)"
  using d
proof (induction tids arbitrary: x rule: rev_induct)
  case Nil
  then show ?case by simp
next
  case (snoc t ts)
  let ?m = "foldl (\<lambda>m t. processGraphWork fops (item\<lparr>hw_tid := t\<rparr>) m) mem ts"
  let ?off = "x - hw_dst item"
  have t: "t \<notin> set ts" and IH: "\<And>x. ?m x = (if hw_dst item \<le> x \<and> (\<exists>t \<in> set ts. in_share item t (x - hw_dst item))
     then result_byte fops item mem (x - hw_dst item) else mem x)"
    using snoc by simp_all
  have step: "foldl (\<lambda>m t. processGraphWork fops (item\<lparr>hw_tid := t\<rparr>) m) mem (ts @ [t]) x =
      (if hw_dst item \<le> x \<and> in_share item t ?off then result_byte fops item ?m ?off else ?m x)"
    using share_effect[of "item\<lparr>hw_tid := t\<rparr>"] ok by simp
  show ?case
  proof (cases "hw_dst item \<le> x \<and> in_share item t ?off")
    case True
    have "?m (c + j) = mem (c + j)"
      if j: "j div share_unit item = ?off div share_unit item" and c: "alias_ok (hw_bytes item) (hw_dst item) c" for c j
    proof -
      have jb: "j < hw_bytes item" using True in_share_units[of item t ?off] unfolding j[symmetric]
        by (blast intro: unit_in_buffer)
      have "\<not> (hw_dst item \<le> c + j \<and> in_share item t' (c + j - hw_dst item))" if t': "t' \<in> set ts" for t'
      proof
        assume a: "hw_dst item \<le> c + j \<and> in_share item t' (c + j - hw_dst item)"
        then have "c + j - hw_dst item < hw_bytes item" by (blast intro: unit_in_buffer in_share_units)
        then have "c = hw_dst item" using a c jb by (auto simp: alias_ok_def)
        then have "in_share item t' ?off" using a j by (simp add: in_share_def)
        then show False using in_share_unique[of item t' ?off t] True t t' by auto
      qed
      then show ?thesis unfolding IH by auto
    qed
    then have "result_byte fops item ?m ?off = result_byte fops item mem ?off"
      using ok by (intro result_byte_cong) (auto simp: item_ok_def)
    then show ?thesis using True unfolding step by auto
  next
    case False
    then show ?thesis unfolding step by (auto simp: IH)
  qed
qed

lemma shares_cover:
  assumes "0 < hw_num_threads item"
  shows "(\<exists>t < hw_num_threads item. in_share item t off) \<longleftrightarrow> off div share_unit item < share_units item"
proof
  assume "\<exists>t < hw_num_threads item. in_share item t off"
  then show "off div share_unit item < share_units item" by (auto dest: in_share_units)
next
  assume l: "off div share_unit item < share_units item"
  let ?T = "hw_num_threads item" and ?n = "share_units item" and ?p = "share_step item" and ?q = "off div share_unit item"
  have "?n \<le> ?p * ?T"
  proof -
    have "?n + ?T - 1 < ?p * ?T + ?T"
      using assms dividend_less_div_times[of ?T "?n + ?T - 1"] by (simp add: share_step_def)
    then show ?thesis by simp
  qed
  then have q: "?q < ?p * ?T" using l by simp
  then have p: "0 < ?p" by (cases "?p = 0") auto
  have "?q div ?p < ?T" using q p by (simp add: div_less_iff_less_mult mult.commute)
  moreover have "in_share item (?q div ?p) off"
    using p l dividend_less_div_times[of ?p ?q] by (auto simp: in_share_def)
  ultimately show "\<exists>t < ?T. in_share item t off" by blast
qed

text \<open>
  C18. Host work. Whatever the order in which the worker threads apply their shares of a host
  copy or reduction, the memory afterwards is the one a single thread working through the
  whole buffer leaves, also when the destination is one of the sources.
\<close>

theorem shares_any_order:
  assumes ok: "item_ok item" and tids: "distinct tids" "set tids = {..<hw_num_threads item}"
  shows "foldl (\<lambda>m t. processGraphWork fops (item\<lparr>hw_tid := t\<rparr>) m) mem tids =
    processGraphWork fops (item\<lparr>hw_tid := 0, hw_num_threads := 1\<rparr>) mem"
proof
  fix x
  let ?one = "item\<lparr>hw_tid := 0, hw_num_threads := 1\<rparr>" and ?off = "x - hw_dst item"
  have T: "0 < hw_num_threads item" using ok by (simp add: item_ok_def)
  have ok1: "item_ok ?one" using ok by (simp add: item_ok_def)
  have u1: "share_unit ?one = share_unit item" by (simp add: share_unit_def)
  have u2: "share_units ?one = share_units item" by (simp add: share_units_def u1[simplified])
  have u3: "share_step ?one = share_units item" by (simp add: share_step_def u2[simplified])
  have u4: "result_byte fops ?one = result_byte fops item" by (intro ext) (simp add: result_byte_def u1[simplified])
  note u = u1 u2 u3 u4 u1[simplified] u2[simplified] u3[simplified] u4[simplified]
  have "(\<exists>t \<in> set tids. in_share item t ?off) = in_share ?one 0 ?off"
    using shares_cover[OF T, of ?off] tids(2) by (auto simp: in_share_def u)
  then show "foldl (\<lambda>m t. processGraphWork fops (item\<lparr>hw_tid := t\<rparr>) m) mem tids x =
      processGraphWork fops ?one mem x"
    unfolding shares_fold[OF ok tids(1)] share_effect[OF ok1] by (simp add: u)
qed

definition ex_item :: h2h_item where
  "ex_item = \<lparr>hw_dst = 0, hw_src1 = 0, hw_src2 = 8, hw_src1_numa = 0, hw_src2_numa = 0, hw_dst_numa = 0,
     hw_dst_chunk = 0, hw_is_copy = False, hw_scalar = Int32, hw_reduce = Sum_op, hw_element_size = 4,
     hw_tid = 0, hw_num_threads = 2, hw_bytes = 8, hw_done = 0\<rparr>"

theorem shares_any_order_witness:
  "\<forall>fops. foldl (\<lambda>m t. processGraphWork fops (ex_item\<lparr>hw_tid := t\<rparr>) m) (\<lambda>i. i) [1, 0] =
     processGraphWork fops (ex_item\<lparr>hw_tid := 0, hw_num_threads := 1\<rparr>) (\<lambda>i. i)"
  by (rule allI, rule shares_any_order) (auto simp: ex_item_def item_ok_def alias_ok_def)

end
