(* ===== verification/CompletionFlag.thy ===== *)
theory CompletionFlag
  imports CEnv
begin

text \<open>
  Completion flags (\<^verbatim>\<open>memory/completion_flag.cpp\<close>): per slot a doorbell the user stream
  rings when its work may start and a sequence number whose publication releases the user
  stream. Operations on streams are recorded in the order they are enqueued; which of them
  the device accepts is the parameter \<open>ok\<close>.
\<close>

section \<open>Slots and stream operations\<close>

datatype collective_op = AllReduce_op | AllGather_op | ReduceScatter_op | Broadcast_op | Unknown_op

datatype stream_id = ResetStream | SignalStream | UserStream nat

datatype flag_event = ResetEvent int | WaitDoneEvent int

datatype stream_op =
  StreamWaitEvent stream_id flag_event
| RecordEvent flag_event stream_id
| WriteReady stream_id int nat          \<comment> \<open>slot and value written to \<^verbatim>\<open>ready_seq_dev\<close>\<close>
| WaitComplete stream_id int nat        \<comment> \<open>park until \<^verbatim>\<open>complete_seq_dev >= value\<close>\<close>
| CopyFlag stream_id int nat            \<comment> \<open>copy 0 or 1 to \<^verbatim>\<open>dev_flag\<close>\<close>
| LaunchWait stream_id int nat string   \<comment> \<open>the waiting kernel: slot, sequence, name\<close>

record flag_slot =
  fs_ready :: nat
  fs_complete :: nat
  fs_prepared :: nat
  fs_wait_done_recorded :: bool

record completion_flag =
  cf_initialized :: bool
  cf_mem_ops :: bool
  cf_queue_depth :: int
  cf_compat_seq :: nat
  cf_slots :: "int \<Rightarrow> flag_slot"
  cf_log :: "stream_op list"

definition validSlot :: "completion_flag \<Rightarrow> int \<Rightarrow> bool" where
  "validSlot cf slot \<longleftrightarrow> cf_initialized cf \<and> 0 \<le> slot \<and> slot < cf_queue_depth cf"

fun waitOpName :: "collective_op \<Rightarrow> string" where
  "waitOpName AllReduce_op = ''AllReduce''"
| "waitOpName AllGather_op = ''AllGather''"
| "waitOpName ReduceScatter_op = ''ReduceScatter''"
| "waitOpName Broadcast_op = ''Broadcast''"
| "waitOpName Unknown_op = ''Unknown''"

text \<open>The name of the waiting kernel; \<^verbatim>\<open>%02d\<close> pads a one-digit slot with a zero.\<close>

definition two_digits :: "int \<Rightarrow> string" where
  "two_digits n = (if 0 \<le> n \<and> n < 10 then ''0'' @ c_to_string n else c_to_string n)"

definition kernelName :: "collective_op \<Rightarrow> int \<Rightarrow> int \<Rightarrow> string" where
  "kernelName op rank slot =
     (if 0 \<le> rank \<and> rank < 8
      then ''PcclCollective_'' @ waitOpName op @ ''_R'' @ c_to_string rank @ ''_S'' @ two_digits slot
      else ''PcclCollective_'' @ waitOpName op @ ''_RX_S'' @ two_digits slot)"

definition empty_slot :: flag_slot where
  "empty_slot = \<lparr>fs_ready = 0, fs_complete = 0, fs_prepared = 0, fs_wait_done_recorded = False\<rparr>"

definition new_flag :: completion_flag where
  "new_flag = \<lparr>cf_initialized = False, cf_mem_ops = False, cf_queue_depth = PCCL_EXECUTOR_QUEUE_DEPTH_DEFAULT,
     cf_compat_seq = 0, cf_slots = \<lambda>_. empty_slot, cf_log = []\<rparr>"

section \<open>Enqueuing operations\<close>

definition enqueue_op :: "stream_op \<Rightarrow> completion_flag \<Rightarrow> completion_flag" where
  "enqueue_op op cf = cf\<lparr>cf_log := cf_log cf @ [op]\<rparr>"

definition upd_slot :: "int \<Rightarrow> (flag_slot \<Rightarrow> flag_slot) \<Rightarrow> completion_flag \<Rightarrow> completion_flag" where
  "upd_slot slot f cf = cf\<lparr>cf_slots := (cf_slots cf)(slot := f (cf_slots cf slot))\<rparr>"

text \<open>Enqueue operations until one is refused.\<close>

fun run_ops :: "(stream_op \<Rightarrow> bool) \<Rightarrow> stream_op list \<Rightarrow> completion_flag \<Rightarrow> bool \<times> completion_flag" where
  "run_ops ok [] cf = (True, cf)"
| "run_ops ok (op # ops) cf = (if ok op then run_ops ok ops (enqueue_op op cf) else (False, cf))"

text \<open>
  \<^verbatim>\<open>initialize\<close>: \<open>res_ok\<close> says whether the streams, buffers and events of a slot could be
  created; \<open>mem_ops\<close> is the device's capability.
\<close>

definition init_slot :: "(int \<Rightarrow> bool) \<Rightarrow> (stream_op \<Rightarrow> bool) \<Rightarrow> bool \<times> completion_flag \<Rightarrow> int \<Rightarrow> bool \<times> completion_flag" where
  "init_slot res_ok ok st i =
     (case st of (alive, cf) \<Rightarrow>
        if \<not> alive then (False, cf)
        else if \<not> res_ok i then (False, cf)
        else
         (let (fine, cf1) = run_ops ok [CopyFlag ResetStream i 0, RecordEvent (WaitDoneEvent i) ResetStream] cf
          in if \<not> fine then (False, cf1)
             else (True, upd_slot i (\<lambda>s. s\<lparr>fs_wait_done_recorded := True\<rparr>)
                    (if cf_mem_ops cf1
                     then snd (run_ops ok [WriteReady ResetStream i 0, WaitComplete ResetStream i 0] cf1) else cf1))))"

definition flag_initialize ::
  "string option \<Rightarrow> bool \<Rightarrow> string option \<Rightarrow> bool \<Rightarrow> (int \<Rightarrow> bool) \<Rightarrow> (stream_op \<Rightarrow> bool) \<Rightarrow> completion_flag \<Rightarrow> int \<times> completion_flag" where
  "flag_initialize depth_env mem_ops disable_env streams_ok res_ok ok cf =
     (if cf_initialized cf then (0, cf)
      else
       (let depth = slotCountFromEnv depth_env;
            disabled = (case disable_env of Some (c # _) \<Rightarrow> c = CHR ''1'' | _ \<Rightarrow> False);
            cf1 = cf\<lparr>cf_queue_depth := depth, cf_mem_ops := mem_ops \<and> \<not> disabled\<rparr>
        in if \<not> streams_ok then (-1, cf1)
           else case foldl (init_slot res_ok ok) (True, cf1) (map int [0..<nat depth]) of
                  (True, cf2) \<Rightarrow> (0, cf2\<lparr>cf_initialized := True\<rparr>)
                | (False, cf2) \<Rightarrow> (-1, cf2)))"

section \<open>Doorbell, wait and signal\<close>

definition readySequence :: "completion_flag \<Rightarrow> int \<Rightarrow> nat" where
  "readySequence cf slot = (if \<not> validSlot cf slot then 0 else fs_ready (cf_slots cf slot))"

definition isReady :: "completion_flag \<Rightarrow> int \<Rightarrow> nat \<Rightarrow> bool" where
  "isReady cf slot work_seq \<longleftrightarrow> readySequence cf slot = work_seq"

text \<open>The operations of a wait, after the reuse of the slot has been ordered.\<close>

definition wait_ops :: "bool \<Rightarrow> int \<Rightarrow> nat \<Rightarrow> collective_op \<Rightarrow> int \<Rightarrow> nat \<Rightarrow> stream_op list" where
  "wait_ops mem_ops slot user op rank seq =
     (if mem_ops then
       [RecordEvent (ResetEvent slot) ResetStream, StreamWaitEvent (UserStream user) (ResetEvent slot),
        WriteReady (UserStream user) slot seq, WaitComplete (UserStream user) slot seq,
        RecordEvent (WaitDoneEvent slot) (UserStream user)]
      else
       [CopyFlag ResetStream slot 0, RecordEvent (ResetEvent slot) ResetStream,
        StreamWaitEvent (UserStream user) (ResetEvent slot),
        LaunchWait (UserStream user) slot seq (kernelName op rank slot),
        RecordEvent (WaitDoneEvent slot) (UserStream user)])"

definition prepareUserWait ::
  "(stream_op \<Rightarrow> bool) \<Rightarrow> int \<Rightarrow> nat \<Rightarrow> collective_op \<Rightarrow> int \<Rightarrow> nat \<Rightarrow> completion_flag \<Rightarrow> int \<times> completion_flag" where
  "prepareUserWait ok slot user op rank seq cf =
     (if \<not> validSlot cf slot then (-1, cf)
      else
       (let (fine, cf1) = (if fs_wait_done_recorded (cf_slots cf slot)
              then run_ops ok [StreamWaitEvent ResetStream (WaitDoneEvent slot)] cf else (True, cf))
        in if \<not> fine then (-1, cf1)
           else
            (let cf2 = upd_slot slot (\<lambda>s. s\<lparr>fs_ready := 0, fs_prepared := seq\<rparr>) cf1;
                 (fine2, cf3) = run_ops ok (wait_ops (cf_mem_ops cf2) slot user op rank seq) cf2
             in if \<not> fine2 then (-1, cf3)
                else (0, upd_slot slot (\<lambda>s. s\<lparr>fs_wait_done_recorded := True\<rparr>) cf3))))"

definition signalComplete :: "(stream_op \<Rightarrow> bool) \<Rightarrow> int \<Rightarrow> nat \<Rightarrow> completion_flag \<Rightarrow> int \<times> completion_flag" where
  "signalComplete ok slot seq cf =
     (if \<not> validSlot cf slot then (-1, cf)
      else if cf_mem_ops cf then (0, upd_slot slot (\<lambda>s. s\<lparr>fs_complete := seq\<rparr>) cf)
      else case run_ops ok [CopyFlag SignalStream slot 1] cf of
             (True, cf') \<Rightarrow> (0, cf') | (False, cf') \<Rightarrow> (-1, cf'))"

definition signalComplete_slot :: "(stream_op \<Rightarrow> bool) \<Rightarrow> int \<Rightarrow> completion_flag \<Rightarrow> int \<times> completion_flag" where
  "signalComplete_slot ok slot cf =
     (if \<not> validSlot cf slot then (-1, cf)
      else (let seq = fs_prepared (cf_slots cf slot) in signalComplete ok slot (if seq = 0 then 1 else seq) cf))"

definition enqueueUserWait :: "(stream_op \<Rightarrow> bool) \<Rightarrow> nat \<Rightarrow> completion_flag \<Rightarrow> int \<times> completion_flag" where
  "enqueueUserWait ok user cf =
     (let seq = cf_compat_seq cf + 1
      in prepareUserWait ok 0 user Unknown_op (-1) seq (cf\<lparr>cf_compat_seq := seq\<rparr>))"

definition signalComplete_compat :: "(stream_op \<Rightarrow> bool) \<Rightarrow> completion_flag \<Rightarrow> int \<times> completion_flag" where
  "signalComplete_compat ok cf = signalComplete ok 0 (cf_compat_seq cf) cf"

definition flag_result :: "bool \<times> completion_flag \<Rightarrow> int \<times> completion_flag" where
  "flag_result st = (if fst st then 0 else -1, snd st)"

definition flag_reset :: "(stream_op \<Rightarrow> bool) \<Rightarrow> completion_flag \<Rightarrow> int \<times> completion_flag" where
  "flag_reset ok cf =
     (if \<not> validSlot cf 0 then (-1, cf)
      else flag_result (run_ops ok
        ((if fs_wait_done_recorded (cf_slots cf 0) then [StreamWaitEvent ResetStream (WaitDoneEvent 0)] else []) @
         [CopyFlag ResetStream 0 0, RecordEvent (ResetEvent 0) ResetStream]) cf))"

definition ensureResetVisible :: "(stream_op \<Rightarrow> bool) \<Rightarrow> nat \<Rightarrow> completion_flag \<Rightarrow> int \<times> completion_flag" where
  "ensureResetVisible ok user cf =
     (if \<not> validSlot cf 0 then (-1, cf)
      else flag_result (run_ops ok [StreamWaitEvent (UserStream user) (ResetEvent 0)] cf))"

definition recordWaitComplete :: "(stream_op \<Rightarrow> bool) \<Rightarrow> nat \<Rightarrow> completion_flag \<Rightarrow> int \<times> completion_flag" where
  "recordWaitComplete ok user cf =
     (if \<not> validSlot cf 0 then (-1, cf)
      else flag_result (run_ops ok [RecordEvent (WaitDoneEvent 0) (UserStream user)] cf))"

section \<open>Facts\<close>

lemma enqueue_op_sel [simp]:
  "cf_initialized (enqueue_op x cf) = cf_initialized cf" "cf_mem_ops (enqueue_op x cf) = cf_mem_ops cf"
  "cf_queue_depth (enqueue_op x cf) = cf_queue_depth cf" "cf_slots (enqueue_op x cf) = cf_slots cf"
  "cf_log (enqueue_op x cf) = cf_log cf @ [x]"
  by (simp_all add: enqueue_op_def)

lemma upd_slot_sel [simp]:
  "cf_initialized (upd_slot i f cf) = cf_initialized cf" "cf_mem_ops (upd_slot i f cf) = cf_mem_ops cf"
  "cf_queue_depth (upd_slot i f cf) = cf_queue_depth cf" "cf_log (upd_slot i f cf) = cf_log cf"
  "cf_slots (upd_slot i f cf) j = (if i = j then f (cf_slots cf j) else cf_slots cf j)"
  by (simp_all add: upd_slot_def)

lemma run_ops_frame [simp]:
  "cf_slots (snd (run_ops ok ops cf)) = cf_slots cf"
  "cf_initialized (snd (run_ops ok ops cf)) = cf_initialized cf"
  "cf_mem_ops (snd (run_ops ok ops cf)) = cf_mem_ops cf"
  "cf_queue_depth (snd (run_ops ok ops cf)) = cf_queue_depth cf"
  by (induction ops arbitrary: cf) simp_all

text \<open>What is enqueued is a prefix, the whole list exactly when nothing is refused.\<close>

lemma run_ops_log [simp]:
  "cf_log (snd (run_ops ok ops cf)) = cf_log cf @ takeWhile ok ops"
  "fst (run_ops ok ops cf) = list_all ok ops"
  by (induction ops arbitrary: cf) simp_all

lemma signal_valid [simp]: "validSlot (snd (signalComplete ok slot seq cf)) i = validSlot cf i"
  and signal_mem_ops [simp]: "cf_mem_ops (snd (signalComplete ok slot seq cf)) = cf_mem_ops cf"
  by (simp_all add: signalComplete_def validSlot_def)

lemma signal_complete:
  "cf_mem_ops cf \<Longrightarrow> fs_complete (cf_slots (snd (signalComplete ok slot seq cf)) i) =
     (if validSlot cf slot \<and> i = slot then seq else fs_complete (cf_slots cf i))"
  by (auto simp: signalComplete_def)

end
