(* ===== verification/ExecState.thy ===== *)
theory ExecState
  imports SharedState EventRing H2H CompletionFlag "HOL-Library.Signed_Division"
begin

text \<open>
  The state of a \<^verbatim>\<open>GraphExecutor\<close> (\<^verbatim>\<open>executor/graph_executor.hpp\<close>, \<^verbatim>\<open>graph_executor.cpp\<close>) and
  the operations every call of it is built from: subchunk sizes and addresses, the readiness
  tests, the publication of progress and the completion of transfers. What the device, the
  clock and the host workers answer is a parameter of the call that asks.
\<close>

section \<open>State\<close>

datatype pccl_result = pcclSuccess | pcclInvalidArgument | pcclSystemError | pcclInternalError
  | pcclDeviceError | pcclNetworkError | pcclTimeout

definition DMA_LANE_D2H :: nat where "DMA_LANE_D2H = 0"
definition DMA_LANE_H2D :: nat where "DMA_LANE_H2D = 1"
definition DMA_LANE_D2D_PEER :: nat where "DMA_LANE_D2D_PEER = 2"
definition DMA_LANE_D2D_LOCAL :: nat where "DMA_LANE_D2D_LOCAL = 3"
definition DMA_LANE_D2D_REDUCE :: nat where "DMA_LANE_D2D_REDUCE = 4"
definition DMA_LANE_COUNT :: nat where "DMA_LANE_COUNT = 5"

lemmas lane_defs = DMA_LANE_D2H_def DMA_LANE_H2D_def DMA_LANE_D2D_PEER_def DMA_LANE_D2D_LOCAL_def
  DMA_LANE_D2D_REDUCE_def DMA_LANE_COUNT_def

record dma_slot =
  ds_node :: nat
  ds_subchunk :: nat
  ds_size :: size_t
  ds_lane :: nat
  ds_reader_pending :: bool

record h2h_inflight =
  hi_node :: nat
  hi_subchunk :: nat
  hi_counter :: nat
  hi_expected :: nat

record node_state =
  ns_next :: nat
  ns_completed :: nat
  ns_h2h_pending :: nat

definition fresh_node :: node_state where
  "fresh_node = \<lparr>ns_next = 0, ns_completed = 0, ns_h2h_pending = 0\<rparr>"

record work_item =
  wi_graph :: compiled_graph
  wi_binding :: runtime_binding
  wi_user_stream :: nat
  wi_epoch :: int
  wi_work_seq :: nat
  wi_slot :: int

text \<open>A command handed to the device: destination and source with their device ranks.\<close>

record dma_cmd =
  dc_op :: op_code
  dc_dst :: size_t
  dc_src :: size_t
  dc_bytes :: size_t
  dc_lane :: nat
  dc_peer :: "(int \<times> int) option"

record executor =
  x_rank :: int
  x_world :: int
  x_comm :: int
  x_queue_depth :: int
  x_cold_start_drain :: int
  x_seen :: "int \<Rightarrow> bool"                \<comment> \<open>\<^verbatim>\<open>remote_user_ready_seen_\<close>\<close>
  x_rings :: "nat \<Rightarrow> dma_slot event_ring"
  x_stop :: bool
  x_queue :: "work_item list"
  x_busy :: bool
  x_last_result :: pccl_result
  x_graph :: "compiled_graph option"
  x_binding :: runtime_binding
  x_user_stream :: nat
  x_epoch :: int
  x_work_seq_counter :: nat
  x_work_seq :: nat
  x_slot :: int
  x_lead_window :: bool
  x_inputs_published :: bool
  x_nodes :: "node_state list"
  x_h2h :: "h2h_inflight list"

text \<open>What an executor shares with other ranks and components.\<close>

record host_world =
  w_shared :: shared_state
  w_engine :: "h2h_engine option"
  w_flag :: "completion_flag option"
  w_next_counter :: nat               \<comment> \<open>identities of completion counters\<close>
  w_dma :: "dma_cmd list"             \<comment> \<open>device commands issued so far\<close>

record exec_env =
  xe_pccl :: pccl_env
  xe_skip_dma :: "string option"

section \<open>Subchunks and addresses\<close>

definition subchunkSize :: "exec_env \<Rightarrow> compiled_graph \<Rightarrow> instruction_node \<Rightarrow> nat \<Rightarrow> size_t" where
  "subchunkSize env graph node sc =
     (let sl = env_slice (xe_pccl env) (g_chunk_size graph); offset = mul64 sc sl in
      if n_work_bytes node \<le> offset then 0 else min sl (n_work_bytes node - offset))"

definition resolve :: "exec_env \<Rightarrow> executor \<Rightarrow> compiled_graph \<Rightarrow> progress_key \<Rightarrow> nat \<Rightarrow> bool \<Rightarrow> size_t" where
  "resolve env x graph key sc ring_buffered =
     (let sl = env_slice (xe_pccl env) (g_chunk_size graph); b = x_binding x;
          layout = rb_layout b (pk_space key) in
      if pk_space key = PS_HOST then
        (if rb_host_base b (pk_owner key) = 0 then 0
         else
          (let chunk_offset = mul64 (int_to_size (pk_chunk key)) (g_chunk_size graph);
               slots = pcclRingSlotsFor (pcclHostRingSlots (host_ring_slots_env (xe_pccl env)));
               sub_offset = (if ring_buffered then mul64 (sc mod slots) sl else mul64 sc sl)
           in add64 (add64 (rb_host_base b (pk_owner key)) chunk_offset) sub_offset))
      else if rb_device_base b (pk_space key) (pk_owner key) = 0 then 0
      else
       (let cps = max 1 (chunks_per_segment layout);
            seg = pk_chunk key sdiv cps; chunk_in_seg = pk_chunk key smod cps;
            seg_offset = add64 (mul64 (int_to_size seg) (segment_size layout)) (stride_offset layout);
            chunk_offset = add64 seg_offset
              (if 0 \<le> pk_chunk key \<and> nat (pk_chunk key) < length (chunk_offsets layout)
               then chunk_offsets layout ! nat (pk_chunk key)
               else mul64 (int_to_size chunk_in_seg) (l_chunk_size layout))
        in add64 (add64 (rb_device_base b (pk_space key) (pk_owner key)) chunk_offset) (mul64 sc sl)))"

section \<open>Readiness and publication\<close>

definition inputsReady :: "int \<Rightarrow> int \<Rightarrow> shared_state \<Rightarrow> instruction_node \<Rightarrow> nat \<Rightarrow> bool" where
  "inputsReady comm epoch sh node sc \<longleftrightarrow>
     list_all (\<lambda>i. \<not> getWriteProgress sh comm (ni_key i) epoch < sc + 1) (n_inputs node)"

text \<open>The slot test of a ring-buffered output; \<open>slots\<close> is \<^verbatim>\<open>pcclRingSlotsFor\<close>.\<close>

definition ringReady :: "nat \<Rightarrow> int \<Rightarrow> int \<Rightarrow> shared_state \<Rightarrow> instruction_node \<Rightarrow> nat \<Rightarrow> bool" where
  "ringReady slots comm epoch sh node sc \<longleftrightarrow>
     \<not> (n_output_ring node \<and> slots \<le> sc \<and> 0 < getNumReaders sh comm (n_output node) \<and>
        getConsumeProgress sh comm (n_output node) epoch < sc - slots + 1)"

definition guardReady :: "int \<Rightarrow> int \<Rightarrow> shared_state \<Rightarrow> instruction_node \<Rightarrow> nat \<Rightarrow> bool" where
  "guardReady comm epoch sh node sc =
     (case n_overwrite_guard node of
        None \<Rightarrow> True
      | Some guard \<Rightarrow>
          if 0 < pk_version guard \<and> getWriteProgress sh comm guard epoch < sc + 1 then False
          else if getNumReaders sh comm guard = 0 then True
          else sc + 1 \<le> getConsumeProgress sh comm guard epoch)"

definition overwriteReady :: "nat \<Rightarrow> int \<Rightarrow> int \<Rightarrow> shared_state \<Rightarrow> instruction_node \<Rightarrow> nat \<Rightarrow> bool" where
  "overwriteReady slots comm epoch sh node sc \<longleftrightarrow>
     ringReady slots comm epoch sh node sc \<and> guardReady comm epoch sh node sc"

definition publishInputReaders :: "int \<Rightarrow> int \<Rightarrow> instruction_node \<Rightarrow> nat \<Rightarrow> shared_state \<Rightarrow> shared_state" where
  "publishInputReaders comm epoch node sc sh =
     foldl (\<lambda>sh i. if 0 \<le> ni_reader_id i
              then advanceReaderDone comm (ni_key i) (ni_reader_id i) (sc + 1) epoch sh else sh)
       sh (n_inputs node)"

definition publishNodeProgress :: "int \<Rightarrow> int \<Rightarrow> instruction_node \<Rightarrow> nat \<Rightarrow> shared_state \<Rightarrow> shared_state" where
  "publishNodeProgress comm epoch node sc sh = advanceWriteProgress comm (n_output node) (sc + 1) epoch sh"

text \<open>Both, in the order of every call site.\<close>

definition publish_done :: "int \<Rightarrow> int \<Rightarrow> instruction_node \<Rightarrow> nat \<Rightarrow> shared_state \<Rightarrow> shared_state" where
  "publish_done comm epoch node sc sh =
     publishInputReaders comm epoch node sc (publishNodeProgress comm epoch node sc sh)"

section \<open>Small updates\<close>

definition upd_shared :: "(shared_state \<Rightarrow> shared_state) \<Rightarrow> host_world \<Rightarrow> host_world" where
  "upd_shared f w = w\<lparr>w_shared := f (w_shared w)\<rparr>"

definition upd_node :: "nat \<Rightarrow> (node_state \<Rightarrow> node_state) \<Rightarrow> executor \<Rightarrow> executor" where
  "upd_node i f x = x\<lparr>x_nodes := (x_nodes x)[i := f (x_nodes x ! i)]\<rparr>"

definition node_completed :: "node_state \<Rightarrow> node_state" where
  "node_completed s = s\<lparr>ns_completed := ns_completed s + 1\<rparr>"

definition node_submitted :: "node_state \<Rightarrow> node_state" where
  "node_submitted s = s\<lparr>ns_next := ns_next s + 1\<rparr>"

definition node_h2h :: "node_state \<Rightarrow> node_state" where
  "node_h2h s = s\<lparr>ns_h2h_pending := ns_h2h_pending s + 1\<rparr>"

definition node_h2h_done :: "node_state \<Rightarrow> node_state" where
  "node_h2h_done s = s\<lparr>ns_h2h_pending := ns_h2h_pending s - 1\<rparr>"

section \<open>Ending a work item\<close>

definition signal :: "(stream_op \<Rightarrow> bool) \<Rightarrow> int \<Rightarrow> nat \<Rightarrow> host_world \<Rightarrow> host_world" where
  "signal ok slot seq w =
     w\<lparr>w_flag := map_option (\<lambda>cf. snd (signalComplete ok slot seq cf)) (w_flag w)\<rparr>"

definition finishCurrentWork ::
  "(stream_op \<Rightarrow> bool) \<Rightarrow> pccl_result \<Rightarrow> executor \<times> host_world \<Rightarrow> executor \<times> host_world" where
  "finishCurrentWork ok result st =
     (case st of (x, w) \<Rightarrow>
       (let x1 = x\<lparr>x_last_result := result, x_graph := None, x_h2h := [], x_nodes := [],
                   x_rings := (\<lambda>i. if i < DMA_LANE_COUNT then ring_reset (x_rings x i) else x_rings x i)\<rparr>;
            w1 = (if result = pcclSuccess then w
                  else foldl (\<lambda>w item. signal ok (wi_slot item) (wi_work_seq item) w)
                         (if x_work_seq x \<noteq> 0 then signal ok (x_slot x) (x_work_seq x) w else w) (x_queue x));
            x2 = (if result = pcclSuccess then x1 else x1\<lparr>x_queue := []\<rparr>)
        in (x2\<lparr>x_busy := False\<rparr>, w1)))"

section \<open>Completions\<close>

text \<open>One entry of \<^verbatim>\<open>h2h_inflight_\<close>: published and removed when its counter has arrived.\<close>

definition poll_h2h_one ::
  "compiled_graph \<Rightarrow> executor \<times> host_world \<Rightarrow> h2h_inflight \<Rightarrow> executor \<times> host_world" where
  "poll_h2h_one graph st it =
     (case st of (x, w) \<Rightarrow>
       (case w_engine w of None \<Rightarrow> (x, w)
        | Some eng \<Rightarrow>
           if hi_expected it \<le> he_done eng (hi_counter it) then
             (upd_node (hi_node it) (\<lambda>s. node_h2h_done (node_completed s)) x,
              upd_shared (publish_done (x_comm x) (x_epoch x) (g_nodes graph ! hi_node it) (hi_subchunk it)) w)
           else (x\<lparr>x_h2h := x_h2h x @ [it]\<rparr>, w)))"

definition pollH2HCompletions :: "executor \<times> host_world \<Rightarrow> executor \<times> host_world" where
  "pollH2HCompletions st =
     (case st of (x, w) \<Rightarrow>
       if w_engine w = None then (x, w)
       else case x_graph x of None \<Rightarrow> (x, w)
            | Some graph \<Rightarrow> foldl (poll_h2h_one graph) (x\<lparr>x_h2h := []\<rparr>, w) (x_h2h x))"

text \<open>
  What \<^verbatim>\<open>devQueryEvent\<close> answers for the oldest event; a pending event also tells whether the
  clock has passed the time-out.
\<close>

datatype poll_reply = QueryFailed | EventComplete | EventPending bool

text \<open>The completed branch: release the slot, publish the oldest transfer, count it.\<close>

definition complete_oldest :: "compiled_graph \<Rightarrow> nat \<Rightarrow> executor \<times> host_world \<Rightarrow> executor \<times> host_world" where
  "complete_oldest graph lane st =
     (case st of (x, w) \<Rightarrow>
       (let ring = x_rings x lane; info = er_info ring (tailIndex ring);
            x1 = x\<lparr>x_rings := (x_rings x)(lane := releaseOldest ring)\<rparr>;
            node = g_nodes graph ! ds_node info;
            w1 = upd_shared (publishNodeProgress (x_comm x) (x_epoch x) node (ds_subchunk info)) w;
            w2 = (if ds_reader_pending info
                  then upd_shared (publishInputReaders (x_comm x) (x_epoch x) node (ds_subchunk info)) w1 else w1)
        in (upd_node (ds_node info) node_completed x1, w2)))"

text \<open>
  \<^verbatim>\<open>pollCudaLane\<close>, driven by the replies of the device: \<open>None\<close> when they run out before the
  call returns.
\<close>

fun pollCudaLane ::
  "(stream_op \<Rightarrow> bool) \<Rightarrow> nat \<Rightarrow> bool \<Rightarrow> poll_reply list \<Rightarrow> executor \<times> host_world \<Rightarrow> (executor \<times> host_world) option" where
  "pollCudaLane ok lane block replies (x, w) =
     (if inflight (x_rings x lane) = 0 then Some (x, w)
      else case replies of
        [] \<Rightarrow> None
      | QueryFailed # rest \<Rightarrow>
          Some (finishCurrentWork ok pcclDeviceError
            (x\<lparr>x_rings := (x_rings x)(lane := releaseOldest (x_rings x lane))\<rparr>, w))
      | EventComplete # rest \<Rightarrow>
          (case x_graph x of None \<Rightarrow> None
           | Some graph \<Rightarrow> pollCudaLane ok lane block rest (complete_oldest graph lane (x, w)))
      | EventPending timed_out # rest \<Rightarrow>
          if \<not> block \<and> \<not> isFull (x_rings x lane) then Some (x, w)
          else if timed_out then Some (x\<lparr>x_last_result := pcclTimeout\<rparr>, w)
          else pollCudaLane ok lane block rest (x, w))"

declare pollCudaLane.simps [simp del]

definition pollCudaEvents ::
  "(stream_op \<Rightarrow> bool) \<Rightarrow> bool \<Rightarrow> (nat \<Rightarrow> poll_reply list) \<Rightarrow> executor \<times> host_world \<Rightarrow> (executor \<times> host_world) option" where
  "pollCudaEvents ok block replies st =
     foldl (\<lambda>r lane. Option.bind r (pollCudaLane ok lane block (replies lane))) (Some st) [0..<DMA_LANE_COUNT]"

section \<open>Node classification\<close>

definition selectDmaLane :: "instruction_node \<Rightarrow> nat" where
  "selectDmaLane node =
     (case n_op node of
        D2H \<Rightarrow> DMA_LANE_D2H
      | H2D \<Rightarrow> DMA_LANE_H2D
      | D2D \<Rightarrow> if n_placement node = Local then DMA_LANE_D2D_LOCAL else DMA_LANE_D2D_PEER
      | D2DReduce \<Rightarrow> DMA_LANE_D2D_REDUCE
      | _ \<Rightarrow> DMA_LANE_H2D)"

definition graphUsesMultipleHostNumas :: "compiled_graph \<Rightarrow> bool" where
  "graphUsesMultipleHostNumas graph \<longleftrightarrow>
     1 < snd (foldl (\<lambda>(seen, count) key.
           if pk_space key \<noteq> PS_HOST \<or> pk_owner key < 0 \<or> MAX_NUMA_NODES \<le> pk_owner key then (seen, count)
           else if \<not> seen (pk_owner key) then (seen(pk_owner key := True), count + 1)
           else (seen, count)) ((\<lambda>_. False), 0::nat) (g_active_keys graph))"

definition remoteUserReady :: "shared_state \<Rightarrow> int \<Rightarrow> int \<Rightarrow> int \<Rightarrow> int \<Rightarrow> nat \<Rightarrow> bool" where
  "remoteUserReady sh comm rank source_rank slot work_seq =
     (if source_rank < 0 \<or> MAX_RANKS \<le> source_rank \<or> source_rank = rank \<or> slot < 0 \<or>
         PCCL_EXECUTOR_QUEUE_DEPTH_MAX \<le> slot
      then False else getUserReadySeq sh comm source_rank slot = work_seq)"

definition terminalsComplete :: "compiled_graph \<Rightarrow> executor \<Rightarrow> shared_state \<Rightarrow> bool" where
  "terminalsComplete graph x sh \<longleftrightarrow>
     list_all (\<lambda>i. \<not> ns_completed (x_nodes x ! i) < g_num_subchunks graph) [0..<length (g_nodes graph)] \<and>
     list_all (\<lambda>key. \<not> getWriteProgress sh (x_comm x) key (x_epoch x) < g_num_subchunks graph)
       (g_terminal_outputs graph)"

end
