(* ===== verification/Pipeline.thy ===== *)
theory Pipeline
  imports ExecState
begin

text \<open>
  The nodes of all ranks running together, one subchunk at a time. A node issues its next
  subchunk when the executor's readiness tests allow it, and completes its subchunks in
  order; completion publishes progress with the executor's own functions. The theory shows
  that a family of nodes with the properties the compiler establishes never has two
  conflicting accesses in flight, and that it never deadlocks.
\<close>

section \<open>The system\<close>

record pipe_state =
  ps_shared :: shared_state
  ps_next :: "nat \<Rightarrow> nat"
  ps_done :: "nat \<Rightarrow> nat"

text \<open>
  The parameters of one collective: communicator, epoch, number of subchunks, ring slots,
  and the input keys the ranks publish.
\<close>

record pipe_conf =
  pc_comm :: int
  pc_epoch :: int
  pc_num :: nat
  pc_slots :: nat
  pc_inputs :: "progress_key list"
  pc_nodes :: "instruction_node list"
  pc_readers :: "progress_key \<Rightarrow> int"

inductive pipe_step :: "pipe_conf \<Rightarrow> pipe_state \<Rightarrow> pipe_state \<Rightarrow> bool" for c :: pipe_conf where
  pipe_input: "k \<in> set (pc_inputs c) \<Longrightarrow>
    pipe_step c s (s\<lparr>ps_shared := setWriteProgress (pc_comm c) k (pc_num c) (pc_epoch c) (ps_shared s)\<rparr>)"
| pipe_issue: "i < length (pc_nodes c) \<Longrightarrow> ps_next s i < pc_num c \<Longrightarrow>
    inputsReady (pc_comm c) (pc_epoch c) (ps_shared s) (pc_nodes c ! i) (ps_next s i) \<Longrightarrow>
    overwriteReady (pc_slots c) (pc_comm c) (pc_epoch c) (ps_shared s) (pc_nodes c ! i) (ps_next s i) \<Longrightarrow>
    pipe_step c s (s\<lparr>ps_next := (ps_next s)(i := ps_next s i + 1)\<rparr>)"
| pipe_complete: "i < length (pc_nodes c) \<Longrightarrow> ps_done s i < ps_next s i \<Longrightarrow>
    pipe_step c s (s\<lparr>ps_done := (ps_done s)(i := ps_done s i + 1),
      ps_shared := publish_done (pc_comm c) (pc_epoch c) (pc_nodes c ! i) (ps_done s i) (ps_shared s)\<rparr>)"

inductive_cases pipe_stepE: "pipe_step c s t"

text \<open>
  Before the collective: the epoch's counters are zero and the reader counts are set.
\<close>

definition pipe_init :: "pipe_conf \<Rightarrow> pipe_state \<Rightarrow> bool" where
  "pipe_init c s \<longleftrightarrow> ps_next s = (\<lambda>_. 0) \<and> ps_done s = (\<lambda>_. 0) \<and>
     (\<forall>loc v. cs_write (ss_chunks (ps_shared s) loc) v (epoch_bit (pc_epoch c)) = 0 \<and>
        cs_consume (ss_chunks (ps_shared s) loc) v (epoch_bit (pc_epoch c)) = 0 \<and>
        (\<forall>r. cs_reader_done (ss_chunks (ps_shared s) loc) r v (epoch_bit (pc_epoch c)) = 0)) \<and>
     (\<forall>k. version_fits k \<longrightarrow> getNumReaders (ps_shared s) (pc_comm c) k = pc_readers c k)"

section \<open>Well-formed families of nodes\<close>

definition reads :: "pipe_conf \<Rightarrow> nat \<Rightarrow> node_input \<Rightarrow> bool" where
  "reads c i inp \<longleftrightarrow> i < length (pc_nodes c) \<and> inp \<in> set (n_inputs (pc_nodes c ! i))"

definition output_of :: "pipe_conf \<Rightarrow> nat \<Rightarrow> progress_key" where
  "output_of c i = n_output (pc_nodes c ! i)"

text \<open>The version a node overwrites.\<close>

definition prev_version :: "progress_key \<Rightarrow> progress_key" where
  "prev_version k = with_version k (pk_version k - 1)"

definition pipe_ok :: "pipe_conf \<Rightarrow> bool" where
  "pipe_ok c \<longleftrightarrow> 0 < pc_slots c \<and> distinct (map n_output (pc_nodes c)) \<and>
     (\<forall>i < length (pc_nodes c). version_fits (output_of c i) \<and> 0 < pk_version (output_of c i) \<and>
        n_overwrite_guard (pc_nodes c ! i) = Some (prev_version (output_of c i)) \<and>
        (1 < pk_version (output_of c i) \<longrightarrow>
           (\<exists>m < length (pc_nodes c). output_of c m = prev_version (output_of c i)))) \<and>
     (\<forall>i inp. reads c i inp \<longrightarrow> version_fits (ni_key inp) \<and>
        (0 < pk_version (ni_key inp) \<longrightarrow> (\<exists>m < length (pc_nodes c). output_of c m = ni_key inp)) \<and>
        (if 0 \<le> ni_reader_id inp
         then ni_reader_id inp < pc_readers c (ni_key inp) \<and> ni_reader_id inp < MAX_PROGRESS_READERS
         else ni_key inp = prev_version (output_of c i))) \<and>
     (\<forall>i j inp inp'. reads c i inp \<longrightarrow> reads c j inp' \<longrightarrow> ni_key inp = ni_key inp' \<longrightarrow>
        0 \<le> ni_reader_id inp \<longrightarrow> ni_reader_id inp = ni_reader_id inp' \<longrightarrow> i = j) \<and>
     (\<forall>k \<in> set (pc_inputs c). version_fits k \<and> pk_version k = 0)"

lemma pipe_okD:
  assumes "pipe_ok c"
  shows pipe_slots: "0 < pc_slots c"
    and pipe_output: "i < length (pc_nodes c) \<Longrightarrow> version_fits (output_of c i)"
    and pipe_output_pos: "i < length (pc_nodes c) \<Longrightarrow> 0 < pk_version (output_of c i)"
    and pipe_guard: "i < length (pc_nodes c) \<Longrightarrow> n_overwrite_guard (pc_nodes c ! i) = Some (prev_version (output_of c i))"
    and pipe_prev: "i < length (pc_nodes c) \<Longrightarrow> 1 < pk_version (output_of c i) \<Longrightarrow>
       \<exists>m < length (pc_nodes c). output_of c m = prev_version (output_of c i)"
    and pipe_reads: "reads c i inp \<Longrightarrow> version_fits (ni_key inp)"
    and pipe_reads_producer: "reads c i inp \<Longrightarrow> 0 < pk_version (ni_key inp) \<Longrightarrow>
       \<exists>m < length (pc_nodes c). output_of c m = ni_key inp"
    and pipe_reader: "reads c i inp \<Longrightarrow> 0 \<le> ni_reader_id inp \<Longrightarrow>
       ni_reader_id inp < pc_readers c (ni_key inp) \<and> ni_reader_id inp < MAX_PROGRESS_READERS"
    and pipe_self: "reads c i inp \<Longrightarrow> ni_reader_id inp < 0 \<Longrightarrow> ni_key inp = prev_version (output_of c i)"
    and pipe_reader_unique: "reads c i inp \<Longrightarrow> reads c j inp' \<Longrightarrow> ni_key inp = ni_key inp' \<Longrightarrow>
       0 \<le> ni_reader_id inp \<Longrightarrow> ni_reader_id inp = ni_reader_id inp' \<Longrightarrow> i = j"
    and pipe_inputs: "k \<in> set (pc_inputs c) \<Longrightarrow> version_fits k \<and> pk_version k = 0"
proof -
  note ok = assms[unfolded pipe_ok_def]
  show "0 < pc_slots c" using ok by simp
  show "i < length (pc_nodes c) \<Longrightarrow> version_fits (output_of c i)" using ok by simp
  show "i < length (pc_nodes c) \<Longrightarrow> 0 < pk_version (output_of c i)" using ok by simp
  show "i < length (pc_nodes c) \<Longrightarrow> n_overwrite_guard (pc_nodes c ! i) = Some (prev_version (output_of c i))"
    using ok by simp
  show "i < length (pc_nodes c) \<Longrightarrow> 1 < pk_version (output_of c i) \<Longrightarrow>
       \<exists>m < length (pc_nodes c). output_of c m = prev_version (output_of c i)" using ok by simp
  show "reads c i inp \<Longrightarrow> version_fits (ni_key inp)" using ok by blast
  show "reads c i inp \<Longrightarrow> 0 < pk_version (ni_key inp) \<Longrightarrow>
       \<exists>m < length (pc_nodes c). output_of c m = ni_key inp" using ok by blast
  show "reads c i inp \<Longrightarrow> 0 \<le> ni_reader_id inp \<Longrightarrow>
       ni_reader_id inp < pc_readers c (ni_key inp) \<and> ni_reader_id inp < MAX_PROGRESS_READERS"
    using ok by presburger
  show "reads c i inp \<Longrightarrow> ni_reader_id inp < 0 \<Longrightarrow> ni_key inp = prev_version (output_of c i)"
    using ok by (meson not_le)
  show "reads c i inp \<Longrightarrow> reads c j inp' \<Longrightarrow> ni_key inp = ni_key inp' \<Longrightarrow>
       0 \<le> ni_reader_id inp \<Longrightarrow> ni_reader_id inp = ni_reader_id inp' \<Longrightarrow> i = j" using ok by blast
  show "k \<in> set (pc_inputs c) \<Longrightarrow> version_fits k \<and> pk_version k = 0" using ok by blast
qed

lemma pipe_output_inj:
  "pipe_ok c \<Longrightarrow> i < length (pc_nodes c) \<Longrightarrow> j < length (pc_nodes c) \<Longrightarrow> output_of c i = output_of c j \<Longrightarrow> i = j"
  by (auto simp: pipe_ok_def output_of_def distinct_conv_nth)

section \<open>What publication does to the counters\<close>

text \<open>In each cell the consume counter is below the cursors of all its readers.\<close>

definition consume_ok :: "nat \<Rightarrow> shared_state \<Rightarrow> bool" where
  "consume_ok e sh \<longleftrightarrow> (\<forall>loc v j. j < nat (cs_num_readers (ss_chunks sh loc) v) \<longrightarrow>
     cell_consume sh (loc, v, e) \<le> cell_reader sh j (loc, v, e))"

lemma consume_ok_advance:
  assumes ok: "consume_ok e sh" and r: "0 \<le> r" "r < MAX_PROGRESS_READERS"
  shows "consume_ok e (advanceReaderDone comm key r x epoch sh)" (is "consume_ok e ?sh")
  unfolding consume_ok_def
proof (intro allI impI)
  fix loc v j
  assume j: "j < nat (cs_num_readers (ss_chunks ?sh loc) v)"
  note E = advanceReaderDone_effect[OF r, of comm key x epoch sh]
  have j': "j < nat (cs_num_readers (ss_chunks sh loc) v)" using j by (simp add: E(4))
  have old: "cell_consume sh (loc, v, e) \<le> cell_reader sh j (loc, v, e)" using ok j' by (simp add: consume_ok_def)
  have mono: "cell_reader sh j (loc, v, e) \<le> cell_reader ?sh j (loc, v, e)" by (simp add: E(1))
  show "cell_consume ?sh (loc, v, e) \<le> cell_reader ?sh j (loc, v, e)"
  proof (cases "(loc, v, e) = cell_of comm key epoch")
    case True
    then have "getNumReaders sh comm key = cs_num_readers (ss_chunks sh loc) v"
      by (simp add: getNumReaders_def chunkState_def cell_of_def)
    then have "min_reader_done (\<lambda>i. cell_reader ?sh i (loc, v, e)) (nat (getNumReaders sh comm key)) x
        \<le> cell_reader ?sh j (loc, v, e)"
      using min_reader_done_le(2)[of j] j' by simp
    then show ?thesis using old mono unfolding E(2) if_P[OF True] by simp
  next
    case False
    then show ?thesis using old mono unfolding E(2) if_not_P[OF False] by simp
  qed
qed

text \<open>The readers a node has registered for a cell.\<close>

definition node_reads_cell :: "int \<Rightarrow> int \<Rightarrow> instruction_node \<Rightarrow> nat \<Rightarrow> chunk_loc \<times> nat \<times> nat \<Rightarrow> bool" where
  "node_reads_cell comm epoch node r cell \<longleftrightarrow>
     (\<exists>inp \<in> set (n_inputs node). 0 \<le> ni_reader_id inp \<and> nat (ni_reader_id inp) = r \<and>
        cell_of comm (ni_key inp) epoch = cell)"

definition ids_ok :: "instruction_node \<Rightarrow> bool" where
  "ids_ok node \<longleftrightarrow> (\<forall>inp \<in> set (n_inputs node). ni_reader_id inp < MAX_PROGRESS_READERS)"

definition publish_reader :: "int \<Rightarrow> int \<Rightarrow> nat \<Rightarrow> shared_state \<Rightarrow> node_input \<Rightarrow> shared_state" where
  "publish_reader comm epoch sc sh i = (if 0 \<le> ni_reader_id i
     then advanceReaderDone comm (ni_key i) (ni_reader_id i) (sc + 1) epoch sh else sh)"

lemma publish_reader_effect:
  assumes "ni_reader_id i < MAX_PROGRESS_READERS"
  shows "cell_write (publish_reader comm epoch sc sh i) c = cell_write sh c"
    and "cs_num_readers (ss_chunks (publish_reader comm epoch sc sh i) loc) = cs_num_readers (ss_chunks sh loc)"
    and "cell_reader (publish_reader comm epoch sc sh i) r c =
      (if 0 \<le> ni_reader_id i \<and> nat (ni_reader_id i) = r \<and> cell_of comm (ni_key i) epoch = c
       then max (cell_reader sh r c) (sc + 1) else cell_reader sh r c)"
    and "consume_ok e sh \<Longrightarrow> consume_ok e (publish_reader comm epoch sc sh i)"
  using advanceReaderDone_effect[OF _ assms] consume_ok_advance[OF _ _ assms]
  by (auto simp: publish_reader_def)

lemma publish_fold:
  "publishInputReaders comm epoch node sc sh = foldl (publish_reader comm epoch sc) sh (n_inputs node)"
  unfolding publishInputReaders_def by (rule arg_cong[where f = "\<lambda>f. foldl f sh (n_inputs node)"])
    (simp add: fun_eq_iff publish_reader_def)

lemma publishInputReaders_effect:
  assumes "ids_ok node"
  shows "cell_write (publishInputReaders comm epoch node sc sh) c = cell_write sh c"
    and "cs_num_readers (ss_chunks (publishInputReaders comm epoch node sc sh) loc) = cs_num_readers (ss_chunks sh loc)"
    and "cell_reader (publishInputReaders comm epoch node sc sh) r c =
      (if node_reads_cell comm epoch node r c then max (cell_reader sh r c) (sc + 1) else cell_reader sh r c)"
    and "consume_ok e sh \<Longrightarrow> consume_ok e (publishInputReaders comm epoch node sc sh)"
proof -
  have ids: "\<forall>inp \<in> set (n_inputs node). ni_reader_id inp < MAX_PROGRESS_READERS"
    using assms by (simp add: ids_ok_def)
  have w: "cell_write (foldl (publish_reader comm epoch sc) sh is) c = cell_write sh c"
    and n: "cs_num_readers (ss_chunks (foldl (publish_reader comm epoch sc) sh is) loc) = cs_num_readers (ss_chunks sh loc)"
    and k: "consume_ok e sh \<Longrightarrow> consume_ok e (foldl (publish_reader comm epoch sc) sh is)"
    and r: "cell_reader (foldl (publish_reader comm epoch sc) sh is) r c =
      (if \<exists>inp \<in> set is. 0 \<le> ni_reader_id inp \<and> nat (ni_reader_id inp) = r \<and> cell_of comm (ni_key inp) epoch = c
       then max (cell_reader sh r c) (sc + 1) else cell_reader sh r c)"
    if "\<forall>inp \<in> set is. ni_reader_id inp < MAX_PROGRESS_READERS" for "is" sh
    using that by (induction "is" arbitrary: sh) (auto simp: publish_reader_effect)
  show "cell_write (publishInputReaders comm epoch node sc sh) c = cell_write sh c"
    "cs_num_readers (ss_chunks (publishInputReaders comm epoch node sc sh) loc) = cs_num_readers (ss_chunks sh loc)"
    "cell_reader (publishInputReaders comm epoch node sc sh) r c =
      (if node_reads_cell comm epoch node r c then max (cell_reader sh r c) (sc + 1) else cell_reader sh r c)"
    "consume_ok e sh \<Longrightarrow> consume_ok e (publishInputReaders comm epoch node sc sh)"
    unfolding publish_fold using w[OF ids] n[OF ids] r[OF ids] k[OF ids] by (auto simp: node_reads_cell_def)
qed

lemma setWrite_frame [simp]:
  "cell_consume (setWriteProgress comm key x epoch sh) c = cell_consume sh c"
  "cell_reader (setWriteProgress comm key x epoch sh) r c = cell_reader sh r c"
  "cs_num_readers (ss_chunks (setWriteProgress comm key x epoch sh) loc) = cs_num_readers (ss_chunks sh loc)"
  by (cases c; auto simp: setWriteProgress_def cell_consume_def cell_reader_def upd_chunk_apply)+

lemma consume_ok_setWrite [simp]: "consume_ok e (setWriteProgress comm key x epoch sh) = consume_ok e sh"
  by (simp add: consume_ok_def)

lemma advance_frame:
  "cell_reader (advanceWriteProgress comm key x epoch sh) r c = cell_reader sh r c"
  "cs_num_readers (ss_chunks (advanceWriteProgress comm key x epoch sh) loc) = cs_num_readers (ss_chunks sh loc)"
  "consume_ok e (advanceWriteProgress comm key x epoch sh) = consume_ok e sh"
  by (simp_all add: advanceWriteProgress_def)

lemma publish_done_effect:
  assumes "ids_ok node"
  shows "cell_write (publish_done comm epoch node sc sh) c =
      (if c = cell_of comm (n_output node) epoch then max (cell_write sh c) (sc + 1) else cell_write sh c)"
    and "cs_num_readers (ss_chunks (publish_done comm epoch node sc sh) loc) = cs_num_readers (ss_chunks sh loc)"
    and "cell_reader (publish_done comm epoch node sc sh) r c =
      (if node_reads_cell comm epoch node r c then max (cell_reader sh r c) (sc + 1) else cell_reader sh r c)"
    and "consume_ok e sh \<Longrightarrow> consume_ok e (publish_done comm epoch node sc sh)"
  unfolding publish_done_def publishNodeProgress_def
  using publishInputReaders_effect[OF assms] by (simp_all add: cell_write_advance advance_frame)


section \<open>The invariant\<close>

definition pipe_inv :: "pipe_conf \<Rightarrow> pipe_state \<Rightarrow> bool" where
  "pipe_inv c s \<longleftrightarrow>
     (\<forall>k. version_fits k \<longrightarrow> getNumReaders (ps_shared s) (pc_comm c) k = pc_readers c k) \<and>
     consume_ok (epoch_bit (pc_epoch c)) (ps_shared s) \<and>
     (\<forall>i < length (pc_nodes c). cell_write (ps_shared s) (cell_of (pc_comm c) (output_of c i) (pc_epoch c)) = ps_done s i) \<and>
     (\<forall>i inp. reads c i inp \<longrightarrow> 0 \<le> ni_reader_id inp \<longrightarrow>
        cell_reader (ps_shared s) (nat (ni_reader_id inp)) (cell_of (pc_comm c) (ni_key inp) (pc_epoch c)) = ps_done s i) \<and>
     (\<forall>i < length (pc_nodes c). ps_done s i \<le> ps_next s i \<and> ps_next s i \<le> pc_num c) \<and>
     (\<forall>i inp m. reads c i inp \<longrightarrow> m < length (pc_nodes c) \<longrightarrow> output_of c m = ni_key inp \<longrightarrow>
        ps_next s i \<le> ps_done s m) \<and>
     (\<forall>i m. i < length (pc_nodes c) \<longrightarrow> m < length (pc_nodes c) \<longrightarrow>
        output_of c m = prev_version (output_of c i) \<longrightarrow> ps_next s i \<le> ps_done s m) \<and>
     (\<forall>i j inp. i < length (pc_nodes c) \<longrightarrow> reads c j inp \<longrightarrow> ni_key inp = prev_version (output_of c i) \<longrightarrow>
        0 \<le> ni_reader_id inp \<longrightarrow> ps_next s i \<le> ps_done s j) \<and>
     (\<forall>i j inp. i < length (pc_nodes c) \<longrightarrow> n_output_ring (pc_nodes c ! i) \<longrightarrow> reads c j inp \<longrightarrow>
        ni_key inp = output_of c i \<longrightarrow> 0 \<le> ni_reader_id inp \<longrightarrow> ps_next s i \<le> ps_done s j + pc_slots c)"

lemma pipe_invD:
  assumes "pipe_inv c s"
  shows inv_count: "version_fits k \<Longrightarrow> getNumReaders (ps_shared s) (pc_comm c) k = pc_readers c k"
    and inv_consume: "consume_ok (epoch_bit (pc_epoch c)) (ps_shared s)"
    and inv_write: "i < length (pc_nodes c) \<Longrightarrow>
       cell_write (ps_shared s) (cell_of (pc_comm c) (output_of c i) (pc_epoch c)) = ps_done s i"
    and inv_reader: "reads c i inp \<Longrightarrow> 0 \<le> ni_reader_id inp \<Longrightarrow>
       cell_reader (ps_shared s) (nat (ni_reader_id inp)) (cell_of (pc_comm c) (ni_key inp) (pc_epoch c)) = ps_done s i"
    and inv_bounds: "i < length (pc_nodes c) \<Longrightarrow> ps_done s i \<le> ps_next s i \<and> ps_next s i \<le> pc_num c"
    and inv_input: "reads c i inp \<Longrightarrow> m < length (pc_nodes c) \<Longrightarrow> output_of c m = ni_key inp \<Longrightarrow>
       ps_next s i \<le> ps_done s m"
    and inv_guard_write: "i < length (pc_nodes c) \<Longrightarrow> m < length (pc_nodes c) \<Longrightarrow>
       output_of c m = prev_version (output_of c i) \<Longrightarrow> ps_next s i \<le> ps_done s m"
    and inv_guard_read: "i < length (pc_nodes c) \<Longrightarrow> reads c j inp \<Longrightarrow> ni_key inp = prev_version (output_of c i) \<Longrightarrow>
       0 \<le> ni_reader_id inp \<Longrightarrow> ps_next s i \<le> ps_done s j"
    and inv_ring: "i < length (pc_nodes c) \<Longrightarrow> n_output_ring (pc_nodes c ! i) \<Longrightarrow> reads c j inp \<Longrightarrow>
       ni_key inp = output_of c i \<Longrightarrow> 0 \<le> ni_reader_id inp \<Longrightarrow> ps_next s i \<le> ps_done s j + pc_slots c"
  using assms unfolding pipe_inv_def by blast+

lemma pipe_invI:
  assumes "\<And>k. version_fits k \<Longrightarrow> getNumReaders (ps_shared s) (pc_comm c) k = pc_readers c k"
    and "consume_ok (epoch_bit (pc_epoch c)) (ps_shared s)"
    and "\<And>i. i < length (pc_nodes c) \<Longrightarrow>
       cell_write (ps_shared s) (cell_of (pc_comm c) (output_of c i) (pc_epoch c)) = ps_done s i"
    and "\<And>i inp. reads c i inp \<Longrightarrow> 0 \<le> ni_reader_id inp \<Longrightarrow>
       cell_reader (ps_shared s) (nat (ni_reader_id inp)) (cell_of (pc_comm c) (ni_key inp) (pc_epoch c)) = ps_done s i"
    and "\<And>i. i < length (pc_nodes c) \<Longrightarrow> ps_done s i \<le> ps_next s i \<and> ps_next s i \<le> pc_num c"
    and "\<And>i inp m. reads c i inp \<Longrightarrow> m < length (pc_nodes c) \<Longrightarrow> output_of c m = ni_key inp \<Longrightarrow>
       ps_next s i \<le> ps_done s m"
    and "\<And>i m. i < length (pc_nodes c) \<Longrightarrow> m < length (pc_nodes c) \<Longrightarrow>
       output_of c m = prev_version (output_of c i) \<Longrightarrow> ps_next s i \<le> ps_done s m"
    and "\<And>i j inp. i < length (pc_nodes c) \<Longrightarrow> reads c j inp \<Longrightarrow> ni_key inp = prev_version (output_of c i) \<Longrightarrow>
       0 \<le> ni_reader_id inp \<Longrightarrow> ps_next s i \<le> ps_done s j"
    and "\<And>i j inp. i < length (pc_nodes c) \<Longrightarrow> n_output_ring (pc_nodes c ! i) \<Longrightarrow> reads c j inp \<Longrightarrow>
       ni_key inp = output_of c i \<Longrightarrow> 0 \<le> ni_reader_id inp \<Longrightarrow> ps_next s i \<le> ps_done s j + pc_slots c"
  shows "pipe_inv c s"
  unfolding pipe_inv_def using assms by blast

lemma pipe_inv_init:
  assumes "pipe_init c s"
  shows "pipe_inv c s"
  using assms by (intro pipe_invI)
    (simp_all add: pipe_init_def consume_ok_def cell_write_def cell_consume_def cell_reader_def cell_of_def)

lemma prev_fits: "version_fits k \<Longrightarrow> 0 < pk_version k \<Longrightarrow> version_fits (prev_version k)"
  by (simp add: version_fits_def prev_version_def)

lemma pipe_inv_input:
  assumes ok: "pipe_ok c" and inv: "pipe_inv c s" and k: "k \<in> set (pc_inputs c)"
  shows "pipe_inv c (s\<lparr>ps_shared := setWriteProgress (pc_comm c) k (pc_num c) (pc_epoch c) (ps_shared s)\<rparr>)"
proof -
  have ne: "cell_of (pc_comm c) (output_of c i) (pc_epoch c) \<noteq> cell_of (pc_comm c) k (pc_epoch c)"
    if i: "i < length (pc_nodes c)" for i
  proof
    assume "cell_of (pc_comm c) (output_of c i) (pc_epoch c) = cell_of (pc_comm c) k (pc_epoch c)"
    then have "output_of c i = k"
      using cell_of_eq[OF pipe_output[OF ok i]] pipe_inputs[OF ok k] by blast
    then show False using pipe_output_pos[OF ok i] pipe_inputs[OF ok k] by simp
  qed
  have n: "getNumReaders (setWriteProgress a k x e sh) b l = getNumReaders sh b l" for a x e sh b l
    by (simp add: getNumReaders_def chunkState_def)
  show ?thesis
    using pipe_invD[OF inv] ne by (intro pipe_invI) (simp_all add: cell_write_set n)
qed

lemma pipe_inv_issue:
  assumes ok: "pipe_ok c" and inv: "pipe_inv c s" and i: "i < length (pc_nodes c)" "ps_next s i < pc_num c"
    and ready: "inputsReady (pc_comm c) (pc_epoch c) (ps_shared s) (pc_nodes c ! i) (ps_next s i)"
    and over: "overwriteReady (pc_slots c) (pc_comm c) (pc_epoch c) (ps_shared s) (pc_nodes c ! i) (ps_next s i)"
  shows "pipe_inv c (s\<lparr>ps_next := (ps_next s)(i := ps_next s i + 1)\<rparr>)"
proof -
  let ?sh = "ps_shared s" and ?a = "pc_comm c" and ?e = "pc_epoch c" and ?g = "prev_version (output_of c i)"
  have read: "ps_next s i + 1 \<le> ps_done s m"
    if "reads c i inp" "m < length (pc_nodes c)" "output_of c m = ni_key inp" for inp m
  proof -
    have "ps_next s i + 1 \<le> getWriteProgress ?sh ?a (ni_key inp) ?e"
      using ready that(1) by (auto simp: inputsReady_def list_all_iff reads_def)
    then show ?thesis using inv_write[OF inv that(2)] that(3) by (simp add: get_cell)
  qed
  have gd: "guardReady ?a ?e ?sh (pc_nodes c ! i) (ps_next s i)"
    and rg: "ringReady (pc_slots c) ?a ?e ?sh (pc_nodes c ! i) (ps_next s i)"
    using over by (simp_all add: overwriteReady_def)
  have gw: "ps_next s i + 1 \<le> ps_done s m" if m: "m < length (pc_nodes c)" "output_of c m = ?g" for m
  proof -
    have "0 < pk_version ?g" using pipe_output_pos[OF ok m(1)] m(2) by simp
    then have "ps_next s i + 1 \<le> getWriteProgress ?sh ?a ?g ?e"
      using gd pipe_guard[OF ok i(1)] by (auto simp: guardReady_def split: if_splits)
    then show ?thesis using inv_write[OF inv m(1)] m(2) by (simp add: get_cell)
  qed
  have below: "x \<le> ps_done s j"
    if k: "version_fits k" and j: "reads c j inp" "ni_key inp = k" "0 \<le> ni_reader_id inp"
      and x: "x \<le> getConsumeProgress ?sh ?a k ?e" for j inp k x
  proof -
    have "nat (ni_reader_id inp) < nat (cs_num_readers (ss_chunks ?sh (chunk_loc_of ?a k)) (progressVersionIndex (pk_version k)))"
      using pipe_reader[OF ok j(1,3)] inv_count[OF inv k] j(2,3) by (simp add: getNumReaders_def chunkState_def)
    then have "getConsumeProgress ?sh ?a k ?e \<le> cell_reader ?sh (nat (ni_reader_id inp)) (cell_of ?a k ?e)"
      using inv_consume[OF inv] by (simp add: consume_ok_def get_cell cell_of_def)
    then show ?thesis using x inv_reader[OF inv j(1,3)] j(2) by simp
  qed
  have count: "getNumReaders ?sh ?a k \<noteq> 0 \<and> 0 < getNumReaders ?sh ?a k"
    if "version_fits k" "reads c j inp" "ni_key inp = k" "0 \<le> ni_reader_id inp" for j inp k
    using pipe_reader[OF ok that(2,4)] inv_count[OF inv that(1)] that(3,4) by auto
  have gr: "ps_next s i + 1 \<le> ps_done s j"
    if j: "reads c j inp" "ni_key inp = ?g" "0 \<le> ni_reader_id inp" for j inp
  proof (rule below[OF prev_fits[OF pipe_output[OF ok i(1)] pipe_output_pos[OF ok i(1)]] j])
    show "ps_next s i + 1 \<le> getConsumeProgress ?sh ?a ?g ?e"
      using gd pipe_guard[OF ok i(1)]
        count[OF prev_fits[OF pipe_output[OF ok i(1)] pipe_output_pos[OF ok i(1)]] j]
      by (auto simp: guardReady_def split: if_splits)
  qed
  have rr: "ps_next s i + 1 \<le> ps_done s j + pc_slots c"
    if j: "reads c j inp" "ni_key inp = output_of c i" "0 \<le> ni_reader_id inp" and r: "n_output_ring (pc_nodes c ! i)" for j inp
  proof (cases "pc_slots c \<le> ps_next s i")
    case True
    have "ps_next s i - pc_slots c + 1 \<le> getConsumeProgress ?sh ?a (output_of c i) ?e"
      using rg True r count[OF pipe_output[OF ok i(1)] j] by (auto simp: ringReady_def output_of_def)
    then have "ps_next s i - pc_slots c + 1 \<le> ps_done s j"
      by (rule below[OF pipe_output[OF ok i(1)] j])
    then show ?thesis by simp
  next
    case False
    then show ?thesis by simp
  qed
  show ?thesis
  proof (rule pipe_invI)
    fix i' assume "i' < length (pc_nodes c)"
    then show "ps_done (s\<lparr>ps_next := (ps_next s)(i := ps_next s i + 1)\<rparr>) i' \<le>
        ps_next (s\<lparr>ps_next := (ps_next s)(i := ps_next s i + 1)\<rparr>) i' \<and>
        ps_next (s\<lparr>ps_next := (ps_next s)(i := ps_next s i + 1)\<rparr>) i' \<le> pc_num c"
      using inv_bounds[OF inv, of i'] i(2) by auto
  qed (use pipe_invD[OF inv] read gw gr rr in \<open>auto simp del: One_nat_def\<close>)
qed


lemma pipe_ids: "pipe_ok c \<Longrightarrow> i < length (pc_nodes c) \<Longrightarrow> ids_ok (pc_nodes c ! i)"
  unfolding ids_ok_def
proof
  fix inp assume ok: "pipe_ok c" and i: "i < length (pc_nodes c)" "inp \<in> set (n_inputs (pc_nodes c ! i))"
  then have "reads c i inp" by (simp add: reads_def)
  then show "ni_reader_id inp < MAX_PROGRESS_READERS"
    using pipe_reader[OF ok, of i inp] by (cases "0 \<le> ni_reader_id inp") (simp_all add: MAX_PROGRESS_READERS_def)
qed

lemma pipe_inv_complete:
  assumes ok: "pipe_ok c" and inv: "pipe_inv c s" and i: "i < length (pc_nodes c)" "ps_done s i < ps_next s i"
  shows "pipe_inv c (s\<lparr>ps_done := (ps_done s)(i := ps_done s i + 1),
      ps_shared := publish_done (pc_comm c) (pc_epoch c) (pc_nodes c ! i) (ps_done s i) (ps_shared s)\<rparr>)"
    (is "pipe_inv c ?s")
proof -
  let ?a = "pc_comm c" and ?e = "pc_epoch c"
  note E = publish_done_effect[OF pipe_ids[OF ok i(1)], where comm = ?a and epoch = ?e and sc = "ps_done s i" and sh = "ps_shared s"]
  have d: "ps_done s m \<le> ps_done ?s m" for m by simp
  have mono: "x \<le> ps_done ?s m" if "x \<le> ps_done s m" for x m using that d[of m] by (rule le_trans)
  show ?thesis
  proof (rule pipe_invI)
    fix k assume "version_fits k"
    then show "getNumReaders (ps_shared ?s) ?a k = pc_readers c k"
      using inv_count[OF inv] by (simp add: getNumReaders_def chunkState_def E(2))
  next
    show "consume_ok (epoch_bit ?e) (ps_shared ?s)" using E(4)[OF inv_consume[OF inv]] by simp
  next
    fix m assume m: "m < length (pc_nodes c)"
    have "cell_of ?a (output_of c m) ?e = cell_of ?a (n_output (pc_nodes c ! i)) ?e \<longleftrightarrow> m = i"
      using cell_of_eq[OF pipe_output[OF ok m] pipe_output[OF ok i(1)], of ?a ?e ?a ?e]
        pipe_output_inj[OF ok m i(1)] by (auto simp: output_of_def)
    then show "cell_write (ps_shared ?s) (cell_of ?a (output_of c m) ?e) = ps_done ?s m"
      using inv_write[OF inv m] inv_write[OF inv i(1)] by (simp add: E(1))
  next
    fix j inp assume j: "reads c j inp" "0 \<le> ni_reader_id inp"
    have "node_reads_cell ?a ?e (pc_nodes c ! i) (nat (ni_reader_id inp)) (cell_of ?a (ni_key inp) ?e) \<longleftrightarrow> j = i"
    proof
      assume "node_reads_cell ?a ?e (pc_nodes c ! i) (nat (ni_reader_id inp)) (cell_of ?a (ni_key inp) ?e)"
      then obtain inp' where p: "inp' \<in> set (n_inputs (pc_nodes c ! i))" "0 \<le> ni_reader_id inp'"
        "nat (ni_reader_id inp') = nat (ni_reader_id inp)" "cell_of ?a (ni_key inp') ?e = cell_of ?a (ni_key inp) ?e"
        by (auto simp: node_reads_cell_def)
      have r: "reads c i inp'" using p(1) i(1) by (simp add: reads_def)
      have "ni_key inp = ni_key inp'"
        using cell_of_eq[OF pipe_reads[OF ok r] pipe_reads[OF ok j(1)] p(4)] by simp
      moreover have "ni_reader_id inp = ni_reader_id inp'" using p(2,3) j(2) by simp
      ultimately show "j = i" using pipe_reader_unique[OF ok j(1) r] j(2) by simp
    next
      assume "j = i"
      then show "node_reads_cell ?a ?e (pc_nodes c ! i) (nat (ni_reader_id inp)) (cell_of ?a (ni_key inp) ?e)"
        using j by (auto simp: node_reads_cell_def reads_def)
    qed
    then show "cell_reader (ps_shared ?s) (nat (ni_reader_id inp)) (cell_of ?a (ni_key inp) ?e) = ps_done ?s j"
      using inv_reader[OF inv j] by (simp add: E(3))
  next
    fix m assume m: "m < length (pc_nodes c)"
    then show "ps_done ?s m \<le> ps_next ?s m \<and> ps_next ?s m \<le> pc_num c"
      using inv_bounds[OF inv m] i(2) by auto
  next
    fix j inp m assume "reads c j inp" "m < length (pc_nodes c)" "output_of c m = ni_key inp"
    from inv_input[OF inv this] show "ps_next ?s j \<le> ps_done ?s m" using mono by simp
  next
    fix j m assume "j < length (pc_nodes c)" "m < length (pc_nodes c)" "output_of c m = prev_version (output_of c j)"
    from inv_guard_write[OF inv this] show "ps_next ?s j \<le> ps_done ?s m" using mono by simp
  next
    fix j m inp assume "j < length (pc_nodes c)" "reads c m inp" "ni_key inp = prev_version (output_of c j)"
      "0 \<le> ni_reader_id inp"
    from inv_guard_read[OF inv this] show "ps_next ?s j \<le> ps_done ?s m" using mono by simp
  next
    fix j m inp assume "j < length (pc_nodes c)" "n_output_ring (pc_nodes c ! j)" "reads c m inp"
      "ni_key inp = output_of c j" "0 \<le> ni_reader_id inp"
    from inv_ring[OF inv this] d[of m] have "ps_next s j \<le> ps_done ?s m + pc_slots c" by simp
    then show "ps_next ?s j \<le> ps_done ?s m + pc_slots c" by simp
  qed
qed

lemma pipe_reach:
  assumes ok: "pipe_ok c" and r: "reach (pipe_init c) (pipe_step c) s"
  shows "pipe_inv c s"
  using r
proof (rule reach_invariant)
  fix s t assume "pipe_inv c s" "pipe_step c s t"
  from this(2,1) show "pipe_inv c t"
  proof cases
    case (pipe_input k)
    then show ?thesis using pipe_inv_input[OF ok \<open>pipe_inv c s\<close>] by simp
  next
    case (pipe_issue i)
    then show ?thesis using pipe_inv_issue[OF ok \<open>pipe_inv c s\<close>] by simp
  next
    case (pipe_complete i)
    then show ?thesis using pipe_inv_complete[OF ok \<open>pipe_inv c s\<close>] by simp
  qed
qed (rule pipe_inv_init)

section \<open>Conflicting accesses\<close>

text \<open>Node \<open>i\<close> has issued subchunk \<open>sc\<close> and it has not completed.\<close>

definition in_flight :: "pipe_conf \<Rightarrow> pipe_state \<Rightarrow> nat \<Rightarrow> nat \<Rightarrow> bool" where
  "in_flight c s i sc \<longleftrightarrow> i < length (pc_nodes c) \<and> ps_done s i \<le> sc \<and> sc < ps_next s i"

text \<open>Node \<open>i\<close> writes a chunk that node \<open>j\<close> writes or reads.\<close>

definition conflict :: "pipe_conf \<Rightarrow> nat \<Rightarrow> nat \<Rightarrow> bool" where
  "conflict c i j \<longleftrightarrow> sameBaseKey (output_of c i) (output_of c j) \<or>
     (\<exists>inp \<in> set (n_inputs (pc_nodes c ! j)). sameBaseKey (output_of c i) (ni_key inp))"

lemma base_version_eq: "sameBaseKey a b \<Longrightarrow> pk_version a = pk_version b \<Longrightarrow> a = b"
  by (cases a; cases b) (simp add: sameBaseKey_def)

lemma sameBaseKey_sym: "sameBaseKey a b \<Longrightarrow> sameBaseKey b a"
  by (simp add: sameBaseKey_def)

lemma prev_base: "sameBaseKey (prev_version k) k"
  by (simp add: prev_version_def sameBaseKey_def)

text \<open>A later version of a chunk is written behind every earlier one.\<close>

lemma writer_order:
  assumes ok: "pipe_ok c" and inv: "pipe_inv c s" and i: "i < length (pc_nodes c)"
  shows "j < length (pc_nodes c) \<Longrightarrow> sameBaseKey (output_of c i) (output_of c j) \<Longrightarrow>
    pk_version (output_of c j) < pk_version (output_of c i) \<Longrightarrow> ps_next s i \<le> ps_done s j"
  using i
proof (induction "nat (pk_version (output_of c i) - pk_version (output_of c j))" arbitrary: i rule: less_induct)
  case less
  have v: "1 < pk_version (output_of c i)" using less.prems pipe_output_pos[OF ok less.prems(1)] by simp
  obtain m where m: "m < length (pc_nodes c)" "output_of c m = prev_version (output_of c i)"
    using pipe_prev[OF ok less.prems(4) v] by blast
  have n: "ps_next s i \<le> ps_done s m" by (rule inv_guard_write[OF inv less.prems(4) m])
  have b: "sameBaseKey (output_of c m) (output_of c j)"
    using less.prems(2) by (simp add: m(2) sameBaseKey_def prev_version_def)
  have vm: "pk_version (output_of c m) = pk_version (output_of c i) - 1" by (simp add: m(2) prev_version_def)
  show ?case
  proof (cases "pk_version (output_of c j) = pk_version (output_of c m)")
    case True
    then have "m = j" using base_version_eq[OF b] pipe_output_inj[OF ok m(1) less.prems(1)] by simp
    then show ?thesis using n by simp
  next
    case False
    then have "ps_next s m \<le> ps_done s j"
      using less.hyps[of m] less.prems vm b m(1) by simp
    moreover have "ps_done s m \<le> ps_next s m" using inv_bounds[OF inv m(1)] by simp
    ultimately show ?thesis using n by simp
  qed
qed

text \<open>A reader of a version is behind its writer and every earlier one, and ahead of later ones.\<close>

lemma reader_order:
  assumes ok: "pipe_ok c" and inv: "pipe_inv c s" and r: "reads c j inp" "0 \<le> ni_reader_id inp"
    and i: "i < length (pc_nodes c)" and b: "sameBaseKey (output_of c i) (ni_key inp)"
  shows "ps_next s j \<le> ps_done s i \<or> ps_next s i \<le> ps_done s j"
proof (cases "pk_version (output_of c i) \<le> pk_version (ni_key inp)")
  case True
  then have "0 < pk_version (ni_key inp)" using pipe_output_pos[OF ok i] by simp
  then obtain m where m: "m < length (pc_nodes c)" "output_of c m = ni_key inp"
    using pipe_reads_producer[OF ok r(1)] by blast
  have n: "ps_next s j \<le> ps_done s m" by (rule inv_input[OF inv r(1) m])
  show ?thesis
  proof (cases "pk_version (output_of c i) = pk_version (ni_key inp)")
    case True
    then have "i = m" using base_version_eq[OF b] m pipe_output_inj[OF ok i m(1)] by simp
    then show ?thesis using n by simp
  next
    case False
    have "ps_next s m \<le> ps_done s i"
      using writer_order[OF ok inv m(1) i] b True False by (simp add: m(2) sameBaseKey_def)
    moreover have "ps_done s m \<le> ps_next s m" using inv_bounds[OF inv m(1)] by simp
    ultimately show ?thesis using n by simp
  qed
next
  case False
  text \<open>The node that writes the version right after the one read.\<close>
  have "\<exists>m < length (pc_nodes c). sameBaseKey (output_of c m) (ni_key inp) \<and>
      pk_version (output_of c m) = pk_version (ni_key inp) + 1 \<and> ps_next s i \<le> ps_next s m"
    using False b i
  proof (induction "nat (pk_version (output_of c i) - pk_version (ni_key inp))" arbitrary: i rule: less_induct)
    case less
    show ?case
    proof (cases "pk_version (output_of c i) = pk_version (ni_key inp) + 1")
      case True
      then show ?thesis using less.prems by auto
    next
      case False
      have v: "0 \<le> pk_version (ni_key inp)" using pipe_reads[OF ok r(1)] by (simp add: version_fits_def)
      then have "1 < pk_version (output_of c i)" using less.prems(1) False by simp
      then obtain m where m: "m < length (pc_nodes c)" "output_of c m = prev_version (output_of c i)"
        using pipe_prev[OF ok less.prems(3)] by blast
      have vm: "pk_version (output_of c m) = pk_version (output_of c i) - 1" by (simp add: m(2) prev_version_def)
      have bm: "sameBaseKey (output_of c m) (ni_key inp)"
        using less.prems(2) by (simp add: m(2) sameBaseKey_def prev_version_def)
      have "ps_next s i \<le> ps_next s m"
        using inv_guard_write[OF inv less.prems(3) m] inv_bounds[OF inv m(1)] by simp
      moreover have "nat (pk_version (output_of c m) - pk_version (ni_key inp)) <
          nat (pk_version (output_of c i) - pk_version (ni_key inp))" "\<not> pk_version (output_of c m) \<le> pk_version (ni_key inp)"
        using less.prems(1) False vm by auto
      ultimately show ?thesis using less.hyps[OF _ _ bm m(1)] le_trans by blast
    qed
  qed
  then obtain m where m: "m < length (pc_nodes c)" "sameBaseKey (output_of c m) (ni_key inp)"
    "pk_version (output_of c m) = pk_version (ni_key inp) + 1" "ps_next s i \<le> ps_next s m" by blast
  have "ni_key inp = prev_version (output_of c m)"
    by (rule base_version_eq) (use m in \<open>auto simp: prev_version_def sameBaseKey_def\<close>)
  then have "ps_next s m \<le> ps_done s j" by (rule inv_guard_read[OF inv m(1) r(1) _ r(2)])
  then show ?thesis using m(4) by simp
qed

lemma no_conflict:
  assumes ok: "pipe_ok c" and inv: "pipe_inv c s"
    and i: "in_flight c s i sc" and j: "in_flight c s j sc" and ne: "i \<noteq> j"
  shows "\<not> conflict c i j"
proof
  have il: "i < length (pc_nodes c)" and jl: "j < length (pc_nodes c)" using i j by (simp_all add: in_flight_def)
  have ww: False if "sameBaseKey (output_of c i) (output_of c j)"
  proof -
    have "pk_version (output_of c i) \<noteq> pk_version (output_of c j)"
      using that base_version_eq pipe_output_inj[OF ok il jl] ne by blast
    then have "ps_next s i \<le> ps_done s j \<or> ps_next s j \<le> ps_done s i"
      using writer_order[OF ok inv il jl that] writer_order[OF ok inv jl il sameBaseKey_sym[OF that]]
      by (meson linorder_neqE)
    then show False using i j by (auto simp: in_flight_def)
  qed
  assume "conflict c i j"
  then consider "sameBaseKey (output_of c i) (output_of c j)"
    | inp where "reads c j inp" "sameBaseKey (output_of c i) (ni_key inp)"
    using jl by (auto simp: conflict_def reads_def)
  then show False
  proof cases
    case 1
    then show ?thesis by (rule ww)
  next
    case (2 inp)
    show ?thesis
    proof (cases "0 \<le> ni_reader_id inp")
      case True
      then show ?thesis using reader_order[OF ok inv 2(1) True il 2(2)] i j by (auto simp: in_flight_def)
    next
      case False
      then have "ni_key inp = prev_version (output_of c j)" using pipe_self[OF ok 2(1)] by simp
      then show ?thesis using ww 2(2) by (simp add: sameBaseKey_def prev_version_def)
    qed
  qed
qed

text \<open>In a ring, a write and a read of the same version use different slots.\<close>

lemma ring_slots_apart:
  assumes inv: "pipe_inv c s" and ring: "n_output_ring (pc_nodes c ! i)"
    and i: "in_flight c s i sc" and j: "in_flight c s j sc'"
    and r: "reads c j inp" "ni_key inp = output_of c i" "0 \<le> ni_reader_id inp"
  shows "sc mod pc_slots c \<noteq> sc' mod pc_slots c"
proof -
  have il: "i < length (pc_nodes c)" using i by (simp add: in_flight_def)
  have "ps_next s j \<le> ps_done s i" using inv_input[OF inv r(1) il] r(2) by simp
  moreover have "ps_next s i \<le> ps_done s j + pc_slots c" by (rule inv_ring[OF inv il ring r])
  ultimately have lt: "sc' < sc" "sc < sc' + pc_slots c" using i j by (auto simp: in_flight_def)
  define d where "d = sc - sc'"
  have d: "sc = sc' + d" "0 < d" "d < pc_slots c" using lt unfolding d_def by simp_all
  show ?thesis
  proof
    assume e: "sc mod pc_slots c = sc' mod pc_slots c"
    have "sc' \<le> sc" "sc - sc' = d" using d(1) by simp_all
    then have "pc_slots c dvd d" using iffD1[OF mod_eq_dvd_iff_nat e] by metis
    then have "pc_slots c \<le> d" using d(2) by (rule dvd_imp_le)
    then show False using d(3) by simp
  qed
qed

end
