(* ===== verification/PipelineLive.thy ===== *)
theory PipelineLive
  imports Pipeline
begin

text \<open>
  Why the nodes of a collective always finish: the unfinished node that is least in
  completed subchunks and then in program order can take a step. The argument needs the
  other half of the consume counter's meaning, that it is not behind the slowest reader.
\<close>

section \<open>The consume counter is not behind its readers\<close>

definition consume_tight :: "nat \<Rightarrow> shared_state \<Rightarrow> bool" where
  "consume_tight e sh \<longleftrightarrow> (\<forall>loc v y. 0 < cs_num_readers (ss_chunks sh loc) v \<longrightarrow>
     (\<forall>r < nat (cs_num_readers (ss_chunks sh loc) v). y \<le> cell_reader sh r (loc, v, e)) \<longrightarrow>
     y \<le> cell_consume sh (loc, v, e))"

lemma consume_tightD:
  "consume_tight e sh \<Longrightarrow> 0 < cs_num_readers (ss_chunks sh loc) v \<Longrightarrow>
   (\<And>r. r < nat (cs_num_readers (ss_chunks sh loc) v) \<Longrightarrow> y \<le> cell_reader sh r (loc, v, e)) \<Longrightarrow>
   y \<le> cell_consume sh (loc, v, e)"
  by (simp add: consume_tight_def)

lemma consume_tight_advance:
  assumes ok: "consume_tight e sh" and r: "0 \<le> r" "r < MAX_PROGRESS_READERS"
  shows "consume_tight e (advanceReaderDone comm key r x epoch sh)" (is "consume_tight e ?sh")
  unfolding consume_tight_def
proof (intro allI impI)
  fix loc v y
  let ?n = "nat (cs_num_readers (ss_chunks sh loc) v)" and ?c = "(loc, v, e)"
  note E = advanceReaderDone_effect[OF r, of comm key x epoch sh]
  assume n: "0 < cs_num_readers (ss_chunks ?sh loc) v"
    and all: "\<forall>j < nat (cs_num_readers (ss_chunks ?sh loc) v). y \<le> cell_reader ?sh j ?c"
  have n': "0 < cs_num_readers (ss_chunks sh loc) v" using n by (simp add: E(4))
  have all': "y \<le> cell_reader ?sh j ?c" if "j < ?n" for j using all that by (simp add: E(4))
  show "y \<le> cell_consume ?sh ?c"
  proof (cases "?c = cell_of comm key epoch \<and> nat r < ?n \<and> cell_reader sh (nat r) ?c \<le> x")
    case True
    then have g: "getNumReaders sh comm key = cs_num_readers (ss_chunks sh loc) v"
      by (simp add: getNumReaders_def chunkState_def cell_of_def)
    have "cell_reader ?sh (nat r) ?c = max (cell_reader sh (nat r) ?c) x" using True by (simp add: E(1))
    then have "cell_reader ?sh (nat r) ?c = x" using True by linarith
    then have "y \<le> x" using all'[of "nat r"] True by simp
    then have "y \<le> min_reader_done (\<lambda>i. cell_reader ?sh i ?c) (nat (getNumReaders sh comm key)) x"
      using all' by (intro min_reader_done_ge) (simp_all add: g)
    then show ?thesis unfolding E(2) if_P[OF conjunct1[OF True]] by simp
  next
    case False
    have same: "cell_reader ?sh j ?c = cell_reader sh j ?c" if "j < ?n" for j
      using False that by (auto simp: E(1))
    have "y \<le> cell_consume sh ?c"
      using consume_tightD[OF ok n'] all' same by simp
    then show ?thesis unfolding E(2) by (auto simp: le_max_iff_disj)
  qed
qed

lemma consume_tight_setWrite [simp]:
  "consume_tight e (setWriteProgress comm key x epoch sh) = consume_tight e sh"
  by (simp add: consume_tight_def)

lemma consume_tight_advance_write [simp]:
  "consume_tight e (advanceWriteProgress comm key x epoch sh) = consume_tight e sh"
  by (simp add: advanceWriteProgress_def)

lemma consume_tight_publish:
  assumes "ids_ok node" "consume_tight e sh"
  shows "consume_tight e (publish_done comm epoch node sc sh)"
proof -
  have "consume_tight e (foldl (publish_reader comm epoch sc) sh is)"
    if "\<forall>inp \<in> set is. ni_reader_id inp < MAX_PROGRESS_READERS" "consume_tight e sh" for "is" sh
    using that by (induction "is" arbitrary: sh) (auto simp: publish_reader_def consume_tight_advance)
  then show ?thesis
    using assms by (simp add: publish_done_def publishNodeProgress_def publish_fold ids_ok_def)
qed

lemma consume_tight_reach:
  assumes ok: "pipe_ok c" and r: "reach (pipe_init c) (pipe_step c) s"
  shows "consume_tight (epoch_bit (pc_epoch c)) (ps_shared s)"
  using r
proof (rule reach_invariant)
  fix s assume i: "pipe_init c s"
  show "consume_tight (epoch_bit (pc_epoch c)) (ps_shared s)"
    unfolding consume_tight_def
  proof (intro allI impI)
    fix loc v y
    let ?n = "cs_num_readers (ss_chunks (ps_shared s) loc) v" and ?c = "(loc, v, epoch_bit (pc_epoch c))"
    assume n: "0 < ?n" and all: "\<forall>r < nat ?n. y \<le> cell_reader (ps_shared s) r ?c"
    have "y \<le> cell_reader (ps_shared s) 0 ?c" using n all by simp
    then show "y \<le> cell_consume (ps_shared s) ?c" using i by (simp add: pipe_init_def cell_reader_def)
  qed
next
  fix s t assume t: "consume_tight (epoch_bit (pc_epoch c)) (ps_shared s)" and "pipe_step c s t"
  from this(2) show "consume_tight (epoch_bit (pc_epoch c)) (ps_shared t)"
    by cases (use t consume_tight_publish[OF pipe_ids[OF ok]] in simp_all)
qed

section \<open>Families in program order\<close>

text \<open>
  \<open>p\<close> places each node in the program: what a node reads or overwrites is written before it,
  what it overwrites is read before it, and every reader number of a version is a node's.
\<close>

definition pipe_live :: "pipe_conf \<Rightarrow> (nat \<Rightarrow> nat) \<Rightarrow> bool" where
  "pipe_live c p \<longleftrightarrow>
     (\<forall>i inp m. reads c i inp \<longrightarrow> m < length (pc_nodes c) \<longrightarrow> output_of c m = ni_key inp \<longrightarrow> p m < p i) \<and>
     (\<forall>i inp. reads c i inp \<longrightarrow> pk_version (ni_key inp) = 0 \<longrightarrow> ni_key inp \<in> set (pc_inputs c)) \<and>
     (\<forall>i m. i < length (pc_nodes c) \<longrightarrow> m < length (pc_nodes c) \<longrightarrow>
        output_of c m = prev_version (output_of c i) \<longrightarrow> p m < p i) \<and>
     (\<forall>i j inp. i < length (pc_nodes c) \<longrightarrow> reads c j inp \<longrightarrow> 0 \<le> ni_reader_id inp \<longrightarrow>
        ni_key inp = prev_version (output_of c i) \<longrightarrow> p j < p i) \<and>
     (\<forall>k. 0 \<le> pc_readers c k) \<and>
     (\<forall>k r. 0 \<le> r \<longrightarrow> r < pc_readers c k \<longrightarrow>
        (\<exists>j inp. reads c j inp \<and> ni_key inp = k \<and> ni_reader_id inp = r))"

lemma pipe_liveD:
  assumes "pipe_live c p"
  shows live_input: "reads c i inp \<Longrightarrow> m < length (pc_nodes c) \<Longrightarrow> output_of c m = ni_key inp \<Longrightarrow> p m < p i"
    and live_published: "reads c i inp \<Longrightarrow> pk_version (ni_key inp) = 0 \<Longrightarrow> ni_key inp \<in> set (pc_inputs c)"
    and live_writer: "i < length (pc_nodes c) \<Longrightarrow> m < length (pc_nodes c) \<Longrightarrow>
        output_of c m = prev_version (output_of c i) \<Longrightarrow> p m < p i"
    and live_reader: "i < length (pc_nodes c) \<Longrightarrow> reads c j inp \<Longrightarrow> 0 \<le> ni_reader_id inp \<Longrightarrow>
        ni_key inp = prev_version (output_of c i) \<Longrightarrow> p j < p i"
    and live_count: "0 \<le> pc_readers c k"
    and live_taken: "0 \<le> r \<Longrightarrow> r < pc_readers c k \<Longrightarrow>
        \<exists>j inp. reads c j inp \<and> ni_key inp = k \<and> ni_reader_id inp = r"
  using assms unfolding pipe_live_def by blast+

definition finished :: "pipe_conf \<Rightarrow> pipe_state \<Rightarrow> bool" where
  "finished c s \<longleftrightarrow> (\<forall>i < length (pc_nodes c). ps_done s i = pc_num c)"

definition published :: "pipe_conf \<Rightarrow> pipe_state \<Rightarrow> bool" where
  "published c s \<longleftrightarrow> (\<forall>k \<in> set (pc_inputs c).
     getWriteProgress (ps_shared s) (pc_comm c) k (pc_epoch c) = pc_num c)"

section \<open>Progress\<close>

lemma least_pending:
  fixes p :: "nat \<Rightarrow> nat"
  assumes "\<not> finished c s" and inv: "pipe_inv c s"
  obtains i where "i < length (pc_nodes c)" "ps_done s i < pc_num c"
    "\<And>m. m < length (pc_nodes c) \<Longrightarrow> ps_done s i \<le> ps_done s m"
    "\<And>m. m < length (pc_nodes c) \<Longrightarrow> p m < p i \<Longrightarrow> ps_done s i < ps_done s m"
proof -
  let ?P = "{i. i < length (pc_nodes c) \<and> ps_done s i < pc_num c}"
  let ?f = "\<lambda>i. (ps_done s i, p i)"
  have le: "ps_done s i \<le> pc_num c" if "i < length (pc_nodes c)" for i
    using inv_bounds[OF inv that] by simp
  have ne: "?P \<noteq> {}" using assms(1) le by (fastforce simp: finished_def)
  then obtain i0 where i0: "i0 \<in> ?P" by blast
  obtain i where i: "i \<in> ?P" and least: "\<And>m. (?f m, ?f i) \<in> less_than <*lex*> less_than \<Longrightarrow> m \<notin> ?P"
    using wf_inv_image[OF wf_lex_prod[OF wf_less_than wf_less_than], of ?f]
    by (rule wfE_min[OF _ i0]) (simp add: inv_image_def)
  show ?thesis
  proof (rule that)
    show "i < length (pc_nodes c)" "ps_done s i < pc_num c" using i by simp_all
    fix m assume m: "m < length (pc_nodes c)"
    have out: "m \<notin> ?P \<Longrightarrow> ps_done s m = pc_num c" using m le[OF m] by simp
    show "ps_done s i \<le> ps_done s m"
      using least[of m] out i by (cases "ps_done s m < ps_done s i") auto
    show "p m < p i \<Longrightarrow> ps_done s i < ps_done s m"
      using least[of m] out i m by (cases "ps_done s m = ps_done s i"; cases "ps_done s m < ps_done s i") auto
  qed
qed

lemma consume_reached:
  assumes ok: "pipe_ok c" and inv: "pipe_inv c s" and tight: "consume_tight (epoch_bit (pc_epoch c)) (ps_shared s)"
    and live: "pipe_live c p" and k: "version_fits k"
    and n: "0 < getNumReaders (ps_shared s) (pc_comm c) k"
    and all: "\<And>j inp. reads c j inp \<Longrightarrow> ni_key inp = k \<Longrightarrow> 0 \<le> ni_reader_id inp \<Longrightarrow> y \<le> ps_done s j"
  shows "y \<le> getConsumeProgress (ps_shared s) (pc_comm c) k (pc_epoch c)"
proof -
  let ?sh = "ps_shared s" and ?a = "pc_comm c" and ?e = "pc_epoch c"
  have g: "cs_num_readers (ss_chunks ?sh (chunk_loc_of ?a k)) (progressVersionIndex (pk_version k)) = pc_readers c k"
    using inv_count[OF inv k] by (simp add: getNumReaders_def chunkState_def)
  have "y \<le> cell_consume ?sh (cell_of ?a k ?e)"
    unfolding cell_of_def
  proof (rule consume_tightD[OF tight])
    show "0 < cs_num_readers (ss_chunks ?sh (chunk_loc_of ?a k)) (progressVersionIndex (pk_version k))"
      using n by (simp add: getNumReaders_def chunkState_def)
    fix r assume "r < nat (cs_num_readers (ss_chunks ?sh (chunk_loc_of ?a k)) (progressVersionIndex (pk_version k)))"
    then have "int r < pc_readers c k" using g by simp
    then obtain j inp where j: "reads c j inp" "ni_key inp = k" "ni_reader_id inp = int r"
      using live_taken[OF live, of "int r" k] by auto
    then show "y \<le> cell_reader ?sh r (chunk_loc_of ?a k, progressVersionIndex (pk_version k), epoch_bit ?e)"
      using inv_reader[OF inv j(1)] all[OF j(1)] by (simp add: cell_of_def)
  qed
  then show ?thesis by (simp add: get_cell)
qed

lemma pipe_enabled:
  assumes ok: "pipe_ok c" and inv: "pipe_inv c s" and tight: "consume_tight (epoch_bit (pc_epoch c)) (ps_shared s)"
    and live: "pipe_live c p" and pub: "published c s" and nf: "\<not> finished c s"
  shows "\<exists>i < length (pc_nodes c). ps_done s i < ps_next s i \<or>
     (ps_next s i < pc_num c \<and>
      inputsReady (pc_comm c) (pc_epoch c) (ps_shared s) (pc_nodes c ! i) (ps_next s i) \<and>
      overwriteReady (pc_slots c) (pc_comm c) (pc_epoch c) (ps_shared s) (pc_nodes c ! i) (ps_next s i))"
proof -
  let ?sh = "ps_shared s" and ?a = "pc_comm c" and ?e = "pc_epoch c"
  obtain i where i: "i < length (pc_nodes c)" "ps_done s i < pc_num c"
    and le: "\<And>m. m < length (pc_nodes c) \<Longrightarrow> ps_done s i \<le> ps_done s m"
    and lt: "\<And>m. m < length (pc_nodes c) \<Longrightarrow> p m < p i \<Longrightarrow> ps_done s i < ps_done s m"
    using least_pending[OF nf inv] by metis
  show ?thesis
  proof (cases "ps_done s i < ps_next s i")
    case True
    then show ?thesis using i by blast
  next
    case False
    then have d: "ps_next s i = ps_done s i" using inv_bounds[OF inv i(1)] by simp
    have w: "ps_done s i + 1 \<le> getWriteProgress ?sh ?a (output_of c m) ?e"
      if "m < length (pc_nodes c)" "p m < p i" for m
      using lt[OF that] inv_write[OF inv that(1)] by (simp add: get_cell)
    have "inputsReady ?a ?e ?sh (pc_nodes c ! i) (ps_next s i)"
      unfolding inputsReady_def list_all_iff
    proof
      fix inp assume "inp \<in> set (n_inputs (pc_nodes c ! i))"
      then have r: "reads c i inp" using i(1) by (simp add: reads_def)
      have "ps_done s i + 1 \<le> getWriteProgress ?sh ?a (ni_key inp) ?e"
      proof (cases "0 < pk_version (ni_key inp)")
        case True
        then obtain m where m: "m < length (pc_nodes c)" "output_of c m = ni_key inp"
          using pipe_reads_producer[OF ok r] by blast
        show ?thesis using w[OF m(1) live_input[OF live r m]] m(2) by simp
      next
        case False
        then have "pk_version (ni_key inp) = 0" using pipe_reads[OF ok r] by (simp add: version_fits_def)
        then show ?thesis using live_published[OF live r] pub i(2) by (simp add: published_def)
      qed
      then show "\<not> getWriteProgress ?sh ?a (ni_key inp) ?e < ps_next s i + 1" using d by simp
    qed
    moreover have "guardReady ?a ?e ?sh (pc_nodes c ! i) (ps_next s i)"
    proof -
      let ?g = "prev_version (output_of c i)"
      have g: "version_fits ?g" by (rule prev_fits[OF pipe_output[OF ok i(1)] pipe_output_pos[OF ok i(1)]])
      have "ps_done s i + 1 \<le> getWriteProgress ?sh ?a ?g ?e" if "0 < pk_version ?g"
      proof -
        have "1 < pk_version (output_of c i)" using that by (simp add: prev_version_def)
        then obtain m where m: "m < length (pc_nodes c)" "output_of c m = ?g"
          using pipe_prev[OF ok i(1)] by blast
        show ?thesis using w[OF m(1) live_writer[OF live i(1) m]] m(2) by simp
      qed
      moreover have "ps_done s i + 1 \<le> getConsumeProgress ?sh ?a ?g ?e" if "getNumReaders ?sh ?a ?g \<noteq> 0"
      proof (rule consume_reached[OF ok inv tight live g])
        show "0 < getNumReaders ?sh ?a ?g" using that inv_count[OF inv g] live_count[OF live, of ?g] by simp
        fix j inp assume j: "reads c j inp" "ni_key inp = ?g" "0 \<le> ni_reader_id inp"
        have "j < length (pc_nodes c)" using j(1) by (simp add: reads_def)
        then show "ps_done s i + 1 \<le> ps_done s j"
          using lt[OF _ live_reader[OF live i(1) j(1,3,2)]] by simp
      qed
      ultimately show ?thesis using pipe_guard[OF ok i(1)] d by (auto simp: guardReady_def)
    qed
    moreover have "ringReady (pc_slots c) ?a ?e ?sh (pc_nodes c ! i) (ps_next s i)"
    proof -
      have "ps_done s i \<le> getConsumeProgress ?sh ?a (output_of c i) ?e" if n: "0 < getNumReaders ?sh ?a (output_of c i)"
      proof (rule consume_reached[OF ok inv tight live pipe_output[OF ok i(1)] n])
        fix j inp assume "reads c j inp"
        then show "ps_done s i \<le> ps_done s j" using le by (simp add: reads_def)
      qed
      then show ?thesis using d pipe_slots[OF ok] by (auto simp: ringReady_def output_of_def)
    qed
    ultimately show ?thesis using i d by (auto simp: overwriteReady_def)
  qed
qed

text \<open>Each step of a node counts; the count is bounded.\<close>

definition pipe_work :: "pipe_conf \<Rightarrow> pipe_state \<Rightarrow> nat" where
  "pipe_work c s = (\<Sum>i < length (pc_nodes c). ps_next s i + ps_done s i)"

lemma pipe_work_bound: "pipe_inv c s \<Longrightarrow> pipe_work c s \<le> length (pc_nodes c) * (2 * pc_num c)"
  unfolding pipe_work_def
  using sum_bounded_above[of "{..<length (pc_nodes c)}" "\<lambda>i. ps_next s i + ps_done s i" "2 * pc_num c"]
    inv_bounds[of c s] by fastforce

lemma pipe_work_less:
  assumes "i < length (pc_nodes c)" "\<And>m. ps_next s m + ps_done s m \<le> ps_next t m + ps_done t m"
    and "ps_next s i + ps_done s i < ps_next t i + ps_done t i"
  shows "pipe_work c s < pipe_work c t"
  unfolding pipe_work_def using assms by (intro sum_strict_mono_ex1) auto

lemma pipe_progress:
  assumes ok: "pipe_ok c" and r: "reach (pipe_init c) (pipe_step c) s"
    and live: "pipe_live c p" and pub: "published c s" and nf: "\<not> finished c s"
  shows "\<exists>t. pipe_step c s t \<and> published c t \<and> pipe_work c s < pipe_work c t"
proof -
  obtain i where i: "i < length (pc_nodes c)" and e: "ps_done s i < ps_next s i \<or>
     (ps_next s i < pc_num c \<and>
      inputsReady (pc_comm c) (pc_epoch c) (ps_shared s) (pc_nodes c ! i) (ps_next s i) \<and>
      overwriteReady (pc_slots c) (pc_comm c) (pc_epoch c) (ps_shared s) (pc_nodes c ! i) (ps_next s i))"
    using pipe_enabled[OF ok pipe_reach[OF ok r] consume_tight_reach[OF ok r] live pub nf] by blast
  show ?thesis
    using e
  proof
    assume "ps_done s i < ps_next s i"
    let ?t = "s\<lparr>ps_done := (ps_done s)(i := ps_done s i + 1),
      ps_shared := publish_done (pc_comm c) (pc_epoch c) (pc_nodes c ! i) (ps_done s i) (ps_shared s)\<rparr>"
    have "pipe_step c s ?t" using i \<open>ps_done s i < ps_next s i\<close> by (rule pipe_complete)
    moreover have "published c ?t"
      unfolding published_def
    proof
      fix k assume k: "k \<in> set (pc_inputs c)"
      have "cell_of (pc_comm c) k (pc_epoch c) \<noteq> cell_of (pc_comm c) (n_output (pc_nodes c ! i)) (pc_epoch c)"
        using cell_of_eq[OF _ pipe_output[OF ok i]] pipe_inputs[OF ok k] pipe_output_pos[OF ok i]
        by (fastforce simp: output_of_def)
      then show "getWriteProgress (ps_shared ?t) (pc_comm c) k (pc_epoch c) = pc_num c"
        using pub k by (simp add: published_def get_cell publish_done_effect(1)[OF pipe_ids[OF ok i]])
    qed
    moreover have "pipe_work c s < pipe_work c ?t" by (rule pipe_work_less[OF i]) simp_all
    ultimately show ?thesis by blast
  next
    assume a: "ps_next s i < pc_num c \<and>
      inputsReady (pc_comm c) (pc_epoch c) (ps_shared s) (pc_nodes c ! i) (ps_next s i) \<and>
      overwriteReady (pc_slots c) (pc_comm c) (pc_epoch c) (ps_shared s) (pc_nodes c ! i) (ps_next s i)"
    let ?t = "s\<lparr>ps_next := (ps_next s)(i := ps_next s i + 1)\<rparr>"
    have "pipe_step c s ?t" using i a by (intro pipe_issue) simp_all
    moreover have "published c ?t" using pub by (simp add: published_def)
    moreover have "pipe_work c s < pipe_work c ?t" by (rule pipe_work_less[OF i]) simp_all
    ultimately show ?thesis by blast
  qed
qed

lemma publish_inputs:
  assumes "pipe_ok c"
  shows "set ks \<subseteq> set (pc_inputs c) \<Longrightarrow> \<exists>t. (pipe_step c)\<^sup>*\<^sup>* s t \<and>
    (\<forall>k \<in> set ks. getWriteProgress (ps_shared t) (pc_comm c) k (pc_epoch c) = pc_num c)"
proof (induction ks)
  case Nil
  then show ?case by auto
next
  case (Cons k ks)
  then obtain t where t: "(pipe_step c)\<^sup>*\<^sup>* s t"
    "\<And>k. k \<in> set ks \<Longrightarrow> getWriteProgress (ps_shared t) (pc_comm c) k (pc_epoch c) = pc_num c" by auto
  let ?u = "t\<lparr>ps_shared := setWriteProgress (pc_comm c) k (pc_num c) (pc_epoch c) (ps_shared t)\<rparr>"
  have "pipe_step c t ?u" using Cons.prems by (intro pipe_input) simp
  then have "(pipe_step c)\<^sup>*\<^sup>* s ?u" using t(1) by simp
  moreover have "getWriteProgress (ps_shared ?u) (pc_comm c) l (pc_epoch c) = pc_num c" if "l \<in> set (k # ks)" for l
    using that t(2) by (auto simp: get_cell cell_write_set)
  ultimately show ?case by blast
qed

lemma pipe_finishes:
  assumes ok: "pipe_ok c" and live: "pipe_live c p" and r: "reach (pipe_init c) (pipe_step c) s"
  shows "\<exists>t. (pipe_step c)\<^sup>*\<^sup>* s t \<and> finished c t"
proof -
  have fin: "\<exists>u. (pipe_step c)\<^sup>*\<^sup>* t u \<and> finished c u"
    if "reach (pipe_init c) (pipe_step c) t" "published c t" for t
    using that
  proof (induction "length (pc_nodes c) * (2 * pc_num c) - pipe_work c t" arbitrary: t rule: less_induct)
    case less
    show ?case
    proof (cases "finished c t")
      case False
      from pipe_progress[OF ok less.prems(1) live less.prems(2) False] obtain u where
        u: "pipe_step c t u" "published c u" "pipe_work c t < pipe_work c u" by blast
      have ru: "reach (pipe_init c) (pipe_step c) u" by (rule reach_step[OF less.prems(1) u(1)])
      have "pipe_work c u \<le> length (pc_nodes c) * (2 * pc_num c)"
        by (rule pipe_work_bound[OF pipe_reach[OF ok ru]])
      then obtain v where "(pipe_step c)\<^sup>*\<^sup>* u v" "finished c v"
        using less.hyps[OF _ ru u(2)] u(3) by (metis diff_less_mono2 less_le_trans)
      then show ?thesis using u(1) by (meson converse_rtranclp_into_rtranclp)
    qed auto
  qed
  obtain t where t: "(pipe_step c)\<^sup>*\<^sup>* s t" "published c t"
    using publish_inputs[OF ok, of "pc_inputs c" s] by (auto simp: published_def)
  from fin[OF reach_steps[OF r t(1)] t(2)] t(1) show ?thesis by (meson rtranclp_trans)
qed

end
