(* ===== verification/VersionLemmas.thy ===== *)
theory VersionLemmas
  imports Versioning
begin

text \<open>
  What the versioning pass computes, stated without its maps: the version an instruction
  reads or writes is a count of the writes to the same chunk before it (or, for a chunk
  that is only written later, of all its writes), and the readers of each version are
  numbered consecutively.
\<close>

section \<open>Counting the writes of a chunk\<close>

definition writes :: "version_env \<Rightarrow> instruction list \<Rightarrow> progress_key \<Rightarrow> nat" where
  "writes ve insts b = length (filter (\<lambda>i. produced_base_for_inst ve i = Some b) insts)"

abbreviation all_writes :: "version_env \<Rightarrow> progress_key \<Rightarrow> nat" where
  "all_writes ve \<equiv> writes ve (p_all_instructions (ve_program ve))"

lemma writes_Nil [simp]: "writes ve [] b = 0"
  by (simp add: writes_def)

lemma writes_append [simp]: "writes ve (xs @ ys) b = writes ve xs b + writes ve ys b"
  by (simp add: writes_def)

lemma writes_single [simp]:
  "writes ve [i] b = (if produced_base_for_inst ve i = Some b then 1 else 0)"
  by (simp add: writes_def)

lemma produced_base_version:
  "produced_base_for_inst ve inst = Some b \<Longrightarrow> base_key b = b"
  by (auto simp: produced_base_for_inst_def with_version_def hostKey_def deviceKey_def
      split: op_code.splits)

lemma base_key_version: "base_key b = b \<longleftrightarrow> pk_version b = 0"
  by (cases b) (auto simp: with_version_def)

lemma final_produced_get:
  "om_get (final_produced ve) b =
     (if all_writes ve b = 0 then None else Some (with_version b (int (all_writes ve b))))"
proof -
  have inv: "(\<forall>b. om_get (fst (foldl (final_step ve) ([], []) xs)) b =
          (if writes ve xs b = 0 then None else Some (int (writes ve xs b)))) \<and>
        (\<forall>b. om_get (snd (foldl (final_step ve) ([], []) xs)) b =
          (if writes ve xs b = 0 then None else Some (with_version b (int (writes ve xs b)))))" for xs
  proof (induction xs rule: rev_induct)
    case Nil
    then show ?case by simp
  next
    case (snoc x xs)
    then show ?case
      by (auto simp: final_step_def Let_def split: option.splits if_splits)
  qed
  then show ?thesis by (simp add: final_produced_def)
qed

section \<open>What the map of latest versions holds\<close>

text \<open>
  After the instructions \<open>pre\<close>, with the chunks of \<open>init\<close> known from the start.
\<close>

definition tracks ::
  "version_env \<Rightarrow> progress_key set \<Rightarrow> instruction list \<Rightarrow> key_map \<Rightarrow> bool" where
  "tracks ve init pre lat \<longleftrightarrow> om_ok lat \<and>
     (\<forall>b k. om_get lat b = Some k \<longrightarrow> base_key b = b \<and> k = with_version b (int (writes ve pre b)) \<and>
        (0 < writes ve pre b \<or> b \<in> init \<or> all_writes ve b = 0)) \<and>
     (\<forall>b. base_key b = b \<longrightarrow> om_get lat b = None \<longrightarrow> writes ve pre b = 0 \<and> b \<notin> init)"

lemma tracks_SomeD:
  assumes "tracks ve init pre lat" and "om_get lat b = Some k"
  shows "base_key b = b" and "k = with_version b (int (writes ve pre b))"
    and "0 < writes ve pre b \<or> b \<in> init \<or> all_writes ve b = 0"
proof -
  from assms(1) have "\<forall>b k. om_get lat b = Some k \<longrightarrow> base_key b = b \<and>
      k = with_version b (int (writes ve pre b)) \<and>
      (0 < writes ve pre b \<or> b \<in> init \<or> all_writes ve b = 0)"
    unfolding tracks_def by (elim conjE)
  from this[rule_format, OF assms(2)]
  show "base_key b = b" and "k = with_version b (int (writes ve pre b))"
    and "0 < writes ve pre b \<or> b \<in> init \<or> all_writes ve b = 0" by simp_all
qed

lemma tracks_NoneD:
  assumes "tracks ve init pre lat" and "base_key b = b" and "om_get lat b = None"
  shows "writes ve pre b = 0" and "b \<notin> init"
proof -
  from assms(1) have "\<forall>b. base_key b = b \<longrightarrow> om_get lat b = None \<longrightarrow> writes ve pre b = 0 \<and> b \<notin> init"
    unfolding tracks_def by (elim conjE)
  from this[rule_format, OF assms(2,3)] show "writes ve pre b = 0" and "b \<notin> init" by simp_all
qed

lemma tracks_okD: "tracks ve init pre lat \<Longrightarrow> om_ok lat"
  by (simp only: tracks_def)

text \<open>The version an instruction after \<open>pre\<close> depends on when it reads chunk \<open>b\<close>.\<close>

definition read_key :: "version_env \<Rightarrow> progress_key set \<Rightarrow> instruction list \<Rightarrow> progress_key \<Rightarrow> progress_key" where
  "read_key ve init pre b =
     with_version b (int (if b \<in> init \<or> 0 < writes ve pre b then writes ve pre b else all_writes ve b))"

lemma tracks_put_base:
  assumes t: "tracks ve init pre lat" and b: "base_key b = b"
    and w: "writes ve pre b = 0" "all_writes ve b = 0"
  shows "tracks ve init pre (om_put b b lat)"
  unfolding tracks_def
proof (intro conjI allI impI)
  have z: "with_version b (int (writes ve pre b)) = b" using b w(1) by simp
  show "om_ok (om_put b b lat)" using tracks_okD[OF t] by simp
  fix c k assume g: "om_get (om_put b b lat) c = Some k"
  have "base_key c = c \<and> k = with_version c (int (writes ve pre c)) \<and>
      (0 < writes ve pre c \<or> c \<in> init \<or> all_writes ve c = 0)"
  proof (cases "b = c")
    case True
    then show ?thesis using g z b w by simp
  next
    case False
    then have "om_get lat c = Some k" using g by simp
    then show ?thesis using tracks_SomeD[OF t, of c k] by simp
  qed
  then show "base_key c = c" "k = with_version c (int (writes ve pre c))"
    "0 < writes ve pre c \<or> c \<in> init \<or> all_writes ve c = 0" by simp_all
next
  fix c assume "base_key c = c" "om_get (om_put b b lat) c = None"
  then have "om_get lat c = None" by (simp split: if_splits)
  then show "writes ve pre c = 0" "c \<notin> init"
    using tracks_NoneD[OF t \<open>base_key c = c\<close>] by simp_all
qed

lemma latest_tracks:
  assumes t: "tracks ve init pre lat" and l: "latest (final_produced ve) lat key = (k, lat')"
  shows "k = read_key ve init pre (base_key key) \<and> tracks ve init pre lat'"
proof -
  define b where "b = base_key key"
  have bb: "base_key b = b" by (simp add: b_def)
  have l': "(case om_get lat b of Some k \<Rightarrow> (k, lat)
      | None \<Rightarrow> (case om_get (final_produced ve) b of Some k \<Rightarrow> (k, lat)
                | None \<Rightarrow> (b, om_emplace b b lat))) = (k, lat')"
    using l by (simp only: latest_def Let_def b_def)
  show ?thesis unfolding b_def[symmetric]
  proof (cases "om_get lat b")
    case None
    note w = tracks_NoneD[OF t bb None]
    show "k = read_key ve init pre b \<and> tracks ve init pre lat'"
    proof (cases "all_writes ve b = 0")
      case True
      have "om_get (final_produced ve) b = None" using True by (simp add: final_produced_get)
      with l' None have "(b, om_put b b lat) = (k, lat')"
        by (simp only: om_emplace_def option.case if_True simp_thms)
      then have "k = b" and "lat' = om_put b b lat" by auto
      moreover have "read_key ve init pre b = b"
        using w True bb by (simp add: read_key_def)
      ultimately show ?thesis using tracks_put_base[OF t bb w(1) True] by simp
    next
      case False
      then have "k = with_version b (int (all_writes ve b))" and "lat' = lat"
        using l' None by (simp_all add: final_produced_get)
      then show ?thesis using t w by (simp add: read_key_def)
    qed
  next
    case (Some k')
    then have "k = k'" "lat' = lat" using l' by simp_all
    then show "k = read_key ve init pre b \<and> tracks ve init pre lat'"
      using t tracks_SomeD[OF t Some] by (auto simp: read_key_def)
  qed
qed

lemma latest_existing_tracks:
  assumes "tracks ve init pre lat"
  shows "latest_existing lat key = with_version (base_key key) (int (writes ve pre (base_key key)))"
  using tracks_NoneD[OF assms, of "base_key key"] tracks_SomeD(2)[OF assms, of "base_key key"]
  by (cases "om_get lat (base_key key)") (simp_all add: latest_existing_def Let_def)

lemma produce_tracks:
  assumes t: "tracks ve init pre lat" and p: "produce lat key = (k, lat')"
    and i: "produced_base_for_inst ve inst = Some (base_key key)"
  shows "k = with_version (base_key key) (int (writes ve pre (base_key key)) + 1) \<and>
         tracks ve init (pre @ [inst]) lat'"
proof -
  define b where "b = base_key key"
  have bb: "base_key b = b" by (simp add: b_def)
  have wv: "with_version key v = with_version b v" for v by (simp add: b_def)
  have v: "(case om_get lat b of None \<Rightarrow> 1 | Some k \<Rightarrow> pk_version k + 1) = int (writes ve pre b) + 1"
    using tracks_NoneD[OF t bb] tracks_SomeD(2)[OF t, of b] by (cases "om_get lat b") simp_all
  have k: "k = with_version b (int (writes ve pre b) + 1)" and l: "lat' = om_put b k lat"
    using p v by (auto simp: produce_def Let_def wv bb simp flip: b_def)
  have i': "produced_base_for_inst ve inst = Some b" using i by (simp add: b_def)
  have "tracks ve init (pre @ [inst]) lat'"
    unfolding tracks_def
  proof (intro conjI allI impI)
    show "om_ok lat'" using tracks_okD[OF t] l by simp
    fix c k' assume g: "om_get lat' c = Some k'"
    have "base_key c = c \<and> k' = with_version c (int (writes ve (pre @ [inst]) c)) \<and>
        (0 < writes ve (pre @ [inst]) c \<or> c \<in> init \<or> all_writes ve c = 0)"
    proof (cases "b = c")
      case True
      then show ?thesis using g l k i' bb by (simp add: add.commute)
    next
      case False
      then have "om_get lat c = Some k'" using g l by simp
      then show ?thesis using tracks_SomeD[OF t, of c k'] i' False by auto
    qed
    then show "base_key c = c" "k' = with_version c (int (writes ve (pre @ [inst]) c))"
      "0 < writes ve (pre @ [inst]) c \<or> c \<in> init \<or> all_writes ve c = 0" by simp_all
  next
    fix c assume c: "base_key c = c" "om_get lat' c = None"
    then have n: "om_get lat c = None" "b \<noteq> c" using l by (auto split: if_splits)
    then show "writes ve (pre @ [inst]) c = 0" "c \<notin> init"
      using tracks_NoneD[OF t c(1)] i' by simp_all
  qed
  with k show ?thesis by (simp add: b_def)
qed

section \<open>One instruction\<close>

text \<open>The chunks an instruction reads, in the order of its inputs.\<close>

definition src_bases :: "version_env \<Rightarrow> instruction \<Rightarrow> progress_key list" where
  "src_bases ve inst =
     (let dev = (\<lambda>owner. deviceKey (visible_src_buf ve (i_src_buf inst) owner (chunk_idx (i_src inst)))
                   owner (chunk_idx (i_src inst)) 0);
          host = (\<lambda>a. hostKey (numa_id a) (chunk_idx a) 0)
      in case i_op inst of
           NOP \<Rightarrow> [] | D2H \<Rightarrow> [dev (i_rank inst)] | D2D \<Rightarrow> [dev (eff_src_rank inst)]
         | H2D \<Rightarrow> [host (i_src inst)] | H2H \<Rightarrow> [host (i_src inst)]
         | H2HReduce \<Rightarrow> [host (i_src inst), host (i_src2 inst)]
         | D2DReduce \<Rightarrow> [dev (eff_src_rank inst),
             deviceKey (visible_dst_buf ve inst) (i_rank inst) (chunk_idx (i_dst inst)) 0])"

definition keys_ok ::
  "version_env \<Rightarrow> progress_key set \<Rightarrow> instruction list \<Rightarrow> instruction \<Rightarrow>
   progress_key list \<Rightarrow> progress_key \<Rightarrow> progress_key \<Rightarrow> bool \<Rightarrow> bool" where
  "keys_ok ve init pre inst inputs old out has_out \<longleftrightarrow>
     inputs = map (read_key ve init pre) (src_bases ve inst) \<and>
     (case produced_base_for_inst ve inst of
        None \<Rightarrow> \<not> has_out
      | Some b \<Rightarrow> has_out \<and> old = with_version b (int (writes ve pre b)) \<and>
                   out = with_version b (int (writes ve pre b) + 1))"

lemma tracks_noop:
  "produced_base_for_inst ve inst = None \<Longrightarrow> tracks ve init pre lat \<Longrightarrow>
   tracks ve init (pre @ [inst]) lat"
  by (auto simp: tracks_def)

lemma inst_keys_spec:
  assumes t: "tracks ve init pre lat"
    and k: "inst_keys ve (final_produced ve) lat inst = ((inputs, old, out, has_out), lat')"
  shows "keys_ok ve init pre inst inputs old out has_out \<and> tracks ve init (pre @ [inst]) lat'"
proof -
  have one: "inputs = [read_key ve init pre src] \<and> has_out \<and>
      old = with_version dst (int (writes ve pre dst)) \<and>
      out = with_version dst (int (writes ve pre dst) + 1) \<and> tracks ve init (pre @ [inst]) lat'"
    if e: "(let (k, lat1) = latest (final_produced ve) lat src;
               old = latest_existing lat1 dst; (out, lat2) = produce lat1 dst
           in (([k], old, out, True), lat2)) = ((inputs, old, out, has_out), lat')"
      and b: "base_key src = src" "base_key dst = dst" "produced_base_for_inst ve inst = Some dst"
    for src dst
  proof -
    obtain k1 lat1 where l1: "latest (final_produced ve) lat src = (k1, lat1)" by fastforce
    obtain o2 lat2 where p: "produce lat1 dst = (o2, lat2)" by fastforce
    note t1 = latest_tracks[OF t l1, unfolded b(1)]
    show ?thesis
      using e t1 latest_existing_tracks[OF conjunct2[OF t1], of dst]
        produce_tracks[OF conjunct2[OF t1] p] b by (simp add: l1 p Let_def)
  qed
  have two: "inputs = [read_key ve init pre src, read_key ve init pre src2] \<and> has_out \<and>
      old = with_version dst (int (writes ve pre dst)) \<and>
      out = with_version dst (int (writes ve pre dst) + 1) \<and> tracks ve init (pre @ [inst]) lat'"
    if e: "(let (k1, lat1) = latest (final_produced ve) lat src;
               (k2, lat2) = latest (final_produced ve) lat1 src2;
               old = latest_existing lat2 dst; (out, lat3) = produce lat2 dst
           in (([k1, k2], old, out, True), lat3)) = ((inputs, old, out, has_out), lat')"
      and b: "base_key src = src" "base_key src2 = src2" "base_key dst = dst"
        "produced_base_for_inst ve inst = Some dst"
    for src src2 dst
  proof -
    obtain k1 lat1 where l1: "latest (final_produced ve) lat src = (k1, lat1)" by fastforce
    obtain k2 lat2 where l2: "latest (final_produced ve) lat1 src2 = (k2, lat2)" by fastforce
    obtain o3 lat3 where p: "produce lat2 dst = (o3, lat3)" by fastforce
    note t1 = latest_tracks[OF t l1, unfolded b(1)]
    note t2 = latest_tracks[OF conjunct2[OF t1] l2, unfolded b(2)]
    show ?thesis
      using e t1 t2 latest_existing_tracks[OF conjunct2[OF t2], of dst]
        produce_tracks[OF conjunct2[OF t2] p] b by (simp add: l1 l2 p Let_def)
  qed
  note defs = inst_keys_def keys_ok_def src_bases_def produced_base_for_inst_def
  show ?thesis
  proof (cases "i_op inst")
    case NOP
    then have n: "produced_base_for_inst ve inst = None" by (simp add: produced_base_for_inst_def)
    show ?thesis using k NOP tracks_noop[OF n t] by (auto simp: defs Let_def)
  next
    case D2D
    show ?thesis using k one[of "deviceKey (visible_src_buf ve (i_src_buf inst) (eff_src_rank inst) (chunk_idx (i_src inst))) (eff_src_rank inst) (chunk_idx (i_src inst)) 0"
      "deviceKey (visible_dst_buf ve inst) (i_rank inst) (chunk_idx (i_dst inst)) 0"]
      by (simp add: defs Let_def D2D)
  next
    case D2H
    show ?thesis using k one[of "deviceKey (visible_src_buf ve (i_src_buf inst) (i_rank inst) (chunk_idx (i_src inst))) (i_rank inst) (chunk_idx (i_src inst)) 0"
      "hostKey (numa_id (i_dst inst)) (chunk_idx (i_dst inst)) 0"]
      by (simp add: defs Let_def D2H)
  next
    case H2D
    show ?thesis using k one[of "hostKey (numa_id (i_src inst)) (chunk_idx (i_src inst)) 0"
      "deviceKey (visible_dst_buf ve inst) (i_rank inst) (chunk_idx (i_dst inst)) 0"]
      by (simp add: defs Let_def H2D)
  next
    case H2H
    show ?thesis using k one[of "hostKey (numa_id (i_src inst)) (chunk_idx (i_src inst)) 0"
      "hostKey (numa_id (i_dst inst)) (chunk_idx (i_dst inst)) 0"]
      by (simp add: defs Let_def H2H)
  next
    case H2HReduce
    show ?thesis using k two[of "hostKey (numa_id (i_src inst)) (chunk_idx (i_src inst)) 0"
      "hostKey (numa_id (i_src2 inst)) (chunk_idx (i_src2 inst)) 0"
      "hostKey (numa_id (i_dst inst)) (chunk_idx (i_dst inst)) 0"]
      by (simp add: defs Let_def H2HReduce)
  next
    case D2DReduce
    show ?thesis using k two[of "deviceKey (visible_src_buf ve (i_src_buf inst) (eff_src_rank inst) (chunk_idx (i_src inst))) (eff_src_rank inst) (chunk_idx (i_src inst)) 0"
      "deviceKey (visible_dst_buf ve inst) (i_rank inst) (chunk_idx (i_dst inst)) 0"
      "deviceKey (visible_dst_buf ve inst) (i_rank inst) (chunk_idx (i_dst inst)) 0"]
      by (simp add: defs Let_def D2DReduce)
  qed
qed

section \<open>The whole pass\<close>

definition resolved_ok ::
  "version_env \<Rightarrow> progress_key set \<Rightarrow> instruction list \<Rightarrow> instruction \<Rightarrow> resolved \<Rightarrow> bool" where
  "resolved_ok ve init pre inst r \<longleftrightarrow> r_inst r = inst \<and>
     keys_ok ve init pre inst (map fst (r_inputs r)) (r_old_output r) (r_output r) (r_has_output r)"

lemma assign_readers_keys:
  "assign_readers op out idx counts inputs = Inr (ids, counts') \<Longrightarrow> map fst ids = inputs"
  by (induction op out idx counts inputs arbitrary: ids counts' rule: assign_readers.induct)
    (auto simp: sbind_Inr_iff Let_def split: if_splits)

lemma resolve_inst_spec:
  assumes "tracks ve init pre (vs_latest vs)"
    and "resolve_inst ve (final_produced ve) vs inst = Inr (r, vs')"
  shows "resolved_ok ve init pre inst r \<and> tracks ve init (pre @ [inst]) (vs_latest vs')"
proof -
  obtain inputs old out has_out lat' where
    k: "inst_keys ve (final_produced ve) (vs_latest vs) inst = ((inputs, old, out, has_out), lat')"
    by (metis prod.exhaust)
  from assms(2) k obtain ids counts' where
    a: "assign_readers (i_op inst) out 0 (vs_readers vs) inputs = Inr (ids, counts')"
    and r: "r = \<lparr>r_inst = inst, r_inputs = ids, r_old_output = old, r_output = out,
                r_has_output = has_out\<rparr>"
    and v: "vs' = \<lparr>vs_latest = lat', vs_readers = counts'\<rparr>"
    by (auto simp: resolve_inst_def sbind_Inr_iff)
  show ?thesis
    using inst_keys_spec[OF assms(1) k] assign_readers_keys[OF a]
    by (simp add: r v resolved_ok_def)
qed

lemma resolve_all_spec:
  assumes "tracks ve init pre (vs_latest vs)"
    and "resolve_all ve (final_produced ve) vs insts = Inr (rs, vs')"
  shows "length rs = length insts \<and>
     (\<forall>j < length insts. resolved_ok ve init (pre @ take j insts) (insts ! j) (rs ! j)) \<and>
     tracks ve init (pre @ insts) (vs_latest vs')"
  using assms
proof (induction insts arbitrary: pre vs rs)
  case Nil
  then show ?case by simp
next
  case (Cons inst insts)
  from Cons.prems(2) obtain r vs1 rs1 where
    r: "resolve_inst ve (final_produced ve) vs inst = Inr (r, vs1)"
    and rest: "resolve_all ve (final_produced ve) vs1 insts = Inr (rs1, vs')"
    and rs: "rs = r # rs1"
    by (auto simp: sbind_Inr_iff)
  note step = resolve_inst_spec[OF Cons.prems(1) r]
  note ih = Cons.IH[OF conjunct2[OF step] rest]
  have "resolved_ok ve init (pre @ take j (inst # insts)) ((inst # insts) ! j) (rs ! j)"
    if "j < length (inst # insts)" for j
    using that step ih by (cases j) (auto simp: rs)
  then show ?case using ih by (simp add: rs)
qed

text \<open>Each output version of the program is written by one instruction.\<close>

lemma writes_take_lt:
  assumes "i < j" and "j \<le> length insts" and "produced_base_for_inst ve (insts ! i) = Some b"
  shows "writes ve (take i insts) b < writes ve (take j insts) b"
proof -
  have "take j insts = take i insts @ [insts ! i] @ drop (Suc i) (take j insts)"
    using assms(1,2) id_take_nth_drop[of i "take j insts"] by (simp add: min_def)
  from arg_cong[OF this, of "\<lambda>l. writes ve l b"]
  have "writes ve (take j insts) b = writes ve (take i insts) b + (1 +
      writes ve (drop (Suc i) (take j insts)) b)"
    by (simp only: writes_append writes_single assms(3) if_True simp_thms)
  then show ?thesis by simp
qed

lemma resolved_output:
  assumes "resolved_ok ve init pre inst r"
  shows "r_has_output r \<longleftrightarrow> (\<exists>b. produced_base_for_inst ve inst = Some b)"
    and "produced_base_for_inst ve inst = Some b \<Longrightarrow>
           r_output r = with_version b (int (writes ve pre b) + 1) \<and>
           r_old_output r = with_version b (int (writes ve pre b))"
  using assms by (auto simp: resolved_ok_def keys_ok_def split: option.splits)

lemma resolved_output_distinct:
  assumes len: "length rs = length insts"
    and ok: "\<And>j. j < length insts \<Longrightarrow> resolved_ok ve init (take j insts) (insts ! j) (rs ! j)"
    and ij: "i < j" "j < length rs" and h: "r_has_output (rs ! i)" "r_has_output (rs ! j)"
  shows "r_output (rs ! i) \<noteq> r_output (rs ! j)"
proof
  assume eq: "r_output (rs ! i) = r_output (rs ! j)"
  have i: "i < length insts" and j: "j < length insts" using ij len by simp_all
  obtain b where b: "produced_base_for_inst ve (insts ! i) = Some b"
    using h(1) resolved_output(1)[OF ok[OF i]] by auto
  obtain c where c: "produced_base_for_inst ve (insts ! j) = Some c"
    using h(2) resolved_output(1)[OF ok[OF j]] by auto
  have ob: "r_output (rs ! i) = with_version b (int (writes ve (take i insts) b) + 1)"
    using resolved_output(2)[OF ok[OF i] b] by simp
  have oc: "r_output (rs ! j) = with_version c (int (writes ve (take j insts) c) + 1)"
    using resolved_output(2)[OF ok[OF j] c] by simp
  from eq[unfolded ob oc, THEN iffD1[OF with_version_eq_iff]]
  have "base_key b = base_key c"
    and v: "int (writes ve (take i insts) b) = int (writes ve (take j insts) c)"
    by simp_all
  then have "b = c" using produced_base_version[OF b] produced_base_version[OF c] by simp
  with v show False using writes_take_lt[OF ij(1) _ b] j by simp
qed

lemma ssa_distinct:
  assumes len: "length rs = length insts"
    and ok: "\<And>j. j < length insts \<Longrightarrow> resolved_ok ve init (take j insts) (insts ! j) (rs ! j)"
  shows "distinct (map r_output (filter r_has_output rs))"
proof -
  have "distinct (map r_output (filter r_has_output xs))"
    if "\<And>i j. i < j \<Longrightarrow> j < length xs \<Longrightarrow> r_has_output (xs ! i) \<Longrightarrow> r_has_output (xs ! j) \<Longrightarrow>
      r_output (xs ! i) \<noteq> r_output (xs ! j)" for xs
    using that
  proof (induction xs)
    case Nil
    then show ?case by simp
  next
    case (Cons x xs)
    have "r_output x \<noteq> r_output y" if "y \<in> set xs" "r_has_output x" "r_has_output y" for y
    proof -
      note y = that
      obtain j where "j < length xs" "xs ! j = y" using y(1) by (auto simp: in_set_conv_nth)
      then show ?thesis using Cons.prems[of 0 "Suc j"] y by simp
    qed
    moreover have "distinct (map r_output (filter r_has_output xs))"
      using Cons.prems[of "Suc _" "Suc _"] by (intro Cons.IH) simp
    ultimately show ?case by auto
  qed
  then show ?thesis using resolved_output_distinct[OF len ok] by blast
qed

text \<open>Version \<open>v\<close> of a chunk, for \<open>v\<close> between 1 and its number of writes, has a writer.\<close>

lemma nth_write:
  "v < writes ve insts b \<Longrightarrow>
     \<exists>j < length insts. produced_base_for_inst ve (insts ! j) = Some b \<and> writes ve (take j insts) b = v"
proof (induction insts rule: rev_induct)
  case Nil
  then show ?case by simp
next
  case (snoc x xs)
  show ?case
  proof (cases "v < writes ve xs b")
    case True
    then obtain j where "j < length xs" "produced_base_for_inst ve (xs ! j) = Some b"
      "writes ve (take j xs) b = v" using snoc.IH by blast
    then show ?thesis by (intro exI[of _ j]) (simp add: nth_append)
  next
    case False
    then have "produced_base_for_inst ve x = Some b" "writes ve xs b = v"
      using snoc.prems by (auto split: if_splits)
    then show ?thesis by (intro exI[of _ "length xs"]) simp
  qed
qed

section \<open>The versions known from the start\<close>

definition input_bases :: "ir_program \<Rightarrow> int \<Rightarrow> progress_key set" where
  "input_bases program world_size =
     {k. \<exists>r c. k = deviceKey INPUT r c 0 \<and> 0 \<le> r \<and> r < world_size \<and>
         0 \<le> c \<and> c < maxInputChunkCount program r}"

definition holds_exactly :: "progress_key set \<Rightarrow> key_map \<Rightarrow> bool" where
  "holds_exactly K lat \<longleftrightarrow> om_ok lat \<and> (\<forall>b. om_get lat b = (if b \<in> K then Some b else None))"

lemma holds_exactly_put: "holds_exactly K lat \<Longrightarrow> holds_exactly (insert k K) (om_put k k lat)"
  by (auto simp: holds_exactly_def)

lemma holds_exactly_emplace:
  "holds_exactly K lat \<Longrightarrow> holds_exactly (insert k K) (om_emplace k k lat)"
  by (auto simp: holds_exactly_def om_get_emplace split: option.splits)

lemma holds_exactly_foldl:
  assumes "\<And>K lat x. holds_exactly K lat \<Longrightarrow> holds_exactly (A x \<union> K) (f lat x)"
    and "holds_exactly K lat"
  shows "holds_exactly ((\<Union>x \<in> set xs. A x) \<union> K) (foldl f lat xs)"
  using assms(2)
proof (induction xs arbitrary: lat K)
  case Nil
  then show ?case by simp
next
  case (Cons x xs)
  from Cons.IH[OF assms(1)[OF Cons.prems, of x]] show ?case
    by (simp add: Un_assoc Un_left_commute)
qed

definition initial_latest :: "ir_program \<Rightarrow> int \<Rightarrow> int \<Rightarrow> key_map" where
  "initial_latest program rank world_size =
     init_all_inputs program world_size (init_own_inputs program rank)"

lemma initial_holds:
  assumes "0 \<le> rank" and "rank < world_size"
  shows "holds_exactly (input_bases program world_size) (initial_latest program rank world_size)"
proof -
  let ?in = "\<lambda>r. (\<Union>c \<in> {0..<nat (maxInputChunkCount program r)}. {deviceKey INPUT r (int c) 0})"
  have own: "holds_exactly (?in rank) (init_own_inputs program rank)"
    using holds_exactly_foldl[of "\<lambda>c. {deviceKey INPUT rank (int c) 0}" _ "{}" "[]"
        "[0..<nat (maxInputChunkCount program rank)]"] holds_exactly_put
    unfolding init_own_inputs_def by (simp add: holds_exactly_def)
  have one: "holds_exactly (?in (int r) \<union> K)
      (foldl (\<lambda>lat c. om_emplace (deviceKey INPUT (int r) (int c) 0) (deviceKey INPUT (int r) (int c) 0) lat)
         lat [0..<nat (maxInputChunkCount program (int r))])"
    if "holds_exactly K lat" for K lat r
    using holds_exactly_foldl[of "\<lambda>c. {deviceKey INPUT (int r) (int c) 0}" _ K lat
        "[0..<nat (maxInputChunkCount program (int r))]"] holds_exactly_emplace that by simp
  have "holds_exactly ((\<Union>r \<in> set [0..<nat world_size]. ?in (int r)) \<union> ?in rank)
      (initial_latest program rank world_size)"
    unfolding initial_latest_def init_all_inputs_def
    by (rule holds_exactly_foldl[OF one own])
  moreover have "(\<Union>r \<in> set [0..<nat world_size]. ?in (int r)) \<union> ?in rank = input_bases program world_size"
    (is "?L = _")
  proof (intro set_eqI iffI)
    fix k assume "k \<in> ?L"
    then show "k \<in> input_bases program world_size"
      using assms unfolding input_bases_def by fastforce
  next
    fix k assume "k \<in> input_bases program world_size"
    then obtain r c where k: "k = deviceKey INPUT r c 0" "0 \<le> r" "r < world_size" "0 \<le> c"
      "c < maxInputChunkCount program r" by (auto simp: input_bases_def)
    then have "nat r \<in> set [0..<nat world_size]" "k \<in> ?in (int (nat r))"
      by (auto intro!: bexI[of _ "nat c"])
    then show "k \<in> ?L" by blast
  qed
  ultimately show ?thesis by simp
qed

lemma initial_tracks:
  assumes "0 \<le> rank" and "rank < world_size"
  shows "tracks ve (input_bases program world_size) [] (initial_latest program rank world_size)"
proof -
  have "base_key b = b" if "b \<in> input_bases program world_size" for b
    using that by (auto simp: input_bases_def)
  then show ?thesis
    using initial_holds[OF assms, of program] by (auto simp: tracks_def holds_exactly_def)
qed

lemma initial_rank_independent:
  assumes "0 \<le> r" "r < world_size" "0 \<le> q" "q < world_size"
  shows "initial_latest program r world_size = initial_latest program q world_size"
  using initial_holds[OF assms(1,2), of program] initial_holds[OF assms(3,4), of program]
  by (intro om_ext) (simp_all add: holds_exactly_def)

section \<open>Reader numbers\<close>

definition num_readers :: "(progress_key, int) omap \<Rightarrow> progress_key \<Rightarrow> int" where
  "num_readers counts k = (case om_get counts k of None \<Rightarrow> 0 | Some n \<Rightarrow> n)"

text \<open>The numbers given to the readers of a version, in the order they are given.\<close>

definition ids_of :: "(progress_key \<times> int) list \<Rightarrow> progress_key \<Rightarrow> int list" where
  "ids_of ids k = map snd (filter (\<lambda>(k', r). k' = k \<and> r \<noteq> -1) ids)"

definition readers_ok :: "(progress_key, int) omap \<Rightarrow> bool" where
  "readers_ok counts \<longleftrightarrow> om_ok counts \<and>
     (\<forall>k n. om_get counts k = Some n \<longrightarrow> 0 < n \<and> n \<le> MAX_PROGRESS_READERS)"

lemma readers_ok_bounds:
  "readers_ok counts \<Longrightarrow> 0 \<le> num_readers counts k \<and> num_readers counts k \<le> MAX_PROGRESS_READERS"
  by (auto simp: readers_ok_def num_readers_def MAX_PROGRESS_READERS_def split: option.split)
    (meson less_imp_le)+

lemma num_readers_put [simp]:
  "num_readers (om_put k n counts) l = (if k = l then n else num_readers counts l)"
  by (simp add: num_readers_def)

lemma ids_of_Nil [simp]: "ids_of [] k = []"
  by (simp add: ids_of_def)

lemma ids_of_append [simp]: "ids_of (xs @ ys) k = ids_of xs k @ ids_of ys k"
  by (simp add: ids_of_def)

lemma ids_of_Cons:
  "ids_of ((l, r) # ids) k = (if l = k \<and> r \<noteq> -1 then r # ids_of ids k else ids_of ids k)"
  by (simp add: ids_of_def)

lemma assign_readers_ids:
  "assign_readers op out idx counts inputs = Inr (ids, counts') \<Longrightarrow> readers_ok counts \<Longrightarrow>
     readers_ok counts' \<and> (\<forall>k. num_readers counts k \<le> num_readers counts' k \<and>
       ids_of ids k = [num_readers counts k..num_readers counts' k - 1])"
proof (induction op out idx counts inputs arbitrary: ids counts' rule: assign_readers.induct)
  case (1 op out idx counts)
  then show ?case by simp
next
  case (2 op out idx counts input inputs)
  let ?self = "op = D2DReduce \<and> idx = 1 \<and> sameBaseKey input out"
  show ?case
  proof (cases ?self)
    case True
    then obtain ids1 where
      a: "assign_readers op out (idx + 1) counts inputs = Inr (ids1, counts')"
      and ids: "ids = (input, -1) # ids1"
      using "2.prems"(1) by (auto simp: sbind_Inr_iff)
    show ?thesis using "2.IH"(1)[OF True a "2.prems"(2)] by (simp add: ids ids_of_Cons)
  next
    case False
    define n where "n = num_readers counts input"
    have nn: "0 \<le> n" using readers_ok_bounds[OF "2.prems"(2)] by (simp add: n_def)
    have n': "(case om_get counts input of None \<Rightarrow> 0 | Some n \<Rightarrow> n) = n"
      by (simp add: n_def num_readers_def)
    have lt: "n < MAX_PROGRESS_READERS"
      and rng: "\<not> (pk_space input = PS_HOST \<and> \<not> meta_in_range (pk_owner input) (pk_chunk input))"
      using "2.prems"(1) False n' by (auto simp: Let_def split: if_splits)
    obtain ids1 where
      a: "assign_readers op out (idx + 1) (om_put input (n + 1) counts) inputs = Inr (ids1, counts')"
      and ids: "ids = (input, n) # ids1"
      using "2.prems"(1) False lt rng n' by (auto simp: Let_def sbind_Inr_iff)
    have ok1: "readers_ok (om_put input (n + 1) counts)"
      using "2.prems"(2) nn lt by (auto simp: readers_ok_def)
    have ih: "readers_ok counts' \<and> (\<forall>k. num_readers (om_put input (n + 1) counts) k \<le> num_readers counts' k \<and>
        ids_of ids1 k = [num_readers (om_put input (n + 1) counts) k..num_readers counts' k - 1])"
      using "2.IH"(2)[OF False refl, unfolded n', OF _ rng a ok1] lt by simp
    have "num_readers counts k \<le> num_readers counts' k \<and>
        ids_of ids k = [num_readers counts k..num_readers counts' k - 1]" for k
    proof (cases "input = k")
      case True
      then have "n + 1 \<le> num_readers counts' k" "ids_of ids1 k = [n + 1..num_readers counts' k - 1]"
        using spec[OF conjunct2[OF ih], of k] by simp_all
      then show ?thesis using True nn upto_rec1[of n "num_readers counts' k - 1"]
        by (simp add: ids ids_of_Cons n_def)
    next
      case False
      then show ?thesis using spec[OF conjunct2[OF ih], of k] by (simp add: ids ids_of_Cons)
    qed
    then show ?thesis using ih by blast
  qed
qed

lemma upto_join: "(a :: int) \<le> b \<Longrightarrow> b \<le> c \<Longrightarrow> [a..b - 1] @ [b..c - 1] = [a..c - 1]"
  using upto_split2[of a "b - 1" "c - 1"] by (cases "a = b") simp_all

lemma resolve_all_readers:
  assumes "resolve_all ve final vs insts = Inr (rs, vs')" and "readers_ok (vs_readers vs)"
  shows "readers_ok (vs_readers vs') \<and>
    (\<forall>k. num_readers (vs_readers vs) k \<le> num_readers (vs_readers vs') k \<and>
      ids_of (concat (map r_inputs rs)) k =
        [num_readers (vs_readers vs) k..num_readers (vs_readers vs') k - 1])"
  using assms
proof (induction insts arbitrary: vs rs)
  case Nil
  then show ?case by simp
next
  case (Cons inst insts)
  from Cons.prems(1) obtain r vs1 rs1 where
    r: "resolve_inst ve final vs inst = Inr (r, vs1)"
    and rest: "resolve_all ve final vs1 insts = Inr (rs1, vs')" and rs: "rs = r # rs1"
    by (auto simp: sbind_Inr_iff)
  from r obtain out inputs where
    a: "assign_readers (i_op inst) out 0 (vs_readers vs) inputs = Inr (r_inputs r, vs_readers vs1)"
    by (auto simp: resolve_inst_def sbind_Inr_iff split: prod.splits)
  note step = assign_readers_ids[OF a Cons.prems(2)]
  note ih = Cons.IH[OF rest conjunct1[OF step]]
  have "num_readers (vs_readers vs) k \<le> num_readers (vs_readers vs') k \<and>
      ids_of (concat (map r_inputs rs)) k =
        [num_readers (vs_readers vs) k..num_readers (vs_readers vs') k - 1]" for k
  proof -
    have 1: "num_readers (vs_readers vs) k \<le> num_readers (vs_readers vs1) k"
      "ids_of (r_inputs r) k = [num_readers (vs_readers vs) k..num_readers (vs_readers vs1) k - 1]"
      using step by blast+
    have 2: "num_readers (vs_readers vs1) k \<le> num_readers (vs_readers vs') k"
      "ids_of (concat (map r_inputs rs1)) k =
         [num_readers (vs_readers vs1) k..num_readers (vs_readers vs') k - 1]"
      using ih by blast+
    show ?thesis using 1 2 upto_join[OF 1(1) 2(1)] by (simp add: rs)
  qed
  then show ?case using ih by blast
qed

end
