(* ===== verification/CompilerLemmas.thy ===== *)
theory CompilerLemmas
  imports Compiler VersionLemmas "HOL-Library.Multiset"
begin

text \<open>
  Lemmas on \<^verbatim>\<open>compileGraph\<close>: a compiled graph is the rank-independent versioning pass,
  filtered by execution rank, followed by the copy-back nodes, so that what is proved of
  the pass carries over to the graphs of all ranks.
\<close>

section \<open>The parts of a compiled graph\<close>

definition node_frame :: "compiled_graph \<Rightarrow> compiled_graph \<Rightarrow> bool" where
  "node_frame g h \<longleftrightarrow> g_chunk_size g = g_chunk_size h \<and> g_layout g = g_layout h \<and>
     g_input_chunk_count g = g_input_chunk_count h \<and> g_output_chunk_count g = g_output_chunk_count h"

lemma node_frame_refl [simp]: "node_frame g g"
  by (simp add: node_frame_def)

lemma node_frame_trans: "node_frame g h \<Longrightarrow> node_frame h i \<Longrightarrow> node_frame g i"
  by (simp add: node_frame_def)

lemma chunkBytesForKey_frame: "node_frame g h \<Longrightarrow> chunkBytesForKey k g = chunkBytesForKey k h"
  by (simp add: chunkBytesForKey_def node_frame_def Let_def)

lemma mk_node_frame: "node_frame g h \<Longrightarrow> mk_node push meta g r = mk_node push meta h r"
  by (simp add: mk_node_def chunkBytesForKey_frame cong: prod.case_cong)

lemma emit_node_frame [simp]: "node_frame (emit_node push meta rank g r) g"
  by (simp add: emit_node_def node_frame_def Let_def)

lemma emit_fold:
  "g_nodes (foldl (emit_node push meta rank) g rs) =
     g_nodes g @ map (mk_node push meta g) (filter (executes_on push rank) rs) \<and>
   node_frame (foldl (emit_node push meta rank) g rs) g \<and>
   g_terminal_outputs (foldl (emit_node push meta rank) g rs) = g_terminal_outputs g"
proof (induction rs arbitrary: g)
  case Nil
  then show ?case by simp
next
  case (Cons r rs)
  have f: "mk_node push meta (emit_node push meta rank g r) = mk_node push meta g"
    using mk_node_frame[OF emit_node_frame] by blast
  have n: "g_nodes (emit_node push meta rank g r) =
      g_nodes g @ (if executes_on push rank r then [mk_node push meta g r] else [])"
    "g_terminal_outputs (emit_node push meta rank g r) = g_terminal_outputs g"
    by (simp_all add: emit_node_def Let_def)
  show ?case
    using Cons.IH[of "emit_node push meta rank g r"] node_frame_trans[OF _ emit_node_frame]
    by (auto simp: f n)
qed

section \<open>Terminal outputs\<close>

text \<open>After the pass the map holds, for each chunk, its last version (or nothing, if unwritten).\<close>

definition settled :: "version_env \<Rightarrow> key_map \<Rightarrow> progress_key \<Rightarrow> bool" where
  "settled ve lat b \<longleftrightarrow>
     (case om_get lat b of None \<Rightarrow> all_writes ve b = 0
      | Some k \<Rightarrow> k = with_version b (int (all_writes ve b)))"

definition last_version :: "version_env \<Rightarrow> progress_key \<Rightarrow> progress_key" where
  "last_version ve b = with_version b (int (all_writes ve b))"

lemma settled_tracks:
  assumes "tracks ve init (p_all_instructions (ve_program ve)) lat" and "base_key b = b"
  shows "settled ve lat b"
  using tracks_NoneD(1)[OF assms] tracks_SomeD(2)[OF assms(1), of b]
  by (auto simp: settled_def split: option.split)

lemma latest_settled:
  assumes "settled ve lat b" and "base_key k = b"
    and l: "latest (final_produced ve) lat k = (k', lat')"
  shows "k' = last_version ve b" and "om_get lat' c = None \<Longrightarrow> om_get lat c = None"
    and "settled ve lat c \<Longrightarrow> settled ve lat' c"
proof -
  have bb: "base_key b = b" using assms(2) by auto
  show "k' = last_version ve b"
    using assms bb
    by (cases "om_get lat b") (auto simp: settled_def latest_def Let_def final_produced_get last_version_def)
  show "om_get lat' c = None \<Longrightarrow> om_get lat c = None"
    using l by (auto simp: latest_def Let_def om_get_emplace split: option.splits if_splits)
  show "settled ve lat' c" if "settled ve lat c"
  proof (cases "om_get lat b")
    case None
    then have "all_writes ve b = 0" using assms(1) by (simp add: settled_def)
    then have "lat' = om_put b b lat"
      using l None assms(2) by (auto simp: latest_def Let_def final_produced_get om_emplace_def)
    then show ?thesis using that bb \<open>all_writes ve b = 0\<close> by (auto simp: settled_def)
  next
    case (Some x)
    then have "lat' = lat" using l assms(2) by (auto simp: latest_def Let_def)
    then show ?thesis using that by simp
  qed
qed

lemma produce_settled:
  assumes "settled ve lat b" and "base_key k = b" and p: "produce lat k = (k', lat')"
  shows "k' = with_version b (int (all_writes ve b) + 1)"
    and "c \<noteq> b \<Longrightarrow> settled ve lat c \<Longrightarrow> settled ve lat' c"
proof -
  have wv: "with_version k v = with_version b v" for v using assms(2) by auto
  have bb: "base_key b = b" using assms(2) by auto
  show "k' = with_version b (int (all_writes ve b) + 1)"
    using assms(1,2) p by (cases "om_get lat b") (auto simp: settled_def produce_def Let_def wv bb)
  show "settled ve lat' c" if "c \<noteq> b" "settled ve lat c"
    using p assms(2) that by (auto simp: produce_def Let_def settled_def wv bb)
qed

definition out_base :: "int \<Rightarrow> nat \<Rightarrow> progress_key" where
  "out_base rank c = deviceKey OUTPUT rank (int c) 0"

definition terminal_key :: "version_env \<Rightarrow> bool list \<Rightarrow> int \<Rightarrow> nat \<Rightarrow> progress_key" where
  "terminal_key ve row rank c =
     with_version (out_base rank c) (int (all_writes ve (out_base rank c)) + (if row ! c then 1 else 0))"

definition copyback_of ::
  "version_env \<Rightarrow> in_place_alias_mode \<Rightarrow> bool list \<Rightarrow> int \<Rightarrow> compiled_graph \<Rightarrow> nat \<Rightarrow> instruction_node" where
  "copyback_of ve mode row rank g c =
     copyback_node rank g (last_version ve (deviceKey INTERNAL rank (int c) 0))
       (if mode = SameBase \<and> int c < g_input_chunk_count g
        then last_version ve (deviceKey INPUT rank (int c) 0)
        else last_version ve (out_base rank c))
       (terminal_key ve row rank c)"

definition terminal_bases :: "int \<Rightarrow> nat \<Rightarrow> progress_key set" where
  "terminal_bases rank c = {out_base rank c, deviceKey INTERNAL rank (int c) 0, deviceKey INPUT rank (int c) 0}"

lemma device_key_eq [simp]:
  "deviceKey k r c v = deviceKey k' r' c' v' \<longleftrightarrow> k = k' \<and> r = r' \<and> c = c' \<and> v = v'"
  by (simp add: deviceKey_def)

lemma terminal_step_spec:
  assumes s: "\<And>b. b \<in> terminal_bases rank c \<Longrightarrow> settled ve lat b"
    and t: "terminal_step (final_produced ve) mode row rank (g, lat) c = (g', lat')"
  shows "g_nodes g' = g_nodes g @ (if row ! c then [copyback_of ve mode row rank g c] else [])"
    and "g_terminal_outputs g' = g_terminal_outputs g @ [terminal_key ve row rank c]"
    and "node_frame g' g"
    and "settled ve lat b \<Longrightarrow> b \<noteq> out_base rank c \<Longrightarrow> settled ve lat' b"
proof -
  let ?o = "out_base rank c" and ?i = "deviceKey INPUT rank (int c) 0"
    and ?n = "deviceKey INTERNAL rank (int c) 0"
  have so: "settled ve lat ?o" and si: "settled ve lat ?i" and sn: "settled ve lat ?n"
    using s by (simp_all add: terminal_bases_def)
  have bo: "base_key ?o = ?o" and bi: "base_key ?i = ?i" and bn: "base_key ?n = ?n"
    by (simp_all add: out_base_def)
  obtain vis lat1 where l1: "latest (final_produced ve) lat ?o = (vis, lat1)" by fastforce
  note L1 = latest_settled[OF so bo l1]
  obtain staged lat2 where l2: "latest (final_produced ve) lat1 ?n = (staged, lat2)" by fastforce
  note L2 = latest_settled[OF L1(3)[OF sn] bn l2]
  obtain oldi lat3i where l3: "latest (final_produced ve) lat2 ?i = (oldi, lat3i)" by fastforce
  note L3 = latest_settled[OF L2(3)[OF L1(3)[OF si]] bi l3]
  define inp where "inp \<longleftrightarrow> mode = SameBase \<and> int c < g_input_chunk_count g"
  define lat3 where "lat3 = (if inp then lat3i else lat2)"
  obtain cb lat4 where p: "produce lat3 ?o = (cb, lat4)" by fastforce
  have s3: "settled ve lat3 b" if "settled ve lat b" for b
    using that L1(3) L2(3) L3(3) by (simp add: lat3_def)
  note P = produce_settled[OF s3[OF so] bo p]
  have ob: "deviceKey OUTPUT rank (int c) 0 = ?o" by (simp add: out_base_def)
  have e: "terminal_step (final_produced ve) mode row rank (g, lat) c =
     (if row ! c then
        (g\<lparr>g_nodes := g_nodes g @ [copyback_node rank g staged (if inp then oldi else vis) cb],
           g_terminal_outputs := g_terminal_outputs g @ [cb],
           g_active_keys := foldl addUniqueKey (g_active_keys g)
              [staged, if inp then oldi else vis, cb]\<rparr>, lat4)
      else (g\<lparr>g_terminal_outputs := g_terminal_outputs g @ [vis],
              g_active_keys := addUniqueKey (g_active_keys g) vis\<rparr>, lat1))"
    using p by (cases inp) (simp_all add: terminal_step_def ob l1 l2 l3 Let_def lat3_def flip: inp_def)
  have k: "cb = with_version ?o (int (all_writes ve ?o) + 1)" "vis = last_version ve ?o"
    "staged = last_version ve ?n" "oldi = last_version ve ?i"
    using P(1) L1(1) L2(1) L3(1) by simp_all
  show "g_nodes g' = g_nodes g @ (if row ! c then [copyback_of ve mode row rank g c] else [])"
    using t unfolding e
    by (auto simp: copyback_of_def k inp_def terminal_key_def split: if_splits)
  show "g_terminal_outputs g' = g_terminal_outputs g @ [terminal_key ve row rank c]"
    using t unfolding e by (auto simp: k terminal_key_def last_version_def split: if_splits)
  show "node_frame g' g" using t unfolding e by (auto simp: node_frame_def split: if_splits)
  show "settled ve lat' b" if "settled ve lat b" "b \<noteq> ?o"
    using t s3[OF that(1)] P(2)[OF that(2)] L1(3)[OF that(1)] unfolding e by (auto split: if_splits)
qed

lemma copyback_of_frame:
  "node_frame g h \<Longrightarrow> copyback_of ve mode row rank g c = copyback_of ve mode row rank h c"
  by (simp add: copyback_of_def copyback_node_def chunkBytesForKey_frame)
    (auto simp: node_frame_def)

lemma terminal_fold_spec:
  assumes "\<And>b c. c \<in> set cs \<Longrightarrow> b \<in> terminal_bases rank c \<Longrightarrow> settled ve lat b"
    and "distinct cs"
    and "foldl (terminal_step (final_produced ve) mode row rank) (g, lat) cs = (g', lat')"
  shows "g_nodes g' = g_nodes g @ map (copyback_of ve mode row rank g) (filter (\<lambda>c. row ! c) cs) \<and>
    g_terminal_outputs g' = g_terminal_outputs g @ map (terminal_key ve row rank) cs \<and> node_frame g' g"
  using assms
proof (induction cs arbitrary: g lat)
  case Nil
  then show ?case by simp
next
  case (Cons c cs)
  obtain g1 lat1 where t: "terminal_step (final_produced ve) mode row rank (g, lat) c = (g1, lat1)"
    by fastforce
  have s: "\<And>b. b \<in> terminal_bases rank c \<Longrightarrow> settled ve lat b"
    using Cons.prems(1)[of c] by simp
  note step = terminal_step_spec[OF s t]
  have s1: "settled ve lat1 b" if "d \<in> set cs" "b \<in> terminal_bases rank d" for b d
  proof -
    have "b \<noteq> out_base rank c"
      using that Cons.prems(2) by (auto simp: terminal_bases_def out_base_def)
    then show ?thesis using step(4) Cons.prems(1)[of d b] that by simp
  qed
  have r: "foldl (terminal_step (final_produced ve) mode row rank) (g1, lat1) cs = (g', lat')"
    using Cons.prems(3) t by simp
  have "distinct cs" using Cons.prems(2) by simp
  note ih = Cons.IH[OF s1 this r]
  have "copyback_of ve mode row rank g1 = copyback_of ve mode row rank g"
    using copyback_of_frame[OF step(3)] by blast
  then show ?case using ih step(1,2) node_frame_trans[OF _ step(3)] by auto
qed

section \<open>The structure of a compiled graph\<close>

text \<open>
  The compiled graph of a rank: the frame \<open>f\<close> gives the sizes, \<open>rs\<close> is the pass over the
  whole program, and \<open>final\<close> is the order in which the nodes are stored.
\<close>

definition compiled_from ::
  "pccl_env \<Rightarrow> ir_program \<Rightarrow> int \<Rightarrow> int \<Rightarrow> graph_options \<Rightarrow> compiled_graph \<Rightarrow>
   meta_table \<Rightarrow> resolved list \<Rightarrow> version_state \<Rightarrow> compiled_graph \<Rightarrow> bool" where
  "compiled_from env program rank world_size gopts f meta rs vs g \<longleftrightarrow>
     (let ve = version_env_of program world_size gopts;
          row = ve_stage ve ! nat rank;
          mode = in_place_mode (legacy_layout gopts);
          nodes = map (mk_node (enableRemoteD2DPush (d2d_push_env env)) meta f)
                    (filter (executes_on (enableRemoteD2DPush (d2d_push_env env)) rank) rs) @
                  map (copyback_of ve mode row rank f)
                    (filter (\<lambda>c. row ! c) [0..<nat (p_output_chunk_count program)])
      in node_frame f (graph_skeleton env program rank world_size gopts) \<and>
         node_frame g f \<and>
         host_meta_of (staging_ring_of env (start_graph env program rank world_size gopts))
           (p_all_instructions program) = Inr meta \<and>
         resolve_all ve (final_produced ve)
           \<lparr>vs_latest = initial_latest program rank world_size, vs_readers = []\<rparr>
           (p_all_instructions program) = Inr (rs, vs) \<and>
         g_terminal_outputs g = map (terminal_key ve row rank) [0..<nat (p_output_chunk_count program)] \<and>
         g_reader_assignment g = reader_assignment_of meta (vs_readers vs) \<and>
         (\<exists>prio. g_nodes g = (if prio then sort_key nodeScheduleClass else id)
            (map (mark_terminal (g_terminal_outputs g)) nodes)))"

lemma skeleton_sel:
  "g_output_chunk_count (graph_skeleton env program rank w gopts) = p_output_chunk_count program"
  "g_nodes (graph_skeleton env program rank w gopts) = []"
  "g_terminal_outputs (graph_skeleton env program rank w gopts) = []"
  "g_chunk_size (graph_skeleton env program rank w gopts) = g_chunk_size (graph_skeleton env program q w gopts)"
  "g_num_subchunks (graph_skeleton env program rank w gopts) = g_num_subchunks (graph_skeleton env program q w gopts)"
  unfolding graph_skeleton_def Let_def by (simp_all only: compiled_graph.select_convs)

lemma emit_fold_readers:
  "g_reader_assignment (foldl (emit_node push meta rank) g rs) = g_reader_assignment g"
  by (induction rs arbitrary: g) (simp_all add: emit_node_def Let_def)

lemma terminal_fold_readers:
  "g_reader_assignment (fst (foldl (terminal_step final mode row rank) st cs)) = g_reader_assignment (fst st)"
proof (induction cs arbitrary: st)
  case Nil
  then show ?case by simp
next
  case (Cons c cs)
  have "g_reader_assignment (fst (terminal_step final mode row rank st c)) = g_reader_assignment (fst st)"
    by (cases st) (simp add: terminal_step_def Let_def split: prod.splits)
  then show ?case using Cons.IH by simp
qed

lemma start_graph_frame:
  "node_frame (start_graph env program rank w gopts) (graph_skeleton env program rank w gopts)"
  "g_nodes (start_graph env program rank w gopts) = []"
  "g_terminal_outputs (start_graph env program rank w gopts) = []"
  "g_output_chunk_count (start_graph env program rank w gopts) = p_output_chunk_count program"
  by (simp_all add: start_graph_def node_frame_def Let_def skeleton_sel(1-3))

lemma node_frame_readers [simp]: "node_frame (g\<lparr>g_reader_assignment := x\<rparr>) h = node_frame g h"
  by (simp add: node_frame_def)

lemma finish_graph_spec:
  assumes s: "\<And>b c. b \<in> terminal_bases rank c \<Longrightarrow> settled ve lat b"
    and mode_def: "mode = in_place_mode (legacy_layout gopts)"
    and cs_def: "cs = [0..<nat (g_output_chunk_count g)]"
    and h_def: "h = finish_graph env gopts (final_produced ve) row rank g lat"
  shows "g_terminal_outputs h = g_terminal_outputs g @ map (terminal_key ve row rank) cs"
    and "node_frame h g" and "g_reader_assignment h = g_reader_assignment g"
    and "\<exists>prio. g_nodes h = (if prio then sort_key nodeScheduleClass else id)
           (map (mark_terminal (g_terminal_outputs h))
             (g_nodes g @ map (copyback_of ve mode row rank g) (filter (\<lambda>c. row ! c) cs)))"
proof -
  obtain g2 lat2 where
    f: "foldl (terminal_step (final_produced ve) mode row rank) (g, lat) cs = (g2, lat2)" by fastforce
  have "distinct cs" by (simp add: cs_def)
  note T = terminal_fold_spec[OF s this f]
  have ra: "g_reader_assignment g2 = g_reader_assignment g"
    using terminal_fold_readers[of "final_produced ve" mode row rank "(g, lat)" cs] f by simp
  define prio where "prio \<longleftrightarrow> (case envOverridesD2DInputFirst (d2d_input_first_env env) of
      None \<Rightarrow> prioritize_input_d2d gopts | Some b \<Rightarrow> b) \<and> g_has_remote_d2d g2"
  have h: "h = g2\<lparr>g_nodes := (if prio then sort_key nodeScheduleClass else id)
        (map (mark_terminal (g_terminal_outputs g2)) (g_nodes g2)),
      g_active_keys := foldl addUniqueKey (g_active_keys g2) (g_terminal_outputs g2)\<rparr>"
    by (simp add: h_def finish_graph_def f[unfolded mode_def cs_def] Let_def prio_def)
  show "g_terminal_outputs h = g_terminal_outputs g @ map (terminal_key ve row rank) cs"
    "g_reader_assignment h = g_reader_assignment g"
    using T ra by (simp_all add: h)
  show "node_frame h g" using T by (simp add: h node_frame_def)
  show "\<exists>prio. g_nodes h = (if prio then sort_key nodeScheduleClass else id)
           (map (mark_terminal (g_terminal_outputs h))
             (g_nodes g @ map (copyback_of ve mode row rank g) (filter (\<lambda>c. row ! c) cs)))"
    using T by (intro exI[of _ prio]) (simp add: h)
qed

lemma compile_structure:
  assumes "compileGraph env program rank w gopts = Inr g"
  obtains f meta rs vs where "0 \<le> rank" "rank < w"
    "compiled_from env program rank w gopts f meta rs vs g"
proof -
  let ?push = "enableRemoteD2DPush (d2d_push_env env)"
  define ve where "ve = version_env_of program w gopts"
  define g0 where "g0 = start_graph env program rank w gopts"
  have r: "0 \<le> rank" "rank < w"
    using assms by (simp_all add: compileGraph_def split: if_splits)
  then obtain meta rs vs where
    m: "host_meta_of (staging_ring_of env g0) (p_all_instructions program) = Inr meta"
    and rs: "resolve_all ve (final_produced ve) (initial_versions program rank w)
           (p_all_instructions program) = Inr (rs, vs)"
    and g: "g = assemble_graph env program rank w gopts meta rs vs"
    using assms unfolding compileGraph_def ve_def g0_def by (auto simp: sbind_Inr_iff)
  have init: "initial_versions program rank w = \<lparr>vs_latest = initial_latest program rank w, vs_readers = []\<rparr>"
    by (simp add: initial_versions_def initial_latest_def)
  have vp: "ve_program ve = program" by (simp add: ve_def version_env_of_def)
  have t0: "tracks ve (input_bases program w) [] (vs_latest (initial_versions program rank w))"
    using initial_tracks[OF r] by (simp add: init)
  note spec = resolve_all_spec[OF t0 rs]
  define g1 where "g1 = (foldl (emit_node ?push meta rank) g0 rs)
      \<lparr>g_reader_assignment := reader_assignment_of meta (vs_readers vs)\<rparr>"
  note G0 = start_graph_frame[of env program rank w gopts, folded g0_def]
  have E: "g_nodes g1 = map (mk_node ?push meta g0) (filter (executes_on ?push rank) rs)"
    "node_frame g1 g0" "g_terminal_outputs g1 = []"
    using emit_fold[of ?push meta rank g0 rs] G0 by (simp_all add: g1_def)
  have oc: "g_output_chunk_count g1 = p_output_chunk_count program"
    using E(2) G0(4) by (simp add: node_frame_def)
  have s: "settled ve (vs_latest vs) b" if "b \<in> terminal_bases rank c" for b c
    using spec that by (intro settled_tracks) (auto simp: vp terminal_bases_def out_base_def)
  have h: "g = finish_graph env gopts (final_produced ve) (ve_stage ve ! nat rank) rank g1 (vs_latest vs)"
    by (simp add: g assemble_graph_def Let_def g1_def g0_def ve_def)
  note F = finish_graph_spec[OF s refl refl h, unfolded oc E(1,3)]
  have mf: "mk_node ?push meta g0 = mk_node ?push meta g1"
    by (rule ext) (rule mk_node_frame[OF E(2), symmetric])
  show ?thesis
    using r
  proof (rule that)
    show "compiled_from env program rank w gopts g1 meta rs vs g"
      unfolding compiled_from_def Let_def ve_def[symmetric]
    proof (intro conjI)
      show "node_frame g1 (graph_skeleton env program rank w gopts)"
        by (rule node_frame_trans[OF E(2) G0(1)])
      show "node_frame g g1" by (rule F(2))
      show "host_meta_of (staging_ring_of env (start_graph env program rank w gopts))
          (p_all_instructions program) = Inr meta" using m by (simp add: g0_def)
      show "resolve_all ve (final_produced ve) \<lparr>vs_latest = initial_latest program rank w, vs_readers = []\<rparr>
          (p_all_instructions program) = Inr (rs, vs)" using rs by (simp add: init)
      show "g_terminal_outputs g = map (terminal_key ve (ve_stage ve ! nat rank) rank)
          [0..<nat (p_output_chunk_count program)]" using F(1) by simp
      show "g_reader_assignment g = reader_assignment_of meta (vs_readers vs)"
        using F(3) by (simp add: g1_def)
      show "\<exists>prio. g_nodes g = (if prio then sort_key nodeScheduleClass else id)
          (map (mark_terminal (g_terminal_outputs g))
            (map (mk_node ?push meta g1) (filter (executes_on ?push rank) rs) @
             map (copyback_of ve (in_place_mode (legacy_layout gopts)) (ve_stage ve ! nat rank) rank g1)
               (filter ((!) (ve_stage ve ! nat rank)) [0..<nat (p_output_chunk_count program)])))"
        using F(4) unfolding mf .
    qed
  qed
qed

section \<open>The pass behind a set of compiled graphs\<close>

abbreviation push_of :: "pccl_env \<Rightarrow> bool" where
  "push_of env \<equiv> enableRemoteD2DPush (d2d_push_env env)"

definition exec_rank :: "bool \<Rightarrow> resolved \<Rightarrow> int" where
  "exec_rank push r = fst (placement_of push (r_inst r))"

lemma executes_on_iff: "executes_on push rank r \<longleftrightarrow> exec_rank push r = rank \<and> r_has_output r"
  by (simp add: executes_on_def exec_rank_def)

lemma staging_ring_rank:
  "staging_ring_of env (start_graph env program r w gopts) =
   staging_ring_of env (start_graph env program q w gopts)"
  using skeleton_sel(4,5)[of env program r w gopts q]
  by (simp add: staging_ring_of_def start_graph_def Let_def)

text \<open>All ranks see the same pass.\<close>

lemma compiled_from_same_pass:
  assumes "compiled_from env program r w gopts f meta rs vs g" "0 \<le> r" "r < w"
    and "compiled_from env program q w gopts f' meta' rs' vs' h" "0 \<le> q" "q < w"
  shows "meta' = meta" "rs' = rs" "vs' = vs"
  using assms initial_rank_independent[of r w q program] staging_ring_rank[of env program r w gopts q]
  by (simp_all add: compiled_from_def Let_def)

lemma n_output_mark [simp]: "n_output (mark_terminal ts n) = n_output n"
  and n_inputs_mark [simp]: "n_inputs (mark_terminal ts n) = n_inputs n"
  and n_op_mark [simp]: "n_op (mark_terminal ts n) = n_op n"
  and n_guard_mark [simp]: "n_overwrite_guard (mark_terminal ts n) = n_overwrite_guard n"
  and n_bytes_mark [simp]: "n_work_bytes (mark_terminal ts n) = n_work_bytes n"
  and n_ring_mark [simp]: "n_output_ring (mark_terminal ts n) = n_output_ring n"
  by (simp_all add: mark_terminal_def)

lemma mk_node_sel [simp]:
  "n_output (mk_node push meta f r) = r_output r"
  "n_op (mk_node push meta f r) = i_op (r_inst r)"
  "n_inputs (mk_node push meta f r) =
     map (\<lambda>(k, i). \<lparr>ni_key = k, ni_reader_id = i, ni_ring_buffered = ring_of meta k\<rparr>) (r_inputs r)"
  "n_output_ring (mk_node push meta f r) = ring_of meta (r_output r)"
  by (simp_all add: mk_node_def Let_def split: prod.splits)

lemma copyback_sel [simp]:
  "n_output (copyback_of ve mode row rank f c) = terminal_key ve row rank c"
  "n_op (copyback_of ve mode row rank f c) = D2D"
  "n_inputs (copyback_of ve mode row rank f c) =
     [\<lparr>ni_key = last_version ve (deviceKey INTERNAL rank (int c) 0), ni_reader_id = -1,
       ni_ring_buffered = False\<rparr>]"
  by (simp_all add: copyback_of_def copyback_node_def)

definition staged_chunks :: "ir_program \<Rightarrow> int \<Rightarrow> graph_options \<Rightarrow> int \<Rightarrow> nat list" where
  "staged_chunks program w gopts rank =
     filter (\<lambda>c. stage_rows gopts program w ! nat rank ! c) [0..<nat (p_output_chunk_count program)]"

definition graph_row :: "ir_program \<Rightarrow> int \<Rightarrow> graph_options \<Rightarrow> int \<Rightarrow> bool list" where
  "graph_row program w gopts rank = stage_rows gopts program w ! nat rank"

lemma version_env_sel [simp]:
  "ve_stage (version_env_of program w gopts) = stage_rows gopts program w"
  "ve_program (version_env_of program w gopts) = program"
  "ve_world (version_env_of program w gopts) = w"
  "ve_opts (version_env_of program w gopts) = legacy_layout gopts"
  by (simp_all add: version_env_of_def)

lemma compiled_nodes_mset:
  assumes "compiled_from env program rank w gopts f meta rs vs g"
  shows "mset (g_nodes g) = image_mset (mark_terminal (g_terminal_outputs g))
     (image_mset (mk_node (push_of env) meta f) (mset (filter (executes_on (push_of env) rank) rs)) +
      image_mset (copyback_of (version_env_of program w gopts) (in_place_mode (legacy_layout gopts))
          (graph_row program w gopts rank) rank f) (mset (staged_chunks program w gopts rank)))"
proof -
  from assms obtain prio where
    "g_nodes g = (if prio then sort_key nodeScheduleClass else id)
      (map (mark_terminal (g_terminal_outputs g))
        (map (mk_node (push_of env) meta f) (filter (executes_on (push_of env) rank) rs) @
         map (copyback_of (version_env_of program w gopts) (in_place_mode (legacy_layout gopts))
            (graph_row program w gopts rank) rank f) (staged_chunks program w gopts rank)))"
    unfolding compiled_from_def Let_def graph_row_def staged_chunks_def by auto
  then show ?thesis by (simp add: image_mset_union multiset.map_comp)
qed

lemma compiled_node_cases:
  assumes c: "compiled_from env program rank w gopts f meta rs vs g" and n: "n \<in> set (g_nodes g)"
  obtains r where "r \<in> set rs" "executes_on (push_of env) rank r"
      "n = mark_terminal (g_terminal_outputs g) (mk_node (push_of env) meta f r)"
  | c where "c \<in> set (staged_chunks program w gopts rank)"
      "n = mark_terminal (g_terminal_outputs g)
        (copyback_of (version_env_of program w gopts) (in_place_mode (legacy_layout gopts))
          (graph_row program w gopts rank) rank f c)"
proof -
  have "n \<in># mset (g_nodes g)" using n by simp
  then show ?thesis unfolding compiled_nodes_mset[OF c] using that by auto
qed

lemma compiled_node_of_resolved:
  assumes c: "compiled_from env program rank w gopts f meta rs vs g"
    and r: "r \<in> set rs" "executes_on (push_of env) rank r"
  shows "mark_terminal (g_terminal_outputs g) (mk_node (push_of env) meta f r) \<in> set (g_nodes g)"
proof -
  have "mark_terminal (g_terminal_outputs g) (mk_node (push_of env) meta f r) \<in># mset (g_nodes g)"
    unfolding compiled_nodes_mset[OF c] using r by simp
  then show ?thesis by simp
qed

lemma compiled_outputs_mset:
  assumes "compiled_from env program rank w gopts f meta rs vs g"
  shows "mset (map n_output (g_nodes g)) =
     mset (map r_output (filter (executes_on (push_of env) rank) rs)) +
     mset (map (terminal_key (version_env_of program w gopts) (graph_row program w gopts rank) rank)
       (staged_chunks program w gopts rank))"
  by (simp only: mset_map compiled_nodes_mset[OF assms] image_mset_union multiset.map_comp comp_def
      n_output_mark mk_node_sel copyback_sel)

text \<open>The pass of a compiled graph is specified by the counts of writes.\<close>

lemma compiled_resolved_ok:
  assumes "compiled_from env program rank w gopts f meta rs vs g" "0 \<le> rank" "rank < w"
  shows "length rs = length (p_all_instructions program)"
    and "j < length (p_all_instructions program) \<Longrightarrow>
      resolved_ok (version_env_of program w gopts) (input_bases program w)
        (take j (p_all_instructions program)) (p_all_instructions program ! j) (rs ! j)"
proof -
  let ?ve = "version_env_of program w gopts"
  have t: "tracks ?ve (input_bases program w) []
      (vs_latest \<lparr>vs_latest = initial_latest program rank w, vs_readers = []\<rparr>)"
    using initial_tracks[OF assms(2,3)] by simp
  have r: "resolve_all ?ve (final_produced ?ve)
      \<lparr>vs_latest = initial_latest program rank w, vs_readers = []\<rparr> (p_all_instructions program) = Inr (rs, vs)"
    using assms(1) by (simp add: compiled_from_def Let_def)
  from resolve_all_spec[OF t r]
  show "length rs = length (p_all_instructions program)"
    and "j < length (p_all_instructions program) \<Longrightarrow>
      resolved_ok ?ve (input_bases program w)
        (take j (p_all_instructions program)) (p_all_instructions program ! j) (rs ! j)"
    by simp_all
qed

lemma writes_take_le: "writes ve (take j insts) b \<le> writes ve insts b"
  using writes_append[of ve "take j insts" "drop j insts" b] by simp

lemma compiled_output_form:
  assumes c: "compiled_from env program rank w gopts f meta rs vs g" "0 \<le> rank" "rank < w"
    and r: "r \<in> set rs" "r_has_output r"
  obtains b v where "r_output r = with_version b (int v + 1)" "base_key b = b"
    "v < all_writes (version_env_of program w gopts) b"
proof -
  let ?ve = "version_env_of program w gopts" and ?insts = "p_all_instructions program"
  note ok = compiled_resolved_ok[OF c]
  obtain j where j: "j < length ?insts" "rs ! j = r"
    using r(1) ok(1) by (auto simp: in_set_conv_nth)
  obtain b where b: "produced_base_for_inst ?ve (?insts ! j) = Some b"
    using resolved_output(1)[OF ok(2)[OF j(1)]] r(2) j(2) by auto
  have "writes ?ve (take j ?insts) b < writes ?ve (take (Suc j) ?insts) b"
    using writes_take_lt[OF _ _ b, of "Suc j"] j(1) by simp
  also have "\<dots> \<le> writes ?ve ?insts b" by (rule writes_take_le)
  finally show ?thesis
    using that[of b "writes ?ve (take j ?insts) b"] resolved_output(2)[OF ok(2)[OF j(1)] b]
      produced_base_version[OF b] j(2) by simp
qed

lemma terminal_key_eq:
  "terminal_key ve row r c = terminal_key ve row' q d \<Longrightarrow> r = q \<and> c = d"
  using with_version_eq_iff by (fastforce simp: terminal_key_def out_base_def)

lemma terminal_not_instruction_output:
  assumes c: "compiled_from env program rank w gopts f meta rs vs g" "0 \<le> rank" "rank < w"
    and r: "r \<in> set rs" "r_has_output r"
    and cc: "k \<in> set (staged_chunks program w gopts q)"
  shows "r_output r \<noteq> terminal_key (version_env_of program w gopts) (graph_row program w gopts q) q k"
proof -
  obtain b v where b: "r_output r = with_version b (int v + 1)" "base_key b = b"
    "v < all_writes (version_env_of program w gopts) b"
    using compiled_output_form[OF c r] .
  have row: "graph_row program w gopts q ! k"
    using cc by (simp add: staged_chunks_def graph_row_def)
  show ?thesis
  proof
    assume e: "r_output r = terminal_key (version_env_of program w gopts) (graph_row program w gopts q) q k"
    then have "with_version b (int v + 1) = with_version (out_base q k)
        (int (all_writes (version_env_of program w gopts) (out_base q k)) + 1)"
      using row b(1) by (simp add: terminal_key_def)
    from this[THEN iffD1[OF with_version_eq_iff]] b show False by (auto simp: out_base_def)
  qed
qed

lemma distinct_map_filter_sub:
  assumes "distinct (map f (filter P xs))" and "\<And>x. Q x \<Longrightarrow> P x"
  shows "distinct (map f (filter Q xs))"
proof -
  have "filter Q xs = filter Q (filter P xs)"
    using assms(2) by (induction xs) auto
  then show ?thesis using distinct_map_filter[OF assms(1)] by simp
qed

lemma exec_output_distinct:
  assumes c: "compiled_from env program rank w gopts f meta rs vs g" "0 \<le> rank" "rank < w"
  shows "distinct (map r_output (filter r_has_output rs))"
  using ssa_distinct compiled_resolved_ok[OF c] by blast

lemma same_output_same_resolved:
  assumes "distinct (map r_output (filter r_has_output rs))"
    and "r \<in> set rs" "s \<in> set rs" "r_has_output r" "r_has_output s" "r_output r = r_output s"
  shows "r = s"
proof -
  have "inj_on r_output (set (filter r_has_output rs))"
    using assms(1) by (simp add: distinct_map)
  then show ?thesis using assms(2-) by (auto dest: inj_onD)
qed

lemma compiled_outputs_distinct:
  assumes c: "compiled_from env program rank w gopts f meta rs vs g" "0 \<le> rank" "rank < w"
  shows "distinct (map n_output (g_nodes g))"
proof -
  let ?e = "map r_output (filter (executes_on (push_of env) rank) rs)"
  let ?t = "map (terminal_key (version_env_of program w gopts) (graph_row program w gopts rank) rank)
      (staged_chunks program w gopts rank)"
  have "distinct ?e"
    by (rule distinct_map_filter_sub[OF exec_output_distinct[OF c]]) (simp add: executes_on_iff)
  moreover have "distinct ?t"
    by (auto simp: distinct_map staged_chunks_def inj_on_def dest: terminal_key_eq)
  moreover have "set ?e \<inter> set ?t = {}"
    using terminal_not_instruction_output[OF c] by (fastforce simp: executes_on_iff)
  ultimately have "distinct (?e @ ?t)" by simp
  moreover have "mset (map n_output (g_nodes g)) = mset (?e @ ?t)"
    using compiled_outputs_mset[OF c(1)] by simp
  ultimately show ?thesis using mset_eq_imp_distinct_iff by blast
qed

lemma disjoint_unions:
  "A \<inter> C = {} \<Longrightarrow> A \<inter> D = {} \<Longrightarrow> C \<inter> B = {} \<Longrightarrow> B \<inter> D = {} \<Longrightarrow> (A \<union> B) \<inter> (C \<union> D) = {}"
  by blast

lemma compiled_outputs_disjoint:
  assumes c: "compiled_from env program r w gopts f meta rs vs g" "0 \<le> r" "r < w"
    and d: "compiled_from env program q w gopts f' meta' rs' vs' h" "0 \<le> q" "q < w" and "r \<noteq> q"
  shows "set (map n_output (g_nodes g)) \<inter> set (map n_output (g_nodes h)) = {}"
proof -
  note same = compiled_from_same_pass[OF c d]
  let ?E = "\<lambda>r. r_output ` {x \<in> set rs. executes_on (push_of env) r x}"
  let ?T = "\<lambda>r. terminal_key (version_env_of program w gopts) (graph_row program w gopts r) r `
      set (staged_chunks program w gopts r)"
  have g: "set (map n_output (g_nodes g)) = ?E r \<union> ?T r"
    using arg_cong[OF compiled_outputs_mset[OF c(1)], of set_mset] by auto
  have h: "set (map n_output (g_nodes h)) = ?E q \<union> ?T q"
    using arg_cong[OF compiled_outputs_mset[OF d(1)], of set_mset] same by auto
  have "?E r \<inter> ?E q = {}"
    using same_output_same_resolved[OF exec_output_distinct[OF c]] \<open>r \<noteq> q\<close>
    by (auto simp: executes_on_iff)
  moreover have "?E r \<inter> ?T q = {}" "?E q \<inter> ?T r = {}"
    using terminal_not_instruction_output[OF c] by (auto simp: executes_on_iff)
  moreover have "?T r \<inter> ?T q = {}"
  proof (rule Int_emptyI)
    fix k assume "k \<in> ?T r" "k \<in> ?T q"
    then show False using \<open>r \<noteq> q\<close> by (elim imageE) (metis terminal_key_eq)
  qed
  ultimately show ?thesis unfolding g h by (intro disjoint_unions)
qed

section \<open>Dependencies have a writer\<close>

text \<open>The ranks an instruction names exist.\<close>

definition ranks_ok :: "ir_program \<Rightarrow> int \<Rightarrow> bool" where
  "ranks_ok program w \<longleftrightarrow>
     list_all (\<lambda>i. 0 \<le> i_rank i \<and> i_rank i < w \<and> 0 \<le> eff_src_rank i \<and> eff_src_rank i < w)
       (p_all_instructions program)"

lemma exec_rank_ok:
  assumes "ranks_ok program w" "r_inst r \<in> set (p_all_instructions program)"
  shows "0 \<le> exec_rank push r" "exec_rank push r < w"
  using assms by (auto simp: ranks_ok_def list_all_iff exec_rank_def placement_of_def)

lemma compiled_r_inst:
  assumes c: "compiled_from env program rank w gopts f meta rs vs g" "0 \<le> rank" "rank < w"
    and "r \<in> set rs"
  shows "r_inst r \<in> set (p_all_instructions program)"
proof -
  obtain j where "j < length rs" "rs ! j = r" using assms(4) by (auto simp: in_set_conv_nth)
  then show ?thesis using compiled_resolved_ok[OF c] by (auto simp: resolved_ok_def)
qed

lemma version_has_writer:
  assumes c: "compiled_from env program rank w gopts f meta rs vs g" "0 \<le> rank" "rank < w"
    and v: "v < all_writes (version_env_of program w gopts) b"
  shows "\<exists>r \<in> set rs. r_has_output r \<and> r_output r = with_version b (int v + 1)"
proof -
  let ?insts = "p_all_instructions program"
  obtain j where j: "j < length ?insts"
    "produced_base_for_inst (version_env_of program w gopts) (?insts ! j) = Some b"
    "writes (version_env_of program w gopts) (take j ?insts) b = v"
    using nth_write[OF v] by auto
  note ok = compiled_resolved_ok[OF c]
  have "r_has_output (rs ! j)" "r_output (rs ! j) = with_version b (int v + 1)"
    using resolved_output[OF ok(2)[OF j(1)]] j by auto
  then show ?thesis using ok(1) j(1) nth_mem[of j rs] by auto
qed

lemma read_key_written:
  assumes "pk_version (read_key ve init pre b) \<noteq> 0"
    and "\<And>b. writes ve pre b \<le> all_writes ve b"
  obtains v where "read_key ve init pre b = with_version b (int v + 1)" "v < all_writes ve b"
proof -
  define n where "n = (if b \<in> init \<or> 0 < writes ve pre b then writes ve pre b else all_writes ve b)"
  have r: "read_key ve init pre b = with_version b (int n)" by (simp add: read_key_def n_def)
  have "0 < n" "n \<le> all_writes ve b" using assms(1) assms(2)[of b] r by (auto simp: n_def)
  then show ?thesis using that[of "n - 1"] r by (simp add: of_nat_diff)
qed

section \<open>Which output chunks are staged\<close>

text \<open>The instruction overwrites an output chunk under which a live input lies.\<close>

definition overwrites_input :: "graph_options \<Rightarrow> ir_program \<Rightarrow> int \<Rightarrow> instruction \<Rightarrow> bool" where
  "overwrites_input gopts program w inst \<longleftrightarrow>
     writes_output program w inst \<and>
     output_overlaps_live_input (in_place_mode (legacy_layout gopts)) program w
       (input_read_by_rank program w) (i_rank inst) (chunk_idx (i_dst inst))"

definition stage_one :: "(instruction \<Rightarrow> bool) \<Rightarrow> bool \<Rightarrow> bool list list \<Rightarrow> instruction \<Rightarrow> bool list list" where
  "stage_one hit keep rows inst =
     (if hit inst then (if keep then rows
        else rows[nat (i_rank inst) := (rows ! nat (i_rank inst))[nat (chunk_idx (i_dst inst)) := True]])
      else rows)"

lemma stage_rows_fold:
  "stage_rows gopts program w =
     (if \<not> is_in_place (legacy_layout gopts)
      then replicate (nat w) (replicate (nat (p_output_chunk_count program)) False)
      else foldl (stage_one (overwrites_input gopts program w)
               (go_staging_policy gopts = DirectOverwrite \<or> go_staging_policy gopts = Auto))
             (replicate (nat w) (replicate (nat (p_output_chunk_count program)) False))
             (p_all_instructions program))"
  unfolding stage_rows_def Let_def stage_one_def overwrites_input_def by (rule refl)

lemma stage_fold_nth:
  assumes "\<And>i. hit i \<Longrightarrow> 0 \<le> i_rank i \<and> i_rank i < w \<and> 0 \<le> chunk_idx (i_dst i) \<and> chunk_idx (i_dst i) < oc"
    and r: "r < nat w" and c: "c < nat oc"
  shows "foldl (stage_one hit keep) (replicate (nat w) (replicate (nat oc) False)) insts ! r ! c \<longleftrightarrow>
      \<not> keep \<and> (\<exists>i \<in> set insts. hit i \<and> i_rank i = int r \<and> chunk_idx (i_dst i) = int c)"
proof -
  let ?F = "\<lambda>insts. foldl (stage_one hit keep) (replicate (nat w) (replicate (nat oc) False)) insts"
  have len: "length (?F insts) = nat w \<and> (\<forall>row \<in> set (?F insts). length row = nat oc)" for insts
  proof (rule foldl_invariant)
    fix rows :: "bool list list" and i assume inv: "length rows = nat w \<and> (\<forall>row \<in> set rows. length row = nat oc)"
    have "length (rows ! nat (i_rank i)) = nat oc" if "hit i"
      using assms(1)[OF that] inv by auto
    then show "length (stage_one hit keep rows i) = nat w \<and>
        (\<forall>row \<in> set (stage_one hit keep rows i). length row = nat oc)"
      using inv by (auto simp: stage_one_def dest!: set_update_subset_insert[THEN subsetD])
  qed simp
  show ?thesis
  proof (induction insts rule: rev_induct)
    case Nil
    then show ?case using r c by simp
  next
    case (snoc i insts)
    have l: "length (?F insts) = nat w" "length (?F insts ! r) = nat oc"
      using len[of insts] r by auto
    show ?case
    proof (cases "hit i \<and> \<not> keep")
      case True
      then have e: "?F (insts @ [i]) = (?F insts)[nat (i_rank i) :=
          (?F insts ! nat (i_rank i))[nat (chunk_idx (i_dst i)) := True]]"
        by (simp add: stage_one_def)
      have b: "0 \<le> i_rank i" "i_rank i < w" "0 \<le> chunk_idx (i_dst i)" "chunk_idx (i_dst i) < oc"
        using assms(1)[of i] True by auto
      have "?F (insts @ [i]) ! r ! c \<longleftrightarrow>
          ?F insts ! r ! c \<or> (i_rank i = int r \<and> chunk_idx (i_dst i) = int c)"
        unfolding e using b l r c by (auto simp: nth_list_update)
      then show ?thesis using snoc.IH True by auto
    next
      case False
      then have "?F (insts @ [i]) = ?F insts" by (auto simp: stage_one_def)
      then show ?thesis using snoc.IH False by auto
    qed
  qed
qed

lemma stage_rows_iff:
  assumes "0 \<le> r" "r < w" "0 \<le> c" "c < p_output_chunk_count program"
  shows "stage_rows gopts program w ! nat r ! nat c \<longleftrightarrow>
     is_in_place (legacy_layout gopts) \<and>
     go_staging_policy gopts \<in> {Conservative, ForceInternal} \<and>
     (\<exists>i \<in> set (p_all_instructions program).
        overwrites_input gopts program w i \<and> i_rank i = r \<and> chunk_idx (i_dst i) = c)"
proof -
  have k: "(\<not> (go_staging_policy gopts = DirectOverwrite \<or> go_staging_policy gopts = Auto)) =
      (go_staging_policy gopts \<in> {Conservative, ForceInternal})"
    by (cases "go_staging_policy gopts") simp_all
  have hit: "0 \<le> i_rank i \<and> i_rank i < w \<and> 0 \<le> chunk_idx (i_dst i) \<and>
      chunk_idx (i_dst i) < p_output_chunk_count program"
    if "overwrites_input gopts program w i" for i
    using that by (simp add: overwrites_input_def writes_output_def)
  show ?thesis
  proof (cases "is_in_place (legacy_layout gopts)")
    case True
    then show ?thesis
      using stage_fold_nth[of "overwrites_input gopts program w", OF hit, of "nat r" "nat c"
          "go_staging_policy gopts = DirectOverwrite \<or> go_staging_policy gopts = Auto"
          "p_all_instructions program"] assms unfolding k
      by (simp add: stage_rows_fold)
  next
    case False
    then show ?thesis using assms by (simp add: stage_rows_fold)
  qed
qed

text \<open>A write to a staged chunk is redirected, so the chunk's internal copy has a writer.\<close>

lemma visible_dst_staged:
  assumes "writes_output program w i"
    and "stage_rows gopts program w ! nat (i_rank i) ! nat (chunk_idx (i_dst i))"
  shows "produced_base_for_inst (version_env_of program w gopts) i =
     Some (deviceKey INTERNAL (i_rank i) (chunk_idx (i_dst i)) 0)"
proof -
  have "is_in_place (legacy_layout gopts)"
    using assms stage_rows_iff[of "i_rank i" w "chunk_idx (i_dst i)" program gopts]
    by (auto simp: writes_output_def)
  then have "visible_dst_buf (version_env_of program w gopts) i = INTERNAL"
    using assms by (auto simp: visible_dst_buf_def is_staged_def writes_output_def)
  then show ?thesis
    using assms(1) by (auto simp: produced_base_for_inst_def writes_output_def split: op_code.split)
qed

lemma staged_chunk_written:
  assumes "c \<in> set (staged_chunks program w gopts rank)" "0 \<le> rank" "rank < w"
  shows "0 < all_writes (version_env_of program w gopts) (deviceKey INTERNAL rank (int c) 0)"
proof -
  have c: "c < nat (p_output_chunk_count program)" "int c < p_output_chunk_count program"
    "stage_rows gopts program w ! nat rank ! nat (int c)"
    using assms(1) by (auto simp: staged_chunks_def)
  then obtain i where i: "i \<in> set (p_all_instructions program)" "overwrites_input gopts program w i"
    "i_rank i = rank" "chunk_idx (i_dst i) = int c"
    using stage_rows_iff[of rank w "int c" program gopts] assms(2,3) by auto
  then have "produced_base_for_inst (version_env_of program w gopts) i = Some (deviceKey INTERNAL rank (int c) 0)"
    using visible_dst_staged[of program w i gopts] c by (simp add: overwrites_input_def)
  then show ?thesis using i(1) by (auto simp: writes_def filter_empty_conv)
qed

section \<open>Reader numbers in the graphs\<close>

text \<open>The reader numbers the nodes of a graph carry for one version.\<close>

definition node_reader_ids :: "progress_key \<Rightarrow> instruction_node \<Rightarrow> int list" where
  "node_reader_ids k n =
     map ni_reader_id (filter (\<lambda>i. ni_key i = k \<and> ni_reader_id i \<noteq> -1) (n_inputs n))"

definition graph_reader_ids :: "progress_key \<Rightarrow> compiled_graph \<Rightarrow> int list" where
  "graph_reader_ids k g = concat (map (node_reader_ids k) (g_nodes g))"

definition assigned_readers :: "compiled_graph \<Rightarrow> progress_key \<Rightarrow> int" where
  "assigned_readers g k =
     (case map_of (map (\<lambda>cv. (cv_key cv, cv_num_readers cv)) (g_reader_assignment g)) k of
        None \<Rightarrow> 0 | Some n \<Rightarrow> n)"

lemma assigned_readers_compiled:
  "compiled_from env program rank w gopts f meta rs vs g \<Longrightarrow>
     assigned_readers g k = num_readers (vs_readers vs) k"
  by (simp add: assigned_readers_def compiled_from_def Let_def reader_assignment_of_def
      num_readers_def om_get_def comp_def case_prod_unfold)

lemma mset_concat_map: "mset (concat (map f xs)) = (\<Sum>x \<in># mset xs. mset (f x))"
  by (induction xs) simp_all

lemma node_reader_ids_mk:
  "node_reader_ids k (mark_terminal ts (mk_node push meta f r)) = ids_of (r_inputs r) k"
  by (induction "r_inputs r")
    (auto simp: node_reader_ids_def ids_of_def filter_map comp_def case_prod_unfold)

lemma node_reader_ids_copyback:
  "node_reader_ids k (mark_terminal ts (copyback_of ve mode row rank f c)) = []"
  by (simp add: node_reader_ids_def)

lemma sum_mset_zero: "(\<Sum>x \<in># M. {#}) = ({#} :: 'b multiset)"
  by (induction M) simp_all

lemma graph_reader_ids_mset:
  assumes "compiled_from env program rank w gopts f meta rs vs g"
  shows "mset (graph_reader_ids k g) =
     (\<Sum>r \<in># filter_mset (executes_on (push_of env) rank) (mset rs). mset (ids_of (r_inputs r) k))"
  by (simp add: graph_reader_ids_def mset_concat_map compiled_nodes_mset[OF assms] multiset.map_comp
      comp_def node_reader_ids_mk node_reader_ids_copyback sum_mset_zero)

text \<open>Summing over the ranks visits every instruction once.\<close>

lemma sum_over_ranks:
  fixes F :: "'a \<Rightarrow> 'b multiset"
  assumes "\<And>x. x \<in> set xs \<Longrightarrow> 0 \<le> e x \<and> e x < w"
  shows "(\<Sum>r \<in> {0..<w :: int}. \<Sum>x \<in># filter_mset (\<lambda>x. e x = r) (mset xs). F x) = (\<Sum>x \<in># mset xs. F x)"
  using assms
proof (induction xs)
  case Nil
  then show ?case by simp
next
  case (Cons x xs)
  have "(\<Sum>r \<in> {0..<w}. \<Sum>y \<in># filter_mset (\<lambda>y. e y = r) (mset (x # xs)). F y) =
      (\<Sum>r \<in> {0..<w}. (if e x = r then F x else {#}) + (\<Sum>y \<in># filter_mset (\<lambda>y. e y = r) (mset xs). F y))"
    by (rule sum.cong) auto
  also have "\<dots> = F x + (\<Sum>y \<in># mset xs. F y)"
    using Cons by (simp add: sum.distrib sum.delta)
  finally show ?case by simp
qed

lemma compiled_graph_readers:
  assumes ok: "ranks_ok program w"
    and g: "\<And>r. 0 \<le> r \<Longrightarrow> r < w \<Longrightarrow> \<exists>f. compiled_from env program r w gopts f meta rs vs (gs r)"
    and q: "0 \<le> q" "q < w"
  shows "(\<Sum>r \<in> {0..<w}. mset (graph_reader_ids k (gs r))) = mset [0..assigned_readers (gs q) k - 1]"
proof -
  obtain fq where cq: "compiled_from env program q w gopts fq meta rs vs (gs q)" using g[OF q] by blast
  let ?out = "filter r_has_output rs"
  have "(\<Sum>r \<in> {0..<w}. mset (graph_reader_ids k (gs r))) =
      (\<Sum>r \<in> {0..<w}. \<Sum>x \<in># filter_mset (\<lambda>x. exec_rank (push_of env) x = r) (mset ?out).
          mset (ids_of (r_inputs x) k))"
  proof (rule sum.cong)
    fix r assume r: "r \<in> {0..<w}"
    then obtain fr where "compiled_from env program r w gopts fr meta rs vs (gs r)" using g[of r] by auto
    from graph_reader_ids_mset[OF this]
    show "mset (graph_reader_ids k (gs r)) =
        (\<Sum>x \<in># filter_mset (\<lambda>x. exec_rank (push_of env) x = r) (mset ?out). mset (ids_of (r_inputs x) k))"
      by (simp add: executes_on_iff[abs_def] filter_filter_mset conj_commute)
  qed simp
  also have "\<dots> = (\<Sum>x \<in># mset ?out. mset (ids_of (r_inputs x) k))"
    by (rule sum_over_ranks) (use exec_rank_ok[OF ok] compiled_r_inst[OF cq q] in auto)
  also have "\<dots> = (\<Sum>x \<in># mset rs. mset (ids_of (r_inputs x) k))"
  proof -
    have e: "ids_of (r_inputs r) k = []" if "r \<in> set rs" "\<not> r_has_output r" for r
    proof -
      note r = that
      obtain j where j: "j < length rs" "rs ! j = r" using r(1) by (auto simp: in_set_conv_nth)
      then have ro: "resolved_ok (version_env_of program w gopts) (input_bases program w)
        (take j (p_all_instructions program)) (p_all_instructions program ! j) r"
        using compiled_resolved_ok[OF cq q] by auto
      then have "produced_base_for_inst (version_env_of program w gopts) (p_all_instructions program ! j) = None"
        using resolved_output(1)[OF ro] r(2) by auto
      then have "i_op (p_all_instructions program ! j) = NOP"
        by (auto simp: produced_base_for_inst_def split: op_code.splits)
      then have "map fst (r_inputs r) = []" using ro by (simp add: resolved_ok_def keys_ok_def src_bases_def)
      then show ?thesis by (simp add: ids_of_def)
    qed
    show ?thesis using e by (induction rs) auto
  qed
  also have "\<dots> = mset (ids_of (concat (map r_inputs rs)) k)"
  proof -
    have ic: "ids_of (concat (map r_inputs xs)) k = concat (map (\<lambda>x. ids_of (r_inputs x) k) xs)" for xs
      by (induction xs) simp_all
    show ?thesis unfolding ic mset_concat_map ..
  qed
  also have "\<dots> = mset [0..num_readers (vs_readers vs) k - 1]"
  proof -
    have r: "resolve_all (version_env_of program w gopts) (final_produced (version_env_of program w gopts))
      \<lparr>vs_latest = initial_latest program q w, vs_readers = []\<rparr> (p_all_instructions program) = Inr (rs, vs)"
      using cq by (simp add: compiled_from_def Let_def)
    have "readers_ok []" by (simp add: readers_ok_def)
    then show ?thesis using resolve_all_readers[OF r] by (simp add: num_readers_def)
  qed
  finally show ?thesis using assigned_readers_compiled[OF cq] by simp
qed

lemma compiled_family:
  assumes "\<And>r. 0 \<le> r \<Longrightarrow> r < w \<Longrightarrow> compileGraph env program r w gopts = Inr (gs r)" and "0 < w"
  obtains meta rs vs where
    "\<And>r. 0 \<le> r \<Longrightarrow> r < w \<Longrightarrow> \<exists>f. compiled_from env program r w gopts f meta rs vs (gs r)"
proof -
  have "compileGraph env program 0 w gopts = Inr (gs 0)" using assms by simp
  from compile_structure[OF this] obtain f meta rs vs where
    c: "compiled_from env program 0 w gopts f meta rs vs (gs 0)" by metis
  show ?thesis
  proof (rule that)
    fix r assume r: "0 \<le> r" "r < w"
    from compile_structure[OF assms(1)[OF r]] obtain f' meta' rs' vs' where
      d: "compiled_from env program r w gopts f' meta' rs' vs' (gs r)" by metis
    from compiled_from_same_pass[OF c _ _ d] assms(2) r
    show "\<exists>f. compiled_from env program r w gopts f meta rs vs (gs r)" using d by auto
  qed
qed

lemma version_written_by_node:
  assumes fam: "\<And>r. 0 \<le> r \<Longrightarrow> r < w \<Longrightarrow> \<exists>f. compiled_from env program r w gopts f meta rs vs (gs r)"
    and ok: "ranks_ok program w" and r: "0 \<le> r" "r < w"
    and k: "k < all_writes (version_env_of program w gopts) b"
  shows "\<exists>q m. 0 \<le> q \<and> q < w \<and> m \<in> set (g_nodes (gs q)) \<and> n_output m = with_version b (int k + 1)"
proof -
  obtain f where c: "compiled_from env program r w gopts f meta rs vs (gs r)" using fam[OF r] by blast
  from version_has_writer[OF c r, of k b] k obtain x where
    x: "x \<in> set rs" "r_has_output x" "r_output x = with_version b (int k + 1)" by auto
  define q where "q = exec_rank (push_of env) x"
  have q: "0 \<le> q" "q < w"
    unfolding q_def using exec_rank_ok[OF ok compiled_r_inst[OF c r x(1)]] by blast+
  obtain f' where d: "compiled_from env program q w gopts f' meta rs vs (gs q)" using fam[OF q] by blast
  have "executes_on (push_of env) q x" using x(2) by (simp add: executes_on_iff q_def)
  from compiled_node_of_resolved[OF d x(1) this] q x(3) show ?thesis
    by (intro exI[of _ q] exI) (auto intro: conjI)
qed

lemma dependency_written:
  assumes fam: "\<And>r. 0 \<le> r \<Longrightarrow> r < w \<Longrightarrow> \<exists>f. compiled_from env program r w gopts f meta rs vs (gs r)"
    and ok: "ranks_ok program w" and r: "0 \<le> r" "r < w"
    and n: "n \<in> set (g_nodes (gs r))" and i: "i \<in> set (n_inputs n)" and v: "pk_version (ni_key i) \<noteq> 0"
  shows "\<exists>q m. 0 \<le> q \<and> q < w \<and> m \<in> set (g_nodes (gs q)) \<and> n_output m = ni_key i"
proof -
  let ?ve = "version_env_of program w gopts"
  obtain f where c: "compiled_from env program r w gopts f meta rs vs (gs r)" using fam[OF r] by blast
  note written = version_written_by_node[OF fam ok r]
  show ?thesis
    using compiled_node_cases[OF c n]
  proof cases
    case (1 x)
    obtain j where j: "j < length (p_all_instructions program)" "rs ! j = x"
      using 1(1) compiled_resolved_ok(1)[OF c r] by (auto simp: in_set_conv_nth)
    have "ni_key i \<in> set (map fst (r_inputs x))" using i 1(3) by (force simp: image_iff)
    moreover have "map fst (r_inputs x) = map (read_key ?ve (input_bases program w)
        (take j (p_all_instructions program))) (src_bases ?ve (p_all_instructions program ! j))"
      using compiled_resolved_ok(2)[OF c r j(1)] j(2) by (simp add: resolved_ok_def keys_ok_def)
    ultimately obtain b where b: "ni_key i = read_key ?ve (input_bases program w)
        (take j (p_all_instructions program)) b" by auto
    from read_key_written[OF v[unfolded b]] writes_take_le obtain k where
      "ni_key i = with_version b (int k + 1)" "k < all_writes ?ve b" by (metis b version_env_sel(2))
    then show ?thesis using written[of k b] by simp
  next
    case (2 x)
    define b where "b = deviceKey INTERNAL r (int x) 0"
    have k: "ni_key i = last_version ?ve b" using i 2(2) by (simp add: b_def)
    have p: "0 < all_writes ?ve b" using staged_chunk_written[OF 2(1) r] by (simp add: b_def)
    then have "ni_key i = with_version b (int (all_writes ?ve b - 1) + 1)"
      by (simp add: k last_version_def)
    then show ?thesis using written[of "all_writes ?ve b - 1" b] p by simp
  qed
qed

lemma compileGraph_ok:
  assumes "host_meta_of (staging_ring_of env (start_graph env program r w gopts)) (p_all_instructions program) = Inr meta"
    and "resolve_all (version_env_of program w gopts) (final_produced (version_env_of program w gopts))
           (initial_versions program q w) (p_all_instructions program) = Inr (rs, vs)"
    and "0 \<le> r" "r < w" "0 \<le> q" "q < w"
  shows "compileGraph env program r w gopts = Inr (assemble_graph env program r w gopts meta rs vs)"
proof -
  have "initial_versions program r w = initial_versions program q w"
    using initial_rank_independent[OF assms(3-6), of program]
    by (simp add: initial_versions_def initial_latest_def)
  then show ?thesis using assms by (simp add: compileGraph_def)
qed

lemma compile_assignment_rank:
  assumes r: "0 \<le> r" "r < w" and q: "0 \<le> q" "q < w"
  shows "map_sum id g_reader_assignment (compileGraph env program r w gopts) =
         map_sum id g_reader_assignment (compileGraph env program q w gopts)"
proof -
  let ?m = "\<lambda>r. host_meta_of (staging_ring_of env (start_graph env program r w gopts)) (p_all_instructions program)"
  let ?p = "\<lambda>r. resolve_all (version_env_of program w gopts) (final_produced (version_env_of program w gopts))
           (initial_versions program r w) (p_all_instructions program)"
  have m: "?m r = ?m q" using staging_ring_rank[of env program r w gopts q] by simp
  have p: "?p r = ?p q"
    using initial_rank_independent[OF r q, of program] by (simp add: initial_versions_def initial_latest_def)
  have e: "compileGraph env program x w gopts = sbind (?m x) (\<lambda>meta. sbind (?p x) (\<lambda>(rs, vs).
      Inr (assemble_graph env program x w gopts meta rs vs)))" if "0 \<le> x" "x < w" for x
    using that by (simp add: compileGraph_def)
  show ?thesis
  proof (cases "?m r")
    case (Inl err)
    then show ?thesis using m e[OF r] e[OF q] by simp
  next
    case (Inr meta)
    note meta = Inr
    show ?thesis
    proof (cases "?p r")
      case (Inl err)
      then show ?thesis using m meta p e[OF r] e[OF q] by simp
    next
      case (Inr x)
      obtain rs vs where x: "x = (rs, vs)" by fastforce
      have cr: "compileGraph env program r w gopts = Inr (assemble_graph env program r w gopts meta rs vs)"
        using e[OF r] meta Inr x by simp
      have cq: "compileGraph env program q w gopts = Inr (assemble_graph env program q w gopts meta rs vs)"
        using e[OF q] meta Inr x m p by simp
      from compile_structure[OF cr] obtain f1 m1 rs1 vs1 where
        c1: "compiled_from env program r w gopts f1 m1 rs1 vs1 (assemble_graph env program r w gopts meta rs vs)"
        by metis
      from compile_structure[OF cq] obtain f2 m2 rs2 vs2 where
        c2: "compiled_from env program q w gopts f2 m2 rs2 vs2 (assemble_graph env program q w gopts meta rs vs)"
        by metis
      show ?thesis
        using c1 c2 compiled_from_same_pass[OF c1 r c2 q]
        by (simp add: cr cq compiled_from_def Let_def)
    qed
  qed
qed

lemma mk_node_guard:
  assumes "r_old_output r = with_version b v" "r_output r = with_version b (v + 1)"
  shows "n_overwrite_guard (mk_node push meta f r) = Some (with_version b v)"
  using assms by (simp add: mk_node_def Let_def sameBaseKey_def split: prod.splits)

lemma compiled_instruction_node:
  assumes c: "compiled_from env program r w gopts f meta rs vs g" and r: "0 \<le> r" "r < w"
    and j: "j < length (p_all_instructions program)"
    and x: "fst (placement_of (push_of env) (p_all_instructions program ! j)) = r"
    and b: "produced_base_for_inst (version_env_of program w gopts) (p_all_instructions program ! j) = Some b"
  shows "\<exists>n \<in> set (g_nodes g). n_op n = i_op (p_all_instructions program ! j) \<and>
     n_output n = with_version b
       (int (writes (version_env_of program w gopts) (take j (p_all_instructions program)) b) + 1) \<and>
     map ni_key (n_inputs n) = map (read_key (version_env_of program w gopts) (input_bases program w)
        (take j (p_all_instructions program)))
        (src_bases (version_env_of program w gopts) (p_all_instructions program ! j)) \<and>
     n_overwrite_guard n = Some (with_version b
       (int (writes (version_env_of program w gopts) (take j (p_all_instructions program)) b)))"
proof -
  note ok = compiled_resolved_ok[OF c r]
  note rj = ok(2)[OF j]
  have m: "rs ! j \<in> set rs" using ok(1) j by simp
  have h: "r_has_output (rs ! j)" using resolved_output(1)[OF rj] b by auto
  have ri: "r_inst (rs ! j) = p_all_instructions program ! j" using rj by (simp add: resolved_ok_def)
  have e: "executes_on (push_of env) r (rs ! j)" using h ri x by (simp add: executes_on_def)
  note o = resolved_output(2)[OF rj b]
  have ins: "map ni_key (n_inputs (mk_node (push_of env) meta f (rs ! j))) = map fst (r_inputs (rs ! j))"
    by (simp add: comp_def case_prod_unfold)
  show ?thesis
    using compiled_node_of_resolved[OF c m e]
    by (rule bexI[rotated])
      (use o ri rj mk_node_guard[of "rs ! j" b] ins in \<open>simp add: resolved_ok_def keys_ok_def\<close>)
qed

text \<open>No instruction's node writes a staged output chunk.\<close>

lemma staged_output_not_instruction:
  assumes c: "compiled_from env program r w gopts f meta rs vs g" and r: "0 \<le> r" "r < w"
    and ip: "is_in_place (legacy_layout gopts)" "go_staging_policy gopts \<in> {Conservative, ForceInternal}"
    and i: "i \<in> set (p_all_instructions program)" "overwrites_input gopts program w i"
    and x: "x \<in> set rs" "r_has_output x"
  shows "base_key (r_output x) \<noteq> deviceKey OUTPUT (i_rank i) (chunk_idx (i_dst i)) 0"
proof
  let ?ve = "version_env_of program w gopts" and ?R = "i_rank i" and ?C = "chunk_idx (i_dst i)"
  assume o: "base_key (r_output x) = deviceKey OUTPUT ?R ?C 0"
  have ri: "0 \<le> ?R" "?R < w" "0 \<le> ?C" "?C < p_output_chunk_count program"
    using i(2) by (simp_all add: overwrites_input_def writes_output_def)
  have st: "stage_rows gopts program w ! nat ?R ! nat ?C"
    using stage_rows_iff[OF ri, of gopts] ip i by blast
  obtain j where j: "j < length (p_all_instructions program)" "rs ! j = x"
    using x(1) compiled_resolved_ok(1)[OF c r] by (auto simp: in_set_conv_nth)
  let ?i = "p_all_instructions program ! j"
  obtain b where b: "produced_base_for_inst ?ve ?i = Some b"
    using resolved_output(1)[OF compiled_resolved_ok(2)[OF c r j(1)]] x(2) j(2) by auto
  have "base_key (r_output x) = b"
    using resolved_output(2)[OF compiled_resolved_ok(2)[OF c r j(1)] b] produced_base_version[OF b] j(2) by simp
  with o b have p: "produced_base_for_inst ?ve ?i = Some (deviceKey OUTPUT ?R ?C 0)" by simp
  have h: "hostKey n k v \<noteq> deviceKey OUTPUT ?R ?C 0" for n k v
    by (simp add: hostKey_def deviceKey_def)
  from p h have vis: "visible_dst_buf ?ve ?i = OUTPUT" "i_rank ?i = ?R" "chunk_idx (i_dst ?i) = ?C"
    by (auto simp: produced_base_for_inst_def split: op_code.splits)
  have "i_dst_buf ?i = OUTPUT" using vis(1) by (auto simp: visible_dst_buf_def split: if_splits)
  then have "visible_dst_buf ?ve ?i = INTERNAL"
    using vis(2,3) ri st ip(1) by (simp add: visible_dst_buf_def is_staged_def)
  then show False using vis(1) by simp
qed

lemma compiled_copyback_node:
  assumes c: "compiled_from env program r w gopts f meta rs vs g"
    and k: "k < nat (p_output_chunk_count program)" "stage_rows gopts program w ! nat r ! k"
  shows "\<exists>n \<in> set (g_nodes g). n_output n =
     with_version (out_base r k) (int (all_writes (version_env_of program w gopts) (out_base r k)) + 1)"
proof -
  let ?n = "mark_terminal (g_terminal_outputs g) (copyback_of (version_env_of program w gopts)
      (in_place_mode (legacy_layout gopts)) (graph_row program w gopts r) r f k)"
  have "k \<in> set (staged_chunks program w gopts r)" using k by (simp add: staged_chunks_def)
  then have "?n \<in># mset (g_nodes g)" unfolding compiled_nodes_mset[OF c] by simp
  then have "?n \<in> set (g_nodes g)" by simp
  moreover have "n_output ?n =
     with_version (out_base r k) (int (all_writes (version_env_of program w gopts) (out_base r k)) + 1)"
    using k(2) by (simp add: terminal_key_def graph_row_def)
  ultimately show ?thesis by blast
qed

section \<open>The host metadata\<close>

definition writes_host :: "op_code set \<Rightarrow> instruction list \<Rightarrow> int \<Rightarrow> int \<Rightarrow> instruction list" where
  "writes_host ops insts n c =
     filter (\<lambda>i. i_op i \<in> ops \<and> numa_id (i_dst i) = n \<and> chunk_idx (i_dst i) = c) insts"

definition reads_host :: "op_code set \<Rightarrow> instruction list \<Rightarrow> int \<Rightarrow> int \<Rightarrow> instruction list" where
  "reads_host ops insts n c =
     filter (\<lambda>i. i_op i \<in> ops \<and> numa_id (i_src i) = n \<and> chunk_idx (i_src i) = c) insts"

lemma host_access_snoc:
  "writes_host ops (insts @ [i]) n c = writes_host ops insts n c @
     (if i_op i \<in> ops \<and> numa_id (i_dst i) = n \<and> chunk_idx (i_dst i) = c then [i] else [])"
  "reads_host ops (insts @ [i]) n c = reads_host ops insts n c @
     (if i_op i \<in> ops \<and> numa_id (i_src i) = n \<and> chunk_idx (i_src i) = c then [i] else [])"
  by (simp_all add: writes_host_def reads_host_def)

lemma meta_upd_Inr:
  "meta_upd a f meta = Inr meta' \<Longrightarrow>
     meta' n c = (if n = numa_id a \<and> c = chunk_idx a then f (meta n c) else meta n c)"
  by (auto simp: meta_upd_def split: if_splits)

lemma meta_fold_spec:
  "sfold meta_inst (\<lambda>_ _. empty_meta) insts = Inr meta \<Longrightarrow>
     (is_d2h_dst (meta n c) \<longleftrightarrow> writes_host {D2H} insts n c \<noteq> []) \<and>
     d2h_writers (meta n c) = length (writes_host {D2H} insts n c) \<and>
     (is_h2d_src (meta n c) \<longleftrightarrow> reads_host {H2D} insts n c \<noteq> []) \<and>
     (is_h2h_dst (meta n c) \<longleftrightarrow> writes_host {H2H, H2HReduce} insts n c \<noteq> [])"
proof (induction insts arbitrary: meta rule: rev_induct)
  case Nil
  then show ?case by (auto simp: empty_meta_def writes_host_def reads_host_def)
next
  case (snoc i insts)
  then obtain m where m: "sfold meta_inst (\<lambda>_ _. empty_meta) insts = Inr m"
    and i: "meta_inst m i = Inr meta"
    by (auto simp: sfold_append sbind_Inr_iff)
  note ih = snoc.IH[OF m]
  show ?case
  proof (cases "i_op i")
    case D2H
    then have "meta_upd (i_dst i) (\<lambda>m. m\<lparr>is_d2h_dst := True, d2h_writers := d2h_writers m + 1\<rparr>) m = Inr meta"
      using i by (simp add: meta_inst_def)
    from meta_upd_Inr[OF this, of n c] show ?thesis
      using ih by (auto simp: host_access_snoc D2H)
  next
    case H2D
    then have "meta_upd (i_src i) (\<lambda>m. m\<lparr>is_h2d_src := True\<rparr>) m = Inr meta"
      using i by (simp add: meta_inst_def)
    from meta_upd_Inr[OF this, of n c] show ?thesis
      using ih by (auto simp: host_access_snoc H2D)
  next
    case H2H
    then have "meta_upd (i_dst i) (\<lambda>m. m\<lparr>is_h2h_dst := True\<rparr>) m = Inr meta"
      using i by (simp add: meta_inst_def)
    from meta_upd_Inr[OF this, of n c] show ?thesis
      using ih by (auto simp: host_access_snoc H2H)
  next
    case H2HReduce
    then have "meta_upd (i_dst i) (\<lambda>m. m\<lparr>is_h2h_dst := True\<rparr>) m = Inr meta"
      using i by (simp add: meta_inst_def)
    from meta_upd_Inr[OF this, of n c] show ?thesis
      using ih by (auto simp: host_access_snoc H2HReduce)
  qed (use i ih in \<open>simp_all add: meta_inst_def host_access_snoc\<close>)
qed

lemma host_meta_ring:
  assumes "host_meta_of ring insts = Inr meta"
  shows "m_ring (meta n c) \<longleftrightarrow>
     (writes_host {H2H, H2HReduce} insts n c \<noteq> [] \<and> writes_host {D2H} insts n c = [] \<and>
        reads_host {H2D} insts n c = []) \<or>
     (ring \<and> length (writes_host {D2H} insts n c) = 1 \<and> reads_host {H2D} insts n c \<noteq> [] \<and>
        writes_host {H2H, H2HReduce} insts n c = [])"
proof -
  obtain m where m: "sfold meta_inst (\<lambda>_ _. empty_meta) insts = Inr m"
    and e: "meta = (\<lambda>n c. set_ring ring (m n c))"
    using assms by (auto simp: host_meta_of_def sbind_Inr_iff)
  show ?thesis using meta_fold_spec[OF m, of n c] by (auto simp: e set_ring_def Let_def)
qed

end
