(* ===== verification/CompilerProps.thy ===== *)
theory CompilerProps
  imports CompilerLemmas
begin

text \<open>
  The properties of the graph compiler, each with a concrete compilation: a two-rank
  program with a device-to-host copy, a host-to-device copy and a remote device copy.
\<close>

section \<open>A concrete program\<close>

definition ex_addr :: "int \<Rightarrow> int \<Rightarrow> chunk_address" where
  "ex_addr n c = \<lparr>numa_id = n, chunk_idx = c\<rparr>"

definition ex_inst ::
  "op_code \<Rightarrow> int \<Rightarrow> int \<Rightarrow> device_buffer_kind \<Rightarrow> device_buffer_kind \<Rightarrow>
   chunk_address \<Rightarrow> chunk_address \<Rightarrow> instruction" where
  "ex_inst op r sr sb db s d =
     \<lparr>i_op = op, i_rank = r, i_src_rank = sr, i_src_buf = sb, i_dst_buf = db,
      i_src = s, i_src2 = ex_addr 0 0, i_dst = d\<rparr>"

definition ex_insts :: "instruction list" where
  "ex_insts =
     [ex_inst D2H 0 (-1) INPUT OUTPUT (ex_addr 0 0) (ex_addr 0 0),
      ex_inst H2D 1 (-1) INPUT OUTPUT (ex_addr 0 0) (ex_addr 0 0),
      ex_inst D2D 0 1 OUTPUT OUTPUT (ex_addr 0 0) (ex_addr 0 1),
      ex_inst D2D 1 1 INPUT OUTPUT (ex_addr 0 0) (ex_addr 0 1),
      ex_inst D2DReduce 1 0 INPUT OUTPUT (ex_addr 0 0) (ex_addr 0 1)]"

definition ex_program :: ir_program where
  "ex_program = \<lparr>p_name = ''ex'', p_nranks = 2, p_input_chunk_count = 1,
     p_output_chunk_count = 2, p_instructions = [], p_all_instructions = ex_insts\<rparr>"

definition ex_env :: pccl_env where
  "ex_env = \<lparr>d2d_push_env = None, d2d_input_first_env = None, subchunk_slice_env = None,
     host_ring_slots_env = None\<rparr>"

definition ex_gopts :: "bool \<Rightarrow> staging_policy \<Rightarrow> graph_options" where
  "ex_gopts ip pol = \<lparr>legacy_layout = \<lparr>seg_count = 1024, element_size = 4, co_scalar_type = Float32,
      co_reduce_op = Sum_op, stride = 0, d2h_segments = 1, h2d_segments = 1, is_in_place = ip,
      in_place_mode = SameBase\<rparr>,
     go_staging_policy = pol, prioritize_input_d2d = True\<rparr>"

definition ex_stage :: "bool list list" where
  "ex_stage = [[False, False], [True, False]]"

definition ex_final :: key_map where
  "ex_final =
     [(ProgressKey PS_HOST 0 0 0, ProgressKey PS_HOST 0 0 1),
      (ProgressKey PS_OUTPUT 0 1 0, ProgressKey PS_OUTPUT 0 1 1),
      (ProgressKey PS_OUTPUT 1 1 0, ProgressKey PS_OUTPUT 1 1 2),
      (ProgressKey PS_INTERNAL 1 0 0, ProgressKey PS_INTERNAL 1 0 1)]"

abbreviation "ex_opts \<equiv> ex_gopts True Conservative"

definition ex_ve :: version_env where
  "ex_ve = \<lparr>ve_opts = legacy_layout ex_opts, ve_program = ex_program, ve_world = 2, ve_stage = ex_stage\<rparr>"

lemma ex_stage_rows: "stage_rows ex_opts ex_program 2 = ex_stage"
  by code_simp

lemma ex_ve: "version_env_of ex_program 2 ex_opts = ex_ve"
  by (simp add: version_env_of_def ex_ve_def ex_stage_rows)

lemma ex_final: "final_produced ex_ve = ex_final"
  by code_simp

lemma ex_meta: "\<not> isl (host_meta_of b ex_insts)"
proof (cases b)
  case True
  have "\<not> isl (host_meta_of True ex_insts)" by code_simp
  then show ?thesis using True by simp
next
  case False
  have "\<not> isl (host_meta_of False ex_insts)" by code_simp
  then show ?thesis using False by simp
qed

lemma ex_pass:
  "\<not> isl (resolve_all ex_ve ex_final
     \<lparr>vs_latest = [(ProgressKey PS_INPUT 0 0 0, ProgressKey PS_INPUT 0 0 0),
                   (ProgressKey PS_INPUT 1 0 0, ProgressKey PS_INPUT 1 0 0)], vs_readers = []\<rparr>
     ex_insts)"
  by code_simp

lemma ex_initial:
  "initial_versions ex_program 0 2 =
     \<lparr>vs_latest = [(ProgressKey PS_INPUT 0 0 0, ProgressKey PS_INPUT 0 0 0),
                   (ProgressKey PS_INPUT 1 0 0, ProgressKey PS_INPUT 1 0 0)], vs_readers = []\<rparr>"
  by code_simp

definition ex_g :: "int \<Rightarrow> compiled_graph" where
  "ex_g r = projr (compileGraph ex_env ex_program r 2 ex_opts)"

lemma ex_insts: "p_all_instructions ex_program = ex_insts"
  by (simp add: ex_program_def)

lemma ex_compiles:
  assumes "0 \<le> r" "r < 2"
  shows "compileGraph ex_env ex_program r 2 ex_opts = Inr (ex_g r)"
proof -
  obtain meta where m: "host_meta_of (staging_ring_of ex_env (start_graph ex_env ex_program r 2 ex_opts))
      (p_all_instructions ex_program) = Inr meta"
    using ex_meta unfolding ex_insts by (metis isl_def sum.exhaust)
  obtain rs vs where p: "resolve_all (version_env_of ex_program 2 ex_opts)
      (final_produced (version_env_of ex_program 2 ex_opts)) (initial_versions ex_program 0 2)
      (p_all_instructions ex_program) = Inr (rs, vs)"
    using ex_pass unfolding ex_ve ex_final ex_initial ex_insts by (metis isl_def sum.exhaust prod.exhaust)
  from compileGraph_ok[OF m p assms] show ?thesis by (simp add: ex_g_def)
qed

section \<open>Properties\<close>

text \<open>
  C1. Single writer. Over all ranks, no two nodes write the same version of a chunk, so the
  progress counter of a version has one publisher.
\<close>

theorem compile_single_writer:
  assumes "compileGraph env program r w gopts = Inr g"
    and "compileGraph env program q w gopts = Inr h"
  shows "distinct (map n_output (g_nodes g)) \<and>
    (r \<noteq> q \<longrightarrow> set (map n_output (g_nodes g)) \<inter> set (map n_output (g_nodes h)) = {})"
proof -
  obtain f meta rs vs where c: "0 \<le> r" "r < w" "compiled_from env program r w gopts f meta rs vs g"
    using compile_structure[OF assms(1)] by metis
  obtain f' meta' rs' vs' where d: "0 \<le> q" "q < w" "compiled_from env program q w gopts f' meta' rs' vs' h"
    using compile_structure[OF assms(2)] by metis
  show ?thesis
    using compiled_outputs_distinct[OF c(3,1,2)] compiled_outputs_disjoint[OF c(3,1,2) d(3,1,2)] by blast
qed

theorem compile_single_writer_witness:
  "distinct (map n_output (g_nodes (ex_g 0))) \<and>
   set (map n_output (g_nodes (ex_g 0))) \<inter> set (map n_output (g_nodes (ex_g 1))) = {}"
  using compile_single_writer[OF ex_compiles[of 0] ex_compiles[of 1]] by simp

text \<open>
  C2. Dependencies are produced. When every rank compiles, each input of a node with a
  version above 0 is the output of a node of some rank: no node waits for a version nobody
  writes.
\<close>

theorem compile_dependencies_produced:
  assumes gs: "\<And>r. 0 \<le> r \<Longrightarrow> r < w \<Longrightarrow> compileGraph env program r w gopts = Inr (gs r)"
    and ok: "ranks_ok program w" and r: "0 \<le> r" "r < w"
  shows "list_all (\<lambda>n. list_all (\<lambda>i. pk_version (ni_key i) = 0 \<or>
      (\<exists>q m. 0 \<le> q \<and> q < w \<and> m \<in> set (g_nodes (gs q)) \<and> n_output m = ni_key i)) (n_inputs n))
    (g_nodes (gs r))"
proof -
  have w: "0 < w" using r by simp
  obtain meta rs vs where fam:
    "\<And>r. 0 \<le> r \<Longrightarrow> r < w \<Longrightarrow> \<exists>f. compiled_from env program r w gopts f meta rs vs (gs r)"
    using compiled_family[OF gs w] by blast
  show ?thesis
    using dependency_written[OF fam ok r] by (auto simp: list_all_iff)
qed

lemma ex_ranks: "ranks_ok ex_program 2"
  by code_simp

theorem compile_dependencies_produced_witness:
  "list_all (\<lambda>n. list_all (\<lambda>i. pk_version (ni_key i) = 0 \<or>
      (\<exists>q m. 0 \<le> q \<and> q < 2 \<and> m \<in> set (g_nodes (ex_g q)) \<and> n_output m = ni_key i)) (n_inputs n))
    (g_nodes (ex_g 1))"
  using compile_dependencies_produced[of 2 ex_env ex_program ex_opts ex_g, OF ex_compiles ex_ranks, of 1]
  by simp

text \<open>
  C3. Reader numbers. Over all ranks, the readers of each version are numbered
  \<open>0, 1, ..., n - 1\<close> without gap or repetition, where \<open>n\<close> is the count every rank's
  reader assignment records.
\<close>

theorem compile_reader_numbers:
  assumes gs: "\<And>r. 0 \<le> r \<Longrightarrow> r < w \<Longrightarrow> compileGraph env program r w gopts = Inr (gs r)"
    and ok: "ranks_ok program w" and q: "0 \<le> q" "q < w"
  shows "(\<Sum>r \<in> {0..<w}. mset (graph_reader_ids k (gs r))) = mset [0..assigned_readers (gs q) k - 1]"
proof -
  have w: "0 < w" using q by simp
  obtain meta rs vs where fam:
    "\<And>r. 0 \<le> r \<Longrightarrow> r < w \<Longrightarrow> \<exists>f. compiled_from env program r w gopts f meta rs vs (gs r)"
    using compiled_family[OF gs w] by blast
  show ?thesis by (rule compiled_graph_readers[OF ok fam q])
qed

theorem compile_reader_numbers_witness:
  "(\<Sum>r \<in> {0..<2}. mset (graph_reader_ids (ProgressKey PS_INPUT 0 0 0) (ex_g r))) =
     mset [0..assigned_readers (ex_g 1) (ProgressKey PS_INPUT 0 0 0) - 1]"
  using compile_reader_numbers[of 2 ex_env ex_program ex_opts ex_g, OF ex_compiles ex_ranks, of 1] by simp

text \<open>
  C4. Rank independence. Every rank of a world succeeds or fails with the same error, and
  the reader assignments of two ranks are equal.
\<close>

theorem compile_rank_independent:
  assumes "0 \<le> r" "r < w" "0 \<le> q" "q < w"
  shows "map_sum id g_reader_assignment (compileGraph env program r w gopts) =
         map_sum id g_reader_assignment (compileGraph env program q w gopts)"
  using assms by (rule compile_assignment_rank)

theorem compile_rank_independent_witness:
  "map_sum id g_reader_assignment (compileGraph ex_env ex_program 0 2 ex_opts) =
   map_sum id g_reader_assignment (compileGraph ex_env ex_program 1 2 ex_opts)"
  by (rule compile_rank_independent) simp_all

text \<open>
  C5. Program order. An instruction becomes a node of its execution rank that writes the
  version after the writes before it, reads of each source the last version written before
  it (for a source that is not an input and is only written later, its final version), and
  is guarded by the version it overwrites.
\<close>

theorem compile_program_order:
  assumes g: "compileGraph env program r w gopts = Inr g"
    and j: "j < length (p_all_instructions program)"
    and x: "fst (placement_of (push_of env) (p_all_instructions program ! j)) = r"
    and b: "produced_base_for_inst (version_env_of program w gopts) (p_all_instructions program ! j) = Some b"
  shows "\<exists>n \<in> set (g_nodes g). n_op n = i_op (p_all_instructions program ! j) \<and>
     n_output n = with_version b
       (int (writes (version_env_of program w gopts) (take j (p_all_instructions program)) b) + 1) \<and>
     map ni_key (n_inputs n) = map (read_key (version_env_of program w gopts) (input_bases program w)
        (take j (p_all_instructions program)))
        (src_bases (version_env_of program w gopts) (p_all_instructions program ! j)) \<and>
     n_overwrite_guard n = Some (with_version b
       (int (writes (version_env_of program w gopts) (take j (p_all_instructions program)) b)))"
proof -
  obtain f meta rs vs where r: "0 \<le> r" "r < w" and c: "compiled_from env program r w gopts f meta rs vs g"
    using compile_structure[OF g] by metis
  from compiled_instruction_node[OF c r j x b] show ?thesis .
qed

theorem compile_program_order_witness:
  "\<exists>n \<in> set (g_nodes (ex_g 1)). n_op n = D2DReduce \<and> n_output n = ProgressKey PS_OUTPUT 1 1 2 \<and>
     map ni_key (n_inputs n) = [ProgressKey PS_INPUT 0 0 0, ProgressKey PS_OUTPUT 1 1 1] \<and>
     n_overwrite_guard n = Some (ProgressKey PS_OUTPUT 1 1 1)"
proof -
  have x: "fst (placement_of (push_of ex_env) (ex_insts ! 4)) = 1" by code_simp
  have b: "produced_base_for_inst ex_ve (ex_insts ! 4) = Some (ProgressKey PS_OUTPUT 1 1 0)" by code_simp
  have wr: "writes ex_ve (take 4 ex_insts) (ProgressKey PS_OUTPUT 1 1 0) = 1" by code_simp
  have sb: "src_bases ex_ve (ex_insts ! 4) = [ProgressKey PS_INPUT 0 0 0, ProgressKey PS_OUTPUT 1 1 0]"
    by code_simp
  have w0: "writes ex_ve (take 4 ex_insts) (ProgressKey PS_INPUT 0 0 0) = 0" by code_simp
  have "maxInputChunkCount ex_program 0 = 1" by code_simp
  then have "ProgressKey PS_INPUT 0 0 0 \<in> input_bases ex_program 2"
    by (auto simp: input_bases_def deviceKey_def)
  then have rk: "map (read_key ex_ve (input_bases ex_program 2) (take 4 ex_insts)) (src_bases ex_ve (ex_insts ! 4)) =
      [ProgressKey PS_INPUT 0 0 0, ProgressKey PS_OUTPUT 1 1 1]"
    by (simp add: sb read_key_def wr w0 with_version_def)
  have op: "i_op (ex_insts ! 4) = D2DReduce" by code_simp
  have l: "length ex_insts = 5" by (simp add: ex_insts_def)
  show ?thesis
    using compile_program_order[OF ex_compiles[of 1], of 4, unfolded ex_ve ex_insts, OF _ _ _ x b]
    by (simp add: l rk wr op with_version_def)
qed




definition ex_ring_program :: ir_program where
  "ex_ring_program = \<lparr>p_name = ''ring'', p_nranks = 1, p_input_chunk_count = 1,
     p_output_chunk_count = 0, p_instructions = [],
     p_all_instructions =
       [ex_inst D2H 0 (-1) INPUT OUTPUT (ex_addr 0 0) (ex_addr 0 0),
        ex_inst H2H 0 (-1) INPUT OUTPUT (ex_addr 0 0) (ex_addr 1 0)]\<rparr>"

lemma ex_ring_graph:
  "\<not> isl (compileGraph ex_env ex_ring_program 0 1 (ex_gopts False Auto))"
  "map (\<lambda>n. (n_output n, n_output_ring n))
     (g_nodes (projr (compileGraph ex_env ex_ring_program 0 1 (ex_gopts False Auto)))) =
   [(ProgressKey PS_HOST 0 0 1, False), (ProgressKey PS_HOST 1 0 1, True)]"
  by code_simp+


text \<open>
  C8. Terminal outputs. A graph has one terminal output per user-visible output chunk, in
  chunk order: the chunk's last version, or for a staged chunk the version its copy-back
  writes; and exactly the nodes that write one of them are marked terminal.
\<close>

theorem compile_terminals:
  assumes g: "compileGraph env program r w gopts = Inr g"
  shows "map base_key (g_terminal_outputs g) =
      map (\<lambda>c. deviceKey OUTPUT r (int c) 0) [0..<nat (p_output_chunk_count program)] \<and>
    g_terminal_outputs g = map (\<lambda>c. with_version (deviceKey OUTPUT r (int c) 0)
        (int (all_writes (version_env_of program w gopts) (deviceKey OUTPUT r (int c) 0)) +
         (if stage_rows gopts program w ! nat r ! c then 1 else 0)))
      [0..<nat (p_output_chunk_count program)] \<and>
    list_all (\<lambda>n. n_terminal n = (n_output n \<in> set (g_terminal_outputs g))) (g_nodes g)"
proof -
  obtain f meta rs vs where r: "0 \<le> r" "r < w" and c: "compiled_from env program r w gopts f meta rs vs g"
    using compile_structure[OF g] by metis
  have t: "g_terminal_outputs g = map (terminal_key (version_env_of program w gopts)
      (stage_rows gopts program w ! nat r) r) [0..<nat (p_output_chunk_count program)]"
    using c by (simp add: compiled_from_def Let_def)
  have "n_terminal n = (n_output n \<in> set (g_terminal_outputs g))" if n: "n \<in> set (g_nodes g)" for n
    using compiled_node_cases[OF c n]
  proof cases
    case (1 x)
    then show ?thesis by (auto simp: mark_terminal_def mk_node_def Let_def split: prod.splits)
  next
    case (2 x)
    have "terminal_key (version_env_of program w gopts) (graph_row program w gopts r) r x
        \<in> set (g_terminal_outputs g)"
      unfolding t using 2(1) by (auto simp: staged_chunks_def graph_row_def)
    then show ?thesis using 2(2) by (simp add: mark_terminal_def)
  qed
  then show ?thesis by (auto simp: t list_all_iff terminal_key_def out_base_def)
qed

theorem compile_terminals_witness:
  "map base_key (g_terminal_outputs (ex_g 1)) =
     map (\<lambda>c. deviceKey OUTPUT 1 (int c) 0) [0..<2] \<and>
   list_all (\<lambda>n. n_terminal n = (n_output n \<in> set (g_terminal_outputs (ex_g 1)))) (g_nodes (ex_g 1))"
proof -
  have c: "nat (p_output_chunk_count ex_program) = 2" by (simp add: ex_program_def)
  have r: "(0 :: int) \<le> 1" "(1 :: int) < 2" by simp_all
  from compile_terminals[OF ex_compiles[OF r], unfolded c] show ?thesis
    by (elim conjE) (intro conjI)
qed

text \<open>
  Schedule. When input copies are prioritised and the graph has remote copies, the nodes
  of the finished graph are ordered by their class, and within a class they keep the order in
  which they were created.
\<close>

theorem schedule_stable:
  assumes "d2d_input_first_env env = None" "prioritize_input_d2d gopts"
    and "g_has_remote_d2d (fst (foldl (terminal_step final (in_place_mode (legacy_layout gopts)) row rank)
             (g, lat) [0..<nat (g_output_chunk_count g)]))"
  shows "sorted (map nodeScheduleClass (g_nodes (finish_graph env gopts final row rank g lat))) \<and>
    filter (\<lambda>n. nodeScheduleClass n = k) (g_nodes (finish_graph env gopts final row rank g lat)) =
    filter (\<lambda>n. nodeScheduleClass n = k)
      (map (mark_terminal (g_terminal_outputs (finish_graph env gopts final row rank g lat)))
        (g_nodes (fst (foldl (terminal_step final (in_place_mode (legacy_layout gopts)) row rank)
             (g, lat) [0..<nat (g_output_chunk_count g)]))))"
proof -
  obtain g2 lat2 where f: "foldl (terminal_step final (in_place_mode (legacy_layout gopts)) row rank)
             (g, lat) [0..<nat (g_output_chunk_count g)] = (g2, lat2)" by fastforce
  have pr: "envOverridesD2DInputFirst None = None" by (simp add: envOverridesD2DInputFirst_def)
  have n: "g_nodes (finish_graph env gopts final row rank g lat) =
      sort_key nodeScheduleClass (map (mark_terminal (g_terminal_outputs g2)) (g_nodes g2))"
    and t: "g_terminal_outputs (finish_graph env gopts final row rank g lat) = g_terminal_outputs g2"
    using assms by (simp_all add: finish_graph_def f Let_def pr)
  show ?thesis by (simp add: n t f sort_key_stable)
qed

theorem schedule_stable_witness:
  "sorted (map nodeScheduleClass (g_nodes (finish_graph ex_env ex_opts [] [] 0
     (graph_skeleton ex_env ex_program 0 2 ex_opts\<lparr>g_output_chunk_count := 0\<rparr>) [])))"
proof -
  have r: "g_has_remote_d2d (graph_skeleton ex_env ex_program 0 2 ex_opts)" by code_simp
  have e: "d2d_input_first_env ex_env = None" "prioritize_input_d2d ex_opts"
    by (simp_all add: ex_env_def ex_gopts_def)
  show ?thesis
    using schedule_stable[OF e, of "[]" "[]" 0
        "graph_skeleton ex_env ex_program 0 2 ex_opts\<lparr>g_output_chunk_count := 0\<rparr>" "[]"] r by simp
qed

end
