(* ===== verification/CompiledPipeline.thy ===== *)
theory CompiledPipeline
  imports PipelineLive CompilerProps
begin

text \<open>
  The graphs that \<^verbatim>\<open>compileGraph\<close> makes of a program for all its ranks, running together:
  for out-of-place programs that initialise what they read, the family of nodes has the
  properties \<open>Pipeline\<close> and \<open>PipelineLive\<close> ask for.
\<close>

section \<open>Which programs\<close>

definition all_ranks :: "int \<Rightarrow> (int \<Rightarrow> 'a list) \<Rightarrow> 'a list" where
  "all_ranks w f = concat (map f [0..w - 1])"

lemma in_all_ranks: "x \<in> set (all_ranks w f) \<longleftrightarrow> (\<exists>r. 0 \<le> r \<and> r < w \<and> x \<in> set (f r))"
  by (auto simp: all_ranks_def)

text \<open>The input chunks of all ranks.\<close>

definition input_keys :: "ir_program \<Rightarrow> int \<Rightarrow> progress_key list" where
  "input_keys program w = all_ranks w (\<lambda>r. own_input_keys r (maxInputChunkCount program r))"

lemma set_input_keys: "set (input_keys program w) = input_bases program w"
proof -
  have o: "set (own_input_keys r n) = {deviceKey INPUT r c 0 | c. 0 \<le> c \<and> c < n}" for r n
  proof (intro set_eqI iffI)
    fix k assume "k \<in> {deviceKey INPUT r c 0 | c. 0 \<le> c \<and> c < n}"
    then obtain c where "k = deviceKey INPUT r c 0" "0 \<le> c" "c < n" by blast
    then show "k \<in> set (own_input_keys r n)"
      by (auto simp: own_input_keys_def intro!: image_eqI[of _ _ "nat c"])
  qed (auto simp: own_input_keys_def)
  show ?thesis by (auto simp: input_keys_def in_all_ranks input_bases_def o)
qed

text \<open>
  Every source is an input or written earlier, no instruction overwrites what it reads
  (except the destination of a \<^verbatim>\<open>D2DReduce\<close>, which it reads as its second source), and no
  chunk is written more often than the progress table has versions.
\<close>

definition other_sources :: "version_env \<Rightarrow> instruction \<Rightarrow> progress_key list" where
  "other_sources ve inst =
     (if i_op inst = D2DReduce then take 1 (src_bases ve inst) else src_bases ve inst)"

definition program_ok :: "ir_program \<Rightarrow> int \<Rightarrow> graph_options \<Rightarrow> bool" where
  "program_ok program w gopts \<longleftrightarrow>
     (let ve = version_env_of program w gopts; insts = p_all_instructions program in
      \<not> is_in_place (legacy_layout gopts) \<and> ranks_ok program w \<and>
      list_all (\<lambda>j. list_all (\<lambda>b. b \<in> set (input_keys program w) \<or> 0 < writes ve (take j insts) b)
                      (src_bases ve (insts ! j)) \<and>
                    (case produced_base_for_inst ve (insts ! j) of None \<Rightarrow> True
                     | Some b \<Rightarrow> b \<notin> set (other_sources ve (insts ! j)) \<and>
                                 int (all_writes ve b) < MAX_PROGRESS_VERSIONS))
        [0..<length insts])"

lemma program_okD:
  assumes "program_ok program w gopts"
  shows "\<not> is_in_place (legacy_layout gopts)" and "ranks_ok program w"
    and "j < length (p_all_instructions program) \<Longrightarrow>
         b \<in> set (src_bases (version_env_of program w gopts) (p_all_instructions program ! j)) \<Longrightarrow>
         b \<in> input_bases program w \<or>
         0 < writes (version_env_of program w gopts) (take j (p_all_instructions program)) b"
    and "j < length (p_all_instructions program) \<Longrightarrow>
         produced_base_for_inst (version_env_of program w gopts) (p_all_instructions program ! j) = Some b \<Longrightarrow>
         b \<notin> set (other_sources (version_env_of program w gopts) (p_all_instructions program ! j)) \<and>
         int (all_writes (version_env_of program w gopts) b) < MAX_PROGRESS_VERSIONS"
proof -
  let ?ve = "version_env_of program w gopts" and ?insts = "p_all_instructions program"
  note ok = assms[unfolded program_ok_def Let_def list_all_iff set_input_keys]
  show "\<not> is_in_place (legacy_layout gopts)" "ranks_ok program w" using ok by blast+
  have all: "(\<forall>b \<in> set (src_bases ?ve (?insts ! j)). b \<in> input_bases program w \<or> 0 < writes ?ve (take j ?insts) b) \<and>
      (case produced_base_for_inst ?ve (?insts ! j) of None \<Rightarrow> True
       | Some b \<Rightarrow> b \<notin> set (other_sources ?ve (?insts ! j)) \<and> int (all_writes ?ve b) < MAX_PROGRESS_VERSIONS)"
    if "j < length ?insts" for j using ok that by simp
  show "j < length ?insts \<Longrightarrow> b \<in> set (src_bases ?ve (?insts ! j)) \<Longrightarrow>
      b \<in> input_bases program w \<or> 0 < writes ?ve (take j ?insts) b"
    by (drule all, drule conjunct1, erule (1) bspec)
  show "j < length ?insts \<Longrightarrow> produced_base_for_inst ?ve (?insts ! j) = Some b \<Longrightarrow>
      b \<notin> set (other_sources ?ve (?insts ! j)) \<and> int (all_writes ?ve b) < MAX_PROGRESS_VERSIONS"
    by (drule all, drule conjunct2, simp only: option.case simp_thms not_False_eq_True)
qed

section \<open>The joint configuration\<close>

definition compiled_conf ::
  "int \<Rightarrow> int \<Rightarrow> nat \<Rightarrow> nat \<Rightarrow> int \<Rightarrow> (int \<Rightarrow> compiled_graph) \<Rightarrow> pipe_conf" where
  "compiled_conf comm epoch num slots w gs =
     \<lparr>pc_comm = comm, pc_epoch = epoch, pc_num = num, pc_slots = slots,
      pc_inputs = all_ranks w (\<lambda>r. g_initial_ready_inputs (gs r)),
      pc_nodes = all_ranks w (\<lambda>r. g_nodes (gs r)),
      pc_readers = assigned_readers (gs 0)\<rparr>"

section \<open>The compiled nodes\<close>

lemma assign_readers_self:
  assumes "assign_readers op out idx counts inputs = Inr (ids, counts')" "readers_ok counts" "i < length inputs"
  shows "(snd (ids ! i) = -1 \<longleftrightarrow> op = D2DReduce \<and> idx + i = 1 \<and> sameBaseKey (inputs ! i) out) \<and> -1 \<le> snd (ids ! i)"
  using assms
proof (induction op out idx counts inputs arbitrary: ids counts' i rule: assign_readers.induct)
  case (1 op out idx counts)
  then show ?case by simp
next
  case (2 op out idx counts input inputs)
  show ?case
  proof (cases "op = D2DReduce \<and> idx = 1 \<and> sameBaseKey input out")
    case True
    then obtain ids1 where
      a: "assign_readers op out (idx + 1) counts inputs = Inr (ids1, counts')" and ids: "ids = (input, -1) # ids1"
      using "2.prems"(1) by (auto simp: sbind_Inr_iff)
    show ?thesis
    proof (cases i)
      case 0
      then show ?thesis using True ids by simp
    next
      case (Suc i')
      then show ?thesis using "2.IH"(1)[OF True a "2.prems"(2), of i'] "2.prems"(3) ids by simp
    qed
  next
    case False
    define n where "n = num_readers counts input"
    have nn: "0 \<le> n" using readers_ok_bounds[OF "2.prems"(2)] by (simp add: n_def)
    have n': "(case om_get counts input of None \<Rightarrow> 0 | Some n \<Rightarrow> n) = n" by (simp add: n_def num_readers_def)
    have lt: "n < MAX_PROGRESS_READERS"
      and rng: "\<not> (pk_space input = PS_HOST \<and> \<not> meta_in_range (pk_owner input) (pk_chunk input))"
      using "2.prems"(1) False n' by (auto simp: Let_def split: if_splits)
    obtain ids1 where
      a: "assign_readers op out (idx + 1) (om_put input (n + 1) counts) inputs = Inr (ids1, counts')"
      and ids: "ids = (input, n) # ids1"
      using "2.prems"(1) False lt rng n' by (auto simp: Let_def sbind_Inr_iff)
    have ok1: "readers_ok (om_put input (n + 1) counts)" using "2.prems"(2) nn lt by (auto simp: readers_ok_def)
    show ?thesis
    proof (cases i)
      case 0
      then show ?thesis using False nn ids by auto
    next
      case (Suc i')
      then show ?thesis
        using "2.IH"(2)[OF False refl, unfolded n', OF _ rng a ok1, of i'] lt "2.prems"(3) ids by simp
    qed
  qed
qed

lemma resolve_all_assign:
  assumes "resolve_all ve final vs insts = Inr (rs, vs')" "readers_ok (vs_readers vs)" "j < length insts"
  shows "\<exists>counts counts'. readers_ok counts \<and>
     assign_readers (i_op (insts ! j)) (r_output (rs ! j)) 0 counts (map fst (r_inputs (rs ! j))) =
       Inr (r_inputs (rs ! j), counts')"
  using assms
proof (induction insts arbitrary: vs rs j)
  case Nil
  then show ?case by simp
next
  case (Cons inst insts)
  from Cons.prems(1) obtain r vs1 rs1 where
    r: "resolve_inst ve final vs inst = Inr (r, vs1)"
    and rest: "resolve_all ve final vs1 insts = Inr (rs1, vs')" and rs: "rs = r # rs1"
    by (auto simp: sbind_Inr_iff)
  from r obtain inputs where
    a: "assign_readers (i_op inst) (r_output r) 0 (vs_readers vs) inputs = Inr (r_inputs r, vs_readers vs1)"
    by (auto simp: resolve_inst_def sbind_Inr_iff split: prod.splits)
  have f: "map fst (r_inputs r) = inputs" by (rule assign_readers_keys[OF a])
  show ?case
  proof (cases j)
    case 0
    then show ?thesis using a f Cons.prems(2) by (auto simp: rs)
  next
    case (Suc j')
    have "readers_ok (vs_readers vs1)" using assign_readers_ids[OF a Cons.prems(2)] by blast
    then show ?thesis using Cons.IH[OF rest, of j'] Cons.prems(3) Suc by (simp add: rs)
  qed
qed

text \<open>Without in-place buffers nothing is staged.\<close>

lemma no_staging:
  assumes "\<not> is_in_place (legacy_layout gopts)" "0 \<le> rank" "rank < w"
  shows "staged_chunks program w gopts rank = []"
  using assms by (auto simp: staged_chunks_def stage_rows_def Let_def filter_empty_conv)

lemma initial_inputs:
  assumes "compileGraph env program rank w gopts = Inr g"
  shows "g_initial_ready_inputs g = own_input_keys rank (maxInputChunkCount program rank)"
proof -
  have t: "g_initial_ready_inputs (fst (foldl (terminal_step final mode row rank) st cs)) = g_initial_ready_inputs (fst st)"
    for final mode row st cs
  proof (induction cs arbitrary: st)
    case (Cons c cs)
    have "g_initial_ready_inputs (fst (terminal_step final mode row rank st c)) = g_initial_ready_inputs (fst st)"
      by (cases st) (simp add: terminal_step_def Let_def split: prod.splits)
    then show ?case using Cons.IH by simp
  qed simp
  have e: "g_initial_ready_inputs (foldl (emit_node push meta rank) g0 rs) = g_initial_ready_inputs g0" for push meta g0 rs
    by (induction rs arbitrary: g0) (simp_all add: emit_node_def Let_def)
  have f: "g_initial_ready_inputs (finish_graph env gopts final row rank g0 lat) = g_initial_ready_inputs g0" for final row g0 lat
    using t[of final _ row "(g0, lat)" "[0..<nat (g_output_chunk_count g0)]"]
    by (simp add: finish_graph_def Let_def split: prod.splits) (metis fst_conv)
  have c: "g_input_chunk_count (graph_skeleton env program rank w gopts) = maxInputChunkCount program rank"
    unfolding graph_skeleton_def Let_def by (simp only: compiled_graph.select_convs)
  have s: "g_initial_ready_inputs (start_graph env program rank w gopts) = own_input_keys rank (maxInputChunkCount program rank)"
    by (simp add: start_graph_def Let_def c)
  obtain meta rs vs where "g = assemble_graph env program rank w gopts meta rs vs"
    using assms by (auto simp: compileGraph_def sbind_Inr_iff split: if_splits)
  then show ?thesis by (simp add: assemble_graph_def Let_def e f s)
qed

text \<open>
  What is known of a node of the family: the instruction \<open>j\<close> it comes from, the chunk \<open>b\<close> it
  writes, and its keys as counts of the writes before the instruction.
\<close>

definition node_of_inst ::
  "version_env \<Rightarrow> progress_key set \<Rightarrow> instruction list \<Rightarrow> instruction_node \<Rightarrow> nat \<Rightarrow> progress_key \<Rightarrow> bool" where
  "node_of_inst ve init insts n j b \<longleftrightarrow> j < length insts \<and>
     produced_base_for_inst ve (insts ! j) = Some b \<and>
     n_output n = with_version b (int (writes ve (take j insts) b) + 1) \<and>
     n_overwrite_guard n = Some (with_version b (int (writes ve (take j insts) b))) \<and>
     (\<forall>inp \<in> set (n_inputs n). -1 \<le> ni_reader_id inp \<and>
        (\<exists>b' \<in> set (src_bases ve (insts ! j)). ni_key inp = read_key ve init (take j insts) b' \<and>
           (if ni_reader_id inp = -1 then b' = b else b' \<in> set (other_sources ve (insts ! j)))))"

lemma src_base_key: "b \<in> set (src_bases ve inst) \<Longrightarrow> base_key b = b"
  by (auto simp: src_bases_def Let_def split: op_code.splits)

lemma d2dreduce_sources:
  "i_op inst = D2DReduce \<Longrightarrow> produced_base_for_inst ve inst = Some b \<Longrightarrow>
   src_bases ve inst = [hd (src_bases ve inst), b] \<and> other_sources ve inst = [hd (src_bases ve inst)]"
  by (simp add: src_bases_def other_sources_def produced_base_for_inst_def Let_def)

lemma node_of_resolved:
  assumes c: "compiled_from env program rank w gopts f meta rs vs g" "0 \<le> rank" "rank < w"
    and j: "j < length (p_all_instructions program)" and h: "r_has_output (rs ! j)"
  shows "\<exists>b. node_of_inst (version_env_of program w gopts) (input_bases program w) (p_all_instructions program)
     (mark_terminal ts (mk_node push meta f (rs ! j))) j b"
proof -
  let ?ve = "version_env_of program w gopts" and ?insts = "p_all_instructions program"
  let ?init = "input_bases program w" and ?n = "mk_node push meta f (rs ! j)" and ?r = "rs ! j"
  note ok = compiled_resolved_ok(2)[OF c j]
  obtain b where b: "produced_base_for_inst ?ve (?insts ! j) = Some b"
    using h resolved_output(1)[OF ok] by blast
  note o = resolved_output(2)[OF ok b]
  have keys: "map fst (r_inputs ?r) = map (read_key ?ve ?init (take j ?insts)) (src_bases ?ve (?insts ! j))"
    using ok by (simp add: resolved_ok_def keys_ok_def)
  have ra: "resolve_all ?ve (final_produced ?ve) \<lparr>vs_latest = initial_latest program rank w, vs_readers = []\<rparr>
      ?insts = Inr (rs, vs)" using c(1) by (simp add: compiled_from_def Let_def)
  have "readers_ok (vs_readers \<lparr>vs_latest = initial_latest program rank w, vs_readers = []\<rparr>)"
    by (simp add: readers_ok_def)
  from resolve_all_assign[OF ra this j] obtain counts counts' where
    rk: "readers_ok counts" and a: "assign_readers (i_op (?insts ! j)) (r_output ?r) 0 counts
      (map fst (r_inputs ?r)) = Inr (r_inputs ?r, counts')" by blast
  have inp: "-1 \<le> rid \<and> (\<exists>b' \<in> set (src_bases ?ve (?insts ! j)). k = read_key ?ve ?init (take j ?insts) b' \<and>
      (if rid = -1 then b' = b else b' \<in> set (other_sources ?ve (?insts ! j))))"
    if kr: "(k, rid) \<in> set (r_inputs ?r)" for k rid
  proof -
    obtain i where i: "i < length (r_inputs ?r)" "r_inputs ?r ! i = (k, rid)"
      using kr by (auto simp: in_set_conv_nth)
    have l: "length (r_inputs ?r) = length (src_bases ?ve (?insts ! j))"
      using arg_cong[OF keys, of length] by simp
    define b' where "b' = src_bases ?ve (?insts ! j) ! i"
    have m: "b' \<in> set (src_bases ?ve (?insts ! j))" using i(1) l by (simp add: b'_def)
    have k: "k = read_key ?ve ?init (take j ?insts) b'"
      using arg_cong[OF keys, of "\<lambda>xs. xs ! i"] i l by (simp add: b'_def)
    have self: "(rid = -1 \<longleftrightarrow> i_op (?insts ! j) = D2DReduce \<and> i = 1 \<and> sameBaseKey k (r_output ?r)) \<and> -1 \<le> rid"
      using assign_readers_self[OF a rk, of i] i by simp
    have base: "sameBaseKey k (r_output ?r) \<longleftrightarrow> b' = b"
      using src_base_key[OF m] produced_base_version[OF b] o k
      by (simp add: sameBase_iff read_key_def)
    have two: "b' = b" if "i_op (?insts ! j) = D2DReduce" "i = 1"
      unfolding b'_def that(2) by (subst d2dreduce_sources[OF that(1) b, THEN conjunct1]) simp
    have zero: "b' \<in> set (other_sources ?ve (?insts ! j))" if "\<not> (i_op (?insts ! j) = D2DReduce \<and> i = 1)"
    proof (cases "i_op (?insts ! j) = D2DReduce")
      case True
      note d = d2dreduce_sources[OF True b]
      have "length (src_bases ?ve (?insts ! j)) = 2" using arg_cong[OF conjunct1[OF d], of length] by simp
      then have "i = 0" using True that i(1) l by simp
      then show ?thesis unfolding b'_def conjunct2[OF d] by (subst conjunct1[OF d]) simp
    next
      case False
      then show ?thesis using m by (simp add: other_sources_def)
    qed
    show ?thesis
      using m k self base two zero by (intro conjI bexI[of _ b']) auto
  qed
  have g: "n_overwrite_guard ?n = Some (with_version b (int (writes ?ve (take j ?insts) b)))"
    using o by (intro mk_node_guard) simp_all
  have "node_of_inst ?ve ?init ?insts (mark_terminal ts ?n) j b"
    unfolding node_of_inst_def n_output_mark n_inputs_mark n_guard_mark g mk_node_sel
    using j b o inp by fastforce
  then show ?thesis by blast
qed

section \<open>The family of all ranks\<close>

definition family_of ::
  "pccl_env \<Rightarrow> ir_program \<Rightarrow> int \<Rightarrow> graph_options \<Rightarrow> meta_table \<Rightarrow> resolved list \<Rightarrow> version_state \<Rightarrow>
   (int \<Rightarrow> compiled_graph) \<Rightarrow> bool" where
  "family_of env program w gopts meta rs vs gs \<longleftrightarrow> 0 < w \<and>
     (\<forall>r. 0 \<le> r \<longrightarrow> r < w \<longrightarrow> (\<exists>f. compiled_from env program r w gopts f meta rs vs (gs r)))"

lemma family_ofD:
  "family_of env program w gopts meta rs vs gs \<Longrightarrow> 0 \<le> r \<Longrightarrow> r < w \<Longrightarrow>
   \<exists>f. compiled_from env program r w gopts f meta rs vs (gs r)"
  by (simp add: family_of_def)

lemma family_node:
  assumes fam: "family_of env program w gopts meta rs vs gs" and ok: "program_ok program w gopts"
    and n: "n \<in> set (all_ranks w (\<lambda>r. g_nodes (gs r)))"
  shows "\<exists>j b. node_of_inst (version_env_of program w gopts) (input_bases program w)
    (p_all_instructions program) n j b"
proof -
  obtain r where r: "0 \<le> r" "r < w" "n \<in> set (g_nodes (gs r))" using n by (auto simp: in_all_ranks)
  obtain f where c: "compiled_from env program r w gopts f meta rs vs (gs r)"
    using family_ofD[OF fam r(1,2)] by blast
  from compiled_node_cases[OF c r(3)] show ?thesis
  proof cases
    case (1 x)
    obtain j where j: "j < length (p_all_instructions program)" "rs ! j = x"
      using 1(1) compiled_resolved_ok(1)[OF c r(1,2)] by (auto simp: in_set_conv_nth)
    have "r_has_output (rs ! j)" using 1(2) j(2) by (simp add: executes_on_iff)
    from node_of_resolved[OF c r(1,2) j(1) this, where ts = "g_terminal_outputs (gs r)" and push = "push_of env"]
    show ?thesis using 1(3) j(2) by blast
  next
    case (2 k)
    then show ?thesis using no_staging[OF program_okD(1)[OF ok] r(1,2)] by simp
  qed
qed

lemma distinct_concat_map:
  "distinct xs \<Longrightarrow> (\<And>x. x \<in> set xs \<Longrightarrow> distinct (f x)) \<Longrightarrow>
   (\<And>x y. x \<in> set xs \<Longrightarrow> y \<in> set xs \<Longrightarrow> x \<noteq> y \<Longrightarrow> set (f x) \<inter> set (f y) = {}) \<Longrightarrow>
   distinct (concat (map f xs))"
  by (induction xs) fastforce+

lemma distinct_concat_nth_disjoint:
  "distinct (concat xss) \<Longrightarrow> i < length xss \<Longrightarrow> j < length xss \<Longrightarrow> i \<noteq> j \<Longrightarrow> set (xss ! i) \<inter> set (xss ! j) = {}"
proof (induction xss arbitrary: i j)
  case (Cons xs xss)
  have d: "set xs \<inter> set (xss ! k) = {}" if "k < length xss" for k
  proof -
    have "set xs \<inter> \<Union> (set ` set xss) = {}" using Cons.prems(1) by simp
    then show ?thesis using nth_mem[OF that] by blast
  qed
  show ?case
    using Cons.prems Cons.IH d by (cases i; cases j) (auto simp: Int_commute)
qed simp

lemma family_outputs_distinct:
  assumes fam: "family_of env program w gopts meta rs vs gs"
  shows "distinct (map n_output (all_ranks w (\<lambda>r. g_nodes (gs r))))"
proof -
  have "distinct (concat (map (\<lambda>r. map n_output (g_nodes (gs r))) [0..w - 1]))"
  proof (rule distinct_concat_map)
    fix r assume "r \<in> set [0..w - 1]"
    then have r: "0 \<le> r" "r < w" by simp_all
    obtain f where c: "compiled_from env program r w gopts f meta rs vs (gs r)"
      using family_ofD[OF fam r] by blast
    show "distinct (map n_output (g_nodes (gs r)))" by (rule compiled_outputs_distinct[OF c r])
    fix q assume "q \<in> set [0..w - 1]" and ne: "r \<noteq> q"
    then have q: "0 \<le> q" "q < w" by simp_all
    obtain f' where d: "compiled_from env program q w gopts f' meta rs vs (gs q)"
      using family_ofD[OF fam q] by blast
    show "set (map n_output (g_nodes (gs r))) \<inter> set (map n_output (g_nodes (gs q))) = {}"
      by (rule compiled_outputs_disjoint[OF c r d q ne])
  qed simp
  then show ?thesis by (simp add: all_ranks_def map_concat comp_def)
qed

lemma family_readers:
  assumes fam: "family_of env program w gopts meta rs vs gs" and ok: "program_ok program w gopts"
  shows "mset (concat (map (node_reader_ids k) (all_ranks w (\<lambda>r. g_nodes (gs r))))) =
    mset [0..assigned_readers (gs 0) k - 1]"
proof -
  have w: "0 < w" using fam by (simp add: family_of_def)
  have c: "concat (map h (concat xss)) = concat (map (\<lambda>xs. concat (map h xs)) xss)"
    for h :: "instruction_node \<Rightarrow> int list" and xss by (induction xss) simp_all
  have "{0..<w} = set [0..w - 1]" by auto
  then have s: "mset_set {0..<w} = mset [0..w - 1]" using mset_set_set[OF distinct_upto] by metis
  have "mset (concat (map (node_reader_ids k) (all_ranks w (\<lambda>r. g_nodes (gs r))))) =
      (\<Sum>r \<in># mset [0..w - 1]. mset (graph_reader_ids k (gs r)))"
    unfolding all_ranks_def c mset_concat_map[symmetric] by (simp add: graph_reader_ids_def comp_def)
  also have "\<dots> = (\<Sum>r \<in> {0..<w}. mset (graph_reader_ids k (gs r)))"
    unfolding s[symmetric] by (rule sum_unfold_sum_mset[symmetric])
  also have "\<dots> = mset [0..assigned_readers (gs 0) k - 1]"
    by (rule compiled_graph_readers[OF program_okD(2)[OF ok] family_ofD[OF fam]]) (use w in simp_all)
  finally show ?thesis .
qed

lemma writes_mono: "i \<le> j \<Longrightarrow> writes ve (take i insts) b \<le> writes ve (take j insts) b"
  using writes_take_le[of ve i "take j insts" b] by (simp add: min_def)

lemma versions_fit:
  assumes ok: "program_ok program w gopts"
  shows "int (all_writes (version_env_of program w gopts) b) < MAX_PROGRESS_VERSIONS"
proof (cases "all_writes (version_env_of program w gopts) b = 0")
  case True
  then show ?thesis by (simp add: MAX_PROGRESS_VERSIONS_def)
next
  case False
  then obtain j where "j < length (p_all_instructions program)"
    "produced_base_for_inst (version_env_of program w gopts) (p_all_instructions program ! j) = Some b"
    using nth_write[of 0 "version_env_of program w gopts" "p_all_instructions program" b] by auto
  from program_okD(4)[OF ok this] show ?thesis by blast
qed

lemma node_reads:
  assumes ok: "program_ok program w gopts"
    and n: "node_of_inst (version_env_of program w gopts) (input_bases program w) (p_all_instructions program) n j b"
    and inp: "inp \<in> set (n_inputs n)"
  shows "\<exists>b'. base_key b' = b' \<and>
     ni_key inp = with_version b' (int (writes (version_env_of program w gopts) (take j (p_all_instructions program)) b')) \<and>
     -1 \<le> ni_reader_id inp \<and> (ni_reader_id inp = -1 \<longleftrightarrow> b' = b) \<and>
     (b' \<in> input_bases program w \<or>
      0 < writes (version_env_of program w gopts) (take j (p_all_instructions program)) b')"
proof -
  let ?ve = "version_env_of program w gopts" and ?insts = "p_all_instructions program"
  from n have j: "j < length ?insts" and b: "produced_base_for_inst ?ve (?insts ! j) = Some b"
    by (simp_all add: node_of_inst_def)
  from n inp obtain b' where b': "b' \<in> set (src_bases ?ve (?insts ! j))" "-1 \<le> ni_reader_id inp"
    "ni_key inp = read_key ?ve (input_bases program w) (take j ?insts) b'"
    "if ni_reader_id inp = -1 then b' = b else b' \<in> set (other_sources ?ve (?insts ! j))"
    unfolding node_of_inst_def by blast
  have i: "b' \<in> input_bases program w \<or> 0 < writes ?ve (take j ?insts) b'"
    by (rule program_okD(3)[OF ok j b'(1)])
  have "b \<notin> set (other_sources ?ve (?insts ! j))" using program_okD(4)[OF ok j b] by blast
  then show ?thesis using b' i src_base_key[OF b'(1)]
    by (intro exI[of _ b']) (auto simp: read_key_def split: if_splits)
qed

section \<open>The family is well formed and live\<close>

text \<open>The same fact for the \<open>i\<close>-th node of the joint configuration.\<close>

definition node_pos :: "ir_program \<Rightarrow> int \<Rightarrow> graph_options \<Rightarrow> pipe_conf \<Rightarrow> nat \<Rightarrow> nat \<Rightarrow> progress_key \<Rightarrow> bool" where
  "node_pos program w gopts c i j b \<longleftrightarrow> i < length (pc_nodes c) \<and>
     node_of_inst (version_env_of program w gopts) (input_bases program w) (p_all_instructions program)
       (pc_nodes c ! i) j b"

abbreviation before :: "ir_program \<Rightarrow> int \<Rightarrow> graph_options \<Rightarrow> nat \<Rightarrow> progress_key \<Rightarrow> nat" where
  "before program w gopts j b \<equiv> writes (version_env_of program w gopts) (take j (p_all_instructions program)) b"

lemma compiled_conf_sel [simp]:
  "pc_nodes (compiled_conf comm epoch num slots w gs) = all_ranks w (\<lambda>r. g_nodes (gs r))"
  "pc_slots (compiled_conf comm epoch num slots w gs) = slots"
  "pc_num (compiled_conf comm epoch num slots w gs) = num"
  "pc_inputs (compiled_conf comm epoch num slots w gs) = all_ranks w (\<lambda>r. g_initial_ready_inputs (gs r))"
  "pc_readers (compiled_conf comm epoch num slots w gs) = assigned_readers (gs 0)"
  by (simp_all add: compiled_conf_def)

lemma node_posD:
  assumes "node_pos program w gopts c i j b"
  shows "i < length (pc_nodes c)" "j < length (p_all_instructions program)"
    "produced_base_for_inst (version_env_of program w gopts) (p_all_instructions program ! j) = Some b"
    "base_key b = b"
    "output_of c i = with_version b (int (before program w gopts j b) + 1)"
    "prev_version (output_of c i) = with_version b (int (before program w gopts j b))"
    "n_overwrite_guard (pc_nodes c ! i) = Some (prev_version (output_of c i))"
  using assms produced_base_version[of "version_env_of program w gopts" "p_all_instructions program ! j" b]
  by (auto simp: node_pos_def node_of_inst_def output_of_def prev_version_def)

lemma node_pos_reads:
  assumes "program_ok program w gopts" "node_pos program w gopts c i j b" "reads c i inp"
  shows "\<exists>b'. base_key b' = b' \<and> ni_key inp = with_version b' (int (before program w gopts j b')) \<and>
     -1 \<le> ni_reader_id inp \<and> (ni_reader_id inp = -1 \<longleftrightarrow> b' = b) \<and>
     (b' \<in> input_bases program w \<or> 0 < before program w gopts j b')"
  by (rule node_reads[OF assms(1) conjunct2[OF assms(2)[unfolded node_pos_def]] conjunct2[OF assms(3)[unfolded reads_def]]])

lemma same_version:
  "base_key a = a \<Longrightarrow> base_key b = b \<Longrightarrow> with_version a (int x) = with_version b (int y) \<Longrightarrow> a = b \<and> x = y"
  by (metis of_nat_eq_iff with_version_eq_iff)

text \<open>Positions follow versions.\<close>

lemma pos_less_write:
  assumes "node_pos program w gopts c i j b" "before program w gopts j b < before program w gopts j' b"
  shows "j < j'"
  using assms(2) writes_mono[of j' j] by (metis not_le)

lemma writer_before:
  assumes m: "node_pos program w gopts c m jm bm"
    and e: "with_version b (int (before program w gopts j b)) = output_of c m" and b: "base_key b = b"
  shows "jm < j"
proof -
  have "with_version b (int (before program w gopts j b)) = with_version bm (int (before program w gopts jm bm + 1))"
    using e node_posD(5)[OF m] by (simp add: add.commute)
  from same_version[OF b node_posD(4)[OF m] this] have "b = bm" "before program w gopts jm bm < before program w gopts j bm"
    by auto
  then show ?thesis using pos_less_write[OF m] by blast
qed

lemma family_positions:
  assumes fam: "family_of env program w gopts meta rs vs gs" and ok: "program_ok program w gopts"
  obtains p base where
    "\<And>i. i < length (pc_nodes (compiled_conf comm epoch num slots w gs)) \<Longrightarrow>
      node_pos program w gopts (compiled_conf comm epoch num slots w gs) i (p i) (base i)"
proof -
  let ?c = "compiled_conf comm epoch num slots w gs"
  have "\<exists>j b. node_pos program w gopts ?c i j b" if "i < length (pc_nodes ?c)" for i
    using family_node[OF fam ok, of "pc_nodes ?c ! i"] that by (simp add: node_pos_def)
  then have "\<exists>p base. \<forall>i < length (pc_nodes ?c). node_pos program w gopts ?c i (p i) (base i)" by metis
  then show ?thesis using that by blast
qed

lemma reader_id_used:
  assumes fam: "family_of env program w gopts meta rs vs gs" and ok: "program_ok program w gopts"
    and c: "c = compiled_conf comm epoch num slots w gs"
  shows "reads c i inp \<Longrightarrow> ni_reader_id inp \<noteq> -1 \<Longrightarrow> 0 \<le> ni_reader_id inp \<and> ni_reader_id inp < pc_readers c (ni_key inp)"
    and "0 \<le> r \<Longrightarrow> r < pc_readers c k \<Longrightarrow> \<exists>j inp. reads c j inp \<and> ni_key inp = k \<and> ni_reader_id inp = r"
    and "reads c i inp \<Longrightarrow> reads c j inp' \<Longrightarrow> ni_key inp = ni_key inp' \<Longrightarrow> 0 \<le> ni_reader_id inp \<Longrightarrow>
       ni_reader_id inp = ni_reader_id inp' \<Longrightarrow> i = j"
    and "0 \<le> pc_readers c k" and "pc_readers c k \<le> MAX_PROGRESS_READERS"
proof -
  have ids: "mset (concat (map (node_reader_ids k) (pc_nodes c))) = mset [0..pc_readers c k - 1]" for k
    using family_readers[OF fam ok] by (simp add: c)
  have set_ids: "set (concat (map (node_reader_ids k) (pc_nodes c))) = {0..pc_readers c k - 1}" for k
    using arg_cong[OF ids, of set_mset k] by simp
  have one: "ni_reader_id inp \<in> set (node_reader_ids (ni_key inp) (pc_nodes c ! i))"
    if "reads c i inp" "ni_reader_id inp \<noteq> -1" for i inp
    using that by (auto simp: reads_def node_reader_ids_def)
  show "reads c i inp \<Longrightarrow> ni_reader_id inp \<noteq> -1 \<Longrightarrow> 0 \<le> ni_reader_id inp \<and> ni_reader_id inp < pc_readers c (ni_key inp)"
  proof -
    assume r: "reads c i inp" "ni_reader_id inp \<noteq> -1"
    have "pc_nodes c ! i \<in> set (pc_nodes c)" using r(1) by (simp add: reads_def)
    then have "ni_reader_id inp \<in> set (concat (map (node_reader_ids (ni_key inp)) (pc_nodes c)))"
      using one[OF r] by auto
    then show ?thesis unfolding set_ids by simp
  qed
  show "\<exists>j inp. reads c j inp \<and> ni_key inp = k \<and> ni_reader_id inp = r" if "0 \<le> r" "r < pc_readers c k"
  proof -
    have "r \<in> set (concat (map (node_reader_ids k) (pc_nodes c)))" using that unfolding set_ids by simp
    then obtain n inp where n: "n \<in> set (pc_nodes c)" "inp \<in> set (n_inputs n)" "ni_key inp = k" "ni_reader_id inp = r"
      by (auto simp: node_reader_ids_def)
    then show ?thesis by (auto simp: reads_def in_set_conv_nth)
  qed
  show "i = j" if "reads c i inp" "reads c j inp'" "ni_key inp = ni_key inp'" "0 \<le> ni_reader_id inp"
    "ni_reader_id inp = ni_reader_id inp'"
  proof (rule ccontr)
    assume ne: "i \<noteq> j"
    let ?f = "map (node_reader_ids (ni_key inp)) (pc_nodes c)"
    have "distinct (concat ?f)" using mset_eq_imp_distinct_iff[OF ids] by simp
    then have "set (?f ! i) \<inter> set (?f ! j) = {}"
      using that(1,2) ne distinct_concat_nth_disjoint[of ?f i j] by (simp add: reads_def)
    then show False using one[OF that(1)] one[OF that(2)] that by (auto simp: reads_def)
  qed
  obtain f where cq: "compiled_from env program 0 w gopts f meta rs vs (gs 0)"
    using family_ofD[OF fam, of 0] fam by (auto simp: family_of_def)
  have r: "resolve_all (version_env_of program w gopts) (final_produced (version_env_of program w gopts))
      \<lparr>vs_latest = initial_latest program 0 w, vs_readers = []\<rparr> (p_all_instructions program) = Inr (rs, vs)"
    using cq by (simp add: compiled_from_def Let_def)
  have "readers_ok (vs_readers vs)" using resolve_all_readers[OF r] by (simp add: readers_ok_def)
  from readers_ok_bounds[OF this, of k] show "0 \<le> pc_readers c k" "pc_readers c k \<le> MAX_PROGRESS_READERS"
    by (simp_all add: c assigned_readers_compiled[OF cq])
qed

lemma version_writer_node:
  assumes fam: "family_of env program w gopts meta rs vs gs" and ok: "program_ok program w gopts"
    and c: "c = compiled_conf comm epoch num slots w gs"
    and b: "0 < v" "v \<le> all_writes (version_env_of program w gopts) b"
  shows "\<exists>m < length (pc_nodes c). output_of c m = with_version b (int v)"
proof -
  have w: "0 < w" using fam by (simp add: family_of_def)
  obtain k where k: "v = Suc k" using b(1) gr0_conv_Suc by blast
  then have "k < all_writes (version_env_of program w gopts) b" using b(2) by simp
  from version_written_by_node[OF family_ofD[OF fam] program_okD(2)[OF ok] order_refl w this]
  obtain q n where "0 \<le> q" "q < w" "n \<in> set (g_nodes (gs q))" "n_output n = with_version b (int v)"
    using w k by (auto simp: add.commute)
  then have "n \<in> set (pc_nodes c)" "n_output n = with_version b (int v)" by (auto simp: c in_all_ranks)
  then show ?thesis by (auto simp: output_of_def in_set_conv_nth)
qed

lemma compiled_inputs:
  assumes gs: "\<And>r. 0 \<le> r \<Longrightarrow> r < w \<Longrightarrow> compileGraph env program r w gopts = Inr (gs r)"
    and c: "c = compiled_conf comm epoch num slots w gs"
  shows "set (pc_inputs c) = input_bases program w"
proof -
  have "map (\<lambda>r. g_initial_ready_inputs (gs r)) [0..w - 1] =
      map (\<lambda>r. own_input_keys r (maxInputChunkCount program r)) [0..w - 1]"
    using initial_inputs[OF gs] by simp
  then have "set (pc_inputs c) = set (input_keys program w)" by (simp add: c all_ranks_def input_keys_def)
  then show ?thesis by (simp add: set_input_keys)
qed

lemma fits_count:
  assumes "program_ok program w gopts" "n \<le> all_writes (version_env_of program w gopts) b"
  shows "version_fits (with_version b (int n))"
  using versions_fit[OF assms(1), of b] assms(2) by (simp add: version_fits_def)

lemma compiled_pipe_ok:
  assumes gs: "\<And>r. 0 \<le> r \<Longrightarrow> r < w \<Longrightarrow> compileGraph env program r w gopts = Inr (gs r)"
    and fam: "family_of env program w gopts meta rs vs gs" and ok: "program_ok program w gopts"
    and c: "c = compiled_conf comm epoch num slots w gs" and slots: "0 < slots"
  shows "pipe_ok c"
  unfolding pipe_ok_def
proof (intro conjI allI impI ballI)
  let ?ve = "version_env_of program w gopts"
  obtain p base where pos: "\<And>i. i < length (pc_nodes c) \<Longrightarrow> node_pos program w gopts c i (p i) (base i)"
    unfolding c using family_positions[OF fam ok] by metis
  have le: "before program w gopts j b \<le> all_writes ?ve b" for j b using writes_take_le[of ?ve j _ b] by simp
  have lt: "before program w gopts (p i) (base i) < all_writes ?ve (base i)" if "i < length (pc_nodes c)" for i
  proof -
    note P = node_posD[OF pos[OF that]]
    have "before program w gopts (p i) (base i) < before program w gopts (length (p_all_instructions program)) (base i)"
      using writes_take_lt[OF P(2) _ P(3)] by simp
    then show ?thesis by simp
  qed
  note R = reader_id_used[OF fam ok c]
  show "0 < pc_slots c" using slots by (simp add: c)
  show "distinct (map n_output (pc_nodes c))" using family_outputs_distinct[OF fam] by (simp add: c)
  show "version_fits (output_of c i)" if i: "i < length (pc_nodes c)" for i
    using fits_count[OF ok, of "before program w gopts (p i) (base i) + 1" "base i"] lt[OF i] node_posD(5)[OF pos[OF i]]
    by (simp add: add.commute)
  show "0 < pk_version (output_of c i)" if i: "i < length (pc_nodes c)" for i
    using node_posD(5)[OF pos[OF i]] by simp
  show "n_overwrite_guard (pc_nodes c ! i) = Some (prev_version (output_of c i))" if i: "i < length (pc_nodes c)" for i
    by (rule node_posD(7)[OF pos[OF i]])
  show "\<exists>m < length (pc_nodes c). output_of c m = prev_version (output_of c i)"
    if i: "i < length (pc_nodes c)" and v: "1 < pk_version (output_of c i)" for i
    using version_writer_node[OF fam ok c, of "before program w gopts (p i) (base i)" "base i"] le v
      node_posD(5,6)[OF pos[OF i]] by simp
  fix i inp assume r: "reads c i inp"
  have i: "i < length (pc_nodes c)" using r by (simp add: reads_def)
  obtain b where b: "base_key b = b" "ni_key inp = with_version b (int (before program w gopts (p i) b))"
    "-1 \<le> ni_reader_id inp" "ni_reader_id inp = -1 \<longleftrightarrow> b = base i"
    using node_pos_reads[OF ok pos[OF i] r] by blast
  show "version_fits (ni_key inp)" unfolding b(2) by (rule fits_count[OF ok le])
  show "\<exists>m < length (pc_nodes c). output_of c m = ni_key inp" if "0 < pk_version (ni_key inp)"
    using version_writer_node[OF fam ok c _ le] that unfolding b(2) by simp
  show "if 0 \<le> ni_reader_id inp
      then ni_reader_id inp < pc_readers c (ni_key inp) \<and> ni_reader_id inp < MAX_PROGRESS_READERS
      else ni_key inp = prev_version (output_of c i)"
  proof (cases "0 \<le> ni_reader_id inp")
    case True
    then show ?thesis using R(1)[OF r] R(5)[of "ni_key inp"] by auto
  next
    case False
    then have "b = base i" using b(3,4) by simp
    then show ?thesis using False b(2) node_posD(6)[OF pos[OF i]] by simp
  qed
next
  fix i j inp inp'
  assume "reads c i inp" "reads c j inp'" "ni_key inp = ni_key inp'" "0 \<le> ni_reader_id inp"
    "ni_reader_id inp = ni_reader_id inp'"
  then show "i = j" by (rule reader_id_used(3)[OF fam ok c])
next
  fix k assume "k \<in> set (pc_inputs c)"
  then have "pk_version k = 0" using compiled_inputs[OF gs c] by (auto simp: input_bases_def)
  then show "version_fits k" "pk_version k = 0" by (simp_all add: version_fits_def MAX_PROGRESS_VERSIONS_def)
qed

lemma compiled_pipe_live:
  assumes gs: "\<And>r. 0 \<le> r \<Longrightarrow> r < w \<Longrightarrow> compileGraph env program r w gopts = Inr (gs r)"
    and fam: "family_of env program w gopts meta rs vs gs" and ok: "program_ok program w gopts"
    and c: "c = compiled_conf comm epoch num slots w gs"
  shows "\<exists>p. pipe_live c p"
proof -
  obtain p base where pos: "\<And>i. i < length (pc_nodes c) \<Longrightarrow> node_pos program w gopts c i (p i) (base i)"
    unfolding c using family_positions[OF fam ok] by metis
  note R = reader_id_used[OF fam ok c]
  have rd: "\<exists>b. base_key b = b \<and> ni_key inp = with_version b (int (before program w gopts (p i) b)) \<and>
      -1 \<le> ni_reader_id inp \<and> (ni_reader_id inp = -1 \<longleftrightarrow> b = base i) \<and>
      (b \<in> input_bases program w \<or> 0 < before program w gopts (p i) b)" if "reads c i inp" for i inp
    using node_pos_reads[OF ok pos _] that by (simp add: reads_def)
  have "pipe_live c p"
    unfolding pipe_live_def
  proof (intro conjI allI impI)
    fix i inp m assume r: "reads c i inp" and m: "m < length (pc_nodes c)" "output_of c m = ni_key inp"
    obtain b where b: "base_key b = b" "ni_key inp = with_version b (int (before program w gopts (p i) b))"
      using rd[OF r] by blast
    show "p m < p i" using writer_before[OF pos[OF m(1)] _ b(1)] b(2) m(2) by simp
  next
    fix i inp assume r: "reads c i inp" and v: "pk_version (ni_key inp) = 0"
    obtain b where b: "base_key b = b" "ni_key inp = with_version b (int (before program w gopts (p i) b))"
      "b \<in> input_bases program w \<or> 0 < before program w gopts (p i) b" using rd[OF r] by blast
    have "before program w gopts (p i) b = 0" using v b(2) by simp
    then have "ni_key inp = b" "b \<in> input_bases program w" using b by simp_all
    then show "ni_key inp \<in> set (pc_inputs c)" using compiled_inputs[OF gs c] by simp
  next
    fix i m assume i: "i < length (pc_nodes c)" and m: "m < length (pc_nodes c)"
      and e: "output_of c m = prev_version (output_of c i)"
    show "p m < p i"
      using writer_before[OF pos[OF m] _ node_posD(4)[OF pos[OF i]]] e node_posD(6)[OF pos[OF i]] by simp
  next
    fix i j inp assume i: "i < length (pc_nodes c)" and r: "reads c j inp" and id: "0 \<le> ni_reader_id inp"
      and e: "ni_key inp = prev_version (output_of c i)"
    have j: "j < length (pc_nodes c)" using r by (simp add: reads_def)
    obtain b where b: "base_key b = b" "ni_key inp = with_version b (int (before program w gopts (p j) b))"
      "ni_reader_id inp = -1 \<longleftrightarrow> b = base j" using rd[OF r] by blast
    have "with_version b (int (before program w gopts (p j) b)) = with_version (base i) (int (before program w gopts (p i) (base i)))"
      using e b(2) node_posD(6)[OF pos[OF i]] by simp
    from same_version[OF b(1) node_posD(4)[OF pos[OF i]] this]
    have s: "b = base i" "before program w gopts (p j) (base i) = before program w gopts (p i) (base i)" by auto
    have "p j \<noteq> p i"
    proof
      assume "p j = p i"
      then have "base j = base i" using node_posD(3)[OF pos[OF i]] node_posD(3)[OF pos[OF j]] by simp
      then show False using b(3) s(1) id by simp
    qed
    moreover have "\<not> p i < p j"
      using writes_take_lt[OF _ _ node_posD(3)[OF pos[OF i]], of "p j"] node_posD(2)[OF pos[OF j]] s(2) by auto
    ultimately show "p j < p i" by simp
  next
    fix k show "0 \<le> pc_readers c k" by (rule R(4))
  next
    fix k r assume "0 \<le> r" "r < pc_readers c k"
    then show "\<exists>j inp. reads c j inp \<and> ni_key inp = k \<and> ni_reader_id inp = r" by (rule R(2))
  qed
  then show ?thesis by blast
qed

section \<open>An initial state\<close>

text \<open>All counters zero and the reader counts of the configuration.\<close>

definition loc_key :: "chunk_loc \<Rightarrow> int \<Rightarrow> progress_key" where
  "loc_key loc v = (case loc of
       HostLoc a n c \<Rightarrow> ProgressKey PS_HOST n c v
     | DeviceLoc a sp n c \<Rightarrow> ProgressKey
         (if sp = 0 then PS_INPUT else if sp = 1 then PS_OUTPUT else if sp = 2 then PS_SCRATCH else PS_INTERNAL) n c v)"

definition start_state :: "pipe_conf \<Rightarrow> pipe_state" where
  "start_state c = \<lparr>ps_shared = zero_state\<lparr>ss_chunks := (\<lambda>loc. zero_chunk
       \<lparr>cs_num_readers := (\<lambda>v. pc_readers c (loc_key loc (int v)))\<rparr>)\<rparr>,
     ps_next = (\<lambda>_. 0), ps_done = (\<lambda>_. 0)\<rparr>"

lemma loc_key_of: "version_fits k \<Longrightarrow> loc_key (chunk_loc_of comm k) (int (progressVersionIndex (pk_version k))) = k"
  using version_index_fits[of k]
  by (cases k; cases "pk_space k") (simp_all add: loc_key_def chunk_loc_of_def Let_def)

lemma start_state_init: "pipe_init c (start_state c)"
  using loc_key_of
  by (auto simp: pipe_init_def start_state_def zero_chunk_def getNumReaders_def chunkState_def)

section \<open>A concrete collective\<close>

text \<open>The two-rank program of \<open>CompilerProps\<close>, out of place, with two subchunks and two slots.\<close>

definition oop_g :: "int \<Rightarrow> compiled_graph" where
  "oop_g r = projr (compileGraph ex_env ex_program r 2 (ex_gopts False Conservative))"

abbreviation oop_conf :: pipe_conf where
  "oop_conf \<equiv> compiled_conf 0 0 2 2 2 oop_g"

abbreviation "oop_opts \<equiv> ex_gopts False Conservative"

definition oop_ve :: version_env where
  "oop_ve = \<lparr>ve_opts = legacy_layout oop_opts, ve_program = ex_program, ve_world = 2,
     ve_stage = [[False, False], [False, False]]\<rparr>"

lemma oop_ve: "version_env_of ex_program 2 oop_opts = oop_ve"
proof -
  have "stage_rows oop_opts ex_program 2 = [[False, False], [False, False]]" by code_simp
  then show ?thesis by (simp add: version_env_of_def oop_ve_def)
qed

lemma oop_pass:
  "\<not> isl (resolve_all oop_ve (final_produced oop_ve) (initial_versions ex_program 0 2) ex_insts)"
  by code_simp

lemma oop_compiles:
  assumes "0 \<le> r" "r < 2"
  shows "compileGraph ex_env ex_program r 2 oop_opts = Inr (oop_g r)"
proof -
  obtain meta where m: "host_meta_of (staging_ring_of ex_env (start_graph ex_env ex_program r 2 oop_opts))
      (p_all_instructions ex_program) = Inr meta"
    using ex_meta unfolding ex_insts by (metis isl_def sum.exhaust)
  obtain rs vs where p: "resolve_all (version_env_of ex_program 2 oop_opts)
      (final_produced (version_env_of ex_program 2 oop_opts)) (initial_versions ex_program 0 2)
      (p_all_instructions ex_program) = Inr (rs, vs)"
    using oop_pass unfolding oop_ve ex_insts by (metis isl_def sum.exhaust prod.exhaust)
  from compileGraph_ok[OF m p assms] show ?thesis by (simp add: oop_g_def)
qed

lemma oop_ok: "program_ok ex_program 2 oop_opts"
  by code_simp

text \<open>A collective that is not finished at the start has a transfer in flight on its way.\<close>

lemma in_flight_on_the_way:
  assumes "(pipe_step c)\<^sup>*\<^sup>* s t" and "\<And>i. ps_next s i = 0 \<and> ps_done s i = 0"
  shows "(\<forall>i. ps_next t i = 0 \<and> ps_done t i = 0) \<or>
    (\<exists>u i. (pipe_step c)\<^sup>*\<^sup>* s u \<and> in_flight c u i 0)"
  using assms(1)
proof (induction rule: rtranclp_induct)
  case base
  then show ?case using assms(2) by simp
next
  case (step t u)
  show ?case
  proof (cases "\<forall>i. ps_next t i = 0 \<and> ps_done t i = 0")
    case True
    from step.hyps(2) show ?thesis
    proof cases
      case (pipe_issue i)
      have "in_flight c u i 0" using pipe_issue(1,2) True by (simp add: in_flight_def)
      moreover have "(pipe_step c)\<^sup>*\<^sup>* s u" using step.hyps by simp
      ultimately show ?thesis by blast
    qed (use True in simp_all)
  qed (use step.IH in blast)
qed

lemma in_flight_somewhere:
  assumes ok: "pipe_ok c" and live: "pipe_live c p" and n: "0 < length (pc_nodes c)" "0 < pc_num c"
  obtains s i where "reach (pipe_init c) (pipe_step c) s" "in_flight c s i 0"
proof -
  have r: "reach (pipe_init c) (pipe_step c) (start_state c)" by (rule reach_init) (rule start_state_init)
  obtain t where t: "(pipe_step c)\<^sup>*\<^sup>* (start_state c) t" "finished c t" using pipe_finishes[OF ok live r] by blast
  have z: "ps_next (start_state c) i = 0 \<and> ps_done (start_state c) i = 0" for i by (simp add: start_state_def)
  have "ps_done t 0 \<noteq> 0" using t(2) n by (simp add: finished_def)
  then obtain u i where u: "(pipe_step c)\<^sup>*\<^sup>* (start_state c) u" "in_flight c u i 0"
    using in_flight_on_the_way[OF t(1) z] by (elim disjE exE conjE) simp_all
  show ?thesis by (rule that[OF reach_steps[OF r u(1)] u(2)])
qed

lemma compiled_conf_ok:
  assumes gs: "\<And>r. 0 \<le> r \<Longrightarrow> r < w \<Longrightarrow> compileGraph env program r w gopts = Inr (gs r)"
    and ok: "program_ok program w gopts" and w: "0 < w" and slots: "0 < slots"
  shows "pipe_ok (compiled_conf comm epoch num slots w gs)"
    and "\<exists>p. pipe_live (compiled_conf comm epoch num slots w gs) p"
proof -
  obtain meta rs vs where "\<And>r. 0 \<le> r \<Longrightarrow> r < w \<Longrightarrow> \<exists>f. compiled_from env program r w gopts f meta rs vs (gs r)"
    using compiled_family[OF gs w] by blast
  then have fam: "family_of env program w gopts meta rs vs gs" using w by (simp add: family_of_def)
  show "pipe_ok (compiled_conf comm epoch num slots w gs)" by (rule compiled_pipe_ok[OF gs fam ok refl slots])
  show "\<exists>p. pipe_live (compiled_conf comm epoch num slots w gs) p" by (rule compiled_pipe_live[OF gs fam ok refl])
qed

lemma oop_in_flight: "\<exists>s i. reach (pipe_init oop_conf) (pipe_step oop_conf) s \<and> in_flight oop_conf s i 0"
proof -
  have c: "pipe_ok oop_conf" "\<exists>p. pipe_live oop_conf p"
    using compiled_conf_ok[OF oop_compiles oop_ok] by simp_all
  obtain meta rs vs where "\<And>r. 0 \<le> r \<Longrightarrow> r < 2 \<Longrightarrow> \<exists>f. compiled_from ex_env ex_program r 2 oop_opts f meta rs vs (oop_g r)"
    using compiled_family[OF oop_compiles zero_less_numeral] by blast
  then have fam: "family_of ex_env ex_program 2 oop_opts meta rs vs oop_g" by (simp add: family_of_def)
  have "1 \<le> all_writes oop_ve (ProgressKey PS_HOST 0 0 0)" by code_simp
  then have "\<exists>m < length (pc_nodes oop_conf). output_of oop_conf m = with_version (ProgressKey PS_HOST 0 0 0) (int 1)"
    by (intro version_writer_node[OF fam oop_ok refl]) (simp_all add: oop_ve)
  then have "0 < length (pc_nodes oop_conf)" by linarith
  then show ?thesis using in_flight_somewhere[OF c(1)] c(2) by (metis compiled_conf_sel(3) zero_less_numeral)
qed

section \<open>Properties\<close>







end
