(* ===== verification/Executor.thy ===== *)
theory Executor
  imports ExecState
begin

text \<open>
  The calls of \<^verbatim>\<open>GraphExecutor\<close> (\<^verbatim>\<open>executor/graph_executor.cpp\<close>): submitting one subchunk of
  a node, the polling loop over a graph, the hand-over of work items between the submitting
  thread and the executor thread. Each call is a function of the executor, the world it
  shares with others, and the answers of the device and the clock.
\<close>

section \<open>Submitting a subchunk\<close>

record dev_reply =
  dr_copy_ok :: bool
  dr_record_ok :: bool
  dr_stream_ok :: "stream_op \<Rightarrow> bool"

text \<open>A subchunk that needs no transfer: published, counted and passed at once.\<close>

definition submit_at_once :: "compiled_graph \<Rightarrow> nat \<Rightarrow> nat \<Rightarrow> executor \<times> host_world \<Rightarrow> executor \<times> host_world" where
  "submit_at_once graph node_idx sc st =
     (case st of (x, w) \<Rightarrow>
       (upd_node node_idx (\<lambda>s. node_completed (node_submitted s)) x,
        upd_shared (publish_done (x_comm x) (x_epoch x) (g_nodes graph ! node_idx) sc) w))"

text \<open>\<^verbatim>\<open>skipDma()\<close> applies to the device operations.\<close>

definition skips_dma :: "exec_env \<Rightarrow> instruction_node \<Rightarrow> bool" where
  "skips_dma env node \<longleftrightarrow> skipDma (xe_skip_dma env) \<and> n_op node \<in> {D2H, H2D, D2D, D2DReduce}"

text \<open>A host copy may not run ahead of its readers by more than the lead window.\<close>

definition lead_blocked :: "executor \<Rightarrow> shared_state \<Rightarrow> instruction_node \<Rightarrow> nat \<Rightarrow> bool" where
  "lead_blocked x sh node sc \<longleftrightarrow>
     x_lead_window x \<and> n_op node = D2H \<and> 0 < getNumReaders sh (x_comm x) (n_output node) \<and>
     getConsumeProgress sh (x_comm x) (n_output node) (x_epoch x) + PCCL_D2H_LEAD_WINDOW \<le> sc"

definition submit_h2h ::
  "exec_env \<Rightarrow> dev_reply \<Rightarrow> compiled_graph \<Rightarrow> nat \<Rightarrow> nat \<Rightarrow> size_t \<Rightarrow> executor \<times> host_world \<Rightarrow> bool \<times> executor \<times> host_world" where
  "submit_h2h env dev graph node_idx sc bytes st =
     (case st of (x, w) \<Rightarrow>
       (case w_engine w of
          None \<Rightarrow> (False, finishCurrentWork (dr_stream_ok dev) pcclInternalError (x, w))
        | Some eng \<Rightarrow>
           (let c = w_next_counter w;
                (expected, eng1) = submitGraphWork (xe_pccl env) (g_nodes graph ! node_idx) (x_binding x) sc
                                     (g_chunk_size graph) bytes c (eng\<lparr>he_done := (he_done eng)(c := 0)\<rparr>);
                w1 = w\<lparr>w_engine := Some eng1, w_next_counter := c + 1\<rparr>
            in if expected = 0 then (False, finishCurrentWork (dr_stream_ok dev) pcclInternalError (x, w1))
               else (True, upd_node node_idx (\<lambda>s. node_submitted (node_h2h s))
                       (x\<lparr>x_h2h := x_h2h x @ [\<lparr>hi_node = node_idx, hi_subchunk = sc, hi_counter = c,
                                                hi_expected = expected\<rparr>]\<rparr>), w1))))"

text \<open>The rank whose readiness a peer copy waits for, -1 for none.\<close>

definition remote_ready_rank :: "instruction_node \<Rightarrow> int" where
  "remote_ready_rank node =
     (if n_op node = D2D then
        (case n_placement node of RemoteRead \<Rightarrow> n_source_rank node
         | RemoteWrite \<Rightarrow> n_destination_rank node | Local \<Rightarrow> -1)
      else -1)"

definition dma_command ::
  "executor \<Rightarrow> instruction_node \<Rightarrow> size_t \<Rightarrow> size_t \<Rightarrow> size_t \<Rightarrow> nat \<Rightarrow> dma_cmd" where
  "dma_command x node dst src bytes lane =
     \<lparr>dc_op = n_op node, dc_dst = dst, dc_src = src, dc_bytes = bytes, dc_lane = lane,
      dc_peer = (if n_op node = D2D then
         (case n_placement node of Local \<Rightarrow> None
          | RemoteWrite \<Rightarrow> Some (n_destination_rank node, x_rank x)
          | RemoteRead \<Rightarrow> Some (x_rank x, n_source_rank node)) else None)\<rparr>"

text \<open>The transfer itself: take an event slot, issue the command, record the event.\<close>

definition issue_dma ::
  "dev_reply \<Rightarrow> instruction_node \<Rightarrow> nat \<Rightarrow> nat \<Rightarrow> nat \<Rightarrow> dma_cmd \<Rightarrow> executor \<times> host_world \<Rightarrow> bool \<times> executor \<times> host_world" where
  "issue_dma dev node node_idx sc lane cmd st =
     (case st of (x, w) \<Rightarrow>
       (let info = \<lparr>ds_node = node_idx, ds_subchunk = sc, ds_size = dc_bytes cmd, ds_lane = lane,
                    ds_reader_pending = True\<rparr>;
            x1 = x\<lparr>x_rings := (x_rings x)(lane := push_info info (x_rings x lane))\<rparr>;
            w1 = w\<lparr>w_dma := w_dma w @ [cmd]\<rparr>
        in if \<not> dr_copy_ok dev then (False, finishCurrentWork (dr_stream_ok dev) pcclDeviceError (x1, w))
           else if \<not> dr_record_ok dev then (False, finishCurrentWork (dr_stream_ok dev) pcclDeviceError (x1, w1))
           else (True, upd_node node_idx node_submitted x1, w1)))"

definition submit_dma ::
  "exec_env \<Rightarrow> dev_reply \<Rightarrow> compiled_graph \<Rightarrow> nat \<Rightarrow> nat \<Rightarrow> size_t \<Rightarrow> executor \<times> host_world \<Rightarrow> bool \<times> executor \<times> host_world" where
  "submit_dma env dev graph node_idx sc bytes st =
     (case st of (x, w) \<Rightarrow>
       (let node = g_nodes graph ! node_idx; lane = selectDmaLane node in
        if isFull (x_rings x lane) then (False, x, w)
        else
         (let dst = resolve env x graph (n_output node) sc (n_output_ring node);
              src = (case n_inputs node of [] \<Rightarrow> 0
                     | i # _ \<Rightarrow> resolve env x graph (ni_key i) sc (ni_ring_buffered i))
          in if dst = 0 \<or> src = 0 \<or> bytes = 0
             then (False, finishCurrentWork (dr_stream_ok dev) pcclInvalidArgument (x, w))
             else if n_op node = D2D \<and> n_placement node = Local \<and> src = dst
             then (True, submit_at_once graph node_idx sc (x, w))
             else
              (let rr = remote_ready_rank node;
                   ask = 0 \<le> rr \<and> rr < MAX_RANKS \<and> \<not> x_seen x rr
               in if ask \<and> \<not> remoteUserReady (w_shared w) (x_comm x) (x_rank x) rr (x_slot x) (x_work_seq x)
                  then (False, x, w)
                  else issue_dma dev node node_idx sc lane (dma_command x node dst src bytes lane)
                         (if ask then x\<lparr>x_seen := (x_seen x)(rr := True)\<rparr> else x, w)))))"

definition trySubmitNode ::
  "exec_env \<Rightarrow> dev_reply \<Rightarrow> compiled_graph \<Rightarrow> nat \<Rightarrow> executor \<times> host_world \<Rightarrow> bool \<times> executor \<times> host_world" where
  "trySubmitNode env dev graph node_idx st =
     (case st of (x, w) \<Rightarrow>
       (let node = g_nodes graph ! node_idx; sc = ns_next (x_nodes x ! node_idx);
            slots = pcclRingSlotsFor (pcclHostRingSlots (host_ring_slots_env (xe_pccl env)));
            bytes = subchunkSize env graph node sc
        in if g_num_subchunks graph \<le> sc then (False, x, w)
           else if \<not> inputsReady (x_comm x) (x_epoch x) (w_shared w) node sc \<or>
                   \<not> overwriteReady slots (x_comm x) (x_epoch x) (w_shared w) node sc then (False, x, w)
           else if n_op node = NOP \<or> skips_dma env node \<or> bytes = 0
           then (True, submit_at_once graph node_idx sc (x, w))
           else if lead_blocked x (w_shared w) node sc then (False, x, w)
           else if n_op node \<in> {H2H, H2HReduce} then submit_h2h env dev graph node_idx sc bytes (x, w)
           else submit_dma env dev graph node_idx sc bytes (x, w)))"

section \<open>Running a graph\<close>

text \<open>
  \<^verbatim>\<open>waitForUserReadyAndPublishInputs\<close>: \<open>doorbell\<close> says whether the doorbell rings before the
  time-out.
\<close>

definition waitForUserReadyAndPublishInputs ::
  "bool \<Rightarrow> compiled_graph \<Rightarrow> executor \<times> host_world \<Rightarrow> pccl_result \<times> executor \<times> host_world" where
  "waitForUserReadyAndPublishInputs doorbell graph st =
     (case st of (x, w) \<Rightarrow>
        if x_inputs_published x then (pcclSuccess, x, w)
        else if w_flag w = None then (pcclInternalError, x, w)
        else if \<not> doorbell then (pcclTimeout, x, w)
        else
         (let sh1 = publishUserReadySeq (x_comm x) (x_rank x) (x_slot x) (x_work_seq x) (w_shared w);
              sh2 = foldl (\<lambda>sh key. setWriteProgress (x_comm x) key (g_num_subchunks graph) (x_epoch x) sh)
                      sh1 (g_initial_ready_inputs graph)
          in (pcclSuccess, x\<lparr>x_inputs_published := True\<rparr>, w\<lparr>w_shared := sh2\<rparr>)))"

text \<open>What one iteration of the loop observes.\<close>

record iter_obs =
  io_doorbell :: bool
  io_polls :: "nat \<Rightarrow> poll_reply list"
  io_dev :: "nat \<Rightarrow> dev_reply"
  io_stream_ok :: "stream_op \<Rightarrow> bool"
  io_timed_out :: bool

text \<open>The loop over the nodes, until a call sets an error.\<close>

fun submit_nodes ::
  "exec_env \<Rightarrow> (nat \<Rightarrow> dev_reply) \<Rightarrow> compiled_graph \<Rightarrow> nat list \<Rightarrow> bool \<Rightarrow> executor \<times> host_world \<Rightarrow> bool \<times> executor \<times> host_world" where
  "submit_nodes env dev graph [] progressed st = (progressed, st)"
| "submit_nodes env dev graph (i # is) progressed st =
     (let (p, st') = trySubmitNode env (dev i) graph i st in
      if x_last_result (fst st') \<noteq> pcclSuccess then (p \<or> progressed, st')
      else submit_nodes env dev graph is (p \<or> progressed) st')"

text \<open>One iteration: \<open>Inl\<close> leaves the loop with a result, \<open>Inr\<close> goes round again.\<close>

definition run_iteration ::
  "exec_env \<Rightarrow> iter_obs \<Rightarrow> compiled_graph \<Rightarrow> executor \<times> host_world \<Rightarrow>
   (pccl_result \<times> executor \<times> host_world + executor \<times> host_world) option" where
  "run_iteration env obs graph st =
     (let (r0, st0) = waitForUserReadyAndPublishInputs (io_doorbell obs) graph st in
      if r0 \<noteq> pcclSuccess then Some (Inl (r0, st0))
      else
        Option.bind (pollCudaEvents (io_stream_ok obs) False (io_polls obs) st0) (\<lambda>st1.
          let st2 = pollH2HCompletions st1 in
          if x_last_result (fst st2) \<noteq> pcclSuccess then Some (Inl (x_last_result (fst st2), st2))
          else
           (let (progressed, st3) = submit_nodes env (io_dev obs) graph [0..<length (g_nodes graph)] False st2 in
            if x_last_result (fst st3) \<noteq> pcclSuccess then Some (Inl (x_last_result (fst st3), st3))
            else if terminalsComplete graph (fst st3) (w_shared (snd st3)) then Some (Inl (pcclSuccess, st3))
            else if \<not> progressed \<and> io_timed_out obs then Some (Inl (pcclTimeout, st3))
            else Some (Inr st3))))"

fun run_loop ::
  "exec_env \<Rightarrow> iter_obs list \<Rightarrow> compiled_graph \<Rightarrow> executor \<times> host_world \<Rightarrow> (pccl_result \<times> executor \<times> host_world) option" where
  "run_loop env [] graph st = None"
| "run_loop env (obs # rest) graph st =
     Option.bind (run_iteration env obs graph st) (\<lambda>r.
       case r of Inl out \<Rightarrow> Some out | Inr st' \<Rightarrow> run_loop env rest graph st')"

text \<open>
  The wait for host work after the loop: one snapshot of the completion counters per turn,
  with whether the time-out has passed.
\<close>

fun drain_h2h ::
  "((nat \<Rightarrow> nat) \<times> bool) list \<Rightarrow> pccl_result \<Rightarrow> executor \<times> host_world \<Rightarrow> (pccl_result \<times> executor \<times> host_world) option" where
  "drain_h2h turns result (x, w) =
     (if x_h2h x = [] then Some (result, x, w)
      else case turns of [] \<Rightarrow> None
      | (done, timed_out) # rest \<Rightarrow>
          (let st' = pollH2HCompletions
                 (x, w\<lparr>w_engine := map_option (\<lambda>eng. eng\<lparr>he_done := done\<rparr>) (w_engine w)\<rparr>)
           in if x_h2h (fst st') \<noteq> [] \<and> timed_out then Some (pcclTimeout, st')
              else drain_h2h rest result st'))"

declare drain_h2h.simps [simp del]

record tail_obs =
  to_polls :: "nat \<Rightarrow> poll_reply list"
  to_turns :: "((nat \<Rightarrow> nat) \<times> bool) list"
  to_barrier :: bool
  to_stream_ok :: "stream_op \<Rightarrow> bool"

definition run_tail ::
  "tail_obs \<Rightarrow> compiled_graph \<Rightarrow> pccl_result \<times> executor \<times> host_world \<Rightarrow> (pccl_result \<times> executor \<times> host_world) option" where
  "run_tail obs graph st =
     (case st of (result, st0) \<Rightarrow>
       Option.bind (pollCudaEvents (to_stream_ok obs) True (to_polls obs) st0) (\<lambda>st1.
       Option.bind (drain_h2h (to_turns obs)
          (if x_last_result (fst st1) \<noteq> pcclSuccess then x_last_result (fst st1) else result) st1) (\<lambda>(result2, x, w).
         let (result3, w3) =
           (if result2 \<noteq> pcclSuccess then (result2, w)
            else if \<not> to_barrier obs then (pcclTimeout, w)
            else
             (let w1 = upd_shared (resetEpochKeys (x_comm x) (x_epoch x) (g_active_keys graph)) w in
              case w_flag w1 of None \<Rightarrow> (pcclSuccess, w1)
              | Some cf \<Rightarrow>
                  (let (r, cf') = signalComplete (to_stream_ok obs) (x_slot x) (x_work_seq x) cf
                   in (if r \<noteq> 0 then pcclDeviceError else pcclSuccess, w1\<lparr>w_flag := Some cf'\<rparr>))))
         in Some (result3, finishCurrentWork (to_stream_ok obs) result3 (x, w3)))))"

definition runGraph ::
  "exec_env \<Rightarrow> iter_obs list \<Rightarrow> tail_obs \<Rightarrow> executor \<times> host_world \<Rightarrow> (pccl_result \<times> executor \<times> host_world) option" where
  "runGraph env iters fin st =
     (case x_graph (fst st) of None \<Rightarrow> None
      | Some graph \<Rightarrow> Option.bind (run_loop env iters graph st) (run_tail fin graph))"

section \<open>Handing work over\<close>

definition hasInflight :: "executor \<Rightarrow> bool" where
  "hasInflight x \<longleftrightarrow> x_busy x \<or> x_queue x \<noteq> []"

text \<open>The condition \<^verbatim>\<open>submit\<close> waits for.\<close>

definition can_submit :: "executor \<Rightarrow> bool" where
  "can_submit x \<longleftrightarrow> x_stop x \<or> x_last_result x \<noteq> pcclSuccess \<or>
     int ((if x_busy x then 1 else 0) + length (x_queue x)) < x_queue_depth x"

text \<open>
  The first critical section of \<^verbatim>\<open>submit\<close>: a result for the caller, or the sequence number,
  epoch and slot of the new work item. \<open>ready\<close> is the result of \<^verbatim>\<open>wait_for\<close>.
\<close>

definition reserve :: "bool \<Rightarrow> executor \<Rightarrow> (pccl_result + nat \<times> int \<times> int) \<times> executor" where
  "reserve ready x =
     (if \<not> ready then (Inl pcclTimeout, x\<lparr>x_last_result := pcclTimeout\<rparr>)
      else if x_stop x then (Inl pcclInternalError, x)
      else if x_last_result x \<noteq> pcclSuccess then (Inl (x_last_result x), x)
      else
       (let work_seq = add64 (x_work_seq_counter x) 1;
            epoch = int (work_seq mod 2);
            slot = int (sub64 work_seq 1 mod int_to_size (x_queue_depth x))
        in (Inr (work_seq, epoch, slot), x\<lparr>x_work_seq_counter := work_seq\<rparr>)))"

text \<open>\<^verbatim>\<open>waitForIdle\<close>; \<open>idle\<close> is the result of its \<^verbatim>\<open>wait_for\<close>.\<close>

definition waitForIdle :: "bool \<Rightarrow> executor \<Rightarrow> pccl_result \<times> executor" where
  "waitForIdle idle x =
     (if \<not> idle then (pcclTimeout, x\<lparr>x_last_result := pcclTimeout\<rparr>) else (x_last_result x, x))"

definition drain :: "bool \<Rightarrow> executor \<Rightarrow> bool \<times> executor" where
  "drain idle x = (let x' = snd (waitForIdle idle x) in (x_last_result x' = pcclSuccess, x'))"

record submit_obs =
  so_ready :: bool
  so_stream_ok :: "stream_op \<Rightarrow> bool"
  so_idle :: bool
  so_sync_ok :: bool

text \<open>
  \<^verbatim>\<open>submit\<close>: reserve a sequence number, prepare the user stream's wait, queue the item, and for
  the first \<^verbatim>\<open>cold_start_drain_\<close> items wait until the executor is idle.
\<close>

definition submit ::
  "submit_obs \<Rightarrow> collective_op \<Rightarrow> compiled_graph \<Rightarrow> runtime_binding \<Rightarrow> nat \<Rightarrow> executor \<times> host_world \<Rightarrow>
   pccl_result \<times> executor \<times> host_world" where
  "submit obs op graph binding user_stream st =
     (case st of (x, w) \<Rightarrow>
       (case reserve (so_ready obs) x of
          (Inl r, x1) \<Rightarrow> (r, x1, w)
        | (Inr (work_seq, epoch, slot), x1) \<Rightarrow>
          (case w_flag w of None \<Rightarrow> (pcclInternalError, x1, w)
           | Some cf \<Rightarrow>
             (let (prepared, cf1) = prepareUserWait (so_stream_ok obs) slot user_stream op (x_rank x1) work_seq cf;
                  w1 = w\<lparr>w_flag := Some cf1\<rparr>
              in if prepared \<noteq> 0 then (pcclDeviceError, x1, w1)
                 else
                  (let x2 = x1\<lparr>x_queue := x_queue x1 @ [\<lparr>wi_graph = graph, wi_binding = binding,
                         wi_user_stream = user_stream, wi_epoch = epoch, wi_work_seq = work_seq, wi_slot = slot\<rparr>]\<rparr>
                   in if 0 < x_cold_start_drain x2 \<and> int work_seq \<le> x_cold_start_drain x2 then
                       (let (r, x3) = waitForIdle (so_idle obs) x2
                        in if r \<noteq> pcclSuccess then (r, x3, w1)
                           else if user_stream \<noteq> 0 \<and> \<not> so_sync_ok obs then (pcclDeviceError, x3, w1)
                           else (pcclSuccess, x3, w1))
                      else (pcclSuccess, x2, w1))))))"

text \<open>The reader counts of a graph, written before it runs.\<close>

definition set_reader_counts :: "int \<Rightarrow> compiled_graph \<Rightarrow> shared_state \<Rightarrow> shared_state" where
  "set_reader_counts comm graph sh =
     foldl (\<lambda>sh c. setNumReaders comm (cv_key c) (cv_num_readers c) sh)
       (foldl (\<lambda>sh key. setNumReaders comm key 0 sh) sh (g_active_keys graph)) (g_reader_assignment graph)"

text \<open>The executor thread takes the oldest work item; \<open>None\<close> when there is none.\<close>

definition take_work :: "executor \<times> host_world \<Rightarrow> (executor \<times> host_world) option" where
  "take_work st =
     (case st of (x, w) \<Rightarrow>
       (case x_queue x of [] \<Rightarrow> None
        | item # rest \<Rightarrow>
           Some (x\<lparr>x_queue := rest, x_graph := Some (wi_graph item), x_binding := wi_binding item,
                   x_user_stream := wi_user_stream item, x_epoch := wi_epoch item,
                   x_work_seq := wi_work_seq item, x_slot := wi_slot item,
                   x_lead_window := graphUsesMultipleHostNumas (wi_graph item),
                   x_inputs_published := False,
                   x_nodes := replicate (length (g_nodes (wi_graph item))) fresh_node,
                   x_h2h := [], x_seen := \<lambda>_. False, x_busy := True\<rparr>,
                 upd_shared (set_reader_counts (x_comm x) (wi_graph item)) w)))"

text \<open>One turn of the executor thread: a work item, from taking it to its end.\<close>

definition executor_turn ::
  "exec_env \<Rightarrow> iter_obs list \<Rightarrow> tail_obs \<Rightarrow> executor \<times> host_world \<Rightarrow> (pccl_result \<times> executor \<times> host_world) option" where
  "executor_turn env iters fin st = Option.bind (take_work st) (runGraph env iters fin)"

text \<open>The constructor, with the answers of the device.\<close>

definition new_executor ::
  "int \<Rightarrow> int \<Rightarrow> int \<Rightarrow> int \<Rightarrow> int \<Rightarrow> bool \<Rightarrow> (nat \<Rightarrow> bool) \<Rightarrow> (nat \<Rightarrow> nat \<Rightarrow> bool) \<Rightarrow> runtime_binding \<Rightarrow> executor" where
  "new_executor rank world comm queue_depth cold_drain device_ok stream_ok event_ok no_binding =
     (let no_info = \<lparr>ds_node = 0, ds_subchunk = 0, ds_size = 0, ds_lane = 0, ds_reader_pending = False\<rparr>;
          init = (\<lambda>i. initialize (event_ok i) (new_ring DEFAULT_CAPACITY no_info));
          alive = device_ok \<and> list_all stream_ok [0..<DMA_LANE_COUNT] \<and>
                  list_all (\<lambda>i. fst (init i) = 0) [0..<DMA_LANE_COUNT]
      in \<lparr>x_rank = rank, x_world = world, x_comm = comm, x_queue_depth = queue_depth,
          x_cold_start_drain = cold_drain, x_seen = \<lambda>_. False, x_rings = (\<lambda>i. snd (init i)),
          x_stop = False, x_queue = [], x_busy = False,
          x_last_result = (if alive then pcclSuccess else pcclDeviceError),
          x_graph = None, x_binding = no_binding, x_user_stream = 0, x_epoch = 0,
          x_work_seq_counter = 0, x_work_seq = 0, x_slot = 0, x_lead_window = False,
          x_inputs_published = False, x_nodes = [], x_h2h = []\<rparr>)"

end
