(* ===== verification/ExecutorRun.thy ===== *)
theory ExecutorRun
  imports Executor
begin

text \<open>
  One run of a graph on an executor: the calls of the polling loop as steps, in any order.
  Every subchunk a node has submitted is either counted as completed or still in flight in
  its lane's event ring or in the list of host operations, and a lane completes the
  subchunks of a node in order. Between the calls the host workers take turns, and the rest of
  the world, other ranks and other executors of the process, may change everything shared.
\<close>

section \<open>Runs\<close>

type_synonym exec_state = "executor \<times> host_world"

definition run_start :: "compiled_graph \<Rightarrow> runtime_binding \<Rightarrow> exec_state \<Rightarrow> bool" where
  "run_start graph b st \<longleftrightarrow> x_graph (fst st) = Some graph \<and> x_binding (fst st) = b \<and>
     x_nodes (fst st) = replicate (length (g_nodes graph)) fresh_node \<and> x_h2h (fst st) = [] \<and>
     (\<forall>lane < DMA_LANE_COUNT. ring_ok (x_rings (fst st) lane) \<and> ring_items (x_rings (fst st) lane) = [])"

inductive run_step :: "exec_env \<Rightarrow> compiled_graph \<Rightarrow> exec_state \<Rightarrow> exec_state \<Rightarrow> bool"
  for env :: exec_env and graph :: compiled_graph where
  run_inputs: "waitForUserReadyAndPublishInputs d graph st = (pcclSuccess, st') \<Longrightarrow> run_step env graph st st'"
| run_complete: "lane < DMA_LANE_COUNT \<Longrightarrow> inflight (x_rings (fst st) lane) \<noteq> 0 \<Longrightarrow>
    run_step env graph st (complete_oldest graph lane st)"
| run_h2h: "run_step env graph st (pollH2HCompletions st)"
| run_try: "i < length (g_nodes graph) \<Longrightarrow> trySubmitNode env dev graph i st = (p, st') \<Longrightarrow>
    x_graph (fst st') \<noteq> None \<Longrightarrow> run_step env graph st st'"
| run_worker: "w_engine (snd st) = Some e \<Longrightarrow> worker_turn fops numa (e, mem) = Some (e', mem') \<Longrightarrow>
    run_step env graph st (fst st, (snd st)\<lparr>w_engine := Some e'\<rparr>)"
| run_others: "(w_engine w' = None) = (w_engine (snd st) = None) \<Longrightarrow> run_step env graph st (fst st, w')"

section \<open>The bookkeeping invariant\<close>

definition node_lane :: "compiled_graph \<Rightarrow> nat \<Rightarrow> nat" where
  "node_lane graph i = selectDmaLane (g_nodes graph ! i)"

definition in_ring :: "compiled_graph \<Rightarrow> executor \<Rightarrow> nat \<Rightarrow> dma_slot list" where
  "in_ring graph x i = filter (\<lambda>s. ds_node s = i) (ring_items (x_rings x (node_lane graph i)))"

definition in_host :: "h2h_inflight list \<Rightarrow> nat \<Rightarrow> h2h_inflight list" where
  "in_host its i = filter (\<lambda>it. hi_node it = i) its"

text \<open>
  The node moves bytes by DMA for every one of its subchunks: it is not a host operation, not
  skipped, has no empty subchunk and is not a local copy of a place onto itself. Addresses
  depend on an executor through its binding only.
\<close>

definition bound_to :: "runtime_binding \<Rightarrow> executor" where
  "bound_to b = \<lparr>x_rank = 0, x_world = 0, x_comm = 0, x_queue_depth = 0, x_cold_start_drain = 0, x_seen = (\<lambda>_. False),
     x_rings = (\<lambda>_. \<lparr>er_capacity = 0, er_head = 0, er_tail = 0, er_initialized = False,
       er_info = (\<lambda>_. \<lparr>ds_node = 0, ds_subchunk = 0, ds_size = 0, ds_lane = 0, ds_reader_pending = False\<rparr>)\<rparr>),
     x_stop = False, x_queue = [], x_busy = False, x_last_result = pcclSuccess, x_graph = None, x_binding = b,
     x_user_stream = 0, x_epoch = 0, x_work_seq_counter = 0, x_work_seq = 0, x_slot = 0, x_lead_window = False,
     x_inputs_published = False, x_nodes = [], x_h2h = []\<rparr>"

lemma resolve_bound: "x_binding x = b \<Longrightarrow> resolve env x graph key sc ring = resolve env (bound_to b) graph key sc ring"
  by (simp add: resolve_def bound_to_def)

definition node_dst :: "exec_env \<Rightarrow> executor \<Rightarrow> compiled_graph \<Rightarrow> nat \<Rightarrow> nat \<Rightarrow> size_t" where
  "node_dst env x graph i sc =
     (let node = g_nodes graph ! i in resolve env x graph (n_output node) sc (n_output_ring node))"

definition node_src :: "exec_env \<Rightarrow> executor \<Rightarrow> compiled_graph \<Rightarrow> nat \<Rightarrow> nat \<Rightarrow> size_t" where
  "node_src env x graph i sc =
     (case n_inputs (g_nodes graph ! i) of [] \<Rightarrow> 0 | k # _ \<Rightarrow> resolve env x graph (ni_key k) sc (ni_ring_buffered k))"

lemma node_addr_bound:
  assumes "x_binding x = b"
  shows "node_dst env x graph i sc = node_dst env (bound_to b) graph i sc"
    "node_src env x graph i sc = node_src env (bound_to b) graph i sc"
  using resolve_bound[OF assms] by (simp_all add: node_dst_def node_src_def Let_def split: list.split)

definition transfers :: "exec_env \<Rightarrow> compiled_graph \<Rightarrow> runtime_binding \<Rightarrow> nat \<Rightarrow> bool" where
  "transfers env graph b i \<longleftrightarrow>
     (let node = g_nodes graph ! i in
      n_op node \<in> {D2H, H2D, D2D, D2DReduce} \<and> \<not> skips_dma env node \<and>
      list_all (\<lambda>sc. subchunkSize env graph node sc \<noteq> 0 \<and>
          \<not> (n_op node = D2D \<and> n_placement node = Local \<and>
             node_src env (bound_to b) graph i sc = node_dst env (bound_to b) graph i sc)) [0..<g_num_subchunks graph])"

lemma transfersD:
  assumes "transfers env graph b i" "sc < g_num_subchunks graph"
  shows "subchunkSize env graph (g_nodes graph ! i) sc \<noteq> 0" "n_op (g_nodes graph ! i) \<in> {D2H, H2D, D2D, D2DReduce}"
    "\<not> skips_dma env (g_nodes graph ! i)"
    "\<not> (n_op (g_nodes graph ! i) = D2D \<and> n_placement (g_nodes graph ! i) = Local \<and>
       node_src env (bound_to b) graph i sc = node_dst env (bound_to b) graph i sc)"
  using assms unfolding transfers_def Let_def list_all_iff by auto

definition run_inv :: "exec_env \<Rightarrow> compiled_graph \<Rightarrow> runtime_binding \<Rightarrow> h2h_inflight list \<Rightarrow> executor \<Rightarrow> bool" where
  "run_inv env graph b pend x \<longleftrightarrow>
     x_graph x = Some graph \<and> x_binding x = b \<and> length (x_nodes x) = length (g_nodes graph) \<and>
     (\<forall>lane < DMA_LANE_COUNT. ring_ok (x_rings x lane) \<and>
        (\<forall>s \<in> set (ring_items (x_rings x lane)). ds_node s < length (g_nodes graph) \<and> node_lane graph (ds_node s) = lane \<and>
          ds_reader_pending s)) \<and>
     (\<forall>it \<in> set (x_h2h x @ pend). hi_node it < length (g_nodes graph)) \<and>
     (\<forall>i < length (g_nodes graph). ns_next (x_nodes x ! i) \<le> g_num_subchunks graph \<and>
        ns_next (x_nodes x ! i) = ns_completed (x_nodes x ! i) + length (in_ring graph x i) +
          length (in_host (x_h2h x @ pend) i)) \<and>
     (\<forall>i < length (g_nodes graph). sorted_wrt (<) (map ds_subchunk (in_ring graph x i)) \<and>
        (\<forall>s \<in> set (in_ring graph x i). ds_subchunk s < ns_next (x_nodes x ! i))) \<and>
     (\<forall>i < length (g_nodes graph). transfers env graph b i \<longrightarrow> in_host (x_h2h x @ pend) i = [] \<and>
        map ds_subchunk (in_ring graph x i) = [ns_completed (x_nodes x ! i)..<ns_next (x_nodes x ! i)])"

lemma run_invI:
  assumes "x_graph x = Some graph" "x_binding x = b" "length (x_nodes x) = length (g_nodes graph)"
    and "\<And>lane. lane < DMA_LANE_COUNT \<Longrightarrow> ring_ok (x_rings x lane)"
    and "\<And>lane s. lane < DMA_LANE_COUNT \<Longrightarrow> s \<in> set (ring_items (x_rings x lane)) \<Longrightarrow>
      ds_node s < length (g_nodes graph) \<and> node_lane graph (ds_node s) = lane \<and> ds_reader_pending s"
    and "\<And>it. it \<in> set (x_h2h x @ pend) \<Longrightarrow> hi_node it < length (g_nodes graph)"
    and "\<And>i. i < length (g_nodes graph) \<Longrightarrow> ns_next (x_nodes x ! i) \<le> g_num_subchunks graph"
    and "\<And>i. i < length (g_nodes graph) \<Longrightarrow> ns_next (x_nodes x ! i) = ns_completed (x_nodes x ! i) +
      length (in_ring graph x i) + length (in_host (x_h2h x @ pend) i)"
    and "\<And>i. i < length (g_nodes graph) \<Longrightarrow> sorted_wrt (<) (map ds_subchunk (in_ring graph x i))"
    and "\<And>i s. i < length (g_nodes graph) \<Longrightarrow> s \<in> set (in_ring graph x i) \<Longrightarrow> ds_subchunk s < ns_next (x_nodes x ! i)"
    and "\<And>i. i < length (g_nodes graph) \<Longrightarrow> transfers env graph b i \<Longrightarrow> in_host (x_h2h x @ pend) i = []"
    and "\<And>i. i < length (g_nodes graph) \<Longrightarrow> transfers env graph b i \<Longrightarrow>
      map ds_subchunk (in_ring graph x i) = [ns_completed (x_nodes x ! i)..<ns_next (x_nodes x ! i)]"
  shows "run_inv env graph b pend x"
  unfolding run_inv_def using assms by blast

lemma run_invD:
  assumes "run_inv env graph b pend x"
  shows inv_graph: "x_graph x = Some graph" and inv_binding: "x_binding x = b"
    and inv_length: "length (x_nodes x) = length (g_nodes graph)"
    and inv_rings: "lane < DMA_LANE_COUNT \<Longrightarrow> ring_ok (x_rings x lane)"
    and inv_slots: "lane < DMA_LANE_COUNT \<Longrightarrow> s \<in> set (ring_items (x_rings x lane)) \<Longrightarrow>
      ds_node s < length (g_nodes graph) \<and> node_lane graph (ds_node s) = lane \<and> ds_reader_pending s"
    and inv_hosts: "it \<in> set (x_h2h x @ pend) \<Longrightarrow> hi_node it < length (g_nodes graph)"
    and inv_next: "i < length (g_nodes graph) \<Longrightarrow> ns_next (x_nodes x ! i) \<le> g_num_subchunks graph"
    and inv_sum: "i < length (g_nodes graph) \<Longrightarrow> ns_next (x_nodes x ! i) = ns_completed (x_nodes x ! i) +
      length (in_ring graph x i) + length (in_host (x_h2h x @ pend) i)"
    and inv_sorted: "i < length (g_nodes graph) \<Longrightarrow> sorted_wrt (<) (map ds_subchunk (in_ring graph x i))"
    and inv_below: "i < length (g_nodes graph) \<Longrightarrow> s \<in> set (in_ring graph x i) \<Longrightarrow> ds_subchunk s < ns_next (x_nodes x ! i)"
    and inv_no_host: "i < length (g_nodes graph) \<Longrightarrow> transfers env graph b i \<Longrightarrow> in_host (x_h2h x @ pend) i = []"
    and inv_order: "i < length (g_nodes graph) \<Longrightarrow> transfers env graph b i \<Longrightarrow>
      map ds_subchunk (in_ring graph x i) = [ns_completed (x_nodes x ! i)..<ns_next (x_nodes x ! i)]"
  using assms unfolding run_inv_def by blast+

lemma node_lane_less: "node_lane graph i < DMA_LANE_COUNT"
  by (auto simp: node_lane_def selectDmaLane_def lane_defs split: op_code.splits)

lemma in_host_append [simp]: "in_host (xs @ ys) i = in_host xs i @ in_host ys i"
  by (simp add: in_host_def)

lemma in_host_Cons [simp]: "in_host (it # its) i = (if hi_node it = i then it # in_host its i else in_host its i)"
  by (simp add: in_host_def)

lemma in_host_Nil [simp]: "in_host [] i = []"
  by (simp add: in_host_def)

lemma upd_node_sel [simp]:
  "x_graph (upd_node i f x) = x_graph x" "x_binding (upd_node i f x) = x_binding x"
  "x_rings (upd_node i f x) = x_rings x" "x_h2h (upd_node i f x) = x_h2h x"
  "length (x_nodes (upd_node i f x)) = length (x_nodes x)"
  "in_ring graph (upd_node i f x) k = in_ring graph x k"
  by (simp_all add: upd_node_def in_ring_def)

lemma upd_node_nth:
  "i < length (x_nodes x) \<Longrightarrow> k < length (x_nodes x) \<Longrightarrow>
   x_nodes (upd_node i f x) ! k = (if k = i then f (x_nodes x ! i) else x_nodes x ! k)"
  by (simp add: upd_node_def nth_list_update)

lemma node_steps [simp]:
  "ns_next (node_completed s) = ns_next s" "ns_completed (node_completed s) = ns_completed s + 1"
  "ns_next (node_submitted s) = ns_next s + 1" "ns_completed (node_submitted s) = ns_completed s"
  "ns_next (node_h2h s) = ns_next s" "ns_completed (node_h2h s) = ns_completed s"
  "ns_next (node_h2h_done s) = ns_next s" "ns_completed (node_h2h_done s) = ns_completed s"
  by (simp_all add: node_completed_def node_submitted_def node_h2h_def node_h2h_done_def)

section \<open>Every step keeps it\<close>

lemma run_inv_start: "run_start graph b (x, w) \<Longrightarrow> run_inv env graph b [] x"
  by (rule run_invI) (auto simp: run_start_def in_ring_def node_lane_less fresh_node_def)

text \<open>Only the fields named matter.\<close>

lemma run_inv_move:
  assumes "run_inv env graph b pend x" "x_graph y = x_graph x" "x_binding y = x_binding x" "x_nodes y = x_nodes x"
    "x_rings y = x_rings x" "x_h2h y @ pend' = x_h2h x @ pend"
  shows "run_inv env graph b pend' y"
  using assms(1) unfolding run_inv_def in_ring_def assms(2-6) .

lemma run_inv_at_once:
  assumes inv: "run_inv env graph b [] x" and i: "i < length (g_nodes graph)"
    and room: "ns_next (x_nodes x ! i) < g_num_subchunks graph" and nt: "\<not> transfers env graph b i"
  shows "run_inv env graph b [] (upd_node i (\<lambda>s. node_completed (node_submitted s)) x)"
proof -
  have l: "i < length (x_nodes x)" using i inv_length[OF inv] by simp
  have nth: "x_nodes (upd_node i (\<lambda>s. node_completed (node_submitted s)) x) ! k =
      (if k = i then node_completed (node_submitted (x_nodes x ! i)) else x_nodes x ! k)"
    if "k < length (g_nodes graph)" for k using upd_node_nth[OF l, of k] that inv_length[OF inv] by simp
  show ?thesis
    by (rule run_invI) (use run_invD[OF inv] nth room nt in \<open>auto split: if_splits intro: less_SucI\<close>)
qed

lemma run_inv_host:
  assumes inv: "run_inv env graph b [] x" and i: "i < length (g_nodes graph)"
    and room: "ns_next (x_nodes x ! i) < g_num_subchunks graph" and nt: "\<not> transfers env graph b i"
    and it: "hi_node it = i"
  shows "run_inv env graph b [] (upd_node i (\<lambda>s. node_submitted (node_h2h s)) (x\<lparr>x_h2h := x_h2h x @ [it]\<rparr>))"
proof -
  let ?y = "x\<lparr>x_h2h := x_h2h x @ [it]\<rparr>"
  have l: "i < length (x_nodes ?y)" using i inv_length[OF inv] by simp
  have nth: "x_nodes (upd_node i (\<lambda>s. node_submitted (node_h2h s)) ?y) ! k =
      (if k = i then node_submitted (node_h2h (x_nodes x ! i)) else x_nodes x ! k)"
    if "k < length (g_nodes graph)" for k using upd_node_nth[OF l, of k] that inv_length[OF inv] by simp
  have r: "in_ring graph ?y k = in_ring graph x k" for k by (simp add: in_ring_def)
  show ?thesis
    by (rule run_invI) (use run_invD[OF inv] nth room nt it i r in \<open>auto split: if_splits intro: less_SucI\<close>)
qed

lemma in_ring_push:
  assumes "run_inv env graph b pend x" "\<not> isFull (x_rings x (node_lane graph i))" "ds_node s = i"
    and y: "y = x\<lparr>x_rings := (x_rings x)(node_lane graph i := push_info s (x_rings x (node_lane graph i)))\<rparr>"
  shows "in_ring graph y k = (if k = i then in_ring graph x i @ [s] else in_ring graph x k)"
  using ring_items_push(1)[OF inv_rings[OF assms(1) node_lane_less] assms(2), of s] assms(3)
  by (auto simp: in_ring_def y)

lemma run_inv_issue:
  assumes inv: "run_inv env graph b [] x" and i: "i < length (g_nodes graph)"
    and room: "ns_next (x_nodes x ! i) < g_num_subchunks graph"
    and full: "\<not> isFull (x_rings x (node_lane graph i))" and s: "ds_node s = i" "ds_subchunk s = ns_next (x_nodes x ! i)" "ds_reader_pending s"
  shows "run_inv env graph b [] (upd_node i node_submitted
    (x\<lparr>x_rings := (x_rings x)(node_lane graph i := push_info s (x_rings x (node_lane graph i)))\<rparr>))"
proof -
  let ?l = "node_lane graph i"
  let ?y = "x\<lparr>x_rings := (x_rings x)(?l := push_info s (x_rings x ?l))\<rparr>"
  note P = ring_items_push[OF inv_rings[OF inv node_lane_less] full, of s]
  have l: "i < length (x_nodes ?y)" using i inv_length[OF inv] by simp
  have nth: "x_nodes (upd_node i node_submitted ?y) ! k = (if k = i then node_submitted (x_nodes x ! i) else x_nodes x ! k)"
    if "k < length (g_nodes graph)" for k using upd_node_nth[OF l, of k] that inv_length[OF inv] by simp
  note r = in_ring_push[OF inv full s(1) refl]
  have slots: "ds_node t < length (g_nodes graph) \<and> node_lane graph (ds_node t) = lane \<and> ds_reader_pending t"
    if "lane < DMA_LANE_COUNT" "t \<in> set (ring_items (x_rings ?y lane))" for lane t
    using that P(1) inv_slots[OF inv that(1)] s(1,3) i by (cases "lane = ?l") auto
  have ok: "ring_ok (x_rings ?y lane)" if "lane < DMA_LANE_COUNT" for lane
    using P(2) inv_rings[OF inv that] by simp
  have ord: "map ds_subchunk (in_ring graph x i @ [s]) = [ns_completed (x_nodes x ! i)..<ns_next (x_nodes x ! i) + 1]"
    if "transfers env graph b i"
    using inv_order[OF inv i that] inv_sum[OF inv i] s(2) by simp
  show ?thesis
  proof (rule run_invI)
    fix k assume k: "k < length (g_nodes graph)" "transfers env graph b k"
    show "map ds_subchunk (in_ring graph (upd_node i node_submitted ?y) k) =
      [ns_completed (x_nodes (upd_node i node_submitted ?y) ! k)..<ns_next (x_nodes (upd_node i node_submitted ?y) ! k)]"
      using ord inv_order[OF inv k] k nth[OF k(1)] r[of k] by (cases "k = i") simp_all
  next
    fix k assume k: "k < length (g_nodes graph)"
    show "sorted_wrt (<) (map ds_subchunk (in_ring graph (upd_node i node_submitted ?y) k))"
      using inv_sorted[OF inv k] inv_below[OF inv k] r[of k] s(2) by (cases "k = i") (simp_all add: sorted_wrt_append)
    show "ds_subchunk t < ns_next (x_nodes (upd_node i node_submitted ?y) ! k)"
      if "t \<in> set (in_ring graph (upd_node i node_submitted ?y) k)" for t
      using inv_below[OF inv k, of t] that r[of k] nth[OF k] s(2) by (cases "k = i") (auto intro: less_SucI)
  qed (use run_invD[OF inv] nth room r slots ok in \<open>auto split: if_splits\<close>)
qed

lemma complete_oldest_sel:
  assumes "info = er_info (x_rings x lane) (tailIndex (x_rings x lane))"
  shows "fst (complete_oldest graph lane (x, w)) =
    upd_node (ds_node info) node_completed (x\<lparr>x_rings := (x_rings x)(lane := releaseOldest (x_rings x lane))\<rparr>)"
  by (simp add: complete_oldest_def Let_def assms)

lemma run_inv_complete:
  assumes inv: "run_inv env graph b [] x" and lane: "lane < DMA_LANE_COUNT" and ne: "inflight (x_rings x lane) \<noteq> 0"
  shows "run_inv env graph b [] (fst (complete_oldest graph lane (x, w)))"
    and "hd (ring_items (x_rings x lane)) = er_info (x_rings x lane) (tailIndex (x_rings x lane))"
    and "ds_node (hd (ring_items (x_rings x lane))) < length (g_nodes graph)"
    and "ds_reader_pending (hd (ring_items (x_rings x lane)))"
    and "transfers env graph b (ds_node (hd (ring_items (x_rings x lane)))) \<Longrightarrow>
      ds_subchunk (hd (ring_items (x_rings x lane))) =
        ns_completed (x_nodes x ! ds_node (hd (ring_items (x_rings x lane))))"
proof -
  let ?r = "x_rings x lane"
  obtain s ss where q: "ring_items ?r = s # ss" using ne ring_items_empty_iff[of ?r] by (cases "ring_items ?r") auto
  have info: "er_info ?r (tailIndex ?r) = s" using ring_items_oldest[of ?r] q by simp
  let ?i = "ds_node s" and ?y = "x\<lparr>x_rings := (x_rings x)(lane := releaseOldest ?r)\<rparr>"
  have i: "?i < length (g_nodes graph)" "node_lane graph ?i = lane" "ds_reader_pending s" using inv_slots[OF inv lane, of s] q by auto
  have R: "ring_items (releaseOldest ?r) = ss" "ring_ok (releaseOldest ?r)"
    using ring_items_release[OF inv_rings[OF inv lane]] q by simp_all
  have l: "?i < length (x_nodes ?y)" using i inv_length[OF inv] by simp
  have nth: "x_nodes (upd_node ?i node_completed ?y) ! k = (if k = ?i then node_completed (x_nodes x ! ?i) else x_nodes x ! k)"
    if "k < length (g_nodes graph)" for k using upd_node_nth[OF l, of k] that inv_length[OF inv] by simp
  have r: "in_ring graph x k = (if k = ?i then s # in_ring graph ?y k else in_ring graph ?y k)" for k
    using i(2) R(1) q by (auto simp: in_ring_def)
  have slots: "ds_node t < length (g_nodes graph) \<and> node_lane graph (ds_node t) = m \<and> ds_reader_pending t"
    if "m < DMA_LANE_COUNT" "t \<in> set (ring_items (x_rings ?y m))" for m t
    using that R(1) inv_slots[OF inv that(1), of t] q by (cases "m = lane") auto
  have ok: "ring_ok (x_rings ?y m)" if "m < DMA_LANE_COUNT" for m
    using R(2) inv_rings[OF inv that] by simp
  have head: "ds_subchunk s = ns_completed (x_nodes x ! ?i) \<and>
      map ds_subchunk (in_ring graph ?y ?i) = [ns_completed (x_nodes x ! ?i) + 1..<ns_next (x_nodes x ! ?i)]"
    if t: "transfers env graph b ?i"
  proof -
    have e: "ds_subchunk s # map ds_subchunk (in_ring graph ?y ?i) = [ns_completed (x_nodes x ! ?i)..<ns_next (x_nodes x ! ?i)]"
      using inv_order[OF inv i(1) t] r[of ?i] by simp
    then have "ns_completed (x_nodes x ! ?i) < ns_next (x_nodes x ! ?i)" by (metis list.distinct(1) upt_eq_Nil_conv not_le)
    then show ?thesis using e by (simp add: upt_conv_Cons)
  qed
  have "run_inv env graph b [] (upd_node ?i node_completed ?y)"
  proof (rule run_invI)
    fix k assume k: "k < length (g_nodes graph)" "transfers env graph b k"
    show "map ds_subchunk (in_ring graph (upd_node ?i node_completed ?y) k) =
      [ns_completed (x_nodes (upd_node ?i node_completed ?y) ! k)..<ns_next (x_nodes (upd_node ?i node_completed ?y) ! k)]"
      using head inv_order[OF inv k] k nth[OF k(1)] r[of k] by (cases "k = ?i") simp_all
  next
    fix k assume k: "k < length (g_nodes graph)"
    show "ns_next (x_nodes (upd_node ?i node_completed ?y) ! k) = ns_completed (x_nodes (upd_node ?i node_completed ?y) ! k) +
        length (in_ring graph (upd_node ?i node_completed ?y) k) + length (in_host (x_h2h (upd_node ?i node_completed ?y) @ []) k)"
      using inv_sum[OF inv k] nth[OF k] r[of k] by (cases "k = ?i") simp_all
  next
    fix k assume k: "k < length (g_nodes graph)"
    show "sorted_wrt (<) (map ds_subchunk (in_ring graph (upd_node ?i node_completed ?y) k))"
      using inv_sorted[OF inv k] r[of k] by (simp split: if_splits)
    show "ds_subchunk t < ns_next (x_nodes (upd_node ?i node_completed ?y) ! k)"
      if "t \<in> set (in_ring graph (upd_node ?i node_completed ?y) k)" for t
      using inv_below[OF inv k, of t] that r[of k] nth[OF k] by (simp split: if_splits)
  qed (use run_invD[OF inv] nth slots ok in \<open>auto split: if_splits\<close>)
  then show "run_inv env graph b [] (fst (complete_oldest graph lane (x, w)))"
    using complete_oldest_sel[of "er_info ?r (tailIndex ?r)" x lane graph w] info by simp
  show "hd (ring_items ?r) = er_info ?r (tailIndex ?r)" "ds_node (hd (ring_items ?r)) < length (g_nodes graph)"
    "ds_reader_pending (hd (ring_items ?r))"
    using q info i(1,3) by simp_all
  show "transfers env graph b (ds_node (hd (ring_items ?r))) \<Longrightarrow>
      ds_subchunk (hd (ring_items ?r)) = ns_completed (x_nodes x ! ds_node (hd (ring_items ?r)))"
    using head q by simp
qed

lemma run_inv_poll_one:
  assumes inv: "run_inv env graph b (it # pend) x" and eng: "w_engine w \<noteq> None"
  shows "run_inv env graph b pend (fst (poll_h2h_one graph (x, w) it)) \<and> w_engine (snd (poll_h2h_one graph (x, w) it)) \<noteq> None"
proof -
  obtain e where e: "w_engine w = Some e" using eng by blast
  have i: "hi_node it < length (g_nodes graph)" by (rule inv_hosts[OF inv]) simp
  show ?thesis
  proof (cases "hi_expected it \<le> he_done e (hi_counter it)")
    case True
    let ?f = "\<lambda>s. node_h2h_done (node_completed s)"
    have l: "hi_node it < length (x_nodes x)" using i inv_length[OF inv] by simp
    have nth: "x_nodes (upd_node (hi_node it) ?f x) ! k = (if k = hi_node it then ?f (x_nodes x ! hi_node it) else x_nodes x ! k)"
      if "k < length (g_nodes graph)" for k using upd_node_nth[OF l, of k] that inv_length[OF inv] by simp
    have nt: "\<not> transfers env graph b (hi_node it)" using inv_no_host[OF inv i] by auto
    have "run_inv env graph b pend (upd_node (hi_node it) ?f x)"
    proof (rule run_invI)
      fix k assume k: "k < length (g_nodes graph)" "transfers env graph b k"
      then have "k \<noteq> hi_node it" using nt by auto
      then show "map ds_subchunk (in_ring graph (upd_node (hi_node it) ?f x) k) =
        [ns_completed (x_nodes (upd_node (hi_node it) ?f x) ! k)..<ns_next (x_nodes (upd_node (hi_node it) ?f x) ! k)]"
        using inv_order[OF inv k] nth[OF k(1)] by simp
    next
      fix k assume k: "k < length (g_nodes graph)"
      show "ns_next (x_nodes (upd_node (hi_node it) ?f x) ! k) = ns_completed (x_nodes (upd_node (hi_node it) ?f x) ! k) +
          length (in_ring graph (upd_node (hi_node it) ?f x) k) + length (in_host (x_h2h (upd_node (hi_node it) ?f x) @ pend) k)"
        using inv_sum[OF inv k] nth[OF k] by (cases "k = hi_node it") simp_all
      show "ns_next (x_nodes (upd_node (hi_node it) ?f x) ! k) \<le> g_num_subchunks graph"
        using inv_next[OF inv k] nth[OF k] by (cases "k = hi_node it") simp_all
    next
      fix k assume k: "k < length (g_nodes graph)" "transfers env graph b k"
      then show "in_host (x_h2h (upd_node (hi_node it) ?f x) @ pend) k = []"
        using inv_no_host[OF inv k] by (simp split: if_splits)
    qed (use inv_graph[OF inv] inv_binding[OF inv] inv_length[OF inv] inv_rings[OF inv] inv_slots[OF inv] inv_hosts[OF inv]
      inv_sorted[OF inv] inv_below[OF inv] nth in auto)
    then show ?thesis using True e by (simp add: poll_h2h_one_def upd_shared_def)
  next
    case False
    have "run_inv env graph b pend (x\<lparr>x_h2h := x_h2h x @ [it]\<rparr>)"
      by (rule run_inv_move[OF inv]) simp_all
    then show ?thesis using False e by (simp add: poll_h2h_one_def)
  qed
qed

lemma run_inv_poll:
  assumes inv: "run_inv env graph b [] x"
  shows "run_inv env graph b [] (fst (pollH2HCompletions (x, w)))"
proof (cases "w_engine w")
  case None
  then show ?thesis using inv by (simp add: pollH2HCompletions_def)
next
  case (Some e)
  have "run_inv env graph b [] (fst (foldl (poll_h2h_one graph) (y, v) its))"
    if "run_inv env graph b its y" "w_engine v \<noteq> None" for its y v
    using that
  proof (induction its arbitrary: y v)
    case (Cons it its)
    obtain y' v' where s: "poll_h2h_one graph (y, v) it = (y', v')" by fastforce
    then have "run_inv env graph b its y'" "w_engine v' \<noteq> None"
      using run_inv_poll_one[OF Cons.prems] by simp_all
    then show ?case using Cons.IH s by simp
  qed simp
  moreover have "run_inv env graph b (x_h2h x) (x\<lparr>x_h2h := []\<rparr>)" by (rule run_inv_move[OF inv]) simp_all
  ultimately show ?thesis using Some inv_graph[OF inv] by (simp add: pollH2HCompletions_def)
qed

lemma finish_graph_None [simp]: "x_graph (fst (finishCurrentWork ok r (x, w))) = None"
  by (simp add: finishCurrentWork_def Let_def)

text \<open>What a call of \<^verbatim>\<open>trySubmitNode\<close> that does not end the work item has done.\<close>

definition dma_info :: "nat \<Rightarrow> nat \<Rightarrow> size_t \<Rightarrow> nat \<Rightarrow> dma_slot" where
  "dma_info i sc bytes lane =
     \<lparr>ds_node = i, ds_subchunk = sc, ds_size = bytes, ds_lane = lane, ds_reader_pending = True\<rparr>"

lemma submit_dma_cases:
  assumes "submit_dma env dev graph i sc bytes (x, w) = (p, (x', w'))" "x_graph x' \<noteq> None"
  obtains "(x', w') = (x, w)"
  | "n_op (g_nodes graph ! i) = D2D" "n_placement (g_nodes graph ! i) = Local"
      "node_src env x graph i sc = node_dst env x graph i sc" "(x', w') = submit_at_once graph i sc (x, w)"
  | seen where "\<not> isFull (x_rings x (node_lane graph i))"
      "x' = upd_node i node_submitted (x\<lparr>x_seen := seen, x_rings := (x_rings x)(node_lane graph i :=
         push_info (dma_info i sc bytes (node_lane graph i)) (x_rings x (node_lane graph i)))\<rparr>)"
proof -
  define issue where "issue y = issue_dma dev (g_nodes graph ! i) i sc (node_lane graph i)
      (dma_command y (g_nodes graph ! i) (resolve env x graph (n_output (g_nodes graph ! i)) sc (n_output_ring (g_nodes graph ! i)))
        (case n_inputs (g_nodes graph ! i) of [] \<Rightarrow> 0
         | k # _ \<Rightarrow> resolve env x graph (ni_key k) sc (ni_ring_buffered k)) bytes (node_lane graph i))" for y
  note fin = finish_graph_None
  have iss: "x' = upd_node i node_submitted (y\<lparr>x_rings := (x_rings y)(node_lane graph i :=
        push_info (dma_info i sc bytes (node_lane graph i)) (x_rings y (node_lane graph i)))\<rparr>)"
    if "issue z (y, w) = (p, (x', w'))" for y z
    using that assms(2) unfolding issue_def issue_dma_def
    by (auto simp: Let_def dma_info_def dma_command_def split: if_splits dest!: arg_cong[where f = fst])
  let ?n = "g_nodes graph ! i" and ?rr = "remote_ready_rank (g_nodes graph ! i)"
  let ?dst = "resolve env x graph (n_output ?n) sc (n_output_ring ?n)"
  let ?src = "case n_inputs ?n of [] \<Rightarrow> 0 | k # _ \<Rightarrow> resolve env x graph (ni_key k) sc (ni_ring_buffered k)"
  let ?ask = "0 \<le> ?rr \<and> ?rr < MAX_RANKS \<and> \<not> x_seen x ?rr"
  have e: "submit_dma env dev graph i sc bytes (x, w) =
      (if isFull (x_rings x (node_lane graph i)) then (False, x, w)
       else if ?dst = 0 \<or> ?src = 0 \<or> bytes = 0
       then (False, finishCurrentWork (dr_stream_ok dev) pcclInvalidArgument (x, w))
       else if n_op ?n = D2D \<and> n_placement ?n = Local \<and> ?src = ?dst
       then (True, submit_at_once graph i sc (x, w))
       else if ?ask \<and> \<not> remoteUserReady (w_shared w) (x_comm x) (x_rank x) ?rr (x_slot x) (x_work_seq x)
       then (False, x, w)
       else issue x (if ?ask then x\<lparr>x_seen := (x_seen x)(?rr := True)\<rparr> else x, w))"
    unfolding submit_dma_def issue_def node_lane_def by (simp only: Let_def prod.case)
  show ?thesis
  proof (cases "isFull (x_rings x (node_lane graph i)) \<or>
      ?ask \<and> \<not> remoteUserReady (w_shared w) (x_comm x) (x_rank x) ?rr (x_slot x) (x_work_seq x)")
    case True
    then show ?thesis using assms that(1,2) unfolding e
      by (auto simp: node_src_def node_dst_def Let_def split: if_splits dest!: arg_cong[where f = fst])
  next
    case False
    then have full: "\<not> isFull (x_rings x (node_lane graph i))" by blast
    show ?thesis
    proof (cases "n_op ?n = D2D \<and> n_placement ?n = Local \<and> ?src = ?dst")
      case True
      then have "node_src env x graph i sc = node_dst env x graph i sc" by (simp add: node_src_def node_dst_def Let_def)
      then show ?thesis using True assms that(2) False unfolding e by (auto split: if_splits dest!: arg_cong[where f = fst])
    next
      case nl: False
      have "issue x (if ?ask then x\<lparr>x_seen := (x_seen x)(?rr := True)\<rparr> else x, w) = (p, (x', w'))"
        using assms False nl unfolding e by (auto split: if_splits dest!: arg_cong[where f = fst])
      then show ?thesis
        using iss[of x "if ?ask then x\<lparr>x_seen := (x_seen x)(?rr := True)\<rparr> else x"]
          that(3)[OF full, of "if ?ask then (x_seen x)(?rr := True) else x_seen x"]
        by (cases ?ask) simp_all
    qed
  qed
qed

lemma submit_h2h_case:
  assumes "submit_h2h env dev graph i sc bytes (x, w) = (p, (x', w'))" "x_graph x' \<noteq> None"
  shows "\<exists>c n. x' = upd_node i (\<lambda>s. node_submitted (node_h2h s))
    (x\<lparr>x_h2h := x_h2h x @ [\<lparr>hi_node = i, hi_subchunk = sc, hi_counter = c, hi_expected = n\<rparr>]\<rparr>)"
proof (cases "w_engine w")
  case None
  then show ?thesis using assms by (auto simp: submit_h2h_def dest!: arg_cong[where f = fst])
next
  case (Some eng)
  obtain n eng1 where n: "submitGraphWork (xe_pccl env) (g_nodes graph ! i) (x_binding x) sc
      (g_chunk_size graph) bytes (w_next_counter w) (eng\<lparr>he_done := (he_done eng)(w_next_counter w := 0)\<rparr>) = (n, eng1)"
    by fastforce
  show ?thesis
    using assms by (cases "n = 0") (auto simp: submit_h2h_def Some n Let_def dest!: arg_cong[where f = fst])
qed

lemma run_inv_try:
  assumes inv: "run_inv env graph b [] x" and i: "i < length (g_nodes graph)"
    and t: "trySubmitNode env dev graph i (x, w) = (p, (x', w'))" and g: "x_graph x' \<noteq> None"
  shows "run_inv env graph b [] x'"
proof -
  let ?n = "g_nodes graph ! i" and ?sc = "ns_next (x_nodes x ! i)"
  let ?bytes = "subchunkSize env graph ?n ?sc"
  let ?slots = "pcclRingSlotsFor (pcclHostRingSlots (host_ring_slots_env (xe_pccl env)))"
  have e: "trySubmitNode env dev graph i (x, w) =
      (if g_num_subchunks graph \<le> ?sc then (False, x, w)
       else if \<not> inputsReady (x_comm x) (x_epoch x) (w_shared w) ?n ?sc \<or>
               \<not> overwriteReady ?slots (x_comm x) (x_epoch x) (w_shared w) ?n ?sc then (False, x, w)
       else if n_op ?n = NOP \<or> skips_dma env ?n \<or> ?bytes = 0 then (True, submit_at_once graph i ?sc (x, w))
       else if lead_blocked x (w_shared w) ?n ?sc then (False, x, w)
       else if n_op ?n \<in> {H2H, H2HReduce} then submit_h2h env dev graph i ?sc ?bytes (x, w)
       else submit_dma env dev graph i ?sc ?bytes (x, w))"
    unfolding trySubmitNode_def by (simp only: Let_def prod.case)
  have once: "run_inv env graph b [] (fst (submit_at_once graph i ?sc (x, w)))"
    if "?sc < g_num_subchunks graph" "\<not> transfers env graph b i"
    using run_inv_at_once[OF inv i that] by (simp add: submit_at_once_def)
  consider "(x', w') = (x, w)"
    | "?sc < g_num_subchunks graph" "n_op ?n = NOP \<or> skips_dma env ?n \<or> ?bytes = 0" "(x', w') = submit_at_once graph i ?sc (x, w)"
    | "?sc < g_num_subchunks graph" "n_op ?n \<in> {H2H, H2HReduce}" "submit_h2h env dev graph i ?sc ?bytes (x, w) = (p, (x', w'))"
    | "?sc < g_num_subchunks graph" "submit_dma env dev graph i ?sc ?bytes (x, w) = (p, (x', w'))"
    using t unfolding e by (auto split: if_splits)
  then show ?thesis
  proof cases
    case 1
    then show ?thesis using inv by simp
  next
    case 2
    have "\<not> transfers env graph b i" using 2(2) transfersD(1-3)[of env graph b i, OF _ 2(1)] by auto
    then show ?thesis using once 2(1,3) by (metis fst_conv)
  next
    case 3
    have nt: "\<not> transfers env graph b i" using 3(2) by (auto simp: transfers_def Let_def)
    obtain it where "hi_node it = i" "x' = upd_node i (\<lambda>s. node_submitted (node_h2h s)) (x\<lparr>x_h2h := x_h2h x @ [it]\<rparr>)"
      using submit_h2h_case[OF 3(3) g] h2h_inflight.select_convs(1) by metis
    then show ?thesis using run_inv_host[OF inv i 3(1) nt] by simp
  next
    case 4
    from 4(2) g show ?thesis
    proof (cases rule: submit_dma_cases)
      case 1
      then show ?thesis using inv by simp
    next
      case 2
      then have "\<not> transfers env graph b i"
        using transfersD(4)[of env graph b i, OF _ 4(1)] node_addr_bound[OF inv_binding[OF inv], of env graph i ?sc] by auto
      then show ?thesis using once 4(1) 2(4) by (metis fst_conv)
    next
      case (3 seen)
      have "run_inv env graph b [] (x\<lparr>x_seen := seen\<rparr>)" by (rule run_inv_move[OF inv]) simp_all
      from run_inv_issue[OF this i, of "dma_info i ?sc ?bytes (node_lane graph i)"] 4(1) 3
      show ?thesis by (simp add: dma_info_def)
    qed
  qed
qed

lemma run_inv_step:
  assumes inv: "run_inv env graph b [] (fst st)" and "run_step env graph st st'"
  shows "run_inv env graph b [] (fst st')"
  using assms(2)
proof cases
  case (run_inputs d)
  then show ?thesis
    using inv by (cases st; cases st')
      (auto simp: waitForUserReadyAndPublishInputs_def Let_def split: if_splits intro: run_inv_move[OF inv])
next
  case (run_complete lane)
  then show ?thesis using run_inv_complete(1)[of env graph b "fst st" lane "snd st"] inv by simp
next
  case run_h2h
  then show ?thesis using run_inv_poll[of env graph b "fst st" "snd st"] inv by simp
next
  case (run_worker e fops numa mem e' mem')
  then show ?thesis using inv by simp
next
  case (run_others w')
  then show ?thesis using inv by simp
next
  case (run_try i dev p)
  obtain y v where y: "st' = (y, v)" by (cases st')
  have "trySubmitNode env dev graph i (fst st, snd st) = (p, (y, v))" using run_try(2) y by simp
  moreover have "x_graph y \<noteq> None" using run_try(3) y by simp
  ultimately have "run_inv env graph b [] y" by (rule run_inv_try[OF inv run_try(1)])
  then show ?thesis using y by simp
qed

lemma run_reach:
  assumes "reach (run_start graph b) (run_step env graph) st"
  shows "run_inv env graph b [] (fst st)"
  using assms
proof (rule reach_invariant)
  fix s assume "run_start graph b s"
  then show "run_inv env graph b [] (fst s)" using run_inv_start[of graph b "fst s" "snd s"] by simp
qed (rule run_inv_step)

end
