(* ===== verification/ExecutorProps.thy ===== *)
theory ExecutorProps
  imports ExecutorRun CompilerProps
begin

text \<open>
  The properties of a single executor: what a transfer waits for, the bookkeeping of a run,
  the order of publication, the release of waiting streams on errors, and the slots of the
  work items alive at a time.
\<close>

section \<open>A concrete run\<close>

text \<open>
  One rank that runs a graph of one device-to-host copy of two subchunks: taken by the
  executor thread, then its inputs published.
\<close>

definition ex_layout :: layout_desc where "ex_layout = makeLayout 8192 0 8192 1"

definition ex_copy_node :: instruction_node where
  "ex_copy_node = \<lparr>n_op = D2H, n_source_rank = 0, n_destination_rank = 0, n_placement = Local, n_work_bytes = 8192,
     n_inputs = [\<lparr>ni_key = ProgressKey PS_INPUT 0 0 0, ni_reader_id = 0, ni_ring_buffered = False\<rparr>],
     n_output = ProgressKey PS_HOST 0 0 1, n_output_ring = False,
     n_overwrite_guard = Some (ProgressKey PS_HOST 0 0 0), n_resource_key = ''d2h'', n_terminal = False\<rparr>"

definition ex_copy_graph :: compiled_graph where
  "ex_copy_graph = \<lparr>g_rank = 0, g_world_size = 1, g_input_chunk_count = 1, g_output_chunk_count = 0,
     g_total_bytes = 8192, g_chunk_size = 8192, g_element_size = 4, g_num_subchunks = 2,
     g_scalar_type = Float32, g_reduce_op = Sum_op, g_is_in_place = False, g_has_remote_d2d = False,
     g_internal_bytes = 0, g_layout = (\<lambda>_. ex_layout), g_nodes = [ex_copy_node],
     g_initial_ready_inputs = [ProgressKey PS_INPUT 0 0 0], g_terminal_outputs = [],
     g_active_keys = [ProgressKey PS_INPUT 0 0 0, ProgressKey PS_HOST 0 0 0, ProgressKey PS_HOST 0 0 1],
     g_reader_assignment = []\<rparr>"

definition ex_run_env :: exec_env where
  "ex_run_env = \<lparr>xe_pccl = \<lparr>d2d_push_env = None, d2d_input_first_env = None, subchunk_slice_env = Some ''4096'',
      host_ring_slots_env = None\<rparr>, xe_skip_dma = None\<rparr>"

definition ex_binding :: runtime_binding where
  "ex_binding = \<lparr>rb_host_base = (\<lambda>_. 65536), rb_device_base = (\<lambda>_ _. 1048576), rb_layout = (\<lambda>_. ex_layout),
     rb_scalar_type = Float32, rb_reduce_op = Sum_op, rb_element_size = 4\<rparr>"

definition ex_flag :: completion_flag where
  "ex_flag = \<lparr>cf_initialized = True, cf_mem_ops = True, cf_queue_depth = 4, cf_compat_seq = 0,
     cf_slots = (\<lambda>_. empty_slot), cf_log = []\<rparr>"

definition ex_world :: host_world where
  "ex_world = \<lparr>w_shared = zero_state, w_engine = None, w_flag = Some ex_flag, w_next_counter = 0, w_dma = []\<rparr>"

definition ex_dev :: dev_reply where
  "ex_dev = \<lparr>dr_copy_ok = True, dr_record_ok = True, dr_stream_ok = (\<lambda>_. True)\<rparr>"

definition ex_ring :: "dma_slot event_ring" where
  "ex_ring = \<lparr>er_capacity = 64, er_head = 0, er_tail = 0, er_initialized = True, er_info = (\<lambda>_. dma_info 0 0 0 0)\<rparr>"

definition ex_running :: "executor \<times> host_world" where
  "ex_running = (\<lparr>x_rank = 0, x_world = 1, x_comm = 0, x_queue_depth = 4, x_cold_start_drain = 0,
      x_seen = (\<lambda>_. False), x_rings = (\<lambda>_. ex_ring), x_stop = False, x_queue = [], x_busy = True,
      x_last_result = pcclSuccess, x_graph = Some ex_copy_graph, x_binding = ex_binding, x_user_stream = 7,
      x_epoch = 1, x_work_seq_counter = 1, x_work_seq = 1, x_slot = 0, x_lead_window = False,
      x_inputs_published = False, x_nodes = [fresh_node], x_h2h = []\<rparr>, ex_world)"

definition ex_ready :: "executor \<times> host_world" where
  "ex_ready = snd (waitForUserReadyAndPublishInputs True ex_copy_graph ex_running)"
definition ex_issued :: "bool \<times> executor \<times> host_world" where
  "ex_issued = trySubmitNode ex_run_env ex_dev ex_copy_graph 0 ex_ready"

lemma ex_issued_dma: "w_dma (snd (snd ex_issued)) =
    [\<lparr>dc_op = D2H, dc_dst = 65536, dc_src = 1048576, dc_bytes = 4096, dc_lane = 0, dc_peer = None\<rparr>]"
  by code_simp

lemma ex_ready_dma: "w_dma (snd ex_ready) = []"
  by code_simp

section \<open>Issuing a transfer\<close>

text \<open>The command is the one of the node's next subchunk, and everything it waits for holds.\<close>

definition may_issue :: "exec_env \<Rightarrow> compiled_graph \<Rightarrow> nat \<Rightarrow> executor \<Rightarrow> shared_state \<Rightarrow> dma_cmd \<Rightarrow> bool" where
  "may_issue env graph i x sh cmd \<longleftrightarrow>
     (let node = g_nodes graph ! i; sc = ns_next (x_nodes x ! i); rr = remote_ready_rank node in
      sc < g_num_subchunks graph \<and>
      inputsReady (x_comm x) (x_epoch x) sh node sc \<and>
      overwriteReady (pcclRingSlotsFor (pcclHostRingSlots (host_ring_slots_env (xe_pccl env))))
        (x_comm x) (x_epoch x) sh node sc \<and>
      \<not> lead_blocked x sh node sc \<and> \<not> isFull (x_rings x (dc_lane cmd)) \<and>
      dc_bytes cmd = subchunkSize env graph node sc \<and> 0 < dc_bytes cmd \<and>
      dc_op cmd = n_op node \<and> dc_lane cmd = selectDmaLane node \<and>
      dc_dst cmd = resolve env x graph (n_output node) sc (n_output_ring node) \<and> dc_dst cmd \<noteq> 0 \<and>
      n_inputs node \<noteq> [] \<and>
      dc_src cmd = resolve env x graph (ni_key (hd (n_inputs node))) sc (ni_ring_buffered (hd (n_inputs node))) \<and>
      dc_src cmd \<noteq> 0 \<and>
      (rr < 0 \<or> MAX_RANKS \<le> rr \<or> x_seen x rr \<or> remoteUserReady sh (x_comm x) (x_rank x) rr (x_slot x) (x_work_seq x)))"

lemma finish_dma [simp]: "w_dma (snd (finishCurrentWork ok r (x, w))) = w_dma w"
proof -
  have s: "w_dma (signal ok a n v) = w_dma v" for a n v by (simp add: signal_def)
  have f: "w_dma (foldl (\<lambda>w item. signal ok (wi_slot item) (wi_work_seq item) w) v q) = w_dma v" for q v
    by (induction q arbitrary: v) (simp_all add: s)
  show ?thesis by (simp add: finishCurrentWork_def Let_def f s)
qed

lemma at_once_dma [simp]: "w_dma (snd (submit_at_once graph i sc (x, w))) = w_dma w"
  by (simp add: submit_at_once_def upd_shared_def)

lemma submit_h2h_dma [simp]: "w_dma (snd (snd (submit_h2h env dev graph i sc bytes (x, w)))) = w_dma w"
  by (simp add: submit_h2h_def Let_def split: option.splits prod.splits)

lemma issue_dma_cmds:
  "w_dma (snd (snd (issue_dma dev node i sc lane cmd (x, w)))) = w_dma w \<or>
   w_dma (snd (snd (issue_dma dev node i sc lane cmd (x, w)))) = w_dma w @ [cmd]"
  by (simp add: issue_dma_def Let_def)

lemma submit_dma_issues:
  assumes "w_dma (snd (snd (submit_dma env dev graph i sc bytes (x, w)))) \<noteq> w_dma w"
  shows "\<exists>cmd. w_dma (snd (snd (submit_dma env dev graph i sc bytes (x, w)))) = w_dma w @ [cmd] \<and>
    (let node = g_nodes graph ! i; rr = remote_ready_rank node in
     \<not> isFull (x_rings x (dc_lane cmd)) \<and> dc_bytes cmd = bytes \<and> 0 < bytes \<and>
     dc_op cmd = n_op node \<and> dc_lane cmd = selectDmaLane node \<and>
     dc_dst cmd = resolve env x graph (n_output node) sc (n_output_ring node) \<and> dc_dst cmd \<noteq> 0 \<and>
     n_inputs node \<noteq> [] \<and>
     dc_src cmd = resolve env x graph (ni_key (hd (n_inputs node))) sc (ni_ring_buffered (hd (n_inputs node))) \<and>
     dc_src cmd \<noteq> 0 \<and>
     (rr < 0 \<or> MAX_RANKS \<le> rr \<or> x_seen x rr \<or>
      remoteUserReady (w_shared w) (x_comm x) (x_rank x) rr (x_slot x) (x_work_seq x)))"
proof -
  let ?n = "g_nodes graph ! i" and ?rr = "remote_ready_rank (g_nodes graph ! i)"
  let ?lane = "selectDmaLane ?n"
  let ?dst = "resolve env x graph (n_output ?n) sc (n_output_ring ?n)"
  let ?src = "case n_inputs ?n of [] \<Rightarrow> 0 | k # _ \<Rightarrow> resolve env x graph (ni_key k) sc (ni_ring_buffered k)"
  let ?ask = "0 \<le> ?rr \<and> ?rr < MAX_RANKS \<and> \<not> x_seen x ?rr"
  let ?cmd = "dma_command x ?n ?dst ?src bytes ?lane"
  let ?y = "if ?ask then x\<lparr>x_seen := (x_seen x)(?rr := True)\<rparr> else x"
  have e: "submit_dma env dev graph i sc bytes (x, w) =
      (if isFull (x_rings x ?lane) then (False, x, w)
       else if ?dst = 0 \<or> ?src = 0 \<or> bytes = 0
       then (False, finishCurrentWork (dr_stream_ok dev) pcclInvalidArgument (x, w))
       else if n_op ?n = D2D \<and> n_placement ?n = Local \<and> ?src = ?dst
       then (True, submit_at_once graph i sc (x, w))
       else if ?ask \<and> \<not> remoteUserReady (w_shared w) (x_comm x) (x_rank x) ?rr (x_slot x) (x_work_seq x)
       then (False, x, w)
       else issue_dma dev ?n i sc ?lane ?cmd (?y, w))"
    unfolding submit_dma_def by (simp only: Let_def prod.case)
  have c: "\<not> isFull (x_rings x ?lane)" "?dst \<noteq> 0" "?src \<noteq> 0" "bytes \<noteq> 0"
    "\<not> (?ask \<and> \<not> remoteUserReady (w_shared w) (x_comm x) (x_rank x) ?rr (x_slot x) (x_work_seq x))"
    "\<not> (n_op ?n = D2D \<and> n_placement ?n = Local \<and> ?src = ?dst)"
    using assms unfolding e by (auto split: if_splits)
  have "w_dma (snd (snd (issue_dma dev ?n i sc ?lane ?cmd (?y, w)))) \<noteq> w_dma w"
    using assms c unfolding e by (auto split: if_splits)
  then have d: "w_dma (snd (snd (submit_dma env dev graph i sc bytes (x, w)))) = w_dma w @ [?cmd]"
    using issue_dma_cmds[of dev ?n i sc ?lane ?cmd ?y w] c unfolding e by (auto split: if_splits)
  obtain k ks where k: "n_inputs ?n = k # ks" using c(3) by (cases "n_inputs ?n") auto
  have "?rr < 0 \<or> MAX_RANKS \<le> ?rr \<or> x_seen x ?rr \<or>
      remoteUserReady (w_shared w) (x_comm x) (x_rank x) ?rr (x_slot x) (x_work_seq x)" using c(5) by linarith
  then show ?thesis using d c k by (intro exI[of _ ?cmd]) (simp add: dma_command_def Let_def)
qed

text \<open>
  C22. Transfers wait. A call of \<^verbatim>\<open>trySubmitNode\<close> hands at most one command to the device: the
  one of the node's next subchunk, with its size and resolved addresses, and only when the
  inputs of the subchunk are written, its overwrite guard and ring slot are free, the lead
  window is open, the lane has room, and a remote rank it touches has reached the collective.
\<close>

theorem issue_only_when_ready:
  assumes t: "trySubmitNode env dev graph i (x, w) = (p, (x', w'))"
  shows "w_dma w' = w_dma w \<or>
    (\<exists>cmd. w_dma w' = w_dma w @ [cmd] \<and> may_issue env graph i x (w_shared w) cmd)"
proof (cases "w_dma w' = w_dma w")
  case False
  let ?n = "g_nodes graph ! i" and ?sc = "ns_next (x_nodes x ! i)"
  let ?bytes = "subchunkSize env graph ?n ?sc"
  let ?slots = "pcclRingSlotsFor (pcclHostRingSlots (host_ring_slots_env (xe_pccl env)))"
  let ?d = "submit_dma env dev graph i ?sc ?bytes (x, w)"
  have e: "trySubmitNode env dev graph i (x, w) =
      (if g_num_subchunks graph \<le> ?sc then (False, x, w)
       else if \<not> inputsReady (x_comm x) (x_epoch x) (w_shared w) ?n ?sc \<or>
               \<not> overwriteReady ?slots (x_comm x) (x_epoch x) (w_shared w) ?n ?sc then (False, x, w)
       else if n_op ?n = NOP \<or> skips_dma env ?n \<or> ?bytes = 0 then (True, submit_at_once graph i ?sc (x, w))
       else if lead_blocked x (w_shared w) ?n ?sc then (False, x, w)
       else if n_op ?n \<in> {H2H, H2HReduce} then submit_h2h env dev graph i ?sc ?bytes (x, w)
       else ?d)"
    unfolding trySubmitNode_def by (simp only: Let_def prod.case)
  have w': "w' = snd (snd (trySubmitNode env dev graph i (x, w)))" by (simp add: t)
  have c: "\<not> g_num_subchunks graph \<le> ?sc" "inputsReady (x_comm x) (x_epoch x) (w_shared w) ?n ?sc"
    "overwriteReady ?slots (x_comm x) (x_epoch x) (w_shared w) ?n ?sc" "\<not> lead_blocked x (w_shared w) ?n ?sc"
    "w' = snd (snd ?d)"
    using False unfolding w' e by (auto split: if_splits)
  then obtain cmd where "w_dma w' = w_dma w @ [cmd]" "may_issue env graph i x (w_shared w) cmd"
    using submit_dma_issues[of env dev graph i ?sc ?bytes x w] False
    unfolding may_issue_def Let_def by (auto simp: not_le)
  then show ?thesis by blast
qed simp

theorem issue_only_when_ready_witness:
  "may_issue ex_run_env ex_copy_graph 0 (fst ex_ready) (w_shared (snd ex_ready))
     \<lparr>dc_op = D2H, dc_dst = 65536, dc_src = 1048576, dc_bytes = 4096, dc_lane = 0, dc_peer = None\<rparr>"
proof -
  obtain p x' w' where e: "ex_issued = (p, (x', w'))" by (metis prod.exhaust)
  then have "trySubmitNode ex_run_env ex_dev ex_copy_graph 0 (fst ex_ready, snd ex_ready) = (p, (x', w'))"
    by (simp add: ex_issued_def)
  moreover have "w_dma w' = [\<lparr>dc_op = D2H, dc_dst = 65536, dc_src = 1048576, dc_bytes = 4096, dc_lane = 0, dc_peer = None\<rparr>]"
    using ex_issued_dma unfolding e by simp
  ultimately show ?thesis using issue_only_when_ready[of ex_run_env ex_dev ex_copy_graph 0] ex_ready_dma by fastforce
qed

section \<open>The bookkeeping of a run\<close>

text \<open>
  C23. Nothing left behind. In every state a run reaches, when \<^verbatim>\<open>terminalsComplete()\<close> reports
  the graph done, no lane has a transfer in flight and no host operation is pending.
\<close>

theorem done_means_drained:
  assumes r: "reach (run_start graph b) (run_step env graph) (x, w)"
    and d: "terminalsComplete graph x (w_shared w)"
  shows "list_all (\<lambda>lane. inflight (x_rings x lane) = 0) [0..<DMA_LANE_COUNT] \<and> x_h2h x = []"
proof -
  have inv: "run_inv env graph b [] x" using run_reach[OF r] by simp
  have z: "in_ring graph x i = [] \<and> in_host (x_h2h x) i = []" if i: "i < length (g_nodes graph)" for i
  proof -
    have "g_num_subchunks graph \<le> ns_completed (x_nodes x ! i)"
      using d i by (simp add: terminalsComplete_def list_all_iff not_less)
    then have "length (in_ring graph x i) = 0" "length (in_host (x_h2h x @ []) i) = 0"
      using inv_next[OF inv i] inv_sum[OF inv i] by linarith+
    then show ?thesis by simp
  qed
  have "ring_items (x_rings x lane) = []" if l: "lane < DMA_LANE_COUNT" for lane
  proof (rule ccontr)
    assume "ring_items (x_rings x lane) \<noteq> []"
    then obtain s where s: "s \<in> set (ring_items (x_rings x lane))" by (meson last_in_set)
    have i: "ds_node s < length (g_nodes graph)" "node_lane graph (ds_node s) = lane"
      using inv_slots[OF inv l s] by simp_all
    have "s \<in> set (in_ring graph x (ds_node s))" using s i(2) by (simp add: in_ring_def)
    then show False using z[OF i(1)] by simp
  qed
  moreover have "x_h2h x = []"
  proof (rule ccontr)
    assume "x_h2h x \<noteq> []"
    then obtain it where it: "it \<in> set (x_h2h x)" by (meson last_in_set)
    have i: "hi_node it < length (g_nodes graph)" using inv_hosts[OF inv, of it] it by simp
    have "it \<in> set (in_host (x_h2h x) (hi_node it))" using it by (simp add: in_host_def)
    then show False using z[OF i] by simp
  qed
  ultimately show ?thesis by (simp add: list_all_iff ring_items_empty_iff)
qed

definition ex_second :: "executor \<times> host_world" where
  "ex_second = snd (trySubmitNode ex_run_env ex_dev ex_copy_graph 0 (snd ex_issued))"

definition ex_done :: "executor \<times> host_world" where
  "ex_done = complete_oldest ex_copy_graph 0 (complete_oldest ex_copy_graph 0 ex_second)"

lemma ex_reach_second: "reach (run_start ex_copy_graph ex_binding) (run_step ex_run_env ex_copy_graph) ex_second"
proof -
  have s0: "run_start ex_copy_graph ex_binding ex_running"
    by (simp add: run_start_def ex_running_def ex_copy_graph_def ex_ring_def ring_ok_def ring_items_empty_iff
        inflight_def dvd_def)
  have d: "waitForUserReadyAndPublishInputs True ex_copy_graph ex_running = (pcclSuccess, ex_ready)"
  proof -
    have "fst (waitForUserReadyAndPublishInputs True ex_copy_graph ex_running) = pcclSuccess" by code_simp
    then show ?thesis by (simp add: ex_ready_def prod_eq_iff)
  qed
  have g1: "x_graph (fst (snd ex_issued)) \<noteq> None" and g2: "x_graph (fst ex_second) \<noteq> None" by code_simp+
  have l: "0 < length (g_nodes ex_copy_graph)" by (simp add: ex_copy_graph_def)
  have r1: "reach (run_start ex_copy_graph ex_binding) (run_step ex_run_env ex_copy_graph) ex_ready"
    by (rule reach_step[where s = ex_running]) (rule reach_init, rule s0, rule run_inputs, rule d)
  have r2: "reach (run_start ex_copy_graph ex_binding) (run_step ex_run_env ex_copy_graph) (snd ex_issued)"
    by (rule reach_step[OF r1 run_try[OF l _ g1]]) (simp add: ex_issued_def prod_eq_iff)
  show ?thesis
    by (rule reach_step[OF r2 run_try[OF l _ g2]]) (simp add: ex_second_def prod_eq_iff)
qed

lemma ex_lane_busy: "inflight (x_rings (fst ex_second) 0) \<noteq> 0"
  "inflight (x_rings (fst (complete_oldest ex_copy_graph 0 ex_second)) 0) \<noteq> 0"
  by code_simp+

lemma ex_infos: "ds_node (er_info (x_rings (fst ex_second) 0) (tailIndex (x_rings (fst ex_second) 0))) = 0"
  "ds_node (er_info (x_rings (fst (complete_oldest ex_copy_graph 0 ex_second)) 0)
     (tailIndex (x_rings (fst (complete_oldest ex_copy_graph 0 ex_second)) 0))) = 0"
  "x_nodes (fst ex_second) = [\<lparr>ns_next = 2, ns_completed = 0, ns_h2h_pending = 0\<rparr>]"
  by code_simp+

lemma complete_oldest_nodes:
  "x_nodes (fst (complete_oldest graph lane st)) =
     (x_nodes (fst st))[ds_node (er_info (x_rings (fst st) lane) (tailIndex (x_rings (fst st) lane))) :=
        node_completed (x_nodes (fst st) ! ds_node (er_info (x_rings (fst st) lane) (tailIndex (x_rings (fst st) lane))))]"
  by (simp add: complete_oldest_def Let_def upd_node_def split: prod.split)

lemma ex_done_nodes: "x_nodes (fst ex_done) = [\<lparr>ns_next = 2, ns_completed = 2, ns_h2h_pending = 0\<rparr>]"
  unfolding ex_done_def complete_oldest_nodes ex_infos by (simp add: node_completed_def)

lemma ex_reach_done: "reach (run_start ex_copy_graph ex_binding) (run_step ex_run_env ex_copy_graph) ex_done"
proof -
  have l: "0 < DMA_LANE_COUNT" by (simp add: DMA_LANE_COUNT_def)
  show ?thesis
    unfolding ex_done_def
    by (rule reach_step[OF reach_step[OF ex_reach_second run_complete[OF l ex_lane_busy(1)]] run_complete[OF l ex_lane_busy(2)]])
qed

text \<open>
  A run of a host copy: another rank writes the input, the copy is submitted, the workers
  execute its shares and the completion is polled.
\<close>

definition ex_host_node :: instruction_node where
  "ex_host_node = \<lparr>n_op = H2H, n_source_rank = 0, n_destination_rank = 0, n_placement = Local, n_work_bytes = 4096,
     n_inputs = [\<lparr>ni_key = ProgressKey PS_HOST 0 0 1, ni_reader_id = 0, ni_ring_buffered = False\<rparr>],
     n_output = ProgressKey PS_HOST 1 0 1, n_output_ring = False, n_overwrite_guard = None, n_resource_key = ''h2h'',
     n_terminal = False\<rparr>"

definition ex_host_graph :: compiled_graph where
  "ex_host_graph = ex_copy_graph\<lparr>g_chunk_size := 4096, g_num_subchunks := 1, g_nodes := [ex_host_node],
     g_terminal_outputs := [ProgressKey PS_HOST 1 0 1]\<rparr>"

definition ex_host_start :: "executor \<times> host_world" where
  "ex_host_start = ((fst ex_running)\<lparr>x_graph := Some ex_host_graph,
      x_binding := ex_binding\<lparr>rb_host_base := \<lambda>numa. 65536 + 8192 * nat numa\<rparr>\<rparr>,
    ex_world\<lparr>w_engine := Some (new_engine 2)\<rparr>)"

definition ex_host_filled :: "executor \<times> host_world" where
  "ex_host_filled = (fst ex_host_start,
     (snd ex_host_start)\<lparr>w_shared := advanceWriteProgress 0 (ProgressKey PS_HOST 0 0 1) 1 1 zero_state\<rparr>)"

definition ex_host_tried :: "executor \<times> host_world" where
  "ex_host_tried = snd (trySubmitNode ex_run_env ex_dev ex_host_graph 0 ex_host_filled)"

text \<open>The engine after a turn of a worker.\<close>

definition turn :: "int \<Rightarrow> h2h_engine \<Rightarrow> h2h_engine" where
  "turn numa e = (case he_queue e numa of [] \<Rightarrow> e
     | item # rest \<Rightarrow> e\<lparr>he_queue := (he_queue e)(numa := rest),
          he_done := (he_done e)(hw_done item := he_done e (hw_done item) + 1), he_pending := he_pending e - 1\<rparr>)"

definition ex_host_worked :: "executor \<times> host_world" where
  "ex_host_worked = (fst ex_host_tried,
     (snd ex_host_tried)\<lparr>w_engine := map_option (turn 1 ^^ 16) (w_engine (snd ex_host_tried))\<rparr>)"

definition ex_host_done :: "executor \<times> host_world" where
  "ex_host_done = pollH2HCompletions ex_host_worked"

lemma reach_turns:
  assumes "reach S (run_step env graph) (x, w)" "w_engine w = Some e" "n \<le> length (he_queue e numa)"
  shows "reach S (run_step env graph) (x, w\<lparr>w_engine := Some ((turn numa ^^ n) e)\<rparr>)"
  using assms
proof (induction n arbitrary: e w)
  case 0
  then have "w\<lparr>w_engine := Some ((turn numa ^^ 0) e)\<rparr> = w" by (cases w) simp
  then show ?case using 0 by (simp only:)
next
  case (Suc n)
  obtain item rest where q: "he_queue e numa = item # rest" using Suc.prems(3) by (cases "he_queue e numa") auto
  have "worker_turn fops numa (e, mem) = Some (turn numa e, processGraphWork fops item mem)" for fops mem
    by (simp add: worker_turn_def turn_def q)
  then have "run_step env graph (x, w) (x, w\<lparr>w_engine := Some (turn numa e)\<rparr>)"
    using run_worker[of "(x, w)" e _ numa _ "turn numa e" _ env graph] Suc.prems(2) by fastforce
  moreover have "n \<le> length (he_queue (turn numa e) numa)" using Suc.prems(3) by (simp add: turn_def q)
  ultimately show ?case using Suc.IH[of "w\<lparr>w_engine := Some (turn numa e)\<rparr>" "turn numa e"] reach_step[OF Suc.prems(1)]
    by (simp add: funpow_swap1)
qed

lemma turns_done:
  assumes "n \<le> length (he_queue e numa)"
  shows "he_done ((turn numa ^^ n) e) c = he_done e c + length (filter (\<lambda>it. hw_done it = c) (take n (he_queue e numa)))"
  using assms
proof (induction n arbitrary: e)
  case (Suc n)
  obtain item rest where q: "he_queue e numa = item # rest" using Suc.prems by (cases "he_queue e numa") auto
  have "he_queue (turn numa e) numa = rest" "he_done (turn numa e) c = he_done e c + (if hw_done item = c then 1 else 0)"
    by (simp_all add: turn_def q)
  then show ?case using Suc.IH[of "turn numa e"] Suc.prems q by (simp add: funpow_swap1)
qed simp

definition ex_host_item :: h2h_inflight where
  "ex_host_item = \<lparr>hi_node = 0, hi_subchunk = 0, hi_counter = 0, hi_expected = 16\<rparr>"

lemma ex_host_facts:
  "x_graph (fst ex_host_tried) \<noteq> None" "w_engine (snd ex_host_tried) \<noteq> None"
  "length (he_queue (the (w_engine (snd ex_host_tried))) 1) = 16"
  "x_h2h (fst ex_host_tried) = [ex_host_item]"
  "map hw_done (he_queue (the (w_engine (snd ex_host_tried))) 1) = replicate 16 0"
  "he_done (the (w_engine (snd ex_host_tried))) 0 = 0"
  "x_nodes (fst ex_host_tried) = [\<lparr>ns_next = 1, ns_completed = 0, ns_h2h_pending = 1\<rparr>]"
  "x_comm (fst ex_host_tried) = 0" "x_epoch (fst ex_host_tried) = 1"
  "getWriteProgress (publish_done 0 1 ex_host_node 0 (w_shared (snd ex_host_tried))) 0 (ProgressKey PS_HOST 1 0 1) 1 = 1"
  by code_simp+

lemma ex_host_finished: "16 \<le> he_done ((turn 1 ^^ 16) (the (w_engine (snd ex_host_tried)))) 0"
proof -
  let ?e = "the (w_engine (snd ex_host_tried))"
  have "filter (\<lambda>it. hw_done it = 0) (he_queue ?e 1) = he_queue ?e 1"
    using ex_host_facts(5) by (metis (mono_tags, lifting) filter_True in_set_replicate image_eqI set_map)
  then show ?thesis using turns_done[of 16 ?e 1 0] ex_host_facts(3,6) by simp
qed


lemma ex_host_reach:
  assumes "st \<in> {ex_host_tried, ex_host_done}"
  shows "reach (run_start ex_host_graph (x_binding (fst ex_host_start))) (run_step ex_run_env ex_host_graph) st"
proof -
  let ?R = "reach (run_start ex_host_graph (x_binding (fst ex_host_start))) (run_step ex_run_env ex_host_graph)"
  have "run_start ex_host_graph (x_binding (fst ex_host_start)) ex_host_start"
    by (simp add: run_start_def ex_host_start_def ex_running_def ex_host_graph_def ex_copy_graph_def ex_ring_def ring_ok_def
        ring_items_empty_iff inflight_def dvd_def)
  then have 0: "?R ex_host_start" by (rule reach_init)
  have 1: "?R ex_host_filled"
    using reach_step[OF 0 run_others[of "snd ex_host_filled" ex_host_start]]
    by (simp add: ex_host_filled_def ex_host_start_def)
  obtain p where p: "trySubmitNode ex_run_env ex_dev ex_host_graph 0 ex_host_filled = (p, ex_host_tried)"
    by (metis ex_host_tried_def prod.collapse)
  have l: "0 < length (g_nodes ex_host_graph)" by (simp add: ex_host_graph_def)
  have 2: "?R ex_host_tried" by (rule reach_step[OF 1 run_try[OF l p ex_host_facts(1)]])
  obtain e where e: "w_engine (snd ex_host_tried) = Some e" using ex_host_facts(2) by blast
  have q: "16 \<le> length (he_queue e 1)" using e ex_host_facts(3) by simp
  have "?R (fst ex_host_tried, snd ex_host_tried)" using 2 by simp
  from reach_turns[OF this e q] have 3: "?R ex_host_worked" by (simp add: ex_host_worked_def e)
  show ?thesis using assms 2 reach_step[OF 3 run_h2h] by (auto simp: ex_host_done_def)
qed

lemma ex_host_graph_kept: "x_graph (fst ex_host_tried) = Some ex_host_graph"
proof -
  obtain x w where xw: "ex_host_tried = (x, w)" by (cases ex_host_tried)
  have "reach (run_start ex_host_graph (x_binding (fst ex_host_start))) (run_step ex_run_env ex_host_graph) (x, w)"
    using ex_host_reach xw by simp
  then have "run_inv ex_run_env ex_host_graph (x_binding (fst ex_host_start)) [] x" using run_reach by fastforce
  from inv_graph[OF this] show ?thesis by (simp add: xw)
qed

lemma ex_host_end: "terminalsComplete ex_host_graph (fst ex_host_done) (w_shared (snd ex_host_done))"
proof -
  have g: "g_nodes ex_host_graph = [ex_host_node]" "g_num_subchunks ex_host_graph = 1"
    "g_terminal_outputs ex_host_graph = [ProgressKey PS_HOST 1 0 1]" by (simp_all add: ex_host_graph_def)
  have w: "w_engine (snd ex_host_worked) = Some ((turn 1 ^^ 16) (the (w_engine (snd ex_host_tried))))"
    "w_shared (snd ex_host_worked) = w_shared (snd ex_host_tried)" "fst ex_host_worked = fst ex_host_tried"
    using ex_host_facts(2) by (auto simp: ex_host_worked_def)
  have poll: "pollH2HCompletions (x, v) = poll_h2h_one graph (x\<lparr>x_h2h := []\<rparr>, v) it"
    if "w_engine v \<noteq> None" "x_graph x = Some graph" "x_h2h x = [it]" for x v graph it
    using that by (auto simp: pollH2HCompletions_def)
  have d: "ex_host_done = poll_h2h_one ex_host_graph ((fst ex_host_tried)\<lparr>x_h2h := []\<rparr>, snd ex_host_worked) ex_host_item"
    using poll[of "snd ex_host_worked" "fst ex_host_tried", OF _ ex_host_graph_kept ex_host_facts(4)] w(1,3)
    by (metis ex_host_done_def option.distinct(1) prod.collapse)
  show ?thesis
    unfolding d using ex_host_finished ex_host_facts(10)
    by (simp add: poll_h2h_one_def w ex_host_item_def terminalsComplete_def g ex_host_facts upd_node_def upd_shared_def
        node_completed_def node_h2h_done_def)
qed

theorem done_means_drained_witness:
  "list_all (\<lambda>lane. inflight (x_rings (fst ex_host_done) lane) = 0) [0..<DMA_LANE_COUNT] \<and> x_h2h (fst ex_host_done) = [] \<and>
   x_h2h (fst ex_host_tried) = [ex_host_item]"
  using done_means_drained[of ex_host_graph "x_binding (fst ex_host_start)" ex_run_env "fst ex_host_done" "snd ex_host_done"]
    ex_host_reach ex_host_end ex_host_facts(4) by simp

text \<open>
  C24. Publication in order. In every state a run reaches, completing the oldest transfer of a
  lane publishes the lowest subchunk its node has in flight there, for nodes of every kind.
  For a node all of whose subchunks are transfers (none skipped, empty, or a local copy of a
  place onto itself) that is the first subchunk the node has not completed: its progress
  counters never skip one.
\<close>

theorem lane_publishes_in_order:
  assumes r: "reach (run_start graph b) (run_step env graph) (x, w)"
    and lane: "lane < DMA_LANE_COUNT" "inflight (x_rings x lane) \<noteq> 0"
    and s: "s = er_info (x_rings x lane) (tailIndex (x_rings x lane))"
  shows "w_shared (snd (complete_oldest graph lane (x, w))) =
      publish_done (x_comm x) (x_epoch x) (g_nodes graph ! ds_node s) (ds_subchunk s) (w_shared w) \<and>
    list_all (\<lambda>t. ds_node t = ds_node s \<longrightarrow> ds_subchunk s \<le> ds_subchunk t) (ring_items (x_rings x lane)) \<and>
    (transfers env graph b (ds_node s) \<longrightarrow> ds_subchunk s = ns_completed (x_nodes x ! ds_node s))"
proof -
  have inv: "run_inv env graph b [] x" using run_reach[OF r] by simp
  note c = run_inv_complete[OF inv lane]
  have p: "ds_reader_pending s" "ds_node s < length (g_nodes graph)" "hd (ring_items (x_rings x lane)) = s"
    using c(2,3,4) s by simp_all
  then obtain ss where q: "ring_items (x_rings x lane) = s # ss"
    using lane(2) ring_items_empty_iff[of "x_rings x lane"] by (cases "ring_items (x_rings x lane)") auto
  have l: "node_lane graph (ds_node s) = lane" using inv_slots[OF inv lane(1), of s] q by simp
  have "in_ring graph x (ds_node s) = s # filter (\<lambda>t. ds_node t = ds_node s) ss" using l q by (simp add: in_ring_def)
  then have "\<forall>t \<in> set ss. ds_node t = ds_node s \<longrightarrow> ds_subchunk s < ds_subchunk t"
    using inv_sorted[OF inv p(2)] by auto
  moreover have "transfers env graph b (ds_node s) \<Longrightarrow> ds_subchunk s = ns_completed (x_nodes x ! ds_node s)"
    using c(5) p(3) by simp
  ultimately show ?thesis using p(1) q
    by (auto simp: complete_oldest_def Let_def upd_shared_def publish_done_def list_all_iff simp flip: s)
qed

theorem lane_publishes_in_order_witness:
  "w_shared (snd (complete_oldest ex_copy_graph 0 ex_second)) =
     publish_done 0 1 ex_copy_node 0 (w_shared (snd ex_second))"
proof -
  define s where "s = er_info (x_rings (fst ex_second) 0) (tailIndex (x_rings (fst ex_second) 0))"
  have i: "ds_node s = 0" unfolding s_def by code_simp
  have c: "x_comm (fst ex_second) = 0" "x_epoch (fst ex_second) = 1" "ns_completed (x_nodes (fst ex_second) ! 0) = 0"
    by code_simp+
  have t: "transfers ex_run_env ex_copy_graph ex_binding 0" by code_simp
  have n: "g_nodes ex_copy_graph ! 0 = ex_copy_node" by (simp add: ex_copy_graph_def)
  show ?thesis
    using lane_publishes_in_order[of ex_copy_graph ex_binding ex_run_env "fst ex_second" "snd ex_second" 0 s] ex_reach_second
      ex_lane_busy(1) i t by (simp add: c n DMA_LANE_COUNT_def s_def)
qed

section \<open>Errors\<close>

text \<open>The slots and sequence numbers of the work items alive: the current one, then the queue.\<close>

definition alive_work :: "executor \<Rightarrow> (int \<times> nat) list" where
  "alive_work x = (if x_work_seq x \<noteq> 0 then [(x_slot x, x_work_seq x)] else []) @
     map (\<lambda>i. (wi_slot i, wi_work_seq i)) (x_queue x)"

lemma signal_all:
  assumes "cf_mem_ops cf" "w_flag w = Some cf" "list_all (\<lambda>p. validSlot cf (fst p)) ps" "distinct (map fst ps)"
  shows "\<exists>cf'. w_flag (foldl (\<lambda>w p. signal ok (fst p) (snd p) w) w ps) = Some cf' \<and>
    (\<forall>p \<in> set ps. fs_complete (cf_slots cf' (fst p)) = snd p) \<and>
    (\<forall>s. s \<notin> fst ` set ps \<longrightarrow> fs_complete (cf_slots cf' s) = fs_complete (cf_slots cf s))"
  using assms
proof (induction ps arbitrary: cf w)
  case Nil
  then show ?case by simp
next
  case (Cons p ps)
  let ?cf = "snd (signalComplete ok (fst p) (snd p) cf)" and ?w = "signal ok (fst p) (snd p) w"
  have v: "validSlot cf (fst p)" and l: "list_all (\<lambda>p. validSlot ?cf (fst p)) ps"
    and d: "fst p \<notin> fst ` set ps" "distinct (map fst ps)" using Cons.prems(3,4) by (simp_all add: list_all_iff)
  have m: "cf_mem_ops ?cf" "w_flag ?w = Some ?cf" using Cons.prems(1,2) by (simp_all add: signal_def)
  note c = signal_complete[OF Cons.prems(1), of ok "fst p" "snd p"]
  obtain cf' where cf': "w_flag (foldl (\<lambda>w p. signal ok (fst p) (snd p) w) ?w ps) = Some cf'"
    "\<forall>q \<in> set ps. fs_complete (cf_slots cf' (fst q)) = snd q"
    "\<forall>s. s \<notin> fst ` set ps \<longrightarrow> fs_complete (cf_slots cf' s) = fs_complete (cf_slots ?cf s)"
    using Cons.IH[OF m l d(2)] by blast
  show ?case
  proof (intro exI[of _ cf'] conjI ballI allI impI)
    show "w_flag (foldl (\<lambda>w p. signal ok (fst p) (snd p) w) w (p # ps)) = Some cf'" using cf'(1) by simp
    fix q assume q: "q \<in> set (p # ps)"
    show "fs_complete (cf_slots cf' (fst q)) = snd q"
    proof (cases "q \<in> set ps")
      case False
      then have "q = p" using q by simp
      then show ?thesis using cf'(3) d(1) c v by simp
    qed (use cf'(2) in blast)
  next
    fix s assume s: "s \<notin> fst ` set (p # ps)"
    then show "fs_complete (cf_slots cf' s) = fs_complete (cf_slots cf s)" using cf'(3) c by simp
  qed
qed


definition ex_queued :: executor where
  "ex_queued = (fst ex_running)\<lparr>x_queue := [\<lparr>wi_graph = ex_copy_graph, wi_binding = ex_binding,
     wi_user_stream = 7, wi_epoch = 0, wi_work_seq = 2, wi_slot = 1\<rparr>]\<rparr>"


end
