(* ===== verification/WorkQueue.thy ===== *)
theory WorkQueue
  imports Executor
begin

text \<open>
  The life of work items. The submitting thread takes a sequence number and a completion slot
  in one critical section and queues the item in a second one; in between the executor thread
  may take and finish items, and a submission that fails after the first section has used up
  its number.
\<close>

section \<open>Steps\<close>

text \<open>
  \<open>ls_claim\<close> is the number and slot of a submission between its two critical sections,
  \<open>ls_lost\<close> counts the submissions that failed there. Submissions do not overlap: each
  holds \<^verbatim>\<open>submit_mutex_\<close> throughout. \<open>x_work_seq_counter\<close> stays below \<open>2 ^ 64 - 1\<close>.
\<close>

record life_state =
  ls_st :: "executor \<times> host_world"
  ls_claim :: "(nat \<times> int) option"
  ls_lost :: nat

abbreviation ls_x :: "life_state \<Rightarrow> executor" where
  "ls_x s \<equiv> fst (ls_st s)"

definition queue_item :: "work_item \<Rightarrow> executor \<times> host_world \<Rightarrow> executor \<times> host_world" where
  "queue_item it st = (case st of (x, w) \<Rightarrow> (x\<lparr>x_queue := x_queue x @ [it]\<rparr>, w))"

inductive life_step :: "life_state \<Rightarrow> life_state \<Rightarrow> bool" where
  life_refuse: "ls_claim s = None \<Longrightarrow> ready \<longrightarrow> can_submit (ls_x s) \<Longrightarrow> reserve ready (ls_x s) = (Inl e, x) \<Longrightarrow>
    life_step s (s\<lparr>ls_st := (x, snd (ls_st s))\<rparr>)"
| life_reserve: "ls_claim s = None \<Longrightarrow> ready \<longrightarrow> can_submit (ls_x s) \<Longrightarrow> x_work_seq_counter (ls_x s) + 1 < two64 \<Longrightarrow>
    reserve ready (ls_x s) = (Inr (seq, epoch, slot), x) \<Longrightarrow>
    life_step s (s\<lparr>ls_st := (x, snd (ls_st s)), ls_claim := Some (seq, slot)\<rparr>)"
| life_lose: "ls_claim s = Some (seq, slot) \<Longrightarrow>
    life_step s (s\<lparr>ls_st := (ls_x s, w), ls_claim := None, ls_lost := ls_lost s + 1\<rparr>)"
| life_queue: "ls_claim s = Some (wi_work_seq it, wi_slot it) \<Longrightarrow>
    life_step s (s\<lparr>ls_st := queue_item it (ls_x s, w), ls_claim := None\<rparr>)"
| life_idle: "waitForIdle idle (ls_x s) = (r, x) \<Longrightarrow> life_step s (s\<lparr>ls_st := (x, snd (ls_st s))\<rparr>)"
| life_take: "\<not> x_busy (ls_x s) \<Longrightarrow> take_work (ls_st s) = Some st \<Longrightarrow> life_step s (s\<lparr>ls_st := st\<rparr>)"
| life_finish: "x_busy (ls_x s) \<Longrightarrow> life_step s (s\<lparr>ls_st := finishCurrentWork ok r (ls_st s)\<rparr>)"

definition life_start :: "life_state \<Rightarrow> bool" where
  "life_start s \<longleftrightarrow> \<not> x_busy (ls_x s) \<and> x_queue (ls_x s) = [] \<and> x_work_seq_counter (ls_x s) = 0 \<and>
     0 < x_queue_depth (ls_x s) \<and> x_queue_depth (ls_x s) \<le> PCCL_EXECUTOR_QUEUE_DEPTH_MAX \<and>
     ls_claim s = None \<and> ls_lost s = 0"

text \<open>
  A whole call of \<^verbatim>\<open>submit\<close> with nothing in between is a sequence of these steps, whatever
  its result.
\<close>

lemma submit_is_steps:
  assumes "submit obs op graph b us st = (r, st')" "so_ready obs \<longrightarrow> can_submit (fst st)"
    "x_work_seq_counter (fst st) + 1 < two64"
  shows "\<exists>k. life_step\<^sup>*\<^sup>* \<lparr>ls_st = st, ls_claim = None, ls_lost = l\<rparr> \<lparr>ls_st = st', ls_claim = None, ls_lost = k\<rparr> \<and>
    (r = pcclSuccess \<longrightarrow> k = l)"
proof -
  let ?s = "\<lparr>ls_st = st, ls_claim = None, ls_lost = l\<rparr>"
  obtain x w where st: "st = (x, w)" by (cases st)
  obtain res x1 where rv: "reserve (so_ready obs) x = (res, x1)" by (cases "reserve (so_ready obs) x")
  show ?thesis
  proof (cases res)
    case (Inl e)
    have "life_step ?s \<lparr>ls_st = (x1, w), ls_claim = None, ls_lost = l\<rparr>"
      using life_refuse[of ?s "so_ready obs" e x1] assms(2) rv Inl st by simp
    moreover have "st' = (x1, w)" using assms(1) rv Inl by (simp add: submit_def st)
    ultimately show ?thesis by blast
  next
    case (Inr n)
    obtain seq epoch slot where n: "n = (seq, epoch, slot)" by (metis prod_cases3)
    let ?c = "\<lparr>ls_st = (x1, w), ls_claim = Some (seq, slot), ls_lost = l\<rparr>"
    have 1: "life_step ?s ?c"
      using life_reserve[of ?s "so_ready obs" seq epoch slot x1] assms(2,3) rv Inr n st by simp
    have lose: "life_step ?c \<lparr>ls_st = (x1, w'), ls_claim = None, ls_lost = Suc l\<rparr>" for w'
      using life_lose[of ?c seq slot w'] by simp
    have enq: "life_step ?c \<lparr>ls_st = (x1\<lparr>x_queue := x_queue x1 @ [it]\<rparr>, w'), ls_claim = None, ls_lost = l\<rparr>"
      if "wi_work_seq it = seq" "wi_slot it = slot" for it w'
      using life_queue[of ?c it w'] that by (simp add: queue_item_def)
    show ?thesis
    proof (cases "w_flag w")
      case None
      then have "st' = (x1, w) \<and> r \<noteq> pcclSuccess" using assms(1) rv Inr n by (auto simp: submit_def st)
      then show ?thesis using 1 lose[of w] by (meson rtranclp.rtrancl_into_rtrancl r_into_rtranclp)
    next
      case (Some cf)
      obtain pr cf1 where p: "prepareUserWait (so_stream_ok obs) slot us op (x_rank x1) seq cf = (pr, cf1)" by fastforce
      define it where "it = \<lparr>wi_graph = graph, wi_binding = b, wi_user_stream = us, wi_epoch = epoch,
        wi_work_seq = seq, wi_slot = slot\<rparr>"
      let ?w = "w\<lparr>w_flag := Some cf1\<rparr>" and ?y = "x1\<lparr>x_queue := x_queue x1 @ [it]\<rparr>"
      show ?thesis
      proof (cases "pr = 0")
        case False
        then have "st' = (x1, ?w) \<and> r \<noteq> pcclSuccess" using assms(1) rv Inr n Some p by (auto simp: submit_def st)
        then show ?thesis using 1 lose[of ?w] by (meson rtranclp.rtrancl_into_rtrancl r_into_rtranclp)
      next
        case True
        have 2: "life_step ?c \<lparr>ls_st = (?y, ?w), ls_claim = None, ls_lost = l\<rparr>" by (rule enq) (simp_all add: it_def)
        obtain r1 y1 where i: "waitForIdle (so_idle obs) ?y = (r1, y1)" by fastforce
        have 3: "life_step \<lparr>ls_st = (?y, ?w), ls_claim = None, ls_lost = l\<rparr> \<lparr>ls_st = (y1, ?w), ls_claim = None, ls_lost = l\<rparr>"
          using life_idle[of "so_idle obs" "\<lparr>ls_st = (?y, ?w), ls_claim = None, ls_lost = l\<rparr>" r1 y1] i by simp
        have "st' = (?y, ?w) \<or> st' = (y1, ?w)"
          using assms(1) unfolding submit_def by (auto simp: st rv Inr n Some p True i Let_def it_def[symmetric] split: if_splits)
        moreover have "life_step\<^sup>*\<^sup>* ?s \<lparr>ls_st = (?y, ?w), ls_claim = None, ls_lost = l\<rparr>"
          "life_step\<^sup>*\<^sup>* ?s \<lparr>ls_st = (y1, ?w), ls_claim = None, ls_lost = l\<rparr>"
          using 1 2 3 by (meson rtranclp.rtrancl_into_rtrancl r_into_rtranclp)+
        ultimately show ?thesis by blast
      qed
    qed
  qed
qed

section \<open>Invariant\<close>

definition live_seqs :: "life_state \<Rightarrow> nat list" where
  "live_seqs s = (if x_busy (ls_x s) then [x_work_seq (ls_x s)] else []) @ map wi_work_seq (x_queue (ls_x s)) @
     (case ls_claim s of None \<Rightarrow> [] | Some (seq, slot) \<Rightarrow> [seq])"

definition live_slots :: "life_state \<Rightarrow> int list" where
  "live_slots s = (if x_busy (ls_x s) then [x_slot (ls_x s)] else []) @ map wi_slot (x_queue (ls_x s)) @
     (case ls_claim s of None \<Rightarrow> [] | Some (seq, slot) \<Rightarrow> [slot])"

definition slot_of :: "int \<Rightarrow> nat \<Rightarrow> int" where
  "slot_of depth seq = (int seq - 1) mod depth"

text \<open>Numbers that ascend up to \<open>c\<close>, without gaps when \<open>k\<close> is 0.\<close>

definition ascending :: "nat \<Rightarrow> nat \<Rightarrow> nat list \<Rightarrow> bool" where
  "ascending c k ns \<longleftrightarrow> sorted_wrt (<) ns \<and> (\<forall>n \<in> set ns. 0 < n \<and> n \<le> c) \<and>
     (k = 0 \<longrightarrow> length ns \<le> c \<and> ns = [c + 1 - length ns..<c + 1])"

definition life_inv :: "life_state \<Rightarrow> bool" where
  "life_inv s \<longleftrightarrow> 0 < x_queue_depth (ls_x s) \<and> x_queue_depth (ls_x s) \<le> PCCL_EXECUTOR_QUEUE_DEPTH_MAX \<and>
     x_work_seq_counter (ls_x s) < two64 \<and> int (length (live_seqs s)) \<le> x_queue_depth (ls_x s) \<and>
     ascending (x_work_seq_counter (ls_x s)) (ls_lost s) (live_seqs s) \<and>
     live_slots s = map (slot_of (x_queue_depth (ls_x s))) (live_seqs s)"

lemma upt_shift: "n \<le> c \<Longrightarrow> [c + 1 - n..<c + 1] @ [c + 1] = [c + 2 - Suc n..<c + 2]"
  by (simp add: upt_Suc_append numeral_2_eq_2)

lemma ascending_Nil: "ascending c k []"
  by (simp add: ascending_def)

lemma ascending_snoc: "ascending c k ns \<Longrightarrow> ascending (c + 1) k (ns @ [c + 1])"
  using upt_shift[of "length ns" c] by (fastforce simp: ascending_def sorted_wrt_append)

lemma ascending_tl: "ascending c k ns \<Longrightarrow> ascending c k (tl ns)"
proof -
  assume a: "ascending c k ns"
  have "tl ns = [c + 1 - length (tl ns)..<c + 1]" if k: "k = 0"
  proof (cases ns)
    case (Cons n ms)
    have u: "ns = [c + 1 - length ns..<c + 1]" "length ns \<le> c" using a k by (simp_all add: ascending_def)
    have "Suc (c + 1 - length ns) = c + 1 - length (tl ns)" using u(2) Cons by simp
    then show ?thesis using u(1) tl_upt by metis
  qed simp
  then show ?thesis using a by (cases ns) (auto simp: ascending_def)
qed

lemma ascending_butlast: "ascending c k ns \<Longrightarrow> ascending c (Suc j) (butlast ns)"
  by (cases ns rule: rev_cases) (auto simp: ascending_def sorted_wrt_append)

lemma reserve_claims:
  assumes "reserve ready x = (Inr (seq, epoch, slot), x')" "x_work_seq_counter x + 1 < two64"
    "0 < x_queue_depth x" "x_queue_depth x \<le> PCCL_EXECUTOR_QUEUE_DEPTH_MAX"
  shows "ready \<and> \<not> x_stop x \<and> x_last_result x = pcclSuccess \<and> seq = x_work_seq_counter x + 1 \<and>
    slot = slot_of (x_queue_depth x) seq \<and> x' = x\<lparr>x_work_seq_counter := seq\<rparr>"
proof -
  have a: "add64 (x_work_seq_counter x) 1 = x_work_seq_counter x + 1" using assms(2) by (simp add: add64_def)
  have s: "sub64 (x_work_seq_counter x + 1) 1 = x_work_seq_counter x" using assms(2) by (simp add: sub64_def)
  have d: "int_to_size (x_queue_depth x) = nat (x_queue_depth x)"
    using assms(3,4) by (simp add: int_to_size_def PCCL_EXECUTOR_QUEUE_DEPTH_MAX_def)
  have sl: "int (x_work_seq_counter x mod nat (x_queue_depth x)) = slot_of (x_queue_depth x) (x_work_seq_counter x + 1)"
    using assms(3) by (simp add: slot_of_def zmod_int)
  show ?thesis using assms(1) unfolding reserve_def Let_def a s d sl by (auto split: if_splits)
qed

lemma reserve_refuses: "reserve ready x = (Inl e, x') \<Longrightarrow> x' = x\<lparr>x_last_result := x_last_result x'\<rparr>"
  by (auto simp: reserve_def Let_def split: if_splits)

lemma life_inv_same:
  assumes "x_queue (ls_x s') = x_queue (ls_x s)" "x_busy (ls_x s') = x_busy (ls_x s)" "x_work_seq (ls_x s') = x_work_seq (ls_x s)"
    "x_slot (ls_x s') = x_slot (ls_x s)" "x_queue_depth (ls_x s') = x_queue_depth (ls_x s)"
    "x_work_seq_counter (ls_x s') = x_work_seq_counter (ls_x s)" "ls_claim s' = ls_claim s" "ls_lost s' = ls_lost s"
  shows "life_inv s' = life_inv s"
  unfolding life_inv_def live_seqs_def live_slots_def assms ..

lemma life_inv_step:
  assumes inv: "life_inv s" and st: "life_step s s'"
  shows "life_inv s'"
  using st
proof cases
  case (life_refuse ready e x)
  have "life_inv s' = life_inv s" by (rule life_inv_same; subst life_refuse(1); subst reserve_refuses[OF life_refuse(4)]; simp)
  then show ?thesis using inv by simp
next
  case (life_reserve ready seq epoch slot x)
  have I: "0 < x_queue_depth (ls_x s)" "x_queue_depth (ls_x s) \<le> PCCL_EXECUTOR_QUEUE_DEPTH_MAX" using inv by (simp_all add: life_inv_def)
  note c = reserve_claims[OF life_reserve(5,4) I]
  have room: "int (length (live_seqs s)) < x_queue_depth (ls_x s)"
    using life_reserve(2,3) c by (auto simp: can_submit_def live_seqs_def)
  have l: "live_seqs s' = live_seqs s @ [seq]" "live_slots s' = live_slots s @ [slot]" "ls_x s' = x" "ls_lost s' = ls_lost s"
    using c by (simp_all add: life_reserve(1,2) live_seqs_def live_slots_def)
  have as: "ascending (x_work_seq_counter (ls_x s)) (ls_lost s) (live_seqs s)" using inv by (simp add: life_inv_def)
  show ?thesis using inv room c ascending_snoc[OF as] life_reserve(4) unfolding life_inv_def l by simp
next
  case (life_lose seq slot w)
  have l: "live_seqs s' = butlast (live_seqs s)" "live_slots s' = butlast (live_slots s)"
    by (simp_all add: life_lose live_seqs_def live_slots_def butlast_append)
  have "length (butlast (live_seqs s)) \<le> length (live_seqs s)" by simp
  moreover have "x_queue_depth (ls_x s') = x_queue_depth (ls_x s)" "x_work_seq_counter (ls_x s') = x_work_seq_counter (ls_x s)"
    "ls_lost s' = Suc (ls_lost s)" by (simp_all add: life_lose(1))
  ultimately show ?thesis using inv ascending_butlast unfolding life_inv_def l by (fastforce simp: map_butlast)
next
  case (life_queue it w)
  have "live_seqs s' = live_seqs s" "live_slots s' = live_slots s"
    by (simp_all add: life_queue live_seqs_def live_slots_def queue_item_def)
  moreover have "x_queue_depth (ls_x s') = x_queue_depth (ls_x s)" "x_work_seq_counter (ls_x s') = x_work_seq_counter (ls_x s)"
    "ls_lost s' = ls_lost s" by (simp_all add: life_queue(1) queue_item_def)
  ultimately show ?thesis using inv by (simp add: life_inv_def)
next
  case (life_idle idle r x)
  have "life_inv s' = life_inv s"
    by (rule life_inv_same) (use life_idle in \<open>auto simp: waitForIdle_def split: if_splits\<close>)
  then show ?thesis using inv by simp
next
  case (life_take st)
  obtain x w where xw: "ls_st s = (x, w)" by fastforce
  obtain it rest where q: "x_queue x = it # rest" using life_take(3) xw by (cases "x_queue x") (simp_all add: take_work_def)
  have x': "x_queue (fst st) = rest" "x_busy (fst st)" "x_work_seq (fst st) = wi_work_seq it" "x_slot (fst st) = wi_slot it"
    "x_queue_depth (fst st) = x_queue_depth x" "x_work_seq_counter (fst st) = x_work_seq_counter x"
    using life_take(3) q xw by (auto simp: take_work_def)
  have "live_seqs s' = live_seqs s" "live_slots s' = live_slots s"
    using q x' life_take(2) xw by (simp_all add: life_take(1) live_seqs_def live_slots_def)
  then show ?thesis using inv x'(5,6) xw by (simp add: life_inv_def life_take(1))
next
  case (life_finish ok r)
  obtain x w where xw: "ls_st s = (x, w)" by fastforce
  let ?y = "fst (finishCurrentWork ok r (x, w))"
  have y: "x_queue ?y = (if r = pcclSuccess then x_queue x else [])" "\<not> x_busy ?y"
    "x_queue_depth ?y = x_queue_depth x" "x_work_seq_counter ?y = x_work_seq_counter x"
    by (simp_all add: finishCurrentWork_def Let_def)
  have f: "ls_x s' = ?y" "ls_claim s' = ls_claim s" "ls_lost s' = ls_lost s" by (simp_all add: life_finish(1) xw)
  have b: "x_busy x" using life_finish(2) xw by simp
  have as: "ascending (x_work_seq_counter x) (ls_lost s) (live_seqs s)" using inv xw by (simp add: life_inv_def)
  show ?thesis
  proof (cases "r = pcclSuccess")
    case True
    have l: "live_seqs s' = tl (live_seqs s)" "live_slots s' = tl (live_slots s)"
      using True y b f xw by (simp_all add: live_seqs_def live_slots_def)
    show ?thesis using inv ascending_tl[OF as] y f xw unfolding life_inv_def l by (auto simp: map_tl)
  next
    case False
    let ?t = "case ls_claim s of None \<Rightarrow> [] | Some (seq, slot) \<Rightarrow> [seq]"
    define k where "k = length (live_seqs s) - length ?t"
    have l: "live_seqs s' = drop k (live_seqs s)" "live_slots s' = drop k (live_slots s)"
      using False y b f xw by (auto simp: live_seqs_def live_slots_def k_def split: option.splits)
    have "ascending c j ns \<Longrightarrow> ascending c j (drop k ns)" for c j ns
      by (induction k) (auto simp: drop_Suc simp flip: tl_drop intro: ascending_tl)
    then show ?thesis using inv as y f xw unfolding life_inv_def l by (auto simp: drop_map)
  qed
qed

lemma life_reach:
  assumes "reach life_start life_step s"
  shows "life_inv s"
  using assms
proof (rule reach_invariant)
  fix s assume "life_start s"
  then show "life_inv s" using ascending_Nil
    by (simp add: life_start_def life_inv_def live_seqs_def live_slots_def)
qed (rule life_inv_step)

text \<open>Fewer than \<open>depth\<close> apart, the slots of two sequence numbers differ.\<close>

lemma slots_distinct:
  assumes "0 < depth" "int n \<le> depth"
  shows "distinct (map (slot_of depth) [a..<a + n])"
proof -
  have "inj_on (slot_of depth) {a..<a + n}"
  proof (rule inj_onI)
    fix i j assume ij: "i \<in> {a..<a + n}" "j \<in> {a..<a + n}" "slot_of depth i = slot_of depth j"
    then have "depth dvd (int i - int j)"
      by (simp add: slot_of_def mod_eq_dvd_iff)
    moreover have "\<bar>int i - int j\<bar> < depth" using ij(1,2) assms(2) by auto
    ultimately show "i = j" using zdvd_not_zless[of "\<bar>int i - int j\<bar>" depth] by auto
  qed
  then show ?thesis by (simp add: distinct_map)
qed


text \<open>Two submissions, the first taken in between.\<close>

definition wq_graph :: compiled_graph where
  "wq_graph = \<lparr>g_rank = 0, g_world_size = 1, g_input_chunk_count = 0, g_output_chunk_count = 0,
     g_total_bytes = 0, g_chunk_size = 0, g_element_size = 4, g_num_subchunks = 1,
     g_scalar_type = Float32, g_reduce_op = Sum_op, g_is_in_place = False, g_has_remote_d2d = False,
     g_internal_bytes = 0, g_layout = (\<lambda>_. makeLayout 0 0 0 1), g_nodes = [],
     g_initial_ready_inputs = [], g_terminal_outputs = [], g_active_keys = [], g_reader_assignment = []\<rparr>"

definition wq_binding :: runtime_binding where
  "wq_binding = \<lparr>rb_host_base = (\<lambda>_. 0), rb_device_base = (\<lambda>_ _. 0), rb_layout = (\<lambda>_. makeLayout 0 0 0 1),
     rb_scalar_type = Float32, rb_reduce_op = Sum_op, rb_element_size = 4\<rparr>"

definition wq_idle :: "executor \<times> host_world" where
  "wq_idle = (\<lparr>x_rank = 0, x_world = 1, x_comm = 0, x_queue_depth = 4, x_cold_start_drain = 0,
      x_seen = (\<lambda>_. False), x_rings = (\<lambda>_. new_ring DEFAULT_CAPACITY
        \<lparr>ds_node = 0, ds_subchunk = 0, ds_size = 0, ds_lane = 0, ds_reader_pending = False\<rparr>),
      x_stop = False, x_queue = [], x_busy = False, x_last_result = pcclSuccess, x_graph = None,
      x_binding = wq_binding, x_user_stream = 0, x_epoch = 0, x_work_seq_counter = 0, x_work_seq = 0,
      x_slot = 0, x_lead_window = False, x_inputs_published = False, x_nodes = [], x_h2h = []\<rparr>,
    \<lparr>w_shared = zero_state, w_engine = None, w_flag = Some (new_flag\<lparr>cf_initialized := True, cf_mem_ops := True\<rparr>),
     w_next_counter = 0, w_dma = []\<rparr>)"

definition wq_obs :: submit_obs where
  "wq_obs = \<lparr>so_ready = True, so_stream_ok = (\<lambda>_. True), so_idle = True, so_sync_ok = True\<rparr>"

definition wq_one :: "executor \<times> host_world" where
  "wq_one = snd (submit wq_obs AllReduce_op wq_graph wq_binding 7 wq_idle)"

definition wq_taken :: "executor \<times> host_world" where
  "wq_taken = the (take_work wq_one)"

definition wq_two :: "executor \<times> host_world" where
  "wq_two = snd (submit wq_obs AllReduce_op wq_graph wq_binding 7 wq_taken)"

lemma wq_facts:
  "can_submit (fst wq_idle)" "x_work_seq_counter (fst wq_idle) + 1 < two64"
  "fst (submit wq_obs AllReduce_op wq_graph wq_binding 7 wq_idle) = pcclSuccess"
  "\<not> x_busy (fst wq_one)" "x_queue (fst wq_one) \<noteq> []"
  "can_submit (fst wq_taken)" "x_work_seq_counter (fst wq_taken) + 1 < two64"
  "fst (submit wq_obs AllReduce_op wq_graph wq_binding 7 wq_taken) = pcclSuccess"
  "live_slots \<lparr>ls_st = wq_two, ls_claim = None, ls_lost = 0\<rparr> = [0, 1]"
  "live_seqs \<lparr>ls_st = wq_two, ls_claim = None, ls_lost = 0\<rparr> = [1, 2]"
  by code_simp+

abbreviation wq_life :: "executor \<times> host_world \<Rightarrow> life_state" where
  "wq_life st \<equiv> \<lparr>ls_st = st, ls_claim = None, ls_lost = 0\<rparr>"

lemma submit_reach:
  assumes "reach life_start life_step (wq_life st)" "submit obs op graph b us st = (pcclSuccess, st')"
    "can_submit (fst st)" "x_work_seq_counter (fst st) + 1 < two64"
  shows "reach life_start life_step (wq_life st')"
  using submit_is_steps[OF assms(2) _ assms(4), of 0] assms(3) reach_steps[OF assms(1)] by blast

lemma wq_reach: "reach life_start life_step (wq_life wq_two)"
proof -
  have "life_start (wq_life wq_idle)"
    by (simp add: life_start_def wq_idle_def PCCL_EXECUTOR_QUEUE_DEPTH_MAX_def)
  then have r0: "reach life_start life_step (wq_life wq_idle)" by (rule reach_init)
  have "submit wq_obs AllReduce_op wq_graph wq_binding 7 wq_idle = (pcclSuccess, wq_one)"
    using wq_facts(3) by (simp add: wq_one_def prod_eq_iff)
  from submit_reach[OF r0 this wq_facts(1,2)] have r1: "reach life_start life_step (wq_life wq_one)" .
  have t: "take_work wq_one = Some wq_taken"
  proof -
    obtain e w where ew: "wq_one = (e, w)" by (metis surj_pair)
    have "take_work wq_one \<noteq> None" using wq_facts(5) unfolding ew by (simp add: take_work_def split: list.splits)
    then show ?thesis by (auto simp: wq_taken_def)
  qed
  have r2: "reach life_start life_step (wq_life wq_taken)"
    using reach_step[OF r1 life_take[of "wq_life wq_one" wq_taken]] wq_facts(4) t by simp
  have "submit wq_obs AllReduce_op wq_graph wq_binding 7 wq_taken = (pcclSuccess, wq_two)"
    using wq_facts(8) by (simp add: wq_two_def prod_eq_iff)
  from submit_reach[OF r2 this wq_facts(6,7)] show ?thesis .
qed


section \<open>The executor and the completion flag agree\<close>

lemma init_slots_depth:
  "cf_queue_depth (snd (foldl (init_slot res_ok ok) st is)) = cf_queue_depth (snd st)"
proof (induction "is" arbitrary: st)
  case (Cons i "is")
  have "cf_queue_depth (snd (init_slot res_ok ok st i)) = cf_queue_depth (snd st)"
    by (cases st) (auto simp: init_slot_def Let_def split: prod.splits
        dest!: arg_cong[where f = snd] arg_cong[where f = cf_queue_depth])
  then show ?case using Cons by simp
qed simp

lemma flag_initialize_depth:
  assumes "\<not> cf_initialized cf" "flag_initialize env mo dis so res_ok ok cf = (0, cf')"
  shows "cf_initialized cf' \<and> cf_queue_depth cf' = slotCountFromEnv env"
proof -
  obtain cf1 where
    "foldl (init_slot res_ok ok) (True, cf\<lparr>cf_queue_depth := slotCountFromEnv env,
        cf_mem_ops := mo \<and> \<not> (case dis of Some (c # _) \<Rightarrow> c = CHR ''1'' | _ \<Rightarrow> False)\<rparr>)
      (map int [0..<nat (slotCountFromEnv env)]) = (True, cf1)" "cf' = cf1\<lparr>cf_initialized := True\<rparr>"
    using assms unfolding flag_initialize_def Let_def by (auto split: if_splits prod.splits bool.splits)
  moreover from calculation(1) have "cf_queue_depth cf1 = slotCountFromEnv env"
    using init_slots_depth[of res_ok ok _ "map int [0..<nat (slotCountFromEnv env)]"]
    by (metis (no_types, lifting) completion_flag.select_convs(3) completion_flag.surjective
        completion_flag.update_convs(3,2) snd_conv)
  ultimately show ?thesis by simp
qed

text \<open>
  Reserved slots exist. The executor and the completion flag read the queue depth from
  the same environment variable through two parsers; whatever its value, every slot that a
  submission reserves is a valid slot of an initialised completion flag.
\<close>

theorem reserved_slot_valid:
  assumes "\<not> cf_initialized cf" "flag_initialize env mo dis so res_ok ok cf = (0, cf')"
    and "x_queue_depth x = executorQueueDepthFromEnv env"
    and "reserve ready x = (Inr (work_seq, epoch, slot), x')"
  shows "validSlot cf' slot"
proof -
  let ?d = "slotCountFromEnv env"
  have d: "1 \<le> ?d" "?d \<le> 16" using slotCount_range by blast+
  have q: "x_queue_depth x = ?d" using assms(3) queue_depth_eq_slot_count by simp
  have "slot = int (sub64 (add64 (x_work_seq_counter x) 1) 1 mod nat ?d)"
    using assms(4) d q by (auto simp: reserve_def Let_def split: if_splits)
  then have "0 \<le> slot \<and> slot < ?d" using d by (simp add: zmod_int)
  then show ?thesis
    using flag_initialize_depth[OF assms(1,2)] by (simp add: validSlot_def)
qed

definition rs_flag :: completion_flag where
  "rs_flag = snd (flag_initialize (Some ''3'') True None True (\<lambda>_. True) (\<lambda>_. True) new_flag)"

definition rs_executor :: executor where
  "rs_executor = (fst wq_idle)\<lparr>x_queue_depth := 3, x_work_seq_counter := 5\<rparr>"

theorem reserved_slot_valid_witness: "validSlot rs_flag 2"
proof -
  have "fst (flag_initialize (Some ''3'') True None True (\<lambda>_. True) (\<lambda>_. True) new_flag) = 0" by code_simp
  then have f: "flag_initialize (Some ''3'') True None True (\<lambda>_. True) (\<lambda>_. True) new_flag = (0, rs_flag)"
    by (simp add: rs_flag_def prod_eq_iff)
  have "fst (reserve True rs_executor) = Inr (6, 0, 2)" by code_simp
  then have r: "reserve True rs_executor = (Inr (6, 0, 2), snd (reserve True rs_executor))" by (simp add: prod_eq_iff)
  have q: "x_queue_depth rs_executor = executorQueueDepthFromEnv (Some ''3'')" by code_simp
  show ?thesis using reserved_slot_valid[OF _ f q r] by (simp add: new_flag_def)
qed

end
