(* ===== verification/Tiling.thy ===== *)
theory Tiling
  imports ExecState CompilerProps
begin

text \<open>
  Sizes across the compiler and the executor: the subchunks the executor transfers for a
  node of a compiled graph are consecutive pieces that make up the node's chunk.
\<close>

section \<open>Sizes of a compiled graph\<close>

text \<open>No size of the compilation wraps around.\<close>

definition sizes_fit :: "pccl_env \<Rightarrow> ir_program \<Rightarrow> graph_options \<Rightarrow> bool" where
  "sizes_fit env program gopts \<longleftrightarrow>
     (let o' = legacy_layout gopts; active = sub64 (seg_count o') (stride o');
          d2h_cps = max 1 (p_input_chunk_count program div max 1 (d2h_segments o'));
          h2d_cps = max 1 (p_output_chunk_count program div max 1 (h2d_segments o'));
          chunk_sz = max (maxChunkBytes active (element_size o') d2h_cps)
                         (maxChunkBytes active (element_size o') h2d_cps)
      in layout_fits active (element_size o') d2h_cps \<and> layout_fits active (element_size o') h2d_cps \<and>
         divUp active (nat (max 1 d2h_cps)) * element_size o' < two64 \<and>
         divUp active (nat (max 1 h2d_cps)) * element_size o' < two64 \<and>
         chunk_sz + env_slice env chunk_sz < two64)"

lemma skeleton_sizes:
  "g_num_subchunks (graph_skeleton env program rank w gopts) =
     numSubchunks (g_chunk_size (graph_skeleton env program rank w gopts))
       (env_slice env (g_chunk_size (graph_skeleton env program rank w gopts)))"
  unfolding graph_skeleton_def Let_def by (simp only: compiled_graph.select_convs)

text \<open>No chunk of a compiled graph is larger than its chunk size.\<close>

lemma skeleton_chunk_le:
  assumes "sizes_fit env program gopts"
  shows "chunkBytesForKey k (graph_skeleton env program rank w gopts) \<le>
    g_chunk_size (graph_skeleton env program rank w gopts)"
proof -
  define o' where "o' = legacy_layout gopts"
  define active where "active = sub64 (seg_count o') (stride o')"
  define d where "d = max 1 (p_input_chunk_count program div max 1 (d2h_segments o'))"
  define h where "h = max 1 (p_output_chunk_count program div max 1 (h2d_segments o'))"
  define m where "m = max (maxChunkBytes active (element_size o') d) (maxChunkBytes active (element_size o') h)"
  define g where "g = graph_skeleton env program rank w gopts"
  have fit: "layout_fits active (element_size o') d" "layout_fits active (element_size o') h"
    "divUp active (nat (max 1 d)) * element_size o' < two64" "divUp active (nat (max 1 h)) * element_size o' < two64"
    using assms unfolding sizes_fit_def Let_def o'_def[symmetric] active_def[symmetric] d_def[symmetric] h_def[symmetric]
    by blast+
  have c: "g_chunk_size g = m"
    unfolding g_def graph_skeleton_def Let_def m_def active_def d_def h_def o'_def
    by (simp only: compiled_graph.select_convs)
  have l: "\<exists>seg so n cps. cps \<in> {d, h} \<and>
      g_layout g s = makeDeviceLayout seg so (element_size o') active n cps m"
    if "s \<noteq> PS_HOST" "s \<noteq> PS_INTERNAL" for s
    using that unfolding g_def graph_skeleton_def Let_def m_def active_def d_def h_def o'_def
    by (cases s) (simp_all only: compiled_graph.select_convs progress_space.case, auto)
  show ?thesis
  proof (cases "pk_space k = PS_HOST \<or> pk_space k = PS_INTERNAL")
    case True
    then show ?thesis by (simp add: chunkBytesForKey_def g_def[symmetric])
  next
    case False
    then obtain seg so n cps where lay: "cps \<in> {d, h}"
        "g_layout g (pk_space k) = makeDeviceLayout seg so (element_size o') active n cps m"
      using l by blast
    then have "chunk_sizes (g_layout g (pk_space k)) ! c \<le> m" if "c < nat n" for c
      using fit device_chunk_le_max[of active "element_size o'" cps c n seg so m] that
      unfolding m_def by (elim insertE emptyE) (simp_all add: le_max_iff_disj)
    then show ?thesis using lay(2) False c
      by (simp add: chunkBytesForKey_def Let_def g_def[symmetric])
  qed
qed

text \<open>The count of subchunks is the one of the skeleton.\<close>

lemma compiled_num_subchunks:
  assumes "compileGraph env program rank w gopts = Inr g"
  shows "g_num_subchunks g = g_num_subchunks (graph_skeleton env program rank w gopts)"
proof -
  have t: "g_num_subchunks (fst (foldl (terminal_step final mode row rank) st cs)) = g_num_subchunks (fst st)"
    for final mode row st cs
  proof (induction cs arbitrary: st)
    case (Cons c cs)
    have "g_num_subchunks (fst (terminal_step final mode row rank st c)) = g_num_subchunks (fst st)"
      by (cases st) (simp add: terminal_step_def Let_def split: prod.splits)
    then show ?case using Cons.IH by simp
  qed simp
  have e: "g_num_subchunks (foldl (emit_node push meta rank) g0 rs) = g_num_subchunks g0" for push meta g0 rs
    by (induction rs arbitrary: g0) (simp_all add: emit_node_def Let_def)
  have f: "g_num_subchunks (finish_graph env gopts final row rank g0 lat) = g_num_subchunks g0" for final row g0 lat
    using t[of final _ row "(g0, lat)" "[0..<nat (g_output_chunk_count g0)]"]
    by (simp add: finish_graph_def Let_def split: prod.splits) (metis fst_conv)
  have s: "g_num_subchunks (start_graph env program rank w gopts) = g_num_subchunks (graph_skeleton env program rank w gopts)"
    by (simp add: start_graph_def Let_def)
  show ?thesis
    using assms unfolding compileGraph_def
    by (auto simp: sbind_Inr_iff assemble_graph_def Let_def f e s split: if_splits)
qed

lemma compiled_work_bytes:
  assumes "compileGraph env program rank w gopts = Inr g" "n \<in> set (g_nodes g)"
  shows "n_work_bytes n = chunkBytesForKey (n_output n) (graph_skeleton env program rank w gopts)"
    and "g_chunk_size g = g_chunk_size (graph_skeleton env program rank w gopts)"
proof -
  obtain f meta rs vs where c: "compiled_from env program rank w gopts f meta rs vs g"
    using compile_structure[OF assms(1)] by metis
  then have fr: "node_frame f (graph_skeleton env program rank w gopts)" "node_frame g f"
    by (simp_all add: compiled_from_def Let_def)
  then show "g_chunk_size g = g_chunk_size (graph_skeleton env program rank w gopts)"
    by (simp add: node_frame_def)
  have "n_work_bytes n = chunkBytesForKey (n_output n) f"
    using compiled_node_cases[OF c assms(2)]
    by cases (simp_all add: mk_node_def copyback_of_def copyback_node_def Let_def split: prod.splits)
  then show "n_work_bytes n = chunkBytesForKey (n_output n) (graph_skeleton env program rank w gopts)"
    using chunkBytesForKey_frame[OF fr(1)] by simp
qed

section \<open>Pieces of a chunk\<close>

lemma sum_pieces:
  "(\<Sum>k<n. min ((k + 1) * s) b - min (k * s) b) = min (n * s) (b::nat)"
proof (induction n)
  case (Suc n)
  have "min (n * s) b \<le> min ((n + 1) * s) b" by (simp add: min_le_iff_disj)
  then show ?case using Suc by simp
qed simp

text \<open>
  C28. Subchunks tile a chunk. For every node of a compiled graph, subchunk \<open>k\<close> of the
  executor is the piece of the node's bytes from \<open>k * slice\<close> to \<open>(k + 1) * slice\<close>, and
  the pieces of all subchunks add up to the bytes of the node, when no size wraps around.
\<close>

theorem subchunks_tile:
  assumes g: "compileGraph (xe_pccl xe) program r w gopts = Inr g" and n: "n \<in> set (g_nodes g)"
    and fit: "sizes_fit (xe_pccl xe) program gopts"
  shows "(\<forall>k < g_num_subchunks g. subchunkSize xe g n k =
      min ((k + 1) * env_slice (xe_pccl xe) (g_chunk_size g)) (n_work_bytes n) -
      min (k * env_slice (xe_pccl xe) (g_chunk_size g)) (n_work_bytes n)) \<and>
    (\<Sum>k < g_num_subchunks g. subchunkSize xe g n k) = n_work_bytes n"
proof -
  let ?sk = "graph_skeleton (xe_pccl xe) program r w gopts"
  let ?c = "g_chunk_size g" and ?b = "n_work_bytes n" and ?N = "g_num_subchunks g"
  define s where "s = env_slice (xe_pccl xe) ?c"
  have e: "?c = g_chunk_size ?sk" "?b = chunkBytesForKey (n_output n) ?sk"
    using compiled_work_bytes[OF g n] by simp_all
  have b: "?b \<le> ?c" using skeleton_chunk_le[OF fit] e by simp
  have N: "?N = numSubchunks ?c s"
    using compiled_num_subchunks[OF g] skeleton_sizes by (simp add: e(1) s_def)
  have s0: "0 < s" by (simp add: s_def env_slice_def slice_pos)
  have cs: "?c + s < two64"
  proof -
    have "g_chunk_size ?sk + env_slice (xe_pccl xe) (g_chunk_size ?sk) < two64"
      using fit unfolding sizes_fit_def graph_skeleton_def Let_def
      by (simp only: compiled_graph.select_convs)
    then show ?thesis by (simp add: e(1) s_def)
  qed
  note cover = numSubchunks_covers[OF s0 cs]
  have small: "k * s < two64" if "k < ?N" for k
  proof (cases "0 < ?c")
    case True
    have "k * s \<le> (?N - 1) * s" using that by (intro mult_le_mono1) simp
    also have "\<dots> < ?c" using cover(2)[OF True] N by simp
    finally show ?thesis using cs by simp
  next
    case False
    then have "?N = 1" using N s0 cs by (simp add: numSubchunks_def size_simps Let_def)
    then show ?thesis using that by simp
  qed
  have piece: "subchunkSize xe g n k = min ((k + 1) * s) ?b - min (k * s) ?b" if "k < ?N" for k
    using small[OF that] by (simp add: subchunkSize_def Let_def mul64_small flip: s_def) (auto simp: min_def)
  have "(\<Sum>k < ?N. subchunkSize xe g n k) = (\<Sum>k < ?N. min ((k + 1) * s) ?b - min (k * s) ?b)"
    by (rule sum.cong) (simp_all add: piece)
  also have "\<dots> = min (?N * s) ?b" by (rule sum_pieces)
  also have "\<dots> = ?b" using cover(1) b N by simp
  finally show ?thesis using piece by (simp add: s_def)
qed

definition ex_exec_env :: exec_env where
  "ex_exec_env = \<lparr>xe_pccl = ex_env, xe_skip_dma = None\<rparr>"

theorem subchunks_tile_witness:
  "list_all (\<lambda>n. (\<Sum>k < g_num_subchunks (ex_g 1). subchunkSize ex_exec_env (ex_g 1) n k) = n_work_bytes n)
     (g_nodes (ex_g 1))"
proof -
  have e: "xe_pccl ex_exec_env = ex_env" by (simp add: ex_exec_env_def)
  have fit: "sizes_fit (xe_pccl ex_exec_env) ex_program ex_opts" unfolding e by code_simp
  have g: "compileGraph (xe_pccl ex_exec_env) ex_program 1 2 ex_opts = Inr (ex_g 1)"
    unfolding e by (rule ex_compiles) simp_all
  show ?thesis unfolding list_all_iff using conjunct2[OF subchunks_tile[OF g _ fit]] by blast
qed

end
