(* ===== verification/Topology.thy ===== *)
theory Topology
  imports CEnv
begin

text \<open>
  The machine topology (\<^verbatim>\<open>topology/topology.hpp\<close>, \<^verbatim>\<open>topology.cpp\<close>): the logical NUMA node of
  each GPU and the pairwise facts the choice of a program depends on. What the device
  runtime, NVML and sysfs answer is the record \<open>pci_view\<close>.
\<close>

section \<open>State and queries\<close>

record local_topology =
  num_gpus :: int
  num_numa_nodes :: int
  gpu_to_numa :: "int list"
  numa_to_physical :: "int list"
  gpu_pci_bus_ids :: "string list"
  has_nvlink :: "bool list list"
  lca_is_pcie_switch :: "bool list list"
  direct_peer_allowed :: "bool list list"

definition getNUMAForGPU :: "local_topology \<Rightarrow> int \<Rightarrow> int" where
  "getNUMAForGPU topo gpu =
     (if gpu < 0 \<or> int (length (gpu_to_numa topo)) \<le> gpu then 0 else gpu_to_numa topo ! nat gpu)"

definition getPhysicalNUMA :: "local_topology \<Rightarrow> int \<Rightarrow> int" where
  "getPhysicalNUMA topo logical =
     (if logical < 0 \<or> int (length (numa_to_physical topo)) \<le> logical then 0
      else numa_to_physical topo ! nat logical)"

text \<open>The bounds tests of the three pairwise queries.\<close>

definition pair_entry :: "bool list list \<Rightarrow> int \<Rightarrow> int \<Rightarrow> bool" where
  "pair_entry m a b =
     (if a < 0 \<or> b < 0 \<or> int (length m) \<le> a \<or> int (length (m ! nat a)) \<le> b then False
      else m ! nat a ! nat b)"

definition pairHasNVLink :: "local_topology \<Rightarrow> int \<Rightarrow> int \<Rightarrow> bool" where
  "pairHasNVLink topo a b = pair_entry (has_nvlink topo) a b"

definition pairLcaIsPcieSwitch :: "local_topology \<Rightarrow> int \<Rightarrow> int \<Rightarrow> bool" where
  "pairLcaIsPcieSwitch topo a b = pair_entry (lca_is_pcie_switch topo) a b"

definition pairDirectPeerAllowed :: "local_topology \<Rightarrow> int \<Rightarrow> int \<Rightarrow> bool" where
  "pairDirectPeerAllowed topo a b = (if a = b then True else pair_entry (direct_peer_allowed topo) a b)"

section \<open>Discovery\<close>

datatype topo_error =
  NoPciBusId int
| NoSysfsNode int
| InvalidNuma int int
| StoiInvalid
| StoiOutOfRange
| BadGpuCount

record pci_view =
  tv_bus_id :: "int \<Rightarrow> string option"              \<comment> \<open>\<^verbatim>\<open>devGetPciBusId\<close>: success and not empty\<close>
  tv_sysfs :: "string \<Rightarrow> string option"            \<comment> \<open>content of \<^verbatim>\<open>numa_node\<close> of a bus id\<close>
  tv_nvml_ready :: bool
  tv_nvml_handle :: "string \<Rightarrow> nat option"
  tv_nvml_ancestor :: "nat \<Rightarrow> nat \<Rightarrow> int option"
  tv_peer :: "int \<Rightarrow> int \<Rightarrow> bool"                  \<comment> \<open>\<^verbatim>\<open>devCanAccessPeer\<close>: success and \<open>can \<noteq> 0\<close>\<close>
  tv_force_switch :: "string option"
  tv_force_nvlink :: "string option"
  tv_numa_map :: "string option"

definition kNvmlTopologySingle :: int where
  "kNvmlTopologySingle = 10"

definition pairIsPix :: "pci_view \<Rightarrow> string \<Rightarrow> string \<Rightarrow> bool" where
  "pairIsPix v a_bus_id b_bus_id =
     (if \<not> tv_nvml_ready v then False
      else case (tv_nvml_handle v a_bus_id, tv_nvml_handle v b_bus_id) of
             (Some a, Some b) \<Rightarrow> tv_nvml_ancestor v a b = Some kNvmlTopologySingle
           | _ \<Rightarrow> False)"

text \<open>\<^verbatim>\<open>f >> numa_node\<close>: 0 when no number can be read, the nearest bound when it does not fit.\<close>

definition stream_int :: "string \<Rightarrow> int" where
  "stream_int s = (case scan_number s of None \<Rightarrow> 0
     | Some (neg, n, _) \<Rightarrow> max (- 2147483648) (min 2147483647 (if neg then - int n else int n)))"

definition queryNumaForDevice :: "pci_view \<Rightarrow> int \<Rightarrow> topo_error + int" where
  "queryNumaForDevice v device =
     (case tv_bus_id v device of None \<Rightarrow> Inl (NoPciBusId device)
      | Some bus_id \<Rightarrow>
         (case tv_sysfs v bus_id of None \<Rightarrow> Inl (NoSysfsNode device)
          | Some content \<Rightarrow>
             (let numa_node = stream_int content in
              if numa_node < 0 then Inl (InvalidNuma device numa_node) else Inr numa_node)))"

definition queryPciBusIdForDevice :: "pci_view \<Rightarrow> int \<Rightarrow> topo_error + string" where
  "queryPciBusIdForDevice v device =
     (case tv_bus_id v device of None \<Rightarrow> Inl (NoPciBusId device) | Some bus_id \<Rightarrow> Inr bus_id)"

text \<open>A vector filled by a loop whose body may throw.\<close>

definition collect :: "(int \<Rightarrow> 'e + 'a) \<Rightarrow> int \<Rightarrow> 'e + 'a list" where
  "collect f n = sfold (\<lambda>acc g. sbind (f g) (\<lambda>x. Inr (acc @ [x]))) [] (map int [0..<nat n])"

definition env_flag :: "string option \<Rightarrow> bool" where
  "env_flag e = (case e of None \<Rightarrow> False | Some s \<Rightarrow> c_atoi s \<noteq> 0)"

definition pair_matrix :: "nat \<Rightarrow> bool \<Rightarrow> (int \<Rightarrow> int \<Rightarrow> bool) \<Rightarrow> bool list list" where
  "pair_matrix n diag f =
     map (\<lambda>i. map (\<lambda>j. if i = j then diag else f (int i) (int j)) [0..<n]) [0..<n]"

definition populatePairwiseTopology :: "pci_view \<Rightarrow> local_topology \<Rightarrow> topo_error + local_topology" where
  "populatePairwiseTopology v topo =
     sbind (collect (queryPciBusIdForDevice v) (num_gpus topo)) (\<lambda>ids.
       let n = nat (num_gpus topo);
           forced_switch = env_flag (tv_force_switch v);
           is_pix = (\<lambda>i j. forced_switch \<or> pairIsPix v (ids ! nat i) (ids ! nat j))
       in Inr (topo\<lparr>gpu_pci_bus_ids := ids,
                    has_nvlink := pair_matrix n False (\<lambda>_ _. env_flag (tv_force_nvlink v)),
                    lca_is_pcie_switch := pair_matrix n False is_pix,
                    direct_peer_allowed := pair_matrix n True (\<lambda>i j. is_pix i j \<and> tv_peer v i j)\<rparr>))"

text \<open>Physical nodes in order of first appearance, and the index of a node among them.\<close>

definition first_seen :: "int list \<Rightarrow> int list" where
  "first_seen physical = foldl (\<lambda>seen phys. if phys \<in> set seen then seen else seen @ [phys]) [] physical"

fun logical_of :: "int list \<Rightarrow> int \<Rightarrow> int" where
  "logical_of [] phys = 0"
| "logical_of (p # ps) phys = (if p = phys then 0 else if phys \<in> set ps then 1 + logical_of ps phys else 0)"

definition buildLogicalMapping :: "pci_view \<Rightarrow> int \<Rightarrow> int list \<Rightarrow> topo_error + local_topology" where
  "buildLogicalMapping v n physical_numas =
     (let seen = first_seen physical_numas in
      populatePairwiseTopology v
        \<lparr>num_gpus = n, num_numa_nodes = int (length seen),
         gpu_to_numa = map (\<lambda>gpu. logical_of seen (physical_numas ! gpu)) [0..<nat n],
         numa_to_physical = seen, gpu_pci_bus_ids = [], has_nvlink = [], lca_is_pcie_switch = [],
         direct_peer_allowed = []\<rparr>)"

text \<open>\<^verbatim>\<open>std::stoi\<close>, and the tokens \<^verbatim>\<open>std::getline\<close> yields: no empty one after the last comma.\<close>

definition c_stoi :: "string \<Rightarrow> topo_error + int" where
  "c_stoi s = (case scan_number s of None \<Rightarrow> Inl StoiInvalid
     | Some (neg, n, _) \<Rightarrow> (let x = (if neg then - int n else int n) in
         if x < - 2147483648 \<or> 2147483647 < x then Inl StoiOutOfRange else Inr x))"

fun getline_tokens :: "string \<Rightarrow> string \<Rightarrow> string list" where
  "getline_tokens acc [] = (if acc = [] then [] else [acc])"
| "getline_tokens acc (c # cs) =
     (if c = CHR '','' then acc # getline_tokens [] cs else getline_tokens (acc @ [c]) cs)"

definition parseGpuNumaMap :: "pci_view \<Rightarrow> string \<Rightarrow> int \<Rightarrow> topo_error + local_topology" where
  "parseGpuNumaMap v map_str n =
     (if n < 0 then Inl BadGpuCount
      else
       sbind (sfold (\<lambda>(physical, idx) token. sbind (c_stoi token) (\<lambda>x. Inr (physical[idx := x], idx + 1)))
                (replicate (nat n) 0, 0) (take (nat n) (getline_tokens [] map_str)))
         (\<lambda>(physical, _). buildLogicalMapping v n physical))"

definition discoverLocalTopology :: "pci_view \<Rightarrow> int \<Rightarrow> topo_error + local_topology" where
  "discoverLocalTopology v n =
     (case tv_numa_map v of
        Some map_env \<Rightarrow> parseGpuNumaMap v map_env n
      | None \<Rightarrow>
          (if n < 0 then Inl BadGpuCount
           else sbind (collect (queryNumaForDevice v) n) (buildLogicalMapping v n)))"

section \<open>The numbering of the nodes\<close>

lemma first_seen_fold:
  "distinct s \<Longrightarrow> distinct (foldl (\<lambda>seen phys. if phys \<in> set seen then seen else seen @ [phys]) s ps) \<and>
   set (foldl (\<lambda>seen phys. if phys \<in> set seen then seen else seen @ [phys]) s ps) = set s \<union> set ps"
  by (induction ps arbitrary: s) auto

lemma first_seen_distinct: "distinct (first_seen ps)"
  and first_seen_set [simp]: "set (first_seen ps) = set ps"
  using first_seen_fold[of "[]" ps] by (simp_all add: first_seen_def)

lemma logical_of_index:
  "x \<in> set ps \<Longrightarrow> 0 \<le> logical_of ps x \<and> logical_of ps x < int (length ps) \<and> ps ! nat (logical_of ps x) = x"
  by (induction ps x rule: logical_of.induct) (auto simp: nat_add_distrib)

lemma logical_of_nth: "distinct ps \<Longrightarrow> i < length ps \<Longrightarrow> logical_of ps (ps ! i) = int i"
  by (induction ps arbitrary: i) (auto simp: nth_Cons split: nat.splits)

lemma populate_frame:
  assumes "populatePairwiseTopology v t = Inr t'"
  shows "num_gpus t' = num_gpus t" "num_numa_nodes t' = num_numa_nodes t" "gpu_to_numa t' = gpu_to_numa t"
    "numa_to_physical t' = numa_to_physical t"
  using assms by (auto simp: populatePairwiseTopology_def sbind_Inr_iff Let_def)

text \<open>
  C29. Logical NUMA nodes. The logical node of each GPU stands for the physical node that was
  reported for it, logical nodes are numbered without gaps from 0, and different logical
  nodes stand for different physical nodes.
\<close>

theorem numa_numbering:
  assumes b: "buildLogicalMapping v n physical = Inr topo" and len: "length physical = nat n" and n: "0 \<le> n"
  shows "(\<forall>g. 0 \<le> g \<and> g < n \<longrightarrow> 0 \<le> getNUMAForGPU topo g \<and> getNUMAForGPU topo g < num_numa_nodes topo \<and>
      getPhysicalNUMA topo (getNUMAForGPU topo g) = physical ! nat g) \<and>
    (\<forall>l. 0 \<le> l \<and> l < num_numa_nodes topo \<longrightarrow>
      (\<exists>g. 0 \<le> g \<and> g < n \<and> getNUMAForGPU topo g = l \<and> getPhysicalNUMA topo l = physical ! nat g)) \<and>
    distinct (numa_to_physical topo)"
proof -
  let ?s = "first_seen physical"
  have t: "num_numa_nodes topo = int (length ?s)" "numa_to_physical topo = ?s"
    "gpu_to_numa topo = map (\<lambda>gpu. logical_of ?s (physical ! gpu)) [0..<nat n]"
    using b populate_frame[of v _ topo] by (auto simp: buildLogicalMapping_def Let_def)
  have g: "getNUMAForGPU topo g = logical_of ?s (physical ! nat g) \<and> physical ! nat g \<in> set ?s"
    if "0 \<le> g" "g < n" for g
    using that n len by (auto simp: getNUMAForGPU_def t)
  have p: "getPhysicalNUMA topo l = ?s ! nat l" if "0 \<le> l" "l < num_numa_nodes topo" for l
    using that by (simp add: getPhysicalNUMA_def t)
  have fwd: "0 \<le> getNUMAForGPU topo g \<and> getNUMAForGPU topo g < num_numa_nodes topo \<and>
      getPhysicalNUMA topo (getNUMAForGPU topo g) = physical ! nat g" if "0 \<le> g" "g < n" for g
    using logical_of_index[of "physical ! nat g" ?s] g[OF that] p by (simp add: t(1))
  have bwd: "\<exists>g. 0 \<le> g \<and> g < n \<and> getNUMAForGPU topo g = l \<and> getPhysicalNUMA topo l = physical ! nat g"
    if l: "0 \<le> l" "l < num_numa_nodes topo" for l
  proof -
    have "?s ! nat l \<in> set physical" using l t(1) nth_mem[of "nat l" ?s] by simp
    then obtain k where k: "k < nat n" "physical ! k = ?s ! nat l" using len by (auto simp: in_set_conv_nth)
    then have "getNUMAForGPU topo (int k) = l"
      using g[of "int k"] logical_of_nth[OF first_seen_distinct, of "nat l" physical] l t(1) by simp
    then show ?thesis using k p[OF l] by (intro exI[of _ "int k"]) auto
  qed
  show ?thesis using fwd bwd first_seen_distinct t(2) by simp
qed

definition ex_pci :: pci_view where
  "ex_pci = \<lparr>tv_bus_id = \<lambda>_. Some ''bus'', tv_sysfs = \<lambda>_. None, tv_nvml_ready = False,
     tv_nvml_handle = \<lambda>_. None, tv_nvml_ancestor = \<lambda>_ _. None, tv_peer = \<lambda>_ _. True,
     tv_force_switch = Some ''1'', tv_force_nvlink = None, tv_numa_map = Some ''3,1,3''\<rparr>"

definition ex_topo :: local_topology where
  "ex_topo = projr (discoverLocalTopology ex_pci 3)"

theorem numa_numbering_witness:
  "getNUMAForGPU ex_topo 1 = 1 \<and> getPhysicalNUMA ex_topo 1 = 1 \<and> getPhysicalNUMA ex_topo (getNUMAForGPU ex_topo 2) = 3"
proof -
  have d: "buildLogicalMapping ex_pci 3 [3, 1, 3] = Inr ex_topo" by code_simp
  have g: "getNUMAForGPU ex_topo 1 = 1" by code_simp
  have "getPhysicalNUMA ex_topo (getNUMAForGPU ex_topo k) = [3, 1, 3] ! nat k" if "0 \<le> k" "k < 3" for k
    using numa_numbering[OF d] that by auto
  from this[of 1] this[of 2] g show ?thesis by simp
qed

end
