(* ===== verification/Loader.thy ===== *)
theory Loader
  imports Topology CompilerProps
begin

text \<open>
  Loading programs (\<^verbatim>\<open>ir/ir_loader.cpp\<close>). The XML library is not modelled: a document is the
  tree of elements it delivers, and its conversion of an attribute to an \<^verbatim>\<open>int\<close> is the
  parameter \<open>to_int\<close>, \<open>None\<close> when the attribute is not a number.
\<close>

section \<open>Documents\<close>

datatype xml_element = XmlElement (xml_name: string) (xml_attrs: "(string \<times> string) list") (xml_children: "xml_element list")

definition Attribute :: "xml_element \<Rightarrow> string \<Rightarrow> string option" where
  "Attribute elem name = map_of (xml_attrs elem) name"

definition IntAttribute :: "(string \<Rightarrow> int option) \<Rightarrow> xml_element \<Rightarrow> string \<Rightarrow> int \<Rightarrow> int" where
  "IntAttribute to_int elem name default_value =
     (case Attribute elem name of None \<Rightarrow> default_value
      | Some s \<Rightarrow> (case to_int s of None \<Rightarrow> default_value | Some v \<Rightarrow> v))"

text \<open>\<^verbatim>\<open>FirstChildElement\<close> and \<^verbatim>\<open>NextSiblingElement\<close> visit the children of one name in order.\<close>

definition child_elements :: "xml_element list \<Rightarrow> string \<Rightarrow> xml_element list" where
  "child_elements children name = filter (\<lambda>e. xml_name e = name) children"

datatype load_error =
  MissingOp
| UnknownOpCode string
| UnknownBufferKind string
| MissingRoot
| NoRankElement int
| XmlError
| FileNotFound string
| DirectFileNotFound string

section \<open>Instructions\<close>

definition parseOpCode :: "string option \<Rightarrow> load_error + op_code" where
  "parseOpCode str =
     (case str of None \<Rightarrow> Inl MissingOp
      | Some s \<Rightarrow>
         if s = ''NOP'' then Inr NOP
         else if s = ''D2D'' then Inr D2D
         else if s = ''D2H'' then Inr D2H
         else if s = ''H2D'' then Inr H2D
         else if s = ''H2H'' then Inr H2H
         else if s = ''H2HReduce'' then Inr H2HReduce
         else if s = ''D2DReduce'' then Inr D2DReduce
         else Inl (UnknownOpCode s))"

definition parseDeviceBufferKind :: "string option \<Rightarrow> device_buffer_kind \<Rightarrow> load_error + device_buffer_kind" where
  "parseDeviceBufferKind str default_kind =
     (case str of None \<Rightarrow> Inr default_kind
      | Some s \<Rightarrow>
         if s = ''input'' then Inr INPUT
         else if s = ''output'' then Inr OUTPUT
         else if s = ''scratch'' then Inr SCRATCH
         else if s = ''internal'' then Inr INTERNAL
         else Inl (UnknownBufferKind s))"

text \<open>A chunk index and a NUMA node, which falls back to the rank's own node.\<close>

definition parse_address :: "(string \<Rightarrow> int option) \<Rightarrow> xml_element \<Rightarrow> string \<Rightarrow> string \<Rightarrow> int \<Rightarrow> chunk_address" where
  "parse_address to_int elem chunk_attr numa_attr default_numa =
     (let numa = IntAttribute to_int elem numa_attr (-1) in
      \<lparr>numa_id = (if 0 \<le> numa then numa else default_numa), chunk_idx = IntAttribute to_int elem chunk_attr 0\<rparr>)"

definition parseInstructionCommon ::
  "(string \<Rightarrow> int option) \<Rightarrow> xml_element \<Rightarrow> int \<Rightarrow> int \<Rightarrow> load_error + instruction" where
  "parseInstructionCommon to_int elem rank default_numa =
     sbind (parseOpCode (Attribute elem ''op'')) (\<lambda>op.
     sbind (parseDeviceBufferKind (Attribute elem ''src_buf'') INPUT) (\<lambda>src_buf.
     sbind (parseDeviceBufferKind (Attribute elem ''dst_buf'') OUTPUT) (\<lambda>dst_buf.
       Inr \<lparr>i_op = op, i_rank = rank, i_src_rank = IntAttribute to_int elem ''src_rank'' rank,
            i_src_buf = src_buf, i_dst_buf = dst_buf,
            i_src = (if op = H2HReduce then parse_address to_int elem ''src1_chunk'' ''src1_numa'' default_numa
                     else parse_address to_int elem ''src_chunk'' ''src_numa'' default_numa),
            i_src2 = (if op = H2HReduce then parse_address to_int elem ''src2_chunk'' ''src2_numa'' default_numa
                      else \<lparr>numa_id = -1, chunk_idx = -1\<rparr>),
            i_dst = parse_address to_int elem ''dst_chunk'' ''dst_numa'' default_numa\<rparr>)))"

section \<open>Programs\<close>

definition default_numa_of :: "local_topology option \<Rightarrow> int \<Rightarrow> int" where
  "default_numa_of topo rank = (case topo of None \<Rightarrow> 0 | Some t \<Rightarrow> getNUMAForGPU t rank)"

text \<open>The tests that track the largest input and output chunk.\<close>

definition tracks_input :: "instruction \<Rightarrow> bool" where
  "tracks_input inst \<longleftrightarrow> (i_op inst = D2H \<and> i_src_buf inst = INPUT) \<or>
     ((i_op inst = D2D \<or> i_op inst = D2DReduce) \<and> i_src_buf inst = INPUT)"

definition tracks_output :: "instruction \<Rightarrow> bool" where
  "tracks_output inst \<longleftrightarrow>
     (i_op inst = H2D \<or> i_op inst = D2D \<or> i_op inst = D2DReduce) \<and> i_dst_buf inst = OUTPUT"

definition track_chunks :: "int \<times> int \<Rightarrow> instruction \<Rightarrow> int \<times> int" where
  "track_chunks st inst =
     ((if tracks_input inst then max (fst st) (chunk_idx (i_src inst)) else fst st),
      (if tracks_output inst then max (snd st) (chunk_idx (i_dst inst)) else snd st))"

text \<open>The loop over the instructions of one rank element.\<close>

definition load_rank ::
  "(string \<Rightarrow> int option) \<Rightarrow> int \<Rightarrow> int \<Rightarrow> (int \<times> int) \<times> instruction list \<Rightarrow> xml_element \<Rightarrow>
   load_error + ((int \<times> int) \<times> instruction list)" where
  "load_rank to_int rank numa st rank_elem =
     sfold (\<lambda>(m, insts) elem. sbind (parseInstructionCommon to_int elem rank numa)
              (\<lambda>inst. Inr (track_chunks m inst, insts @ [inst])))
       st (child_elements (xml_children rank_elem) ''instruction'')"

definition parseDocument ::
  "(string \<Rightarrow> int option) \<Rightarrow> xml_element list \<Rightarrow> int \<Rightarrow> local_topology option \<Rightarrow> load_error + ir_program" where
  "parseDocument to_int doc rank topo =
     (case child_elements doc ''ir_program'' of [] \<Rightarrow> Inl MissingRoot
      | root # _ \<Rightarrow>
         (let ranks = child_elements (xml_children root) ''rank'' in
          case find (\<lambda>r. IntAttribute to_int r ''id'' (-1) = rank) ranks of
            None \<Rightarrow> Inl (NoRankElement rank)
          | Some rank_elem \<Rightarrow>
              sbind (load_rank to_int rank (default_numa_of topo rank) ((-1, -1), []) rank_elem) (\<lambda>(m, own).
              sbind (sfold (\<lambda>st r. let r_id = IntAttribute to_int r ''id'' (-1)
                                in load_rank to_int r_id (default_numa_of topo r_id) st r) (m, []) ranks) (\<lambda>(gm, all).
                Inr \<lparr>p_name = (case Attribute root ''name'' of None \<Rightarrow> '''' | Some s \<Rightarrow> s),
                     p_nranks = IntAttribute to_int root ''nranks'' 0,
                     p_input_chunk_count = fst gm + 1, p_output_chunk_count = snd gm + 1,
                     p_instructions = own, p_all_instructions = all\<rparr>))))"

text \<open>\<^verbatim>\<open>loadFromFile\<close> and \<^verbatim>\<open>loadFromString\<close>: \<open>xml\<close> is what the library makes of the input.\<close>

definition load_program ::
  "(string \<Rightarrow> int option) \<Rightarrow> (string \<Rightarrow> xml_element list option) \<Rightarrow> string \<Rightarrow> int \<Rightarrow> local_topology option \<Rightarrow>
   load_error + ir_program" where
  "load_program to_int xml source rank topo =
     (case xml source of None \<Rightarrow> Inl XmlError | Some doc \<Rightarrow> parseDocument to_int doc rank topo)"

section \<open>Finding the program file\<close>

definition dirnameOf :: "string \<Rightarrow> string" where
  "dirnameOf path =
     (if CHR ''/'' \<notin> set path then ''.''
      else (let d = rev (tl (dropWhile (\<lambda>c. c \<noteq> CHR ''/'') (rev path))) in if d = [] then ''/'' else d))"

text \<open>\<open>lib\<close> is the path \<^verbatim>\<open>dladdr\<close> reports for the library.\<close>

definition defaultIRSearchPaths :: "string option \<Rightarrow> string \<Rightarrow> string list" where
  "defaultIRSearchPaths lib ir_path =
     (let paths = (if ir_path = [] then [] else [ir_path]) @
            (case lib of None \<Rightarrow> []
             | Some fname \<Rightarrow> (let lib_dir = dirnameOf fname in
                 [lib_dir @ ''/ir'', lib_dir @ ''/../ir'', lib_dir @ ''/share/pccl/ir'',
                  lib_dir @ ''/../share/pccl/ir''])) @
            [''./ir'', ''/usr/local/share/pccl/ir'']
      in foldl (\<lambda>unique path. if path \<in> set unique then unique else unique @ [path]) [] paths)"

definition isBroadcastRootCollective :: "string \<Rightarrow> bool" where
  "isBroadcastRootCollective collective \<longleftrightarrow> take 14 collective = ''broadcast_root''"

definition allPairsDirectPeerAllowed :: "local_topology \<Rightarrow> bool" where
  "allPairsDirectPeerAllowed topo \<longleftrightarrow>
     list_all (\<lambda>i. list_all (\<lambda>j. i = j \<or> pairDirectPeerAllowed topo (int i) (int j)) [0..<nat (num_gpus topo)])
       [0..<nat (num_gpus topo)]"

definition pairDirectPeerAllowedBothWays :: "local_topology \<Rightarrow> int \<Rightarrow> int \<Rightarrow> bool" where
  "pairDirectPeerAllowedBothWays topo a b \<longleftrightarrow>
     pairLcaIsPcieSwitch topo a b \<and> pairDirectPeerAllowed topo a b \<and> pairDirectPeerAllowed topo b a"

definition numa_pattern :: "local_topology \<Rightarrow> string" where
  "numa_pattern topo =
     map (\<lambda>g. char_of (nat ((48 + gpu_to_numa topo ! g) mod 256))) [0..<nat (num_gpus topo)]"

definition any_nvlink :: "local_topology \<Rightarrow> bool" where
  "any_nvlink topo \<longleftrightarrow>
     list_ex (\<lambda>i. list_ex (\<lambda>j. i \<noteq> j \<and> pairHasNVLink topo (int i) (int j)) [0..<nat (num_gpus topo)])
       [0..<nat (num_gpus topo)]"

definition direct_candidate :: "string \<Rightarrow> local_topology \<Rightarrow> bool" where
  "direct_candidate collective topo =
     (let pattern = numa_pattern topo in
      if (collective = ''allgather'' \<or> collective = ''reducescatter'' \<or>
          (collective = ''allreduce'' \<and> (pattern = ''00'' \<or> pattern = ''0000''))) \<and>
         (pattern = ''00'' \<or> pattern = ''0000'' \<or> pattern = ''0011'')
      then (if any_nvlink topo then False
            else if pattern = ''00'' then pairDirectPeerAllowedBothWays topo 0 1
            else pairLcaIsPcieSwitch topo 0 1 \<and> pairLcaIsPcieSwitch topo 2 3 \<and>
                 pairDirectPeerAllowed topo 0 1 \<and> pairDirectPeerAllowed topo 1 0 \<and>
                 pairDirectPeerAllowed topo 2 3 \<and> pairDirectPeerAllowed topo 3 2)
      else if isBroadcastRootCollective collective \<and>
              pattern \<in> {''00'', ''01'', ''0000'', ''0011'', ''00112233''}
      then (if pattern = ''00'' \<or> pattern = ''01'' then pairDirectPeerAllowedBothWays topo 0 1
            else if pattern = ''0000'' \<or> pattern = ''0011''
            then pairDirectPeerAllowedBothWays topo 0 1 \<and> pairDirectPeerAllowedBothWays topo 2 3
            else allPairsDirectPeerAllowed topo)
      else False)"

text \<open>The loop over the directories; \<open>file_exists\<close> is the file system.\<close>

definition search_file :: "(string \<Rightarrow> bool) \<Rightarrow> string list \<Rightarrow> string \<Rightarrow> string option" where
  "search_file file_exists dirs filename =
     find file_exists (map (\<lambda>dir. dir @ ''/'' @ filename) dirs)"

definition findIRFile ::
  "(string \<Rightarrow> bool) \<Rightarrow> string option \<Rightarrow> string \<Rightarrow> local_topology \<Rightarrow> string \<Rightarrow> load_error + string" where
  "findIRFile file_exists lib collective topo ir_path =
     (let pattern = numa_pattern topo;
          filename = collective @ ''_'' @ pattern @ ''.xml'';
          direct_filename = collective @ ''_'' @ pattern @ ''_direct.xml'';
          search_paths = defaultIRSearchPaths lib ir_path
      in if direct_candidate collective topo
         then (case search_file file_exists search_paths direct_filename of
                 Some full_path \<Rightarrow> Inr full_path | None \<Rightarrow> Inl (DirectFileNotFound direct_filename))
         else (case search_file file_exists search_paths filename of
                 Some full_path \<Rightarrow> Inr full_path | None \<Rightarrow> Inl (FileNotFound filename)))"

definition findRelayIRFile ::
  "(string \<Rightarrow> bool) \<Rightarrow> string option \<Rightarrow> string \<Rightarrow> local_topology \<Rightarrow> string \<Rightarrow> load_error + string" where
  "findRelayIRFile file_exists lib collective topo ir_path =
     (let filename = collective @ ''_'' @ numa_pattern topo @ ''.xml''
      in case search_file file_exists (defaultIRSearchPaths lib ir_path) filename of
           Some full_path \<Rightarrow> Inr full_path | None \<Rightarrow> Inl (FileNotFound filename))"

end
