(* ===== verification/LoaderProps.thy ===== *)
theory LoaderProps
  imports Loader
begin

text \<open>
  Properties of the program loader: what a document determines, that all ranks load the same
  program, and that programs survive being written out as a document.
\<close>

section \<open>What a load computes\<close>

fun smap :: "('a \<Rightarrow> 'e + 'b) \<Rightarrow> 'a list \<Rightarrow> 'e + 'b list" where
  "smap f [] = Inr []"
| "smap f (x # xs) = sbind (f x) (\<lambda>y. sbind (smap f xs) (\<lambda>ys. Inr (y # ys)))"

lemma smap_Inr_iff: "smap f xs = Inr ys \<longleftrightarrow> list_all2 (\<lambda>x y. f x = Inr y) xs ys"
proof (induction xs arbitrary: ys)
  case (Cons x xs)
  then show ?case by (cases ys) (auto simp: sbind_Inr_iff)
qed auto

lemma smap_map: "smap f (map g xs) = smap (\<lambda>x. f (g x)) xs"
  by (induction xs) simp_all

lemma smap_all_Inr: "(\<And>x. x \<in> set xs \<Longrightarrow> f x = Inr (g x)) \<Longrightarrow> smap f xs = Inr (map g xs)"
  by (induction xs) simp_all

lemma smap_same: "(\<And>x. x \<in> set xs \<Longrightarrow> f x = Inr x) \<Longrightarrow> smap f xs = Inr xs"
  by (induction xs) simp_all

definition rank_insts :: "(string \<Rightarrow> int option) \<Rightarrow> int \<Rightarrow> int \<Rightarrow> xml_element \<Rightarrow> load_error + instruction list" where
  "rank_insts to_int rank numa elem =
     smap (\<lambda>e. parseInstructionCommon to_int e rank numa) (child_elements (xml_children elem) ''instruction'')"

abbreviation rank_id :: "(string \<Rightarrow> int option) \<Rightarrow> xml_element \<Rightarrow> int" where
  "rank_id to_int r \<equiv> IntAttribute to_int r ''id'' (-1)"

definition insts_of :: "(string \<Rightarrow> int option) \<Rightarrow> local_topology option \<Rightarrow> xml_element \<Rightarrow> load_error + instruction list" where
  "insts_of to_int topo r = rank_insts to_int (rank_id to_int r) (default_numa_of topo (rank_id to_int r)) r"

lemma sfold_track:
  "sfold (\<lambda>(m, insts) e. sbind (f e) (\<lambda>i. Inr (t m i, insts @ [i]))) (m, xs) es =
   map_sum id (\<lambda>is. (foldl t m is, xs @ is)) (smap f es)"
proof (induction es arbitrary: m xs)
  case (Cons e es)
  show ?case
  proof (cases "f e")
    case (Inr i)
    then show ?thesis using Cons.IH[of "t m i" "xs @ [i]"] by (cases "smap f es") simp_all
  qed simp
qed simp

lemma load_rank_eq:
  "load_rank to_int rank numa (m, xs) elem =
   map_sum id (\<lambda>is. (foldl track_chunks m is, xs @ is)) (rank_insts to_int rank numa elem)"
  by (simp only: load_rank_def sfold_track rank_insts_def)

lemma load_rank_of:
  "load_rank to_int (rank_id to_int r) (default_numa_of topo (rank_id to_int r)) (m, xs) r =
   map_sum id (\<lambda>is. (foldl track_chunks m is, xs @ is)) (insts_of to_int topo r)"
  by (simp only: load_rank_eq insts_of_def)

lemma load_ranks_eq:
  "sfold (\<lambda>st r. let r_id = rank_id to_int r in load_rank to_int r_id (default_numa_of topo r_id) st r) (m, xs) ranks =
   map_sum id (\<lambda>iss. (foldl track_chunks m (concat iss), xs @ concat iss)) (smap (insts_of to_int topo) ranks)"
proof (induction ranks arbitrary: m xs)
  case (Cons r rs)
  show ?case
  proof (cases "insts_of to_int topo r")
    case (Inl e)
    then show ?thesis by (simp add: Let_def load_rank_of)
  next
    case (Inr "is")
    then show ?thesis using Cons.IH[of "foldl track_chunks m is" "xs @ is"]
      by (cases "smap (insts_of to_int topo) rs") (simp_all add: Let_def load_rank_of)
  qed
qed simp

lemma track_fst_le: "fst (foldl track_chunks m is) \<le> b \<longleftrightarrow>
    fst m \<le> b \<and> (\<forall>i \<in> set is. tracks_input i \<longrightarrow> chunk_idx (i_src i) \<le> b)"
  by (induction "is" arbitrary: m) (auto simp: track_chunks_def)

lemma track_snd_le: "snd (foldl track_chunks m is) \<le> b \<longleftrightarrow>
    snd m \<le> b \<and> (\<forall>i \<in> set is. tracks_output i \<longrightarrow> chunk_idx (i_dst i) \<le> b)"
  by (induction "is" arbitrary: m) (auto simp: track_chunks_def)

text \<open>Tracking a part first makes no difference.\<close>

lemma track_sub:
  assumes "set own \<subseteq> set is"
  shows "foldl track_chunks (foldl track_chunks m own) is = foldl track_chunks m is"
proof (rule prod_eqI)
  have "fst (foldl track_chunks (foldl track_chunks m own) is) \<le> b \<longleftrightarrow> fst (foldl track_chunks m is) \<le> b" for b
    using assms by (auto simp: track_fst_le)
  then show "fst (foldl track_chunks (foldl track_chunks m own) is) = fst (foldl track_chunks m is)"
    by (metis order_antisym order_refl)
  have "snd (foldl track_chunks (foldl track_chunks m own) is) \<le> b \<longleftrightarrow> snd (foldl track_chunks m is) \<le> b" for b
    using assms by (auto simp: track_snd_le)
  then show "snd (foldl track_chunks (foldl track_chunks m own) is) = snd (foldl track_chunks m is)"
    by (metis order_antisym order_refl)
qed

text \<open>A load, without the order of its loops.\<close>

lemma parseDocument_spec:
  assumes "parseDocument to_int doc rank topo = Inr p"
  obtains root rest ranks rank_elem own iss where
    "child_elements doc ''ir_program'' = root # rest" "ranks = child_elements (xml_children root) ''rank''"
    "find (\<lambda>r. rank_id to_int r = rank) ranks = Some rank_elem"
    "insts_of to_int topo rank_elem = Inr own" "smap (insts_of to_int topo) ranks = Inr iss" "own \<in> set iss"
    "p = \<lparr>p_name = (case Attribute root ''name'' of None \<Rightarrow> '''' | Some s \<Rightarrow> s),
       p_nranks = IntAttribute to_int root ''nranks'' 0,
       p_input_chunk_count = fst (foldl track_chunks (-1, -1) (concat iss)) + 1,
       p_output_chunk_count = snd (foldl track_chunks (-1, -1) (concat iss)) + 1,
       p_instructions = own, p_all_instructions = concat iss\<rparr>"
proof -
  from assms obtain root rest where root: "child_elements doc ''ir_program'' = root # rest"
    by (cases "child_elements doc ''ir_program''") (simp_all add: parseDocument_def)
  define ranks where "ranks = child_elements (xml_children root) ''rank''"
  from assms root obtain elem where elem: "find (\<lambda>r. rank_id to_int r = rank) ranks = Some elem"
    by (cases "find (\<lambda>r. rank_id to_int r = rank) ranks") (simp_all add: parseDocument_def Let_def ranks_def)
  then have id: "rank_id to_int elem = rank" "elem \<in> set ranks" by (auto simp: find_Some_iff in_set_conv_nth)
  note u = assms[unfolded parseDocument_def root list.case Let_def[of "child_elements _ _"] ranks_def[symmetric] elem option.case
      load_rank_eq load_ranks_eq]
  from u obtain own where own: "rank_insts to_int rank (default_numa_of topo rank) elem = Inr own"
    by (cases "rank_insts to_int rank (default_numa_of topo rank) elem") simp_all
  from u own obtain iss where iss: "smap (insts_of to_int topo) ranks = Inr iss"
    by (cases "smap (insts_of to_int topo) ranks") (simp_all add: load_ranks_eq)
  have io: "insts_of to_int topo elem = Inr own" using own id(1) by (simp add: insts_of_def)
  from iss have l2: "list_all2 (\<lambda>x y. insts_of to_int topo x = Inr y) ranks iss" by (simp add: smap_Inr_iff)
  obtain k where k: "k < length ranks" "ranks ! k = elem" using id(2) by (auto simp: in_set_conv_nth)
  then have "iss ! k = own" "k < length iss"
    using list_all2_nthD[OF l2 k(1)] io list_all2_lengthD[OF l2] by simp_all
  then have mem: "own \<in> set iss" using nth_mem by blast
  then have sub: "set own \<subseteq> set (concat iss)" by auto
  show ?thesis
    by (rule that[OF root ranks_def elem io iss mem])
      (use u own iss in \<open>simp add: load_ranks_eq track_sub[OF sub]\<close>)
qed

section \<open>All ranks load the same program\<close>


lemma own_list_sel [simp]:
  "maxInputChunkCount (p\<lparr>p_instructions := x\<rparr>) = maxInputChunkCount p"
  "input_read_by_rank (p\<lparr>p_instructions := x\<rparr>) = input_read_by_rank p"
  "output_overlaps_live_input mode (p\<lparr>p_instructions := x\<rparr>) = output_overlaps_live_input mode p"
  "writes_output (p\<lparr>p_instructions := x\<rparr>) = writes_output p"
  "is_staged opts (p\<lparr>p_instructions := x\<rparr>) = is_staged opts p"
  "init_own_inputs (p\<lparr>p_instructions := x\<rparr>) = init_own_inputs p"
  "max_internal_chunk (p\<lparr>p_instructions := x\<rparr>) = max_internal_chunk p"
  by (simp_all add: fun_eq_iff maxInputChunkCount_def input_read_by_rank_def output_overlaps_live_input_def
      writes_output_def is_staged_def init_own_inputs_def max_internal_chunk_def)

lemma own_list_stage [simp]:
  "stage_rows gopts (p\<lparr>p_instructions := x\<rparr>) w = stage_rows gopts p w"
  "init_all_inputs (p\<lparr>p_instructions := x\<rparr>) = init_all_inputs p"
  "initial_versions (p\<lparr>p_instructions := x\<rparr>) = initial_versions p"
  "graph_skeleton env (p\<lparr>p_instructions := x\<rparr>) r w gopts = graph_skeleton env p r w gopts"
  by (simp_all add: fun_eq_iff stage_rows_def init_all_inputs_def initial_versions_def graph_skeleton_def Let_def)

lemma own_list_start [simp]:
  "start_graph env (p\<lparr>p_instructions := x\<rparr>) r w gopts = start_graph env p r w gopts"
  by (simp add: start_graph_def Let_def)

lemma own_list_visible [simp]:
  "visible_src_buf (version_env_of (p\<lparr>p_instructions := x\<rparr>) w gopts) = visible_src_buf (version_env_of p w gopts)"
  "visible_dst_buf (version_env_of (p\<lparr>p_instructions := x\<rparr>) w gopts) = visible_dst_buf (version_env_of p w gopts)"
  by (simp_all add: fun_eq_iff visible_src_buf_def visible_dst_buf_def)

lemma own_list_pass [simp]:
  "final_produced (version_env_of (p\<lparr>p_instructions := x\<rparr>) w gopts) = final_produced (version_env_of p w gopts)"
  "resolve_all (version_env_of (p\<lparr>p_instructions := x\<rparr>) w gopts) = resolve_all (version_env_of p w gopts)"
proof -
  let ?ve = "version_env_of (p\<lparr>p_instructions := x\<rparr>) w gopts" and ?vf = "version_env_of p w gopts"
  have b: "produced_base_for_inst ?ve = produced_base_for_inst ?vf"
    unfolding fun_eq_iff produced_base_for_inst_def own_list_visible by (rule allI, rule refl)
  have "final_step ?ve = final_step ?vf" unfolding fun_eq_iff final_step_def b by (intro allI refl)
  then show "final_produced ?ve = final_produced ?vf" by (simp add: final_produced_def)
  have k: "inst_keys ?ve = inst_keys ?vf"
    unfolding fun_eq_iff inst_keys_def own_list_visible by (intro allI refl)
  have r: "resolve_inst ?ve = resolve_inst ?vf" unfolding fun_eq_iff resolve_inst_def k by (intro allI refl)
  have "resolve_all ?ve final vs insts = resolve_all ?vf final vs insts" for final vs insts
    by (induction insts arbitrary: vs) (simp_all only: resolve_all.simps r)
  then show "resolve_all ?ve = resolve_all ?vf" by (simp add: fun_eq_iff)
qed

text \<open>The compiler looks at the instructions of all ranks only.\<close>

lemma compile_ignores_own_list:
  "compileGraph env (p\<lparr>p_instructions := x\<rparr>) r w gopts = compileGraph env p r w gopts"
  by (simp add: compileGraph_def assemble_graph_def Let_def cong: sum.case_cong)

text \<open>
  C30. One program for all ranks. Two ranks that load the same document on the same machine
  get programs that differ at most in the list of their own instructions, and the compiler
  makes the same of both: every rank compiles against the same program.
\<close>

theorem ranks_load_same_program:
  assumes "parseDocument to_int doc r topo = Inr p" "parseDocument to_int doc q topo = Inr p'"
  shows "p' = p\<lparr>p_instructions := p_instructions p'\<rparr> \<and>
    (\<forall>env k w gopts. compileGraph env p' k w gopts = compileGraph env p k w gopts)"
proof -
  have "p' = p\<lparr>p_instructions := p_instructions p'\<rparr>"
    using assms by (elim parseDocument_spec) simp
  then show ?thesis using compile_ignores_own_list by metis
qed

definition inst_in_program :: "ir_program \<Rightarrow> instruction \<Rightarrow> bool" where
  "inst_in_program p inst \<longleftrightarrow>
     0 \<le> numa_id (i_src inst) \<and> 0 \<le> numa_id (i_dst inst) \<and>
     (i_op inst = H2HReduce \<longrightarrow> 0 \<le> numa_id (i_src2 inst)) \<and>
     (i_op inst \<in> {D2H, D2D, D2DReduce} \<and> i_src_buf inst = INPUT \<longrightarrow>
        chunk_idx (i_src inst) < p_input_chunk_count p) \<and>
     (i_op inst \<in> {H2D, D2D, D2DReduce} \<and> i_dst_buf inst = OUTPUT \<longrightarrow>
        chunk_idx (i_dst inst) < p_output_chunk_count p)"

lemma default_numa_nonneg: "(\<forall>t. topo = Some t \<longrightarrow> list_all ((\<le>) 0) (gpu_to_numa t)) \<Longrightarrow> 0 \<le> default_numa_of topo r"
  by (auto simp: default_numa_of_def getNUMAForGPU_def list_all_length split: option.split)

lemma parsed_inst:
  assumes "parseInstructionCommon to_int e rank numa = Inr inst" "0 \<le> numa"
  shows "i_rank inst = rank \<and> 0 \<le> numa_id (i_src inst) \<and> 0 \<le> numa_id (i_dst inst) \<and>
    (i_op inst = H2HReduce \<longrightarrow> 0 \<le> numa_id (i_src2 inst))"
  using assms by (auto simp: parseInstructionCommon_def sbind_Inr_iff parse_address_def Let_def)

lemma insts_of_inst:
  assumes "insts_of to_int topo e = Inr is" "i \<in> set is"
  obtains x where "parseInstructionCommon to_int x (rank_id to_int e) (default_numa_of topo (rank_id to_int e)) = Inr i"
  using assms by (auto simp: insts_of_def rank_insts_def smap_Inr_iff in_set_conv_nth list_all2_conv_all_nth)


section \<open>Writing a program as a document\<close>

fun op_name :: "op_code \<Rightarrow> string" where
  "op_name NOP = ''NOP''"
| "op_name D2D = ''D2D''"
| "op_name D2H = ''D2H''"
| "op_name H2D = ''H2D''"
| "op_name H2H = ''H2H''"
| "op_name H2HReduce = ''H2HReduce''"
| "op_name D2DReduce = ''D2DReduce''"

definition address_xml :: "string \<Rightarrow> string \<Rightarrow> chunk_address \<Rightarrow> (string \<times> string) list" where
  "address_xml chunk_attr numa_attr a =
     [(chunk_attr, c_to_string (chunk_idx a)), (numa_attr, c_to_string (numa_id a))]"

definition inst_xml :: "instruction \<Rightarrow> xml_element" where
  "inst_xml inst = XmlElement ''instruction''
     ([(''op'', op_name (i_op inst)), (''src_rank'', c_to_string (i_src_rank inst)),
       (''src_buf'', deviceBufferKindName (i_src_buf inst)), (''dst_buf'', deviceBufferKindName (i_dst_buf inst))] @
      (if i_op inst = H2HReduce
       then address_xml ''src1_chunk'' ''src1_numa'' (i_src inst) @ address_xml ''src2_chunk'' ''src2_numa'' (i_src2 inst)
       else address_xml ''src_chunk'' ''src_numa'' (i_src inst)) @
      address_xml ''dst_chunk'' ''dst_numa'' (i_dst inst)) []"

definition rank_xml :: "int \<times> instruction list \<Rightarrow> xml_element" where
  "rank_xml r = XmlElement ''rank'' [(''id'', c_to_string (fst r))] (map inst_xml (snd r))"

definition program_xml :: "string \<Rightarrow> int \<Rightarrow> (int \<times> instruction list) list \<Rightarrow> xml_element list" where
  "program_xml name nranks ranks =
     [XmlElement ''ir_program'' [(''name'', name), (''nranks'', c_to_string nranks)] (map rank_xml ranks)]"

abbreviation int32 :: "int \<Rightarrow> bool" where
  "int32 v \<equiv> - 2147483648 \<le> v \<and> v \<le> 2147483647"

definition reads_ints :: "(string \<Rightarrow> int option) \<Rightarrow> bool" where
  "reads_ints to_int \<longleftrightarrow> (\<forall>v. int32 v \<longrightarrow> to_int (c_to_string v) = Some v)"

definition address_ok :: "chunk_address \<Rightarrow> bool" where
  "address_ok a \<longleftrightarrow> int32 (chunk_idx a) \<and> int32 (numa_id a) \<and> 0 \<le> numa_id a"

definition writable :: "int \<Rightarrow> instruction \<Rightarrow> bool" where
  "writable rank inst \<longleftrightarrow> i_rank inst = rank \<and> int32 (i_src_rank inst) \<and> address_ok (i_src inst) \<and>
     address_ok (i_dst inst) \<and>
     (if i_op inst = H2HReduce then address_ok (i_src2 inst) else i_src2 inst = \<lparr>numa_id = -1, chunk_idx = -1\<rparr>)"

lemma parse_op_name [simp]: "parseOpCode (Some (op_name op)) = Inr op"
  by (cases op) (simp_all add: parseOpCode_def)

lemma parse_buffer_name [simp]: "parseDeviceBufferKind (Some (deviceBufferKindName k)) d = Inr k"
  by (cases k) (simp_all add: parseDeviceBufferKind_def)

lemma parse_inst_xml:
  assumes t: "reads_ints to_int" and w: "writable rank inst"
  shows "parseInstructionCommon to_int (inst_xml inst) rank numa = Inr inst"
proof -
  have v: "to_int (c_to_string v) = Some v" if "int32 v" for v using t that by (simp add: reads_ints_def)
  show ?thesis
    using w by (cases inst)
      (auto simp: parseInstructionCommon_def inst_xml_def Attribute_def IntAttribute_def parse_address_def
        address_xml_def writable_def address_ok_def Let_def v split: if_splits)
qed

text \<open>
  C32. Programs survive a round trip. A program written out rank by rank as a document is
  loaded back unchanged by every rank: its own instructions, those of all ranks, its name
  and its number of ranks.
\<close>

theorem load_roundtrip:
  assumes t: "reads_ints to_int" and n: "int32 nranks" and d: "distinct (map fst ranks)"
    and w: "list_all (\<lambda>(q, insts). int32 q \<and> list_all (writable q) insts) ranks" and r: "(r, own) \<in> set ranks"
  shows "\<exists>p. parseDocument to_int (program_xml name nranks ranks) r topo = Inr p \<and> p_name p = name \<and>
    p_nranks p = nranks \<and> p_instructions p = own \<and> p_all_instructions p = concat (map snd ranks)"
proof -
  have v: "to_int (c_to_string v) = Some v" if "int32 v" for v using t that by (simp add: reads_ints_def)
  have id: "rank_id to_int (rank_xml x) = fst x" if "x \<in> set ranks" for x
    using w that by (auto simp: list_all_iff rank_xml_def IntAttribute_def Attribute_def v)
  have ins: "insts_of to_int topo (rank_xml x) = Inr (snd x)" if x: "x \<in> set ranks" for x
  proof -
    have "list_all (writable (fst x)) (snd x)" using w x by (auto simp: list_all_iff)
    then have "smap (\<lambda>e. parseInstructionCommon to_int e (fst x) m) (map inst_xml (snd x)) = Inr (snd x)" for m
      unfolding smap_map by (intro smap_same parse_inst_xml[OF t]) (simp add: list_all_iff)
    moreover have "child_elements (xml_children (rank_xml x)) ''instruction'' = map inst_xml (snd x)"
      by (simp add: child_elements_def rank_xml_def inst_xml_def filter_id_conv)
    ultimately show ?thesis by (simp add: insts_of_def rank_insts_def id[OF x])
  qed
  obtain root where root: "program_xml name nranks ranks = [root]" "child_elements [root] ''ir_program'' = [root]"
    "child_elements (xml_children root) ''rank'' = map rank_xml ranks" "Attribute root ''name'' = Some name"
    "IntAttribute to_int root ''nranks'' 0 = nranks"
    using v[OF n] by (simp add: program_xml_def child_elements_def rank_xml_def filter_id_conv Attribute_def IntAttribute_def)
  have f: "find (\<lambda>e. rank_id to_int e = r) (map rank_xml ranks) = Some (rank_xml (r, own))"
    using r d id
  proof (induction ranks)
    case (Cons x xs)
    have ix: "rank_id to_int (rank_xml x) = fst x" by (rule Cons.prems(3)) simp
    show ?case
    proof (cases "x = (r, own)")
      case True
      then show ?thesis using ix by simp
    next
      case False
      then have m: "(r, own) \<in> set xs" using Cons.prems(1) by auto
      then have "r \<in> fst ` set xs" by (rule image_eqI[rotated]) simp
      then have "fst x \<noteq> r" using Cons.prems(2) by auto
      moreover have "find (\<lambda>e. rank_id to_int e = r) (map rank_xml xs) = Some (rank_xml (r, own))"
        using Cons.prems by (intro Cons.IH[OF m]) simp_all
      ultimately show ?thesis by (simp add: ix)
    qed
  qed simp
  have s: "smap (insts_of to_int topo) (map rank_xml ranks) = Inr (map snd ranks)"
    unfolding smap_map by (rule smap_all_Inr) (rule ins)
  have own: "rank_insts to_int r (default_numa_of topo r) (rank_xml (r, own)) = Inr own"
    using ins[OF r] id[OF r] by (simp add: insts_of_def)
  show ?thesis
    by (simp add: root parseDocument_def Let_def[of "map rank_xml ranks"] f load_rank_eq own load_ranks_eq s)
qed

section \<open>A concrete document\<close>

text \<open>Numbers read as the C library does.\<close>

definition to_int10 :: "string \<Rightarrow> int option" where
  "to_int10 s = map_option fst (strtol10 s)"

lemma c_digit_of [simp]: "d < 10 \<Longrightarrow> c_digit (char_of (48 + d)) = Some d" "d < 10 \<Longrightarrow> c_digit (char_of (d + 48)) = Some d"
  by (simp_all add: c_digit_def Let_def)

lemma scan_nat_digits:
  "scan_digits acc (nat_digits n @ r) = scan_digits (acc * 10 ^ length (nat_digits n) + n) r"
proof (induction n arbitrary: acc r rule: nat_digits.induct)
  case (1 n)
  show ?case
  proof (cases "n < 10")
    case True
    then show ?thesis by (simp add: nat_digits.simps[of n] algebra_simps)
  next
    case False
    then have "scan_digits acc (nat_digits n @ r) =
        scan_digits (acc * 10 ^ length (nat_digits (n div 10)) + n div 10) (char_of (48 + n mod 10) # r)"
      using "1.IH" by (simp add: nat_digits.simps[of n])
    also have "\<dots> = scan_digits (10 * (acc * 10 ^ length (nat_digits (n div 10)) + n div 10) + n mod 10) r" by simp
    finally show ?thesis using False by (simp add: nat_digits.simps[of n] algebra_simps)
  qed
qed

lemma nat_digits_first: "\<exists>c cs d. nat_digits n = c # cs \<and> c_digit c = Some d"
proof (induction n rule: nat_digits.induct)
  case (1 n)
  then show ?case by (cases "n < 10") (auto simp: nat_digits.simps[of n])
qed

lemma digit_plain: "c_digit c = Some d \<Longrightarrow> \<not> c_isspace c \<and> c \<noteq> CHR ''-'' \<and> c \<noteq> CHR ''+''"
  by (auto simp: c_digit_def c_isspace_def Let_def split: if_splits)

lemma reads_ints10: "reads_ints to_int10"
proof -
  have n: "scan_number (nat_digits n) = Some (False, n, [])" for n
    using nat_digits_first[of n] digit_plain scan_nat_digits[of 0 n "[]"]
    by (auto simp: scan_number_def scan_sign_def)
  have m: "scan_number (CHR ''-'' # nat_digits n) = Some (True, n, [])" for n
    using nat_digits_first[of n] digit_plain scan_nat_digits[of 0 n "[]"]
    by (auto simp: scan_number_def scan_sign_def c_isspace_def)
  show ?thesis
    by (auto simp: reads_ints_def to_int10_def strtol10_def c_to_string_def n m clamp_long_def)
qed

definition ex_ranks_list :: "(int \<times> instruction list) list" where
  "ex_ranks_list = [(0, [ex_inst D2H 0 0 INPUT OUTPUT (ex_addr 1 2) (ex_addr 0 0)]),
     (1, [ex_inst H2D 1 1 INPUT OUTPUT (ex_addr 0 0) (ex_addr 0 3)])]"

abbreviation with_no_src2 :: "instruction \<Rightarrow> instruction" where
  "with_no_src2 i \<equiv> i\<lparr>i_src2 := \<lparr>numa_id = -1, chunk_idx = -1\<rparr>\<rparr>"

definition ex_doc :: "xml_element list" where
  "ex_doc = program_xml ''p'' 2 (map (\<lambda>(r, is). (r, map with_no_src2 is)) ex_ranks_list)"

definition ex_load :: "int \<Rightarrow> ir_program" where
  "ex_load r = projr (parseDocument to_int10 ex_doc r None)"

lemma ex_loads: "parseDocument to_int10 ex_doc 0 None = Inr (ex_load 0)" "parseDocument to_int10 ex_doc 1 None = Inr (ex_load 1)"
  by code_simp+

theorem ranks_load_same_program_witness:
  "compileGraph ex_env (ex_load 1) 0 2 ex_opts = compileGraph ex_env (ex_load 0) 0 2 ex_opts"
  using ranks_load_same_program[OF ex_loads] by simp


theorem load_roundtrip_witness:
  "\<exists>p. parseDocument to_int10 ex_doc 1 None = Inr p \<and>
     p_instructions p = [with_no_src2 (ex_inst H2D 1 1 INPUT OUTPUT (ex_addr 0 0) (ex_addr 0 3))]"
proof -
  let ?ranks = "map (\<lambda>(r, is). (r, map with_no_src2 is)) ex_ranks_list"
  have "distinct (map fst ?ranks)" "list_all (\<lambda>(q, insts). int32 q \<and> list_all (writable q) insts) ?ranks"
    "(1, [with_no_src2 (ex_inst H2D 1 1 INPUT OUTPUT (ex_addr 0 0) (ex_addr 0 3))]) \<in> set ?ranks"
    by (simp_all add: ex_ranks_list_def writable_def address_ok_def ex_inst_def ex_addr_def)
  from load_roundtrip[OF reads_ints10 _ this, of 2 "''p''" None] show ?thesis by (auto simp: ex_doc_def)
qed

end
