(* ===== verification/AmpConfig.thy ===== *)
theory AmpConfig
  imports CEnv Complex_Main
begin

text \<open>
  The settings of the multipath orchestrator (\<^verbatim>\<open>libampccl/common/config.h\<close>). Each getter is a
  function of the value of its variable; \<open>None\<close> as a result of a \<^verbatim>\<open>stoull\<close> getter is the
  exception. \<^verbatim>\<open>strtod\<close> is a parameter: a real and the rest of the string, \<open>None\<close> when
  nothing is converted.
\<close>

section \<open>Parsers\<close>

type_synonym strtod = "string \<Rightarrow> (real \<times> string) option"

definition IsTruthyEnv :: "string option \<Rightarrow> bool" where
  "IsTruthyEnv val =
     (case val of None \<Rightarrow> False
      | Some v \<Rightarrow> v \<in> {''1'', ''on'', ''ON'', ''true'', ''TRUE'', ''yes'', ''YES''})"

text \<open>The values that switch a setting off.\<close>

definition is_off :: "string \<Rightarrow> bool" where
  "is_off v \<longleftrightarrow> v \<in> {''0'', ''off'', ''OFF'', ''false'', ''FALSE''}"

text \<open>\<^verbatim>\<open>std::stoull\<close>: a negative number wraps, one out of range throws.\<close>

definition c_stoull :: "string \<Rightarrow> size_t option" where
  "c_stoull s = (case scan_number s of None \<Rightarrow> None
     | Some (neg, n, _) \<Rightarrow> if two64 \<le> n then None else Some (if neg then sub64 0 n else n))"

section \<open>Switches\<close>

definition IsHcclTestMode :: "string option \<Rightarrow> bool" where
  "IsHcclTestMode val = IsTruthyEnv val"

definition IsFeedbackEnabled :: "string option \<Rightarrow> string option \<Rightarrow> bool" where
  "IsFeedbackEnabled test_mode val =
     (if IsHcclTestMode test_mode then False
      else if env_unset val then True else \<not> is_off (the val))"

definition IsAdaptiveEnabled :: "string option \<Rightarrow> bool" where
  "IsAdaptiveEnabled val = IsTruthyEnv val"

definition IsDlsymInterposeEnabled :: "string option \<Rightarrow> bool" where
  "IsDlsymInterposeEnabled val = (case val of None \<Rightarrow> True | Some v \<Rightarrow> \<not> is_off v)"

definition IsShmParamSyncEnabled :: "string option \<Rightarrow> string option \<Rightarrow> string option \<Rightarrow> bool" where
  "IsShmParamSyncEnabled test_mode feedback val =
     (if IsHcclTestMode test_mode \<or> \<not> IsFeedbackEnabled test_mode feedback then False
      else (case val of None \<Rightarrow> True | Some v \<Rightarrow> \<not> is_off v))"

definition IsPCIeEnabled :: "string option \<Rightarrow> bool" where
  "IsPCIeEnabled val = (case val of None \<Rightarrow> True | Some v \<Rightarrow> v \<noteq> ''0'')"

definition IsNcclVEnabled :: "string option \<Rightarrow> bool" where
  "IsNcclVEnabled val = IsTruthyEnv val"

definition IsIntraNodeOnlyEnabled :: "string option \<Rightarrow> bool" where
  "IsIntraNodeOnlyEnabled val = (if env_unset val then True else \<not> is_off (the val))"

definition IsForceEnableInterNode :: "string option \<Rightarrow> bool" where
  "IsForceEnableInterNode val = IsTruthyEnv val"

definition IsForceDisable :: "string option \<Rightarrow> bool" where
  "IsForceDisable val = IsTruthyEnv val"

definition IsDebugEnabled :: "string option \<Rightarrow> bool" where
  "IsDebugEnabled val = (case val of None \<Rightarrow> False | Some v \<Rightarrow> v \<noteq> ''0'')"

definition IsPCIeStreamSyncBeforeCallbackEnabled :: "string option \<Rightarrow> bool" where
  "IsPCIeStreamSyncBeforeCallbackEnabled val = IsTruthyEnv val"

definition IsTimerEventSyncInCallbackEnabled :: "string option \<Rightarrow> bool" where
  "IsTimerEventSyncInCallbackEnabled val = IsTruthyEnv val"

definition IsAvgBwLogEnabled :: "string option \<Rightarrow> bool" where
  "IsAvgBwLogEnabled val = IsTruthyEnv val"

definition IsFastOnlyBwLogEnabled :: "string option \<Rightarrow> bool" where
  "IsFastOnlyBwLogEnabled val = IsTruthyEnv val"

section \<open>Algorithm and numbers\<close>

datatype adaptive_algorithm = INVERSE_PROPORTION | SPLIT_RATIO_CONTROL | STATIC

definition GetAlgorithm :: "string option \<Rightarrow> string option \<Rightarrow> adaptive_algorithm" where
  "GetAlgorithm test_mode algo_str =
     (if IsHcclTestMode test_mode then STATIC
      else case algo_str of None \<Rightarrow> STATIC
      | Some s \<Rightarrow>
          if s \<in> {''inverse'', ''INVERSE'', ''invprop'', ''INVPROP'', ''tcp'', ''TCP''} then INVERSE_PROPORTION
          else if s \<in> {''split_ratio'', ''SPLIT_RATIO'', ''split_ratio_control'', ''SPLIT_RATIO_CONTROL'', ''src'', ''SRC''}
          then SPLIT_RATIO_CONTROL
          else if s \<in> {''static'', ''STATIC''} then STATIC
          else INVERSE_PROPORTION)"

definition GetSplitRatioSmoothing :: "strtod \<Rightarrow> string option \<Rightarrow> real" where
  "GetSplitRatioSmoothing strtod val =
     (if env_unset val then 7 / 10
      else case strtod (the val) of None \<Rightarrow> 7 / 10
           | Some (v, _) \<Rightarrow> if v \<le> 0 \<or> 1 \<le> v then 7 / 10 else v)"

definition GetSplitRatioEta :: "strtod \<Rightarrow> string option \<Rightarrow> real" where
  "GetSplitRatioEta strtod val =
     (if env_unset val then 3 / 10
      else case strtod (the val) of None \<Rightarrow> 3 / 10
           | Some (v, _) \<Rightarrow> if v \<le> 0 \<or> 1 \<le> v then 3 / 10 else v)"

definition GetStaticAlpha :: "strtod \<Rightarrow> string option \<Rightarrow> real" where
  "GetStaticAlpha strtod val =
     (if env_unset val then 8 / 10
      else case strtod (the val) of None \<Rightarrow> 8 / 10
           | Some (v, _) \<Rightarrow> if v < 0 \<or> 1 < v then 8 / 10 else v)"

definition GetMinChunkSize :: "string option \<Rightarrow> size_t option" where
  "GetMinChunkSize val = (case val of None \<Rightarrow> Some 4096 | Some v \<Rightarrow> c_stoull v)"

definition GetMinMsgSize :: "string option \<Rightarrow> size_t option" where
  "GetMinMsgSize val = (case val of None \<Rightarrow> Some 4194304 | Some v \<Rightarrow> c_stoull v)"

definition GetSizeBucketBase :: "string option \<Rightarrow> string option \<Rightarrow> size_t option" where
  "GetSizeBucketBase min_msg val =
     (if env_unset val then GetMinMsgSize min_msg
      else case c_stoull (the val) of None \<Rightarrow> None
           | Some parsed \<Rightarrow> if parsed = 0 then GetMinMsgSize min_msg else Some parsed)"

definition GetSizeBucketsPerOctave :: "string option \<Rightarrow> int" where
  "GetSizeBucketsPerOctave val =
     (if env_unset val then 2
      else case strtol10 (the val) of None \<Rightarrow> 2
           | Some (v, _) \<Rightarrow> if v \<le> 0 \<or> 16 < v then 2 else v)"

definition GetMaxPCIeRecvBufBytes :: "string option \<Rightarrow> size_t option" where
  "GetMaxPCIeRecvBufBytes val = (case val of None \<Rightarrow> Some 536870912 | Some v \<Rightarrow> c_stoull v)"

definition GetNodeScopeWaitMs :: "string option \<Rightarrow> int" where
  "GetNodeScopeWaitMs val =
     (if env_unset val then 200
      else case strtol10 (the val) of None \<Rightarrow> 200
           | Some (v, _) \<Rightarrow> if v < 0 \<or> 60000 < v then 200 else v)"

definition GetAvgBwWarmupIters :: "string option \<Rightarrow> int" where
  "GetAvgBwWarmupIters val =
     (if env_unset val then 0
      else case strtol10 (the val) of None \<Rightarrow> 0 | Some (v, _) \<Rightarrow> if v < 0 then 0 else to_int32 v)"

lemma static_alpha_range: "0 \<le> GetStaticAlpha strtod val \<and> GetStaticAlpha strtod val \<le> 1"
  by (auto simp: GetStaticAlpha_def split: option.split)

lemma split_ratio_range:
  "0 < GetSplitRatioEta strtod val \<and> GetSplitRatioEta strtod val < 1"
  "0 < GetSplitRatioSmoothing strtod val \<and> GetSplitRatioSmoothing strtod val < 1"
  by (auto simp: GetSplitRatioEta_def GetSplitRatioSmoothing_def split: option.split)

end
