(* ===== verification/SplitPlan.thy ===== *)
theory SplitPlan
  imports AmpConfig "HOL-Library.Word"
begin

text \<open>
  How a message is split between the fast and the PCIe path (\<^verbatim>\<open>libampccl/core/planner.h\<close>,
  \<^verbatim>\<open>common/size_bucket.h\<close>, \<^verbatim>\<open>common/op_key.h\<close>, \<^verbatim>\<open>cache/param_cache.h\<close>): the plan, the size
  buckets that share parameters, and the parameter cache. Sizes of the plan are 64-bit
  words, as its alignment works on bits. Products of floating-point numbers are parameters.
\<close>

unbundle bit_operations_syntax

section \<open>The plan\<close>

record plan =
  pl_fast :: "64 word"
  pl_pcie :: "64 word"
  pl_use_pcie :: bool

record plan_settings =
  ps_pcie_enabled :: bool
  ps_min_msg :: "64 word"
  ps_min_chunk :: "64 word"

text \<open>Both parts rounded up to 128 bytes, the PCIe part cut back when they are too long.\<close>

definition align_up :: "64 word \<Rightarrow> 64 word" where
  "align_up b = (b + 127) AND NOT 127"

definition align_plan :: "64 word \<Rightarrow> plan \<Rightarrow> plan" where
  "align_plan total_bytes p =
     (let fast = align_up (pl_fast p); pcie = align_up (pl_pcie p)
      in p\<lparr>pl_fast := fast, pl_pcie := (if total_bytes < fast + pcie then total_bytes - fast else pcie)\<rparr>)"

text \<open>The three tests that move a part below the minimum to the other path.\<close>

definition enforce_min :: "64 word \<Rightarrow> 64 word \<Rightarrow> 64 word \<times> 64 word \<Rightarrow> plan" where
  "enforce_min min_chunk total_bytes st =
     (let (fast0, pcie0) = st;
          (fast1, pcie1) = (if 0 < fast0 \<and> fast0 < min_chunk then (0, pcie0 + fast0) else (fast0, pcie0));
          (fast2, pcie2) = (if 0 < pcie1 \<and> pcie1 < min_chunk then (fast1 + pcie1, 0) else (fast1, pcie1))
      in if pcie2 < min_chunk then \<lparr>pl_fast = total_bytes, pl_pcie = 0, pl_use_pcie = False\<rparr>
         else if fast2 < min_chunk then \<lparr>pl_fast = 0, pl_pcie = total_bytes, pl_use_pcie = True\<rparr>
         else \<lparr>pl_fast = fast2, pl_pcie = pcie2, pl_use_pcie = True\<rparr>)"

text \<open>\<open>share total alpha\<close> is \<^verbatim>\<open>static_cast<size_t>(total_bytes * alpha)\<close>.\<close>

definition CreatePlan ::
  "(64 word \<Rightarrow> real \<Rightarrow> 64 word) \<Rightarrow> plan_settings \<Rightarrow> 64 word \<Rightarrow> real \<Rightarrow> bool \<Rightarrow> plan" where
  "CreatePlan share ps total_bytes alpha use_pcie_hint =
     (if \<not> ps_pcie_enabled ps \<or> total_bytes < ps_min_msg ps \<or> \<not> use_pcie_hint
      then \<lparr>pl_fast = total_bytes, pl_pcie = 0, pl_use_pcie = False\<rparr>
      else
       (let a0 = (if alpha < 0 then 0 else alpha); a = (if 1 < a0 then 1 else a0);
            pcie = share total_bytes a
        in align_plan total_bytes (enforce_min (ps_min_chunk ps) total_bytes (total_bytes - pcie, pcie))))"

definition ForceFastOnly :: "64 word \<Rightarrow> plan \<Rightarrow> plan" where
  "ForceFastOnly fast_bytes p = p\<lparr>pl_fast := fast_bytes, pl_pcie := 0, pl_use_pcie := False\<rparr>"

section \<open>Size buckets\<close>

text \<open>
  The loop of \<^verbatim>\<open>BucketBytes\<close>; \<open>scaled b\<close> is \<^verbatim>\<open>std::ceil((double)b * ratio)\<close>, a whole number.
  A loop that does not end has the value \<open>None\<close>. (The conversion of a boundary of exactly
  \<open>2 ^ 64\<close> is undefined in the source and keeps its value here; no message is that long.)
\<close>

partial_function (option) bucket_loop :: "(size_t \<Rightarrow> nat) \<Rightarrow> size_t \<Rightarrow> size_t \<Rightarrow> size_t option" where
  "bucket_loop scaled bytes bucket =
     (if two64 < scaled bucket then Some bucket
      else if scaled bucket \<le> bucket \<and> bucket = two64 - 1 then Some bucket
      else (let next_b = (if scaled bucket \<le> bucket then bucket + 1 else scaled bucket)
            in if bytes < next_b then Some bucket else bucket_loop scaled bytes next_b))"

declare bucket_loop.simps [code]

definition BucketBytes :: "(size_t \<Rightarrow> nat) \<Rightarrow> size_t \<Rightarrow> size_t \<Rightarrow> size_t option" where
  "BucketBytes scaled base bytes = (if base = 0 \<or> bytes < base then Some 0 else bucket_loop scaled bytes base)"

section \<open>Keys and the parameter cache\<close>

datatype collective_type = AllReduce | AllGather | ReduceScatter | AllToAll

record op_key =
  ok_op :: collective_type
  ok_bytes :: size_t
  ok_bucket :: size_t
  ok_datatype :: int
  ok_nranks :: int
  ok_topology :: nat

definition ParamBytes :: "op_key \<Rightarrow> size_t" where
  "ParamBytes k = (if ok_bucket k \<noteq> 0 then ok_bucket k else ok_bytes k)"

definition op_key_eq :: "op_key \<Rightarrow> op_key \<Rightarrow> bool" where
  "op_key_eq a b \<longleftrightarrow> ok_op a = ok_op b \<and> ParamBytes a = ParamBytes b \<and> ok_datatype a = ok_datatype b \<and>
     ok_nranks a = ok_nranks b \<and> ok_topology a = ok_topology b"

fun op_code_of :: "collective_type \<Rightarrow> int" where
  "op_code_of AllReduce = 0"
| "op_code_of AllGather = 1"
| "op_code_of ReduceScatter = 2"
| "op_code_of AllToAll = 3"

text \<open>The hash; the hash functions of the standard library are parameters.\<close>

definition op_key_hash :: "(int \<Rightarrow> 64 word) \<Rightarrow> (nat \<Rightarrow> 64 word) \<Rightarrow> op_key \<Rightarrow> 64 word" where
  "op_key_hash hash_int hash_size k =
     hash_int (op_code_of (ok_op k)) XOR push_bit 1 (hash_size (ParamBytes k)) XOR
     push_bit 2 (hash_int (ok_datatype k)) XOR push_bit 3 (hash_int (ok_nranks k)) XOR
     push_bit 4 (hash_size (ok_topology k))"

record param_value =
  pv_alpha :: real
  pv_use_pcie :: bool
  pv_fast_bw :: real
  pv_pcie_bw :: real
  pv_best_alpha :: real
  pv_best_bandwidth :: real

definition default_param :: param_value where
  "default_param = \<lparr>pv_alpha = 1 / 2, pv_use_pcie = True, pv_fast_bw = 0, pv_pcie_bw = 0,
     pv_best_alpha = 0, pv_best_bandwidth = 0\<rparr>"

text \<open>
  The table as the list of its entries; \<^verbatim>\<open>table_[key] = value\<close> keeps the stored key of an
  entry with an equal key.
\<close>

type_synonym 'v key_table = "(op_key \<times> 'v) list"

definition table_find :: "'v key_table \<Rightarrow> op_key \<Rightarrow> 'v option" where
  "table_find t k = map_option snd (find (\<lambda>e. op_key_eq (fst e) k) t)"

fun table_put :: "op_key \<Rightarrow> 'v \<Rightarrow> 'v key_table \<Rightarrow> 'v key_table" where
  "table_put k v [] = [(k, v)]"
| "table_put k v ((l, w) # t) = (if op_key_eq l k then (l, v) # t else (l, w) # table_put k v t)"

definition Contains :: "op_key \<Rightarrow> param_value key_table \<Rightarrow> bool" where
  "Contains key t \<longleftrightarrow> table_find t key \<noteq> None"

definition Lookup :: "op_key \<Rightarrow> param_value key_table \<Rightarrow> param_value" where
  "Lookup key t = (case table_find t key of Some v \<Rightarrow> v | None \<Rightarrow> default_param)"

definition cache_Update :: "op_key \<Rightarrow> param_value \<Rightarrow> param_value key_table \<Rightarrow> param_value key_table" where
  "cache_Update key v t = table_put key v t"

definition MergeOne :: "op_key \<Rightarrow> param_value \<Rightarrow> param_value key_table \<Rightarrow> param_value key_table" where
  "MergeOne key v t = table_put key v t"

definition cache_Clear :: "param_value key_table \<Rightarrow> param_value key_table" where
  "cache_Clear t = []"

definition cache_Size :: "param_value key_table \<Rightarrow> nat" where
  "cache_Size t = length t"

definition GetAll :: "param_value key_table \<Rightarrow> (op_key \<times> param_value) list" where
  "GetAll t = t"

definition SetFrom :: "(op_key \<times> param_value) list \<Rightarrow> param_value key_table \<Rightarrow> param_value key_table" where
  "SetFrom entries t = foldl (\<lambda>t (k, v). table_put k v t) t entries"

text \<open>
  \<^verbatim>\<open>MakeOpKey\<close> of \<^verbatim>\<open>core/virtual_collective.h\<close>: the key of a call, with the bucket of its size.
\<close>

definition MakeOpKey ::
  "(size_t \<Rightarrow> nat) \<Rightarrow> size_t \<Rightarrow> int \<Rightarrow> nat \<Rightarrow> collective_type \<Rightarrow> size_t \<Rightarrow> int \<Rightarrow> op_key option" where
  "MakeOpKey scaled base nranks comm_hash op bytes datatype =
     map_option (\<lambda>bucket. \<lparr>ok_op = op, ok_bytes = bytes, ok_bucket = bucket, ok_datatype = datatype,
                    ok_nranks = nranks, ok_topology = comm_hash\<rparr>) (BucketBytes scaled base bytes)"

section \<open>The cache is a keyed store\<close>

lemma op_key_eq_equiv: "op_key_eq k k" "op_key_eq k l \<Longrightarrow> op_key_eq l k"
  "op_key_eq k l \<Longrightarrow> op_key_eq l j \<Longrightarrow> op_key_eq k j"
  by (simp_all add: op_key_eq_def)

text \<open>Equal keys have equal hashes, as the hash table needs.\<close>

lemma op_key_hash_eq: "op_key_eq a b \<Longrightarrow> op_key_hash hi hs a = op_key_hash hi hs b"
  by (simp add: op_key_eq_def op_key_hash_def)

lemma table_find_put:
  "table_find (table_put k v t) l = (if op_key_eq k l then Some v else table_find t l)"
proof (induction k v t rule: table_put.induct)
  case (1 k v)
  then show ?case by (simp add: table_find_def)
next
  case (2 k v l' w t)
  then show ?case by (auto simp: table_find_def op_key_eq_def)
qed

lemma table_find_Nil: "table_find [] k = None"
  by (simp add: table_find_def)

interpretation cache: keyed_store op_key_eq table_find table_put "[]" "\<lambda>_. True"
  by unfold_locales (simp_all add: table_find_put table_find_Nil, simp_all add: op_key_eq_def)

end
