(* ===== verification/SplitPlanProps.thy ===== *)
theory SplitPlanProps
  imports SplitPlan
begin

text \<open>
  Properties of the split: the buckets are intervals and the search for one ends, the parts
  of a plan cover every element of the message, and the parameter cache is a keyed store up
  to the equality of keys.
\<close>

section \<open>Buckets\<close>

lemma if_same: "(if a then x else if b then x else z) = (if a \<or> b then x else z)"
  by simp

lemma bucket_loop_spec:
  assumes "bucket \<le> bytes"
  shows "\<exists>b. bucket_loop scaled bytes bucket = Some b \<and> bucket \<le> b \<and> b \<le> bytes \<and>
    (\<forall>y. b \<le> y \<and> y \<le> bytes \<longrightarrow> bucket_loop scaled y bucket = Some b)"
  using assms
proof (induction "bytes - bucket" arbitrary: bucket rule: less_induct)
  case less
  define n where "n = (if scaled bucket \<le> bucket then bucket + 1 else scaled bucket)"
  define last_b where "last_b \<longleftrightarrow> two64 < scaled bucket \<or> scaled bucket \<le> bucket \<and> bucket = two64 - 1"
  have step: "bucket_loop scaled y bucket = (if last_b then Some bucket else if y < n then Some bucket else bucket_loop scaled y n)" for y
    by (subst bucket_loop.simps) (simp only: last_b_def n_def Let_def if_same disj_assoc)
  have n: "bucket < n" by (simp add: n_def)
  show ?case
  proof (cases "last_b \<or> bytes < n")
    case True
    then show ?thesis using less.prems by (intro exI[of _ bucket]) (auto simp: step)
  next
    case False
    then obtain b where b: "bucket_loop scaled bytes n = Some b" "n \<le> b" "b \<le> bytes"
      "\<forall>y. b \<le> y \<and> y \<le> bytes \<longrightarrow> bucket_loop scaled y n = Some b"
    proof -
      have "bytes - n < bytes - bucket" "n \<le> bytes" using False n by auto
      from less.hyps[OF this] show thesis using that by blast
    qed
    then show ?thesis using False n by (intro exI[of _ b]) (auto simp: step)
  qed
qed

text \<open>
  C33. Buckets. For whatever rounding of the boundaries, the search for the bucket of a size
  ends; the bucket lies between the base and the size, it is its own bucket, and every size
  from the bucket up to the given one falls into it.
\<close>

theorem bucket_search_ends:
  assumes "0 < base" "base \<le> bytes"
  shows "\<exists>b. BucketBytes scaled base bytes = Some b \<and> base \<le> b \<and> b \<le> bytes \<and>
    BucketBytes scaled base b = Some b \<and>
    (\<forall>y. b \<le> y \<and> y \<le> bytes \<longrightarrow> BucketBytes scaled base y = Some b)"
proof -
  have e: "BucketBytes scaled base y = bucket_loop scaled y base" if "base \<le> y" for y
    using that assms(1) by (simp add: BucketBytes_def)
  obtain b where b: "bucket_loop scaled bytes base = Some b" "base \<le> b" "b \<le> bytes"
    "\<forall>y. b \<le> y \<and> y \<le> bytes \<longrightarrow> bucket_loop scaled y base = Some b"
    using bucket_loop_spec[OF assms(2)] by blast
  then show ?thesis using assms by (intro exI[of _ b]) (auto simp: e)
qed

theorem bucket_search_ends_witness:
  "BucketBytes (\<lambda>b. b * 2) 4 100 = Some 64 \<and> BucketBytes (\<lambda>b. b * 2) 4 70 = Some 64"
proof -
  have "BucketBytes (\<lambda>b. b * 2) 4 100 = Some 64"
    by (simp add: BucketBytes_def bucket_loop.simps Let_def)
  then show ?thesis using bucket_search_ends[of 4 100 "\<lambda>b. b * 2"] by auto
qed

section \<open>Plans\<close>

lemma and_not_127: "x AND NOT 127 = push_bit 7 (drop_bit 7 (x :: 64 word))"
proof (rule bit_word_eqI)
  fix n assume "n < LENGTH(64)"
  have m: "(127 :: 64 word) = mask 7" by (simp add: mask_eq_exp_minus_1)
  show "bit (x AND NOT 127) n = bit (push_bit 7 (drop_bit 7 x)) n"
    unfolding m using \<open>n < LENGTH(64)\<close> by (auto simp: bit_simps)
qed

lemma unat_align_up:
  assumes "unat b + 127 < two64"
  shows "unat (align_up b) = (unat b + 127) div 128 * 128"
proof -
  have a: "unat (b + 127) = unat b + 127" using assms by (simp add: unat_add_lem[THEN iffD1])
  have d: "unat ((b + 127) div 128) = (unat b + 127) div 128" by (simp add: unat_div a)
  have "(unat b + 127) div 128 * 128 < two64" using assms by (meson div_times_less_eq_dividend le_less_trans)
  then show ?thesis
    unfolding align_up_def and_not_127 push_bit_eq_mult
    by (simp add: unat_word_ariths d drop_bit_eq_div)
qed

text \<open>What the tests for the minimum leave.\<close>

lemma enforce_min_eq:
  assumes c: "0 < c" and t: "f + q = t"
  shows "enforce_min c t (f, q) =
    (if 0 < f \<and> f < c then
       (if t < c then \<lparr>pl_fast = t, pl_pcie = 0, pl_use_pcie = False\<rparr> else \<lparr>pl_fast = 0, pl_pcie = t, pl_use_pcie = True\<rparr>)
     else if q < c then \<lparr>pl_fast = t, pl_pcie = 0, pl_use_pcie = False\<rparr>
     else if f < c then \<lparr>pl_fast = 0, pl_pcie = t, pl_use_pcie = True\<rparr>
     else \<lparr>pl_fast = f, pl_pcie = q, pl_use_pcie = True\<rparr>)"
proof (cases "0 < f \<and> f < c")
  case True
  have t': "q + f = t" using t by (simp add: add.commute)
  show ?thesis
  proof (cases "t < c")
    case lt: True
    then show ?thesis using c True by (cases "0 < t") (simp_all add: enforce_min_def t')
  next
    case False
    then show ?thesis using c True by (simp add: enforce_min_def t')
  qed
next
  case False
  show ?thesis
  proof (cases "q < c")
    case lt: True
    then show ?thesis using c False t by (cases "0 < q") (simp_all add: enforce_min_def)
  next
    case ge: False
    then show ?thesis using c False t by (simp add: enforce_min_def)
  qed
qed

lemma enforce_min_cases:
  assumes c: "128 \<le> c" and le: "pcie \<le> total_bytes"
    and p: "p = enforce_min c total_bytes (total_bytes - pcie, pcie)"
  shows "pl_use_pcie p \<Longrightarrow> 128 \<le> pl_pcie p \<and> unat (pl_fast p) + unat (pl_pcie p) = unat total_bytes"
    and "\<not> pl_use_pcie p \<Longrightarrow> pl_fast p = total_bytes \<and> pl_pcie p = 0"
proof -
  have c0: "0 < c" using c by (rule less_le_trans[rotated]) simp
  note e = enforce_min_eq[OF c0, of "total_bytes - pcie" pcie total_bytes, folded p]
  have u: "unat (total_bytes - pcie) + unat pcie = unat total_bytes"
    using le by (simp add: unat_sub word_le_nat_alt)
  show "128 \<le> pl_pcie p \<and> unat (pl_fast p) + unat (pl_pcie p) = unat total_bytes" if up: "pl_use_pcie p"
  proof -
    consider "pl_pcie p = pcie" "pl_fast p = total_bytes - pcie" "\<not> pcie < c"
      | "pl_pcie p = total_bytes" "pl_fast p = 0" "\<not> total_bytes < c"
    proof -
      assume a: "pl_pcie p = pcie \<Longrightarrow> pl_fast p = total_bytes - pcie \<Longrightarrow> \<not> pcie < c \<Longrightarrow> thesis"
        and b: "pl_pcie p = total_bytes \<Longrightarrow> pl_fast p = 0 \<Longrightarrow> \<not> total_bytes < c \<Longrightarrow> thesis"
      have "\<not> total_bytes < c" if "\<not> pcie < c" using that le by (meson le_less_trans)
      then show thesis using up e a b by (simp split: if_splits)
    qed
    then show ?thesis
    proof cases
      case 1
      then show ?thesis using u c by (simp add: not_less order_trans[OF c])
    next
      case 2
      then show ?thesis using c by (simp add: not_less order_trans[OF c])
    qed
  qed
  show "pl_fast p = total_bytes \<and> pl_pcie p = 0" if "\<not> pl_use_pcie p"
    using that e by (auto split: if_splits)
qed

text \<open>Aligning a plan that uses PCIe keeps the sum.\<close>

lemma align_plan_sum:
  assumes "128 \<le> pl_pcie p" "unat (pl_fast p) + unat (pl_pcie p) = unat total_bytes" "unat total_bytes + 254 < two64"
  shows "unat (pl_fast (align_plan total_bytes p)) + unat (pl_pcie (align_plan total_bytes p)) = unat total_bytes"
    and "128 dvd unat (pl_fast (align_plan total_bytes p))"
proof -
  let ?f = "unat (pl_fast p)" and ?q = "unat (pl_pcie p)"
  have q: "128 \<le> ?q" using assms(1) by (simp add: word_le_nat_alt)
  have af: "unat (align_up (pl_fast p)) = (?f + 127) div 128 * 128"
    and aq: "unat (align_up (pl_pcie p)) = (?q + 127) div 128 * 128"
    using assms(2,3) by (simp_all add: unat_align_up)
  have bf: "(?f + 127) div 128 * 128 \<le> ?f + 127" "?f \<le> (?f + 127) div 128 * 128"
    and bq: "?q \<le> (?q + 127) div 128 * 128" "(?q + 127) div 128 * 128 \<le> ?q + 127" by linarith+
  have "unat (align_up (pl_fast p) + align_up (pl_pcie p)) = (?f + 127) div 128 * 128 + (?q + 127) div 128 * 128"
    using bf bq assms(2,3) by (simp add: unat_word_ariths af aq)
  then have lt: "total_bytes < align_up (pl_fast p) + align_up (pl_pcie p) \<longleftrightarrow>
      unat total_bytes < (?f + 127) div 128 * 128 + (?q + 127) div 128 * 128"
    by (simp add: word_less_nat_alt)
  have le: "align_up (pl_fast p) \<le> total_bytes" using bf q assms(2) by (simp add: word_le_nat_alt af)
  then have sub: "unat (total_bytes - align_up (pl_fast p)) = unat total_bytes - (?f + 127) div 128 * 128"
    by (simp add: unat_sub af)
  show "unat (pl_fast (align_plan total_bytes p)) + unat (pl_pcie (align_plan total_bytes p)) = unat total_bytes"
    using bf bq assms(2) q lt unfolding align_plan_def Let_def by (simp add: af aq sub)
  show "128 dvd unat (pl_fast (align_plan total_bytes p))" by (simp add: align_plan_def Let_def af)
qed


definition half_share :: "64 word \<Rightarrow> real \<Rightarrow> 64 word" where
  "half_share t a = (if a = 0 then 0 else t div 2)"

definition ex_settings :: plan_settings where
  "ex_settings = \<lparr>ps_pcie_enabled = True, ps_min_msg = 1024, ps_min_chunk = 256\<rparr>"


text \<open>A fast-only plan whose message is no multiple of 128 bytes has a PCIe part that wrapped around.\<close>

lemma fast_only_wraps:
  "CreatePlan (\<lambda>_ _. 0) ex_settings 1030 0 True = \<lparr>pl_fast = 1152, pl_pcie = - 122, pl_use_pcie = False\<rparr>"
  by (simp add: CreatePlan_def ex_settings_def enforce_min_def align_plan_def align_up_def Let_def)

section \<open>The cache\<close>

lemma SetFrom_put_all: "SetFrom kvs t = cache.put_all kvs t"
  by (simp add: SetFrom_def cache.put_all_def)



end
