(* ===== verification/Controllers.thy ===== *)
theory Controllers
  imports SplitPlan
begin

text \<open>
  The adaptive controllers (\<^verbatim>\<open>libampccl/controller\<close>, \<^verbatim>\<open>telemetry/stats.h\<close>): the share of PCIe
  traffic each algorithm suggests and how it learns from measured times. A double is a real
  number, \<open>rnd\<close> the rounding of each operation and of each literal; infinities and NaN are
  not modelled.
\<close>

section \<open>Measurements\<close>

record exec_stat =
  st_fast_time :: real
  st_pcie_time :: real
  st_fast_bytes :: size_t
  st_pcie_bytes :: size_t
  st_fast_success :: bool
  st_pcie_success :: bool

definition bandwidth :: "(real \<Rightarrow> real) \<Rightarrow> size_t \<Rightarrow> real \<Rightarrow> real" where
  "bandwidth rnd bytes t =
     (if 0 < t \<and> 0 < bytes then rnd (rnd (rnd (real bytes) / t) / 1073741824) else 0)"

definition GetFastBandwidth :: "(real \<Rightarrow> real) \<Rightarrow> exec_stat \<Rightarrow> real" where
  "GetFastBandwidth rnd stat = bandwidth rnd (st_fast_bytes stat) (st_fast_time stat)"

definition GetPCIeBandwidth :: "(real \<Rightarrow> real) \<Rightarrow> exec_stat \<Rightarrow> real" where
  "GetPCIeBandwidth rnd stat = bandwidth rnd (st_pcie_bytes stat) (st_pcie_time stat)"

definition GetTotalTime :: "exec_stat \<Rightarrow> real" where
  "GetTotalTime stat = (if st_pcie_time stat < st_fast_time stat then st_fast_time stat else st_pcie_time stat)"

definition GetCombinedBandwidth :: "(real \<Rightarrow> real) \<Rightarrow> exec_stat \<Rightarrow> real" where
  "GetCombinedBandwidth rnd stat =
     bandwidth rnd (add64 (st_fast_bytes stat) (st_pcie_bytes stat)) (GetTotalTime stat)"

section \<open>Settings\<close>

record ctl_env =
  ce_algorithm :: adaptive_algorithm
  ce_pcie_enabled :: bool
  ce_static_alpha :: real
  ce_smooth :: real
  ce_eta :: real
  ce_tcp_initial :: "string option"
  ce_hold_low :: "string option"
  ce_hold_high :: "string option"
  ce_split_initial :: "string option"
  ce_static_alpha_env :: "string option"
  ce_split_min :: "string option"
  ce_warmup :: "string option"
  ce_strtod :: strtod

definition c_atof :: "strtod \<Rightarrow> string \<Rightarrow> real" where
  "c_atof strtod s = (case strtod s of None \<Rightarrow> 0 | Some (v, _) \<Rightarrow> v)"

section \<open>The inverse-proportion algorithm\<close>

record inverse_algo =
  ia_alpha :: real
  ia_best_alpha :: real
  ia_best_bandwidth :: real
  ia_min_alpha :: real
  ia_max_alpha :: real
  ia_decrease_factor :: real
  ia_hold_rate_low :: real
  ia_hold_rate_high :: real
  ia_first_flag :: int

text \<open>\<open>None\<close> is NaN, the value of an invalid setting.\<close>

definition ReadPositiveRate :: "strtod \<Rightarrow> string option \<Rightarrow> real \<Rightarrow> real option" where
  "ReadPositiveRate strtod val fallback =
     (if env_unset val then Some fallback
      else case strtod (the val) of
             Some (rate, rest) \<Rightarrow> if rest \<noteq> [] \<or> rate \<le> 0 then None else Some rate
           | None \<Rightarrow> None)"

definition InitialAlpha :: "(real \<Rightarrow> real) \<Rightarrow> strtod \<Rightarrow> string option \<Rightarrow> real \<Rightarrow> real" where
  "InitialAlpha rnd strtod val fallback =
     (if env_unset val then fallback
      else case strtod (the val) of
             Some (alpha, rest) \<Rightarrow>
               if rest \<noteq> [] \<or> alpha < rnd (1 / 1000) \<or> rnd (39 / 100) < alpha then fallback else alpha
           | None \<Rightarrow> fallback)"

definition hold_rates :: "(real \<Rightarrow> real) \<Rightarrow> ctl_env \<Rightarrow> real \<times> real" where
  "hold_rates rnd env =
     (case (ReadPositiveRate (ce_strtod env) (ce_hold_low env) (rnd (95 / 100)),
            ReadPositiveRate (ce_strtod env) (ce_hold_high env) (rnd (11 / 10))) of
        (Some low, Some high) \<Rightarrow> if high \<le> low then (rnd (95 / 100), rnd (11 / 10)) else (low, high)
      | _ \<Rightarrow> (rnd (95 / 100), rnd (11 / 10)))"

definition decrease_factor_for :: "(real \<Rightarrow> real) \<Rightarrow> int \<Rightarrow> real" where
  "decrease_factor_for rnd nranks =
     (if nranks \<le> 1 then 1 / 2
      else (let d = rnd (1 / 2 * rnd (sqrt (rnd (2 / real_of_int nranks))));
                d1 = (if d < rnd (2 / 10) then rnd (2 / 10) else d)
            in if 1 < d1 then 1 else d1))"

definition new_inverse :: "(real \<Rightarrow> real) \<Rightarrow> ctl_env \<Rightarrow> int \<Rightarrow> inverse_algo" where
  "new_inverse rnd env nranks =
     \<lparr>ia_alpha = InitialAlpha rnd (ce_strtod env) (ce_tcp_initial env) (rnd (1 / 100)),
      ia_best_alpha = rnd (12976 / 100000), ia_best_bandwidth = 0,
      ia_min_alpha = rnd (1 / 1000), ia_max_alpha = rnd (39 / 100),
      ia_decrease_factor = decrease_factor_for rnd nranks,
      ia_hold_rate_low = fst (hold_rates rnd env), ia_hold_rate_high = snd (hold_rates rnd env),
      ia_first_flag = 0\<rparr>"

definition clamp_low :: "inverse_algo \<Rightarrow> inverse_algo" where
  "clamp_low a = (if ia_alpha a < ia_min_alpha a then a\<lparr>ia_alpha := ia_min_alpha a\<rparr> else a)"

definition clamp_high :: "inverse_algo \<Rightarrow> inverse_algo" where
  "clamp_high a = (if ia_max_alpha a < ia_alpha a then a\<lparr>ia_alpha := ia_max_alpha a\<rparr> else a)"

definition inverse_Suggest :: "param_value \<Rightarrow> inverse_algo \<Rightarrow> real \<times> inverse_algo" where
  "inverse_Suggest current a =
     (let a' = clamp_high (clamp_low (a\<lparr>ia_alpha := pv_alpha current, ia_best_alpha := pv_best_alpha current,
                 ia_best_bandwidth := pv_best_bandwidth current\<rparr>))
      in (ia_alpha a', a'))"

definition inverse_Update :: "(real \<Rightarrow> real) \<Rightarrow> exec_stat \<Rightarrow> inverse_algo \<Rightarrow> inverse_algo" where
  "inverse_Update rnd stat a =
     (if \<not> st_fast_success stat \<or> \<not> st_pcie_success stat
      then clamp_low (a\<lparr>ia_alpha := rnd (ia_alpha a * ia_decrease_factor a)\<rparr>)
      else if st_pcie_bytes stat = 0 then a
      else
       (let a1 = a\<lparr>ia_first_flag := ia_first_flag a + 1\<rparr> in
        if ia_first_flag a1 \<le> 2 then a1
        else if 0 < st_pcie_time stat \<and> 0 < st_fast_time stat then
         (let rate = rnd (st_fast_time stat / st_pcie_time stat) in
          if ia_hold_rate_low a1 < rate \<and> rate < ia_hold_rate_high a1 then a1
          else if rate \<le> ia_hold_rate_low a1
          then clamp_high (clamp_low (a1\<lparr>ia_alpha := rnd (ia_alpha a1 * (1 / 2))\<rparr>))
          else if ia_hold_rate_high a1 \<le> rate
          then clamp_high (clamp_low (a1\<lparr>ia_alpha := rnd (ia_alpha a1 * rnd (rate * rnd (96 / 100)))\<rparr>))
          else clamp_high (clamp_low a1))
        else clamp_high (clamp_low a1)))"

definition inverse_Reset :: "(real \<Rightarrow> real) \<Rightarrow> ctl_env \<Rightarrow> inverse_algo \<Rightarrow> inverse_algo" where
  "inverse_Reset rnd env a =
     a\<lparr>ia_alpha := InitialAlpha rnd (ce_strtod env) (ce_tcp_initial env) (rnd (5 / 100)),
       ia_best_alpha := 0, ia_best_bandwidth := 0\<rparr>"

section \<open>The split-ratio algorithm\<close>

record split_algo =
  sa_alpha :: real
  sa_bp_hat :: real
  sa_best_alpha :: real
  sa_best_bandwidth :: real
  sa_update_count :: size_t

definition GetDefaultInitialAlpha :: "(real \<Rightarrow> real) \<Rightarrow> ctl_env \<Rightarrow> real" where
  "GetDefaultInitialAlpha rnd env =
     (if \<not> env_unset (ce_split_initial env) then c_atof (ce_strtod env) (the (ce_split_initial env))
      else if \<not> env_unset (ce_static_alpha_env env) then c_atof (ce_strtod env) (the (ce_static_alpha_env env))
      else rnd (20 / 100))"

definition GetMinAlpha :: "(real \<Rightarrow> real) \<Rightarrow> ctl_env \<Rightarrow> real" where
  "GetMinAlpha rnd env =
     (if \<not> env_unset (ce_split_min env) then c_atof (ce_strtod env) (the (ce_split_min env)) else rnd (5 / 100))"

definition GetWarmupSteps :: "ctl_env \<Rightarrow> size_t" where
  "GetWarmupSteps env =
     (if \<not> env_unset (ce_warmup env)
      then (case strtoull10 (the (ce_warmup env)) of None \<Rightarrow> 0 | Some (n, _) \<Rightarrow> n) else 5)"

definition max_split_alpha :: "(real \<Rightarrow> real) \<Rightarrow> real" where
  "max_split_alpha rnd = rnd (999 / 1000)"

definition new_split :: "(real \<Rightarrow> real) \<Rightarrow> ctl_env \<Rightarrow> split_algo" where
  "new_split rnd env = \<lparr>sa_alpha = GetDefaultInitialAlpha rnd env, sa_bp_hat = 0, sa_best_alpha = 0,
     sa_best_bandwidth = 0, sa_update_count = 0\<rparr>"

definition clamp_split :: "(real \<Rightarrow> real) \<Rightarrow> ctl_env \<Rightarrow> split_algo \<Rightarrow> split_algo" where
  "clamp_split rnd env a =
     a\<lparr>sa_alpha := max (GetMinAlpha rnd env) (min (max_split_alpha rnd) (sa_alpha a))\<rparr>"

definition split_Suggest :: "(real \<Rightarrow> real) \<Rightarrow> ctl_env \<Rightarrow> param_value \<Rightarrow> split_algo \<Rightarrow> real \<times> split_algo" where
  "split_Suggest rnd env current a =
     (let a1 = (if 0 < pv_alpha current then a\<lparr>sa_alpha := pv_alpha current\<rparr> else a);
          a2 = clamp_split rnd env (a1\<lparr>sa_best_alpha := pv_best_alpha current,
                 sa_best_bandwidth := pv_best_bandwidth current\<rparr>)
      in (sa_alpha a2, a2))"

text \<open>One step towards the target share.\<close>

definition step_towards :: "(real \<Rightarrow> real) \<Rightarrow> real \<Rightarrow> real \<Rightarrow> real \<Rightarrow> real" where
  "step_towards rnd eta x_star alpha = rnd (alpha + rnd (eta * rnd (x_star - alpha)))"

definition split_Update :: "(real \<Rightarrow> real) \<Rightarrow> ctl_env \<Rightarrow> exec_stat \<Rightarrow> split_algo \<Rightarrow> split_algo" where
  "split_Update rnd env stat a0 =
     (let min_a = GetMinAlpha rnd env; a = a0\<lparr>sa_update_count := add64 (sa_update_count a0) 1\<rparr> in
      if \<not> st_fast_success stat \<or> \<not> st_pcie_success stat
      then (let half = rnd (sa_alpha a * (1 / 2)) in a\<lparr>sa_alpha := (if half < min_a then min_a else half)\<rparr>)
      else if st_pcie_bytes stat = 0 then a
      else
       (let Bp = GetPCIeBandwidth rnd stat; Bf = GetFastBandwidth rnd stat in
        if Bp \<le> 0 \<or> Bf \<le> 0 then a
        else
         (let smooth = ce_smooth env; eta = ce_eta env;
              bp = (if 4194304 \<le> st_pcie_bytes stat \<or> sa_bp_hat a \<le> 0 then
                      (if sa_bp_hat a \<le> 0 then Bp
                       else rnd (rnd (smooth * Bp) + rnd (rnd (1 - smooth) * sa_bp_hat a)))
                    else sa_bp_hat a);
              x_star = rnd (bp / rnd (bp + Bf));
              T_pcie = rnd (sa_alpha a / bp); T_fast = rnd (rnd (1 - sa_alpha a) / Bf);
              stepped = step_towards rnd eta x_star (sa_alpha a);
              alpha = (if sa_update_count a \<le> GetWarmupSteps env then stepped
                       else if rnd (T_fast * rnd (105 / 100)) < T_pcie then
                         (if 16777216 \<le> st_pcie_bytes stat then rnd (sa_alpha a * rnd (9 / 10)) else stepped)
                       else stepped)
          in clamp_split rnd env (a\<lparr>sa_bp_hat := bp, sa_alpha := alpha\<rparr>))))"

definition split_Reset :: "(real \<Rightarrow> real) \<Rightarrow> ctl_env \<Rightarrow> split_algo \<Rightarrow> split_algo" where
  "split_Reset rnd env a = new_split rnd env"

section \<open>All algorithms\<close>

datatype algo = Inverse inverse_algo | SplitRatio split_algo | StaticAlgo real

fun GetAlpha :: "algo \<Rightarrow> real" where
  "GetAlpha (Inverse a) = ia_alpha a"
| "GetAlpha (SplitRatio a) = sa_alpha a"
| "GetAlpha (StaticAlgo alpha) = alpha"

fun GetBestAlpha :: "algo \<Rightarrow> real" where
  "GetBestAlpha (Inverse a) = ia_best_alpha a"
| "GetBestAlpha (SplitRatio a) = sa_best_alpha a"
| "GetBestAlpha (StaticAlgo alpha) = 0"

fun GetBestBandwidth :: "algo \<Rightarrow> real" where
  "GetBestBandwidth (Inverse a) = ia_best_bandwidth a"
| "GetBestBandwidth (SplitRatio a) = sa_best_bandwidth a"
| "GetBestBandwidth (StaticAlgo alpha) = 0"

fun algo_Suggest :: "(real \<Rightarrow> real) \<Rightarrow> ctl_env \<Rightarrow> param_value \<Rightarrow> algo \<Rightarrow> real \<times> algo" where
  "algo_Suggest rnd env current (Inverse a) = map_prod id Inverse (inverse_Suggest current a)"
| "algo_Suggest rnd env current (SplitRatio a) = map_prod id SplitRatio (split_Suggest rnd env current a)"
| "algo_Suggest rnd env current (StaticAlgo alpha) = (alpha, StaticAlgo alpha)"

fun algo_Update :: "(real \<Rightarrow> real) \<Rightarrow> ctl_env \<Rightarrow> exec_stat \<Rightarrow> algo \<Rightarrow> algo" where
  "algo_Update rnd env stat (Inverse a) = Inverse (inverse_Update rnd stat a)"
| "algo_Update rnd env stat (SplitRatio a) = SplitRatio (split_Update rnd env stat a)"
| "algo_Update rnd env stat (StaticAlgo alpha) = StaticAlgo alpha"

fun algo_Reset :: "(real \<Rightarrow> real) \<Rightarrow> ctl_env \<Rightarrow> algo \<Rightarrow> algo" where
  "algo_Reset rnd env (Inverse a) = Inverse (inverse_Reset rnd env a)"
| "algo_Reset rnd env (SplitRatio a) = SplitRatio (split_Reset rnd env a)"
| "algo_Reset rnd env (StaticAlgo alpha) = StaticAlgo (ce_static_alpha env)"

definition Create :: "(real \<Rightarrow> real) \<Rightarrow> ctl_env \<Rightarrow> int \<Rightarrow> algo" where
  "Create rnd env nranks =
     (case ce_algorithm env of
        INVERSE_PROPORTION \<Rightarrow> Inverse (new_inverse rnd env nranks)
      | SPLIT_RATIO_CONTROL \<Rightarrow> SplitRatio (new_split rnd env)
      | STATIC \<Rightarrow> StaticAlgo (ce_static_alpha env))"

section \<open>The controller\<close>

record controller =
  ct_nranks :: int
  ct_algorithms :: "algo key_table"

definition GetOrCreateAlgoLocked :: "(real \<Rightarrow> real) \<Rightarrow> ctl_env \<Rightarrow> op_key \<Rightarrow> controller \<Rightarrow> algo \<times> controller" where
  "GetOrCreateAlgoLocked rnd env key c =
     (case table_find (ct_algorithms c) key of
        Some a \<Rightarrow> (a, c)
      | None \<Rightarrow> (let a = Create rnd env (ct_nranks c) in (a, c\<lparr>ct_algorithms := table_put key a (ct_algorithms c)\<rparr>)))"

definition set_algo :: "op_key \<Rightarrow> algo \<Rightarrow> controller \<Rightarrow> controller" where
  "set_algo key a c = c\<lparr>ct_algorithms := table_put key a (ct_algorithms c)\<rparr>"

definition SuggestAlpha ::
  "(real \<Rightarrow> real) \<Rightarrow> ctl_env \<Rightarrow> op_key \<Rightarrow> param_value key_table \<Rightarrow> controller \<Rightarrow> real \<times> controller" where
  "SuggestAlpha rnd env key cache c =
     (let (a, c1) = GetOrCreateAlgoLocked rnd env key c in
      if \<not> Contains key cache then (GetAlpha a, c1)
      else (let (alpha, a') = algo_Suggest rnd env (Lookup key cache) a in (alpha, set_algo key a' c1)))"

definition ctl_Update ::
  "(real \<Rightarrow> real) \<Rightarrow> ctl_env \<Rightarrow> op_key \<Rightarrow> exec_stat \<Rightarrow> controller \<times> param_value key_table \<Rightarrow>
   controller \<times> param_value key_table" where
  "ctl_Update rnd env key stat st =
     (let (c, cache) = st; (a, c1) = GetOrCreateAlgoLocked rnd env key c;
          prev = Lookup key cache; a' = algo_Update rnd env stat a;
          fast_bw = GetFastBandwidth rnd stat; pcie_bw = GetPCIeBandwidth rnd stat;
          use_pcie = (if ce_pcie_enabled env then
              (if 0 < st_pcie_bytes stat then st_pcie_success stat \<and> 0 < pcie_bw else pv_use_pcie prev)
            else False)
      in (set_algo key a' c1,
          cache_Update key \<lparr>pv_alpha = GetAlpha a', pv_use_pcie = use_pcie, pv_fast_bw = fast_bw,
             pv_pcie_bw = pcie_bw, pv_best_alpha = GetBestAlpha a',
             pv_best_bandwidth = GetBestBandwidth a'\<rparr> cache))"

definition ctl_Reset :: "controller \<Rightarrow> controller" where
  "ctl_Reset c = c\<lparr>ct_algorithms := []\<rparr>"

end
