(* ===== verification/ControllerProps.thy ===== *)
theory ControllerProps
  imports Controllers
begin

text \<open>
  The share a controller suggests stays within the bounds of its algorithm, whatever is
  measured, cached or merged from other ranks.
\<close>

section \<open>Bounds of the algorithms\<close>

text \<open>What is used of rounding to doubles: it is monotone, exact on doubles and on 0 and 1.\<close>

definition rounds :: "(real \<Rightarrow> real) \<Rightarrow> bool" where
  "rounds rnd \<longleftrightarrow> mono rnd \<and> (\<forall>x. rnd (rnd x) = rnd x) \<and> rnd 0 = 0 \<and> rnd 1 = 1"

text \<open>
  The settings of the split-ratio algorithm are doubles in order; \<^verbatim>\<open>std::atof\<close> does not
  check this.
\<close>

definition split_env_ok :: "(real \<Rightarrow> real) \<Rightarrow> ctl_env \<Rightarrow> bool" where
  "split_env_ok rnd env \<longleftrightarrow> rnd (GetMinAlpha rnd env) = GetMinAlpha rnd env \<and> 0 \<le> GetMinAlpha rnd env \<and>
     GetMinAlpha rnd env \<le> GetDefaultInitialAlpha rnd env \<and>
     GetDefaultInitialAlpha rnd env \<le> max (GetMinAlpha rnd env) (max_split_alpha rnd)"

definition env_ok :: "(real \<Rightarrow> real) \<Rightarrow> ctl_env \<Rightarrow> bool" where
  "env_ok rnd env \<longleftrightarrow> 0 \<le> ce_static_alpha env \<and> ce_static_alpha env \<le> 1 \<and>
     (ce_algorithm env = SPLIT_RATIO_CONTROL \<longrightarrow> split_env_ok rnd env)"

definition low_bound :: "(real \<Rightarrow> real) \<Rightarrow> ctl_env \<Rightarrow> real" where
  "low_bound rnd env = (case ce_algorithm env of INVERSE_PROPORTION \<Rightarrow> rnd (1 / 1000)
     | SPLIT_RATIO_CONTROL \<Rightarrow> GetMinAlpha rnd env | STATIC \<Rightarrow> 0)"

definition high_bound :: "(real \<Rightarrow> real) \<Rightarrow> ctl_env \<Rightarrow> real" where
  "high_bound rnd env = (case ce_algorithm env of INVERSE_PROPORTION \<Rightarrow> rnd (39 / 100)
     | SPLIT_RATIO_CONTROL \<Rightarrow> max (GetMinAlpha rnd env) (max_split_alpha rnd) | STATIC \<Rightarrow> 1)"

definition in_bounds :: "(real \<Rightarrow> real) \<Rightarrow> ctl_env \<Rightarrow> real \<Rightarrow> bool" where
  "in_bounds rnd env alpha \<longleftrightarrow> low_bound rnd env \<le> alpha \<and> alpha \<le> high_bound rnd env"

text \<open>An algorithm of the configured kind, with its constants and its share within bounds.\<close>

fun algo_ok :: "(real \<Rightarrow> real) \<Rightarrow> ctl_env \<Rightarrow> algo \<Rightarrow> bool" where
  "algo_ok rnd env (Inverse a) \<longleftrightarrow> ce_algorithm env = INVERSE_PROPORTION \<and>
     ia_min_alpha a = rnd (1 / 1000) \<and> ia_max_alpha a = rnd (39 / 100) \<and>
     0 \<le> ia_decrease_factor a \<and> ia_decrease_factor a \<le> 1 \<and> in_bounds rnd env (ia_alpha a)"
| "algo_ok rnd env (SplitRatio a) \<longleftrightarrow> ce_algorithm env = SPLIT_RATIO_CONTROL \<and> in_bounds rnd env (sa_alpha a)"
| "algo_ok rnd env (StaticAlgo alpha) \<longleftrightarrow> ce_algorithm env = STATIC \<and> in_bounds rnd env alpha"

lemma algo_ok_alpha: "algo_ok rnd env a \<Longrightarrow> in_bounds rnd env (GetAlpha a)"
  by (cases a) simp_all

lemma rounds_mono: "rounds rnd \<Longrightarrow> x \<le> y \<Longrightarrow> rnd x \<le> rnd y"
  by (simp add: rounds_def monoD)

lemma rounds_le: "rounds rnd \<Longrightarrow> x \<le> rnd y \<Longrightarrow> rnd x \<le> rnd y"
  using rounds_mono[of rnd x "rnd y"] by (simp add: rounds_def)

lemma rounds_nonneg: "rounds rnd \<Longrightarrow> 0 \<le> x \<Longrightarrow> 0 \<le> rnd x"
  using rounds_mono[of rnd 0 x] by (simp add: rounds_def)

lemma high_double: "rounds rnd \<Longrightarrow> env_ok rnd env \<Longrightarrow> rnd (high_bound rnd env) = high_bound rnd env"
  by (auto simp: high_bound_def env_ok_def split_env_ok_def rounds_def max_split_alpha_def max_def split: adaptive_algorithm.split)

lemma low_nonneg: "rounds rnd \<Longrightarrow> env_ok rnd env \<Longrightarrow> 0 \<le> low_bound rnd env"
  by (auto simp: low_bound_def env_ok_def split_env_ok_def rounds_nonneg split: adaptive_algorithm.split)

lemma low_le_high: "rounds rnd \<Longrightarrow> env_ok rnd env \<Longrightarrow> low_bound rnd env \<le> high_bound rnd env"
  by (auto simp: low_bound_def high_bound_def rounds_mono split: adaptive_algorithm.split)

text \<open>A share scaled down stays below the upper bound.\<close>

lemma scaled_le_high:
  assumes "rounds rnd" "env_ok rnd env" "in_bounds rnd env alpha" "0 \<le> d" "d \<le> 1"
  shows "rnd (alpha * d) \<le> high_bound rnd env"
proof -
  have "0 \<le> alpha" using low_nonneg[OF assms(1,2)] assms(3) by (simp add: in_bounds_def)
  then have "alpha * d \<le> high_bound rnd env"
    using assms(3-5) mult_left_le[of d alpha] by (simp add: in_bounds_def)
  then show ?thesis using rounds_mono[OF assms(1)] high_double[OF assms(1,2)] by metis
qed

lemma create_ok:
  assumes r: "rounds rnd" and e: "env_ok rnd env"
  shows "algo_ok rnd env (Create rnd env n)"
proof (cases "ce_algorithm env")
  case INVERSE_PROPORTION
  have "rnd (1 / 1000) \<le> rnd (1 / 100)" "rnd (1 / 100) \<le> rnd (39 / 100)" by (rule rounds_mono[OF r]; simp)+
  then have i: "in_bounds rnd env (InitialAlpha rnd (ce_strtod env) (ce_tcp_initial env) (rnd (1 / 100)))"
    using INVERSE_PROPORTION
    by (auto simp: InitialAlpha_def in_bounds_def low_bound_def high_bound_def split: option.split)
  have "0 \<le> rnd (2 / 10)" "rnd (2 / 10) \<le> 1"
    using rounds_nonneg[OF r] rounds_mono[OF r, of "2 / 10" 1] r by (simp_all add: rounds_def)
  then have "0 \<le> decrease_factor_for rnd n \<and> decrease_factor_for rnd n \<le> 1"
    by (auto simp: decrease_factor_for_def Let_def)
  then show ?thesis using INVERSE_PROPORTION i by (simp add: Create_def new_inverse_def)
next
  case SPLIT_RATIO_CONTROL
  then show ?thesis using e
    by (simp add: Create_def new_split_def env_ok_def split_env_ok_def in_bounds_def low_bound_def high_bound_def)
next
  case STATIC
  then show ?thesis using e by (simp add: Create_def env_ok_def in_bounds_def low_bound_def high_bound_def)
qed

lemma clamp_fields [simp]:
  "ia_min_alpha (clamp_low a) = ia_min_alpha a" "ia_max_alpha (clamp_low a) = ia_max_alpha a"
  "ia_decrease_factor (clamp_low a) = ia_decrease_factor a" "ia_alpha (clamp_low a) = max (ia_min_alpha a) (ia_alpha a)"
  "ia_min_alpha (clamp_high a) = ia_min_alpha a" "ia_max_alpha (clamp_high a) = ia_max_alpha a"
  "ia_decrease_factor (clamp_high a) = ia_decrease_factor a" "ia_alpha (clamp_high a) = min (ia_max_alpha a) (ia_alpha a)"
  by (simp_all add: clamp_low_def clamp_high_def)

lemma clamped_bounds:
  "rounds rnd \<Longrightarrow> env_ok rnd env \<Longrightarrow> in_bounds rnd env (min (high_bound rnd env) (max (low_bound rnd env) x))"
  "rounds rnd \<Longrightarrow> env_ok rnd env \<Longrightarrow> x \<le> high_bound rnd env \<Longrightarrow> in_bounds rnd env (max (low_bound rnd env) x)"
  using low_le_high[of rnd env] by (auto simp: in_bounds_def)

lemma inverse_ok:
  assumes r: "rounds rnd" and e: "env_ok rnd env" and a: "algo_ok rnd env (Inverse a)"
  shows "algo_ok rnd env (Inverse (inverse_Update rnd stat a))"
    and "algo_ok rnd env (Inverse (snd (inverse_Suggest p a)))" "in_bounds rnd env (fst (inverse_Suggest p a))"
proof -
  have k: "ce_algorithm env = INVERSE_PROPORTION" "ia_min_alpha a = low_bound rnd env" "ia_max_alpha a = high_bound rnd env"
    "0 \<le> ia_decrease_factor a" "ia_decrease_factor a \<le> 1" "in_bounds rnd env (ia_alpha a)"
    using a by (simp_all add: low_bound_def high_bound_def)
  have b: "rnd (1 / 1000) = low_bound rnd env" "rnd (39 / 100) = high_bound rnd env"
    using k(1) by (simp_all add: low_bound_def high_bound_def)
  note c = clamped_bounds[OF r e] scaled_le_high[OF r e k(6,4,5)]
  show "algo_ok rnd env (Inverse (snd (inverse_Suggest p a)))" "in_bounds rnd env (fst (inverse_Suggest p a))"
    using k c by (simp_all add: inverse_Suggest_def Let_def b)
  show "algo_ok rnd env (Inverse (inverse_Update rnd stat a))"
    using k c by (auto simp: inverse_Update_def Let_def b)
qed

lemma split_ok:
  assumes r: "rounds rnd" and e: "env_ok rnd env" and a: "algo_ok rnd env (SplitRatio a)"
  shows "algo_ok rnd env (SplitRatio (split_Update rnd env stat a))"
    and "algo_ok rnd env (SplitRatio (snd (split_Suggest rnd env p a)))" "in_bounds rnd env (fst (split_Suggest rnd env p a))"
proof -
  have k: "ce_algorithm env = SPLIT_RATIO_CONTROL" "GetMinAlpha rnd env = low_bound rnd env"
    "in_bounds rnd env (sa_alpha a)" "max (low_bound rnd env) (max_split_alpha rnd) = high_bound rnd env"
    using a by (simp_all add: low_bound_def high_bound_def)
  have cs: "in_bounds rnd env (sa_alpha (clamp_split rnd env b))" for b
    using k(4) by (auto simp: clamp_split_def k(2) in_bounds_def)
  have h: "rnd (sa_alpha a * (1 / 2)) \<le> high_bound rnd env" by (rule scaled_le_high[OF r e k(3)]) simp_all
  show "algo_ok rnd env (SplitRatio (snd (split_Suggest rnd env p a)))" "in_bounds rnd env (fst (split_Suggest rnd env p a))"
    using k(1) cs by (simp_all add: split_Suggest_def Let_def)
  show "algo_ok rnd env (SplitRatio (split_Update rnd env stat a))"
    using k(1,3) cs h low_le_high[OF r e]
    by (simp add: split_Update_def Let_def k(2)) (simp add: in_bounds_def)
qed

lemma algo_steps_ok:
  assumes "rounds rnd" "env_ok rnd env" "algo_ok rnd env a"
  shows "algo_ok rnd env (algo_Update rnd env stat a)"
    and "algo_ok rnd env (snd (algo_Suggest rnd env p a))" "in_bounds rnd env (fst (algo_Suggest rnd env p a))"
  using assms inverse_ok[OF assms(1,2)] split_ok[OF assms(1,2)] by (cases a; simp)+

section \<open>The controller\<close>

type_synonym ctl_state = "controller \<times> param_value key_table"

text \<open>
  The calls on a controller and its cache: a suggestion, an update from measurements, values
  merged from the other ranks, a reset.
\<close>

inductive ctl_step :: "(real \<Rightarrow> real) \<Rightarrow> ctl_env \<Rightarrow> ctl_state \<Rightarrow> ctl_state \<Rightarrow> bool"
  for rnd :: "real \<Rightarrow> real" and env :: ctl_env where
  ctl_suggest: "ctl_step rnd env (c, cache) (snd (SuggestAlpha rnd env key cache c), cache)"
| ctl_update: "ctl_step rnd env (c, cache) (ctl_Update rnd env key stat (c, cache))"
| ctl_merge: "ctl_step rnd env (c, cache) (c, SetFrom entries cache)"
| ctl_reset: "ctl_step rnd env (c, cache) (ctl_Reset c, cache)"

definition ctl_start :: "ctl_state \<Rightarrow> bool" where
  "ctl_start st \<longleftrightarrow> ct_algorithms (fst st) = [] \<and> snd st = []"

definition algos_ok :: "(real \<Rightarrow> real) \<Rightarrow> ctl_env \<Rightarrow> controller \<Rightarrow> bool" where
  "algos_ok rnd env c \<longleftrightarrow> (\<forall>key a. table_find (ct_algorithms c) key = Some a \<longrightarrow> algo_ok rnd env a)"

lemma get_or_create_ok:
  assumes "rounds rnd" "env_ok rnd env" "algos_ok rnd env c" "GetOrCreateAlgoLocked rnd env key c = (a, c')"
  shows "algo_ok rnd env a \<and> algos_ok rnd env c'"
  using assms(3,4) create_ok[OF assms(1,2)]
  by (auto simp: GetOrCreateAlgoLocked_def algos_ok_def Let_def table_find_put split: option.splits if_splits)

lemma set_algo_ok: "algos_ok rnd env c \<Longrightarrow> algo_ok rnd env a \<Longrightarrow> algos_ok rnd env (set_algo key a c)"
  by (simp add: algos_ok_def set_algo_def table_find_put)

lemma suggest_ok:
  assumes "rounds rnd" "env_ok rnd env" "algos_ok rnd env c"
  shows "algos_ok rnd env (snd (SuggestAlpha rnd env key cache c)) \<and> in_bounds rnd env (fst (SuggestAlpha rnd env key cache c))"
proof -
  obtain a c' where g: "GetOrCreateAlgoLocked rnd env key c = (a, c')" by fastforce
  note ok = get_or_create_ok[OF assms g]
  obtain x a' where s: "algo_Suggest rnd env (Lookup key cache) a = (x, a')" by fastforce
  then have "algo_ok rnd env a'" "in_bounds rnd env x"
    using algo_steps_ok(2,3)[OF assms(1,2), of a "Lookup key cache"] ok by simp_all
  then show ?thesis using ok set_algo_ok algo_ok_alpha by (simp add: SuggestAlpha_def g s)
qed

lemma update_ok:
  assumes "rounds rnd" "env_ok rnd env" "algos_ok rnd env c"
  shows "algos_ok rnd env (fst (ctl_Update rnd env key stat (c, cache)))"
proof -
  obtain a c' where g: "GetOrCreateAlgoLocked rnd env key c = (a, c')" by fastforce
  note ok = get_or_create_ok[OF assms g]
  then show ?thesis using set_algo_ok algo_steps_ok(1)[OF assms(1,2)] by (simp add: ctl_Update_def g Let_def)
qed


definition ex_ctl_env :: ctl_env where
  "ex_ctl_env = \<lparr>ce_algorithm = INVERSE_PROPORTION, ce_pcie_enabled = True, ce_static_alpha = 8 / 10,
     ce_smooth = 7 / 10, ce_eta = 3 / 10, ce_tcp_initial = None, ce_hold_low = None, ce_hold_high = None,
     ce_split_initial = None, ce_static_alpha_env = None, ce_split_min = None, ce_warmup = None,
     ce_strtod = \<lambda>_. None\<rparr>"

definition ex_key :: op_key where
  "ex_key = \<lparr>ok_op = AllReduce, ok_bytes = 100, ok_bucket = 64, ok_datatype = 7, ok_nranks = 8, ok_topology = 0\<rparr>"

definition ex_merged :: "param_value key_table" where
  "ex_merged = SetFrom [(ex_key, default_param\<lparr>pv_alpha := 7\<rparr>)] []"


end
