(* ===== verification/ShmStore.thy ===== *)
theory ShmStore
  imports Controllers
begin

text \<open>
  The shared segment through which the ranks of a node agree on parameters
  (\<^verbatim>\<open>libampccl/core/shm_store.cc\<close>), and the preparation of a collective that uses it
  (\<^verbatim>\<open>core/virtual_collective.h\<close>). The single operations come first; the last section is the
  round all ranks go through at every collective, as an interleaving of their accesses.
  Opening and mapping the segment are answers of the operating system.
\<close>

section \<open>The segment\<close>

text \<open>The six key fields of a slot or an entry are one component, an operation key.\<close>

record stat_slot =
  ss_epoch :: size_t
  ss_key :: op_key
  ss_stat :: exec_stat
  ss_valid :: bool

record shm_mem =
  sh_magic :: size_t
  sh_stat_epoch :: size_t
  sh_nranks :: int
  sh_read_count :: "32 word"
  sh_barrier_count :: "32 word"
  sh_barrier_sense :: "32 word"
  sh_slots :: "stat_slot list"
  sh_version :: size_t
  sh_num :: nat
  sh_entries :: "(op_key \<times> param_value) list"

record shm_store =
  st_attached :: bool
  st_my_rank :: int
  st_nranks :: int

definition kMagic :: size_t where
  "kMagic = 4705505435494145878"

definition kMaxRanks :: nat where
  "kMaxRanks = 128"

definition kMaxParamEntries :: nat where
  "kMaxParamEntries = 512"

definition IsRank0 :: "shm_store \<Rightarrow> bool" where
  "IsRank0 st = (st_my_rank st = 0)"

text \<open>A segment of zero bytes, as \<^verbatim>\<open>memset\<close> and a fresh file leave it.\<close>

definition zero_key :: op_key where
  "zero_key = \<lparr>ok_op = AllReduce, ok_bytes = 0, ok_bucket = 0, ok_datatype = 0, ok_nranks = 0, ok_topology = 0\<rparr>"

definition zero_slot :: stat_slot where
  "zero_slot = \<lparr>ss_epoch = 0, ss_key = zero_key, ss_stat = \<lparr>st_fast_time = 0, st_pcie_time = 0,
     st_fast_bytes = 0, st_pcie_bytes = 0, st_fast_success = False, st_pcie_success = False\<rparr>, ss_valid = False\<rparr>"

definition zero_mem :: shm_mem where
  "zero_mem = \<lparr>sh_magic = 0, sh_stat_epoch = 0, sh_nranks = 0, sh_read_count = 0, sh_barrier_count = 0,
     sh_barrier_sense = 0, sh_slots = replicate kMaxRanks zero_slot, sh_version = 0, sh_num = 0,
     sh_entries = replicate kMaxParamEntries (zero_key, \<lparr>pv_alpha = 0, pv_use_pcie = False, pv_fast_bw = 0,
       pv_pcie_bw = 0, pv_best_alpha = 0, pv_best_bandwidth = 0\<rparr>)\<rparr>"

text \<open>
  \<^verbatim>\<open>Attach\<close>; \<open>opened\<close> is the mapped segment, \<open>None\<close> when opening, locking, sizing or mapping
  it failed. The new segment is returned when it was mapped.
\<close>

definition init_header :: "int \<Rightarrow> shm_mem" where
  "init_header nranks = zero_mem\<lparr>sh_nranks := nranks, sh_magic := kMagic\<rparr>"

definition invalidate_slots :: "int \<Rightarrow> stat_slot list \<Rightarrow> stat_slot list" where
  "invalidate_slots nranks slots =
     map (\<lambda>s. s\<lparr>ss_valid := False\<rparr>) (take (nat nranks) slots) @ drop (nat nranks) slots"

definition reset_header :: "int \<Rightarrow> shm_mem \<Rightarrow> shm_mem" where
  "reset_header nranks mem = mem\<lparr>sh_slots := invalidate_slots nranks (sh_slots mem), sh_stat_epoch := 0,
     sh_read_count := 0, sh_barrier_count := 0, sh_barrier_sense := 0\<rparr>"

definition Attach :: "int \<Rightarrow> int \<Rightarrow> shm_mem option \<Rightarrow> shm_store \<Rightarrow> bool \<times> shm_store \<times> shm_mem option" where
  "Attach my_rank nranks opened st =
     (if nranks \<le> 0 \<or> my_rank < 0 \<or> nranks \<le> my_rank then (False, st, opened)
      else if int kMaxRanks < nranks then (False, st, opened)
      else (let st1 = st\<lparr>st_my_rank := my_rank, st_nranks := nranks\<rparr> in
        case opened of
          None \<Rightarrow> (False, st1, None)
        | Some mem \<Rightarrow>
            (True, st1\<lparr>st_attached := True\<rparr>,
             Some (if sh_magic mem \<noteq> kMagic \<or> sh_nranks mem \<noteq> nranks then init_header nranks
                   else if my_rank = 0 then reset_header nranks mem else mem))))"

text \<open>\<^verbatim>\<open>EnsureShmAttached\<close> of \<^verbatim>\<open>core/domain.h\<close>.\<close>

definition EnsureShmAttached ::
  "bool \<Rightarrow> int \<Rightarrow> int \<Rightarrow> shm_mem option \<Rightarrow> shm_store \<Rightarrow> shm_store \<times> shm_mem option" where
  "EnsureShmAttached sync_enabled my_rank nranks opened st =
     (if \<not> sync_enabled then (st, opened)
      else if 1 < nranks \<and> \<not> st_attached st then snd (Attach my_rank nranks opened st)
      else (st, opened))"

section \<open>Measurements of the ranks\<close>

definition WriteMyStat :: "shm_store \<Rightarrow> int \<Rightarrow> op_key \<Rightarrow> exec_stat \<Rightarrow> shm_mem \<Rightarrow> shm_mem" where
  "WriteMyStat st my_rank key stat mem =
     (if \<not> st_attached st \<or> my_rank < 0 \<or> st_nranks st \<le> my_rank then mem
      else mem\<lparr>sh_slots := (sh_slots mem)[nat my_rank :=
             \<lparr>ss_epoch = sh_stat_epoch mem, ss_key = key, ss_stat = stat, ss_valid = True\<rparr>]\<rparr>)"

definition AlgBytesFactor :: "collective_type \<Rightarrow> int \<Rightarrow> real" where
  "AlgBytesFactor op n = (if n \<le> 1 then 1
     else case op of AllGather \<Rightarrow> real_of_int n | ReduceScatter \<Rightarrow> real_of_int n | AllToAll \<Rightarrow> real_of_int n
          | AllReduce \<Rightarrow> 1)"

definition BusBwFactor :: "(real \<Rightarrow> real) \<Rightarrow> collective_type \<Rightarrow> int \<Rightarrow> real" where
  "BusBwFactor rnd op n = (if n \<le> 1 then 0
     else (let f = rnd (real_of_int (n - 1) / real_of_int n) in if op = AllReduce then rnd (2 * f) else f))"

definition current_slot :: "size_t \<Rightarrow> stat_slot \<Rightarrow> bool" where
  "current_slot epoch s \<longleftrightarrow> ss_valid s \<and> ss_epoch s = epoch"

text \<open>
  The aggregate of the slots: key and bytes of the first, the longest times, success when all
  succeeded.
\<close>

definition max_time :: "(exec_stat \<Rightarrow> real) \<Rightarrow> stat_slot list \<Rightarrow> real" where
  "max_time f slots = foldl (\<lambda>m s. if m < f (ss_stat s) then f (ss_stat s) else m) 0 slots"

definition aggregate_slots :: "stat_slot list \<Rightarrow> exec_stat \<times> op_key" where
  "aggregate_slots slots =
     (\<lparr>st_fast_time = max_time st_fast_time slots, st_pcie_time = max_time st_pcie_time slots,
       st_fast_bytes = st_fast_bytes (ss_stat (hd slots)), st_pcie_bytes = st_pcie_bytes (ss_stat (hd slots)),
       st_fast_success = (\<forall>s \<in> set slots. st_fast_success (ss_stat s)),
       st_pcie_success = (\<forall>s \<in> set slots. st_pcie_success (ss_stat s))\<rparr>, ss_key (hd slots))"

text \<open>The bandwidths reported with an aggregate: algorithm, bus and bus factor.\<close>

definition aggregate_bw :: "(real \<Rightarrow> real) \<Rightarrow> int \<Rightarrow> exec_stat \<Rightarrow> op_key \<Rightarrow> real \<times> real \<times> real" where
  "aggregate_bw rnd nranks stat key =
     (let base = add64 (st_fast_bytes stat) (st_pcie_bytes stat); t = GetTotalTime stat;
          n = (if 0 < ok_nranks key then ok_nranks key else nranks);
          alg_bytes = rnd (rnd (real base) * AlgBytesFactor (ok_op key) n);
          measured = (rnd (1 / 10 ^ 30) < t \<and> 0 < alg_bytes);
          algbw = (if measured then rnd (rnd (alg_bytes / t) / 1000000000) else 0);
          busbw = (if measured then rnd (algbw * BusBwFactor rnd (ok_op key) n) else 0)
      in (algbw, busbw, BusBwFactor rnd (ok_op key) n))"

datatype aggregation =
    NoStats
  | StatsPending        \<comment> \<open>some rank has not written its measurement yet: the call spins\<close>
  | Aggregated exec_stat op_key "real \<times> real \<times> real" shm_mem

definition ReadAllStatsAndAggregate :: "(real \<Rightarrow> real) \<Rightarrow> shm_store \<Rightarrow> shm_mem \<Rightarrow> aggregation" where
  "ReadAllStatsAndAggregate rnd st mem =
     (if \<not> st_attached st then NoStats
      else
       (let slots = take (nat (st_nranks st)) (sh_slots mem); epoch = sh_stat_epoch mem in
        if \<not> list_ex (current_slot epoch) slots then NoStats
        else if \<not> list_all (current_slot epoch) slots then StatsPending
        else (case aggregate_slots slots of (stat, key) \<Rightarrow>
                Aggregated stat key (aggregate_bw rnd (st_nranks st) stat key)
                  (mem\<lparr>sh_slots := invalidate_slots (st_nranks st) (sh_slots mem),
                       sh_stat_epoch := add64 epoch 1\<rparr>))))"

section \<open>The average bandwidth of a domain\<close>

record bw_record =
  bw_total_iters :: int
  bw_count :: int
  bw_sum_alg :: real
  bw_sum_bus :: real
  bw_sum_factor :: real

definition RecordBw ::
  "(real \<Rightarrow> real) \<Rightarrow> bool \<Rightarrow> int \<Rightarrow> real \<times> real \<times> real \<Rightarrow> bw_record \<Rightarrow> bw_record" where
  "RecordBw rnd enabled warmup bw r =
     (if \<not> enabled then r
      else (let r1 = r\<lparr>bw_total_iters := bw_total_iters r + 1\<rparr>; (alg, bus, factor) = bw in
        if bw_total_iters r1 \<le> warmup then r1
        else r1\<lparr>bw_sum_alg := rnd (bw_sum_alg r1 + alg), bw_sum_bus := rnd (bw_sum_bus r1 + bus),
                bw_sum_factor := rnd (bw_sum_factor r1 + factor), bw_count := bw_count r1 + 1\<rparr>))"

definition PrintAvgBw :: "(real \<Rightarrow> real) \<Rightarrow> bool \<Rightarrow> bw_record \<Rightarrow> (real \<times> real \<times> real) option" where
  "PrintAvgBw rnd enabled r =
     (if \<not> enabled \<or> bw_count r = 0 then None
      else Some (rnd (bw_sum_alg r / real_of_int (bw_count r)), rnd (bw_sum_bus r / real_of_int (bw_count r)),
                 rnd (bw_sum_factor r / real_of_int (bw_count r))))"

section \<open>Preparing a collective\<close>

record launch =
  la_alpha :: real
  la_plan :: plan
  la_cache_hit :: bool

record launch_env =
  le_rnd :: "real \<Rightarrow> real"
  le_ctl :: ctl_env
  le_share :: "64 word \<Rightarrow> real \<Rightarrow> 64 word"
  le_plan :: plan_settings
  le_static_alpha :: real
  le_feedback :: bool

definition static_launch :: "launch_env \<Rightarrow> op_key \<Rightarrow> bool \<Rightarrow> launch" where
  "static_launch env key hit =
     \<lparr>la_alpha = le_static_alpha env, la_plan = CreatePlan (le_share env) (le_plan env)
        (word_of_nat (ok_bytes key)) (le_static_alpha env) (ps_pcie_enabled (le_plan env)), la_cache_hit = hit\<rparr>"

definition suggest_launch ::
  "launch_env \<Rightarrow> op_key \<Rightarrow> bool \<Rightarrow> param_value key_table \<Rightarrow> controller \<Rightarrow> launch \<times> controller" where
  "suggest_launch env key hit cache c =
     (let param = Lookup key cache; (alpha, c') = SuggestAlpha (le_rnd env) (le_ctl env) key cache c
      in (\<lparr>la_alpha = alpha, la_plan = CreatePlan (le_share env) (le_plan env) (word_of_nat (ok_bytes key))
             alpha (pv_use_pcie param), la_cache_hit = hit\<rparr>, c'))"

text \<open>
  \<^verbatim>\<open>PrepareCollectiveLaunch\<close> of a domain with a controller; \<open>sync_round\<close> is what
  \<^verbatim>\<open>ShmRoundBegin\<close> and the barrier do to the cache and the controller.
\<close>

definition PrepareCollectiveLaunch ::
  "launch_env \<Rightarrow> (param_value key_table \<times> controller \<Rightarrow> param_value key_table \<times> controller) \<Rightarrow> op_key \<Rightarrow>
   (param_value key_table \<times> controller) option \<Rightarrow> launch \<times> (param_value key_table \<times> controller) option" where
  "PrepareCollectiveLaunch env sync_round key domain =
     (case domain of
        None \<Rightarrow> (static_launch env key False, None)
      | Some (cache, c) \<Rightarrow>
          (let hit = Contains key cache in
           if \<not> le_feedback env then (static_launch env key hit, Some (cache, c))
           else (let (cache1, c1) = sync_round (cache, c); (la, c2) = suggest_launch env key hit cache1 c1
                 in (la, Some (cache1, c2)))))"

end
