(* ===== verification/ShmRound.thy ===== *)
theory ShmRound
  imports ShmStore
begin

text \<open>
  The round every rank of a communicator goes through before a collective
  (\<^verbatim>\<open>PrepareCollectiveLaunch\<close> and \<^verbatim>\<open>ShmRoundBegin\<close> of \<^verbatim>\<open>core/virtual_collective.h\<close>,
  the synchronising operations of \<^verbatim>\<open>core/shm_store.cc\<close>), as an interleaving of the ranks'
  single accesses to the segment. A key and its value are written and read in separate steps.
\<close>

section \<open>State\<close>

datatype shm_pc =
    AtLaunch                 \<comment> \<open>outside a round\<close>
  | WaitConsumed             \<comment> \<open>rank 0 in \<^verbatim>\<open>WaitUntilParamConsumed\<close>\<close>
  | Aggregate
  | WriteKey op_key          \<comment> \<open>rank 0 in \<^verbatim>\<open>WriteParams\<close>\<close>
  | WriteVal op_key
  | WriteNum
  | WriteVersion
  | SignalWritten
  | WaitWritten              \<comment> \<open>the other ranks in \<^verbatim>\<open>ReadParams\<close>\<close>
  | ReadVersion nat
  | ReadNum nat size_t
  | ReadKey nat size_t nat "(op_key \<times> param_value) list"
  | ReadVal nat size_t nat "(op_key \<times> param_value) list" op_key
  | ReadAgain nat size_t "(op_key \<times> param_value) list"
  | ConsumeParams
  | BarrierLoad
  | BarrierArrive "32 word"
  | BarrierReset "32 word"
  | BarrierFlip "32 word"
  | BarrierWait "32 word"
  | Suggest

record round_state =
  rs_mem :: shm_mem
  rs_pc :: "nat \<Rightarrow> shm_pc"
  rs_cache :: "nat \<Rightarrow> param_value key_table"
  rs_ctl :: "nat \<Rightarrow> controller"
  rs_launches :: "nat \<Rightarrow> plan list"     \<comment> \<open>the plans each rank has launched\<close>

definition goto :: "nat \<Rightarrow> shm_pc \<Rightarrow> round_state \<Rightarrow> round_state" where
  "goto i pc s = s\<lparr>rs_pc := (rs_pc s)(i := pc)\<rparr>"

section \<open>The accesses\<close>

definition kMaxConsistentReadRetries :: nat where
  "kMaxConsistentReadRetries = 2000"

text \<open>\<^verbatim>\<open>SignalParamWritten\<close>: the ranks that have to read.\<close>

definition signal_count :: "nat \<Rightarrow> 32 word" where
  "signal_count n = (if 1 < n then word_of_nat (n - 1) else 0)"

definition set_entry_key :: "op_key \<Rightarrow> shm_mem \<Rightarrow> shm_mem" where
  "set_entry_key k mem = mem\<lparr>sh_entries := (sh_entries mem)[0 := (k, snd (sh_entries mem ! 0))]\<rparr>"

definition set_entry_val :: "param_value \<Rightarrow> shm_mem \<Rightarrow> shm_mem" where
  "set_entry_val v mem = mem\<lparr>sh_entries := (sh_entries mem)[0 := (fst (sh_entries mem ! 0), v)]\<rparr>"

definition entry_count :: "shm_mem \<Rightarrow> nat" where
  "entry_count mem = (if kMaxParamEntries < sh_num mem then kMaxParamEntries else sh_num mem)"

definition merge_snapshot :: "(op_key \<times> param_value) list \<Rightarrow> param_value key_table \<Rightarrow> param_value key_table" where
  "merge_snapshot snapshot cache = foldl (\<lambda>t (k, v). MergeOne k v t) cache snapshot"

text \<open>Where the first step of the round leads: rank 0 writes, the others wait to read.\<close>

definition round_begin :: "nat \<Rightarrow> shm_pc" where
  "round_begin i = (if i = 0 then WaitConsumed else WaitWritten)"

definition after_read :: "nat \<Rightarrow> shm_pc" where
  "after_read i = (if i = 0 then BarrierLoad else ConsumeParams)"

section \<open>Steps\<close>

text \<open>
  \<open>keys k\<close> is the operation of the \<open>k\<close>-th collective, the same on every rank, as collectives
  demand. What rank 0 reads from the slots of the others may be any slots.
\<close>

inductive shm_step :: "launch_env \<Rightarrow> nat \<Rightarrow> (nat \<Rightarrow> op_key) \<Rightarrow> round_state \<Rightarrow> round_state \<Rightarrow> bool"
  for env :: launch_env and n :: nat and keys :: "nat \<Rightarrow> op_key" where
  shm_begin: "i < n \<Longrightarrow> rs_pc s i = AtLaunch \<Longrightarrow> shm_step env n keys s (goto i (round_begin i) s)"
| shm_consumed: "i < n \<Longrightarrow> rs_pc s i = WaitConsumed \<Longrightarrow> sh_read_count (rs_mem s) = 0 \<Longrightarrow>
    shm_step env n keys s (goto i Aggregate s)"
| shm_no_stats: "i < n \<Longrightarrow> rs_pc s i = Aggregate \<Longrightarrow> shm_step env n keys s (goto i SignalWritten s)"
| shm_aggregate: "i < n \<Longrightarrow> rs_pc s i = Aggregate \<Longrightarrow> aggregate_slots slots = (stat, key) \<Longrightarrow>
    ctl_Update (le_rnd env) (le_ctl env) key stat (rs_ctl s i, rs_cache s i) = (c', cache') \<Longrightarrow>
    shm_step env n keys s (goto i (WriteKey key)
      (s\<lparr>rs_ctl := (rs_ctl s)(i := c'), rs_cache := (rs_cache s)(i := cache')\<rparr>))"
| shm_write_key: "i < n \<Longrightarrow> rs_pc s i = WriteKey key \<Longrightarrow>
    shm_step env n keys s (goto i (WriteVal key) (s\<lparr>rs_mem := set_entry_key key (rs_mem s)\<rparr>))"
| shm_write_val: "i < n \<Longrightarrow> rs_pc s i = WriteVal key \<Longrightarrow>
    shm_step env n keys s (goto i WriteNum (s\<lparr>rs_mem := set_entry_val (Lookup key (rs_cache s i)) (rs_mem s)\<rparr>))"
| shm_write_num: "i < n \<Longrightarrow> rs_pc s i = WriteNum \<Longrightarrow>
    shm_step env n keys s (goto i WriteVersion (s\<lparr>rs_mem := (rs_mem s)\<lparr>sh_num := 1\<rparr>\<rparr>))"
| shm_write_version: "i < n \<Longrightarrow> rs_pc s i = WriteVersion \<Longrightarrow>
    shm_step env n keys s (goto i SignalWritten
      (s\<lparr>rs_mem := (rs_mem s)\<lparr>sh_version := add64 (sh_version (rs_mem s)) 1\<rparr>\<rparr>))"
| shm_signal: "i < n \<Longrightarrow> rs_pc s i = SignalWritten \<Longrightarrow>
    shm_step env n keys s (goto i (ReadVersion 0) (s\<lparr>rs_mem := (rs_mem s)\<lparr>sh_read_count := signal_count n\<rparr>\<rparr>))"
| shm_written: "i < n \<Longrightarrow> rs_pc s i = WaitWritten \<Longrightarrow> sh_read_count (rs_mem s) \<noteq> 0 \<Longrightarrow>
    shm_step env n keys s (goto i (ReadVersion 0) s)"
| shm_read_version: "i < n \<Longrightarrow> rs_pc s i = ReadVersion r \<Longrightarrow>
    shm_step env n keys s (goto i (ReadNum r (sh_version (rs_mem s))) s)"
| shm_read_num: "i < n \<Longrightarrow> rs_pc s i = ReadNum r v \<Longrightarrow>
    shm_step env n keys s (goto i (ReadKey r v (entry_count (rs_mem s)) []) s)"
| shm_read_key: "i < n \<Longrightarrow> rs_pc s i = ReadKey r v m acc \<Longrightarrow> length acc < m \<Longrightarrow>
    shm_step env n keys s (goto i (ReadVal r v m acc (fst (sh_entries (rs_mem s) ! length acc))) s)"
| shm_read_val: "i < n \<Longrightarrow> rs_pc s i = ReadVal r v m acc k \<Longrightarrow>
    shm_step env n keys s (goto i (ReadKey r v m (acc @ [(k, snd (sh_entries (rs_mem s) ! length acc))])) s)"
| shm_read_done: "i < n \<Longrightarrow> rs_pc s i = ReadKey r v m acc \<Longrightarrow> \<not> length acc < m \<Longrightarrow>
    shm_step env n keys s (goto i (ReadAgain r v acc) s)"
| shm_retry: "i < n \<Longrightarrow> rs_pc s i = ReadAgain r v snap \<Longrightarrow> sh_version (rs_mem s) \<noteq> v \<Longrightarrow>
    r + 1 < kMaxConsistentReadRetries \<Longrightarrow> shm_step env n keys s (goto i (ReadVersion (r + 1)) s)"
| shm_merge: "i < n \<Longrightarrow> rs_pc s i = ReadAgain r v snap \<Longrightarrow>
    sh_version (rs_mem s) = v \<or> \<not> r + 1 < kMaxConsistentReadRetries \<Longrightarrow>
    shm_step env n keys s (goto i (after_read i)
      (s\<lparr>rs_cache := (rs_cache s)(i := merge_snapshot snap (rs_cache s i))\<rparr>))"
| shm_consume: "i < n \<Longrightarrow> rs_pc s i = ConsumeParams \<Longrightarrow>
    shm_step env n keys s (goto i BarrierLoad
      (s\<lparr>rs_mem := (rs_mem s)\<lparr>sh_read_count := sh_read_count (rs_mem s) - 1\<rparr>\<rparr>))"
| shm_load: "i < n \<Longrightarrow> rs_pc s i = BarrierLoad \<Longrightarrow>
    shm_step env n keys s (goto i (BarrierArrive (1 - sh_barrier_sense (rs_mem s))) s)"
| shm_arrive: "i < n \<Longrightarrow> rs_pc s i = BarrierArrive my \<Longrightarrow>
    shm_step env n keys s (goto i
      (if sh_barrier_count (rs_mem s) + 1 = word_of_nat n then BarrierReset my else BarrierWait my)
      (s\<lparr>rs_mem := (rs_mem s)\<lparr>sh_barrier_count := sh_barrier_count (rs_mem s) + 1\<rparr>\<rparr>))"
| shm_reset: "i < n \<Longrightarrow> rs_pc s i = BarrierReset my \<Longrightarrow>
    shm_step env n keys s (goto i (BarrierFlip my) (s\<lparr>rs_mem := (rs_mem s)\<lparr>sh_barrier_count := 0\<rparr>\<rparr>))"
| shm_flip: "i < n \<Longrightarrow> rs_pc s i = BarrierFlip my \<Longrightarrow>
    shm_step env n keys s (goto i Suggest (s\<lparr>rs_mem := (rs_mem s)\<lparr>sh_barrier_sense := my\<rparr>\<rparr>))"
| shm_leave: "i < n \<Longrightarrow> rs_pc s i = BarrierWait my \<Longrightarrow> sh_barrier_sense (rs_mem s) = my \<Longrightarrow>
    shm_step env n keys s (goto i Suggest s)"
| shm_suggest: "i < n \<Longrightarrow> rs_pc s i = Suggest \<Longrightarrow>
    suggest_launch env (keys (length (rs_launches s i))) hit (rs_cache s i) (rs_ctl s i) = (la, c') \<Longrightarrow>
    shm_step env n keys s (goto i AtLaunch (s\<lparr>rs_ctl := (rs_ctl s)(i := c'),
      rs_launches := (rs_launches s)(i := rs_launches s i @ [la_plan la])\<rparr>))"

text \<open>
  The ranks start with fresh domains and an attached segment: new, or kept from an earlier
  run and reset.
\<close>

definition shm_start :: "launch_env \<Rightarrow> round_state \<Rightarrow> bool" where
  "shm_start env s \<longleftrightarrow> rs_pc s = (\<lambda>_. AtLaunch) \<and> rs_cache s = (\<lambda>_. []) \<and>
     (\<forall>i. ct_algorithms (rs_ctl s i) = []) \<and> rs_launches s = (\<lambda>_. []) \<and>
     (\<exists>n mem. rs_mem s = init_header n \<or> rs_mem s = reset_header n mem \<and>
        length (sh_entries mem) = kMaxParamEntries \<and> sh_num mem \<le> 1 \<and>
        (ce_algorithm (le_ctl env) = SPLIT_RATIO_CONTROL \<longrightarrow> 0 < pv_alpha (snd (sh_entries mem ! 0))))"

end
