(* ===== verification/ShmProtocol.thy ===== *)
theory ShmProtocol
  imports ShmRound
begin

text \<open>
  The protocol of the round: rank 0 writes only while no rank reads, every rank reads what
  rank 0 signalled exactly once, and nobody leaves the barrier before all have arrived.
\<close>

section \<open>How far a rank is in the round\<close>

text \<open>
  0: it has not seen the signal of this round; 1: it may read; 2: it has read; 3: it has
  arrived at the barrier; 4 and 5: it is the last one and releases the others.
\<close>

fun stage :: "32 word \<Rightarrow> shm_pc \<Rightarrow> nat" where
  "stage sense (ReadVersion r) = 1"
| "stage sense (ReadNum r v) = 1"
| "stage sense (ReadKey r v m acc) = 1"
| "stage sense (ReadVal r v m acc k) = 1"
| "stage sense (ReadAgain r v snap) = 1"
| "stage sense ConsumeParams = 1"
| "stage sense BarrierLoad = 2"
| "stage sense (BarrierArrive my) = 2"
| "stage sense (BarrierWait my) = (if my = sense then 0 else 3)"
| "stage sense (BarrierReset my) = 4"
| "stage sense (BarrierFlip my) = 5"
| "stage sense _ = 0"

fun role_ok :: "32 word \<Rightarrow> nat \<Rightarrow> shm_pc \<Rightarrow> bool" where
  "role_ok sense i WaitConsumed = (i = 0)"
| "role_ok sense i Aggregate = (i = 0)"
| "role_ok sense i (WriteKey k) = (i = 0)"
| "role_ok sense i (WriteVal k) = (i = 0)"
| "role_ok sense i WriteNum = (i = 0)"
| "role_ok sense i WriteVersion = (i = 0)"
| "role_ok sense i SignalWritten = (i = 0)"
| "role_ok sense i WaitWritten = (i \<noteq> 0)"
| "role_ok sense i ConsumeParams = (i \<noteq> 0)"
| "role_ok sense i (BarrierArrive my) = (my = 1 - sense)"
| "role_ok sense i (BarrierReset my) = (my = 1 - sense)"
| "role_ok sense i (BarrierFlip my) = (my = 1 - sense)"
| "role_ok sense i (BarrierWait my) = (my = sense \<or> my = 1 - sense)"
| "role_ok sense i _ = True"

definition at_stage :: "round_state \<Rightarrow> nat \<Rightarrow> nat" where
  "at_stage s i = stage (sh_barrier_sense (rs_mem s)) (rs_pc s i)"

definition unread :: "nat \<Rightarrow> round_state \<Rightarrow> nat set" where
  "unread n s = {i. 0 < i \<and> i < n \<and> at_stage s i < 2}"

definition arrived :: "nat \<Rightarrow> round_state \<Rightarrow> nat set" where
  "arrived n s = {i. i < n \<and> 3 \<le> at_stage s i}"

definition roles_ok :: "nat \<Rightarrow> round_state \<Rightarrow> bool" where
  "roles_ok n s \<longleftrightarrow> sh_barrier_sense (rs_mem s) \<in> {0, 1} \<and>
     (\<forall>i < n. role_ok (sh_barrier_sense (rs_mem s)) i (rs_pc s i)) \<and>
     (\<forall>i < n. 0 < at_stage s i \<longrightarrow> 0 < at_stage s 0) \<and>
     (\<forall>i < n. 4 \<le> at_stage s i \<longrightarrow> (\<forall>j < n. j \<noteq> i \<longrightarrow> at_stage s j = 3))"

definition counts_ok :: "nat \<Rightarrow> round_state \<Rightarrow> bool" where
  "counts_ok n s \<longleftrightarrow>
     sh_read_count (rs_mem s) = (if at_stage s 0 = 0 then 0 else word_of_nat (card (unread n s))) \<and>
     sh_barrier_count (rs_mem s) = (if \<exists>i < n. at_stage s i = 5 then 0 else word_of_nat (card (arrived n s)))"

definition prot_ok :: "nat \<Rightarrow> round_state \<Rightarrow> bool" where
  "prot_ok n s \<longleftrightarrow> roles_ok n s \<and> counts_ok n s"

section \<open>Moves that change no stage\<close>

lemma goto_sel [simp]:
  "rs_mem (goto i pc s) = rs_mem s" "rs_pc (goto i pc s) = (rs_pc s)(i := pc)"
  "rs_cache (goto i pc s) = rs_cache s" "rs_ctl (goto i pc s) = rs_ctl s"
  "rs_launches (goto i pc s) = rs_launches s"
  by (simp_all add: goto_def)

text \<open>The accesses to the entries leave the counters alone.\<close>

definition same_counters :: "shm_mem \<Rightarrow> shm_mem \<Rightarrow> bool" where
  "same_counters m m' \<longleftrightarrow> sh_read_count m' = sh_read_count m \<and> sh_barrier_count m' = sh_barrier_count m \<and>
     sh_barrier_sense m' = sh_barrier_sense m"

lemma same_counters_simps [simp]:
  "same_counters m m" "same_counters m (set_entry_key k m)" "same_counters m (set_entry_val v m)"
  "same_counters m (m\<lparr>sh_num := x\<rparr>)" "same_counters m (m\<lparr>sh_version := y\<rparr>)"
  by (simp_all add: same_counters_def set_entry_key_def set_entry_val_def)

lemma prot_move:
  assumes ok: "prot_ok n s" and i: "i < n" and m: "same_counters (rs_mem s) (rs_mem t)"
    and pc: "rs_pc t = (rs_pc s)(i := q)"
    and st: "stage (sh_barrier_sense (rs_mem s)) q = at_stage s i" and r: "role_ok (sh_barrier_sense (rs_mem s)) i q"
  shows "prot_ok n t"
proof -
  have a: "at_stage t j = at_stage s j" for j using m st by (simp add: at_stage_def pc same_counters_def)
  have r': "role_ok (sh_barrier_sense (rs_mem s)) j (rs_pc t j)" if "j < n" for j
    using ok that r by (simp add: prot_ok_def roles_ok_def pc)
  have "unread n t = unread n s" "arrived n t = arrived n s" by (simp_all add: unread_def arrived_def a)
  moreover have "roles_ok n t" using ok m r' unfolding prot_ok_def roles_ok_def a same_counters_def by metis
  moreover have "counts_ok n s" using ok by (simp add: prot_ok_def)
  ultimately show ?thesis using m unfolding prot_ok_def counts_ok_def a same_counters_def by metis
qed

section \<open>Moves to another stage\<close>

lemma finite_sets [simp]: "finite (unread n s)" "finite (arrived n s)"
  by (simp_all add: unread_def arrived_def)

lemma card_sub: "A \<subseteq> {..<n :: nat} \<Longrightarrow> card A \<le> n"
  using card_mono[of "{..<n}" A] by simp

lemma arrived_sub: "arrived n s \<subseteq> {..<n}" and unread_sub: "unread n s \<subseteq> {..<n}"
  by (auto simp: arrived_def unread_def)

lemma word_card_inj: "a < 2 ^ 32 \<Longrightarrow> b < 2 ^ 32 \<Longrightarrow> (word_of_nat a = (word_of_nat b :: 32 word)) = (a = b)"
  using of_nat_inverse[of a "word_of_nat b :: 32 word"] of_nat_inverse[of b "word_of_nat b :: 32 word"] by auto

lemma sense_neq: "x \<in> {0, 1} \<Longrightarrow> 1 - x \<noteq> (x :: 32 word)"
  by auto

text \<open>A state after rank \<open>i\<close> moved to stage \<open>b\<close>, the sense unchanged.\<close>

lemma moved_stages:
  assumes "rs_pc t = (rs_pc s)(i := q)" "sh_barrier_sense (rs_mem t) = sh_barrier_sense (rs_mem s)"
  shows "at_stage t j = (if j = i then stage (sh_barrier_sense (rs_mem s)) q else at_stage s j)"
  using assms by (simp add: at_stage_def)

lemma moved_roles:
  assumes ok: "roles_ok n s" and i: "i < n" and pc: "rs_pc t = (rs_pc s)(i := q)"
    and se: "sh_barrier_sense (rs_mem t) = sh_barrier_sense (rs_mem s)"
    and r: "role_ok (sh_barrier_sense (rs_mem s)) i q" and b: "stage (sh_barrier_sense (rs_mem s)) q = b"
    and sig: "0 < b \<Longrightarrow> i = 0 \<or> 0 < at_stage s 0" "b = 0 \<Longrightarrow> i \<noteq> 0"
    and fin: "4 \<le> b \<Longrightarrow> \<forall>j < n. j \<noteq> i \<longrightarrow> at_stage s j = 3"
    and fin': "\<And>j. j < n \<Longrightarrow> j \<noteq> i \<Longrightarrow> at_stage s j < 4"
  shows "roles_ok n t"
proof -
  note st = moved_stages[OF pc se, unfolded b]
  have r': "role_ok (sh_barrier_sense (rs_mem s)) j (rs_pc t j)" if "j < n" for j
    using ok that r by (simp add: roles_ok_def pc)
  have old: "0 < at_stage s j \<Longrightarrow> 0 < at_stage s 0" if "j < n" for j using ok that by (simp add: roles_ok_def)
  have s0: "0 < at_stage t 0" if "j < n" "0 < at_stage t j" for j
    using old[OF that(1)] that(2) sig unfolding st by (cases "j = i"; cases "i = 0") auto
  have f: "at_stage t k = 3" if "j < n" "4 \<le> at_stage t j" "k < n" "k \<noteq> j" for j k
  proof (cases "j = i")
    case True
    then show ?thesis using that fin unfolding st by simp
  next
    case False
    then show ?thesis using that fin'[of j] unfolding st by simp
  qed
  show ?thesis using ok r' s0 f unfolding roles_ok_def se by blast
qed

text \<open>While a rank has not arrived, no rank releases the barrier.\<close>

lemma none_last:
  assumes "roles_ok n s" "i < n" "at_stage s i < 3" "j < n"
  shows "at_stage s j < 4"
proof (rule ccontr)
  assume "\<not> at_stage s j < 4"
  then have "4 \<le> at_stage s j" by simp
  moreover from this have "i \<noteq> j" using assms(3) by auto
  ultimately have "at_stage s i = 3" using assms unfolding roles_ok_def by blast
  then show False using assms(3) by simp
qed

lemma prot_okD: "prot_ok n s \<Longrightarrow> roles_ok n s" "prot_ok n s \<Longrightarrow> counts_ok n s"
  by (simp_all add: prot_ok_def)

text \<open>The signal of rank 0, which finds nobody reading.\<close>

lemma prot_signal:
  assumes ok: "prot_ok n s" and n: "1 < n" and pc: "rs_pc s 0 = SignalWritten"
    and t: "rs_pc t = (rs_pc s)(0 := ReadVersion 0)" "rs_mem t = (rs_mem s)\<lparr>sh_read_count := signal_count n\<rparr>"
  shows "prot_ok n t"
proof -
  have z0: "at_stage s 0 = 0" using pc by (simp add: at_stage_def)
  have z: "at_stage s j = 0" if "j < n" for j
    using prot_okD(1)[OF ok] that z0 unfolding roles_ok_def by (metis less_nat_zero_code not_gr_zero)
  have se: "sh_barrier_sense (rs_mem t) = sh_barrier_sense (rs_mem s)" by (simp add: t)
  note st = moved_stages[OF t(1) se, simplified]
  have r: "roles_ok n t"
    by (rule moved_roles[OF prot_okD(1)[OF ok] _ t(1) se _ refl]) (use n z in auto)
  have u: "unread n t = {0<..<n}" using z by (auto simp: unread_def st)
  have a: "arrived n t = {}" "arrived n s = {}" using z by (auto simp: arrived_def st)
  have "at_stage t i \<noteq> 5" if "i < n" for i using z[OF that] by (simp add: st)
  moreover have "sh_barrier_count (rs_mem t) = 0"
    using prot_okD(2)[OF ok] z a by (auto simp: counts_ok_def t)
  ultimately have "counts_ok n t" using n unfolding counts_ok_def u a by (simp add: t(2) signal_count_def st)
  then show ?thesis using r by (simp add: prot_ok_def)
qed

text \<open>A rank that sees the signal: rank 0 has given it.\<close>

lemma prot_written:
  assumes ok: "prot_ok n s" and i: "i < n" and pc: "rs_pc s i = WaitWritten" and c: "sh_read_count (rs_mem s) \<noteq> 0"
    and t: "rs_pc t = (rs_pc s)(i := ReadVersion 0)" "rs_mem t = rs_mem s"
  shows "prot_ok n t"
proof -
  have z: "at_stage s i = 0" using pc by (simp add: at_stage_def)
  have i0: "i \<noteq> 0" using prot_okD(1)[OF ok] i pc unfolding roles_ok_def by (metis role_ok.simps(8))
  have s0: "0 < at_stage s 0" using prot_okD(2)[OF ok] c by (cases "at_stage s 0 = 0") (simp_all add: counts_ok_def)
  have se: "sh_barrier_sense (rs_mem t) = sh_barrier_sense (rs_mem s)" by (simp add: t)
  note st = moved_stages[OF t(1) se, simplified]
  have r: "roles_ok n t"
    by (rule moved_roles[OF prot_okD(1)[OF ok] i t(1) se _ refl]) (use none_last[OF prot_okD(1)[OF ok] i] z s0 in auto)
  have "unread n t = unread n s" "arrived n t = arrived n s" using z by (auto simp: unread_def arrived_def st)
  moreover have "(\<exists>j < n. at_stage t j = 5) = (\<exists>j < n. at_stage s j = 5)" using z unfolding st by force
  moreover have "at_stage t 0 = at_stage s 0" using i0 by (simp add: st)
  ultimately have "counts_ok n t" using prot_okD(2)[OF ok] unfolding counts_ok_def t(2) by presburger
  then show ?thesis using r by (simp add: prot_ok_def)
qed

lemma read_once:
  assumes ok: "prot_ok n s" and i: "i < n" and z: "at_stage s i = 1"
    and t: "rs_pc t = (rs_pc s)(i := BarrierLoad)" "sh_barrier_sense (rs_mem t) = sh_barrier_sense (rs_mem s)"
  shows "roles_ok n t" "arrived n t = arrived n s" "unread n t = unread n s - {i}"
    "(\<exists>j < n. at_stage t j = 5) = (\<exists>j < n. at_stage s j = 5)" "at_stage t 0 > 0" "at_stage s 0 > 0"
proof -
  note st = moved_stages[OF t, simplified]
  show s0: "0 < at_stage s 0" using prot_okD(1)[OF ok] i z unfolding roles_ok_def by (metis zero_less_one)
  show "roles_ok n t"
    by (rule moved_roles[OF prot_okD(1)[OF ok] i t _ refl]) (use none_last[OF prot_okD(1)[OF ok] i] z s0 in auto)
  show "arrived n t = arrived n s" using z by (auto simp: arrived_def st)
  show "unread n t = unread n s - {i}" by (auto simp: unread_def st)
  show "(\<exists>j < n. at_stage t j = 5) = (\<exists>j < n. at_stage s j = 5)" using z unfolding st by force
  show "at_stage t 0 > 0" using s0 by (simp add: st)
qed

lemma prot_read0:
  assumes ok: "prot_ok n s" and n: "0 < n" and z: "at_stage s 0 = 1"
    and t: "rs_pc t = (rs_pc s)(0 := BarrierLoad)" "rs_mem t = rs_mem s"
  shows "prot_ok n t"
proof -
  have se: "sh_barrier_sense (rs_mem t) = sh_barrier_sense (rs_mem s)" by (simp add: t)
  note R = read_once[OF ok n z t(1) se]
  have "unread n t = unread n s" unfolding R(3) by (auto simp: unread_def)
  moreover have "(at_stage t 0 = 0) = (at_stage s 0 = 0)" using R(5,6) by simp
  ultimately have "counts_ok n t" using prot_okD(2)[OF ok] unfolding counts_ok_def R(2) R(4) t(2) by presburger
  then show ?thesis using R(1) by (simp add: prot_ok_def)
qed

lemma prot_consume:
  assumes ok: "prot_ok n s" and i: "i < n" and pc: "rs_pc s i = ConsumeParams" and n: "n < 2 ^ 32"
    and t: "rs_pc t = (rs_pc s)(i := BarrierLoad)"
      "rs_mem t = (rs_mem s)\<lparr>sh_read_count := sh_read_count (rs_mem s) - 1\<rparr>"
  shows "prot_ok n t"
proof -
  have se: "sh_barrier_sense (rs_mem t) = sh_barrier_sense (rs_mem s)" by (simp add: t)
  have z: "at_stage s i = 1" using pc by (simp add: at_stage_def)
  note R = read_once[OF ok i z t(1) se]
  have i0: "i \<noteq> 0" using prot_okD(1)[OF ok] i pc unfolding roles_ok_def by (metis role_ok.simps(9))
  have m: "i \<in> unread n s" using i0 i z by (simp add: unread_def)
  have c: "card (unread n s) = Suc (card (unread n t))" unfolding R(3) using m card_Suc_Diff1[of "unread n s" i] by simp
  have C: "sh_read_count (rs_mem s) = word_of_nat (card (unread n s))"
    "sh_barrier_count (rs_mem s) = (if \<exists>j < n. at_stage s j = 5 then 0 else word_of_nat (card (arrived n s)))"
    using prot_okD(2)[OF ok] R(6) by (simp_all add: counts_ok_def)
  have "sh_read_count (rs_mem t) = word_of_nat (card (unread n t))" using C(1) by (simp add: t(2) c)
  moreover have "sh_barrier_count (rs_mem t) = (if \<exists>j < n. at_stage t j = 5 then 0 else word_of_nat (card (arrived n t)))"
    using C(2) unfolding R(2,4) by (simp only: t(2)) simp
  ultimately have "counts_ok n t" using R(5) by (simp add: counts_ok_def)
  then show ?thesis using R(1) by (simp add: prot_ok_def)
qed

section \<open>The barrier\<close>

lemma all_arrived:
  assumes "card (arrived n s) = n" "j < n"
  shows "3 \<le> at_stage s j"
proof -
  have "arrived n s = {..<n}" using card_subset_eq[OF _ arrived_sub, of n s] assms(1) by simp
  then have "j \<in> arrived n s" using assms(2) by simp
  then show ?thesis by (simp add: arrived_def)
qed

lemma prot_arrive:
  assumes ok: "prot_ok n s" and i: "i < n" and pc: "rs_pc s i = BarrierArrive my" and n: "n < 2 ^ 32"
    and t: "rs_pc t = (rs_pc s)(i := (if sh_barrier_count (rs_mem s) + 1 = word_of_nat n then BarrierReset my else BarrierWait my))"
      "rs_mem t = (rs_mem s)\<lparr>sh_barrier_count := sh_barrier_count (rs_mem s) + 1\<rparr>"
  shows "prot_ok n t"
proof -
  let ?last = "sh_barrier_count (rs_mem s) + 1 = word_of_nat n"
  let ?sense = "sh_barrier_sense (rs_mem s)"
  have se: "sh_barrier_sense (rs_mem t) = ?sense" by (simp add: t)
  have z: "at_stage s i = 2" using pc by (simp add: at_stage_def)
  have R: "role_ok ?sense i (rs_pc s i)" "?sense \<in> {0, 1}" "0 < at_stage s 0"
    using prot_okD(1)[OF ok] i z unfolding roles_ok_def by auto
  have my: "my = 1 - ?sense" "my \<noteq> ?sense" using R(1) sense_neq[OF R(2)] by (simp_all add: pc)
  have l3: "at_stage s j < 4" if "j < n" for j using none_last[OF prot_okD(1)[OF ok] i _ that] z by simp
  have no5: "\<not> (\<exists>j < n. at_stage s j = 5)" using l3 by fastforce
  have C: "sh_read_count (rs_mem s) = word_of_nat (card (unread n s))" "sh_barrier_count (rs_mem s) = word_of_nat (card (arrived n s))"
    using prot_okD(2)[OF ok] R(3) no5 by (simp_all add: counts_ok_def)
  have sub: "arrived n s \<subseteq> {..<n} - {i}" using arrived_sub[of n s] z by (auto simp: arrived_def)
  then have lt: "card (arrived n s) < n"
    using card_mono[OF _ sub] i by simp
  have last: "?last = (card (arrived n s) + 1 = n)"
    unfolding C(2) using word_card_inj[of "card (arrived n s) + 1" n] lt n by (simp add: add.commute)
  have s': "stage ?sense (if ?last then BarrierReset my else BarrierWait my) = (if ?last then 4 else 3)"
    using my(2) by simp
  note st = moved_stages[OF t(1) se, unfolded s']
  have oth: "\<forall>j < n. j \<noteq> i \<longrightarrow> at_stage s j = 3" if "?last"
  proof (intro allI impI)
    fix j assume j: "j < n" "j \<noteq> i"
    have "arrived n s = {..<n} - {i}" using card_subset_eq[OF _ sub] that last i by simp
    then have "j \<in> arrived n s" using j by simp
    then show "at_stage s j = 3" using l3[OF j(1)] by (simp add: arrived_def)
  qed
  have r: "roles_ok n t"
  proof (rule moved_roles[OF prot_okD(1)[OF ok] i t(1) se _ s'])
    show "role_ok ?sense i (if ?last then BarrierReset my else BarrierWait my)" using my(1) by simp
    show "\<forall>j < n. j \<noteq> i \<longrightarrow> at_stage s j = 3" if "4 \<le> (if ?last then 4 else 3 :: nat)"
      using that oth by (cases ?last) simp_all
  qed (use R(3) l3 in \<open>auto split: if_splits\<close>)
  have a: "arrived n t = insert i (arrived n s)" using i by (auto simp: arrived_def st)
  have u: "unread n t = unread n s" using z by (auto simp: unread_def st)
  have ni: "i \<notin> arrived n s" using z by (simp add: arrived_def)
  have five: "at_stage t j \<noteq> 5" if "j < n" for j using l3[OF that] by (simp add: st)
  have "at_stage t 0 \<noteq> 0" using R(3) by (simp add: st)
  moreover have "sh_barrier_count (rs_mem t) = word_of_nat (card (arrived n t))"
    unfolding a using ni C(2) by (simp add: t(2))
  moreover have "sh_read_count (rs_mem t) = word_of_nat (card (unread n t))" using C(1) u by (simp add: t(2))
  moreover have "(\<exists>j < n. at_stage t j = 5) = False" using five by blast
  ultimately have "counts_ok n t" by (simp only: counts_ok_def if_False simp_thms)
  then show ?thesis using r by (simp add: prot_ok_def)
qed

lemma prot_reset:
  assumes ok: "prot_ok n s" and i: "i < n" and pc: "rs_pc s i = BarrierReset my"
    and t: "rs_pc t = (rs_pc s)(i := BarrierFlip my)" "rs_mem t = (rs_mem s)\<lparr>sh_barrier_count := 0\<rparr>"
  shows "prot_ok n t"
proof -
  have se: "sh_barrier_sense (rs_mem t) = sh_barrier_sense (rs_mem s)" by (simp add: t)
  have z: "at_stage s i = 4" using pc by (simp add: at_stage_def)
  note st = moved_stages[OF t(1) se, simplified]
  have s0: "0 < at_stage s 0" using prot_okD(1)[OF ok] i z unfolding roles_ok_def by (metis zero_less_numeral)
  have o3: "at_stage s j = 3" if "j < n" "j \<noteq> i" for j
    using prot_okD(1)[OF ok] i z that unfolding roles_ok_def by (metis order_refl)
  have rl: "role_ok (sh_barrier_sense (rs_mem s)) i (rs_pc s i)"
    using prot_okD(1)[OF ok] i by (simp add: roles_ok_def)
  have r: "roles_ok n t"
    by (rule moved_roles[OF prot_okD(1)[OF ok] i t(1) se _ refl]) (use o3 s0 rl in \<open>auto simp: pc\<close>)
  have u: "unread n t = unread n s" using z by (auto simp: unread_def st)
  have ex: "\<exists>j < n. at_stage t j = 5" using i by (intro exI[of _ i]) (simp add: st)
  have t0: "(at_stage t 0 = 0) = (at_stage s 0 = 0)" using s0 by (simp add: st)
  have "sh_read_count (rs_mem t) = (if at_stage t 0 = 0 then 0 else word_of_nat (card (unread n t)))"
    using prot_okD(2)[OF ok] unfolding counts_ok_def u t0 by (simp add: t(2))
  then have "counts_ok n t" using ex by (simp add: counts_ok_def t(2))
  then show ?thesis using r by (simp add: prot_ok_def)
qed

text \<open>The release: every rank has arrived and read.\<close>

lemma flip_all_arrived:
  assumes ok: "prot_ok n s" and i: "i < n" and pc: "rs_pc s i = BarrierFlip my" and j: "j < n"
  shows "my = 1 - sh_barrier_sense (rs_mem s)" "sh_barrier_sense (rs_mem s) \<in> {0, 1}"
    "j \<noteq> i \<Longrightarrow> rs_pc s j = BarrierWait my" "3 \<le> at_stage s j"
proof -
  let ?sense = "sh_barrier_sense (rs_mem s)"
  have z: "at_stage s i = 5" using pc by (simp add: at_stage_def)
  have R: "role_ok ?sense k (rs_pc s k)" if "k < n" for k using prot_okD(1)[OF ok] that by (simp add: roles_ok_def)
  show my: "my = 1 - ?sense" and "?sense \<in> {0, 1}" using R[OF i] prot_okD(1)[OF ok] by (simp_all add: pc roles_ok_def)
  have o3: "at_stage s j = 3" if "j \<noteq> i"
    using prot_okD(1)[OF ok] i j z that unfolding roles_ok_def
    by (metis numeral_le_iff semiring_norm(68) semiring_norm(71) semiring_norm(72) semiring_norm(69) semiring_norm(70))
  show "rs_pc s j = BarrierWait my" if "j \<noteq> i"
    using o3[OF that] R[OF j] my unfolding at_stage_def
    by (cases "rs_pc s j") (simp_all split: if_splits)
  show "3 \<le> at_stage s j" using o3 z by (cases "j = i") simp_all
qed

lemma prot_flip:
  assumes ok: "prot_ok n s" and i: "i < n" and pc: "rs_pc s i = BarrierFlip my"
    and t: "rs_pc t = (rs_pc s)(i := Suggest)" "rs_mem t = (rs_mem s)\<lparr>sh_barrier_sense := my\<rparr>"
  shows "prot_ok n t"
proof -
  note F = flip_all_arrived[OF ok i pc]
  have my: "my \<in> {0, 1}" using F(1,2)[OF i] by auto
  have p: "rs_pc t j = (if j = i then Suggest else BarrierWait my)" if "j < n" for j
    using F(3)[OF that] by (simp add: t)
  have st: "at_stage t j = 0" if "j < n" for j using p[OF that] by (simp add: at_stage_def t(2))
  have r: "roles_ok n t"
  proof -
    have "role_ok my j (rs_pc t j)" if "j < n" for j using p[OF that] by simp
    then show ?thesis using st my by (simp add: roles_ok_def t(2))
  qed
  have u: "unread n s = {}" using F(4) by (fastforce simp: unread_def)
  have a: "arrived n t = {}" using st by (auto simp: arrived_def)
  have s0: "at_stage s 0 \<noteq> 0" "0 < n" using F(4)[of 0] i by auto
  have "sh_read_count (rs_mem s) = 0" using prot_okD(2)[OF ok] s0 by (simp add: counts_ok_def u)
  moreover have "\<exists>j < n. at_stage s j = 5" using i pc by (intro exI[of _ i]) (simp add: at_stage_def)
  then have "sh_barrier_count (rs_mem s) = 0" using prot_okD(2)[OF ok] unfolding counts_ok_def by simp
  ultimately have "counts_ok n t" using st s0 a by (simp add: counts_ok_def t(2))
  then show ?thesis using r by (simp add: prot_ok_def)
qed

section \<open>Every step\<close>

lemma prot_step:
  assumes step: "shm_step env n keys s t" and ok: "prot_ok n s" and n: "1 < n" "n < 2 ^ 32"
  shows "prot_ok n t"
proof -
  have role: "role_ok (sh_barrier_sense (rs_mem s)) i (rs_pc s i)" if "i < n" for i
    using ok that by (simp add: prot_ok_def roles_ok_def)
  have sense: "sh_barrier_sense (rs_mem s) \<in> {0, 1}" using ok by (simp add: prot_ok_def roles_ok_def)
  from step show ?thesis
  proof cases
    case (shm_begin i)
    then show ?thesis by (intro prot_move[OF ok, of i t "round_begin i"]) (simp_all add: at_stage_def round_begin_def)
  next
    case (shm_consumed i)
    then show ?thesis using role[of i] by (intro prot_move[OF ok, of i t Aggregate]) (simp_all add: at_stage_def)
  next
    case (shm_no_stats i)
    then show ?thesis using role[of i] by (intro prot_move[OF ok, of i t SignalWritten]) (simp_all add: at_stage_def)
  next
    case (shm_aggregate i slots stat key)
    then show ?thesis using role[of i] by (intro prot_move[OF ok, of i t "WriteKey key"]) (simp_all add: at_stage_def)
  next
    case (shm_write_key i key)
    then show ?thesis using role[of i] by (intro prot_move[OF ok, of i t "WriteVal key"]) (simp_all add: at_stage_def)
  next
    case (shm_write_val i key)
    then show ?thesis using role[of i] by (intro prot_move[OF ok, of i t WriteNum]) (simp_all add: at_stage_def)
  next
    case (shm_write_num i)
    then show ?thesis using role[of i] by (intro prot_move[OF ok, of i t WriteVersion]) (simp_all add: at_stage_def)
  next
    case (shm_write_version i)
    then show ?thesis using role[of i] by (intro prot_move[OF ok, of i t SignalWritten]) (simp_all add: at_stage_def)
  next
    case (shm_signal i)
    then have "i = 0" using role[of i] by simp
    then show ?thesis using shm_signal by (intro prot_signal[OF ok n(1)]) simp_all
  next
    case (shm_written i)
    then show ?thesis by (intro prot_written[OF ok, of i]) simp_all
  next
    case (shm_read_version i r)
    then show ?thesis by (intro prot_move[OF ok, of i t "ReadNum r (sh_version (rs_mem s))"]) (simp_all add: at_stage_def)
  next
    case (shm_read_num i r v)
    then show ?thesis by (intro prot_move[OF ok, of i t "ReadKey r v (entry_count (rs_mem s)) []"]) (simp_all add: at_stage_def)
  next
    case (shm_read_key i r v m acc)
    then show ?thesis
      by (intro prot_move[OF ok, of i t "ReadVal r v m acc (fst (sh_entries (rs_mem s) ! length acc))"]) (simp_all add: at_stage_def)
  next
    case (shm_read_val i r v m acc k)
    then show ?thesis
      by (intro prot_move[OF ok, of i t "ReadKey r v m (acc @ [(k, snd (sh_entries (rs_mem s) ! length acc))])"]) (simp_all add: at_stage_def)
  next
    case (shm_read_done i r v m acc)
    then show ?thesis by (intro prot_move[OF ok, of i t "ReadAgain r v acc"]) (simp_all add: at_stage_def)
  next
    case (shm_retry i r v snap)
    then show ?thesis by (intro prot_move[OF ok, of i t "ReadVersion (r + 1)"]) (simp_all add: at_stage_def)
  next
    case (shm_merge i r v snap)
    show ?thesis
    proof (cases "i = 0")
      case True
      then show ?thesis using shm_merge by (intro prot_read0[OF ok]) (simp_all add: at_stage_def after_read_def)
    next
      case False
      then show ?thesis using shm_merge
        by (intro prot_move[OF ok, of i t ConsumeParams]) (simp_all add: at_stage_def after_read_def)
    qed
  next
    case (shm_consume i)
    then show ?thesis by (intro prot_consume[OF ok, of i]) (use n(2) in simp_all)
  next
    case (shm_load i)
    then show ?thesis
      by (intro prot_move[OF ok, of i t "BarrierArrive (1 - sh_barrier_sense (rs_mem s))"]) (simp_all add: at_stage_def)
  next
    case (shm_arrive i my)
    then show ?thesis by (intro prot_arrive[OF ok, of i my]) (use n(2) in simp_all)
  next
    case (shm_reset i my)
    then show ?thesis by (intro prot_reset[OF ok, of i my]) simp_all
  next
    case (shm_flip i my)
    then show ?thesis by (intro prot_flip[OF ok, of i my]) simp_all
  next
    case (shm_leave i my)
    then show ?thesis by (intro prot_move[OF ok, of i t Suggest]) (simp_all add: at_stage_def)
  next
    case (shm_suggest i hit la c')
    then show ?thesis by (intro prot_move[OF ok, of i t AtLaunch]) (simp_all add: at_stage_def)
  qed
qed

lemma prot_start: "shm_start env s \<Longrightarrow> prot_ok n s"
  by (auto simp: shm_start_def prot_ok_def roles_ok_def counts_ok_def at_stage_def init_header_def
    reset_header_def zero_mem_def arrived_def)

end
