(* ===== verification/ShmRoundProps.thy ===== *)
theory ShmRoundProps
  imports ShmProtocol ControllerProps
begin

text \<open>
  All ranks of a communicator launch the same plans: at every collective their caches agree,
  and what a controller suggests depends only on the cache.
\<close>

section \<open>A suggestion depends on the cached parameters only\<close>

type_synonym lookups = "op_key \<Rightarrow> param_value option"

text \<open>The split ratio takes over a cached share only when it is positive.\<close>

definition val_ok :: "ctl_env \<Rightarrow> param_value \<Rightarrow> bool" where
  "val_ok env v \<longleftrightarrow> (ce_algorithm env = SPLIT_RATIO_CONTROL \<longrightarrow> 0 < pv_alpha v)"

definition suggested :: "(real \<Rightarrow> real) \<Rightarrow> ctl_env \<Rightarrow> param_value option \<Rightarrow> real" where
  "suggested rnd env p = (case p of None \<Rightarrow> GetAlpha (Create rnd env 1)
     | Some v \<Rightarrow> (case ce_algorithm env of
          INVERSE_PROPORTION \<Rightarrow> min (rnd (39 / 100)) (max (rnd (1 / 1000)) (pv_alpha v))
        | SPLIT_RATIO_CONTROL \<Rightarrow> max (GetMinAlpha rnd env) (min (max_split_alpha rnd) (pv_alpha v))
        | STATIC \<Rightarrow> ce_static_alpha env))"

fun static_ok :: "ctl_env \<Rightarrow> algo \<Rightarrow> bool" where
  "static_ok env (StaticAlgo x) = (x = ce_static_alpha env)"
| "static_ok env a = True"

text \<open>An algorithm whose key has no cached parameters still has its initial share.\<close>

definition ctl_good :: "(real \<Rightarrow> real) \<Rightarrow> ctl_env \<Rightarrow> lookups \<Rightarrow> controller \<Rightarrow> bool" where
  "ctl_good rnd env tab c \<longleftrightarrow> algos_ok rnd env c \<and>
     (\<forall>k a. table_find (ct_algorithms c) k = Some a \<longrightarrow> static_ok env a \<and>
        (tab k = None \<longrightarrow> GetAlpha a = GetAlpha (Create rnd env 1)))"

definition tab_of :: "param_value key_table \<Rightarrow> lookups" where
  "tab_of cache = table_find cache"

definition upd_eq :: "op_key \<Rightarrow> param_value \<Rightarrow> lookups \<Rightarrow> lookups" where
  "upd_eq k v tab = (\<lambda>l. if op_key_eq k l then Some v else tab l)"

lemma tab_of_put [simp]: "tab_of (table_put k v cache) = upd_eq k v (tab_of cache)"
  by (simp add: fun_eq_iff tab_of_def upd_eq_def table_find_put)

lemma create_initial: "GetAlpha (Create rnd env m) = GetAlpha (Create rnd env 1)" "static_ok env (Create rnd env m)"
  by (simp_all add: Create_def new_inverse_def split: adaptive_algorithm.split)

lemma table_find_cong: "op_key_eq k l \<Longrightarrow> table_find t k = table_find t l"
proof (induction t)
  case Nil
  then show ?case by (simp add: table_find_def)
next
  case (Cons e t)
  have "op_key_eq (fst e) k = op_key_eq (fst e) l" using Cons.prems op_key_eq_equiv(2,3) by blast
  then show ?case using Cons by (simp add: table_find_def)
qed

lemma good_get_or_create:
  assumes "rounds rnd" "env_ok rnd env" "ctl_good rnd env tab c" "GetOrCreateAlgoLocked rnd env key c = (a, c')"
  shows "ctl_good rnd env tab c'" "algo_ok rnd env a" "static_ok env a"
    "tab key = None \<Longrightarrow> GetAlpha a = GetAlpha (Create rnd env 1)"
proof -
  have ok: "algo_ok rnd env a" "algos_ok rnd env c'"
    using get_or_create_ok[OF assms(1,2) _ assms(4)] assms(3) by (auto simp: ctl_good_def)
  then show "algo_ok rnd env a" by simp
  have "static_ok env a \<and> (tab key = None \<longrightarrow> GetAlpha a = GetAlpha (Create rnd env 1)) \<and>
    (\<forall>k b. table_find (ct_algorithms c') k = Some b \<longrightarrow> static_ok env b \<and>
        (tab k = None \<longrightarrow> GetAlpha b = GetAlpha (Create rnd env 1)))"
  proof (cases "table_find (ct_algorithms c) key")
    case None
    then have "a = Create rnd env (ct_nranks c)" "ct_algorithms c' = table_put key a (ct_algorithms c)"
      using assms(4) by (auto simp: GetOrCreateAlgoLocked_def Let_def)
    then show ?thesis using assms(3) create_initial
      by (auto simp: ctl_good_def table_find_put split: if_splits)
  next
    case (Some b)
    then have "a = b" "c' = c" using assms(4) by (simp_all add: GetOrCreateAlgoLocked_def)
    then show ?thesis using assms(3) Some by (auto simp: ctl_good_def)
  qed
  then show "ctl_good rnd env tab c'" "static_ok env a" "tab key = None \<Longrightarrow> GetAlpha a = GetAlpha (Create rnd env 1)"
    using ok by (simp_all add: ctl_good_def)
qed

lemma static_steps: "static_ok env a \<Longrightarrow> static_ok env (algo_Update rnd env stat a)"
  "static_ok env a \<Longrightarrow> static_ok env (snd (algo_Suggest rnd env p a))"
  by (cases a; simp)+

lemma good_set_algo:
  assumes "ctl_good rnd env tab c" "algo_ok rnd env a" "static_ok env a"
    "\<And>l. op_key_eq key l \<Longrightarrow> tab l \<noteq> None"
  shows "ctl_good rnd env tab (set_algo key a c)"
proof -
  have "tab k = None \<Longrightarrow> \<not> op_key_eq key k" for k using assms(4) by blast
  then show ?thesis using assms(1-3) set_algo_ok[of rnd env c a key]
    unfolding ctl_good_def by (auto simp: set_algo_def table_find_put)
qed

text \<open>A suggestion.\<close>

lemma suggest_depends:
  assumes r: "rounds rnd" "env_ok rnd env" and g: "ctl_good rnd env (tab_of cache) c"
    and v: "\<And>l v. tab_of cache l = Some v \<Longrightarrow> val_ok env v"
  shows "fst (SuggestAlpha rnd env key cache c) = suggested rnd env (tab_of cache key)"
    and "ctl_good rnd env (tab_of cache) (snd (SuggestAlpha rnd env key cache c))"
proof -
  obtain a c' where gc: "GetOrCreateAlgoLocked rnd env key c = (a, c')" by fastforce
  note G = good_get_or_create[OF r g gc]
  obtain x a' where s: "algo_Suggest rnd env (Lookup key cache) a = (x, a')" by fastforce
  have c: "Contains key cache = (tab_of cache key \<noteq> None)" by (simp add: Contains_def tab_of_def)
  have x: "x = suggested rnd env (tab_of cache key)" if k: "tab_of cache key = Some p" for p
  proof -
    have l: "Lookup key cache = p" using k by (simp add: Lookup_def tab_of_def)
    have vp: "val_ok env p" using v k by simp
    have "x = fst (algo_Suggest rnd env p a)" using s l by simp
    then show ?thesis using G(2,3) k vp
      by (cases a) (auto simp: suggested_def inverse_Suggest_def split_Suggest_def Let_def clamp_split_def val_ok_def)
  qed
  show "fst (SuggestAlpha rnd env key cache c) = suggested rnd env (tab_of cache key)"
  proof (cases "tab_of cache key")
    case None
    then show ?thesis using G(4) c by (simp add: SuggestAlpha_def gc suggested_def)
  next
    case (Some p)
    then show ?thesis using x[OF Some] c by (simp add: SuggestAlpha_def gc s)
  qed
  have a': "algo_ok rnd env a'" "static_ok env a'"
    using algo_steps_ok(2)[OF r G(2), of "Lookup key cache"] static_steps(2)[OF G(3), of rnd "Lookup key cache"]
    by (simp_all add: s)
  show "ctl_good rnd env (tab_of cache) (snd (SuggestAlpha rnd env key cache c))"
  proof (cases "tab_of cache key")
    case None
    then show ?thesis using G(1) c by (simp add: SuggestAlpha_def gc)
  next
    case (Some p)
    have "tab_of cache l \<noteq> None" if "op_key_eq key l" for l using Some table_find_cong[OF that, of cache] by (simp add: tab_of_def)
    then have "ctl_good rnd env (tab_of cache) (set_algo key a' c')" by (rule good_set_algo[OF G(1) a'])
    then show ?thesis using Some c by (simp add: SuggestAlpha_def gc s)
  qed
qed

text \<open>An update of rank 0, which changes the parameters of its key only.\<close>

lemma update_tab:
  assumes r: "rounds rnd" "env_ok rnd env" and low: "ce_algorithm env = SPLIT_RATIO_CONTROL \<Longrightarrow> 0 < GetMinAlpha rnd env"
    and g: "ctl_good rnd env (tab_of cache) c"
    and u: "ctl_Update rnd env key stat (c, cache) = (c2, cache2)"
  shows "\<exists>v. val_ok env v \<and> tab_of cache2 = upd_eq key v (tab_of cache) \<and> ctl_good rnd env (tab_of cache2) c2"
proof -
  obtain a c' where gc: "GetOrCreateAlgoLocked rnd env key c = (a, c')" by fastforce
  note G = good_get_or_create[OF r g gc]
  let ?a = "algo_Update rnd env stat a"
  have a: "algo_ok rnd env ?a" "static_ok env ?a" using algo_steps_ok(1)[OF r G(2)] static_steps(1)[OF G(3)] by simp_all
  obtain v where v: "cache2 = table_put key v cache" "pv_alpha v = GetAlpha ?a" "c2 = set_algo key ?a c'"
    using u by (auto simp: ctl_Update_def gc Let_def cache_Update_def)
  have "val_ok env v" using algo_ok_alpha[OF a(1)] low v(2)
    by (auto simp: val_ok_def in_bounds_def low_bound_def)
  moreover have t: "tab_of cache2 = upd_eq key v (tab_of cache)" by (simp add: v(1))
  moreover have "ctl_good rnd env (tab_of cache2) c2"
  proof -
    have "ctl_good rnd env (tab_of cache2) c'" using G(1) unfolding ctl_good_def t by (auto simp: upd_eq_def split: if_splits)
    then show ?thesis unfolding v(3) by (rule good_set_algo[OF _ a]) (simp add: t upd_eq_def)
  qed
  ultimately show ?thesis by blast
qed

end
