(* ===== verification/ShmAgreement.thy ===== *)
theory ShmAgreement
  imports ShmRoundProps
begin

text \<open>
  The contents of the caches through a round, and the agreement of the ranks on their plans.
\<close>

section \<open>What a cache holds at each point of the round\<close>

text \<open>
  \<open>tab\<close> is what every cache held when the round began; \<open>region mem tab\<close> is what it holds once
  the parameters of the segment are merged.
\<close>

definition entry0 :: "shm_mem \<Rightarrow> op_key \<times> param_value" where
  "entry0 mem = sh_entries mem ! 0"

definition region :: "shm_mem \<Rightarrow> lookups \<Rightarrow> lookups" where
  "region mem tab = (if sh_num mem = 0 then tab else upd_eq (fst (entry0 mem)) (snd (entry0 mem)) tab)"

definition reading :: "shm_mem \<Rightarrow> lookups \<Rightarrow> lookups \<Rightarrow> bool" where
  "reading mem tab c \<longleftrightarrow> c = tab \<or> c = region mem tab"

fun content_ok :: "shm_mem \<Rightarrow> lookups \<Rightarrow> lookups \<Rightarrow> shm_pc \<Rightarrow> bool" where
  "content_ok mem tab c (WriteKey k) = (\<exists>v. c = upd_eq k v tab)"
| "content_ok mem tab c (WriteVal k) = ((\<exists>v. c = upd_eq k v tab) \<and> fst (entry0 mem) = k)"
| "content_ok mem tab c WriteNum = (c = upd_eq (fst (entry0 mem)) (snd (entry0 mem)) tab)"
| "content_ok mem tab c WriteVersion = (c = region mem tab)"
| "content_ok mem tab c SignalWritten = reading mem tab c"
| "content_ok mem tab c (ReadVersion r) = reading mem tab c"
| "content_ok mem tab c (ReadNum r v) = (reading mem tab c \<and> v = sh_version mem)"
| "content_ok mem tab c (ReadKey r v m acc) = (reading mem tab c \<and> v = sh_version mem \<and> m = sh_num mem \<and>
     length acc \<le> m \<and> acc = take (length acc) (sh_entries mem))"
| "content_ok mem tab c (ReadVal r v m acc k) = (reading mem tab c \<and> v = sh_version mem \<and> m = sh_num mem \<and>
     length acc < m \<and> acc = take (length acc) (sh_entries mem) \<and> k = fst (sh_entries mem ! length acc))"
| "content_ok mem tab c (ReadAgain r v snap) = (reading mem tab c \<and> v = sh_version mem \<and>
     snap = take (sh_num mem) (sh_entries mem))"
| "content_ok mem tab c ConsumeParams = (c = region mem tab)"
| "content_ok mem tab c BarrierLoad = (c = region mem tab)"
| "content_ok mem tab c (BarrierArrive my) = (c = region mem tab)"
| "content_ok mem tab c (BarrierReset my) = (c = region mem tab)"
| "content_ok mem tab c (BarrierFlip my) = (c = region mem tab)"
| "content_ok mem tab c (BarrierWait my) = (c = (if my = sh_barrier_sense mem then tab else region mem tab))"
| "content_ok mem tab c _ = (c = tab)"

text \<open>A rank the barrier of the previous round has released, but whose launch is still to come.\<close>

fun released :: "32 word \<Rightarrow> shm_pc \<Rightarrow> bool" where
  "released sense Suggest = True"
| "released sense (BarrierWait my) = (my = sense)"
| "released sense _ = False"

definition plan_for :: "launch_env \<Rightarrow> lookups \<Rightarrow> op_key \<Rightarrow> plan" where
  "plan_for env tab key = CreatePlan (le_share env) (le_plan env) (word_of_nat (ok_bytes key))
     (suggested (le_rnd env) (le_ctl env) (tab key))
     (pv_use_pcie (case tab key of Some v \<Rightarrow> v | None \<Rightarrow> default_param))"

text \<open>What one rank has: its cache, its controller and its launches so far.\<close>

definition rank_ok :: "launch_env \<Rightarrow> nat \<Rightarrow> lookups \<Rightarrow> plan list \<Rightarrow> round_state \<Rightarrow> nat \<Rightarrow> bool" where
  "rank_ok env g tab plans s i \<longleftrightarrow>
     content_ok (rs_mem s) tab (tab_of (rs_cache s i)) (rs_pc s i) \<and>
     (\<forall>l v. tab_of (rs_cache s i) l = Some v \<longrightarrow> val_ok (le_ctl env) v) \<and>
     ctl_good (le_rnd env) (le_ctl env) (tab_of (rs_cache s i)) (rs_ctl s i) \<and>
     length (rs_launches s i) + (if released (sh_barrier_sense (rs_mem s)) (rs_pc s i) then 1 else 0) = g \<and>
     rs_launches s i = take (length (rs_launches s i)) plans"

text \<open>The parameters of the segment, except while rank 0 replaces them.\<close>

definition region_ok :: "launch_env \<Rightarrow> round_state \<Rightarrow> bool" where
  "region_ok env s \<longleftrightarrow> sh_num (rs_mem s) \<le> 1 \<and> length (sh_entries (rs_mem s)) = kMaxParamEntries \<and>
     (sh_num (rs_mem s) = 1 \<longrightarrow> val_ok (le_ctl env) (snd (entry0 (rs_mem s))))"

definition agree :: "launch_env \<Rightarrow> nat \<Rightarrow> (nat \<Rightarrow> op_key) \<Rightarrow> nat \<Rightarrow> lookups \<Rightarrow> plan list \<Rightarrow> round_state \<Rightarrow> bool" where
  "agree env n keys g tab plans s \<longleftrightarrow> (\<forall>i < n. rank_ok env g tab plans s i) \<and> region_ok env s \<and>
     length plans = g \<and> (0 < g \<longrightarrow> plans ! (g - 1) = plan_for env tab (keys (g - 1)))"

section \<open>Steps of one rank\<close>

definition others_same :: "nat \<Rightarrow> round_state \<Rightarrow> round_state \<Rightarrow> bool" where
  "others_same i s t \<longleftrightarrow> sh_barrier_sense (rs_mem t) = sh_barrier_sense (rs_mem s) \<and> (\<forall>j. j \<noteq> i \<longrightarrow> rs_pc t j = rs_pc s j \<and> rs_cache t j = rs_cache s j \<and>
     rs_ctl t j = rs_ctl s j \<and> rs_launches t j = rs_launches s j)"

lemma agree_rank:
  assumes a: "agree env n keys g tab plans s" and o: "others_same i s t"
    and c: "\<And>j. j < n \<Longrightarrow> j \<noteq> i \<Longrightarrow> content_ok (rs_mem s) tab (tab_of (rs_cache s j)) (rs_pc s j) \<Longrightarrow>
      content_ok (rs_mem t) tab (tab_of (rs_cache s j)) (rs_pc s j)"
    and i: "rank_ok env g tab plans t i" and r: "region_ok env t"
  shows "agree env n keys g tab plans t"
proof -
  have "rank_ok env g tab plans t j" if "j < n" for j
  proof (cases "j = i")
    case False
    then have "rank_ok env g tab plans s j" using a that by (simp add: agree_def)
    then show ?thesis using o c[OF that False] False by (simp add: rank_ok_def others_same_def)
  qed (simp add: i)
  then show ?thesis using a r by (simp add: agree_def)
qed

text \<open>The accesses that leave the parameters of the segment alone.\<close>

definition same_params :: "shm_mem \<Rightarrow> shm_mem \<Rightarrow> bool" where
  "same_params m m' \<longleftrightarrow> sh_num m' = sh_num m \<and> sh_entries m' = sh_entries m \<and> sh_version m' = sh_version m \<and>
     sh_barrier_sense m' = sh_barrier_sense m"

lemma content_same_params: "same_params m m' \<Longrightarrow> content_ok m' tab c pc = content_ok m tab c pc"
  by (cases pc) (simp_all add: same_params_def reading_def region_def entry0_def)

lemma region_same_params: "same_params (rs_mem s) (rs_mem t) \<Longrightarrow> region_ok env t = region_ok env s"
  by (simp add: same_params_def region_ok_def entry0_def)

text \<open>A rank that changes its position only.\<close>

lemma agree_move:
  assumes a: "agree env n keys g tab plans s" and i: "i < n" and m: "same_params (rs_mem s) (rs_mem t)"
    and t: "rs_pc t = (rs_pc s)(i := q)" "rs_cache t = rs_cache s" "rs_ctl t = rs_ctl s" "rs_launches t = rs_launches s"
    and c: "content_ok (rs_mem s) tab (tab_of (rs_cache s i)) q"
    and r: "released (sh_barrier_sense (rs_mem s)) q = released (sh_barrier_sense (rs_mem s)) (rs_pc s i)"
  shows "agree env n keys g tab plans t"
proof (rule agree_rank[OF a])
  have R: "rank_ok env g tab plans s i" "region_ok env s" using a i by (simp_all add: agree_def)
  show "others_same i s t" using m t by (simp add: others_same_def same_params_def)
  show "region_ok env t" using R(2) region_same_params[OF m] by simp
  have "sh_barrier_sense (rs_mem t) = sh_barrier_sense (rs_mem s)" using m by (simp add: same_params_def)
  then show "rank_ok env g tab plans t i"
    using R(1) c r content_same_params[OF m] by (simp add: rank_ok_def t)
qed (simp add: content_same_params[OF m])

text \<open>Rank 0 writing: nobody reads, so only its own position depends on the segment.\<close>

lemma content_before:
  assumes "stage (sh_barrier_sense m) pc = 0" "role_ok (sh_barrier_sense m) j pc" "j \<noteq> 0"
    "sh_barrier_sense m' = sh_barrier_sense m" "content_ok m tab c pc"
  shows "content_ok m' tab c pc"
  using assms by (cases pc) (simp_all split: if_splits)

lemma agree_write:
  assumes a: "agree env n keys g tab plans s" and p: "prot_ok n s" and n: "0 < n"
    and z: "at_stage s 0 = 0" "at_stage t 0 = 0" and o: "others_same 0 s t"
    and i: "rank_ok env g tab plans t 0" and r: "region_ok env t"
  shows "agree env n keys g tab plans t"
proof (rule agree_rank[OF a o])
  fix j assume j: "j < n" "j \<noteq> 0" and c: "content_ok (rs_mem s) tab (tab_of (rs_cache s j)) (rs_pc s j)"
  have "at_stage s j = 0"
    using prot_okD(1)[OF p] j z unfolding roles_ok_def by (metis less_nat_zero_code not_gr_zero)
  moreover have "role_ok (sh_barrier_sense (rs_mem s)) j (rs_pc s j)"
    using prot_okD(1)[OF p] j by (simp add: roles_ok_def)
  ultimately show "content_ok (rs_mem t) tab (tab_of (rs_cache s j)) (rs_pc s j)"
    using content_before[OF _ _ j(2) _ c] o by (simp add: at_stage_def others_same_def)
qed (use i r in simp_all)

section \<open>Merging\<close>

lemma ctl_good_upd: "ctl_good rnd env tab c \<Longrightarrow> ctl_good rnd env (upd_eq k v tab) c"
  by (auto simp: ctl_good_def upd_eq_def split: if_splits)

lemma upd_eq_idem: "upd_eq k v (upd_eq k v tab) = upd_eq k v tab"
  by (simp add: upd_eq_def fun_eq_iff)

lemma merge_region:
  assumes "sh_num mem \<le> 1" "length (sh_entries mem) = kMaxParamEntries" "reading mem tab (tab_of cache)"
  shows "tab_of (merge_snapshot (take (sh_num mem) (sh_entries mem)) cache) = region mem tab"
proof (cases "sh_num mem = 0")
  case True
  then show ?thesis using assms(3) by (auto simp: merge_snapshot_def reading_def region_def)
next
  case False
  then have n: "sh_num mem = 1" using assms(1) by simp
  obtain e es where e: "sh_entries mem = e # es" using assms(2) by (cases "sh_entries mem") (auto simp: kMaxParamEntries_def)
  have "merge_snapshot (take (sh_num mem) (sh_entries mem)) cache = table_put (fst e) (snd e) cache"
    by (simp add: merge_snapshot_def n e MergeOne_def case_prod_beta)
  then show ?thesis using assms(3) by (auto simp: reading_def region_def n entry0_def e upd_eq_idem)
qed

lemma upd_vals: "val_ok env v \<Longrightarrow> (\<And>l w. tab l = Some w \<Longrightarrow> val_ok env w) \<Longrightarrow> upd_eq k v tab l = Some w \<Longrightarrow> val_ok env w"
  by (auto simp: upd_eq_def split: if_splits)

lemma merged_good:
  assumes "region_ok env s" "reading (rs_mem s) tab c" "\<And>l v. c l = Some v \<Longrightarrow> val_ok (le_ctl env) v"
    "ctl_good rnd (le_ctl env) c ctl"
  shows "\<And>l v. region (rs_mem s) tab l = Some v \<Longrightarrow> val_ok (le_ctl env) v"
    "ctl_good rnd (le_ctl env) (region (rs_mem s) tab) ctl"
proof -
  have r: "region (rs_mem s) tab = (if sh_num (rs_mem s) = 0 then c
      else upd_eq (fst (entry0 (rs_mem s))) (snd (entry0 (rs_mem s))) c)"
    using assms(2) by (auto simp: reading_def region_def upd_eq_idem)
  have n: "sh_num (rs_mem s) \<noteq> 0 \<Longrightarrow> val_ok (le_ctl env) (snd (entry0 (rs_mem s)))"
    using assms(1) by (auto simp: region_ok_def le_Suc_eq)
  show "val_ok (le_ctl env) v" if "region (rs_mem s) tab l = Some v" for l v
    using that upd_vals[OF n assms(3)] assms(3) unfolding r by (auto split: if_splits)
  show "ctl_good rnd (le_ctl env) (region (rs_mem s) tab) ctl"
    unfolding r using assms(4) ctl_good_upd by simp
qed

text \<open>A rank whose cache changes too, in a round in which it is not released.\<close>

lemma agree_cache:
  assumes a: "agree env n keys g tab plans s" and i: "i < n" and m: "rs_mem t = rs_mem s"
    and t: "rs_pc t = (rs_pc s)(i := q)" "rs_cache t = (rs_cache s)(i := cache)" "rs_ctl t = (rs_ctl s)(i := ctl)"
      "rs_launches t = rs_launches s"
    and c: "content_ok (rs_mem s) tab (tab_of cache) q" "\<And>l v. tab_of cache l = Some v \<Longrightarrow> val_ok (le_ctl env) v"
      "ctl_good (le_rnd env) (le_ctl env) (tab_of cache) ctl"
    and r: "released (sh_barrier_sense (rs_mem s)) q = released (sh_barrier_sense (rs_mem s)) (rs_pc s i)"
  shows "agree env n keys g tab plans t"
proof (rule agree_rank[OF a])
  have R: "rank_ok env g tab plans s i" "region_ok env s" using a i by (simp_all add: agree_def)
  show "others_same i s t" using t by (simp add: others_same_def m)
  show "region_ok env t" using R(2) by (simp add: region_ok_def m)
  show "rank_ok env g tab plans t i" using R(1) c r by (auto simp: rank_ok_def t m)
qed (simp add: m)

section \<open>A launch and the release of the barrier\<close>

lemma agree_suggest:
  assumes a: "agree env n keys g tab plans s" and i: "i < n" and pc: "rs_pc s i = Suggest"
    and r: "rounds (le_rnd env)" "env_ok (le_rnd env) (le_ctl env)"
    and la: "suggest_launch env (keys (length (rs_launches s i))) hit (rs_cache s i) (rs_ctl s i) = (la, ctl)"
    and t: "t = goto i AtLaunch (s\<lparr>rs_ctl := (rs_ctl s)(i := ctl),
      rs_launches := (rs_launches s)(i := rs_launches s i @ [la_plan la])\<rparr>)"
  shows "agree env n keys g tab plans t"
proof (rule agree_rank[OF a])
  have R: "rank_ok env g tab plans s i" "region_ok env s" "length plans = g"
    "0 < g \<Longrightarrow> plans ! (g - 1) = plan_for env tab (keys (g - 1))" using a i by (simp_all add: agree_def)
  let ?k = "length (rs_launches s i)"
  have S: "tab_of (rs_cache s i) = tab" "\<And>l v. tab l = Some v \<Longrightarrow> val_ok (le_ctl env) v"
    "ctl_good (le_rnd env) (le_ctl env) tab (rs_ctl s i)" "?k + 1 = g" "rs_launches s i = take ?k plans"
    using R(1) by (auto simp: rank_ok_def pc)
  note D = suggest_depends[OF r, of "rs_cache s i" "rs_ctl s i" "keys ?k", unfolded S(1), OF S(3,2)]
  have c: "la_plan la = plan_for env tab (keys ?k)" "ctl_good (le_rnd env) (le_ctl env) tab ctl"
    using la D S(1) by (auto simp: suggest_launch_def plan_for_def Let_def tab_of_def Lookup_def split: prod.splits)
  have "rs_launches s i @ [la_plan la] = take (Suc ?k) plans"
    using S(4,5) R(3,4) c(1) by (metis add_diff_cancel_right' lessI Suc_eq_plus1 take_Suc_conv_app_nth zero_less_Suc)
  then show "rank_ok env g tab plans t i" using S c(2) R(3) by (simp add: rank_ok_def t)
  show "others_same i s t" by (simp add: others_same_def t)
  show "region_ok env t" using R(2) by (simp add: region_ok_def t)
qed (simp add: t)

lemma agree_flip:
  assumes a: "agree env n keys g tab plans s" and p: "prot_ok n s" and i: "i < n" and pc: "rs_pc s i = BarrierFlip my"
    and t: "t = goto i Suggest (s\<lparr>rs_mem := (rs_mem s)\<lparr>sh_barrier_sense := my\<rparr>\<rparr>)"
  shows "agree env n keys (g + 1) (region (rs_mem s) tab)
    (plans @ [plan_for env (region (rs_mem s) tab) (keys g)]) t"
proof -
  let ?tab = "region (rs_mem s) tab"
  let ?plans = "plans @ [plan_for env ?tab (keys g)]"
  note F = flip_all_arrived[OF p i pc]
  have ne: "my \<noteq> sh_barrier_sense (rs_mem s)" using F(1,2)[OF i] sense_neq by metis
  have G: "length plans = g" using a by (simp add: agree_def)
  have "rank_ok env (g + 1) ?tab ?plans t j" if j: "j < n" for j
  proof -
    have R: "rank_ok env g tab plans s j" using a j by (simp add: agree_def)
    have pj: "rs_pc s j = (if j = i then BarrierFlip my else BarrierWait my)" using F(3)[OF j] pc by simp
    have S: "tab_of (rs_cache s j) = ?tab" "length (rs_launches s j) = g"
      using R ne pj by (auto simp: rank_ok_def split: if_splits)
    have pt: "rs_pc t j = (if j = i then Suggest else BarrierWait my)" using pj by (simp add: t)
    have "content_ok (rs_mem t) ?tab ?tab (rs_pc t j)" "released my (rs_pc t j)" using pt by (simp_all add: t)
    then show ?thesis using R S G by (simp add: rank_ok_def t)
  qed
  moreover have "region_ok env t" using a by (simp add: agree_def region_ok_def entry0_def t)
  ultimately show ?thesis using G by (simp add: agree_def nth_append)
qed

section \<open>Every step\<close>

text \<open>The steps of rank 0 that replace the parameters of the segment.\<close>

lemma agree_write_step:
  assumes a: "agree env n keys g tab plans s" and p: "prot_ok n s" and i: "i < n"
    and z: "i = 0" "at_stage s 0 = 0" "stage (sh_barrier_sense (rs_mem s)) q = 0"
    and m: "sh_barrier_sense mem = sh_barrier_sense (rs_mem s)"
    and t: "t = goto i q (s\<lparr>rs_mem := mem\<rparr>)"
    and c: "content_ok mem tab (tab_of (rs_cache s i)) q"
    and r: "released (sh_barrier_sense (rs_mem s)) q = released (sh_barrier_sense (rs_mem s)) (rs_pc s i)"
    and reg: "region_ok env t"
  shows "agree env n keys g tab plans t"
proof (rule agree_write[OF a p])
  show "rank_ok env g tab plans t 0" using a i c r z by (simp add: agree_def rank_ok_def t m)
qed (use i z m reg in \<open>simp_all add: t at_stage_def others_same_def\<close>)

lemma agree_step:
  assumes step: "shm_step env n keys s t" and a: "agree env n keys g tab plans s" and p: "prot_ok n s"
    and r: "rounds (le_rnd env)" "env_ok (le_rnd env) (le_ctl env)"
    and low: "ce_algorithm (le_ctl env) = SPLIT_RATIO_CONTROL \<Longrightarrow> 0 < GetMinAlpha (le_rnd env) (le_ctl env)"
  shows "\<exists>g tab plans. agree env n keys g tab plans t"
proof -
  have R: "rank_ok env g tab plans s i" if "i < n" for i using a that by (simp add: agree_def)
  have reg: "region_ok env s" using a by (simp add: agree_def)
  then have num: "sh_num (rs_mem s) \<le> 1" "entry_count (rs_mem s) = sh_num (rs_mem s)"
    and len: "length (sh_entries (rs_mem s)) = kMaxParamEntries"
    by (auto simp: region_ok_def entry_count_def kMaxParamEntries_def)
  have ne: "(sh_entries (rs_mem s))[0 := e] ! 0 = e" for e using len by (simp add: kMaxParamEntries_def)
  have role: "role_ok (sh_barrier_sense (rs_mem s)) i (rs_pc s i)" if "i < n" for i
    using p that by (simp add: prot_ok_def roles_ok_def)
  have C: "content_ok (rs_mem s) tab (tab_of (rs_cache s i)) (rs_pc s i)"
    and V: "\<And>l v. tab_of (rs_cache s i) l = Some v \<Longrightarrow> val_ok (le_ctl env) v"
    and G: "ctl_good (le_rnd env) (le_ctl env) (tab_of (rs_cache s i)) (rs_ctl s i)" if "i < n" for i
    using R[OF that] by (simp_all add: rank_ok_def)
  have sp [simp]: "same_params m m" "same_params m (m\<lparr>sh_read_count := x\<rparr>)" "same_params m (m\<lparr>sh_barrier_count := x\<rparr>)"
    for m x by (simp_all add: same_params_def)
  from step show ?thesis
  proof cases
    case (shm_begin i)
    have "agree env n keys g tab plans t"
      by (rule agree_move[OF a shm_begin(2), of t "round_begin i"])
        (use shm_begin C[of i] in \<open>simp_all add: round_begin_def\<close>)
    then show ?thesis by blast
  next
    case (shm_consumed i)
    have "agree env n keys g tab plans t"
      by (rule agree_move[OF a shm_consumed(2), of t Aggregate]) (use shm_consumed C[of i] in simp_all)
    then show ?thesis by blast
  next
    case (shm_no_stats i)
    have "agree env n keys g tab plans t"
      by (rule agree_move[OF a shm_no_stats(2), of t SignalWritten])
        (use shm_no_stats C[of i] in \<open>simp_all add: reading_def\<close>)
    then show ?thesis by blast
  next
    case (shm_aggregate i slots stat key c' cache')
    note U = update_tab[OF r low G[OF shm_aggregate(2)] shm_aggregate(5)]
    obtain v where v: "val_ok (le_ctl env) v" "tab_of cache' = upd_eq key v (tab_of (rs_cache s i))"
      "ctl_good (le_rnd env) (le_ctl env) (tab_of cache') c'" using U by blast
    have tab: "tab_of (rs_cache s i) = tab" using C[OF shm_aggregate(2)] shm_aggregate(3) by simp
    have "agree env n keys g tab plans t"
      by (rule agree_cache[OF a shm_aggregate(2), of t "WriteKey key" cache' c'])
        (use shm_aggregate v upd_vals[OF v(1) V[OF shm_aggregate(2)]] in \<open>auto simp: tab\<close>)
    then show ?thesis by blast
  next
    case (shm_write_key i key)
    have i: "i = 0" "at_stage s 0 = 0" using role[OF shm_write_key(2)] shm_write_key by (auto simp: at_stage_def)
    have "agree env n keys g tab plans t"
      by (rule agree_write_step[OF a p shm_write_key(2) i _ _ shm_write_key(1)])
        (use shm_write_key C[of i] reg ne len in \<open>auto simp: set_entry_key_def entry0_def region_ok_def\<close>)
    then show ?thesis by blast
  next
    case (shm_write_val i key)
    have i: "i = 0" "at_stage s 0 = 0" using role[OF shm_write_val(2)] shm_write_val by (auto simp: at_stage_def)
    obtain v where v: "tab_of (rs_cache s i) = upd_eq key v tab" "fst (entry0 (rs_mem s)) = key"
      using C[OF shm_write_val(2)] shm_write_val by auto
    have k: "tab_of (rs_cache s i) key = Some v" by (simp add: v(1) upd_eq_def op_key_eq_equiv(1))
    then have l: "Lookup key (rs_cache s i) = v" "val_ok (le_ctl env) v"
      using V[OF shm_write_val(2) k] by (simp_all add: Lookup_def tab_of_def)
    have "agree env n keys g tab plans t"
      by (rule agree_write_step[OF a p shm_write_val(2) i _ _ shm_write_val(1)])
        (use shm_write_val v l reg ne len in \<open>auto simp: set_entry_val_def entry0_def region_ok_def\<close>)
    then show ?thesis by blast
  next
    case (shm_write_num i)
    have i: "i = 0" "at_stage s 0 = 0" using role[OF shm_write_num(2)] shm_write_num by (auto simp: at_stage_def)
    have c: "tab_of (rs_cache s i) = upd_eq (fst (entry0 (rs_mem s))) (snd (entry0 (rs_mem s))) tab"
      using C[OF shm_write_num(2)] shm_write_num by simp
    have v: "val_ok (le_ctl env) (snd (entry0 (rs_mem s)))"
      using V[OF shm_write_num(2), of "fst (entry0 (rs_mem s))"] by (simp add: c upd_eq_def op_key_eq_equiv(1))
    have "agree env n keys g tab plans t"
      by (rule agree_write_step[OF a p shm_write_num(2) i _ _ shm_write_num(1)])
        (use shm_write_num c v reg in \<open>auto simp: entry0_def region_ok_def region_def\<close>)
    then show ?thesis by blast
  next
    case (shm_write_version i)
    have i: "i = 0" "at_stage s 0 = 0" using role[OF shm_write_version(2)] shm_write_version by (auto simp: at_stage_def)
    have "agree env n keys g tab plans t"
      by (rule agree_write_step[OF a p shm_write_version(2) i _ _ shm_write_version(1)])
        (use shm_write_version C[of i] reg in \<open>auto simp: entry0_def region_ok_def region_def reading_def\<close>)
    then show ?thesis by blast
  next
    case (shm_signal i)
    have "agree env n keys g tab plans t"
      by (rule agree_move[OF a shm_signal(2), of t "ReadVersion 0"]) (use shm_signal C[of i] in simp_all)
    then show ?thesis by blast
  next
    case (shm_written i)
    have "agree env n keys g tab plans t"
      by (rule agree_move[OF a shm_written(2), of t "ReadVersion 0"])
        (use shm_written C[of i] in \<open>simp_all add: reading_def\<close>)
    then show ?thesis by blast
  next
    case (shm_read_version i rt)
    have "agree env n keys g tab plans t"
      by (rule agree_move[OF a shm_read_version(2), of t "ReadNum rt (sh_version (rs_mem s))"])
        (use shm_read_version C[of i] in simp_all)
    then show ?thesis by blast
  next
    case (shm_read_num i rt v)
    have "agree env n keys g tab plans t"
      by (rule agree_move[OF a shm_read_num(2), of t "ReadKey rt v (entry_count (rs_mem s)) []"])
        (use shm_read_num C[of i] num in simp_all)
    then show ?thesis by blast
  next
    case (shm_read_key i rt v m acc)
    have "agree env n keys g tab plans t"
      by (rule agree_move[OF a shm_read_key(2), of t "ReadVal rt v m acc (fst (sh_entries (rs_mem s) ! length acc))"])
        (use shm_read_key C[of i] in simp_all)
    then show ?thesis by blast
  next
    case (shm_read_val i rt v m acc k)
    have c: "reading (rs_mem s) tab (tab_of (rs_cache s i))" "v = sh_version (rs_mem s)" "m = sh_num (rs_mem s)"
      "length acc < m" "acc = take (length acc) (sh_entries (rs_mem s))" "k = fst (sh_entries (rs_mem s) ! length acc)"
      using C[OF shm_read_val(2)] shm_read_val by simp_all
    have le: "length acc < length (sh_entries (rs_mem s))" using c num len by (simp add: kMaxParamEntries_def)
    then have "acc @ [sh_entries (rs_mem s) ! length acc] = take (Suc (length acc)) (sh_entries (rs_mem s))"
      using c(5) by (metis take_Suc_conv_app_nth)
    moreover have "(k, snd (sh_entries (rs_mem s) ! length acc)) = sh_entries (rs_mem s) ! length acc" by (simp add: c(6))
    ultimately have "agree env n keys g tab plans t"
      by (intro agree_move[OF a shm_read_val(2), of t "ReadKey rt v m (acc @ [(k, snd (sh_entries (rs_mem s) ! length acc))])"])
        (use shm_read_val c le in simp_all)
    then show ?thesis by blast
  next
    case (shm_read_done i rt v m acc)
    have c: "reading (rs_mem s) tab (tab_of (rs_cache s i))" "v = sh_version (rs_mem s)" "m = sh_num (rs_mem s)"
      "length acc \<le> m" "acc = take (length acc) (sh_entries (rs_mem s))"
      using C[OF shm_read_done(2)] unfolding shm_read_done(3) content_ok.simps by blast+
    have "length acc = sh_num (rs_mem s)" using c(3,4) shm_read_done(4) by simp
    then have "acc = take (sh_num (rs_mem s)) (sh_entries (rs_mem s))" using c(5) by metis
    then have "agree env n keys g tab plans t"
      by (intro agree_move[OF a shm_read_done(2), of t "ReadAgain rt v acc"]) (use shm_read_done(1-3) c(1,2) in simp_all)
    then show ?thesis by blast
  next
    case (shm_retry i rt v snap)
    have "agree env n keys g tab plans t"
      by (rule agree_move[OF a shm_retry(2), of t "ReadVersion (rt + 1)"]) (use shm_retry C[of i] in simp_all)
    then show ?thesis by blast
  next
    case (shm_merge i rt v snap)
    have c: "reading (rs_mem s) tab (tab_of (rs_cache s i))" "snap = take (sh_num (rs_mem s)) (sh_entries (rs_mem s))"
      using C[OF shm_merge(2)] shm_merge by simp_all
    note M = merged_good[OF reg c(1) V[OF shm_merge(2)] G[OF shm_merge(2)]]
    have t: "tab_of (merge_snapshot snap (rs_cache s i)) = region (rs_mem s) tab"
      unfolding c(2) by (rule merge_region[OF num(1) len c(1)])
    have "agree env n keys g tab plans t"
      by (rule agree_cache[OF a shm_merge(2), of t "after_read i" "merge_snapshot snap (rs_cache s i)" "rs_ctl s i"])
        (use shm_merge M in \<open>simp_all add: t after_read_def\<close>)
    then show ?thesis by blast
  next
    case (shm_consume i)
    have "agree env n keys g tab plans t"
      by (rule agree_move[OF a shm_consume(2), of t BarrierLoad]) (use shm_consume C[of i] in simp_all)
    then show ?thesis by blast
  next
    case (shm_load i)
    have "agree env n keys g tab plans t"
      by (rule agree_move[OF a shm_load(2), of t "BarrierArrive (1 - sh_barrier_sense (rs_mem s))"])
        (use shm_load C[of i] in simp_all)
    then show ?thesis by blast
  next
    case (shm_arrive i my)
    have "my \<noteq> sh_barrier_sense (rs_mem s)"
      using role[OF shm_arrive(2)] shm_arrive(3) p sense_neq by (simp add: prot_ok_def roles_ok_def)
    then have "agree env n keys g tab plans t"
      by (intro agree_move[OF a shm_arrive(2), of t "if sh_barrier_count (rs_mem s) + 1 = word_of_nat n
          then BarrierReset my else BarrierWait my"]) (use shm_arrive C[of i] in simp_all)
    then show ?thesis by blast
  next
    case (shm_reset i my)
    have "agree env n keys g tab plans t"
      by (rule agree_move[OF a shm_reset(2), of t "BarrierFlip my"]) (use shm_reset C[of i] in simp_all)
    then show ?thesis by blast
  next
    case (shm_flip i my)
    show ?thesis using agree_flip[OF a p shm_flip(2,3,1)] by blast
  next
    case (shm_leave i my)
    have "agree env n keys g tab plans t"
      by (rule agree_move[OF a shm_leave(2), of t Suggest]) (use shm_leave C[of i] in simp_all)
    then show ?thesis by blast
  next
    case (shm_suggest i hit la c')
    show ?thesis using agree_suggest[OF a shm_suggest(2,3) r shm_suggest(4,1)] by blast
  qed
qed

lemma agree_start:
  assumes "shm_start env s"
  shows "agree env n keys 0 (\<lambda>_. None) [] s"
proof -
  have "region_ok env s" using assms
    by (auto simp: shm_start_def region_ok_def init_header_def reset_header_def zero_mem_def val_ok_def entry0_def)
  moreover have "tab_of [] = (\<lambda>_. None)" by (simp add: fun_eq_iff tab_of_def table_find_def)
  ultimately show ?thesis using assms
    by (simp add: agree_def rank_ok_def shm_start_def ctl_good_def algos_ok_def table_find_def)
qed

lemma rank_okD:
  assumes "agree env n keys g tab plans s" "i < n"
  shows "rs_launches s i = take (length (rs_launches s i)) plans" "length (rs_launches s i) \<le> g"
    "g \<le> length (rs_launches s i) + 1"
proof -
  have "rank_ok env g tab plans s i" using assms by (simp add: agree_def)
  then show "rs_launches s i = take (length (rs_launches s i)) plans" "length (rs_launches s i) \<le> g"
    "g \<le> length (rs_launches s i) + 1" by (auto simp: rank_ok_def split: if_splits)
qed

text \<open>
  C37. All ranks launch the same plans. At every point of every interleaving of the ranks'
  rounds, with whatever rank 0 measured and learned, the plans any two ranks have launched
  so far agree collective by collective, and no rank is more than one collective ahead.
\<close>

theorem ranks_launch_same_plans:
  assumes r: "rounds (le_rnd env)" "env_ok (le_rnd env) (le_ctl env)"
    and low: "ce_algorithm (le_ctl env) = SPLIT_RATIO_CONTROL \<Longrightarrow> 0 < GetMinAlpha (le_rnd env) (le_ctl env)"
    and n: "1 < n" "n \<le> kMaxRanks" and s: "reach (shm_start env) (shm_step env n keys) s" and ij: "i < n" "j < n"
    and k: "k < length (rs_launches s i)" "k < length (rs_launches s j)"
  shows "rs_launches s i ! k = rs_launches s j ! k \<and> length (rs_launches s i) \<le> length (rs_launches s j) + 1"
proof -
  have n': "n < 2 ^ 32" using n by (simp add: kMaxRanks_def)
  have "prot_ok n s \<and> (\<exists>g tab plans. agree env n keys g tab plans s)"
    using s
  proof (rule reach_invariant)
    fix s assume "shm_start env s"
    then show "prot_ok n s \<and> (\<exists>g tab plans. agree env n keys g tab plans s)"
      using prot_start agree_start by blast
  next
    fix s t assume "prot_ok n s \<and> (\<exists>g tab plans. agree env n keys g tab plans s)" "shm_step env n keys s t"
    then show "prot_ok n t \<and> (\<exists>g tab plans. agree env n keys g tab plans t)"
      using prot_step[OF _ _ n(1) n'] agree_step[OF _ _ _ r low] by blast
  qed
  then obtain g tab plans where a: "agree env n keys g tab plans s" by blast
  then have R: "rs_launches s i = take (length (rs_launches s i)) plans" "rs_launches s j = take (length (rs_launches s j)) plans"
    and l: "length (rs_launches s i) \<le> g" "g \<le> length (rs_launches s j) + 1"
    using rank_okD[OF a ij(1)] rank_okD[OF a ij(2)] by simp_all
  have "rs_launches s i ! k = plans ! k" using R(1) nth_take[OF k(1), of plans] by simp
  moreover have "rs_launches s j ! k = plans ! k" using R(2) nth_take[OF k(2), of plans] by simp
  ultimately show ?thesis using l by simp
qed

section \<open>A run of two ranks\<close>

text \<open>The step of one rank when rank 0 finds no measurements and no parameters are there.\<close>

definition next_step :: "launch_env \<Rightarrow> nat \<Rightarrow> (nat \<Rightarrow> op_key) \<Rightarrow> nat \<Rightarrow> round_state \<Rightarrow> round_state option" where
  "next_step env n keys i s = (case rs_pc s i of
     AtLaunch \<Rightarrow> Some (goto i (round_begin i) s)
   | WaitConsumed \<Rightarrow> (if sh_read_count (rs_mem s) = 0 then Some (goto i Aggregate s) else None)
   | Aggregate \<Rightarrow> Some (goto i SignalWritten s)
   | SignalWritten \<Rightarrow> Some (goto i (ReadVersion 0) (s\<lparr>rs_mem := (rs_mem s)\<lparr>sh_read_count := signal_count n\<rparr>\<rparr>))
   | WaitWritten \<Rightarrow> (if sh_read_count (rs_mem s) \<noteq> 0 then Some (goto i (ReadVersion 0) s) else None)
   | ReadVersion r \<Rightarrow> Some (goto i (ReadNum r (sh_version (rs_mem s))) s)
   | ReadNum r v \<Rightarrow> Some (goto i (ReadKey r v (entry_count (rs_mem s)) []) s)
   | ReadKey r v m acc \<Rightarrow> (if length acc < m then None else Some (goto i (ReadAgain r v acc) s))
   | ReadAgain r v snap \<Rightarrow> (if sh_version (rs_mem s) = v then Some (goto i (after_read i)
        (s\<lparr>rs_cache := (rs_cache s)(i := merge_snapshot snap (rs_cache s i))\<rparr>)) else None)
   | ConsumeParams \<Rightarrow> Some (goto i BarrierLoad
        (s\<lparr>rs_mem := (rs_mem s)\<lparr>sh_read_count := sh_read_count (rs_mem s) - 1\<rparr>\<rparr>))
   | BarrierLoad \<Rightarrow> Some (goto i (BarrierArrive (1 - sh_barrier_sense (rs_mem s))) s)
   | BarrierArrive my \<Rightarrow> Some (goto i
        (if sh_barrier_count (rs_mem s) + 1 = word_of_nat n then BarrierReset my else BarrierWait my)
        (s\<lparr>rs_mem := (rs_mem s)\<lparr>sh_barrier_count := sh_barrier_count (rs_mem s) + 1\<rparr>\<rparr>))
   | BarrierReset my \<Rightarrow> Some (goto i (BarrierFlip my) (s\<lparr>rs_mem := (rs_mem s)\<lparr>sh_barrier_count := 0\<rparr>\<rparr>))
   | BarrierFlip my \<Rightarrow> Some (goto i Suggest (s\<lparr>rs_mem := (rs_mem s)\<lparr>sh_barrier_sense := my\<rparr>\<rparr>))
   | BarrierWait my \<Rightarrow> (if sh_barrier_sense (rs_mem s) = my then Some (goto i Suggest s) else None)
   | Suggest \<Rightarrow> (case suggest_launch env (keys (length (rs_launches s i))) False (rs_cache s i) (rs_ctl s i) of
        (la, c') \<Rightarrow> Some (goto i AtLaunch (s\<lparr>rs_ctl := (rs_ctl s)(i := c'),
          rs_launches := (rs_launches s)(i := rs_launches s i @ [la_plan la])\<rparr>)))
   | _ \<Rightarrow> None)"

lemma next_step_sound: "next_step env n keys i s = Some t \<Longrightarrow> i < n \<Longrightarrow> shm_step env n keys s t"
proof (cases "rs_pc s i")
  case (BarrierArrive my)
  assume "next_step env n keys i s = Some t" "i < n"
  then show ?thesis using shm_arrive[OF _ BarrierArrive, of n env keys] BarrierArrive by (simp only: next_step_def) simp
qed (auto simp: next_step_def split: if_splits prod.splits intro: shm_step.intros)

fun run_steps :: "launch_env \<Rightarrow> nat \<Rightarrow> (nat \<Rightarrow> op_key) \<Rightarrow> nat list \<Rightarrow> round_state \<Rightarrow> round_state option" where
  "run_steps env n keys [] s = Some s"
| "run_steps env n keys (i # is) s = (case next_step env n keys i s of
     None \<Rightarrow> None | Some t \<Rightarrow> run_steps env n keys is t)"

lemma run_steps_reach:
  "reach init (shm_step env n keys) s \<Longrightarrow> run_steps env n keys is s = Some t \<Longrightarrow> list_all (\<lambda>i. i < n) is \<Longrightarrow>
     reach init (shm_step env n keys) t"
proof (induction "is" arbitrary: s)
  case (Cons i js)
  then obtain u where u: "next_step env n keys i s = Some u" "run_steps env n keys js u = Some t"
    by (auto split: option.splits)
  have "reach init (shm_step env n keys) u"
    using Cons.prems u(1) by (auto intro: reach_step next_step_sound)
  then show ?case using Cons u(2) by simp
qed simp

definition ex_launch_env :: launch_env where
  "ex_launch_env = \<lparr>le_rnd = id, le_ctl = ex_ctl_env, le_share = \<lambda>_ _. 0,
     le_plan = \<lparr>ps_pcie_enabled = True, ps_min_msg = 1024, ps_min_chunk = 256\<rparr>, le_static_alpha = 8 / 10,
     le_feedback = True\<rparr>"

definition ex_round_start :: round_state where
  "ex_round_start = \<lparr>rs_mem = init_header 2, rs_pc = \<lambda>_. AtLaunch, rs_cache = \<lambda>_. [],
     rs_ctl = \<lambda>_. \<lparr>ct_nranks = 2, ct_algorithms = []\<rparr>, rs_launches = \<lambda>_. []\<rparr>"

text \<open>Both ranks go through one round; rank 1 arrives last at the barrier.\<close>

definition ex_schedule :: "nat list" where
  "ex_schedule = [0, 1, 0, 0, 0, 1, 0, 0, 0, 0, 0, 0, 1, 1, 1, 1, 1, 1, 1, 1, 1, 0, 1, 0]"

lemma ex_round_run:
  "\<exists>t. run_steps ex_launch_env 2 (\<lambda>_. ex_key) ex_schedule ex_round_start = Some t \<and>
     length (rs_launches t 0) = 1 \<and> length (rs_launches t 1) = 1"
  by (simp add: ex_schedule_def ex_round_start_def next_step_def init_header_def zero_mem_def round_begin_def
    after_read_def signal_count_def entry_count_def goto_def case_prod_beta)

theorem ranks_launch_same_plans_witness:
  "\<exists>t. run_steps ex_launch_env 2 (\<lambda>_. ex_key) ex_schedule ex_round_start = Some t \<and>
     length (rs_launches t 0) = 1 \<and> rs_launches t 0 ! 0 = rs_launches t 1 ! 0"
proof -
  obtain t where t: "run_steps ex_launch_env 2 (\<lambda>_. ex_key) ex_schedule ex_round_start = Some t"
    "length (rs_launches t 0) = 1" "length (rs_launches t 1) = 1" using ex_round_run by blast
  have "shm_start ex_launch_env ex_round_start" by (auto simp: shm_start_def ex_round_start_def)
  then have "reach (shm_start ex_launch_env) (shm_step ex_launch_env 2 (\<lambda>_. ex_key)) ex_round_start" by (rule reach_init)
  then have s: "reach (shm_start ex_launch_env) (shm_step ex_launch_env 2 (\<lambda>_. ex_key)) t"
    by (rule run_steps_reach[OF _ t(1)]) (simp add: ex_schedule_def)
  have r: "rounds (le_rnd ex_launch_env)" "env_ok (le_rnd ex_launch_env) (le_ctl ex_launch_env)"
    by (simp_all add: ex_launch_env_def rounds_def mono_def env_ok_def ex_ctl_env_def)
  have "rs_launches t 0 ! 0 = rs_launches t 1 ! 0"
    using ranks_launch_same_plans[OF r _ _ _ s, of 0 1 0] t(2,3)
    by (cases "rs_launches t (Suc 0)") (simp_all add: ex_launch_env_def ex_ctl_env_def kMaxRanks_def)
  then show ?thesis using t by blast
qed

end
