(* ===== verification/Streams.thy ===== *)
theory Streams
  imports Prelude
begin

text \<open>
  The device streams the orchestrator enqueues on: what is enqueued, in the order the host
  issues it, and how the streams execute it. A stream executes its operations in order; a
  value wait holds it until the awaited word has reached the value, an event wait until the
  event was recorded; a host synchronisation holds the host until the stream is drained.
\<close>

section \<open>Operations\<close>

type_synonym addr = nat
type_synonym stream = nat

text \<open>Calls of the vendor library: buffers, counts, element type and operator.\<close>

datatype fast_call =
    FastAllReduce addr addr size_t int int
  | FastAllGather addr addr size_t int
  | FastReduceScatter addr addr size_t int int
  | FastAllToAll addr addr size_t int
  | FastAllGatherV addr size_t addr "size_t list" "size_t list" int
  | FastReduceScatterV addr "size_t list" "size_t list" addr size_t int int
  | FastAllToAllV addr "size_t list" "size_t list" addr "size_t list" "size_t list" int

datatype pcie_call =
    PcieAllReduce addr addr size_t int int
  | PcieAllGather addr addr size_t int
  | PcieAllGatherStrided addr addr size_t size_t int
  | PcieReduceScatter addr addr size_t int int
  | PcieReduceScatterStrided addr addr size_t size_t int int
  | PcieAllToAll addr addr size_t int
  | PcieAllToAllStrided addr addr size_t size_t int

datatype queue_op =
    UserOp nat                  \<comment> \<open>work of the application\<close>
  | FastOp fast_call
  | PcieOp pcie_call
  | ValueWrite addr size_t
  | ValueWait addr size_t       \<comment> \<open>until the word is at least the value\<close>
  | EventRecord nat
  | EventWait nat
  | CopyAsync addr addr size_t  \<comment> \<open>destination, source, bytes\<close>
  | FreeAsync addr
  | HostCallback

text \<open>What the host does: enqueue an operation, drain a stream, free or copy memory at once.\<close>

datatype host_act = Issue stream queue_op | SyncStream stream | FreeNow addr | CopyNow addr addr size_t

type_synonym host_log = "host_act list"

definition op_at :: "host_log \<Rightarrow> nat \<Rightarrow> stream \<Rightarrow> queue_op \<Rightarrow> bool" where
  "op_at log p s op \<longleftrightarrow> p < length log \<and> log ! p = Issue s op"

definition on_stream :: "host_log \<Rightarrow> nat \<Rightarrow> stream \<Rightarrow> bool" where
  "on_stream log p s \<longleftrightarrow> (\<exists>op. op_at log p s op)"

section \<open>Execution\<close>

text \<open>
  A state is how far the host has come in its log and the operations executed, by their
  positions in the log, in the order of execution. \<open>word log tr a\<close> is the value of a word.
\<close>

type_synonym exec_state = "nat \<times> nat list"

definition word_of :: "host_log \<Rightarrow> nat list \<Rightarrow> addr \<Rightarrow> size_t" where
  "word_of log tr a = foldl (\<lambda>m p. case log ! p of
      Issue s (ValueWrite b v) \<Rightarrow> if b = a then v else m | _ \<Rightarrow> m) 0 tr"

fun may_run :: "host_log \<Rightarrow> nat list \<Rightarrow> queue_op \<Rightarrow> bool" where
  "may_run log tr (ValueWait a v) \<longleftrightarrow> v \<le> word_of log tr a"
| "may_run log tr (EventWait e) \<longleftrightarrow> (\<exists>p \<in> set tr. \<exists>s. op_at log p s (EventRecord e))"
| "may_run log tr _ \<longleftrightarrow> True"

inductive exec_step :: "host_log \<Rightarrow> exec_state \<Rightarrow> exec_state \<Rightarrow> bool" for log :: host_log where
  host_issue: "h < length log \<Longrightarrow> (\<And>s. log ! h = SyncStream s \<Longrightarrow> \<forall>p < h. on_stream log p s \<longrightarrow> p \<in> set tr) \<Longrightarrow>
    exec_step log (h, tr) (h + 1, tr)"
| stream_run: "p < h \<Longrightarrow> p \<notin> set tr \<Longrightarrow> op_at log p s op \<Longrightarrow> \<forall>q < p. on_stream log q s \<longrightarrow> q \<in> set tr \<Longrightarrow>
    may_run log tr op \<Longrightarrow> exec_step log (h, tr) (h, tr @ [p])"

definition exec_start :: "exec_state \<Rightarrow> bool" where
  "exec_start x \<longleftrightarrow> x = (0, [])"

text \<open>\<open>p\<close> was executed before \<open>q\<close>.\<close>

definition executed_before :: "nat list \<Rightarrow> nat \<Rightarrow> nat \<Rightarrow> bool" where
  "executed_before tr p q \<longleftrightarrow> (\<exists>xs ys. tr = xs @ q # ys \<and> q \<notin> set xs \<and> p \<in> set xs)"

section \<open>What orders two operations\<close>

text \<open>An operation was executed when all it waits for had been.\<close>

definition enabled_at :: "host_log \<Rightarrow> nat list \<Rightarrow> nat \<Rightarrow> bool" where
  "enabled_at log xs q \<longleftrightarrow> q < length log \<and>
     (\<exists>s op. op_at log q s op \<and> (\<forall>p < q. on_stream log p s \<longrightarrow> p \<in> set xs) \<and> may_run log xs op) \<and>
     (\<forall>r s. r < q \<and> log ! r = SyncStream s \<longrightarrow> (\<forall>p < r. on_stream log p s \<longrightarrow> p \<in> set xs))"

definition exec_inv :: "host_log \<Rightarrow> exec_state \<Rightarrow> bool" where
  "exec_inv log x \<longleftrightarrow> (case x of (h, tr) \<Rightarrow>
     h \<le> length log \<and>
     (\<forall>r s. r < h \<and> log ! r = SyncStream s \<longrightarrow> (\<forall>p < r. on_stream log p s \<longrightarrow> p \<in> set tr)) \<and>
     (\<forall>xs q ys. tr = xs @ q # ys \<longrightarrow> enabled_at log xs q))"

lemma exec_inv_step:
  assumes "exec_step log x y" "exec_inv log x"
  shows "exec_inv log y"
  using assms(1)
proof cases
  case (host_issue h tr)
  have i: "h \<le> length log" "\<forall>r s. r < h \<and> log ! r = SyncStream s \<longrightarrow> (\<forall>p < r. on_stream log p s \<longrightarrow> p \<in> set tr)"
    "\<forall>xs q ys. tr = xs @ q # ys \<longrightarrow> enabled_at log xs q" using assms(2) by (auto simp: exec_inv_def host_issue(1))
  have "p \<in> set tr" if "r < h + 1" "log ! r = SyncStream s" "p < r" "on_stream log p s" for r s p
  proof (cases "r = h")
    case True
    then show ?thesis using host_issue(4)[of s] that by simp
  next
    case False
    then have "r < h" using that(1) by simp
    then show ?thesis using i(2) that(2-4) by blast
  qed
  then show ?thesis using i(3) host_issue(3) unfolding exec_inv_def host_issue(2) by auto
next
  case (stream_run p h tr s op)
  have i: "h \<le> length log" "\<forall>r s. r < h \<and> log ! r = SyncStream s \<longrightarrow> (\<forall>p < r. on_stream log p s \<longrightarrow> p \<in> set tr)"
    "\<forall>xs q ys. tr = xs @ q # ys \<longrightarrow> enabled_at log xs q" using assms(2) by (auto simp: exec_inv_def stream_run(1))
  have sy: "\<forall>r s. r < p \<and> log ! r = SyncStream s \<longrightarrow> (\<forall>p < r. on_stream log p s \<longrightarrow> p \<in> set tr)"
    using i(2) stream_run(3) by (meson order.strict_trans)
  have p: "enabled_at log tr p" unfolding enabled_at_def
    using stream_run(5-7) sy by (auto simp: op_at_def)
  have "enabled_at log xs q" if "tr @ [p] = xs @ q # ys" for xs q ys
  proof (cases ys rule: rev_cases)
    case Nil
    then show ?thesis using that p by simp
  next
    case (snoc zs z)
    then show ?thesis using that i(3) by simp
  qed
  then show ?thesis using i(1,2) by (auto simp: exec_inv_def stream_run(2))
qed

lemma exec_reach:
  assumes "reach exec_start (exec_step log) x"
  shows "exec_inv log x"
  using assms
proof (rule reach_invariant)
  fix x assume "exec_start x"
  then show "exec_inv log x" by (simp add: exec_start_def exec_inv_def)
next
  fix x y assume "exec_inv log x" "exec_step log x y"
  then show "exec_inv log y" using exec_inv_step by blast
qed

lemma executed_enabled:
  assumes "reach exec_start (exec_step log) (h, tr)" "q \<in> set tr"
  obtains xs ys where "tr = xs @ q # ys" "q \<notin> set xs" "enabled_at log xs q"
proof -
  obtain xs ys where "tr = xs @ q # ys" "q \<notin> set xs" using split_list_first[OF assms(2)] by blast
  then show ?thesis using that exec_reach[OF assms(1)] by (auto simp: exec_inv_def)
qed

text \<open>Operations of one stream, and operations before a host synchronisation.\<close>

lemma stream_order:
  assumes "reach exec_start (exec_step log) (h, tr)" "q \<in> set tr" "p < q" "on_stream log p s" "op_at log q s op"
  shows "executed_before tr p q"
proof -
  obtain xs ys where e: "tr = xs @ q # ys" "q \<notin> set xs" "enabled_at log xs q" by (rule executed_enabled[OF assms(1,2)])
  then have "p \<in> set xs" using assms(3-5) by (auto simp: enabled_at_def op_at_def)
  then show ?thesis using e by (auto simp: executed_before_def)
qed

lemma sync_order:
  assumes "reach exec_start (exec_step log) (h, tr)" "q \<in> set tr" "p < r" "r < q" "log ! r = SyncStream s"
    "on_stream log p s"
  shows "executed_before tr p q"
proof -
  obtain xs ys where e: "tr = xs @ q # ys" "q \<notin> set xs" "enabled_at log xs q" by (rule executed_enabled[OF assms(1,2)])
  then have "p \<in> set xs" using assms(3-6) by (auto simp: enabled_at_def)
  then show ?thesis using e by (auto simp: executed_before_def)
qed

lemma first_split: "tr = xs @ q # ys \<Longrightarrow> q \<notin> set xs \<Longrightarrow> takeWhile (\<lambda>x. x \<noteq> q) tr = xs"
  by (induction xs arbitrary: tr) auto

lemma before_trans:
  assumes "executed_before tr p q" "executed_before tr q r"
  shows "executed_before tr p r"
proof -
  obtain xs ys where x: "tr = xs @ q # ys" "q \<notin> set xs" "p \<in> set xs" using assms(1) by (auto simp: executed_before_def)
  obtain us vs where u: "tr = us @ r # vs" "r \<notin> set us" "q \<in> set us" using assms(2) by (auto simp: executed_before_def)
  have "xs = takeWhile (\<lambda>x. x \<noteq> q) (us @ r # vs)" using first_split[OF x(1,2)] u(1) by simp
  also have "\<dots> = takeWhile (\<lambda>x. x \<noteq> q) us" using u(3) by (intro takeWhile_append1[of q]) simp_all
  finally have "p \<in> set us" using x(3) set_takeWhileD by metis
  then show ?thesis using u by (auto simp: executed_before_def)
qed

lemma before_executed: "executed_before tr p q \<Longrightarrow> p \<in> set tr \<and> q \<in> set tr"
  by (auto simp: executed_before_def)

section \<open>Waits\<close>

text \<open>Each word is written from one stream only, with growing values.\<close>

definition writes_grow :: "host_log \<Rightarrow> bool" where
  "writes_grow log \<longleftrightarrow> (\<forall>p q s1 s2 a v1 v2. p < q \<and> op_at log p s1 (ValueWrite a v1) \<and>
     op_at log q s2 (ValueWrite a v2) \<longrightarrow> s1 = s2 \<and> v1 < v2)"

lemma word_of_written:
  "0 < word_of log tr a \<Longrightarrow> \<exists>p \<in> set tr. \<exists>s. log ! p = Issue s (ValueWrite a (word_of log tr a))"
proof (induction tr rule: rev_induct)
  case Nil
  then show ?case by (simp add: word_of_def)
next
  case (snoc p tr)
  show ?case
  proof (cases "\<exists>s v. log ! p = Issue s (ValueWrite a v)")
    case True
    then show ?thesis by (auto simp: word_of_def)
  next
    case False
    then have "word_of log (tr @ [p]) a = word_of log tr a"
      by (auto simp: word_of_def split: host_act.split queue_op.split)
    then show ?thesis using snoc by auto
  qed
qed

text \<open>A value wait runs after the write of its value.\<close>

lemma value_order:
  assumes r: "reach exec_start (exec_step log) (h, tr)" and w: "writes_grow log"
    and q: "q \<in> set tr" "op_at log q s (ValueWait a v)" "0 < v" and p: "op_at log p s' (ValueWrite a v)"
  shows "executed_before tr p q"
proof -
  obtain xs ys where e: "tr = xs @ q # ys" "q \<notin> set xs" using split_list_first[OF q(1)] by blast
  then have en: "enabled_at log xs q" using exec_reach[OF r] by (auto simp: exec_inv_def)
  then have le: "v \<le> word_of log xs a" using q(2) by (auto simp: enabled_at_def op_at_def)
  then obtain p' s1 where p': "p' \<in> set xs" "log ! p' = Issue s1 (ValueWrite a (word_of log xs a))"
    using word_of_written[of log xs a] q(3) by auto
  have "p' \<in> set tr" using p'(1) e(1) by simp
  then have "p' < length log" by (rule executed_enabled[OF r]) (simp add: enabled_at_def)
  then have o: "op_at log p' s1 (ValueWrite a (word_of log xs a))" using p'(2) by (simp add: op_at_def)
  have b: "executed_before tr p' q" using p'(1) e by (auto simp: executed_before_def)
  consider "p = p'" | "p < p'" | "p' < p" by linarith
  then show ?thesis
  proof cases
    case 1
    then show ?thesis using b by simp
  next
    case 2
    have "s' = s1" using w p o 2 unfolding writes_grow_def by blast
    then have "executed_before tr p p'"
      using stream_order[OF r \<open>p' \<in> set tr\<close> 2 _ o] p by (auto simp: on_stream_def)
    then show ?thesis using b before_trans by blast
  next
    case 3
    have "word_of log xs a < v" using w p o 3 unfolding writes_grow_def by blast
    then show ?thesis using le by simp
  qed
qed

text \<open>An event wait runs after the record of its event, when there is one record only.\<close>

lemma event_order:
  assumes r: "reach exec_start (exec_step log) (h, tr)" and q: "q \<in> set tr" "op_at log q s (EventWait e)"
    and p: "op_at log p s' (EventRecord e)" "\<And>p' s'. op_at log p' s' (EventRecord e) \<Longrightarrow> p' = p"
  shows "executed_before tr p q"
proof -
  obtain xs ys where e: "tr = xs @ q # ys" "q \<notin> set xs" using split_list_first[OF q(1)] by blast
  then have "enabled_at log xs q" using exec_reach[OF r] by (auto simp: exec_inv_def)
  then have "\<exists>p' \<in> set xs. \<exists>s. op_at log p' s (EventRecord e)" using q(2) by (auto simp: enabled_at_def op_at_def)
  then show ?thesis using p(2) e by (auto simp: executed_before_def)
qed

end
