(* ===== verification/DomainManager.thy ===== *)
theory DomainManager
  imports ShmStore Streams
begin

text \<open>
  Communicator domains and their manager (\<^verbatim>\<open>libampccl/core/domain.h\<close>,
  \<^verbatim>\<open>core/domain_manager.h\<close>) and the timers of a collective (\<^verbatim>\<open>telemetry/timer.h\<close>). Every
  method of the manager holds its mutex, so its calls are sequential. A null pointer is
  address 0; what the device runtime answers and the clock are arguments.
\<close>

section \<open>Timers\<close>

record timer =
  tm_start_event :: nat
  tm_end_event :: nat
  tm_use_device :: bool
  tm_start_recorded :: bool
  tm_end_recorded :: bool
  tm_start_time :: real
  tm_end_time :: real

definition new_timer :: "bool \<Rightarrow> bool \<Rightarrow> nat \<Rightarrow> nat \<Rightarrow> timer" where
  "new_timer start_created end_created start_event end_event =
     \<lparr>tm_start_event = start_event, tm_end_event = end_event, tm_use_device = start_created \<and> end_created,
      tm_start_recorded = False, tm_end_recorded = False, tm_start_time = 0, tm_end_time = 0\<rparr>"

text \<open>\<open>recorded\<close> is whether the runtime accepted the record on the stream.\<close>

definition timer_Start :: "real \<Rightarrow> bool \<Rightarrow> stream \<Rightarrow> timer \<Rightarrow> timer" where
  "timer_Start now recorded s tm = tm\<lparr>tm_start_time := now, tm_end_time := now,
     tm_start_recorded := tm_use_device tm \<and> s \<noteq> 0 \<and> recorded, tm_end_recorded := False\<rparr>"

definition timer_Stop :: "real \<Rightarrow> bool \<Rightarrow> stream \<Rightarrow> timer \<Rightarrow> timer" where
  "timer_Stop now recorded s tm = tm\<lparr>tm_end_time := now,
     tm_end_recorded := tm_use_device tm \<and> s \<noteq> 0 \<and> recorded\<rparr>"

definition CanUseRecordedEvents :: "timer \<Rightarrow> bool" where
  "CanUseRecordedEvents tm \<longleftrightarrow> tm_use_device tm \<and> tm_start_recorded tm \<and> tm_end_recorded tm"

definition QueryComplete :: "bool \<Rightarrow> timer \<Rightarrow> bool" where
  "QueryComplete done tm = (if CanUseRecordedEvents tm then done else True)"

text \<open>Polling; \<open>done k\<close> is the answer to the \<open>k\<close>-th query. \<open>None\<close> is a wait that never ends.\<close>

partial_function (option) wait_query :: "(nat \<Rightarrow> bool) \<Rightarrow> nat \<Rightarrow> timer \<Rightarrow> nat \<Rightarrow> bool option" where
  "wait_query done max_spins tm spins =
     (if QueryComplete (done spins) tm then Some True
      else if max_spins \<noteq> 0 \<and> max_spins \<le> spins + 1 then Some False
      else wait_query done max_spins tm (spins + 1))"

declare wait_query.simps [code]

definition WaitUntilCompleteByQuery :: "(nat \<Rightarrow> bool) \<Rightarrow> nat \<Rightarrow> real \<Rightarrow> timer \<Rightarrow> (bool \<times> timer) option" where
  "WaitUntilCompleteByQuery done max_spins now tm =
     map_option (\<lambda>r. (r, if r then tm\<lparr>tm_end_time := now\<rparr> else tm)) (wait_query done max_spins tm 0)"

text \<open>\<open>device_ms\<close> is the elapsed time the device reports, \<open>None\<close> when the call fails.\<close>

definition ElapsedSecondsChecked :: "(real \<Rightarrow> real) \<Rightarrow> real option \<Rightarrow> timer \<Rightarrow> bool \<times> real \<times> bool" where
  "ElapsedSecondsChecked rnd device_ms tm =
     (case (CanUseRecordedEvents tm, device_ms) of
        (True, Some ms) \<Rightarrow> if 0 < ms then (True, rnd (ms / 1000), True)
          else (0 < rnd (tm_end_time tm - tm_start_time tm), rnd (tm_end_time tm - tm_start_time tm), False)
      | _ \<Rightarrow> (0 < rnd (tm_end_time tm - tm_start_time tm), rnd (tm_end_time tm - tm_start_time tm), False))"

section \<open>Domains\<close>

record comm_domain_key =
  cd_world_size :: int
  cd_ranks :: "int list"
  cd_topology :: "64 word"

record logical_comm_key =
  lk_world_size :: int
  lk_hash :: "64 word"

definition comm_domain_key_eq :: "comm_domain_key \<Rightarrow> comm_domain_key \<Rightarrow> bool" where
  "comm_domain_key_eq a b \<longleftrightarrow>
     (if cd_world_size a \<noteq> cd_world_size b \<or> cd_topology a \<noteq> cd_topology b \<or>
         length (cd_ranks a) \<noteq> length (cd_ranks b) then False
      else list_all (\<lambda>i. cd_ranks a ! i = cd_ranks b ! i) [0..<length (cd_ranks a)])"

definition logical_comm_key_eq :: "logical_comm_key \<Rightarrow> logical_comm_key \<Rightarrow> bool" where
  "logical_comm_key_eq a b \<longleftrightarrow> lk_world_size a = lk_world_size b \<and> lk_hash a = lk_hash b"

definition logical_comm_key_hash :: "(int \<Rightarrow> 64 word) \<Rightarrow> (64 word \<Rightarrow> 64 word) \<Rightarrow> logical_comm_key \<Rightarrow> 64 word" where
  "logical_comm_key_hash hash_int hash_u64 k = hash_int (lk_world_size k) XOR push_bit 1 (hash_u64 (lk_hash k))"

definition comm_domain_key_hash :: "(int \<Rightarrow> 64 word) \<Rightarrow> (64 word \<Rightarrow> 64 word) \<Rightarrow> comm_domain_key \<Rightarrow> 64 word" where
  "comm_domain_key_hash hash_int hash_u64 k =
     foldl (\<lambda>h rank. h XOR push_bit 1 (hash_int rank))
       (hash_int (cd_world_size k) XOR push_bit 1 (hash_u64 (cd_topology k))) (cd_ranks k)"

text \<open>The initialisation of the PCIe communicator that a domain may have pending.\<close>

record pending_init =
  pi_pending :: bool
  pi_in_progress :: bool
  pi_rank :: int
  pi_nranks :: int
  pi_bootstrap :: "8 word list"

record comm_domain =
  cm_key :: comm_domain_key
  cm_logical :: logical_comm_key
  cm_pcie_comm :: addr
  cm_pcie_rank :: int
  cm_pcie_nranks :: int
  cm_pcie_stream :: stream
  cm_pcie_recvbuf :: addr
  cm_pcie_recvbuf_size :: size_t
  cm_init :: pending_init
  cm_intra_node :: bool
  cm_allow :: bool

definition new_domain :: "comm_domain_key \<Rightarrow> logical_comm_key \<Rightarrow> comm_domain" where
  "new_domain key logical = \<lparr>cm_key = key, cm_logical = logical, cm_pcie_comm = 0, cm_pcie_rank = -1,
     cm_pcie_nranks = 0, cm_pcie_stream = 0, cm_pcie_recvbuf = 0, cm_pcie_recvbuf_size = 0,
     cm_init = \<lparr>pi_pending = False, pi_in_progress = False, pi_rank = -1, pi_nranks = 0, pi_bootstrap = []\<rparr>,
     cm_intra_node = False, cm_allow = False\<rparr>"

definition SetPendingPCIeInit :: "int \<Rightarrow> int \<Rightarrow> 8 word list option \<Rightarrow> comm_domain \<Rightarrow> comm_domain" where
  "SetPendingPCIeInit rank nranks bootstrap d = d\<lparr>cm_init := \<lparr>pi_pending = True, pi_in_progress = False,
     pi_rank = rank, pi_nranks = nranks, pi_bootstrap = (case bootstrap of Some b \<Rightarrow> b | None \<Rightarrow> [])\<rparr>\<rparr>"

definition BeginPendingPCIeInit :: "comm_domain \<Rightarrow> (int \<times> int \<times> 8 word list) option \<times> comm_domain" where
  "BeginPendingPCIeInit d =
     (let p = cm_init d in
      if \<not> pi_pending p \<or> pi_in_progress p \<or> cm_pcie_comm d \<noteq> 0 then (None, d)
      else (Some (pi_rank p, pi_nranks p, pi_bootstrap p), d\<lparr>cm_init := p\<lparr>pi_in_progress := True\<rparr>\<rparr>))"

definition FinishPendingPCIeInit :: "comm_domain \<Rightarrow> comm_domain" where
  "FinishPendingPCIeInit d =
     d\<lparr>cm_init := (cm_init d)\<lparr>pi_pending := False, pi_in_progress := False, pi_bootstrap := []\<rparr>\<rparr>"

section \<open>The manager\<close>

record pending_collective =
  pd_domain :: addr                \<comment> \<open>the raw communicator whose domain it is\<close>
  pd_key :: op_key
  pd_plan :: plan
  pd_fast_success :: bool
  pd_pcie_success :: bool
  pd_user_recvbuf :: addr
  pd_tmp_recvbuf :: addr
  pd_owns_tmp :: bool
  pd_nranks :: int
  pd_rank :: int
  pd_fast_bytes :: size_t
  pd_pcie_bytes :: size_t
  pd_fast_timer :: "timer option"
  pd_pcie_timer :: "timer option"

record domain_manager =
  dm_domains :: "(addr, comm_domain) omap"
  dm_pending :: "(stream, pending_collective list) omap"

definition om_erase :: "'k \<Rightarrow> ('k, 'v) omap \<Rightarrow> ('k, 'v) omap" where
  "om_erase k m = filter (\<lambda>e. fst e \<noteq> k) m"

definition RegisterRawComm :: "addr \<Rightarrow> comm_domain_key \<Rightarrow> logical_comm_key \<Rightarrow> domain_manager \<Rightarrow> domain_manager" where
  "RegisterRawComm raw key logical m =
     (if raw = 0 then m else m\<lparr>dm_domains := om_put raw (new_domain key logical) (dm_domains m)\<rparr>)"

definition GetDomainByRawComm :: "addr \<Rightarrow> domain_manager \<Rightarrow> comm_domain option" where
  "GetDomainByRawComm raw m = om_get (dm_domains m) raw"

definition UnregisterRawComm :: "addr \<Rightarrow> domain_manager \<Rightarrow> domain_manager" where
  "UnregisterRawComm raw m = m\<lparr>dm_domains := om_erase raw (dm_domains m)\<rparr>"

text \<open>\<^verbatim>\<open>stream_to_pending_[stream].push_back(pending)\<close>, with no timers yet.\<close>

definition RegisterStreamPending :: "stream \<Rightarrow> pending_collective \<Rightarrow> domain_manager \<Rightarrow> domain_manager" where
  "RegisterStreamPending s p m =
     (let q = (case om_get (dm_pending m) s of None \<Rightarrow> [] | Some q \<Rightarrow> q)
      in m\<lparr>dm_pending := om_put s (q @ [p]) (dm_pending m)\<rparr>)"

definition AttachTimersToLastStreamPending :: "stream \<Rightarrow> timer \<Rightarrow> timer \<Rightarrow> domain_manager \<Rightarrow> domain_manager" where
  "AttachTimersToLastStreamPending s fast pcie m =
     (case om_get (dm_pending m) s of
        None \<Rightarrow> m
      | Some q \<Rightarrow> if q = [] then m
          else m\<lparr>dm_pending := om_put s (butlast q @ [(last q)\<lparr>pd_fast_timer := Some fast, pd_pcie_timer := Some pcie\<rparr>])
                   (dm_pending m)\<rparr>)"

definition TakeStreamPending :: "stream \<Rightarrow> domain_manager \<Rightarrow> pending_collective option \<times> domain_manager" where
  "TakeStreamPending s m =
     (case om_get (dm_pending m) s of
        None \<Rightarrow> (None, m)
      | Some [] \<Rightarrow> (None, m)
      | Some (p # q) \<Rightarrow> (Some p, m\<lparr>dm_pending := (if q = [] then om_erase s (dm_pending m)
          else om_put s q (dm_pending m))\<rparr>))"

definition dm_Clear :: "domain_manager \<Rightarrow> domain_manager" where
  "dm_Clear m = m\<lparr>dm_domains := [], dm_pending := []\<rparr>"

section \<open>The queue of a stream\<close>

definition pending_on :: "stream \<Rightarrow> domain_manager \<Rightarrow> pending_collective list" where
  "pending_on s m = (case om_get (dm_pending m) s of None \<Rightarrow> [] | Some q \<Rightarrow> q)"

definition dm_ok :: "domain_manager \<Rightarrow> bool" where
  "dm_ok m \<longleftrightarrow> om_ok (dm_domains m) \<and> om_ok (dm_pending m)"

lemma om_get_erase [simp]: "om_get (om_erase k m) l = (if l = k then None else om_get m l)"
  by (induction m) (auto simp: om_get_def om_erase_def)

lemma om_ok_erase [simp]: "om_ok m \<Longrightarrow> om_ok (om_erase k m)"
  by (induction m) (auto simp: om_ok_def om_erase_def)

lemma dm_ok_steps [simp]:
  "dm_ok m \<Longrightarrow> dm_ok (RegisterStreamPending s p m)" "dm_ok m \<Longrightarrow> dm_ok (snd (TakeStreamPending s m))"
  "dm_ok m \<Longrightarrow> dm_ok (AttachTimersToLastStreamPending s f g m)"
  "dm_ok m \<Longrightarrow> dm_ok (RegisterRawComm raw key logical m)" "dm_ok m \<Longrightarrow> dm_ok (UnregisterRawComm raw m)"
  "dm_ok (dm_Clear m)"
  by (auto simp: dm_ok_def RegisterStreamPending_def TakeStreamPending_def AttachTimersToLastStreamPending_def
    RegisterRawComm_def UnregisterRawComm_def dm_Clear_def Let_def split: option.split list.split)

lemma pending_register [simp]:
  "pending_on s (RegisterStreamPending t p m) = (if s = t then pending_on t m @ [p] else pending_on s m)"
  by (auto simp: pending_on_def RegisterStreamPending_def Let_def split: option.split)

lemma pending_take:
  "pending_on s (snd (TakeStreamPending t m)) = (if s = t then tl (pending_on t m) else pending_on s m)"
  "fst (TakeStreamPending t m) = (case pending_on t m of [] \<Rightarrow> None | p # q \<Rightarrow> Some p)"
  by (auto simp: pending_on_def TakeStreamPending_def split: option.split list.split)

lemma pending_attach:
  "pending_on s (AttachTimersToLastStreamPending t f g m) =
     (if s = t \<and> pending_on t m \<noteq> [] then butlast (pending_on t m) @
        [(last (pending_on t m))\<lparr>pd_fast_timer := Some f, pd_pcie_timer := Some g\<rparr>] else pending_on s m)"
  by (auto simp: pending_on_def AttachTimersToLastStreamPending_def split: option.split)

text \<open>The queue of one stream is a first-in first-out queue.\<close>

interpretation pending0: fifo "pending_on s" "RegisterStreamPending s" "\<lambda>m. snd (TakeStreamPending s m)" dm_ok "\<lambda>_. True" for s
  by unfold_locales (auto simp: pending_take)

section \<open>Any sequence of calls\<close>

datatype manager_call =
    CallRegister stream pending_collective
  | CallAttach stream timer timer
  | CallTake stream
  | CallRegisterComm addr comm_domain_key logical_comm_key
  | CallUnregisterComm addr

fun do_call :: "manager_call \<Rightarrow> domain_manager \<Rightarrow> (stream \<times> pending_collective) option \<times> domain_manager" where
  "do_call (CallRegister s p) m = (None, RegisterStreamPending s p m)"
| "do_call (CallAttach s f g) m = (None, AttachTimersToLastStreamPending s f g m)"
| "do_call (CallTake s) m = (case TakeStreamPending s m of (r, m') \<Rightarrow> (map_option (Pair s) r, m'))"
| "do_call (CallRegisterComm raw key logical) m = (None, RegisterRawComm raw key logical m)"
| "do_call (CallUnregisterComm raw) m = (None, UnregisterRawComm raw m)"

text \<open>The collectives taken by a sequence of calls, in order.\<close>

fun manager_run :: "manager_call list \<Rightarrow> domain_manager \<Rightarrow> (stream \<times> pending_collective) list \<times> domain_manager" where
  "manager_run [] m = ([], m)"
| "manager_run (c # cs) m = (case do_call c m of (r, m1) \<Rightarrow>
     case manager_run cs m1 of (out, m2) \<Rightarrow> ((case r of None \<Rightarrow> out | Some x \<Rightarrow> x # out), m2))"

definition no_timers :: "pending_collective \<Rightarrow> pending_collective" where
  "no_timers p = p\<lparr>pd_fast_timer := None, pd_pcie_timer := None\<rparr>"

definition registered_on :: "stream \<Rightarrow> manager_call list \<Rightarrow> pending_collective list" where
  "registered_on s cs = concat (map (\<lambda>c. case c of CallRegister t p \<Rightarrow> if t = s then [p] else [] | _ \<Rightarrow> []) cs)"

definition taken_on :: "stream \<Rightarrow> (stream \<times> pending_collective) list \<Rightarrow> pending_collective list" where
  "taken_on s out = map snd (filter (\<lambda>x. fst x = s) out)"

lemma no_timers_upd [simp]: "no_timers (p\<lparr>pd_fast_timer := f, pd_pcie_timer := g\<rparr>) = no_timers p"
  by (simp add: no_timers_def)

lemma map_last: "q \<noteq> [] \<Longrightarrow> f x = f (last q) \<Longrightarrow> map f (butlast q @ [x]) = map f q"
  by (metis append_butlast_last_id list.simps(8,9) map_append)

lemma pending_other [simp]:
  "pending_on s (RegisterRawComm raw key logical m) = pending_on s m" "pending_on s (UnregisterRawComm raw m) = pending_on s m"
  by (simp_all add: pending_on_def RegisterRawComm_def UnregisterRawComm_def)

text \<open>One call: what is pending and what is taken, up to timers.\<close>

lemma do_call_order:
  assumes "do_call c m = (r, m')"
  shows "map no_timers (pending_on s m @ registered_on s [c]) =
    map no_timers (taken_on s (case r of None \<Rightarrow> [] | Some x \<Rightarrow> [x]) @ pending_on s m')"
proof (cases c)
  case (CallAttach t f g)
  then show ?thesis using assms
    by (auto simp: registered_on_def taken_on_def pending_attach map_last simp del: map_append)
next
  case (CallTake t)
  then show ?thesis using assms pending_take(1)[of s t m] pending_take(2)[of t m]
    by (auto simp: registered_on_def taken_on_def split: prod.splits list.splits)
qed (use assms in \<open>auto simp: registered_on_def taken_on_def\<close>)

text \<open>
  C40. Completions are handled in launch order. For every stream and every sequence of calls
  of the manager, on this and on other streams, the pending collectives taken so far are the
  first ones registered on that stream, in the order of registration, and those still pending
  are the rest; a record differs from the registered one in its timers at most.
\<close>

theorem completions_in_order:
  "map no_timers (pending_on s m @ registered_on s cs) =
     map no_timers (taken_on s (fst (manager_run cs m)) @ pending_on s (snd (manager_run cs m)))"
proof (induction cs arbitrary: m)
  case Nil
  then show ?case by (simp add: registered_on_def taken_on_def)
next
  case (Cons c cs)
  obtain r m1 where c: "do_call c m = (r, m1)" by fastforce
  obtain out m2 where d: "manager_run cs m1 = (out, m2)" by fastforce
  have "registered_on s (c # cs) = registered_on s [c] @ registered_on s cs" by (simp add: registered_on_def)
  then have "map no_timers (pending_on s m @ registered_on s (c # cs)) =
      map no_timers (taken_on s (case r of None \<Rightarrow> [] | Some x \<Rightarrow> [x])) @ map no_timers (pending_on s m1 @ registered_on s cs)"
    using do_call_order[OF c, of s] by simp
  also have "\<dots> = map no_timers (taken_on s (fst (manager_run (c # cs) m)) @ pending_on s (snd (manager_run (c # cs) m)))"
    using Cons.IH[of m1] by (auto simp: c d taken_on_def split: option.split)
  finally show ?case .
qed

end
