(* ===== verification/Dtypes.thy ===== *)
theory Dtypes
  imports Prelude
begin

text \<open>
  Element types and reduction operators of the vendor libraries and of PCCL, and their
  mapping (\<^verbatim>\<open>libampccl/backend/dtype\<close>, \<^verbatim>\<open>backend/pcie_backend.cc\<close>). A vendor type is the
  integer the application passes.
\<close>

datatype build = BUILD_NCCL | BUILD_HCCL

datatype hccl_type = HInt8 | HInt16 | HInt32 | HFloat16 | HFloat | HInt64 | HUint64 | HUint8 | HUint16
  | HUint32 | HFloat64 | HBfloat16 | HInt128 | HReserved

datatype nccl_type = NInt8 | NUint8 | NInt32 | NUint32 | NInt64 | NUint64 | NFloat16 | NFloat32 | NFloat64

datatype pccl_type = pcclInt8 | pcclUint8 | pcclInt32 | pcclUint32 | pcclInt64 | pcclUint64 | pcclFloat16
  | pcclFloat32 | pcclFloat64 | pcclBfloat16

datatype pccl_op = pcclReduceSum | pcclReduceMax | pcclReduceMin

text \<open>The enumerators of a vendor's integer; other integers are no enumerator.\<close>

definition hccl_type_of :: "int \<Rightarrow> hccl_type option" where
  "hccl_type_of d =
     (if d = 255 then Some HReserved
      else if 0 \<le> d \<and> d \<le> 12 then Some ([HInt8, HInt16, HInt32, HFloat16, HFloat, HInt64, HUint64, HUint8,
        HUint16, HUint32, HFloat64, HBfloat16, HInt128] ! nat d)
      else None)"

definition nccl_type_of :: "int \<Rightarrow> nccl_type option" where
  "nccl_type_of d =
     (if 0 \<le> d \<and> d \<le> 8 then Some ([NInt8, NUint8, NInt32, NUint32, NInt64, NUint64, NFloat16, NFloat32,
        NFloat64] ! nat d) else None)"

fun ElemSizeHcclDataType :: "hccl_type option \<Rightarrow> size_t" where
  "ElemSizeHcclDataType (Some HInt8) = 1"
| "ElemSizeHcclDataType (Some HUint8) = 1"
| "ElemSizeHcclDataType (Some HInt16) = 2"
| "ElemSizeHcclDataType (Some HFloat16) = 2"
| "ElemSizeHcclDataType (Some HUint16) = 2"
| "ElemSizeHcclDataType (Some HBfloat16) = 2"
| "ElemSizeHcclDataType (Some HFloat) = 4"
| "ElemSizeHcclDataType (Some HInt32) = 4"
| "ElemSizeHcclDataType (Some HUint32) = 4"
| "ElemSizeHcclDataType (Some HInt64) = 8"
| "ElemSizeHcclDataType (Some HUint64) = 8"
| "ElemSizeHcclDataType (Some HFloat64) = 8"
| "ElemSizeHcclDataType (Some HInt128) = 16"
| "ElemSizeHcclDataType _ = 0"

definition ElemSizeHcclDataTypeFromInt :: "int \<Rightarrow> size_t" where
  "ElemSizeHcclDataTypeFromInt d =
     (if d \<in> {0, 7, 13} then 1 else if d \<in> {1, 3, 8, 11} then 2 else if d \<in> {2, 4, 9, 12} then 4
      else if d \<in> {5, 6, 10} then 8 else if d = 14 then 16 else 0)"

fun ElemSizeNcclDataType :: "nccl_type option \<Rightarrow> size_t" where
  "ElemSizeNcclDataType (Some NInt8) = 1"
| "ElemSizeNcclDataType (Some NUint8) = 1"
| "ElemSizeNcclDataType (Some NFloat16) = 2"
| "ElemSizeNcclDataType (Some NInt32) = 4"
| "ElemSizeNcclDataType (Some NUint32) = 4"
| "ElemSizeNcclDataType (Some NFloat32) = 4"
| "ElemSizeNcclDataType (Some NInt64) = 8"
| "ElemSizeNcclDataType (Some NUint64) = 8"
| "ElemSizeNcclDataType (Some NFloat64) = 8"
| "ElemSizeNcclDataType None = 0"

definition NativeDataTypeElemSize :: "build \<Rightarrow> int \<Rightarrow> size_t" where
  "NativeDataTypeElemSize b d = (case b of
      BUILD_NCCL \<Rightarrow> ElemSizeNcclDataType (nccl_type_of d)
    | BUILD_HCCL \<Rightarrow> (let s = ElemSizeHcclDataType (hccl_type_of d) in
        if s \<noteq> 0 then s else ElemSizeHcclDataTypeFromInt d))"

fun MapHcclDataTypeToPccl :: "hccl_type option \<Rightarrow> pccl_type option" where
  "MapHcclDataTypeToPccl (Some HInt8) = Some pcclInt8"
| "MapHcclDataTypeToPccl (Some HUint8) = Some pcclUint8"
| "MapHcclDataTypeToPccl (Some HInt32) = Some pcclInt32"
| "MapHcclDataTypeToPccl (Some HUint32) = Some pcclUint32"
| "MapHcclDataTypeToPccl (Some HInt64) = Some pcclInt64"
| "MapHcclDataTypeToPccl (Some HUint64) = Some pcclUint64"
| "MapHcclDataTypeToPccl (Some HFloat16) = Some pcclFloat16"
| "MapHcclDataTypeToPccl (Some HFloat) = Some pcclFloat32"
| "MapHcclDataTypeToPccl (Some HFloat64) = Some pcclFloat64"
| "MapHcclDataTypeToPccl (Some HBfloat16) = Some pcclBfloat16"
| "MapHcclDataTypeToPccl _ = None"

fun PcclDataTypeElementSize :: "pccl_type \<Rightarrow> size_t" where
  "PcclDataTypeElementSize pcclInt8 = 1"
| "PcclDataTypeElementSize pcclUint8 = 1"
| "PcclDataTypeElementSize pcclFloat16 = 2"
| "PcclDataTypeElementSize pcclBfloat16 = 2"
| "PcclDataTypeElementSize pcclInt32 = 4"
| "PcclDataTypeElementSize pcclUint32 = 4"
| "PcclDataTypeElementSize pcclFloat32 = 4"
| "PcclDataTypeElementSize pcclInt64 = 8"
| "PcclDataTypeElementSize pcclUint64 = 8"
| "PcclDataTypeElementSize pcclFloat64 = 8"

definition HcclPcclDataTypeSizeMatches :: "build \<Rightarrow> int \<Rightarrow> pccl_type \<Rightarrow> bool" where
  "HcclPcclDataTypeSizeMatches b d t \<longleftrightarrow> NativeDataTypeElemSize b d = PcclDataTypeElementSize t"

definition MapHcclReduceOpToPccl :: "int \<Rightarrow> pccl_op option" where
  "MapHcclReduceOpToPccl op = (if op = 0 then Some pcclReduceSum else if op = 2 then Some pcclReduceMax
     else if op = 3 then Some pcclReduceMin else None)"

text \<open>\<^verbatim>\<open>GetPcclDataType\<close> and the \<^verbatim>\<open>Supports\<close> queries of the PCIe backend.\<close>

definition GetPcclDataType :: "build \<Rightarrow> int \<Rightarrow> pccl_type option" where
  "GetPcclDataType b d = (case MapHcclDataTypeToPccl (hccl_type_of d) of
      Some t \<Rightarrow> if HcclPcclDataTypeSizeMatches b d t then Some t else None
    | None \<Rightarrow> None)"

definition SupportsAllReduce :: "bool \<Rightarrow> build \<Rightarrow> int \<Rightarrow> int \<Rightarrow> bool" where
  "SupportsAllReduce pcie b d op \<longleftrightarrow> pcie \<and> GetPcclDataType b d \<noteq> None \<and> MapHcclReduceOpToPccl op \<noteq> None"

definition SupportsAllGather :: "bool \<Rightarrow> build \<Rightarrow> int \<Rightarrow> bool" where
  "SupportsAllGather pcie b d \<longleftrightarrow> pcie \<and> GetPcclDataType b d \<noteq> None"

definition SupportsReduceScatter :: "bool \<Rightarrow> build \<Rightarrow> int \<Rightarrow> int \<Rightarrow> bool" where
  "SupportsReduceScatter pcie b d op \<longleftrightarrow> pcie \<and> GetPcclDataType b d \<noteq> None \<and> MapHcclReduceOpToPccl op \<noteq> None"

definition SupportsAllToAll :: "bool \<Rightarrow> build \<Rightarrow> int \<Rightarrow> bool" where
  "SupportsAllToAll pcie b d \<longleftrightarrow> pcie \<and> GetPcclDataType b d \<noteq> None"

text \<open>A supported type has elements of the same size on both sides, 1, 2, 4 or 8 bytes.\<close>

lemma supported_size:
  assumes "GetPcclDataType b d = Some t"
  shows "NativeDataTypeElemSize b d = PcclDataTypeElementSize t" "NativeDataTypeElemSize b d \<in> {1, 2, 4, 8}"
proof -
  show e: "NativeDataTypeElemSize b d = PcclDataTypeElementSize t"
    using assms by (auto simp: GetPcclDataType_def HcclPcclDataTypeSizeMatches_def split: option.splits if_splits)
  show "NativeDataTypeElemSize b d \<in> {1, 2, 4, 8}" unfolding e by (cases t) simp_all
qed

text \<open>
  In an NCCL build the same table is applied to NCCL's own enumerators: unsigned 64-bit
  integers pass the size check as signed ones, and 32-bit floating point is refused.
\<close>

lemma nccl_types_misread:
  "nccl_type_of 5 = Some NUint64" "GetPcclDataType BUILD_NCCL 5 = Some pcclInt64"
  "nccl_type_of 7 = Some NFloat32" "GetPcclDataType BUILD_NCCL 7 = None"
  by (simp_all add: nccl_type_of_def GetPcclDataType_def hccl_type_of_def HcclPcclDataTypeSizeMatches_def
    NativeDataTypeElemSize_def)

end
