(* ===== verification/CollectiveOps.thy ===== *)
theory CollectiveOps
  imports DomainManager Dtypes "HOL-Library.State_Monad"
begin

text \<open>
  What a collective is made of: calls of the device runtime, value synchronisation between
  the user stream and the PCIe stream (\<^verbatim>\<open>libampccl/core/value_sync.cc\<close>, \<^verbatim>\<open>core/domain.cc\<close>),
  timed backend calls (\<^verbatim>\<open>backend/fast_backend.cc\<close>, \<^verbatim>\<open>backend/original_collective_api.cc\<close>,
  \<^verbatim>\<open>backend/pcie_backend.cc\<close>, \<^verbatim>\<open>backend/memory/device_mem.cc\<close>) and the bookkeeping at the end.
  Effects are a state monad over what the host has issued so far. Each call of the runtime
  may be refused; a refused call enqueues nothing.
\<close>

section \<open>World\<close>

record vs_context =
  vx_tokens :: addr
  vx_next :: size_t

record vc_world =
  vw_log :: host_log
  vw_calls :: nat                \<comment> \<open>runtime calls so far\<close>
  vw_allocs :: nat
  vw_events :: nat
  vw_contexts :: "(stream, vs_context) omap"
  vw_manager :: domain_manager

type_synonym 'a vc = "(vc_world, 'a) state"

text \<open>
  \<open>ve_result\<close> answers the n-th runtime call, \<open>ve_event\<close> the n-th creation of an event and
  \<open>ve_alloc\<close> an allocation; the flags say what the build and the configuration enable and
  which vendor functions are registered.
\<close>

record vc_env =
  ve_result :: "nat \<Rightarrow> host_act list \<Rightarrow> int"
  ve_event :: "nat \<Rightarrow> bool"          \<comment> \<open>whether an event could be created\<close>
  ve_alloc :: "vc_world \<Rightarrow> size_t \<Rightarrow> addr"
  ve_now :: "nat \<Rightarrow> real"
  ve_build :: build
  ve_acl :: bool
  ve_pcie :: bool
  ve_sync_fn :: bool
  ve_fast_fn :: "collective_type \<Rightarrow> bool"
  ve_fast_v :: "collective_type \<Rightarrow> bool"
  ve_fast_bw_log :: bool
  ve_sync_before_callback :: bool
  ve_scaled :: "size_t \<Rightarrow> nat"
  ve_bucket_base :: size_t
  ve_plan :: "op_key \<Rightarrow> plan"      \<comment> \<open>the plan \<^verbatim>\<open>PrepareCollectiveLaunch\<close> makes\<close>

definition runtime_call :: "vc_env \<Rightarrow> host_act list \<Rightarrow> int vc" where
  "runtime_call env acts = State (\<lambda>w.
     (ve_result env (vw_calls w) acts, w\<lparr>vw_calls := vw_calls w + 1,
        vw_log := vw_log w @ (if ve_result env (vw_calls w) acts = 0 then acts else [])\<rparr>))"

definition issue :: "vc_env \<Rightarrow> stream \<Rightarrow> queue_op \<Rightarrow> bool vc" where
  "issue env s op = do { r \<leftarrow> runtime_call env [Issue s op]; State_Monad.return (r = 0) }"

definition clock :: "vc_env \<Rightarrow> real vc" where
  "clock env = State (\<lambda>w. (ve_now env (vw_calls w), w))"

fun each :: "('a \<Rightarrow> unit vc) \<Rightarrow> 'a list \<Rightarrow> unit vc" where
  "each f [] = State_Monad.return ()"
| "each f (x # xs) = do { f x; each f xs }"

section \<open>Device memory\<close>

definition AllocDeviceBuffer :: "vc_env \<Rightarrow> size_t \<Rightarrow> addr vc" where
  "AllocDeviceBuffer env bytes =
     (if bytes = 0 then State_Monad.return 0
      else State (\<lambda>w. (ve_alloc env w bytes, w\<lparr>vw_allocs := vw_allocs w + 1\<rparr>)))"

definition FreeDeviceBuffer :: "vc_env \<Rightarrow> addr \<Rightarrow> unit vc" where
  "FreeDeviceBuffer env p =
     (if p \<noteq> 0 then do { runtime_call env [FreeNow p]; State_Monad.return () } else State_Monad.return ())"

definition FreeDeviceBufferAsync :: "vc_env \<Rightarrow> addr \<Rightarrow> stream \<Rightarrow> unit vc" where
  "FreeDeviceBufferAsync env p s =
     (if ve_acl env then FreeDeviceBuffer env p
      else if p = 0 \<or> s = 0 then State_Monad.return ()
      else do { issue env s (FreeAsync p); State_Monad.return () })"

definition DeviceMemcpyD2DAsync :: "vc_env \<Rightarrow> addr \<Rightarrow> addr \<Rightarrow> size_t \<Rightarrow> stream \<Rightarrow> unit vc" where
  "DeviceMemcpyD2DAsync env dst src bytes s =
     (if bytes = 0 \<or> dst = 0 \<or> src = 0 \<or> s = 0 then State_Monad.return ()
      else do { issue env s (CopyAsync dst src bytes); State_Monad.return () })"

section \<open>Value synchronisation\<close>

record value_ticket =
  tk_input :: addr
  tk_completion :: addr
  tk_seq :: size_t

definition kRingSize :: size_t where
  "kRingSize = 64"

definition no_ticket :: value_ticket where
  "no_ticket = \<lparr>tk_input = 0, tk_completion = 0, tk_seq = 0\<rparr>"

text \<open>Words are 8 bytes; the completion words follow the input words.\<close>

definition input_word :: "addr \<Rightarrow> size_t \<Rightarrow> addr" where
  "input_word tokens seq = tokens + 8 * (seq mod kRingSize)"

definition completion_word :: "addr \<Rightarrow> size_t \<Rightarrow> addr" where
  "completion_word tokens seq = tokens + 8 * (kRingSize + seq mod kRingSize)"

definition NextTicket :: "vs_context \<Rightarrow> value_ticket \<times> vs_context" where
  "NextTicket c =
     (if vx_tokens c = 0 \<or> vx_next c = two64 - 1 then (no_ticket, c)
      else (\<lparr>tk_input = input_word (vx_tokens c) (vx_next c),
             tk_completion = completion_word (vx_tokens c) (vx_next c), tk_seq = vx_next c\<rparr>,
            c\<lparr>vx_next := vx_next c + 1\<rparr>))"

text \<open>\<^verbatim>\<open>Initialize\<close>: the words are allocated and set to zero.\<close>

definition context_Initialize :: "vc_env \<Rightarrow> vs_context option vc" where
  "context_Initialize env =
     (if \<not> ve_acl env then State_Monad.return None
      else do {
        tokens \<leftarrow> AllocDeviceBuffer env (2 * kRingSize * 8);
        if tokens = 0 then State_Monad.return None
        else do {
          r \<leftarrow> runtime_call env [];
          if r \<noteq> 0 then do { FreeDeviceBuffer env tokens; State_Monad.return None }
          else State_Monad.return (Some \<lparr>vx_tokens = tokens, vx_next = 1\<rparr>) } })"

definition set_context :: "stream \<Rightarrow> vs_context \<Rightarrow> unit vc" where
  "set_context s c = State (\<lambda>w. ((), w\<lparr>vw_contexts := om_put s c (vw_contexts w)\<rparr>))"

definition get_context :: "stream \<Rightarrow> vs_context option vc" where
  "get_context s = State (\<lambda>w. (om_get (vw_contexts w) s, w))"

definition take_ticket :: "stream \<Rightarrow> vs_context \<Rightarrow> value_ticket option vc" where
  "take_ticket s c = (case NextTicket c of (tk, c') \<Rightarrow> do {
     set_context s c';
     State_Monad.return (if tk_input tk = 0 \<or> tk_completion tk = 0 \<or> tk_seq tk = 0 then None else Some tk) })"

definition BeginValueSyncSubmission :: "vc_env \<Rightarrow> comm_domain \<Rightarrow> stream \<Rightarrow> value_ticket option vc" where
  "BeginValueSyncSubmission env d user =
     (if \<not> ve_acl env \<or> user = 0 \<or> cm_pcie_stream d = 0 then State_Monad.return None
      else do {
        known \<leftarrow> get_context user;
        case known of
          Some c \<Rightarrow> take_ticket user c
        | None \<Rightarrow> do {
            created \<leftarrow> context_Initialize env;
            case created of None \<Rightarrow> State_Monad.return None | Some c \<Rightarrow> take_ticket user c } })"

definition EnqueueInputReady :: "vc_env \<Rightarrow> value_ticket \<Rightarrow> stream \<Rightarrow> bool vc" where
  "EnqueueInputReady env tk s =
     (if \<not> ve_acl env \<or> tk_input tk = 0 \<or> tk_seq tk = 0 \<or> s = 0 then State_Monad.return False
      else issue env s (ValueWrite (tk_input tk) (tk_seq tk)))"

definition EnqueueInputWait :: "vc_env \<Rightarrow> value_ticket \<Rightarrow> stream \<Rightarrow> bool vc" where
  "EnqueueInputWait env tk s =
     (if \<not> ve_acl env \<or> tk_input tk = 0 \<or> tk_seq tk = 0 \<or> s = 0 then State_Monad.return False
      else issue env s (ValueWait (tk_input tk) (tk_seq tk)))"

definition EnqueueWrite :: "vc_env \<Rightarrow> value_ticket \<Rightarrow> stream \<Rightarrow> bool vc" where
  "EnqueueWrite env tk s =
     (if \<not> ve_acl env \<or> tk_completion tk = 0 \<or> tk_seq tk = 0 \<or> s = 0 then State_Monad.return False
      else issue env s (ValueWrite (tk_completion tk) (tk_seq tk)))"

definition EnqueueWait :: "vc_env \<Rightarrow> value_ticket \<Rightarrow> stream \<Rightarrow> bool vc" where
  "EnqueueWait env tk s =
     (if \<not> ve_acl env \<or> tk_completion tk = 0 \<or> tk_seq tk = 0 \<or> s = 0 then State_Monad.return False
      else issue env s (ValueWait (tk_completion tk) (tk_seq tk)))"

section \<open>Timers on streams\<close>

definition fresh_event :: "vc_env \<Rightarrow> (bool \<times> nat) vc" where
  "fresh_event env = State (\<lambda>w. ((ve_event env (vw_events w), vw_events w), w\<lparr>vw_events := vw_events w + 1\<rparr>))"

definition make_timer :: "vc_env \<Rightarrow> timer vc" where
  "make_timer env = do {
     (ok1, e1) \<leftarrow> fresh_event env;
     (ok2, e2) \<leftarrow> fresh_event env;
     State_Monad.return (new_timer ok1 ok2 e1 e2) }"

definition start_timer :: "vc_env \<Rightarrow> timer \<Rightarrow> stream \<Rightarrow> timer vc" where
  "start_timer env tm s = do {
     now \<leftarrow> clock env;
     if tm_use_device tm \<and> s \<noteq> 0
     then do { ok \<leftarrow> issue env s (EventRecord (tm_start_event tm)); State_Monad.return (timer_Start now ok s tm) }
     else State_Monad.return (timer_Start now False s tm) }"

definition stop_timer :: "vc_env \<Rightarrow> timer \<Rightarrow> stream \<Rightarrow> timer vc" where
  "stop_timer env tm s = do {
     now \<leftarrow> clock env;
     if tm_use_device tm \<and> s \<noteq> 0
     then do { ok \<leftarrow> issue env s (EventRecord (tm_end_event tm)); State_Monad.return (timer_Stop now ok s tm) }
     else State_Monad.return (timer_Stop now False s tm) }"

definition WaitEventOnStream :: "vc_env \<Rightarrow> timer \<Rightarrow> stream \<Rightarrow> unit vc" where
  "WaitEventOnStream env tm s =
     (if CanUseRecordedEvents tm \<and> s \<noteq> 0
      then do { issue env s (EventWait (tm_end_event tm)); State_Monad.return () }
      else State_Monad.return ())"

section \<open>Backends\<close>

datatype backend_code = Success | InvalidArgument | UnhandledError | InternalError

record backend_result =
  br_code :: backend_code
  br_original :: int

definition ok_result :: backend_result where
  "ok_result = \<lparr>br_code = Success, br_original = 0\<rparr>"

definition error_result :: backend_result where
  "error_result = \<lparr>br_code = UnhandledError, br_original = 0\<rparr>"

definition IsOk :: "backend_result \<Rightarrow> bool" where
  "IsOk r \<longleftrightarrow> br_code r = Success"

definition IntResultToBackend :: "int \<Rightarrow> backend_result" where
  "IntResultToBackend r = (if r = 0 then ok_result else \<lparr>br_code = UnhandledError, br_original = r\<rparr>)"

definition stream_Synchronize :: "vc_env \<Rightarrow> stream \<Rightarrow> backend_result vc" where
  "stream_Synchronize env s =
     (if \<not> ve_sync_fn env then State_Monad.return error_result
      else do { r \<leftarrow> runtime_call env [SyncStream s]; State_Monad.return (IntResultToBackend r) })"

text \<open>A call of the vendor library, which must have been found.\<close>

definition fast_backend :: "vc_env \<Rightarrow> bool \<Rightarrow> fast_call \<Rightarrow> stream \<Rightarrow> backend_result vc" where
  "fast_backend env registered call s =
     (if \<not> registered then State_Monad.return error_result
      else do { r \<leftarrow> runtime_call env [Issue s (FastOp call)]; State_Monad.return (IntResultToBackend r) })"

definition pcie_backend :: "vc_env \<Rightarrow> comm_domain \<Rightarrow> bool \<Rightarrow> pcie_call \<Rightarrow> stream \<Rightarrow> backend_result vc" where
  "pcie_backend env d supported call s =
     (if \<not> ve_pcie env \<or> cm_pcie_comm d = 0 then State_Monad.return error_result
      else if \<not> supported then State_Monad.return \<lparr>br_code = InvalidArgument, br_original = 0\<rparr>
      else do { r \<leftarrow> runtime_call env [Issue s (PcieOp call)]; State_Monad.return (IntResultToBackend r) })"

text \<open>A backend call between the start and the stop of its timer.\<close>

definition timed :: "vc_env \<Rightarrow> timer \<Rightarrow> stream \<Rightarrow> backend_result vc \<Rightarrow> (timer \<times> backend_result) vc" where
  "timed env tm s call = do {
     tm1 \<leftarrow> start_timer env tm s;
     r \<leftarrow> call;
     tm2 \<leftarrow> stop_timer env tm1 s;
     State_Monad.return (tm2, r) }"

section \<open>Dependencies between the streams\<close>

definition PcieWaitForUserInputIfNeeded :: "vc_env \<Rightarrow> comm_domain \<Rightarrow> stream \<Rightarrow> value_ticket option \<Rightarrow> bool vc" where
  "PcieWaitForUserInputIfNeeded env d user vs =
     (if user = 0 \<or> cm_pcie_stream d = 0 then State_Monad.return False
      else do {
        ready \<leftarrow> (case vs of None \<Rightarrow> State_Monad.return False | Some tk \<Rightarrow> do {
                  a \<leftarrow> EnqueueInputReady env tk user;
                  if a then EnqueueInputWait env tk (cm_pcie_stream d) else State_Monad.return False });
        if ready then State_Monad.return True
        else do { r \<leftarrow> stream_Synchronize env user; State_Monad.return (IsOk r) } })"

definition uses_pcie :: "plan \<Rightarrow> bool" where
  "uses_pcie plan \<longleftrightarrow> pl_use_pcie plan \<and> pl_pcie plan \<noteq> 0"

definition PcieCompleteOnUserStreamIfNeeded ::
  "vc_env \<Rightarrow> comm_domain \<Rightarrow> stream \<Rightarrow> plan \<Rightarrow> value_ticket option \<Rightarrow> timer \<Rightarrow> unit vc" where
  "PcieCompleteOnUserStreamIfNeeded env d user plan vs tm =
     (if uses_pcie plan \<and> cm_pcie_stream d \<noteq> 0 \<and> user \<noteq> 0
      then do {
        signalled \<leftarrow> (case vs of None \<Rightarrow> State_Monad.return False | Some tk \<Rightarrow> do {
                  a \<leftarrow> EnqueueWrite env tk (cm_pcie_stream d);
                  if a then EnqueueWait env tk user else State_Monad.return False });
        if signalled then State_Monad.return () else WaitEventOnStream env tm user }
      else State_Monad.return ())"

definition SyncPCIeStreamBeforeCallbackIfEnabled :: "vc_env \<Rightarrow> comm_domain \<Rightarrow> plan \<Rightarrow> unit vc" where
  "SyncPCIeStreamBeforeCallbackIfEnabled env d plan =
     (if \<not> ve_sync_before_callback env \<or> \<not> pl_use_pcie plan \<or> pl_pcie plan = 0 \<or> cm_pcie_stream d = 0
      then State_Monad.return ()
      else do { stream_Synchronize env (cm_pcie_stream d); State_Monad.return () })"

definition EnqueueSegmentedMergeOnStream ::
  "vc_env \<Rightarrow> stream \<Rightarrow> addr \<Rightarrow> addr \<Rightarrow> int \<Rightarrow> size_t \<Rightarrow> size_t \<Rightarrow> bool \<Rightarrow> unit vc" where
  "EnqueueSegmentedMergeOnStream env s user tmp nranks fast_bytes pcie_bytes owns_tmp =
     (if s = 0 \<or> user = 0 \<or> tmp = 0 \<or> nranks \<le> 0 \<or> fast_bytes = 0
      then (if owns_tmp then FreeDeviceBufferAsync env tmp s else State_Monad.return ())
      else do {
        each (\<lambda>r. DeviceMemcpyD2DAsync env (add64 user (mul64 r (add64 fast_bytes pcie_bytes)))
                    (add64 tmp (mul64 r fast_bytes)) fast_bytes s) [0..<nat nranks];
        if owns_tmp then FreeDeviceBufferAsync env tmp s else State_Monad.return () })"

section \<open>The end of a launch\<close>

definition EnqueueCollectiveCompletionCallback :: "vc_env \<Rightarrow> stream \<Rightarrow> unit vc" where
  "EnqueueCollectiveCompletionCallback env s =
     (if s = 0 then State_Monad.return () else do { issue env s HostCallback; State_Monad.return () })"

definition on_manager :: "(domain_manager \<Rightarrow> domain_manager) \<Rightarrow> unit vc" where
  "on_manager f = State (\<lambda>w. ((), w\<lparr>vw_manager := f (vw_manager w)\<rparr>))"

definition pending_record :: "addr \<Rightarrow> op_key \<Rightarrow> plan \<Rightarrow> bool \<Rightarrow> bool \<Rightarrow> pending_collective" where
  "pending_record raw key plan fast_ok pcie_ok = \<lparr>pd_domain = raw, pd_key = key, pd_plan = plan,
     pd_fast_success = fast_ok, pd_pcie_success = pcie_ok, pd_user_recvbuf = 0, pd_tmp_recvbuf = 0,
     pd_owns_tmp = True, pd_nranks = 0, pd_rank = 0, pd_fast_bytes = 0, pd_pcie_bytes = 0,
     pd_fast_timer = None, pd_pcie_timer = None\<rparr>"

text \<open>The record, its timers and the callback that will take it.\<close>

definition finish_launch :: "vc_env \<Rightarrow> stream \<Rightarrow> pending_collective \<Rightarrow> timer \<Rightarrow> timer \<Rightarrow> unit vc" where
  "finish_launch env s p fast_tm pcie_tm = do {
     on_manager (RegisterStreamPending s p);
     on_manager (AttachTimersToLastStreamPending s fast_tm pcie_tm);
     EnqueueCollectiveCompletionCallback env s }"

definition join_results :: "backend_result \<Rightarrow> backend_result \<Rightarrow> backend_result" where
  "join_results fast_r pcie_r = (if \<not> IsOk fast_r then fast_r else if \<not> IsOk pcie_r then pcie_r else ok_result)"

end
