(* ===== verification/VirtualCollective.thy ===== *)
theory VirtualCollective
  imports CollectiveOps
begin

text \<open>
  The four collectives of the orchestrator (\<^verbatim>\<open>libampccl/core/virtual_collective.h\<close>): each
  splits its message between the fast path on the user stream and the PCIe path on the
  domain's own stream, orders the two streams, and registers the completion. The branches
  the source repeats after its early return for fast-only plans cannot be taken and are not
  repeated here. Counts and offsets wrap around as \<^verbatim>\<open>size_t\<close>.
\<close>

section \<open>Keys, plans and the fast-only path\<close>

definition launch_key :: "vc_env \<Rightarrow> comm_domain \<Rightarrow> collective_type \<Rightarrow> size_t \<Rightarrow> int \<Rightarrow> op_key" where
  "launch_key env d op bytes datatype = the (MakeOpKey (ve_scaled env) (ve_bucket_base env) (cm_pcie_nranks d)
     (unat (lk_hash (cm_logical d))) op bytes datatype)"

definition launch_plan :: "vc_env \<Rightarrow> op_key \<Rightarrow> bool \<Rightarrow> plan" where
  "launch_plan env key supported =
     (let p = ve_plan env key in
      if pl_use_pcie p \<and> \<not> supported then ForceFastOnly (word_of_nat (ok_bytes key)) p else p)"

definition fast_bytes :: "plan \<Rightarrow> size_t" where
  "fast_bytes plan = unat (pl_fast plan)"

definition pcie_bytes :: "plan \<Rightarrow> size_t" where
  "pcie_bytes plan = unat (pl_pcie plan)"

definition fast_only ::
  "vc_env \<Rightarrow> addr \<Rightarrow> op_key \<Rightarrow> plan \<Rightarrow> fast_call \<Rightarrow> timer \<Rightarrow> timer \<Rightarrow> stream \<Rightarrow> backend_result vc" where
  "fast_only env raw key plan call fast_tm pcie_tm s =
     (let op = ok_op key in
      if \<not> ve_fast_bw_log env then fast_backend env (ve_fast_fn env op) call s
      else do {
        (tm, r) \<leftarrow> timed env fast_tm s (fast_backend env (ve_fast_fn env op) call s);
        finish_launch env s (pending_record raw key plan (IsOk r) True) tm pcie_tm;
        State_Monad.return r })"

text \<open>The fast path alone when no packing buffer can be had.\<close>

definition fast_fallback ::
  "vc_env \<Rightarrow> addr \<Rightarrow> op_key \<Rightarrow> plan \<Rightarrow> fast_call \<Rightarrow> timer \<Rightarrow> timer \<Rightarrow> stream \<Rightarrow> backend_result vc" where
  "fast_fallback env raw key plan call fast_tm pcie_tm s = do {
     (tm, r) \<leftarrow> timed env fast_tm s (fast_backend env (ve_fast_fn env (ok_op key)) call s);
     finish_launch env s (pending_record raw key plan (IsOk r) True) tm pcie_tm;
     State_Monad.return r }"

section \<open>The PCIe path\<close>

text \<open>The PCIe call, the dependency of the user stream on it and the optional synchronisation.\<close>

definition pcie_part ::
  "vc_env \<Rightarrow> comm_domain \<Rightarrow> plan \<Rightarrow> value_ticket option \<Rightarrow> bool \<Rightarrow> pcie_call \<Rightarrow> timer \<Rightarrow> stream \<Rightarrow>
   (timer \<times> backend_result) vc" where
  "pcie_part env d plan vs supported call pcie_tm user = do {
     (tm, r) \<leftarrow> timed env pcie_tm (cm_pcie_stream d) (pcie_backend env d supported call (cm_pcie_stream d));
     PcieCompleteOnUserStreamIfNeeded env d user plan vs tm;
     SyncPCIeStreamBeforeCallbackIfEnabled env d plan;
     State_Monad.return (tm, r) }"

text \<open>A collective on the PCIe path only.\<close>

definition pcie_only ::
  "vc_env \<Rightarrow> comm_domain \<Rightarrow> addr \<Rightarrow> op_key \<Rightarrow> plan \<Rightarrow> value_ticket option \<Rightarrow> bool \<Rightarrow> pcie_call \<Rightarrow> timer \<Rightarrow> timer \<Rightarrow>
   stream \<Rightarrow> backend_result vc" where
  "pcie_only env d raw key plan vs supported call fast_tm pcie_tm user = do {
     (tm, r) \<leftarrow> pcie_part env d plan vs supported call pcie_tm user;
     finish_launch env user (pending_record raw key plan True (IsOk r)) fast_tm tm;
     State_Monad.return (join_results ok_result r) }"

text \<open>The buffer for packed or gathered data: the domain's own or a new one.\<close>

definition scratch_buffer :: "vc_env \<Rightarrow> comm_domain \<Rightarrow> size_t \<Rightarrow> (addr \<times> bool) vc" where
  "scratch_buffer env d bytes =
     (if cm_pcie_recvbuf d \<noteq> 0 \<and> bytes \<le> cm_pcie_recvbuf_size d then State_Monad.return (cm_pcie_recvbuf d, False)
      else do { p \<leftarrow> AllocDeviceBuffer env bytes; State_Monad.return (p, True) })"

definition pack_segments :: "vc_env \<Rightarrow> addr \<Rightarrow> addr \<Rightarrow> int \<Rightarrow> size_t \<Rightarrow> size_t \<Rightarrow> stream \<Rightarrow> unit vc" where
  "pack_segments env dst src nranks bytes stride s =
     each (\<lambda>b. DeviceMemcpyD2DAsync env (add64 dst (mul64 b bytes)) (add64 src (mul64 b stride)) bytes s) [0..<nat nranks]"

section \<open>AllReduce\<close>

definition AllReduce ::
  "vc_env \<Rightarrow> comm_domain \<Rightarrow> addr \<Rightarrow> addr \<Rightarrow> addr \<Rightarrow> size_t \<Rightarrow> int \<Rightarrow> int \<Rightarrow> stream \<Rightarrow> backend_result vc" where
  "AllReduce env d raw send recv count dt op s =
     (let es = NativeDataTypeElemSize (ve_build env) dt; supd = SupportsAllReduce (ve_pcie env) (ve_build env) dt op;
          key = launch_key env d collective_type.AllReduce (mul64 count es) dt; plan = launch_plan env key supd;
          ps = cm_pcie_stream d in
      if es = 0 then State_Monad.return error_result
      else do {
        fast_tm \<leftarrow> make_timer env; pcie_tm \<leftarrow> make_timer env;
        if \<not> uses_pcie plan \<or> ps = 0
        then fast_only env raw key plan (FastAllReduce send recv count dt op) fast_tm pcie_tm s
        else do {
          vs \<leftarrow> BeginValueSyncSubmission env d s;
          ready \<leftarrow> PcieWaitForUserInputIfNeeded env d s vs;
          if \<not> ready then State_Monad.return error_result
          else do {
            (ftm, fr) \<leftarrow> (if 0 < fast_bytes plan
               then timed env fast_tm s (fast_backend env (ve_fast_fn env collective_type.AllReduce)
                      (FastAllReduce send recv (fast_bytes plan div es) dt op) s)
               else State_Monad.return (fast_tm, ok_result));
            (ptm, pr) \<leftarrow> pcie_part env d plan vs supd (PcieAllReduce (add64 send (fast_bytes plan))
               (add64 recv (fast_bytes plan)) (pcie_bytes plan div es) dt op) pcie_tm s;
            finish_launch env s (pending_record raw key plan (IsOk fr) (IsOk pr)) ftm ptm;
            State_Monad.return (join_results fr pr) } } })"

section \<open>AllGather\<close>

definition ag_hybrid_v ::
  "vc_env \<Rightarrow> comm_domain \<Rightarrow> addr \<Rightarrow> op_key \<Rightarrow> plan \<Rightarrow> bool \<Rightarrow> addr \<Rightarrow> addr \<Rightarrow> size_t \<Rightarrow> size_t \<Rightarrow> int \<Rightarrow> timer \<Rightarrow> timer \<Rightarrow>
   stream \<Rightarrow> backend_result vc" where
  "ag_hybrid_v env d raw key plan supd send recv count fast_elems dt fast_tm pcie_tm s =
     (let n = nat (cm_pcie_nranks d); counts = replicate n fast_elems; displs = map (\<lambda>j. mul64 j count) [0..<n] in
      do {
        vs \<leftarrow> BeginValueSyncSubmission env d s;
        ready \<leftarrow> PcieWaitForUserInputIfNeeded env d s vs;
        if \<not> ready then State_Monad.return error_result
        else do {
          (ftm, fr) \<leftarrow> timed env fast_tm s (fast_backend env (ve_fast_v env collective_type.AllGather)
             (FastAllGatherV send fast_elems recv counts displs dt) s);
          (ptm, pr) \<leftarrow> pcie_part env d plan vs supd (PcieAllGatherStrided send recv count fast_elems dt) pcie_tm s;
          finish_launch env s (pending_record raw key plan (IsOk fr) (IsOk pr)) ftm ptm;
          State_Monad.return (join_results fr pr) } })"

definition ag_hybrid_merge ::
  "vc_env \<Rightarrow> comm_domain \<Rightarrow> addr \<Rightarrow> op_key \<Rightarrow> plan \<Rightarrow> bool \<Rightarrow> addr \<Rightarrow> addr \<Rightarrow> size_t \<Rightarrow> size_t \<Rightarrow> int \<Rightarrow> timer \<Rightarrow> timer \<Rightarrow>
   stream \<Rightarrow> backend_result vc" where
  "ag_hybrid_merge env d raw key plan supd send recv count fast_elems dt fast_tm pcie_tm s =
     (let n = nat (cm_pcie_nranks d) in do {
        (line, owns) \<leftarrow> scratch_buffer env d (mul64 n (fast_bytes plan));
        if line = 0 then fast_fallback env raw key plan (FastAllGather send recv count dt) fast_tm pcie_tm s
        else do {
          vs \<leftarrow> BeginValueSyncSubmission env d s;
          ready \<leftarrow> PcieWaitForUserInputIfNeeded env d s vs;
          if \<not> ready then do {
            (if owns then FreeDeviceBuffer env line else State_Monad.return ());
            State_Monad.return error_result }
          else do {
            (ftm, fr) \<leftarrow> timed env fast_tm s (fast_backend env (ve_fast_fn env collective_type.AllGather)
               (FastAllGather send line fast_elems dt) s);
            (ptm, pr) \<leftarrow> pcie_part env d plan vs supd (PcieAllGatherStrided send recv count fast_elems dt) pcie_tm s;
            EnqueueSegmentedMergeOnStream env s recv line (cm_pcie_nranks d) (fast_bytes plan) (pcie_bytes plan) owns;
            finish_launch env s (pending_record raw key plan (IsOk fr) (IsOk pr)) ftm ptm;
            State_Monad.return (join_results fr pr) } } })"

definition AllGather ::
  "vc_env \<Rightarrow> comm_domain \<Rightarrow> addr \<Rightarrow> addr \<Rightarrow> addr \<Rightarrow> size_t \<Rightarrow> int \<Rightarrow> stream \<Rightarrow> backend_result vc" where
  "AllGather env d raw send recv count dt s =
     (let es = NativeDataTypeElemSize (ve_build env) dt; supd = SupportsAllGather (ve_pcie env) (ve_build env) dt;
          key = launch_key env d collective_type.AllGather (mul64 count es) dt; plan = launch_plan env key supd;
          fast_elems = fast_bytes plan div es in
      if es = 0 then State_Monad.return error_result
      else do {
        fast_tm \<leftarrow> make_timer env; pcie_tm \<leftarrow> make_timer env;
        if \<not> uses_pcie plan \<or> cm_pcie_stream d = 0
        then fast_only env raw key plan (FastAllGather send recv count dt) fast_tm pcie_tm s
        else if 0 < fast_bytes plan then
          (if ve_fast_v env collective_type.AllGather
           then ag_hybrid_v env d raw key plan supd send recv count fast_elems dt fast_tm pcie_tm s
           else ag_hybrid_merge env d raw key plan supd send recv count fast_elems dt fast_tm pcie_tm s)
        else do {
          vs \<leftarrow> BeginValueSyncSubmission env d s;
          ready \<leftarrow> PcieWaitForUserInputIfNeeded env d s vs;
          if \<not> ready then State_Monad.return error_result
          else pcie_only env d raw key plan vs supd (PcieAllGather send recv count dt) fast_tm pcie_tm s } })"

section \<open>ReduceScatter\<close>

definition rs_hybrid_v ::
  "vc_env \<Rightarrow> comm_domain \<Rightarrow> addr \<Rightarrow> op_key \<Rightarrow> plan \<Rightarrow> bool \<Rightarrow> addr \<Rightarrow> addr \<Rightarrow> size_t \<Rightarrow> size_t \<Rightarrow> int \<Rightarrow> int \<Rightarrow> timer \<Rightarrow>
   timer \<Rightarrow> stream \<Rightarrow> backend_result vc" where
  "rs_hybrid_v env d raw key plan supd send recv count fast_elems dt op fast_tm pcie_tm s =
     (let n = nat (cm_pcie_nranks d); counts = replicate n fast_elems; displs = map (\<lambda>j. mul64 j count) [0..<n] in
      do {
        vs \<leftarrow> BeginValueSyncSubmission env d s;
        ready \<leftarrow> PcieWaitForUserInputIfNeeded env d s vs;
        if \<not> ready then State_Monad.return error_result
        else do {
          (ftm, fr) \<leftarrow> timed env fast_tm s (fast_backend env (ve_fast_v env collective_type.ReduceScatter)
             (FastReduceScatterV send counts displs recv fast_elems dt op) s);
          (ptm, pr) \<leftarrow> pcie_part env d plan vs supd
             (PcieReduceScatterStrided send recv (mul64 count n) fast_elems dt op) pcie_tm s;
          finish_launch env s (pending_record raw key plan (IsOk fr) (IsOk pr)) ftm ptm;
          State_Monad.return (join_results fr pr) } })"

definition rs_hybrid_pack ::
  "vc_env \<Rightarrow> comm_domain \<Rightarrow> addr \<Rightarrow> op_key \<Rightarrow> plan \<Rightarrow> bool \<Rightarrow> addr \<Rightarrow> addr \<Rightarrow> size_t \<Rightarrow> size_t \<Rightarrow> size_t \<Rightarrow> int \<Rightarrow> int \<Rightarrow>
   timer \<Rightarrow> timer \<Rightarrow> stream \<Rightarrow> backend_result vc" where
  "rs_hybrid_pack env d raw key plan supd send recv count fast_elems es dt op fast_tm pcie_tm s =
     (let n = nat (cm_pcie_nranks d) in do {
        (pack, owns) \<leftarrow> scratch_buffer env d (mul64 n (fast_bytes plan));
        if pack = 0 then fast_fallback env raw key plan (FastReduceScatter send recv count dt op) fast_tm pcie_tm s
        else do {
          vs \<leftarrow> BeginValueSyncSubmission env d s;
          ready \<leftarrow> PcieWaitForUserInputIfNeeded env d s vs;
          if \<not> ready then do {
            (if owns then FreeDeviceBuffer env pack else State_Monad.return ());
            State_Monad.return error_result }
          else do {
            pack_segments env pack send (cm_pcie_nranks d) (fast_bytes plan) (mul64 count es) s;
            (ftm, fr) \<leftarrow> timed env fast_tm s (fast_backend env (ve_fast_fn env collective_type.ReduceScatter)
               (FastReduceScatter pack recv fast_elems dt op) s);
            (ptm, pr) \<leftarrow> pcie_part env d plan vs supd
               (PcieReduceScatterStrided send recv (mul64 count n) fast_elems dt op) pcie_tm s;
            finish_launch env s ((pending_record raw key plan (IsOk fr) (IsOk pr))\<lparr>pd_user_recvbuf := recv,
               pd_tmp_recvbuf := pack, pd_nranks := cm_pcie_nranks d, pd_rank := cm_pcie_rank d,
               pd_fast_bytes := fast_bytes plan, pd_pcie_bytes := pcie_bytes plan, pd_owns_tmp := owns\<rparr>) ftm ptm;
            State_Monad.return (join_results fr pr) } } })"

definition ReduceScatter ::
  "vc_env \<Rightarrow> comm_domain \<Rightarrow> addr \<Rightarrow> addr \<Rightarrow> addr \<Rightarrow> size_t \<Rightarrow> int \<Rightarrow> int \<Rightarrow> stream \<Rightarrow> backend_result vc" where
  "ReduceScatter env d raw send recv count dt op s =
     (let es = NativeDataTypeElemSize (ve_build env) dt; supd = SupportsReduceScatter (ve_pcie env) (ve_build env) dt op;
          key = launch_key env d collective_type.ReduceScatter (mul64 count es) dt; plan = launch_plan env key supd;
          fast_elems = fast_bytes plan div es in
      if es = 0 then State_Monad.return error_result
      else do {
        fast_tm \<leftarrow> make_timer env; pcie_tm \<leftarrow> make_timer env;
        if \<not> uses_pcie plan \<or> cm_pcie_stream d = 0
        then fast_only env raw key plan (FastReduceScatter send recv count dt op) fast_tm pcie_tm s
        else if 0 < fast_bytes plan then
          (if ve_fast_v env collective_type.ReduceScatter
           then rs_hybrid_v env d raw key plan supd send recv count fast_elems dt op fast_tm pcie_tm s
           else rs_hybrid_pack env d raw key plan supd send recv count fast_elems es dt op fast_tm pcie_tm s)
        else do {
          vs \<leftarrow> BeginValueSyncSubmission env d s;
          ready \<leftarrow> PcieWaitForUserInputIfNeeded env d s vs;
          if \<not> ready then State_Monad.return error_result
          else pcie_only env d raw key plan vs supd (PcieReduceScatter send recv count dt op) fast_tm pcie_tm s } })"

section \<open>AllToAll\<close>

text \<open>Nothing makes the PCIe stream wait for the user's input here.\<close>

definition a2a_hybrid_v ::
  "vc_env \<Rightarrow> comm_domain \<Rightarrow> addr \<Rightarrow> op_key \<Rightarrow> plan \<Rightarrow> bool \<Rightarrow> addr \<Rightarrow> addr \<Rightarrow> size_t \<Rightarrow> size_t \<Rightarrow> int \<Rightarrow> timer \<Rightarrow> timer \<Rightarrow>
   stream \<Rightarrow> backend_result vc" where
  "a2a_hybrid_v env d raw key plan supd send recv count fast_elems dt fast_tm pcie_tm s =
     (let n = nat (cm_pcie_nranks d); counts = replicate n fast_elems; displs = map (\<lambda>j. mul64 j count) [0..<n] in
      do {
        (ftm, fr) \<leftarrow> timed env fast_tm s (fast_backend env (ve_fast_v env collective_type.AllToAll)
           (FastAllToAllV send counts displs recv counts displs dt) s);
        vs \<leftarrow> BeginValueSyncSubmission env d s;
        (ptm, pr) \<leftarrow> pcie_part env d plan vs supd (PcieAllToAllStrided send recv (mul64 count n) fast_elems dt) pcie_tm s;
        finish_launch env s (pending_record raw key plan (IsOk fr) (IsOk pr)) ftm ptm;
        State_Monad.return (join_results fr pr) })"

definition a2a_hybrid_pack ::
  "vc_env \<Rightarrow> comm_domain \<Rightarrow> addr \<Rightarrow> op_key \<Rightarrow> plan \<Rightarrow> bool \<Rightarrow> addr \<Rightarrow> addr \<Rightarrow> size_t \<Rightarrow> size_t \<Rightarrow> size_t \<Rightarrow> int \<Rightarrow> timer \<Rightarrow> timer \<Rightarrow>
   stream \<Rightarrow> backend_result vc" where
  "a2a_hybrid_pack env d raw key plan supd send recv count fast_elems es dt fast_tm pcie_tm s =
     (let n = nat (cm_pcie_nranks d) in do {
        (pack, owns) \<leftarrow> scratch_buffer env d (mul64 n (fast_bytes plan));
        if pack = 0 then fast_fallback env raw key plan (FastAllToAll send recv count dt) fast_tm pcie_tm s
        else do {
          pack_segments env pack send (cm_pcie_nranks d) (fast_bytes plan) (mul64 count es) s;
          (ftm, fr) \<leftarrow> timed env fast_tm s (fast_backend env (ve_fast_fn env collective_type.AllToAll)
             (FastAllToAll pack pack fast_elems dt) s);
          vs \<leftarrow> BeginValueSyncSubmission env d s;
          (ptm, pr) \<leftarrow> pcie_part env d plan vs supd (PcieAllToAllStrided send recv (mul64 count n) fast_elems dt) pcie_tm s;
          finish_launch env s ((pending_record raw key plan (IsOk fr) (IsOk pr))\<lparr>pd_user_recvbuf := recv,
             pd_tmp_recvbuf := pack, pd_nranks := cm_pcie_nranks d, pd_rank := cm_pcie_rank d,
             pd_fast_bytes := fast_bytes plan, pd_pcie_bytes := pcie_bytes plan, pd_owns_tmp := owns\<rparr>) ftm ptm;
          State_Monad.return (join_results fr pr) } })"

definition AllToAll ::
  "vc_env \<Rightarrow> comm_domain \<Rightarrow> addr \<Rightarrow> addr \<Rightarrow> addr \<Rightarrow> size_t \<Rightarrow> int \<Rightarrow> stream \<Rightarrow> backend_result vc" where
  "AllToAll env d raw send recv count dt s =
     (let es = NativeDataTypeElemSize (ve_build env) dt; supd = SupportsAllToAll (ve_pcie env) (ve_build env) dt;
          key = launch_key env d collective_type.AllToAll (mul64 count es) dt; plan = launch_plan env key supd;
          fast_elems = fast_bytes plan div es in
      if es = 0 \<or> cm_pcie_nranks d \<le> 0 then State_Monad.return error_result
      else do {
        fast_tm \<leftarrow> make_timer env; pcie_tm \<leftarrow> make_timer env;
        if \<not> uses_pcie plan \<or> cm_pcie_stream d = 0
        then fast_only env raw key plan (FastAllToAll send recv count dt) fast_tm pcie_tm s
        else if fast_bytes plan = 0 then do {
          vs \<leftarrow> BeginValueSyncSubmission env d s;
          pcie_only env d raw key plan vs supd
            (PcieAllToAll send recv (mul64 count (nat (cm_pcie_nranks d))) dt) fast_tm pcie_tm s }
        else if ve_fast_v env collective_type.AllToAll
        then a2a_hybrid_v env d raw key plan supd send recv count fast_elems dt fast_tm pcie_tm s
        else a2a_hybrid_pack env d raw key plan supd send recv count fast_elems es dt fast_tm pcie_tm s })"

end
