(* ===== verification/CollectiveLogic.thy ===== *)
theory CollectiveLogic
  imports VirtualCollective
begin

text \<open>
  A Hoare logic for the collectives: what holds of the log of the host after each operation.
  Most operations are neutral: they enqueue nothing that orders streams.
\<close>

section \<open>Triples\<close>

definition triple :: "(vc_world \<Rightarrow> bool) \<Rightarrow> 'a vc \<Rightarrow> ('a \<Rightarrow> vc_world \<Rightarrow> bool) \<Rightarrow> bool" where
  "triple P m Q \<longleftrightarrow> (\<forall>w. P w \<longrightarrow> Q (fst (run_state m w)) (snd (run_state m w)))"

lemma run_bind: "run_state (State_Monad.bind m f) w = run_state (f (fst (run_state m w))) (snd (run_state m w))"
  by (simp add: case_prod_unfold)

lemma triple_return: "(\<And>w. P w \<Longrightarrow> Q x w) \<Longrightarrow> triple P (State_Monad.return x) Q"
  by (simp add: triple_def)

lemma triple_bind: "triple P m R \<Longrightarrow> (\<And>r. triple (R r) (f r) Q) \<Longrightarrow> triple P (State_Monad.bind m f) Q"
  unfolding triple_def run_bind by blast

lemma triple_conseq: "triple P m Q \<Longrightarrow> (\<And>w. P' w \<Longrightarrow> P w) \<Longrightarrow> (\<And>r w. Q r w \<Longrightarrow> Q' r w) \<Longrightarrow> triple P' m Q'"
  unfolding triple_def by blast

lemma triple_post: "triple P m Q \<Longrightarrow> (\<And>r w. Q r w \<Longrightarrow> Q' r w) \<Longrightarrow> triple P m Q'"
  unfolding triple_def by blast

lemma triple_if: "(b \<Longrightarrow> triple P m Q) \<Longrightarrow> (\<not> b \<Longrightarrow> triple P n Q) \<Longrightarrow> triple P (if b then m else n) Q"
  by simp

lemma triple_pair: "(\<And>a b. r = (a, b) \<Longrightarrow> triple P (f a b) Q) \<Longrightarrow> triple P (case r of (a, b) \<Rightarrow> f a b) Q"
  by (cases r) simp

lemma triple_option: "(r = None \<Longrightarrow> triple P m Q) \<Longrightarrow> (\<And>x. r = Some x \<Longrightarrow> triple P (f x) Q) \<Longrightarrow>
    triple P (case r of None \<Rightarrow> m | Some x \<Rightarrow> f x) Q"
  by (cases r) simp_all

text \<open>What does not depend on the world moves out of the precondition.\<close>

lemma triple_fact: "(b \<Longrightarrow> triple P m Q) \<Longrightarrow> triple (\<lambda>w. P w \<and> b) m Q"
  unfolding triple_def by blast

section \<open>Neutral operations\<close>

fun neutral_act :: "host_act \<Rightarrow> bool" where
  "neutral_act (Issue s (ValueWrite a v)) = False"
| "neutral_act (Issue s (EventRecord e)) = False"
| "neutral_act (Issue s (PcieOp c)) = False"
| "neutral_act (Issue s HostCallback) = False"
| "neutral_act _ = True"

definition neutral_step :: "vc_world \<Rightarrow> vc_world \<Rightarrow> bool" where
  "neutral_step w w' \<longleftrightarrow> (\<exists>new. vw_log w' = vw_log w @ new \<and> list_all neutral_act new) \<and>
     vw_contexts w' = vw_contexts w \<and> vw_events w' = vw_events w"

definition neutral :: "'a vc \<Rightarrow> bool" where
  "neutral m \<longleftrightarrow> (\<forall>w. neutral_step w (snd (run_state m w)))"

lemma neutral_step_refl: "neutral_step w w"
  by (simp add: neutral_step_def)

lemma neutral_step_trans:
  assumes "neutral_step u v" "neutral_step v w"
  shows "neutral_step u w"
proof -
  obtain n1 n2 where "vw_log v = vw_log u @ n1" "vw_log w = vw_log v @ n2" "list_all neutral_act n1" "list_all neutral_act n2"
    using assms by (auto simp: neutral_step_def)
  then have "vw_log w = vw_log u @ (n1 @ n2) \<and> list_all neutral_act (n1 @ n2)" by simp
  then show ?thesis using assms unfolding neutral_step_def by metis
qed

lemma neutral_return [simp]: "neutral (State_Monad.return x)"
  by (simp add: neutral_def neutral_step_refl)

lemma neutral_bind: "neutral m \<Longrightarrow> (\<And>r. neutral (f r)) \<Longrightarrow> neutral (State_Monad.bind m f)"
  unfolding neutral_def run_bind using neutral_step_trans by blast

lemma neutral_if: "neutral m \<Longrightarrow> neutral n \<Longrightarrow> neutral (if b then m else n)"
  by simp

lemma neutral_call [simp]: "list_all neutral_act acts \<Longrightarrow> neutral (runtime_call env acts)"
  by (simp add: neutral_def neutral_step_def runtime_call_def)

lemma neutral_each: "(\<And>x. neutral (f x)) \<Longrightarrow> neutral (each f xs)"
  by (induction xs) (auto intro: neutral_bind)

lemma neutral_issue [simp]: "neutral_act (Issue s op) \<Longrightarrow> neutral (issue env s op)"
  unfolding issue_def by (intro neutral_bind) simp_all

lemma neutral_ops [simp]:
  "neutral (AllocDeviceBuffer env bytes)" "neutral (FreeDeviceBuffer env p)" "neutral (FreeDeviceBufferAsync env p s)"
  "neutral (DeviceMemcpyD2DAsync env dst src bytes s)" "neutral (stream_Synchronize env s)"
  "neutral (fast_backend env b call s)" "neutral (on_manager f)" "neutral (clock env)" "neutral (scratch_buffer env d bytes)"
  "neutral (SyncPCIeStreamBeforeCallbackIfEnabled env d plan)" "neutral (WaitEventOnStream env tm s)"
  "neutral (EnqueueInputWait env tk s)" "neutral (EnqueueWait env tk s)" "neutral (get_context s)"
proof -
  show a: "neutral (AllocDeviceBuffer env bytes)" for bytes
    by (simp add: AllocDeviceBuffer_def neutral_def neutral_step_def)
  show f: "neutral (FreeDeviceBuffer env p)" by (simp add: FreeDeviceBuffer_def neutral_bind)
  show "neutral (FreeDeviceBufferAsync env p s)" by (simp add: FreeDeviceBufferAsync_def f neutral_bind)
  show "neutral (DeviceMemcpyD2DAsync env dst src bytes s)" by (simp add: DeviceMemcpyD2DAsync_def neutral_bind)
  show y: "neutral (stream_Synchronize env s)" for s by (simp add: stream_Synchronize_def neutral_bind)
  show "neutral (fast_backend env b call s)" by (simp add: fast_backend_def neutral_bind)
  show "neutral (on_manager f)" "neutral (clock env)" "neutral (get_context s)"
    by (simp_all add: on_manager_def clock_def get_context_def neutral_def neutral_step_def)
  show "neutral (scratch_buffer env d bytes)" by (simp add: scratch_buffer_def a neutral_bind)
  show "neutral (SyncPCIeStreamBeforeCallbackIfEnabled env d plan)"
    by (simp add: SyncPCIeStreamBeforeCallbackIfEnabled_def y neutral_bind)
  show "neutral (WaitEventOnStream env tm s)" by (simp add: WaitEventOnStream_def neutral_bind)
  show "neutral (EnqueueInputWait env tk s)" "neutral (EnqueueWait env tk s)"
    by (simp_all add: EnqueueInputWait_def EnqueueWait_def)
qed

lemma neutral_merge [simp]: "neutral (EnqueueSegmentedMergeOnStream env s user tmp nranks fb pb owns)"
  unfolding EnqueueSegmentedMergeOnStream_def by (intro neutral_if neutral_bind neutral_each) simp_all

lemma neutral_pack [simp]: "neutral (pack_segments env dst src nranks bytes stride s)"
  unfolding pack_segments_def by (rule neutral_each) simp

end
