(* ===== verification/CollectiveState.thy ===== *)
theory CollectiveState
  imports CollectiveLogic
begin

text \<open>
  What holds of the world between two operations of a collective: the words of the value
  synchronisation are written in growing order, events are recorded once, and the part of
  the log the collective has issued so far has a given form.
\<close>

section \<open>Writes and records of a log\<close>

fun write_of :: "host_act \<Rightarrow> (stream \<times> addr \<times> size_t) list" where
  "write_of (Issue s (ValueWrite a v)) = [(s, a, v)]"
| "write_of _ = []"

fun record_of :: "host_act \<Rightarrow> nat list" where
  "record_of (Issue s (EventRecord e)) = [e]"
| "record_of _ = []"

definition writes_in :: "host_log \<Rightarrow> (stream \<times> addr \<times> size_t) list" where
  "writes_in hl = concat (map write_of hl)"

definition records_in :: "host_log \<Rightarrow> nat list" where
  "records_in hl = concat (map record_of hl)"

definition grows :: "stream \<times> addr \<times> size_t \<Rightarrow> stream \<times> addr \<times> size_t \<Rightarrow> bool" where
  "grows x y \<longleftrightarrow> fst (snd x) = fst (snd y) \<longrightarrow> fst x = fst y \<and> snd (snd x) < snd (snd y)"

lemma in_append [simp]:
  "writes_in (xs @ ys) = writes_in xs @ writes_in ys" "records_in (xs @ ys) = records_in xs @ records_in ys"
  "writes_in (x # xs) = write_of x @ writes_in xs" "records_in (x # xs) = record_of x @ records_in xs"
  "writes_in [] = []" "records_in [] = []"
  by (simp_all add: writes_in_def records_in_def)

lemma neutral_writes [simp]:
  "list_all neutral_act new \<Longrightarrow> writes_in new = []" "list_all neutral_act new \<Longrightarrow> records_in new = []"
proof -
  have "neutral_act x \<Longrightarrow> write_of x = [] \<and> record_of x = []" for x by (cases x rule: neutral_act.cases) simp_all
  then show "list_all neutral_act new \<Longrightarrow> writes_in new = []" "list_all neutral_act new \<Longrightarrow> records_in new = []"
    by (induction new) simp_all
qed

lemma sorted_writes_grow:
  assumes "sorted_wrt grows (writes_in hl)"
  shows "writes_grow hl"
proof -
  have "s1 = s2 \<and> v1 < v2" if pq: "p < q" "op_at hl p s1 (ValueWrite a v1)" "op_at hl q s2 (ValueWrite a v2)"
    for p q s1 s2 a v1 v2
  proof -
    have len: "p < length hl" "q < length hl" "hl ! p = Issue s1 (ValueWrite a v1)" "hl ! q = Issue s2 (ValueWrite a v2)"
      using pq by (auto simp: op_at_def)
    have "hl = take q hl @ hl ! q # drop (Suc q) hl" using id_take_nth_drop[OF len(2)] .
    then have w: "writes_in hl = writes_in (take q hl) @ (s2, a, v2) # writes_in (drop (Suc q) hl)"
      using len(4) by (metis append.simps(1,2) in_append(1,3) write_of.simps(1))
    have "take q hl = take p (take q hl) @ (take q hl) ! p # drop (Suc p) (take q hl)"
      using id_take_nth_drop[of p "take q hl"] len(2) pq(1) by simp
    moreover have "(take q hl) ! p = Issue s1 (ValueWrite a v1)" using len(3) pq(1) by simp
    ultimately have "(s1, a, v1) \<in> set (writes_in (take q hl))"
      by (metis in_append(1,3) in_set_conv_decomp append.simps(1,2) write_of.simps(1))
    then have "grows (s1, a, v1) (s2, a, v2)" using assms unfolding w by (auto simp: sorted_wrt_append)
    then show ?thesis by (simp add: grows_def)
  qed
  then show ?thesis unfolding writes_grow_def by blast
qed

section \<open>Contexts\<close>

text \<open>The value sync contexts of the domain: token memory of 1024 bytes each, not overlapping.\<close>

definition contexts_ok :: "(stream, vs_context) omap \<Rightarrow> bool" where
  "contexts_ok m \<longleftrightarrow>
     (\<forall>s c. om_get m s = Some c \<longrightarrow> 0 < vx_next c) \<and>
     (\<forall>s t c d. om_get m s = Some c \<and> om_get m t = Some d \<and> s \<noteq> t \<longrightarrow>
        vx_tokens c + 1024 \<le> vx_tokens d \<or> vx_tokens d + 1024 \<le> vx_tokens c)"

text \<open>A write of the context of \<open>u\<close>: which stream, which word and which value.\<close>

definition owned :: "stream \<Rightarrow> (stream, vs_context) omap \<Rightarrow> stream \<times> addr \<times> size_t \<Rightarrow> bool" where
  "owned ps m x \<longleftrightarrow> (case x of (s, a, v) \<Rightarrow> \<exists>u c. om_get m u = Some c \<and> v < vx_next c \<and>
     (s = u \<and> a = input_word (vx_tokens c) v \<or> s = ps \<and> a = completion_word (vx_tokens c) v))"

definition fresh_write :: "vc_world \<Rightarrow> stream \<times> addr \<times> size_t \<Rightarrow> bool" where
  "fresh_write w x \<longleftrightarrow> 0 < snd (snd x) \<and> (\<forall>y \<in> set (writes_in (vw_log w)). grows y x)"

definition world_ok :: "stream \<Rightarrow> vc_world \<Rightarrow> bool" where
  "world_ok ps w \<longleftrightarrow> contexts_ok (vw_contexts w) \<and> sorted_wrt grows (writes_in (vw_log w)) \<and>
     (\<forall>x \<in> set (writes_in (vw_log w)). owned ps (vw_contexts w) x) \<and>
     (\<forall>e \<in> set (records_in (vw_log w)). e < vw_events w)"

text \<open>
  Between two operations of a collective started at log \<open>L\<close> with \<open>n\<close> events: \<open>V\<close> are events
  it may record, \<open>F\<close> words it may write, and its own part of the log has the form \<open>\<Phi>\<close>.
\<close>

definition midway :: "host_log \<Rightarrow> nat \<Rightarrow> stream \<Rightarrow> nat set \<Rightarrow> (stream \<times> addr \<times> size_t) set \<Rightarrow>
    (host_log \<Rightarrow> bool) \<Rightarrow> vc_world \<Rightarrow> bool" where
  "midway L n ps V F \<Phi> w \<longleftrightarrow> world_ok ps w \<and> n \<le> vw_events w \<and>
     (\<forall>e \<in> V. n \<le> e \<and> e < vw_events w) \<and>
     (\<forall>x \<in> F. owned ps (vw_contexts w) x \<and> fresh_write w x) \<and> inj_on (\<lambda>x. fst (snd x)) F \<and>
     (\<exists>new. vw_log w = L @ new \<and> \<Phi> new \<and> (\<forall>e \<in> set (records_in new). n \<le> e))"

text \<open>Forms that survive what is issued.\<close>

definition keeps :: "(host_act \<Rightarrow> bool) \<Rightarrow> (host_log \<Rightarrow> bool) \<Rightarrow> bool" where
  "keeps A \<Phi> \<longleftrightarrow> (\<forall>new a. \<Phi> new \<longrightarrow> A a \<longrightarrow> \<Phi> (new @ [a]))"

lemma keeps_list: "keeps A \<Phi> \<Longrightarrow> \<Phi> new \<Longrightarrow> list_all A acts \<Longrightarrow> \<Phi> (new @ acts)"
proof (induction acts arbitrary: new)
  case (Cons a acts)
  then have "\<Phi> (new @ [a])" by (simp add: keeps_def)
  then show ?case using Cons.IH[of "new @ [a]"] Cons.prems by simp
qed simp

lemma midway_weaken:
  "midway L n ps V F \<Phi> w \<Longrightarrow> V' \<subseteq> V \<Longrightarrow> F' \<subseteq> F \<Longrightarrow> (\<And>new. \<Phi> new \<Longrightarrow> \<Psi> new) \<Longrightarrow> midway L n ps V' F' \<Psi> w"
  unfolding midway_def by (meson inj_on_subset subsetD)

section \<open>Rules\<close>

lemma midway_neutral:
  assumes "neutral m" "keeps neutral_act \<Phi>"
  shows "triple (midway L n ps V F \<Phi>) m (\<lambda>_. midway L n ps V F \<Phi>)"
proof -
  have "midway L n ps V F \<Phi> w'" if w: "midway L n ps V F \<Phi> w" "neutral_step w w'" for w w'
  proof -
    obtain acts where a: "vw_log w' = vw_log w @ acts" "list_all neutral_act acts" "vw_contexts w' = vw_contexts w"
      "vw_events w' = vw_events w" using w(2) by (auto simp: neutral_step_def)
    obtain new where n: "vw_log w = L @ new" "\<Phi> new" "\<forall>e \<in> set (records_in new). n \<le> e"
      using w(1) by (auto simp: midway_def)
    have "vw_log w' = L @ (new @ acts)" "\<Phi> (new @ acts)" "\<forall>e \<in> set (records_in (new @ acts)). n \<le> e"
      using a n keeps_list[OF assms(2) n(2) a(2)] by simp_all
    then have ex: "\<exists>new. vw_log w' = L @ new \<and> \<Phi> new \<and> (\<forall>e \<in> set (records_in new). n \<le> e)" by blast
    have "writes_in (vw_log w') = writes_in (vw_log w)" "records_in (vw_log w') = records_in (vw_log w)"
      using a(1,2) by simp_all
    then show ?thesis using w(1) ex unfolding midway_def world_ok_def fresh_write_def by (simp add: a(3,4))
  qed
  then show ?thesis using assms(1) by (simp add: triple_def neutral_def)
qed

text \<open>Calls that enqueue an operation: one that writes no word, and one that writes a permitted word.\<close>

lemma midway_call:
  assumes "write_of act = []" "set (record_of act) \<subseteq> V" "\<And>new. \<Phi> new \<Longrightarrow> \<Psi> (new @ [act])"
  shows "triple (midway L n ps V F \<Phi>) (runtime_call env [act]) (\<lambda>r. midway L n ps V F (if r = 0 then \<Psi> else \<Phi>))"
proof -
  have "midway L n ps V F \<Psi> (w\<lparr>vw_calls := k, vw_log := vw_log w @ [act]\<rparr>)" (is "midway _ _ _ _ _ _ ?w")
    if w: "midway L n ps V F \<Phi> w" for w k
  proof -
    obtain new where n: "vw_log w = L @ new" "\<Phi> new" "\<forall>e \<in> set (records_in new). n \<le> e"
      using w by (auto simp: midway_def)
    have v: "\<forall>e \<in> set (record_of act). n \<le> e \<and> e < vw_events w" using w assms(2) by (auto simp: midway_def)
    have "vw_log ?w = L @ (new @ [act]) \<and> \<Psi> (new @ [act]) \<and> (\<forall>e \<in> set (records_in (new @ [act])). n \<le> e)"
      using n v assms(3) by auto
    then have ex: "\<exists>new. vw_log ?w = L @ new \<and> \<Psi> new \<and> (\<forall>e \<in> set (records_in new). n \<le> e)" by blast
    show ?thesis using w v assms(1) ex unfolding midway_def world_ok_def fresh_write_def by (auto simp del: append_assoc)
  qed
  moreover have "midway L n ps V F \<Phi> (w\<lparr>vw_calls := k\<rparr>)" if "midway L n ps V F \<Phi> w" for w k
    using that by (simp add: midway_def world_ok_def fresh_write_def)
  ultimately show ?thesis by (simp add: triple_def runtime_call_def)
qed

lemma midway_issue:
  assumes "write_of (Issue s op) = []" "set (record_of (Issue s op)) \<subseteq> V" "\<And>new. \<Phi> new \<Longrightarrow> \<Psi> (new @ [Issue s op])"
  shows "triple (midway L n ps V F \<Phi>) (issue env s op) (\<lambda>ok. midway L n ps V F (if ok then \<Psi> else \<Phi>))"
  unfolding issue_def by (rule triple_bind, rule midway_call, rule assms(1), rule assms(2), erule assms(3))
    (auto intro!: triple_return)

lemma midway_write:
  assumes x: "(s, a, v) \<in> F" and st: "\<And>new. \<Phi> new \<Longrightarrow> \<Psi> (new @ [Issue s (ValueWrite a v)])"
  shows "triple (midway L n ps V F \<Phi>) (issue env s (ValueWrite a v))
    (\<lambda>ok. midway L n ps V (F - {(s, a, v)}) (if ok then \<Psi> else \<Phi>))"
proof -
  have "midway L n ps V (F - {(s, a, v)}) \<Psi> (w\<lparr>vw_calls := k, vw_log := vw_log w @ [Issue s (ValueWrite a v)]\<rparr>)"
    (is "midway _ _ _ _ _ _ ?w") if w: "midway L n ps V F \<Phi> w" for w k
  proof -
    obtain new where n: "vw_log w = L @ new" "\<Phi> new" "\<forall>e \<in> set (records_in new). n \<le> e"
      using w by (auto simp: midway_def)
    have "vw_log ?w = L @ (new @ [Issue s (ValueWrite a v)]) \<and> \<Psi> (new @ [Issue s (ValueWrite a v)]) \<and>
        (\<forall>e \<in> set (records_in (new @ [Issue s (ValueWrite a v)])). n \<le> e)" using n st by auto
    then have ex: "\<exists>new. vw_log ?w = L @ new \<and> \<Psi> new \<and> (\<forall>e \<in> set (records_in new). n \<le> e)" by blast
    have fr: "fresh_write ?w y" if y: "y \<in> F - {(s, a, v)}" for y
    proof -
      have "inj_on (\<lambda>x. fst (snd x)) F" using w by (simp add: midway_def)
      then have "fst (snd y) \<noteq> a" using x y inj_onD[of "\<lambda>x. fst (snd x)" F y "(s, a, v)"] by auto
      then have "grows (s, a, v) y" by (simp add: grows_def)
      moreover have "fresh_write w y" using w y by (simp add: midway_def)
      ultimately show ?thesis by (auto simp: fresh_write_def)
    qed
    have "owned ps (vw_contexts w) (s, a, v)" "\<forall>y \<in> set (writes_in (vw_log w)). grows y (s, a, v)"
      using w x by (auto simp: midway_def fresh_write_def)
    then have "world_ok ps ?w" using w by (auto simp: midway_def world_ok_def sorted_wrt_append)
    then show ?thesis using w fr ex unfolding midway_def by (auto intro: inj_on_diff simp del: append_assoc)
  qed
  moreover have "midway L n ps V (F - {(s, a, v)}) \<Phi> (w\<lparr>vw_calls := k\<rparr>)" if "midway L n ps V F \<Phi> w" for w k
    using that by (auto simp: midway_def world_ok_def fresh_write_def intro: inj_on_diff)
  ultimately show ?thesis by (simp add: triple_def issue_def runtime_call_def case_prod_unfold)
qed

end
