(* ===== verification/CollectiveRules.thy ===== *)
theory CollectiveRules
  imports CollectiveState
begin

text \<open>
  The forms the log of a collective takes, and the rules of the operations that order the
  two streams: timers, value synchronisation, the wait before the PCIe call and the
  completion after it.
\<close>

section \<open>Forms\<close>

fun is_pcie :: "host_act \<Rightarrow> bool" where
  "is_pcie (Issue s (PcieOp c)) = True"
| "is_pcie _ = False"

definition no_pcie :: "host_log \<Rightarrow> bool" where
  "no_pcie xs \<longleftrightarrow> list_all (\<lambda>a. \<not> is_pcie a) xs"

definition no_callback :: "host_log \<Rightarrow> bool" where
  "no_callback xs \<longleftrightarrow> list_all (\<lambda>a. \<forall>s. a \<noteq> Issue s HostCallback) xs"

definition pcie_on :: "stream \<Rightarrow> host_log \<Rightarrow> bool" where
  "pcie_on ps xs \<longleftrightarrow> list_all (\<lambda>a. \<forall>s c. a = Issue s (PcieOp c) \<longrightarrow> s = ps) xs"

lemma form_append [simp]:
  "no_pcie (xs @ ys) \<longleftrightarrow> no_pcie xs \<and> no_pcie ys" "no_pcie []" "no_pcie (x # xs) \<longleftrightarrow> \<not> is_pcie x \<and> no_pcie xs"
  "no_callback (xs @ ys) \<longleftrightarrow> no_callback xs \<and> no_callback ys" "no_callback []"
  "no_callback (x # xs) \<longleftrightarrow> (\<forall>s. x \<noteq> Issue s HostCallback) \<and> no_callback xs"
  "pcie_on ps (xs @ ys) \<longleftrightarrow> pcie_on ps xs \<and> pcie_on ps ys" "pcie_on ps []"
  "pcie_on ps (x # xs) \<longleftrightarrow> (\<forall>s c. x = Issue s (PcieOp c) \<longrightarrow> s = ps) \<and> pcie_on ps xs"
  by (simp_all add: no_pcie_def no_callback_def pcie_on_def)

lemma no_pcie_on: "no_pcie xs \<Longrightarrow> pcie_on ps xs"
  by (induction xs) auto

lemma neutral_act_forms [simp]:
  assumes "neutral_act a"
  shows "write_of a = []" "record_of a = []" "\<not> is_pcie a" "a \<noteq> Issue s HostCallback"
  using assms by (cases a rule: neutral_act.cases; simp)+

text \<open>The user stream is drained, or the PCIe stream waits for a word it writes.\<close>

definition guard_in :: "stream \<Rightarrow> stream \<Rightarrow> host_log \<Rightarrow> bool" where
  "guard_in u ps xs \<longleftrightarrow> SyncStream u \<in> set xs \<or>
     (\<exists>A B C a v. xs = A @ Issue u (ValueWrite a v) # B @ Issue ps (ValueWait a v) # C \<and> 0 < v)"

definition guarded :: "stream \<Rightarrow> stream \<Rightarrow> host_log \<Rightarrow> bool" where
  "guarded u ps xs \<longleftrightarrow> (\<exists>A B. xs = A @ B \<and> no_pcie A \<and> (B = [] \<or> guard_in u ps A))"

text \<open>After the last PCIe call the user stream waits for a word or an event of the PCIe stream.\<close>

definition linked :: "stream \<Rightarrow> stream \<Rightarrow> host_log \<Rightarrow> bool" where
  "linked u ps xs \<longleftrightarrow> (\<exists>A x B y C. xs = A @ x # B @ y # C \<and> no_pcie (B @ C) \<and>
     ((\<exists>a v. 0 < v \<and> x = Issue ps (ValueWrite a v) \<and> y = Issue u (ValueWait a v)) \<or>
      (\<exists>e. x = Issue ps (EventRecord e) \<and> y = Issue u (EventWait e) \<and> e \<notin> set (records_in (A @ B @ C)))))"

definition completed :: "stream \<Rightarrow> stream \<Rightarrow> host_log \<Rightarrow> bool" where
  "completed u ps xs \<longleftrightarrow> no_pcie xs \<or> linked u ps xs"

definition marked :: "stream \<Rightarrow> nat \<Rightarrow> host_log \<Rightarrow> bool" where
  "marked ps e xs \<longleftrightarrow> (\<exists>A B. xs = A @ Issue ps (EventRecord e) # B \<and> no_pcie B \<and> e \<notin> set (records_in (A @ B)))"

definition written :: "stream \<Rightarrow> addr \<Rightarrow> size_t \<Rightarrow> host_log \<Rightarrow> bool" where
  "written ps a v xs \<longleftrightarrow> (\<exists>A B. xs = A @ Issue ps (ValueWrite a v) # B \<and> no_pcie B)"

text \<open>The phases of a collective: before the PCIe call, after it, after its completion, at the end.\<close>

definition before :: "stream \<Rightarrow> stream \<Rightarrow> nat \<Rightarrow> bool \<Rightarrow> host_log \<Rightarrow> bool" where
  "before u ps e g xs \<longleftrightarrow> no_pcie xs \<and> no_callback xs \<and> (g \<longrightarrow> guard_in u ps xs) \<and> e \<notin> set (records_in xs)"

definition running :: "stream \<Rightarrow> stream \<Rightarrow> bool \<Rightarrow> host_log \<Rightarrow> bool" where
  "running u ps g xs \<longleftrightarrow> no_callback xs \<and> pcie_on ps xs \<and> (g \<longrightarrow> guarded u ps xs)"

definition settled :: "stream \<Rightarrow> stream \<Rightarrow> bool \<Rightarrow> bool \<Rightarrow> host_log \<Rightarrow> bool" where
  "settled u ps g c xs \<longleftrightarrow> running u ps g xs \<and> (c \<longrightarrow> completed u ps xs)"

definition finished :: "stream \<Rightarrow> stream \<Rightarrow> bool \<Rightarrow> bool \<Rightarrow> host_log \<Rightarrow> bool" where
  "finished u ps g c xs \<longleftrightarrow> (\<exists>A B. xs = A @ B \<and> settled u ps g c A \<and>
     list_all (\<lambda>a. neutral_act a \<or> (\<exists>s. a = Issue s HostCallback)) B)"

section \<open>What keeps a form\<close>

lemma guard_in_append [simp]: "guard_in u ps xs \<Longrightarrow> guard_in u ps (xs @ ys)"
  unfolding guard_in_def by (metis append.assoc append_Cons Un_iff set_append)

lemma guarded_snoc: "guarded u ps xs \<Longrightarrow> \<not> is_pcie a \<or> guard_in u ps xs \<Longrightarrow> guarded u ps (xs @ [a])"
proof -
  assume g: "guarded u ps xs" "\<not> is_pcie a \<or> guard_in u ps xs"
  obtain A B where ab: "xs = A @ B" "no_pcie A" "B = [] \<or> guard_in u ps A" using g(1) by (auto simp: guarded_def)
  show ?thesis
  proof (cases "B = [] \<and> \<not> is_pcie a")
    case True
    then have "xs @ [a] = (xs @ [a]) @ [] \<and> no_pcie (xs @ [a])" using ab by simp
    then show ?thesis unfolding guarded_def by blast
  next
    case False
    then have "guard_in u ps A" using ab g(2) by auto
    then have "xs @ [a] = A @ (B @ [a]) \<and> no_pcie A \<and> guard_in u ps A" using ab by simp
    then show ?thesis unfolding guarded_def by blast
  qed
qed

lemma guarded_before: "no_pcie xs \<Longrightarrow> guarded u ps xs"
  unfolding guarded_def by (metis append_Nil2)

lemma marked_snoc: "marked ps e xs \<Longrightarrow> \<not> is_pcie a \<Longrightarrow> e \<notin> set (record_of a) \<Longrightarrow> marked ps e (xs @ [a])"
proof -
  assume m: "marked ps e xs" "\<not> is_pcie a" "e \<notin> set (record_of a)"
  then obtain A B where "xs = A @ Issue ps (EventRecord e) # B" "no_pcie B" "e \<notin> set (records_in (A @ B))"
    by (auto simp: marked_def)
  then have "xs @ [a] = A @ Issue ps (EventRecord e) # (B @ [a]) \<and> no_pcie (B @ [a]) \<and>
      e \<notin> set (records_in (A @ (B @ [a])))" using m by simp
  then show ?thesis unfolding marked_def by blast
qed

lemma written_snoc: "written ps b v xs \<Longrightarrow> \<not> is_pcie a \<Longrightarrow> written ps b v (xs @ [a])"
proof -
  assume m: "written ps b v xs" "\<not> is_pcie a"
  then obtain A B where "xs = A @ Issue ps (ValueWrite b v) # B" "no_pcie B" by (auto simp: written_def)
  then have "xs @ [a] = A @ Issue ps (ValueWrite b v) # (B @ [a]) \<and> no_pcie (B @ [a])" using m by simp
  then show ?thesis unfolding written_def by blast
qed

lemma linked_snoc: "linked u ps xs \<Longrightarrow> neutral_act a \<Longrightarrow> linked u ps (xs @ [a])"
proof -
  assume "linked u ps xs" and a: "neutral_act a"
  then obtain A x B y C where l: "xs = A @ x # B @ y # C" "no_pcie (B @ C)"
    "(\<exists>a v. 0 < v \<and> x = Issue ps (ValueWrite a v) \<and> y = Issue u (ValueWait a v)) \<or>
     (\<exists>e. x = Issue ps (EventRecord e) \<and> y = Issue u (EventWait e) \<and> e \<notin> set (records_in (A @ B @ C)))"
    by (auto simp: linked_def)
  have "xs @ [a] = A @ x # B @ y # (C @ [a])" "no_pcie (B @ (C @ [a]))"
    "set (records_in (A @ B @ (C @ [a]))) = set (records_in (A @ B @ C))" using l(1,2) a by simp_all
  then show ?thesis using l(3) unfolding linked_def by metis
qed

lemma linked_event: "marked ps e xs \<Longrightarrow> linked u ps (xs @ [Issue u (EventWait e)])"
proof -
  assume "marked ps e xs"
  then obtain A B where "xs = A @ Issue ps (EventRecord e) # B" "no_pcie B" "e \<notin> set (records_in (A @ B))"
    by (auto simp: marked_def)
  then have "xs @ [Issue u (EventWait e)] = A @ Issue ps (EventRecord e) # B @ Issue u (EventWait e) # []"
    "no_pcie (B @ [])" "e \<notin> set (records_in (A @ B @ []))" by simp_all
  then show ?thesis unfolding linked_def by blast
qed

lemma linked_value: "written ps a v xs \<Longrightarrow> 0 < v \<Longrightarrow> linked u ps (xs @ [Issue u (ValueWait a v)])"
proof -
  assume v: "written ps a v xs" "0 < v"
  then obtain A B where "xs = A @ Issue ps (ValueWrite a v) # B" "no_pcie B" by (auto simp: written_def)
  then have "xs @ [Issue u (ValueWait a v)] = A @ Issue ps (ValueWrite a v) # B @ Issue u (ValueWait a v) # []"
    "no_pcie (B @ [])" by simp_all
  then show ?thesis using v(2) unfolding linked_def by blast
qed

lemma keeps_forms:
  "keeps neutral_act (before u ps e g)" "keeps neutral_act (running u ps g)" "keeps neutral_act (settled u ps g c)"
proof -
  show "keeps neutral_act (before u ps e g)" by (auto simp: keeps_def before_def)
  have r: "running u ps g (new @ [a])" if "running u ps g new" "neutral_act a" for new a
    using that guarded_snoc[of u ps new a] by (auto simp: running_def)
  then show "keeps neutral_act (running u ps g)" by (simp add: keeps_def)
  show "keeps neutral_act (settled u ps g c)"
    using r linked_snoc by (auto simp: keeps_def settled_def completed_def)
qed

lemma keeps_finished: "keeps (\<lambda>a. neutral_act a \<or> (\<exists>s. a = Issue s HostCallback)) (finished u ps g c)"
proof -
  have "finished u ps g c (new @ [a])" if f: "finished u ps g c new" and a: "neutral_act a \<or> (\<exists>s. a = Issue s HostCallback)" for new a
  proof -
    obtain A B where "new = A @ B" "settled u ps g c A" "list_all (\<lambda>a. neutral_act a \<or> (\<exists>s. a = Issue s HostCallback)) B"
      using f by (auto simp: finished_def)
    then have "new @ [a] = A @ (B @ [a]) \<and> settled u ps g c A \<and>
        list_all (\<lambda>a. neutral_act a \<or> (\<exists>s. a = Issue s HostCallback)) (B @ [a])" using a by simp
    then show ?thesis unfolding finished_def by blast
  qed
  then show ?thesis by (simp add: keeps_def)
qed

lemma settled_finished: "settled u ps g c xs \<Longrightarrow> finished u ps g c xs"
  unfolding finished_def by (metis append_Nil2 list.pred_inject(1))

lemma before_settled: "before u ps e g xs \<Longrightarrow> settled u ps g' c xs"
  by (auto simp: before_def settled_def running_def completed_def no_pcie_on guarded_before)

section \<open>Accepted calls\<close>

text \<open>The runtime accepts event calls.\<close>

definition events_ok :: "vc_env \<Rightarrow> bool" where
  "events_ok env \<longleftrightarrow> (\<forall>k. ve_event env k) \<and>
     (\<forall>k s e. ve_result env k [Issue s (EventRecord e)] = 0 \<and> ve_result env k [Issue s (EventWait e)] = 0)"

lemma triple_result:
  assumes "triple P m Q" "\<And>w. R (fst (run_state m w))"
  shows "triple P m (\<lambda>r w. Q r w \<and> R r)"
  using assms by (simp add: triple_def)

lemma event_accepted:
  assumes "events_ok env"
  shows "fst (run_state (issue env s (EventRecord e)) w)" "fst (run_state (issue env s (EventWait e)) w)"
  using assms by (simp_all add: issue_def runtime_call_def events_ok_def)

section \<open>Timers\<close>

lemma midway_make_timer:
  "triple (midway L n ps V F \<Phi>) (make_timer env) (\<lambda>tm w.
     (midway L n ps (insert (tm_start_event tm) (insert (tm_end_event tm) V)) F
        (\<lambda>new. \<Phi> new \<and> tm_end_event tm \<notin> set (records_in new)) w \<and>
      tm_start_event tm \<notin> V \<and> tm_end_event tm \<notin> V \<and> tm_start_event tm \<noteq> tm_end_event tm) \<and>
     (events_ok env \<longrightarrow> tm_use_device tm))"
proof (rule triple_result)
  show "events_ok env \<longrightarrow> tm_use_device (fst (run_state (make_timer env) w))" for w
    by (simp add: make_timer_def fresh_event_def new_timer_def events_ok_def)
  have "midway L n ps (insert e (insert (Suc e) V)) F (\<lambda>new. \<Phi> new \<and> Suc e \<notin> set (records_in new))
      (w\<lparr>vw_events := Suc (Suc e)\<rparr>) \<and> e \<notin> V \<and> Suc e \<notin> V"
    if w: "midway L n ps V F \<Phi> w" and e: "e = vw_events w" for w e
  proof -
    have v: "\<forall>x \<in> V. x < e" "\<forall>x \<in> set (records_in (vw_log w)). x < e" "n \<le> e"
      using w e by (auto simp: midway_def world_ok_def)
    then have "e \<notin> V" "Suc e \<notin> V" by auto
    moreover have "Suc e \<notin> set (records_in new)" if "vw_log w = L @ new" for new
    proof
      assume "Suc e \<in> set (records_in new)"
      then have "Suc e < e" using v(2) that by simp
      then show False by simp
    qed
    moreover have "midway L n ps (insert e (insert (Suc e) V)) F \<Phi> (w\<lparr>vw_events := Suc (Suc e)\<rparr>)"
      using w v unfolding midway_def world_ok_def fresh_write_def by (auto simp: less_Suc_eq)
    ultimately show ?thesis unfolding midway_def by auto
  qed
  then show "triple (midway L n ps V F \<Phi>) (make_timer env) (\<lambda>tm w.
     midway L n ps (insert (tm_start_event tm) (insert (tm_end_event tm) V)) F
        (\<lambda>new. \<Phi> new \<and> tm_end_event tm \<notin> set (records_in new)) w \<and>
      tm_start_event tm \<notin> V \<and> tm_end_event tm \<notin> V \<and> tm_start_event tm \<noteq> tm_end_event tm)"
    by (simp add: triple_def make_timer_def fresh_event_def new_timer_def)
qed

lemma triple_clock: "triple P (clock env) (\<lambda>_. P)"
  by (simp add: triple_def clock_def)

lemma midway_start_timer:
  assumes "tm_start_event tm \<in> V" "\<And>new. \<Phi> new \<Longrightarrow> \<Phi> (new @ [Issue s (EventRecord (tm_start_event tm))])"
  shows "triple (midway L n ps V F \<Phi>) (start_timer env tm s) (\<lambda>tm' w. midway L n ps V F \<Phi> w \<and>
     (tm_start_event tm' = tm_start_event tm \<and> tm_end_event tm' = tm_end_event tm \<and> tm_use_device tm' = tm_use_device tm \<and>
     (events_ok env \<and> tm_use_device tm \<and> s \<noteq> 0 \<longrightarrow> tm_start_recorded tm')))"
proof (rule triple_result)
  have i: "triple (midway L n ps V F \<Phi>) (issue env s (EventRecord (tm_start_event tm))) (\<lambda>_. midway L n ps V F \<Phi>)"
    by (rule triple_post[OF midway_issue[where \<Psi> = \<Phi>]]) (use assms in auto)
  show "triple (midway L n ps V F \<Phi>) (start_timer env tm s) (\<lambda>_. midway L n ps V F \<Phi>)"
    unfolding start_timer_def
    by (intro triple_bind[OF triple_clock] triple_if triple_bind[OF i] triple_return)
  show "tm_start_event (fst (run_state (start_timer env tm s) w)) = tm_start_event tm \<and>
     tm_end_event (fst (run_state (start_timer env tm s) w)) = tm_end_event tm \<and>
     tm_use_device (fst (run_state (start_timer env tm s) w)) = tm_use_device tm \<and>
     (events_ok env \<and> tm_use_device tm \<and> s \<noteq> 0 \<longrightarrow> tm_start_recorded (fst (run_state (start_timer env tm s) w)))" for w
    using event_accepted(1)[of env s "tm_start_event tm" w]
    by (auto simp: start_timer_def clock_def timer_Start_def case_prod_unfold)
qed

text \<open>The end event marks the log when it could be recorded.\<close>

lemma midway_stop_timer:
  assumes "tm_end_event tm \<in> V" "\<And>new. \<Phi> new \<Longrightarrow> \<Psi> (new @ [Issue s (EventRecord (tm_end_event tm))])"
    "\<And>new. \<Phi> new \<Longrightarrow> \<not> (events_ok env \<and> tm_use_device tm \<and> s \<noteq> 0) \<Longrightarrow> \<Psi> new"
  shows "triple (midway L n ps V F \<Phi>) (stop_timer env tm s) (\<lambda>tm' w. midway L n ps V F \<Psi> w \<and>
     (tm_end_event tm' = tm_end_event tm \<and>
     (events_ok env \<and> tm_use_device tm \<and> tm_start_recorded tm \<and> s \<noteq> 0 \<longrightarrow> CanUseRecordedEvents tm')))"
proof (rule triple_result)
  have i: "triple (midway L n ps V F \<Phi>) (issue env s (EventRecord (tm_end_event tm)))
      (\<lambda>ok w. midway L n ps V F (if ok then \<Psi> else \<Phi>) w \<and> (events_ok env \<longrightarrow> ok))"
    by (rule triple_result, rule midway_issue) (use assms(1,2) event_accepted in auto)
  have weak: "midway L n ps V F \<Phi> w \<Longrightarrow> \<not> (events_ok env \<and> tm_use_device tm \<and> s \<noteq> 0) \<Longrightarrow> midway L n ps V F \<Psi> w" for w
    by (erule midway_weaken[OF _ order_refl order_refl], erule assms(3))
  show "triple (midway L n ps V F \<Phi>) (stop_timer env tm s) (\<lambda>_. midway L n ps V F \<Psi>)"
    unfolding stop_timer_def
    by (intro triple_bind[OF triple_clock] triple_if triple_bind[OF i] triple_return) (auto split: if_splits intro: weak)
  show "tm_end_event (fst (run_state (stop_timer env tm s) w)) = tm_end_event tm \<and>
     (events_ok env \<and> tm_use_device tm \<and> tm_start_recorded tm \<and> s \<noteq> 0 \<longrightarrow>
      CanUseRecordedEvents (fst (run_state (stop_timer env tm s) w)))" for w
    using event_accepted(1)[of env s "tm_end_event tm" w]
    by (auto simp: stop_timer_def clock_def timer_Stop_def CanUseRecordedEvents_def case_prod_unfold)
qed

section \<open>Value synchronisation\<close>

text \<open>An allocation does not overlap token memory in use.\<close>

definition alloc_ok :: "vc_env \<Rightarrow> bool" where
  "alloc_ok env \<longleftrightarrow> (\<forall>w bytes s c. ve_alloc env w bytes \<noteq> 0 \<and> om_get (vw_contexts w) s = Some c \<longrightarrow>
     ve_alloc env w bytes + bytes \<le> vx_tokens c \<or> vx_tokens c + 1024 \<le> ve_alloc env w bytes)"

definition tickets :: "stream \<Rightarrow> stream \<Rightarrow> value_ticket option \<Rightarrow> (stream \<times> addr \<times> size_t) set" where
  "tickets u ps vs = (case vs of None \<Rightarrow> {}
     | Some tk \<Rightarrow> {(u, tk_input tk, tk_seq tk), (ps, tk_completion tk, tk_seq tk)})"

definition completion_ticket :: "stream \<Rightarrow> value_ticket option \<Rightarrow> (stream \<times> addr \<times> size_t) set" where
  "completion_ticket ps vs = (case vs of None \<Rightarrow> {} | Some tk \<Rightarrow> {(ps, tk_completion tk, tk_seq tk)})"

lemma word_ranges:
  "t \<le> input_word t v" "input_word t v < t + 512" "t + 512 \<le> completion_word t v" "completion_word t v < t + 1024"
proof -
  have "v mod kRingSize < 64" by (simp add: kRingSize_def)
  then show "t \<le> input_word t v" "input_word t v < t + 512" "t + 512 \<le> completion_word t v" "completion_word t v < t + 1024"
    by (simp_all add: input_word_def completion_word_def kRingSize_def)
qed

text \<open>The block of \<open>c\<close> is the one of \<open>u\<close>, or new.\<close>

definition block_of :: "(stream, vs_context) omap \<Rightarrow> stream \<Rightarrow> vs_context \<Rightarrow> bool" where
  "block_of m u c \<longleftrightarrow> 0 < vx_next c \<and> (om_get m u = None \<or> om_get m u = Some c) \<and>
     (\<forall>t d. t \<noteq> u \<and> om_get m t = Some d \<longrightarrow>
        vx_tokens c + 1024 \<le> vx_tokens d \<or> vx_tokens d + 1024 \<le> vx_tokens c)"

lemma contexts_ok_put:
  assumes "contexts_ok m" "block_of m u c" "vx_tokens c' = vx_tokens c" "0 < vx_next c'"
  shows "contexts_ok (om_put u c' m)"
proof -
  have apart: "vx_tokens c1 + 1024 \<le> vx_tokens d1 \<or> vx_tokens d1 + 1024 \<le> vx_tokens c1"
    if "om_get (om_put u c' m) s = Some c1" "om_get (om_put u c' m) t = Some d1" "s \<noteq> t" for s t c1 d1
  proof -
    have new: "vx_tokens c + 1024 \<le> vx_tokens d \<or> vx_tokens d + 1024 \<le> vx_tokens c" if "t \<noteq> u" "om_get m t = Some d" for t d
      using assms(2) that unfolding block_of_def by blast
    consider "s = u" "t \<noteq> u" | "s \<noteq> u" "t = u" | "s \<noteq> u" "t \<noteq> u" using \<open>s \<noteq> t\<close> by blast
    then show ?thesis
    proof cases
      case 1
      then show ?thesis using that new[of t d1] assms(3) by simp
    next
      case 2
      then show ?thesis using that new[of s c1] assms(3) by auto
    next
      case 3
      then show ?thesis using that assms(1) unfolding contexts_ok_def by (metis om_get_put)
    qed
  qed
  have "0 < vx_next c1" if "om_get (om_put u c' m) s = Some c1" for s c1
    using that assms(1,4) by (auto simp: contexts_ok_def split: if_splits)
  then show ?thesis using apart unfolding contexts_ok_def by blast
qed

lemma owned_put:
  assumes "owned ps m x" "block_of m u c" "vx_tokens c' = vx_tokens c" "vx_next c \<le> vx_next c'"
  shows "owned ps (om_put u c' m) x"
proof -
  obtain s a v t d where x: "x = (s, a, v)" "om_get m t = Some d" "v < vx_next d"
    "s = t \<and> a = input_word (vx_tokens d) v \<or> s = ps \<and> a = completion_word (vx_tokens d) v"
    using assms(1) by (auto simp: owned_def)
  have "\<exists>d'. om_get (om_put u c' m) t = Some d' \<and> vx_tokens d' = vx_tokens d \<and> vx_next d \<le> vx_next d'"
    using x(2) assms(2-4) by (auto simp: block_of_def)
  then show ?thesis using x unfolding owned_def by fastforce
qed

lemma owned_before:
  assumes "owned ps m y" "block_of m u c" "x = (u, input_word (vx_tokens c) (vx_next c), vx_next c) \<or>
    x = (ps, completion_word (vx_tokens c) (vx_next c), vx_next c)"
  shows "grows y x"
proof -
  obtain s a v t d where y: "y = (s, a, v)" "om_get m t = Some d" "v < vx_next d"
    "s = t \<and> a = input_word (vx_tokens d) v \<or> s = ps \<and> a = completion_word (vx_tokens d) v"
    using assms(1) by (auto simp: owned_def)
  show ?thesis
  proof (cases "t = u")
    case True
    then have dc: "d = c" using y(2) assms(2) by (auto simp: block_of_def)
    note r = word_ranges[of "vx_tokens c" v] word_ranges[of "vx_tokens c" "vx_next c"]
    have "fst x = s \<and> snd (snd x) = vx_next c" if "a = fst (snd x)"
      using that y(4) assms(3) r unfolding dc True by (elim disjE conjE) simp_all
    then show ?thesis using y(1,3) dc by (auto simp: grows_def)
  next
    case False
    then have "vx_tokens c + 1024 \<le> vx_tokens d \<or> vx_tokens d + 1024 \<le> vx_tokens c"
      using y(2) assms(2) by (auto simp: block_of_def)
    moreover have "vx_tokens d \<le> a" "a < vx_tokens d + 1024"
      using y(4) word_ranges[of "vx_tokens d" v] by auto
    moreover have "vx_tokens c \<le> fst (snd x)" "fst (snd x) < vx_tokens c + 1024"
      using assms(3) word_ranges[of "vx_tokens c" "vx_next c"] by auto
    ultimately show ?thesis using y(1) by (auto simp: grows_def)
  qed
qed

lemma midway_take_ticket:
  assumes w: "midway L n ps V {} \<Phi> w" and b: "block_of (vw_contexts w) u c"
  shows "midway L n ps V (tickets u ps (fst (run_state (take_ticket u c) w))) \<Phi> (snd (run_state (take_ticket u c) w))"
proof -
  define c' where "c' = snd (NextTicket c)"
  have same: "vx_tokens c' = vx_tokens c" "vx_next c \<le> vx_next c'" by (auto simp: c'_def NextTicket_def)
  have pos: "0 < vx_next c" using b by (simp add: block_of_def)
  let ?w = "w\<lparr>vw_contexts := om_put u c' (vw_contexts w)\<rparr>"
  have wo: "world_ok ps ?w" using w b same pos
    by (auto simp: midway_def world_ok_def intro!: contexts_ok_put[of _ _ c] owned_put[of _ _ _ _ c])
  have none: "midway L n ps V {} \<Phi> ?w" using w wo by (simp add: midway_def)
  show ?thesis
  proof (cases "fst (run_state (take_ticket u c) w)")
    case None
    then show ?thesis using none by (simp add: tickets_def take_ticket_def set_context_def c'_def case_prod_unfold)
  next
    case (Some tk)
    then have tk: "tk = \<lparr>tk_input = input_word (vx_tokens c) (vx_next c),
        tk_completion = completion_word (vx_tokens c) (vx_next c), tk_seq = vx_next c\<rparr>" "c' = c\<lparr>vx_next := vx_next c + 1\<rparr>"
      by (auto simp: take_ticket_def set_context_def NextTicket_def no_ticket_def c'_def split: if_splits)
    let ?F = "tickets u ps (Some tk)"
    have f: "?F = {(u, input_word (vx_tokens c) (vx_next c), vx_next c), (ps, completion_word (vx_tokens c) (vx_next c), vx_next c)}"
      by (simp add: tickets_def tk(1))
    have "owned ps (vw_contexts ?w) x \<and> fresh_write ?w x" if x: "x \<in> ?F" for x
    proof
      show "owned ps (vw_contexts ?w) x" using x unfolding f owned_def by (auto simp: tk(2))
      have "\<forall>y \<in> set (writes_in (vw_log w)). owned ps (vw_contexts w) y" using w by (simp add: midway_def world_ok_def)
      then show "fresh_write ?w x" using x b pos owned_before unfolding f fresh_write_def by fastforce
    qed
    moreover have "inj_on (\<lambda>x. fst (snd x)) ?F"
      unfolding f using word_ranges(2,3)[of "vx_tokens c" "vx_next c"] by auto
    ultimately have "midway L n ps V ?F \<Phi> ?w" using none unfolding midway_def by blast
    then show ?thesis unfolding Some by (simp add: take_ticket_def set_context_def c'_def case_prod_unfold)
  qed
qed

lemma neutral_initialize: "neutral (context_Initialize env)"
  unfolding context_Initialize_def by (intro neutral_if neutral_bind) simp_all

lemma initialize_block:
  assumes "alloc_ok env" "om_get (vw_contexts w) u = None" "fst (run_state (context_Initialize env) w) = Some c"
  shows "block_of (vw_contexts w) u c"
proof -
  have c: "vx_next c = 1" "vx_tokens c = ve_alloc env w 1024" "ve_alloc env w 1024 \<noteq> 0"
    using assms(3) by (auto simp: context_Initialize_def AllocDeviceBuffer_def FreeDeviceBuffer_def kRingSize_def
      runtime_call_def split: if_splits)
  have "\<forall>t d. om_get (vw_contexts w) t = Some d \<longrightarrow>
      vx_tokens c + 1024 \<le> vx_tokens d \<or> vx_tokens d + 1024 \<le> vx_tokens c"
    using assms(1) c(3) unfolding alloc_ok_def c(2) by blast
  moreover have "0 < vx_next c" using c(1) by simp
  ultimately show ?thesis using assms(2) unfolding block_of_def by blast
qed

lemma midway_begin:
  assumes "alloc_ok env" "keeps neutral_act \<Phi>"
  shows "triple (midway L n ps V {} \<Phi>) (BeginValueSyncSubmission env d u) (\<lambda>vs. midway L n ps V (tickets u ps vs) \<Phi>)"
proof -
  have none: "midway L n ps V (tickets u ps None) \<Phi> w" if "midway L n ps V {} \<Phi> w" for w
    using that by (simp add: tickets_def)
  have blk: "block_of (vw_contexts w) u c" if "midway L n ps V {} \<Phi> w" "om_get (vw_contexts w) u = Some c" for w c
    using that unfolding midway_def world_ok_def contexts_ok_def block_of_def by blast
  have "midway L n ps V (tickets u ps (fst (run_state (BeginValueSyncSubmission env d u) w))) \<Phi>
      (snd (run_state (BeginValueSyncSubmission env d u) w))" if w: "midway L n ps V {} \<Phi> w" for w
  proof (cases "\<not> ve_acl env \<or> u = 0 \<or> cm_pcie_stream d = 0")
    case True
    then show ?thesis using none[OF w] by (simp add: BeginValueSyncSubmission_def)
  next
    case False
    then have run: "run_state (BeginValueSyncSubmission env d u) w =
        (case om_get (vw_contexts w) u of Some c \<Rightarrow> run_state (take_ticket u c) w
         | None \<Rightarrow> case fst (run_state (context_Initialize env) w) of
              None \<Rightarrow> (None, snd (run_state (context_Initialize env) w))
            | Some c \<Rightarrow> run_state (take_ticket u c) (snd (run_state (context_Initialize env) w)))"
      by (auto simp: BeginValueSyncSubmission_def get_context_def case_prod_unfold split: option.split)
    show ?thesis
    proof (cases "om_get (vw_contexts w) u")
      case (Some c)
      then show ?thesis unfolding run using midway_take_ticket[OF w blk[OF w Some]] by simp
    next
      case None
      let ?w = "snd (run_state (context_Initialize env) w)"
      have w': "midway L n ps V {} \<Phi> ?w" using midway_neutral[OF neutral_initialize assms(2)] w by (simp add: triple_def)
      have "vw_contexts ?w = vw_contexts w" using neutral_initialize[of env] by (simp add: neutral_def neutral_step_def)
      then show ?thesis unfolding run None
        using none[OF w'] midway_take_ticket[OF w'] initialize_block[OF assms(1) None]
        by (cases "fst (run_state (context_Initialize env) w)") simp_all
    qed
  qed
  then show ?thesis by (simp add: triple_def)
qed

lemma take_ticket_apart:
  "fst (run_state (take_ticket u c) w) = Some tk \<Longrightarrow> tk_input tk \<noteq> tk_completion tk"
  using word_ranges(2,3)[of "vx_tokens c" "vx_next c"]
  by (auto simp: take_ticket_def set_context_def NextTicket_def no_ticket_def split: if_splits)

lemma begin_apart:
  "fst (run_state (BeginValueSyncSubmission env d u) w) = Some tk \<Longrightarrow> tk_input tk \<noteq> tk_completion tk"
  unfolding BeginValueSyncSubmission_def
  by (auto simp: get_context_def case_prod_unfold split: if_splits option.splits dest: take_ticket_apart)

end
