(* ===== verification/CollectiveOrder.thy ===== *)
theory CollectiveOrder
  imports CollectiveRules
begin

text \<open>
  The form of the log of every collective: its PCIe call is issued after the wait for the
  user's input, and the user stream's dependency on it before the completion callback.
\<close>

section \<open>Before the PCIe call\<close>

lemma midway_input_wait:
  assumes "ps = cm_pcie_stream d" "\<And>tk. vs = Some tk \<Longrightarrow> tk_input tk \<noteq> tk_completion tk"
  shows "triple (midway L n ps V (tickets u ps vs) (before u ps e False)) (PcieWaitForUserInputIfNeeded env d u vs)
    (\<lambda>ready. midway L n ps V (completion_ticket ps vs) (before u ps e ready))"
proof -
  let ?F = "completion_ticket ps vs"
  have less: "midway L n ps V ?F (before u ps e False) w" if "midway L n ps V (tickets u ps vs) (before u ps e g) w" for w g
    using that by (rule midway_weaken) (auto simp: tickets_def completion_ticket_def before_def split: option.splits)
  have sync: "triple (midway L n ps V ?F (before u ps e False)) (stream_Synchronize env u)
      (\<lambda>r. midway L n ps V ?F (before u ps e (IsOk r)))"
  proof -
    have c: "triple (midway L n ps V ?F (before u ps e False)) (runtime_call env [SyncStream u])
        (\<lambda>r. midway L n ps V ?F (if r = 0 then before u ps e True else before u ps e False))"
      by (rule midway_call) (auto simp: before_def guard_in_def)
    show ?thesis unfolding stream_Synchronize_def
      by (intro triple_if triple_bind[OF c] triple_return)
        (auto simp: IntResultToBackend_def ok_result_def error_result_def IsOk_def split: if_splits)
  qed
  have val: "triple (midway L n ps V (tickets u ps (Some tk)) (before u ps e False))
      (State_Monad.bind (EnqueueInputReady env tk u)
        (\<lambda>a. if a then EnqueueInputWait env tk ps else State_Monad.return False))
      (\<lambda>ready. midway L n ps V (completion_ticket ps (Some tk)) (before u ps e ready))"
    if "tk_input tk \<noteq> tk_completion tk" for tk
  proof -
    let ?w = "\<lambda>new. before u ps e False new \<and> (\<exists>A B. new = A @ Issue u (ValueWrite (tk_input tk) (tk_seq tk)) # B)"
    have f: "completion_ticket ps (Some tk) \<subseteq> tickets u ps (Some tk) - {(u, tk_input tk, tk_seq tk)}"
      using that by (simp add: tickets_def completion_ticket_def)
    have a: "triple (midway L n ps V (tickets u ps (Some tk)) (before u ps e False)) (EnqueueInputReady env tk u)
        (\<lambda>ok. midway L n ps V (completion_ticket ps (Some tk)) (if ok then ?w else before u ps e False))"
      unfolding EnqueueInputReady_def
    proof (rule triple_if)
      show "triple (midway L n ps V (tickets u ps (Some tk)) (before u ps e False)) (State_Monad.return False)
          (\<lambda>ok. midway L n ps V (completion_ticket ps (Some tk)) (if ok then ?w else before u ps e False))"
        by (rule triple_return, simp, erule midway_weaken) (auto simp: tickets_def completion_ticket_def)
      show "triple (midway L n ps V (tickets u ps (Some tk)) (before u ps e False))
          (issue env u (ValueWrite (tk_input tk) (tk_seq tk)))
          (\<lambda>ok. midway L n ps V (completion_ticket ps (Some tk)) (if ok then ?w else before u ps e False))"
      proof (rule triple_post, rule midway_write[where \<Psi> = ?w])
        show "(u, tk_input tk, tk_seq tk) \<in> tickets u ps (Some tk)" by (simp add: tickets_def)
        show "?w (new @ [Issue u (ValueWrite (tk_input tk) (tk_seq tk))])" if "before u ps e False new" for new
          using that by (auto simp: before_def)
      qed (erule midway_weaken[OF _ order_refl f], simp)
    qed
    have b: "triple (midway L n ps V (completion_ticket ps (Some tk)) ?w) (EnqueueInputWait env tk ps)
        (\<lambda>ready. midway L n ps V (completion_ticket ps (Some tk)) (before u ps e ready))"
      unfolding EnqueueInputWait_def
    proof (rule triple_if)
      show "triple (midway L n ps V (completion_ticket ps (Some tk)) ?w) (State_Monad.return False)
          (\<lambda>ready. midway L n ps V (completion_ticket ps (Some tk)) (before u ps e ready))"
        by (rule triple_return, erule midway_weaken) auto
      assume tk: "\<not> (\<not> ve_acl env \<or> tk_input tk = 0 \<or> tk_seq tk = 0 \<or> ps = 0)"
      then have pos: "0 < tk_seq tk" by simp
      have g: "before u ps e True (new @ [Issue ps (ValueWait (tk_input tk) (tk_seq tk))])" if "?w new" for new
      proof -
        obtain A B where "new = A @ Issue u (ValueWrite (tk_input tk) (tk_seq tk)) # B" using \<open>?w new\<close> by blast
        then have "new @ [Issue ps (ValueWait (tk_input tk) (tk_seq tk))] =
            A @ Issue u (ValueWrite (tk_input tk) (tk_seq tk)) # B @ Issue ps (ValueWait (tk_input tk) (tk_seq tk)) # []"
          by simp
        then have "guard_in u ps (new @ [Issue ps (ValueWait (tk_input tk) (tk_seq tk))])"
          using pos unfolding guard_in_def by blast
        then show ?thesis using that by (simp add: before_def)
      qed
      show "triple (midway L n ps V (completion_ticket ps (Some tk)) ?w) (issue env ps (ValueWait (tk_input tk) (tk_seq tk)))
          (\<lambda>ready. midway L n ps V (completion_ticket ps (Some tk)) (before u ps e ready))"
        by (rule triple_post[OF midway_issue[where \<Psi> = "before u ps e True"]])
          (use g in \<open>auto split: if_splits intro: midway_weaken[OF _ order_refl order_refl]\<close>)
    qed
    show ?thesis
      by (rule triple_bind[OF a], rule triple_if, simp, rule b) (auto intro: triple_return)
  qed
  have ready: "triple (midway L n ps V (tickets u ps vs) (before u ps e False))
      (case vs of None \<Rightarrow> State_Monad.return False | Some tk \<Rightarrow> State_Monad.bind (EnqueueInputReady env tk u)
        (\<lambda>a. if a then EnqueueInputWait env tk (cm_pcie_stream d) else State_Monad.return False))
      (\<lambda>ready. midway L n ps V ?F (before u ps e ready))"
  proof (cases vs)
    case None
    then show ?thesis using less[of False] by (auto intro: triple_return)
  next
    case (Some tk)
    then show ?thesis using val[of tk] assms(2)[of tk] unfolding assms(1)[symmetric] by simp
  qed
  show ?thesis unfolding PcieWaitForUserInputIfNeeded_def
    by (intro triple_if triple_bind[OF ready] triple_bind[OF sync] triple_return)
      (use less in \<open>auto intro: midway_weaken intro!: triple_bind[OF sync] triple_return\<close>)
qed

text \<open>The timed call of the vendor library keeps what holds before the PCIe call.\<close>

lemma midway_timed_fast:
  assumes "tm_start_event tm \<in> V" "tm_end_event tm \<in> V" "tm_start_event tm \<noteq> e" "tm_end_event tm \<noteq> e"
  shows "triple (midway L n ps V F (before u ps e g)) (timed env tm s (fast_backend env b call s))
    (\<lambda>_. midway L n ps V F (before u ps e g))"
proof -
  have start: "triple (midway L n ps V F (before u ps e g)) (start_timer env tm s) (\<lambda>tm' w.
      midway L n ps V F (before u ps e g) w \<and> tm_end_event tm' = tm_end_event tm)"
    by (rule triple_post[OF midway_start_timer]) (use assms in \<open>auto simp: before_def\<close>)
  have stop: "triple (midway L n ps V F (before u ps e g)) (stop_timer env tm' s) (\<lambda>_. midway L n ps V F (before u ps e g))"
    if "tm_end_event tm' = tm_end_event tm" for tm'
    by (rule triple_post[OF midway_stop_timer[where \<Psi> = "before u ps e g"]]) (use assms that in \<open>auto simp: before_def\<close>)
  show ?thesis unfolding timed_def
    by (intro triple_bind[OF start] triple_fact triple_bind[OF midway_neutral[OF _ keeps_forms(1)]]
      triple_bind[OF stop] triple_return) simp_all
qed

section \<open>The PCIe call and its completion\<close>

lemma midway_pcie_call:
  "triple (midway L n ps V F (\<lambda>new. before u ps e g new)) (pcie_backend env d b call ps)
     (\<lambda>_. midway L n ps V F (\<lambda>new. running u ps g new \<and> e \<notin> set (records_in new)))"
proof -
  have r: "running u ps g new \<and> e \<notin> set (records_in new)" if "before u ps e g new" for new
    using that by (auto simp: before_def running_def no_pcie_on guarded_before)
  have "running u ps g (new @ [Issue ps (PcieOp call)]) \<and> e \<notin> set (records_in (new @ [Issue ps (PcieOp call)]))"
    if "before u ps e g new" for new
    using that guarded_snoc[OF guarded_before, of new "Issue ps (PcieOp call)" u ps]
    by (auto simp: before_def running_def no_pcie_on)
  then have c: "triple (midway L n ps V F (before u ps e g)) (runtime_call env [Issue ps (PcieOp call)])
      (\<lambda>_. midway L n ps V F (\<lambda>new. running u ps g new \<and> e \<notin> set (records_in new)))"
    by (intro triple_post[OF midway_call[where \<Psi> = "\<lambda>new. running u ps g new \<and> e \<notin> set (records_in new)"]])
      (auto split: if_splits intro: midway_weaken[OF _ order_refl order_refl r])
  show ?thesis unfolding pcie_backend_def
    by (intro triple_if triple_return triple_bind[OF c]) (erule midway_weaken[OF _ order_refl order_refl r], assumption)+
qed

text \<open>What is recorded after the call, and the dependency of the user stream.\<close>

definition recorded :: "stream \<Rightarrow> stream \<Rightarrow> bool \<Rightarrow> bool \<Rightarrow> nat \<Rightarrow> host_log \<Rightarrow> bool" where
  "recorded u ps g c e xs \<longleftrightarrow> running u ps g xs \<and> (c \<longrightarrow> marked ps e xs)"

lemma recorded_snoc:
  "recorded u ps g c e xs \<Longrightarrow> \<not> is_pcie a \<Longrightarrow> \<forall>s. a \<noteq> Issue s HostCallback \<Longrightarrow> record_of a = [] \<Longrightarrow>
     recorded u ps g c e (xs @ [a])"
  using marked_snoc[of ps e xs a] guarded_snoc[of u ps xs a] by (auto simp: recorded_def running_def)

lemma midway_event_wait:
  assumes "c \<Longrightarrow> events_ok env \<and> u \<noteq> 0 \<and> CanUseRecordedEvents tm \<and> tm_end_event tm = e"
  shows "triple (midway L n ps V F (recorded u ps g c e)) (WaitEventOnStream env tm u) (\<lambda>_. midway L n ps V F (settled u ps g c))"
proof (cases c)
  case False
  have a: "midway L n ps V F (settled u ps g c) w" if "midway L n ps V F (running u ps g) w" for w
    using that by (rule midway_weaken) (simp_all add: settled_def False)
  have b: "midway L n ps V F (running u ps g) w" if "midway L n ps V F (recorded u ps g c e) w" for w
    using that by (rule midway_weaken) (simp_all add: recorded_def)
  show ?thesis
    by (rule triple_conseq[OF midway_neutral[OF neutral_ops(11) keeps_forms(2)]], erule b, erule a)
next
  case True
  have l: "settled u ps g c (new @ [Issue u (EventWait e)])" if "recorded u ps g c e new" for new
    using that linked_event[of ps e new u] guarded_snoc[of u ps new] True
    by (auto simp: settled_def recorded_def running_def completed_def)
  have i: "triple (midway L n ps V F (recorded u ps g c e)) (issue env u (EventWait e))
      (\<lambda>ok w. midway L n ps V F (if ok then settled u ps g c else recorded u ps g c e) w \<and> ok)"
    by (rule triple_result, rule midway_issue) (use l assms True event_accepted in auto)
  show ?thesis unfolding WaitEventOnStream_def
    using assms[OF True] by (simp, intro triple_bind[OF i] triple_return) (simp split: if_splits)
qed

lemma midway_complete:
  assumes c: "c \<Longrightarrow> events_ok env \<and> u \<noteq> 0 \<and> CanUseRecordedEvents tm \<and> tm_end_event tm = e"
    and p: "uses_pcie plan" "ps \<noteq> 0" "ps = cm_pcie_stream d"
  shows "triple (midway L n ps V (completion_ticket ps vs) (recorded u ps g c e))
    (PcieCompleteOnUserStreamIfNeeded env d u plan vs tm) (\<lambda>_. midway L n ps V {} (settled u ps g c))"
proof (cases "u = 0")
  case True
  then have "\<not> c" using c by blast
  then have "midway L n ps V {} (settled u ps g c) w"
    if "midway L n ps V (completion_ticket ps vs) (recorded u ps g c e) w" for w
    using that by (elim midway_weaken) (auto simp: recorded_def settled_def)
  then show ?thesis unfolding PcieCompleteOnUserStreamIfNeeded_def using True by (auto intro: triple_return)
next
  case False
  have none: "midway L n ps V {} (recorded u ps g c e) w" if "midway L n ps V F (recorded u ps g c e) w" for w F
    using that by (rule midway_weaken) auto
  let ?wr = "\<lambda>tk new. recorded u ps g c e new \<and> written ps (tk_completion tk) (tk_seq tk) new"
  have wr: "triple (midway L n ps V (completion_ticket ps (Some tk)) (recorded u ps g c e)) (EnqueueWrite env tk ps)
      (\<lambda>ok. midway L n ps V {} (if ok then ?wr tk else recorded u ps g c e))" for tk
  proof -
    let ?F = "completion_ticket ps (Some tk)"
    have m: "?wr tk (new @ [Issue ps (ValueWrite (tk_completion tk) (tk_seq tk))])" if "recorded u ps g c e new" for new
      using that recorded_snoc[of u ps g c e new] unfolding written_def by force
    have "triple (midway L n ps V ?F (recorded u ps g c e)) (issue env ps (ValueWrite (tk_completion tk) (tk_seq tk)))
        (\<lambda>ok. midway L n ps V {} (if ok then ?wr tk else recorded u ps g c e))"
      by (rule triple_post, rule midway_write[where \<Psi> = "?wr tk", OF _ m])
        (auto simp: completion_ticket_def)
    then show ?thesis unfolding EnqueueWrite_def by (rule triple_if[rotated]) (rule triple_return, simp, erule none)
  qed
  have wt: "triple (midway L n ps V {} (?wr tk)) (EnqueueWait env tk u)
      (\<lambda>ok. midway L n ps V {} (if ok then settled u ps g c else recorded u ps g c e))" for tk
    unfolding EnqueueWait_def
  proof (rule triple_if)
    show "triple (midway L n ps V {} (?wr tk)) (State_Monad.return False)
        (\<lambda>ok. midway L n ps V {} (if ok then settled u ps g c else recorded u ps g c e))"
      by (rule triple_return, simp, erule midway_weaken) simp_all
    assume "\<not> (\<not> ve_acl env \<or> tk_completion tk = 0 \<or> tk_seq tk = 0 \<or> u = 0)"
    then have "0 < tk_seq tk" by simp
    then have "settled u ps g c (new @ [Issue u (ValueWait (tk_completion tk) (tk_seq tk))])" if "?wr tk new" for new
      using that linked_value guarded_snoc[of u ps new]
      by (auto simp: settled_def recorded_def running_def completed_def)
    then show "triple (midway L n ps V {} (?wr tk)) (issue env u (ValueWait (tk_completion tk) (tk_seq tk)))
        (\<lambda>ok. midway L n ps V {} (if ok then settled u ps g c else recorded u ps g c e))"
      by (intro triple_post[OF midway_issue[where \<Psi> = "settled u ps g c"]])
        (auto split: if_splits elim: midway_weaken)
  qed
  have sig: "triple (midway L n ps V (completion_ticket ps vs) (recorded u ps g c e))
      (case vs of None \<Rightarrow> State_Monad.return False | Some tk \<Rightarrow> State_Monad.bind (EnqueueWrite env tk ps)
        (\<lambda>a. if a then EnqueueWait env tk u else State_Monad.return False))
      (\<lambda>ok. midway L n ps V {} (if ok then settled u ps g c else recorded u ps g c e))"
    by (intro triple_option triple_return)
      (auto intro: none intro!: triple_bind[OF wr] triple_if wt triple_return)
  have ev: "triple (midway L n ps V {} (recorded u ps g c e)) (WaitEventOnStream env tm u) (\<lambda>_. midway L n ps V {} (settled u ps g c))"
    by (rule midway_event_wait) (rule c)
  show ?thesis unfolding PcieCompleteOnUserStreamIfNeeded_def
    using False p(1,2) unfolding p(3)[symmetric]
    by (simp, intro triple_bind[OF sig] triple_if triple_return) (auto intro: ev)
qed

lemma midway_pcie_part:
  assumes tm: "tm_start_event tm \<in> V" "tm_end_event tm \<in> V" "tm_start_event tm \<noteq> tm_end_event tm"
    and c: "c \<Longrightarrow> events_ok env \<and> u \<noteq> 0 \<and> tm_use_device tm"
    and p: "uses_pcie plan" "cm_pcie_stream d \<noteq> 0" "ps = cm_pcie_stream d"
  shows "triple (midway L n ps V (completion_ticket ps vs) (before u ps (tm_end_event tm) g))
    (pcie_part env d plan vs supd call tm u) (\<lambda>_. midway L n ps V {} (settled u ps g c))"
proof -
  let ?e = "tm_end_event tm" and ?F = "completion_ticket ps vs"
  have start: "triple (midway L n ps V ?F (before u ps ?e g)) (start_timer env tm ps) (\<lambda>tm' w.
      midway L n ps V ?F (before u ps ?e g) w \<and> (tm_end_event tm' = ?e \<and> (c \<longrightarrow> tm_use_device tm' \<and> tm_start_recorded tm')))"
    by (rule triple_post[OF midway_start_timer]) (use tm c p in \<open>auto simp: before_def\<close>)
  have stop: "triple (midway L n ps V ?F (\<lambda>new. running u ps g new \<and> ?e \<notin> set (records_in new))) (stop_timer env tm' ps)
      (\<lambda>tm2 w. midway L n ps V ?F (recorded u ps g c ?e) w \<and> (tm_end_event tm2 = ?e \<and> (c \<longrightarrow> CanUseRecordedEvents tm2)))"
    if t: "tm_end_event tm' = ?e \<and> (c \<longrightarrow> tm_use_device tm' \<and> tm_start_recorded tm')" for tm'
  proof (rule triple_post[OF midway_stop_timer[where \<Psi> = "recorded u ps g c ?e"]])
    show "recorded u ps g c ?e (new @ [Issue ps (EventRecord (tm_end_event tm'))])"
      if "running u ps g new \<and> ?e \<notin> set (records_in new)" for new
    proof -
      have "new @ [Issue ps (EventRecord ?e)] = new @ Issue ps (EventRecord ?e) # []" by simp
      then have "marked ps ?e (new @ [Issue ps (EventRecord ?e)])" unfolding marked_def using that by fastforce
      then show ?thesis using t that guarded_snoc[of u ps new] by (auto simp: recorded_def running_def)
    qed
    show "recorded u ps g c ?e new"
      if "running u ps g new \<and> ?e \<notin> set (records_in new)" "\<not> (events_ok env \<and> tm_use_device tm' \<and> ps \<noteq> 0)" for new
      using that t c p by (auto simp: recorded_def)
  qed (use t tm c p in auto)
  have comp: "triple (midway L n ps V ?F (recorded u ps g c ?e)) (PcieCompleteOnUserStreamIfNeeded env d u plan vs tm2)
      (\<lambda>_. midway L n ps V {} (settled u ps g c))"
    if "tm_end_event tm2 = ?e \<and> (c \<longrightarrow> CanUseRecordedEvents tm2)" for tm2
    by (rule midway_complete) (use that c p in auto)
  have sync: "triple (midway L n ps V {} (settled u ps g c)) (SyncPCIeStreamBeforeCallbackIfEnabled env d plan)
      (\<lambda>_. midway L n ps V {} (settled u ps g c))"
    by (rule midway_neutral[OF _ keeps_forms(3)]) simp
  show ?thesis unfolding pcie_part_def timed_def p(3)[symmetric]
  proof (rule triple_bind[where R = "\<lambda>r w. midway L n ps V ?F (recorded u ps g c ?e) w \<and>
      (tm_end_event (fst r) = ?e \<and> (c \<longrightarrow> CanUseRecordedEvents (fst r)))"])
    show "triple (midway L n ps V ?F (before u ps ?e g)) (State_Monad.bind (start_timer env tm ps)
        (\<lambda>tm1. State_Monad.bind (pcie_backend env d supd call ps)
          (\<lambda>r. State_Monad.bind (stop_timer env tm1 ps) (\<lambda>tm2. State_Monad.return (tm2, r)))))
        (\<lambda>r w. midway L n ps V ?F (recorded u ps g c ?e) w \<and> (tm_end_event (fst r) = ?e \<and> (c \<longrightarrow> CanUseRecordedEvents (fst r))))"
      by (rule triple_bind[OF start], rule triple_fact, rule triple_bind[OF midway_pcie_call], rule triple_bind[OF stop],
        assumption, rule triple_return) simp
  qed (intro triple_fact triple_pair triple_bind[OF comp] triple_bind[OF sync] triple_return; simp)
qed

section \<open>The end\<close>

lemma midway_finish:
  "triple (midway L n ps V {} (settled u ps g c)) (finish_launch env s p fast_tm pcie_tm) (\<lambda>_. midway L n ps V {} (finished u ps g c))"
proof -
  have cb: "finished u ps g c (new @ [Issue s HostCallback])" if "settled u ps g c new" for new
    using keeps_finished settled_finished[OF that] by (auto simp: keeps_def)
  have i: "triple (midway L n ps V {} (settled u ps g c)) (issue env s HostCallback) (\<lambda>_. midway L n ps V {} (finished u ps g c))"
    by (rule triple_post[OF midway_issue[where \<Psi> = "finished u ps g c", OF _ _ cb]])
      (auto split: if_splits intro: midway_weaken[OF _ order_refl order_refl settled_finished])
  show ?thesis unfolding finish_launch_def EnqueueCollectiveCompletionCallback_def
    by (intro triple_bind[OF midway_neutral[OF neutral_ops(7) keeps_forms(3)]] triple_if triple_return triple_bind[OF i])
      (erule midway_weaken[OF _ order_refl order_refl settled_finished], assumption)+
qed

end
