(* ===== verification/CollectiveProofs.thy ===== *)
theory CollectiveProofs
  imports CollectiveOrder
begin

text \<open>
  The rule of each collective: from a consistent world it leaves a consistent world, with its
  part of the log in the final form. \<open>g\<close> says that the PCIe call is guarded, \<open>c\<close> that its
  completion is ordered.
\<close>

section \<open>The steps all collectives share\<close>

definition launch_timers :: "vc_env \<Rightarrow> nat set \<Rightarrow> timer \<Rightarrow> timer \<Rightarrow> bool" where
  "launch_timers env V ftm ptm \<longleftrightarrow> tm_start_event ftm \<in> V \<and> tm_end_event ftm \<in> V \<and>
     tm_start_event ptm \<in> V \<and> tm_end_event ptm \<in> V \<and> tm_start_event ftm \<noteq> tm_end_event ptm \<and>
     tm_end_event ftm \<noteq> tm_end_event ptm \<and> tm_start_event ptm \<noteq> tm_end_event ptm \<and>
     (events_ok env \<longrightarrow> tm_use_device ptm)"

definition ends :: "host_log \<Rightarrow> nat \<Rightarrow> stream \<Rightarrow> stream \<Rightarrow> bool \<Rightarrow> bool \<Rightarrow> vc_world \<Rightarrow> bool" where
  "ends L n u ps g c w \<longleftrightarrow> midway L n ps {} {} (finished u ps g c) w"

lemma ends_finished: "midway L n ps V F (finished u ps g c) w \<Longrightarrow> ends L n u ps g c w"
  unfolding ends_def by (erule midway_weaken) simp_all

lemma ends_early:
  assumes "midway L n ps V F (before u ps e g') w"
  shows "ends L n u ps g c w"
  by (rule ends_finished, rule midway_weaken[OF assms order_refl order_refl])
    (rule settled_finished, erule before_settled)

lemma launch_two_timers:
  assumes "\<And>V ftm ptm. launch_timers env V ftm ptm \<Longrightarrow>
    triple (midway L n ps V {} (before u ps (tm_end_event ptm) False)) (f ftm ptm) Q"
  shows "triple (midway L n ps {} {} (\<lambda>new. new = []))
    (State_Monad.bind (make_timer env) (\<lambda>ftm. State_Monad.bind (make_timer env) (\<lambda>ptm. f ftm ptm))) Q"
proof (rule triple_bind[OF midway_make_timer], rule triple_fact, rule triple_fact,
    rule triple_bind[OF midway_make_timer], rule triple_fact, rule triple_fact)
  fix ftm ptm :: timer
  let ?V = "insert (tm_start_event ptm) (insert (tm_end_event ptm) {tm_start_event ftm, tm_end_event ftm})"
  assume "events_ok env \<longrightarrow> tm_use_device ptm"
    "tm_start_event ptm \<notin> {tm_start_event ftm, tm_end_event ftm} \<and> tm_end_event ptm \<notin> {tm_start_event ftm, tm_end_event ftm} \<and>
      tm_start_event ptm \<noteq> tm_end_event ptm"
  then have t: "launch_timers env ?V ftm ptm" by (auto simp: launch_timers_def)
  show "triple (midway L n ps ?V {} (\<lambda>new. (new = [] \<and> tm_end_event ftm \<notin> set (records_in new)) \<and>
      tm_end_event ptm \<notin> set (records_in new))) (f ftm ptm) Q"
    by (rule triple_conseq[OF assms[OF t]], erule midway_weaken[OF _ order_refl order_refl]) (auto simp: before_def)
qed

text \<open>The wait for the user's input: what follows starts with its outcome.\<close>

lemma launch_guard:
  assumes "alloc_ok env" "ps = cm_pcie_stream d"
    and "\<And>vs. triple (midway L n ps V (completion_ticket ps vs) (before u ps e False)) (k False vs) Q"
    and "\<And>vs. triple (midway L n ps V (completion_ticket ps vs) (before u ps e True)) (k True vs) Q"
  shows "triple (midway L n ps V {} (before u ps e False))
    (State_Monad.bind (BeginValueSyncSubmission env d u)
      (\<lambda>vs. State_Monad.bind (PcieWaitForUserInputIfNeeded env d u vs) (\<lambda>ready. k ready vs))) Q"
proof (rule triple_bind)
  show "triple (midway L n ps V {} (before u ps e False)) (BeginValueSyncSubmission env d u) (\<lambda>vs w.
      midway L n ps V (tickets u ps vs) (before u ps e False) w \<and> (\<forall>tk. vs = Some tk \<longrightarrow> tk_input tk \<noteq> tk_completion tk))"
    by (rule triple_result, unfold assms(2), rule midway_begin[OF assms(1) keeps_forms(1)]) (auto dest: begin_apart)
  show "triple (\<lambda>w. midway L n ps V (tickets u ps vs) (before u ps e False) w \<and>
      (\<forall>tk. vs = Some tk \<longrightarrow> tk_input tk \<noteq> tk_completion tk))
    (State_Monad.bind (PcieWaitForUserInputIfNeeded env d u vs) (\<lambda>ready. k ready vs)) Q" for vs
  proof (rule triple_fact, rule triple_bind, rule midway_input_wait[OF assms(2)], simp)
    show "triple (midway L n ps V (completion_ticket ps vs) (before u ps e ready)) (k ready vs) Q" for ready
      using assms(3,4) by (cases ready) simp_all
  qed
qed

lemma before_any: "before u ps e True new \<Longrightarrow> before u ps e False new"
  by (simp add: before_def)

section \<open>Fast path only\<close>

lemma finish_ends:
  "triple (midway L n ps V {} (settled u ps g c)) (State_Monad.bind (finish_launch env s p ftm ptm) (\<lambda>_. State_Monad.return r))
    (\<lambda>_. ends L n u ps g c)"
proof -
  have "triple (midway L n ps V {} (settled u ps g c)) (finish_launch env s p ftm ptm) (\<lambda>_. midway L n ps {} {} (finished u ps g c))"
    by (rule triple_conseq[OF midway_finish[of L n ps "{}"]]) (auto elim: midway_weaken)
  then show ?thesis by (rule triple_bind) (auto intro!: triple_return simp: ends_def)
qed

lemma launch_timersD:
  assumes "launch_timers env V ftm ptm"
  shows "tm_start_event ftm \<in> V" "tm_end_event ftm \<in> V" "tm_start_event ftm \<noteq> tm_end_event ptm" "tm_end_event ftm \<noteq> tm_end_event ptm"
    "tm_start_event ptm \<in> V" "tm_end_event ptm \<in> V" "tm_start_event ptm \<noteq> tm_end_event ptm"
    "events_ok env \<Longrightarrow> tm_use_device ptm"
  using assms by (simp_all add: launch_timers_def)

lemma before_finish_ends:
  "triple (midway L n ps V {} (before u ps e g')) (State_Monad.bind (finish_launch env s p ftm ptm) (\<lambda>_. State_Monad.return r))
    (\<lambda>_. ends L n u ps g c)"
  by (rule triple_conseq[OF finish_ends]) (auto elim: midway_weaken before_settled)

lemma fast_fallback_ends:
  assumes "launch_timers env V ftm ptm"
  shows "triple (midway L n ps V {} (before u ps (tm_end_event ptm) g')) (fast_fallback env raw key plan call ftm ptm s)
    (\<lambda>_. ends L n u ps g c)"
  unfolding fast_fallback_def
  by (intro triple_bind[OF midway_timed_fast[OF launch_timersD(1-4)[OF assms]]] triple_pair before_finish_ends)

lemma fast_only_ends:
  assumes "launch_timers env V ftm ptm"
  shows "triple (midway L n ps V {} (before u ps (tm_end_event ptm) g')) (fast_only env raw key plan call ftm ptm s)
    (\<lambda>_. ends L n u ps g c)"
  unfolding fast_only_def Let_def
  by (intro triple_if triple_bind[OF midway_timed_fast[OF launch_timersD(1-4)[OF assms]]] triple_pair before_finish_ends
    triple_post[OF midway_neutral[OF neutral_ops(6) keeps_forms(1)]]) (rule ends_early)

section \<open>The PCIe part and the end\<close>

lemma pcie_ends:
  assumes t: "launch_timers env V ftm ptm" and p: "uses_pcie plan" "cm_pcie_stream d \<noteq> 0" "ps = cm_pcie_stream d"
    and k: "\<And>tm r. triple (midway L n ps V {} (settled u ps g (events_ok env \<and> u \<noteq> 0))) (k tm r) (\<lambda>_. ends L n u ps g (events_ok env \<and> u \<noteq> 0))"
  shows "triple (midway L n ps V (completion_ticket ps vs) (before u ps (tm_end_event ptm) g))
    (State_Monad.bind (pcie_part env d plan vs supd call ptm u) (\<lambda>(tm, r). k tm r))
    (\<lambda>_. ends L n u ps g (events_ok env \<and> u \<noteq> 0))"
proof (rule triple_bind, rule midway_pcie_part[where c = "events_ok env \<and> u \<noteq> 0"])
  show "triple (midway L n ps V {} (settled u ps g (events_ok env \<and> u \<noteq> 0))) (case r of (tm, r) \<Rightarrow> k tm r)
      (\<lambda>_. ends L n u ps g (events_ok env \<and> u \<noteq> 0))" for r
    by (rule triple_pair, rule k)
qed (use launch_timersD[OF t] p in auto)

text \<open>A timed fast call, then the PCIe part.\<close>

lemma hybrid_ends:
  assumes t: "launch_timers env V ftm ptm" and p: "uses_pcie plan" "cm_pcie_stream d \<noteq> 0" "ps = cm_pcie_stream d"
    and k: "\<And>ftm fr tm r. triple (midway L n ps V {} (settled u ps g (events_ok env \<and> u \<noteq> 0))) (k ftm fr tm r)
      (\<lambda>_. ends L n u ps g (events_ok env \<and> u \<noteq> 0))"
  shows "triple (midway L n ps V (completion_ticket ps vs) (before u ps (tm_end_event ptm) g))
    (State_Monad.bind (timed env ftm s (fast_backend env b fcall s)) (\<lambda>(ftm, fr).
       State_Monad.bind (pcie_part env d plan vs supd call ptm u) (\<lambda>(tm, r). k ftm fr tm r)))
    (\<lambda>_. ends L n u ps g (events_ok env \<and> u \<noteq> 0))"
  by (intro triple_bind[OF midway_timed_fast[OF launch_timersD(1-4)[OF t]]] triple_pair pcie_ends[OF t p] k)

lemma error_ends:
  "triple (midway L n ps V F (before u ps e g')) (State_Monad.return r) (\<lambda>_. ends L n u ps g c)"
  by (rule triple_return) (rule ends_early)

section \<open>The collectives\<close>

text \<open>What \<open>uses_pcie\<close> and the stream test leave.\<close>

definition starts :: "host_log \<Rightarrow> nat \<Rightarrow> stream \<Rightarrow> vc_world \<Rightarrow> bool" where
  "starts L n ps w \<longleftrightarrow> midway L n ps {} {} (\<lambda>new. new = []) w"

lemma starts_error: "triple (starts L n ps) (State_Monad.return r) (\<lambda>_. ends L n u ps g c)"
  by (rule triple_return, rule ends_early[where e = 0 and g' = False], unfold starts_def,
    erule midway_weaken[OF _ order_refl order_refl]) (simp add: before_def)

lemma maybe_fast:
  assumes "launch_timers env V ftm ptm"
  shows "triple (midway L n ps V F (before u ps (tm_end_event ptm) g))
    (if b then timed env ftm s (fast_backend env r call s) else State_Monad.return (ftm, ok_result))
    (\<lambda>_. midway L n ps V F (before u ps (tm_end_event ptm) g))"
  by (intro triple_if midway_timed_fast launch_timersD(1-4)[OF assms] triple_return)

lemmas branch_simps = not_False_eq_True not_True_eq_False if_True if_False

lemma AllReduce_ends:
  assumes "alloc_ok env" "ps = cm_pcie_stream d"
  shows "triple (starts L n ps) (AllReduce env d raw send recv count dt op s) (\<lambda>_. ends L n s ps True (events_ok env \<and> s \<noteq> 0))"
  unfolding AllReduce_def Let_def
proof (rule triple_if, rule starts_error, unfold starts_def, rule launch_two_timers, rule triple_if, erule fast_only_ends, goal_cases)
  case t: (1 V ftm ptm)
  from t(3) have p: "uses_pcie (launch_plan env (launch_key env d collective_type.AllReduce (mul64 count (NativeDataTypeElemSize (ve_build env) dt)) dt)
    (SupportsAllReduce (ve_pcie env) (ve_build env) dt op))" "cm_pcie_stream d \<noteq> 0" by blast+
  show ?case
    by (rule launch_guard[OF assms]; simp only: branch_simps)
      (intro error_ends triple_bind[OF maybe_fast[OF t(2)]] triple_pair pcie_ends[OF t(2) p assms(2)] finish_ends)+
qed

text \<open>A buffer given back before an error; segments packed and merged.\<close>

lemma free_error_ends:
  "triple (midway L n ps V F (before u ps e g'))
    (State_Monad.bind (if owns then FreeDeviceBuffer env p else State_Monad.return ()) (\<lambda>_. State_Monad.return r))
    (\<lambda>_. ends L n u ps g c)"
  by (intro triple_bind[OF midway_neutral[OF _ keeps_forms(1)]] error_ends neutral_if) simp_all

lemmas before_neutral = triple_bind[OF midway_neutral[OF _ keeps_forms(1)]]
lemmas settled_neutral = triple_bind[OF midway_neutral[OF _ keeps_forms(3)]]

lemma ag_hybrid_v_ends:
  assumes a: "alloc_ok env" "ps = cm_pcie_stream d" and t: "launch_timers env V ftm ptm"
    and p: "uses_pcie plan" "cm_pcie_stream d \<noteq> 0"
  shows "triple (midway L n ps V {} (before s ps (tm_end_event ptm) False))
    (ag_hybrid_v env d raw key plan supd send recv count fast_elems dt ftm ptm s)
    (\<lambda>_. ends L n s ps True (events_ok env \<and> s \<noteq> 0))"
  unfolding ag_hybrid_v_def Let_def
  by (rule launch_guard[OF a]; simp only: branch_simps) (intro error_ends hybrid_ends[OF t p a(2)] finish_ends)+

lemma ag_hybrid_merge_ends:
  assumes a: "alloc_ok env" "ps = cm_pcie_stream d" and t: "launch_timers env V ftm ptm"
    and p: "uses_pcie plan" "cm_pcie_stream d \<noteq> 0"
  shows "triple (midway L n ps V {} (before s ps (tm_end_event ptm) False))
    (ag_hybrid_merge env d raw key plan supd send recv count fast_elems dt ftm ptm s)
    (\<lambda>_. ends L n s ps True (events_ok env \<and> s \<noteq> 0))"
  unfolding ag_hybrid_merge_def Let_def
  by (rule before_neutral, simp, intro triple_pair triple_if fast_fallback_ends[OF t], rule launch_guard[OF a]; simp only: branch_simps)
    (intro free_error_ends hybrid_ends[OF t p a(2)] settled_neutral finish_ends neutral_merge)+

lemma rs_hybrid_v_ends:
  assumes a: "alloc_ok env" "ps = cm_pcie_stream d" and t: "launch_timers env V ftm ptm"
    and p: "uses_pcie plan" "cm_pcie_stream d \<noteq> 0"
  shows "triple (midway L n ps V {} (before s ps (tm_end_event ptm) False))
    (rs_hybrid_v env d raw key plan supd send recv count fast_elems dt op ftm ptm s)
    (\<lambda>_. ends L n s ps True (events_ok env \<and> s \<noteq> 0))"
  unfolding rs_hybrid_v_def Let_def
  by (rule launch_guard[OF a]; simp only: branch_simps) (intro error_ends hybrid_ends[OF t p a(2)] finish_ends)+

lemma rs_hybrid_pack_ends:
  assumes a: "alloc_ok env" "ps = cm_pcie_stream d" and t: "launch_timers env V ftm ptm"
    and p: "uses_pcie plan" "cm_pcie_stream d \<noteq> 0"
  shows "triple (midway L n ps V {} (before s ps (tm_end_event ptm) False))
    (rs_hybrid_pack env d raw key plan supd send recv count fast_elems es dt op ftm ptm s)
    (\<lambda>_. ends L n s ps True (events_ok env \<and> s \<noteq> 0))"
  unfolding rs_hybrid_pack_def Let_def
  by (rule before_neutral, simp, intro triple_pair triple_if fast_fallback_ends[OF t], rule launch_guard[OF a]; simp only: branch_simps)
    (intro free_error_ends before_neutral[OF neutral_pack] hybrid_ends[OF t p a(2)] finish_ends)+

text \<open>Without the wait the PCIe call is not guarded; the ticket is used for the completion only.\<close>

lemma begin_unguarded:
  assumes "alloc_ok env" "ps = cm_pcie_stream d"
    and "\<And>vs. triple (midway L n ps V (completion_ticket ps vs) (before u ps e False)) (k vs) Q"
  shows "triple (midway L n ps V {} (before u ps e False)) (State_Monad.bind (BeginValueSyncSubmission env d u) k) Q"
proof (rule triple_bind, unfold assms(2), rule midway_begin[OF assms(1) keeps_forms(1)])
  show "triple (midway L n (cm_pcie_stream d) V (tickets u (cm_pcie_stream d) vs) (before u (cm_pcie_stream d) e False)) (k vs) Q" for vs
    by (rule triple_conseq[OF assms(3)[unfolded assms(2)]], erule midway_weaken)
      (auto simp: completion_ticket_def tickets_def split: option.splits)
qed

lemma pcie_only_ends:
  assumes t: "launch_timers env V ftm ptm" and p: "uses_pcie plan" "cm_pcie_stream d \<noteq> 0" "ps = cm_pcie_stream d"
  shows "triple (midway L n ps V (completion_ticket ps vs) (before s ps (tm_end_event ptm) g))
    (pcie_only env d raw key plan vs supd call ftm ptm s) (\<lambda>_. ends L n s ps g (events_ok env \<and> s \<noteq> 0))"
  unfolding pcie_only_def by (intro pcie_ends[OF t p] finish_ends)

lemma AllGather_ends:
  assumes a: "alloc_ok env" "ps = cm_pcie_stream d"
  shows "triple (starts L n ps) (AllGather env d raw send recv count dt s) (\<lambda>_. ends L n s ps True (events_ok env \<and> s \<noteq> 0))"
  unfolding AllGather_def Let_def
proof (rule triple_if, rule starts_error, unfold starts_def, rule launch_two_timers, rule triple_if, erule fast_only_ends, goal_cases)
  case t: (1 V ftm ptm)
  from t(3) have p: "uses_pcie (launch_plan env (launch_key env d collective_type.AllGather (mul64 count (NativeDataTypeElemSize (ve_build env) dt)) dt)
    (SupportsAllGather (ve_pcie env) (ve_build env) dt))" "cm_pcie_stream d \<noteq> 0" by blast+
  show ?case
    by (intro triple_if ag_hybrid_v_ends[OF a t(2) p] ag_hybrid_merge_ends[OF a t(2) p], rule launch_guard[OF a]; simp only: branch_simps)
      (intro error_ends pcie_only_ends[OF t(2) p a(2)])+
qed

lemma ReduceScatter_ends:
  assumes a: "alloc_ok env" "ps = cm_pcie_stream d"
  shows "triple (starts L n ps) (ReduceScatter env d raw send recv count dt op s) (\<lambda>_. ends L n s ps True (events_ok env \<and> s \<noteq> 0))"
  unfolding ReduceScatter_def Let_def
proof (rule triple_if, rule starts_error, unfold starts_def, rule launch_two_timers, rule triple_if, erule fast_only_ends, goal_cases)
  case t: (1 V ftm ptm)
  from t(3) have p: "uses_pcie (launch_plan env (launch_key env d collective_type.ReduceScatter (mul64 count (NativeDataTypeElemSize (ve_build env) dt)) dt)
    (SupportsReduceScatter (ve_pcie env) (ve_build env) dt op))" "cm_pcie_stream d \<noteq> 0" by blast+
  show ?case
    by (intro triple_if rs_hybrid_v_ends[OF a t(2) p] rs_hybrid_pack_ends[OF a t(2) p], rule launch_guard[OF a]; simp only: branch_simps)
      (intro error_ends pcie_only_ends[OF t(2) p a(2)])+
qed

lemma a2a_hybrid_v_ends:
  assumes a: "alloc_ok env" "ps = cm_pcie_stream d" and t: "launch_timers env V ftm ptm"
    and p: "uses_pcie plan" "cm_pcie_stream d \<noteq> 0"
  shows "triple (midway L n ps V {} (before s ps (tm_end_event ptm) False))
    (a2a_hybrid_v env d raw key plan supd send recv count fast_elems dt ftm ptm s)
    (\<lambda>_. ends L n s ps False (events_ok env \<and> s \<noteq> 0))"
  unfolding a2a_hybrid_v_def Let_def
  by (intro triple_bind[OF midway_timed_fast[OF launch_timersD(1-4)[OF t]]] triple_pair begin_unguarded[OF a]
    pcie_ends[OF t p a(2)] finish_ends)

lemma a2a_hybrid_pack_ends:
  assumes a: "alloc_ok env" "ps = cm_pcie_stream d" and t: "launch_timers env V ftm ptm"
    and p: "uses_pcie plan" "cm_pcie_stream d \<noteq> 0"
  shows "triple (midway L n ps V {} (before s ps (tm_end_event ptm) False))
    (a2a_hybrid_pack env d raw key plan supd send recv count fast_elems es dt ftm ptm s)
    (\<lambda>_. ends L n s ps False (events_ok env \<and> s \<noteq> 0))"
  unfolding a2a_hybrid_pack_def Let_def
  by (rule before_neutral, simp, intro triple_pair triple_if fast_fallback_ends[OF t])
    (intro before_neutral[OF neutral_pack] triple_bind[OF midway_timed_fast[OF launch_timersD(1-4)[OF t]]] triple_pair
      begin_unguarded[OF a] pcie_ends[OF t p a(2)] finish_ends)

lemma AllToAll_ends:
  assumes a: "alloc_ok env" "ps = cm_pcie_stream d"
  shows "triple (starts L n ps) (AllToAll env d raw send recv count dt s) (\<lambda>_. ends L n s ps False (events_ok env \<and> s \<noteq> 0))"
  unfolding AllToAll_def Let_def
proof (rule triple_if, rule starts_error, unfold starts_def, rule launch_two_timers, rule triple_if, erule fast_only_ends, goal_cases)
  case t: (1 V ftm ptm)
  from t(3) have p: "uses_pcie (launch_plan env (launch_key env d collective_type.AllToAll (mul64 count (NativeDataTypeElemSize (ve_build env) dt)) dt)
    (SupportsAllToAll (ve_pcie env) (ve_build env) dt))" "cm_pcie_stream d \<noteq> 0" by blast+
  show ?case
    by (intro triple_if a2a_hybrid_v_ends[OF a t(2) p] a2a_hybrid_pack_ends[OF a t(2) p] begin_unguarded[OF a]
      pcie_only_ends[OF t(2) p a(2)])
qed

end
