(* ===== verification/CollectiveSafety.thy ===== *)
theory CollectiveSafety
  imports CollectiveProofs
begin

text \<open>
  Any sequence of collectives and of the application's own work on any streams, and every
  execution of what the host issued: a PCIe call runs after what the user stream held
  before the collective, and what the user stream holds after the collective runs after it.
\<close>

section \<open>Programs\<close>

datatype program_call =
    RunAllReduce addr addr addr size_t int int stream
  | RunAllGather addr addr addr size_t int stream
  | RunReduceScatter addr addr addr size_t int int stream
  | RunAllToAll addr addr addr size_t int stream
  | UserWork stream nat

fun call_stream :: "program_call \<Rightarrow> stream" where
  "call_stream (RunAllReduce raw send recv count dt op s) = s"
| "call_stream (RunAllGather raw send recv count dt s) = s"
| "call_stream (RunReduceScatter raw send recv count dt op s) = s"
| "call_stream (RunAllToAll raw send recv count dt s) = s"
| "call_stream (UserWork s k) = s"

definition user_work :: "stream \<Rightarrow> nat \<Rightarrow> unit vc" where
  "user_work s k = State (\<lambda>w. ((), w\<lparr>vw_log := vw_log w @ [Issue s (UserOp k)]\<rparr>))"

fun run_call :: "vc_env \<Rightarrow> comm_domain \<Rightarrow> program_call \<Rightarrow> vc_world \<Rightarrow> vc_world" where
  "run_call env d (RunAllReduce raw send recv count dt op s) w = snd (run_state (AllReduce env d raw send recv count dt op s) w)"
| "run_call env d (RunAllGather raw send recv count dt s) w = snd (run_state (AllGather env d raw send recv count dt s) w)"
| "run_call env d (RunReduceScatter raw send recv count dt op s) w = snd (run_state (ReduceScatter env d raw send recv count dt op s) w)"
| "run_call env d (RunAllToAll raw send recv count dt s) w = snd (run_state (AllToAll env d raw send recv count dt s) w)"
| "run_call env d (UserWork s k) w = snd (run_state (user_work s k) w)"

definition run_calls :: "vc_env \<Rightarrow> comm_domain \<Rightarrow> program_call list \<Rightarrow> vc_world \<Rightarrow> vc_world" where
  "run_calls env d cs w = foldl (\<lambda>w c. run_call env d c w) w cs"

definition first_world :: "domain_manager \<Rightarrow> vc_world" where
  "first_world m = \<lparr>vw_log = [], vw_calls = 0, vw_allocs = 0, vw_events = 0, vw_contexts = [], vw_manager = m\<rparr>"

fun waits_for_input :: "program_call \<Rightarrow> bool" where
  "waits_for_input (RunAllReduce raw send recv count dt op s) = True"
| "waits_for_input (RunAllGather raw send recv count dt s) = True"
| "waits_for_input (RunReduceScatter raw send recv count dt op s) = True"
| "waits_for_input _ = False"

section \<open>The world stays consistent\<close>

definition extends :: "stream \<Rightarrow> vc_world \<Rightarrow> vc_world \<Rightarrow> bool" where
  "extends ps w w' \<longleftrightarrow> world_ok ps w' \<and> vw_events w \<le> vw_events w' \<and>
     (\<exists>new. vw_log w' = vw_log w @ new \<and> (\<forall>e \<in> set (records_in new). vw_events w \<le> e))"

lemma call_ends:
  assumes "alloc_ok env" "world_ok (cm_pcie_stream d) w" "\<And>s k. call \<noteq> UserWork s k"
  shows "ends (vw_log w) (vw_events w) (call_stream call) (cm_pcie_stream d) (waits_for_input call)
    (events_ok env \<and> call_stream call \<noteq> 0) (run_call env d call w)"
proof -
  have s: "starts (vw_log w) (vw_events w) (cm_pcie_stream d) w"
    using assms(2) by (simp add: starts_def midway_def)
  note r = AllReduce_ends[OF assms(1) refl, unfolded triple_def, rule_format, OF s]
    AllGather_ends[OF assms(1) refl, unfolded triple_def, rule_format, OF s]
    ReduceScatter_ends[OF assms(1) refl, unfolded triple_def, rule_format, OF s]
    AllToAll_ends[OF assms(1) refl, unfolded triple_def, rule_format, OF s]
  show ?thesis by (cases call) (use r assms(3) in simp_all)
qed

lemma ends_extends: "ends (vw_log w) (vw_events w) u ps g c w' \<Longrightarrow> extends ps w w'"
  unfolding ends_def midway_def extends_def by blast

lemma user_work_extends: "world_ok ps w \<Longrightarrow> extends ps w (snd (run_state (user_work s k) w))"
  by (simp add: user_work_def extends_def world_ok_def)

lemma extends_trans:
  assumes "extends ps u v" "extends ps v w"
  shows "extends ps u w"
proof -
  obtain n1 n2 where n: "vw_log v = vw_log u @ n1" "\<forall>e \<in> set (records_in n1). vw_events u \<le> e"
    "vw_log w = vw_log v @ n2" "\<forall>e \<in> set (records_in n2). vw_events v \<le> e" "vw_events u \<le> vw_events v"
    using assms by (auto simp: extends_def)
  then have "vw_log w = vw_log u @ (n1 @ n2) \<and> (\<forall>e \<in> set (records_in (n1 @ n2)). vw_events u \<le> e)" by auto
  then show ?thesis using assms unfolding extends_def by (meson order.trans)
qed

lemma run_calls_extends:
  assumes "alloc_ok env" "world_ok (cm_pcie_stream d) w"
  shows "extends (cm_pcie_stream d) w (run_calls env d cs w)"
  using assms(2)
proof (induction cs arbitrary: w)
  case Nil
  then show ?case by (simp add: run_calls_def extends_def)
next
  case (Cons c cs)
  have e: "extends (cm_pcie_stream d) w (run_call env d c w)"
  proof (cases c)
    case (UserWork s k)
    then show ?thesis using user_work_extends[OF Cons.prems] by simp
  qed (use call_ends[OF assms(1) Cons.prems, of c] ends_extends in auto)
  then have "world_ok (cm_pcie_stream d) (run_call env d c w)" by (simp add: extends_def)
  then show ?case using Cons.IH e extends_trans unfolding run_calls_def by simp
qed

lemma first_world_ok: "world_ok ps (first_world m)"
  by (simp add: first_world_def world_ok_def contexts_ok_def)

section \<open>Positions\<close>

lemma op_at_middle: "op_at (xs @ Issue s op # ys) (length xs) s op"
  by (simp add: op_at_def)

lemma pcie_position:
  assumes "op_at (X @ Y @ Z) q s (PcieOp c)" "no_pcie Y" "q < length X + length Y"
  shows "q < length X"
proof (rule ccontr)
  assume "\<not> q < length X"
  then have "q - length X < length Y" "(X @ Y @ Z) ! q = Y ! (q - length X)" using assms(3) by (auto simp: nth_append)
  then have "Issue s (PcieOp c) \<in> set Y" using assms(1) nth_mem by (fastforce simp: op_at_def)
  then show False using assms(2) by (auto simp: no_pcie_def list_all_iff)
qed

lemma pcie_stream:
  assumes "op_at (X @ Y @ Z) q s (PcieOp c)" "pcie_on ps Y" "length X \<le> q" "q < length X + length Y"
  shows "s = ps"
proof -
  have "(X @ Y @ Z) ! q = Y ! (q - length X)" "q - length X < length Y" using assms(3,4) by (auto simp: nth_append)
  then have "Issue s (PcieOp c) \<in> set Y" using assms(1) nth_mem by (fastforce simp: op_at_def)
  then show ?thesis using assms(2) by (auto simp: pcie_on_def list_all_iff)
qed

lemma record_position:
  assumes "op_at (X @ Issue s (EventRecord e) # Y) p t (EventRecord e)" "e \<notin> set (records_in X)" "e \<notin> set (records_in Y)"
  shows "p = length X"
proof -
  have mem: "e \<in> set (records_in Z)" if "Issue t (EventRecord e) \<in> set Z" for Z
    using that by (induction Z) auto
  consider "p < length X" | "p = length X" | "length X < p" by linarith
  then show ?thesis
  proof cases
    case 1
    then have "Issue t (EventRecord e) \<in> set X" using assms(1) by (auto simp: op_at_def nth_append) (metis nth_mem)
    then show ?thesis using mem assms(2) by blast
  next
    case 3
    then have "(X @ Issue s (EventRecord e) # Y) ! p = Y ! (p - length X - 1)" "p - length X - 1 < length Y"
      using assms(1) by (auto simp: op_at_def nth_append nth_Cons')
    then have "Issue t (EventRecord e) \<in> set Y" using assms(1) nth_mem by (fastforce simp: op_at_def)
    then show ?thesis using mem assms(3) by blast
  qed simp
qed

section \<open>Order\<close>

lemma guard_order:
  assumes r: "reach exec_start (exec_step (X @ A @ Z)) (h, tr)" and w: "writes_grow (X @ A @ Z)" and g: "guard_in u ps A"
    and q: "length X + length A \<le> q" "op_at (X @ A @ Z) q ps op" "q \<in> set tr"
    and p: "p < length X" "on_stream (X @ A @ Z) p u"
  shows "executed_before tr p q"
proof -
  let ?log = "X @ A @ Z"
  consider "SyncStream u \<in> set A"
    | B a v C D where "A = B @ Issue u (ValueWrite a v) # C @ Issue ps (ValueWait a v) # D" "0 < v"
    using g by (auto simp: guard_in_def)
  then show ?thesis
  proof cases
    case 1
    then obtain B C where "A = B @ SyncStream u # C" by (auto simp: in_set_conv_decomp)
    then have "?log ! (length (X @ B)) = SyncStream u" "length (X @ B) < q" using q(1) by (simp_all add: nth_append)
    then show ?thesis using sync_order[OF r q(3) _ _ _ p(2), of "length (X @ B)"] p(1) by simp
  next
    case 2
    let ?x = "length (X @ B)" and ?y = "length (X @ B @ Issue u (ValueWrite a v) # C)"
    have x: "op_at ?log ?x u (ValueWrite a v)" using 2(1) by (simp add: op_at_def nth_append)
    have y: "op_at ?log ?y ps (ValueWait a v)" using 2(1) by (simp add: op_at_def nth_append)
    have "?y < q" using 2(1) q(1) by simp
    then have yq: "executed_before tr ?y q" using stream_order[OF r q(3) _ _ q(2)] y by (auto simp: on_stream_def)
    then have xy: "executed_before tr ?x ?y" using value_order[OF r w _ y 2(2) x] before_executed by blast
    then have "executed_before tr p ?x" using stream_order[OF r _ _ p(2) x] before_executed p(1) by fastforce
    then show ?thesis using xy yq before_trans by blast
  qed
qed

lemma link_order:
  assumes r: "reach exec_start (exec_step (X @ N @ Z)) (h, tr)" and w: "writes_grow (X @ N @ Z)"
    and l: "linked u ps N" and f: "pcie_on ps N" "\<And>e. e \<in> set (records_in N) \<Longrightarrow> e \<notin> set (records_in X) \<and> e \<notin> set (records_in Z)"
    and q: "length X \<le> q" "q < length X + length N" "op_at (X @ N @ Z) q s (PcieOp c)"
    and p: "length X + length N \<le> p" "op_at (X @ N @ Z) p u op" "p \<in> set tr"
  shows "executed_before tr q p"
proof -
  let ?log = "X @ N @ Z"
  obtain A x B y C where n: "N = A @ x # B @ y # C" "no_pcie (B @ C)"
    and xy: "(\<exists>a v. 0 < v \<and> x = Issue ps (ValueWrite a v) \<and> y = Issue u (ValueWait a v)) \<or>
      (\<exists>e. x = Issue ps (EventRecord e) \<and> y = Issue u (EventWait e) \<and> e \<notin> set (records_in (A @ B @ C)))"
    using l by (auto simp: linked_def)
  let ?x = "length (X @ A)" and ?y = "length (X @ A @ x # B)"
  have s: "s = ps" using pcie_stream[OF q(3) f(1) q(1,2)] .
  have "no_pcie (x # B @ y # C)" using n(2) xy by auto
  then have qx: "q < ?x" using pcie_position[of "X @ A" "x # B @ y # C" Z q s c] q n(1) by simp
  have "\<exists>xo yo. x = Issue ps xo \<and> y = Issue u yo" using xy by blast
  then obtain xo yo where o: "x = Issue ps xo" "y = Issue u yo" by blast
  have ox: "op_at ?log ?x ps xo" using o n(1) by (simp add: op_at_def nth_append)
  have oy: "op_at ?log ?y u yo" using o n(1) by (simp add: op_at_def nth_append)
  have "?y < p" using n(1) p(1) by simp
  then have yp: "executed_before tr ?y p" using stream_order[OF r p(3) _ _ p(2)] oy by (auto simp: on_stream_def)
  have "executed_before tr ?x ?y"
    using xy
  proof (elim disjE exE conjE)
    fix a v assume v: "0 < v" "x = Issue ps (ValueWrite a v)" "y = Issue u (ValueWait a v)"
    then show ?thesis using value_order[OF r w _ _ v(1)] ox oy o before_executed[OF yp] by simp
  next
    fix e assume e: "x = Issue ps (EventRecord e)" "y = Issue u (EventWait e)" "e \<notin> set (records_in (A @ B @ C))"
    have split: "?log = (X @ A) @ Issue ps (EventRecord e) # (B @ y # C @ Z)" using n(1) e(1) by simp
    have "e \<in> set (records_in N)" using n(1) e(1) by simp
    then have "e \<notin> set (records_in (X @ A))" "e \<notin> set (records_in (B @ y # C @ Z))" using f(2) e by auto
    then have only: "p' = ?x" if "op_at ?log p' s' (EventRecord e)" for p' s'
      using record_position that unfolding split by blast
    have rec: "op_at ?log ?y u (EventWait e)" "op_at ?log ?x ps (EventRecord e)" using ox oy o e(1,2) by simp_all
    show ?thesis by (rule event_order[OF r _ rec only]) (use before_executed[OF yp] in blast)
  qed
  then have "executed_before tr q ?x \<and> executed_before tr ?x p"
    using stream_order[OF r _ qx _ ox] q(3) s yp before_trans before_executed by (metis on_stream_def)
  then show ?thesis using before_trans by blast
qed

section \<open>One collective among others\<close>

text \<open>The log up to a collective, its part, and what follows.\<close>

lemma collective_split:
  assumes a: "alloc_ok env" and nu: "\<And>s k. call \<noteq> UserWork s k"
    and w1: "w1 = run_calls env d cs1 (first_world m)" and w2: "w2 = run_call env d call w1"
    and w3: "w3 = run_calls env d cs2 w2"
  obtains N Z where "vw_log w2 = vw_log w1 @ N" "vw_log w3 = vw_log w1 @ N @ Z"
    "finished (call_stream call) (cm_pcie_stream d) (waits_for_input call) (events_ok env \<and> call_stream call \<noteq> 0) N"
    "writes_grow (vw_log w3)"
    "\<And>e. e \<in> set (records_in N) \<Longrightarrow> e \<notin> set (records_in (vw_log w1)) \<and> e \<notin> set (records_in Z)"
proof -
  let ?ps = "cm_pcie_stream d"
  have ok1: "world_ok ?ps w1" using run_calls_extends[OF a first_world_ok] w1 by (simp add: extends_def)
  have e: "ends (vw_log w1) (vw_events w1) (call_stream call) ?ps (waits_for_input call)
      (events_ok env \<and> call_stream call \<noteq> 0) w2" using call_ends[OF a ok1 nu] w2 by simp
  have ok2: "world_ok ?ps w2" using ends_extends[OF e] by (simp add: extends_def)
  obtain N where N: "vw_log w2 = vw_log w1 @ N" "\<forall>x \<in> set (records_in N). vw_events w1 \<le> x"
    "finished (call_stream call) ?ps (waits_for_input call) (events_ok env \<and> call_stream call \<noteq> 0) N"
    using e by (auto simp: ends_def midway_def)
  obtain Z where Z: "vw_log w3 = vw_log w2 @ Z" "\<forall>x \<in> set (records_in Z). vw_events w2 \<le> x" "world_ok ?ps w3"
    using run_calls_extends[OF a ok2, of cs2] w3 by (auto simp: extends_def)
  have "x \<notin> set (records_in (vw_log w1)) \<and> x \<notin> set (records_in Z)" if x: "x \<in> set (records_in N)" for x
  proof -
    have "x < vw_events w2" using ok2 x N(1) by (auto simp: world_ok_def)
    moreover have "vw_events w1 \<le> x" using N(2) x by blast
    ultimately show ?thesis using ok1 Z(2) by (meson leD world_ok_def)
  qed
  then show ?thesis using that N Z sorted_writes_grow by (auto simp: world_ok_def)
qed

section \<open>An example\<close>

text \<open>One AllReduce on stream 1, all of it on the PCIe path, between two operations of the application.\<close>

definition ex_env :: vc_env where
  "ex_env = \<lparr>ve_result = (\<lambda>k acts. 0), ve_event = (\<lambda>k. True), ve_alloc = (\<lambda>w bytes. if vw_contexts w = [] then 4096 else 0),
     ve_now = (\<lambda>k. 0), ve_build = BUILD_HCCL, ve_acl = True, ve_pcie = True, ve_sync_fn = True,
     ve_fast_fn = (\<lambda>op. True), ve_fast_v = (\<lambda>op. False), ve_fast_bw_log = False, ve_sync_before_callback = False,
     ve_scaled = (\<lambda>b. 2 * b), ve_bucket_base = 1024,
     ve_plan = (\<lambda>key. \<lparr>pl_fast = 0, pl_pcie = 1024, pl_use_pcie = True\<rparr>)\<rparr>"

definition ex_vc_domain :: comm_domain where
  "ex_vc_domain = (new_domain \<lparr>cd_world_size = 2, cd_ranks = [0, 1], cd_topology = 0\<rparr> \<lparr>lk_world_size = 2, lk_hash = 0\<rparr>)
     \<lparr>cm_pcie_comm := 1, cm_pcie_rank := 0, cm_pcie_nranks := 2, cm_pcie_stream := 2\<rparr>"

definition ex_manager :: domain_manager where
  "ex_manager = \<lparr>dm_domains = [], dm_pending = []\<rparr>"

definition ex_call :: program_call where
  "ex_call = RunAllReduce 1 100 200 256 4 0 1"

definition ex_log :: host_log where
  "ex_log = [Issue 1 (UserOp 0), Issue 1 (ValueWrite 4104 1), Issue 2 (ValueWait 4104 1), Issue 2 (EventRecord 2),
     Issue 2 (PcieOp (PcieAllReduce 100 200 256 4 0)), Issue 2 (EventRecord 3), Issue 2 (ValueWrite 4616 1),
     Issue 1 (ValueWait 4616 1), Issue 1 HostCallback, Issue 1 (UserOp 1)]"

lemma ex_alloc: "alloc_ok ex_env"
  by (simp add: alloc_ok_def ex_env_def)

lemma ex_events: "events_ok ex_env"
  by (simp add: events_ok_def ex_env_def)

lemma ex_env_sel:
  "ve_result ex_env k acts = 0" "ve_event ex_env k" "ve_alloc ex_env w b = (if vw_contexts w = [] then 4096 else 0)"
  "ve_now ex_env k = 0" "ve_build ex_env = BUILD_HCCL" "ve_acl ex_env" "ve_pcie ex_env" "ve_sync_fn ex_env"
  "\<not> ve_sync_before_callback ex_env" "cm_pcie_stream ex_vc_domain = 2" "cm_pcie_comm ex_vc_domain = 1"
  by (simp_all add: ex_env_def ex_vc_domain_def)

lemma ex_plan: "launch_plan ex_env key True = \<lparr>pl_fast = 0, pl_pcie = 1024, pl_use_pcie = True\<rparr>"
  by (simp add: launch_plan_def ex_env_def Let_def)

lemma ex_types: "SupportsAllReduce True BUILD_HCCL 4 0" "NativeDataTypeElemSize BUILD_HCCL 4 = 4"
  by (simp_all add: SupportsAllReduce_def GetPcclDataType_def hccl_type_of_def HcclPcclDataTypeSizeMatches_def
    NativeDataTypeElemSize_def MapHcclReduceOpToPccl_def)

lemmas ex_ops = make_timer_def fresh_event_def new_timer_def BeginValueSyncSubmission_def get_context_def
  context_Initialize_def AllocDeviceBuffer_def kRingSize_def runtime_call_def take_ticket_def set_context_def NextTicket_def
  PcieWaitForUserInputIfNeeded_def EnqueueInputReady_def EnqueueInputWait_def issue_def pcie_part_def timed_def
  start_timer_def stop_timer_def clock_def timer_Start_def timer_Stop_def pcie_backend_def IntResultToBackend_def
  PcieCompleteOnUserStreamIfNeeded_def EnqueueWrite_def EnqueueWait_def SyncPCIeStreamBeforeCallbackIfEnabled_def
  finish_launch_def on_manager_def EnqueueCollectiveCompletionCallback_def

lemma ex_run:
  "vw_log (run_calls ex_env ex_vc_domain [UserWork 1 0] (first_world ex_manager)) = take 1 ex_log"
  "vw_log (run_call ex_env ex_vc_domain ex_call (run_calls ex_env ex_vc_domain [UserWork 1 0] (first_world ex_manager))) = take 9 ex_log"
  "vw_log (run_calls ex_env ex_vc_domain [UserWork 1 1] w) = vw_log w @ [Issue 1 (UserOp 1)]"
proof -
  show "vw_log (run_call ex_env ex_vc_domain ex_call (run_calls ex_env ex_vc_domain [UserWork 1 0] (first_world ex_manager))) = take 9 ex_log"
    by (simp add: run_calls_def first_world_def user_work_def ex_call_def AllReduce_def ex_env_sel ex_types ex_plan
      uses_pcie_def ex_ops input_word_def completion_word_def fast_bytes_def pcie_bytes_def add64_def ex_log_def
      split del: if_split cong: if_cong)
  show "vw_log (run_calls ex_env ex_vc_domain [UserWork 1 0] (first_world ex_manager)) = take 1 ex_log"
    "vw_log (run_calls ex_env ex_vc_domain [UserWork 1 1] w) = vw_log w @ [Issue 1 (UserOp 1)]"
    by (simp_all add: run_calls_def user_work_def first_world_def ex_log_def)
qed

text \<open>A log without host synchronisation whose waits are met in its own order can run in that order.\<close>

lemma in_order_reach:
  assumes "\<And>k. k < length hl \<Longrightarrow> \<exists>s op. hl ! k = Issue s op \<and> may_run hl [0..<k] op"
  shows "k \<le> length hl \<Longrightarrow> reach exec_start (exec_step hl) (k, [0..<k])"
proof (induction k)
  case 0
  have "exec_start (0, [0..<0])" by (simp add: exec_start_def)
  then show ?case by (rule reach_init)
next
  case (Suc k)
  obtain s op where o: "hl ! k = Issue s op" "may_run hl [0..<k] op" using assms[of k] Suc.prems by auto
  have "exec_step hl (k, [0..<k]) (k + 1, [0..<k])" by (rule host_issue) (use Suc.prems o(1) in auto)
  moreover have "exec_step hl (k + 1, [0..<k]) (k + 1, [0..<k] @ [k])"
    by (rule stream_run[where s = s and op = op]) (use Suc.prems o in \<open>auto simp: op_at_def on_stream_def\<close>)
  ultimately show ?case using Suc by (metis Suc_eq_plus1 Suc_leD reach_step upt_Suc_append zero_le)
qed

lemma ex_exec: "reach exec_start (exec_step ex_log) (10, [0..<10])"
proof (rule in_order_reach)
  fix k assume "k < length ex_log"
  then have "k \<in> {0, 1, 2, 3, 4, 5, 6, 7, 8, 9}" by (auto simp: ex_log_def)
  then show "\<exists>s op. ex_log ! k = Issue s op \<and> may_run ex_log [0..<k] op"
    by (elim insertE emptyE) (simp_all add: ex_log_def word_of_def upt_rec)
qed (simp add: ex_log_def)

section \<open>The order of a PCIe call\<close>

lemma tail_act:
  assumes "list_all (\<lambda>a. neutral_act a \<or> (\<exists>s. a = Issue s HostCallback)) B"
  shows "no_pcie B" "records_in B = []"
  using assms by (induction B) auto

text \<open>
  C38. A PCIe call waits for its input. Take any program of collectives and of work of the
  application on any streams, any answers of the device runtime, and any execution of what
  the host issues in that program. When an AllReduce, AllGather or ReduceScatter of the program
  puts a call of the PCIe library on the PCIe stream, everything the user stream held before
  that collective has been executed before the PCIe call is, so the PCIe path never reads a
  buffer that earlier work still writes.
\<close>

theorem pcie_waits_for_input:
  assumes "alloc_ok env" "waits_for_input call"
    and "w1 = run_calls env d cs1 (first_world m)" "w2 = run_call env d call w1" "w3 = run_calls env d cs2 w2"
    and "reach exec_start (exec_step (vw_log w3)) (h, tr)"
    and "length (vw_log w1) \<le> q" "q < length (vw_log w2)" "op_at (vw_log w3) q s (PcieOp c)" "q \<in> set tr"
    and "p < length (vw_log w1)" "on_stream (vw_log w3) p (call_stream call)"
  shows "executed_before tr p q"
proof -
  have "\<And>s k. call \<noteq> UserWork s k" using assms(2) by auto
  from collective_split[OF assms(1) this assms(3-5)] obtain N Z where
    l: "vw_log w2 = vw_log w1 @ N" "vw_log w3 = vw_log w1 @ N @ Z" "writes_grow (vw_log w3)"
    and f: "finished (call_stream call) (cm_pcie_stream d) (waits_for_input call) (events_ok env \<and> call_stream call \<noteq> 0) N"
    by metis
  obtain A B where n: "N = A @ B" "guarded (call_stream call) (cm_pcie_stream d) A" "pcie_on (cm_pcie_stream d) A" "no_pcie B"
    using f tail_act(1) assms(2) by (auto simp: finished_def settled_def running_def)
  obtain G R where g: "A = G @ R" "no_pcie G" "R = [] \<or> guard_in (call_stream call) (cm_pcie_stream d) G"
    using n(2) by (auto simp: guarded_def)
  have s: "s = cm_pcie_stream d"
    using pcie_stream[of "vw_log w1" N Z q s c] assms(7-9) l no_pcie_on[OF n(4)] n(1,3) by simp
  have pre: "length (vw_log w1) + length G \<le> q"
    using pcie_position[of "vw_log w1" G "R @ B @ Z" q s c] assms(7,9) l(2) n(1) g(1,2) by fastforce
  have "R \<noteq> []"
    using pcie_position[of "vw_log w1" "G @ B" Z q s c] assms(7-9) l(1,2) n(1,4) g(1,2) by fastforce
  then have "guard_in (call_stream call) (cm_pcie_stream d) G" using g(3) by blast
  then show ?thesis
    using guard_order[of "vw_log w1" G "R @ B @ Z" h tr] assms(6,9-12) l(2,3) n(1) g(1) pre s by simp
qed

theorem pcie_waits_for_input_witness:
  "executed_before [0..<10] 0 4 \<and> op_at ex_log 0 1 (UserOp 0) \<and> (\<exists>c. op_at ex_log 4 2 (PcieOp c))"
proof -
  let ?w1 = "run_calls ex_env ex_vc_domain [UserWork 1 0] (first_world ex_manager)"
  let ?w2 = "run_call ex_env ex_vc_domain ex_call ?w1"
  let ?w3 = "run_calls ex_env ex_vc_domain [UserWork 1 1] ?w2"
  have l: "vw_log ?w3 = ex_log" unfolding ex_run(3) ex_run(2) by (simp add: ex_log_def)
  have o: "op_at ex_log 4 2 (PcieOp (PcieAllReduce 100 200 256 4 0))" "op_at ex_log 0 1 (UserOp 0)"
    by (simp_all add: op_at_def ex_log_def)
  have u: "call_stream ex_call = 1" by (simp add: ex_call_def)
  have "executed_before [0..<10] 0 4"
  proof (rule pcie_waits_for_input[OF ex_alloc _ refl refl refl])
    show "waits_for_input ex_call" by (simp add: ex_call_def)
    show "reach exec_start (exec_step (vw_log ?w3)) (10, [0..<10])" unfolding l by (rule ex_exec)
    show "op_at (vw_log ?w3) 4 2 (PcieOp (PcieAllReduce 100 200 256 4 0))" unfolding l by (rule o(1))
    show "on_stream (vw_log ?w3) 0 (call_stream ex_call)"
      unfolding l u on_stream_def using o(2) by blast
    show "length (vw_log ?w1) \<le> 4" "4 < length (vw_log ?w2)" "0 < length (vw_log ?w1)"
      unfolding ex_run(1,2) by (simp_all add: ex_log_def)
  qed simp
  then show ?thesis using o by blast
qed



end
