(* ===== verification/Deviations.thy ===== *)
theory Deviations
  imports CollectiveSafety Pipeline Executor
begin

text \<open>
  Executions in which the code does not do what it means to: the lemmas that the findings of
  this development refer to. Each is about the definitions as translated from the code.
\<close>

section \<open>The executor\<close>

text \<open>
  A host operation of two subchunks whose second one completes first is published as complete
  up to the second, while the first is still being worked on.
\<close>

lemma h2h_completion_out_of_order:
  assumes "x_graph x = Some graph" "w_engine w = Some eng" "x_h2h x = [a, b]"
    and "hi_node b = hi_node a" "hi_subchunk b = hi_subchunk a + 1"
    and "he_done eng (hi_counter a) < hi_expected a" "hi_expected b \<le> he_done eng (hi_counter b)"
    and "ids_ok (g_nodes graph ! hi_node a)"
  shows "x_h2h (fst (pollH2HCompletions (x, w))) = [a] \<and>
    hi_subchunk a + 2 \<le> getWriteProgress (w_shared (snd (pollH2HCompletions (x, w)))) (x_comm x)
      (n_output (g_nodes graph ! hi_node a)) (x_epoch x)"
  using assms publish_done_effect(1)[OF assms(8)]
  by (simp add: pollH2HCompletions_def poll_h2h_one_def upd_node_def upd_shared_def get_cell)

text \<open>
  An empty subchunk at the end of a chunk is published when it is submitted, although earlier
  subchunks of the node are still being transferred.
\<close>

lemma empty_tail_publishes_early:
  assumes "ns_next (x_nodes x ! i) = sc" "ns_completed (x_nodes x ! i) < sc" "sc < g_num_subchunks graph"
    and "inputsReady (x_comm x) (x_epoch x) (w_shared w) (g_nodes graph ! i) sc"
    and "overwriteReady (pcclRingSlotsFor (pcclHostRingSlots (host_ring_slots_env (xe_pccl env)))) (x_comm x) (x_epoch x)
      (w_shared w) (g_nodes graph ! i) sc"
    and "subchunkSize env graph (g_nodes graph ! i) sc = 0" "ids_ok (g_nodes graph ! i)" "i < length (x_nodes x)"
  shows "case trySubmitNode env dev graph i (x, w) of (done, x', w') \<Rightarrow>
    ns_completed (x_nodes x' ! i) < getWriteProgress (w_shared w') (x_comm x) (n_output (g_nodes graph ! i)) (x_epoch x)"
  using assms publish_done_effect(1)[OF assms(7)]
  by (simp add: trySubmitNode_def submit_at_once_def upd_node_def upd_shared_def get_cell node_completed_def node_submitted_def)

text \<open>Version 16 of a chunk has the counters of version 0.\<close>

lemma versions_share_counters:
  "cell_of comm (with_version key 16) epoch = cell_of comm (with_version key 0) epoch"
  by (simp add: cell_of_def chunk_loc_of_def progressVersionIndex_def MAX_PROGRESS_VERSIONS_def with_version_def Let_def)

text \<open>A submission whose wait cannot be prepared uses up its sequence number.\<close>

lemma failed_submit_uses_number:
  assumes "submit obs op graph binding us (x, w) = (pcclDeviceError, x', w')" "x_queue x' = x_queue x" "x_last_result x = pcclSuccess"
  shows "x_work_seq_counter x' = add64 (x_work_seq_counter x) 1"
  using assms by (auto simp: submit_def reserve_def waitForIdle_def Let_def split: if_splits option.splits prod.splits)

section \<open>The collectives\<close>

text \<open>
  AllToAll does not wait for its input: here the PCIe call is executed while the work the
  user stream held before is not.
\<close>

definition ex_alltoall :: program_call where
  "ex_alltoall = RunAllToAll 1 100 200 256 4 1"

definition ex_alltoall_log :: host_log where
  "ex_alltoall_log = [Issue 1 (UserOp 0), Issue 2 (EventRecord 2), Issue 2 (PcieOp (PcieAllToAll 100 200 512 4)),
     Issue 2 (EventRecord 3), Issue 2 (ValueWrite 4616 1), Issue 1 (ValueWait 4616 1), Issue 1 HostCallback]"

lemma ex_alltoall_run:
  "vw_log (run_call ex_env ex_vc_domain ex_alltoall (run_calls ex_env ex_vc_domain [UserWork 1 0] (first_world ex_manager))) =
     ex_alltoall_log"
proof -
  have "SupportsAllToAll True BUILD_HCCL 4"
    by (simp add: SupportsAllToAll_def GetPcclDataType_def hccl_type_of_def HcclPcclDataTypeSizeMatches_def NativeDataTypeElemSize_def)
  then show ?thesis
    by (simp add: run_calls_def first_world_def user_work_def ex_alltoall_def AllToAll_def pcie_only_def ex_env_sel ex_types ex_plan
      uses_pcie_def ex_ops input_word_def completion_word_def fast_bytes_def pcie_bytes_def mul64_def ex_alltoall_log_def
      ex_vc_domain_def split del: if_split cong: if_cong)
qed

lemma alltoall_reads_early:
  "reach exec_start (exec_step ex_alltoall_log) (3, [1, 2]) \<and> op_at ex_alltoall_log 0 1 (UserOp 0) \<and>
    op_at ex_alltoall_log 2 2 (PcieOp (PcieAllToAll 100 200 512 4)) \<and> \<not> executed_before [1, 2] 0 2"
proof -
  have s: "exec_step ex_alltoall_log (0, []) (1, [])" "exec_step ex_alltoall_log (1, []) (2, [])"
    "exec_step ex_alltoall_log (2, []) (3, [])"
    using host_issue[of 0 ex_alltoall_log "[]"] host_issue[of 1 ex_alltoall_log "[]"] host_issue[of 2 ex_alltoall_log "[]"]
    by (simp_all add: ex_alltoall_log_def eval_nat_numeral)
  have r: "exec_step ex_alltoall_log (3, []) (3, [1])" "exec_step ex_alltoall_log (3, [1]) (3, [1, 2])"
    using stream_run[of 1 3 "[]" ex_alltoall_log 2 "EventRecord 2"]
      stream_run[of 2 3 "[1]" ex_alltoall_log 2 "PcieOp (PcieAllToAll 100 200 512 4)"]
    by (simp_all add: ex_alltoall_log_def op_at_def on_stream_def less_Suc_eq numeral_nat)
  have "exec_start (0, [])" by (simp add: exec_start_def)
  then have "reach exec_start (exec_step ex_alltoall_log) (0, [])" by (rule reach_init)
  then have "reach exec_start (exec_step ex_alltoall_log) (3, [1, 2])"
    using s r by (meson reach_step)
  moreover have "\<not> executed_before [1, 2] 0 2"
  proof
    assume "executed_before [1, 2] 0 2"
    then obtain xs ys where e: "[1::nat, 2] = xs @ 2 # ys" and x: "0 \<in> set xs" unfolding executed_before_def by blast
    from x have "0 \<in> set (xs @ 2 # ys)" by simp
    then show False unfolding e[symmetric] by simp
  qed
  ultimately show ?thesis by (simp add: ex_alltoall_log_def op_at_def)
qed

text \<open>
  On ACL the buffer of a merge is given back at once, while the copies out of it are only
  enqueued.
\<close>

lemma merge_frees_early:
  assumes "ve_acl env" "\<And>k acts. ve_result env k acts = 0" "s \<noteq> 0" "user \<noteq> 0" "tmp \<noteq> 0" "0 < b" "user < two64" "tmp < two64"
  shows "vw_log (snd (run_state (EnqueueSegmentedMergeOnStream env s user tmp 1 b c True) w)) =
    vw_log w @ [Issue s (CopyAsync user tmp b), FreeNow tmp]"
  using assms by (simp add: EnqueueSegmentedMergeOnStream_def DeviceMemcpyD2DAsync_def FreeDeviceBufferAsync_def
    FreeDeviceBuffer_def issue_def runtime_call_def mul64_def add64_def)

end
