(* ===== verification/FastPath.thy ===== *)
theory FastPath
  imports ExecState Topology
begin

text \<open>
  The small-message fast path (\<^verbatim>\<open>fastpath/small_message_executor.hpp\<close>,
  \<^verbatim>\<open>small_message_executor.cpp\<close>): which requests it accepts, its work queue, and how a rank
  executes one request. An execution is a program of calls to the outside, each with the
  continuation that looks at the reply, so that every early return of the code is a branch.
  How the ranks programs run together is the subject of the theory on joint execution.
\<close>

section \<open>Requests\<close>

datatype fp_kind = FpAllGather | FpAllReduce | FpReduceScatter | FpBroadcast

record fp_request =
  rq_kind :: fp_kind
  rq_send :: size_t
  rq_recv :: size_t
  rq_seg_count :: size_t
  rq_send_segs :: int
  rq_recv_segs :: int
  rq_root :: int
  rq_elem :: size_t
  rq_scalar :: int
  rq_op :: int
  rq_stream :: nat
  rq_debug_op :: collective_op

text \<open>
  The executor of a rank. \<open>fe_ipc_ready\<close> and \<open>fe_remote\<close> are what the process state answers
  for the input buffer of a rank (address 0 is null), \<open>fe_staging\<close> whether the staging pool
  has a buffer for a rank, \<open>fe_scratch\<close> whether the device gave a scratch buffer for a slot.
\<close>

record fp_env =
  fe_rank :: int
  fe_world :: int
  fe_device :: int
  fe_comm :: int
  fe_initialized :: bool
  fe_enabled :: bool
  fe_env_enabled :: bool
  fe_state_mgr :: bool
  fe_multi_process :: bool
  fe_topology :: "local_topology option"
  fe_threshold :: size_t
  fe_depth :: int
  fe_ipc :: bool
  fe_ipc_ready :: "int \<Rightarrow> bool"
  fe_remote :: "int \<Rightarrow> size_t"
  fe_staging :: "int \<Rightarrow> bool"
  fe_scratch :: "int \<Rightarrow> bool"

definition kDefaultThresholdBytes :: size_t where
  "kDefaultThresholdBytes = 1048576"

text \<open>\<^verbatim>\<open>timeoutMsFromEnv\<close>; the result of \<^verbatim>\<open>strtol\<close> is narrowed to \<^verbatim>\<open>int\<close>.\<close>

definition timeoutMsFromEnv :: "string option \<Rightarrow> int \<Rightarrow> int" where
  "timeoutMsFromEnv e fallback = (if env_unset e then fallback
     else case strtol10 (the e) of None \<Rightarrow> fallback
       | Some (parsed, _) \<Rightarrow> if parsed \<le> 0 then fallback else to_int32 parsed)"

definition fp_timeoutMs :: "string option \<Rightarrow> string option \<Rightarrow> int" where
  "fp_timeoutMs fastpath_ms executor_ms = timeoutMsFromEnv fastpath_ms (timeoutMsFromEnv executor_ms 120000)"

definition fastpathEnvEnabled :: "string option \<Rightarrow> bool" where
  "fastpathEnvEnabled e \<longleftrightarrow> (case e of Some (c # _) \<Rightarrow> c \<noteq> CHR ''0'' | _ \<Rightarrow> True)"

definition fp_threshold :: "size_t \<Rightarrow> size_t" where
  "fp_threshold bytes = (if bytes \<noteq> 0 then bytes else kDefaultThresholdBytes)"

definition byteRangesOverlap :: "size_t \<Rightarrow> size_t \<Rightarrow> size_t \<Rightarrow> size_t \<Rightarrow> bool" where
  "byteRangesOverlap a a_bytes b b_bytes \<longleftrightarrow>
     (if a = 0 \<or> b = 0 \<or> a_bytes = 0 \<or> b_bytes = 0 then False
      else (let a_sum = add64 a a_bytes; b_sum = add64 b b_bytes;
                a_end = (if a_sum < a then two64 - 1 else a_sum);
                b_end = (if b_sum < b then two64 - 1 else b_sum)
            in a < b_end \<and> b < a_end))"

definition logicalBytes :: "fp_request \<Rightarrow> size_t" where
  "logicalBytes req =
     mul64 (mul64 (rq_seg_count req) (rq_elem req)) (int_to_size (max (rq_send_segs req) (rq_recv_segs req)))"

definition fp_seg_bytes :: "fp_request \<Rightarrow> size_t" where
  "fp_seg_bytes req = mul64 (rq_seg_count req) (rq_elem req)"

section \<open>Who reads whom\<close>

definition pairDirectAllowed :: "fp_env \<Rightarrow> int \<Rightarrow> int \<Rightarrow> bool" where
  "pairDirectAllowed env dst source \<longleftrightarrow>
     (if source = dst then True
      else case fe_topology env of None \<Rightarrow> False
        | Some topo \<Rightarrow> pairLcaIsPcieSwitch topo dst source \<and> pairDirectPeerAllowed topo dst source)"

definition peerDirectAllowed :: "fp_env \<Rightarrow> int \<Rightarrow> bool" where
  "peerDirectAllowed env source = pairDirectAllowed env (fe_rank env) source"

definition fp_ranks :: "fp_env \<Rightarrow> int list" where
  "fp_ranks env = [0..fe_world env - 1]"

definition source_needed :: "fp_request \<Rightarrow> int \<Rightarrow> bool" where
  "source_needed req source \<longleftrightarrow> (if rq_kind req = FpBroadcast then source = rq_root req else True)"

definition collectiveTopologyCanAllDirect :: "fp_env \<Rightarrow> fp_request \<Rightarrow> bool" where
  "collectiveTopologyCanAllDirect env req \<longleftrightarrow>
     list_all (\<lambda>dst. list_all (\<lambda>source. source = dst \<or> \<not> source_needed req source \<or> pairDirectAllowed env dst source)
       (fp_ranks env)) (fp_ranks env)"

definition sourceRankNeeded :: "fp_env \<Rightarrow> fp_request \<Rightarrow> int \<Rightarrow> bool" where
  "sourceRankNeeded env req source \<longleftrightarrow>
     (if source = fe_rank env then False
      else if rq_kind req = FpBroadcast then source = rq_root req
      else 0 \<le> source \<and> source < fe_world env)"

definition localSourceNeededByAnyRank :: "fp_env \<Rightarrow> fp_request \<Rightarrow> bool" where
  "localSourceNeededByAnyRank env req \<longleftrightarrow> (if rq_kind req = FpBroadcast then fe_rank env = rq_root req else True)"

definition localNeedsAllDirectSources :: "fp_env \<Rightarrow> fp_request \<Rightarrow> bool" where
  "localNeedsAllDirectSources env req \<longleftrightarrow>
     list_all (\<lambda>source. \<not> sourceRankNeeded env req source \<or>
       (fe_ipc env \<and> peerDirectAllowed env source \<and> fe_ipc_ready env source \<and> fe_remote env source \<noteq> 0))
       (fp_ranks env)"

section \<open>Acceptance\<close>

text \<open>\<^verbatim>\<open>canHandle\<close> of a CUDA build; every other build answers false.\<close>

definition canHandle :: "bool \<Rightarrow> fp_env \<Rightarrow> fp_request \<Rightarrow> size_t \<Rightarrow> bool" where
  "canHandle cuda env req fast_elems \<longleftrightarrow>
     cuda \<and>
     (if \<not> fe_initialized env \<or> \<not> fe_enabled env \<or> \<not> fe_env_enabled env then False
      else if \<not> fe_state_mgr env \<or> \<not> fe_multi_process env then False
      else if fe_rank env < 0 \<or> MAX_RANKS \<le> fe_rank env \<or> fe_world env \<le> 1 \<or> MAX_RANKS < fe_world env then False
      else if rq_send req = 0 \<or> rq_recv req = 0 \<or> rq_seg_count req = 0 \<or> rq_elem req = 0 then False
      else if fast_elems \<noteq> 0 then False
      else if fe_threshold env \<le> logicalBytes req then False
      else if fe_threshold env < fp_seg_bytes req then False
      else if rq_send_segs req \<le> 0 \<or> rq_recv_segs req \<le> 0 then False
      else if rq_kind req = FpReduceScatter \<and>
          byteRangesOverlap (rq_send req) (mul64 (fp_seg_bytes req) (int_to_size (fe_world env)))
            (rq_recv req) (fp_seg_bytes req) \<and>
          rq_recv req \<noteq> add64 (rq_send req) (mul64 (int_to_size (fe_rank env)) (fp_seg_bytes req)) then False
      else if rq_kind req = FpAllReduce \<and> \<not> collectiveTopologyCanAllDirect env req then False
      else case rq_kind req of
          FpAllGather \<Rightarrow> rq_send_segs req = 1 \<and> rq_recv_segs req = fe_world env
        | FpAllReduce \<Rightarrow> rq_send_segs req = 1 \<and> rq_recv_segs req = 1
        | FpReduceScatter \<Rightarrow> rq_send_segs req = fe_world env \<and> rq_recv_segs req = 1
        | FpBroadcast \<Rightarrow> rq_send_segs req = 1 \<and> rq_recv_segs req = 1 \<and>
            0 \<le> rq_root req \<and> rq_root req < fe_world env)"

section \<open>Programs\<close>

text \<open>
  Memory locations: device memory of a rank, its staging buffer on the host, its scratch
  buffer of a slot.
\<close>

datatype fp_loc = Dev int nat | Staged int nat | Scratch int int nat

fun loc_plus :: "fp_loc \<Rightarrow> nat \<Rightarrow> fp_loc" where
  "loc_plus (Dev r a) n = Dev r (a + n)"
| "loc_plus (Staged r a) n = Staged r (a + n)"
| "loc_plus (Scratch r s a) n = Scratch r s (a + n)"

fun owner_of :: "fp_loc \<Rightarrow> int" where
  "owner_of (Dev r a) = r"
| "owner_of (Staged r a) = r"
| "owner_of (Scratch r s a) = r"

datatype fp_lane = LaneD2H | LaneD2D | LaneReduce

text \<open>Work on a stream: destination, source, bytes, and type and operator of a reduction.\<close>

datatype fp_work = FpCopy fp_loc fp_loc nat | FpReduce fp_loc fp_loc nat int int | FpMark

text \<open>
  Calls to the outside. A waiting loop is one call: its reply is 1 when the awaited condition
  held and 0 when the wait timed out. The status of a peer is replied as 0 or 1, a time-out as
  2. An event query is 1 (complete), 0 (query failed) or 2 (timed out); device calls and the
  barrier reply 1 on success; an address is replied as itself.
\<close>

datatype fp_call =
    WaitUserReady int nat
  | PublishReady int nat
  | PublishDirect int nat bool
  | WaitStatus int int nat
  | PublishStage int nat
  | WaitPeerReady int int nat
  | WaitPeerStage int int nat
  | AskRemote int
  | Enqueue fp_lane fp_work
  | RecordLane fp_lane
  | WaitLane fp_lane
  | SyncLane fp_lane
  | FpBarrier
  | Signal int nat

datatype 'r fp_prog = Ret 'r | Call fp_call "nat \<Rightarrow> 'r fp_prog"

primrec andthen :: "'a fp_prog \<Rightarrow> ('a \<Rightarrow> 'b fp_prog) \<Rightarrow> 'b fp_prog" where
  "andthen (Ret r) f = f r"
| "andthen (Call c k) f = Call c (\<lambda>n. andthen (k n) f)"

text \<open>\<^verbatim>\<open>if (result != pcclSuccess) return result;\<close>\<close>

definition unless_failed :: "pccl_result fp_prog \<Rightarrow> pccl_result fp_prog \<Rightarrow> pccl_result fp_prog" where
  "unless_failed p q = andthen p (\<lambda>r. if r \<noteq> pcclSuccess then Ret r else q)"

definition call_or :: "pccl_result \<Rightarrow> fp_call \<Rightarrow> pccl_result fp_prog" where
  "call_or e c = Call c (\<lambda>n. if n = 1 then Ret pcclSuccess else Ret e)"

definition do_call :: "fp_call \<Rightarrow> pccl_result fp_prog" where
  "do_call c = Call c (\<lambda>_. Ret pcclSuccess)"

fun for_sources :: "(int \<Rightarrow> pccl_result fp_prog) \<Rightarrow> int list \<Rightarrow> pccl_result fp_prog" where
  "for_sources f [] = Ret pcclSuccess"
| "for_sources f (s # ss) = unless_failed (f s) (for_sources f ss)"

section \<open>Steps of an execution\<close>

definition waitForUserReadyAndPublish :: "int \<Rightarrow> nat \<Rightarrow> pccl_result fp_prog" where
  "waitForUserReadyAndPublish slot seq =
     unless_failed (call_or pcclTimeout (WaitUserReady slot seq)) (do_call (PublishReady slot seq))"

text \<open>The loop over the peers; the result is whether all of them can read directly.\<close>

fun resolve_direct :: "int \<Rightarrow> nat \<Rightarrow> bool \<Rightarrow> int list \<Rightarrow> (pccl_result + bool) fp_prog" where
  "resolve_direct slot seq all_direct [] = Ret (Inr all_direct)"
| "resolve_direct slot seq all_direct (peer # peers) = Call (WaitStatus peer slot seq) (\<lambda>n.
     if n = 2 then Ret (Inl pcclTimeout)
     else resolve_direct slot seq (if n = 0 then False else all_direct) peers)"

definition publishAndResolveDirectMode :: "fp_env \<Rightarrow> fp_request \<Rightarrow> int \<Rightarrow> nat \<Rightarrow> (pccl_result + bool) fp_prog" where
  "publishAndResolveDirectMode env req slot seq =
     (if \<not> collectiveTopologyCanAllDirect env req then Ret (Inr False)
      else Call (PublishDirect slot seq (localNeedsAllDirectSources env req))
        (\<lambda>_. resolve_direct slot seq True (fp_ranks env)))"

text \<open>\<^verbatim>\<open>waitForFastpathReady\<close> and \<^verbatim>\<open>waitForFastpathStage\<close>.\<close>

definition waitForFastpathReady :: "fp_env \<Rightarrow> int \<Rightarrow> int \<Rightarrow> nat \<Rightarrow> pccl_result fp_prog" where
  "waitForFastpathReady env source slot seq =
     (if source = fe_rank env then Ret pcclSuccess else call_or pcclTimeout (WaitPeerReady source slot seq))"

definition waitForFastpathStage :: "fp_env \<Rightarrow> int \<Rightarrow> int \<Rightarrow> nat \<Rightarrow> pccl_result fp_prog" where
  "waitForFastpathStage env source slot seq =
     (if source = fe_rank env then Ret pcclSuccess else call_or pcclTimeout (WaitPeerStage source slot seq))"

definition waitEvent :: "fp_lane \<Rightarrow> pccl_result fp_prog" where
  "waitEvent lane = Call (WaitLane lane) (\<lambda>n.
     if n = 1 then Ret pcclSuccess else if n = 0 then Ret pcclDeviceError else Ret pcclTimeout)"

definition synchronizeStream :: "fp_lane \<Rightarrow> pccl_result fp_prog" where
  "synchronizeStream lane = call_or pcclDeviceError (SyncLane lane)"

definition stageLocalSource :: "fp_env \<Rightarrow> fp_request \<Rightarrow> int \<Rightarrow> nat \<Rightarrow> pccl_result fp_prog" where
  "stageLocalSource env req slot seq =
     (if \<not> localSourceNeededByAnyRank env req then do_call (PublishStage slot seq)
      else if \<not> fe_staging env (fe_rank env) then Ret pcclInternalError
      else (let bytes = (if rq_kind req = FpReduceScatter
                  then mul64 (fp_seg_bytes req) (int_to_size (fe_world env)) else fp_seg_bytes req)
        in if bytes = 0 \<or> fe_threshold env < bytes then Ret pcclInvalidArgument
           else unless_failed (call_or pcclDeviceError
                  (Enqueue LaneD2H (FpCopy (Staged (fe_rank env) 0) (Dev (fe_rank env) (rq_send req)) bytes)))
               (unless_failed (call_or pcclDeviceError (RecordLane LaneD2H))
               (unless_failed (waitEvent LaneD2H) (do_call (PublishStage slot seq))))))"

text \<open>
  \<^verbatim>\<open>buildSourceInfo\<close>: the place a source is read from. \<^verbatim>\<open>direct\<close> is a device pointer.
\<close>

definition buildSourceInfo ::
  "fp_env \<Rightarrow> fp_request \<Rightarrow> int \<Rightarrow> int \<Rightarrow> nat \<Rightarrow> bool \<Rightarrow> (pccl_result + fp_loc) fp_prog" where
  "buildSourceInfo env req source slot seq allow_remote_direct =
     andthen (waitForFastpathReady env source slot seq) (\<lambda>r.
       if r \<noteq> pcclSuccess then Ret (Inl pcclTimeout)
       else if source = fe_rank env then Ret (Inr (Dev source (rq_send req)))
       else
        (let staged = andthen (waitForFastpathStage env source slot seq) (\<lambda>r.
               if r \<noteq> pcclSuccess then Ret (Inl pcclTimeout)
               else if fe_staging env source then Ret (Inr (Staged source 0))
               else Ret (Inl pcclInternalError))
         in if allow_remote_direct \<and> fe_ipc env \<and> peerDirectAllowed env source \<and> fe_ipc_ready env source
            then Call (AskRemote source) (\<lambda>a. if a \<noteq> 0 then Ret (Inr (Dev source a)) else staged)
            else staged))"

definition with_source ::
  "(pccl_result + fp_loc) fp_prog \<Rightarrow> (fp_loc \<Rightarrow> pccl_result fp_prog) \<Rightarrow> pccl_result fp_prog" where
  "with_source p f = andthen p (\<lambda>r. case r of Inl e \<Rightarrow> Ret e | Inr src \<Rightarrow> f src)"

definition copySourceToDevice :: "fp_loc \<Rightarrow> fp_loc \<Rightarrow> nat \<Rightarrow> fp_lane \<Rightarrow> pccl_result fp_prog" where
  "copySourceToDevice src dst bytes lane =
     (if bytes = 0 then Ret pcclSuccess else call_or pcclDeviceError (Enqueue lane (FpCopy dst src bytes)))"

definition reduce_into :: "fp_request \<Rightarrow> fp_loc \<Rightarrow> fp_loc \<Rightarrow> pccl_result fp_prog" where
  "reduce_into req dst src = call_or pcclDeviceError
     (Enqueue LaneReduce (FpReduce dst src (fp_seg_bytes req) (rq_scalar req) (rq_op req)))"

section \<open>The collectives\<close>

definition executeAllGather :: "fp_env \<Rightarrow> fp_request \<Rightarrow> int \<Rightarrow> nat \<Rightarrow> bool \<Rightarrow> pccl_result fp_prog" where
  "executeAllGather env req slot seq allow =
     unless_failed
       (for_sources (\<lambda>source. with_source (buildSourceInfo env req source slot seq allow) (\<lambda>src.
          (let dst = Dev (fe_rank env) (rq_recv req + nat source * fp_seg_bytes req)
           in if src \<noteq> dst then copySourceToDevice src dst (fp_seg_bytes req) LaneD2D else Ret pcclSuccess)))
          (fp_ranks env))
       (synchronizeStream LaneD2D)"

definition executeBroadcast :: "fp_env \<Rightarrow> fp_request \<Rightarrow> int \<Rightarrow> nat \<Rightarrow> bool \<Rightarrow> pccl_result fp_prog" where
  "executeBroadcast env req slot seq allow =
     with_source (buildSourceInfo env req (rq_root req) slot seq allow) (\<lambda>src.
       if src = Dev (fe_rank env) (rq_recv req) then Ret pcclSuccess
       else unless_failed (copySourceToDevice src (Dev (fe_rank env) (rq_recv req)) (fp_seg_bytes req) LaneD2D)
              (synchronizeStream LaneD2D))"

text \<open>The first other rank, or the own rank when there is none.\<close>

definition seed_source :: "fp_env \<Rightarrow> fp_request \<Rightarrow> int" where
  "seed_source env req =
     (if rq_send req \<noteq> rq_recv req \<and> 1 < fe_world env then
        (case filter (\<lambda>source. source \<noteq> fe_rank env) (fp_ranks env) of
           [] \<Rightarrow> fe_rank env | source # _ \<Rightarrow> source)
      else fe_rank env)"

text \<open>Copy a source to the scratch buffer of the slot and reduce it into the result.\<close>

definition reduce_source ::
  "fp_env \<Rightarrow> fp_request \<Rightarrow> int \<Rightarrow> nat \<Rightarrow> bool \<Rightarrow> nat \<Rightarrow> int \<Rightarrow> pccl_result fp_prog" where
  "reduce_source env req slot seq allow offset source =
     with_source (buildSourceInfo env req source slot seq allow) (\<lambda>src.
       if \<not> (0 \<le> slot \<and> slot < fe_depth env \<and> fe_scratch env slot) then Ret pcclInternalError
       else unless_failed
              (copySourceToDevice (loc_plus src offset) (Scratch (fe_rank env) slot 0) (fp_seg_bytes req) LaneReduce)
              (reduce_into req (Dev (fe_rank env) (rq_recv req)) (Scratch (fe_rank env) slot 0)))"

definition executeAllReduce :: "fp_env \<Rightarrow> fp_request \<Rightarrow> int \<Rightarrow> nat \<Rightarrow> bool \<Rightarrow> pccl_result fp_prog" where
  "executeAllReduce env req slot seq allow =
     (let recv = Dev (fe_rank env) (rq_recv req); in_place = (rq_send req = rq_recv req);
          seed = seed_source env req
      in unless_failed
       (if \<not> in_place \<and> 1 < fe_world env then
          with_source (buildSourceInfo env req seed slot seq allow) (\<lambda>src.
            copySourceToDevice src recv (fp_seg_bytes req) LaneReduce)
        else if \<not> in_place then
          call_or pcclDeviceError
            (Enqueue LaneReduce (FpCopy recv (Dev (fe_rank env) (rq_send req)) (fp_seg_bytes req)))
        else Ret pcclSuccess)
       (unless_failed
         (for_sources (\<lambda>source.
            if source = seed \<or> (source = fe_rank env \<and> in_place) then Ret pcclSuccess
            else if source = fe_rank env then reduce_into req recv (Dev (fe_rank env) (rq_send req))
            else reduce_source env req slot seq allow 0 source) (fp_ranks env))
         (synchronizeStream LaneReduce)))"

definition executeReduceScatter :: "fp_env \<Rightarrow> fp_request \<Rightarrow> int \<Rightarrow> nat \<Rightarrow> bool \<Rightarrow> pccl_result fp_prog" where
  "executeReduceScatter env req slot seq allow =
     (let offset = nat (fe_rank env) * fp_seg_bytes req; local = rq_send req + offset
      in unless_failed
       (if local \<noteq> rq_recv req then
          call_or pcclDeviceError
            (Enqueue LaneReduce (FpCopy (Dev (fe_rank env) (rq_recv req)) (Dev (fe_rank env) local) (fp_seg_bytes req)))
        else Ret pcclSuccess)
       (unless_failed
         (for_sources (\<lambda>source. if source = fe_rank env then Ret pcclSuccess
            else reduce_source env req slot seq allow offset source) (fp_ranks env))
         (synchronizeStream LaneReduce)))"

definition remote_direct_allowed :: "fp_env \<Rightarrow> fp_request \<Rightarrow> bool \<Rightarrow> bool" where
  "remote_direct_allowed env req all_direct \<longleftrightarrow>
     (if all_direct then True
      else case rq_kind req of
          FpAllGather \<Rightarrow> rq_send req \<noteq> rq_recv req + nat (fe_rank env) * fp_seg_bytes req
        | FpReduceScatter \<Rightarrow> False
        | _ \<Rightarrow> True)"

definition run_collective :: "fp_env \<Rightarrow> fp_request \<Rightarrow> int \<Rightarrow> nat \<Rightarrow> bool \<Rightarrow> pccl_result fp_prog" where
  "run_collective env req slot seq allow =
     (case rq_kind req of
        FpAllGather \<Rightarrow> executeAllGather env req slot seq allow
      | FpBroadcast \<Rightarrow> executeBroadcast env req slot seq allow
      | FpAllReduce \<Rightarrow> executeAllReduce env req slot seq allow
      | FpReduceScatter \<Rightarrow> executeReduceScatter env req slot seq allow)"

definition execute :: "fp_env \<Rightarrow> fp_request \<Rightarrow> int \<Rightarrow> nat \<Rightarrow> pccl_result fp_prog" where
  "execute env req slot seq =
     (if fp_seg_bytes req = 0 \<or> fe_threshold env < fp_seg_bytes req then Ret pcclInvalidArgument
      else unless_failed (waitForUserReadyAndPublish slot seq)
       (andthen (publishAndResolveDirectMode env req slot seq) (\<lambda>mode.
          case mode of Inl e \<Rightarrow> Ret e
          | Inr all_direct \<Rightarrow>
             unless_failed (if \<not> all_direct then stageLocalSource env req slot seq else do_call (PublishStage slot seq))
             (unless_failed (run_collective env req slot seq (remote_direct_allowed env req all_direct))
             (unless_failed (call_or pcclTimeout FpBarrier)
               (call_or pcclDeviceError (Signal slot seq)))))))"

section \<open>The work queue\<close>

record fp_item =
  fi_req :: fp_request
  fi_seq :: nat
  fi_slot :: int

record fp_executor =
  fx_stop :: bool
  fx_busy :: bool
  fx_last_result :: pccl_result
  fx_seq_counter :: nat
  fx_queue :: "fp_item list"

definition fp_can_submit :: "fp_env \<Rightarrow> fp_executor \<Rightarrow> bool" where
  "fp_can_submit env x \<longleftrightarrow> fx_stop x \<or> fx_last_result x \<noteq> pcclSuccess \<or>
     (if fx_busy x then 1 else 0) + length (fx_queue x) < int_to_size (fe_depth env)"

text \<open>\<^verbatim>\<open>submit\<close>; \<open>ready\<close> is the result of its \<^verbatim>\<open>wait_for\<close>.\<close>

definition fp_submit ::
  "bool \<Rightarrow> (stream_op \<Rightarrow> bool) \<Rightarrow> fp_env \<Rightarrow> fp_request \<Rightarrow> fp_executor \<times> completion_flag option \<Rightarrow>
   pccl_result \<times> fp_executor \<times> completion_flag option" where
  "fp_submit ready ok env req st =
     (case st of (x, flag) \<Rightarrow>
       (case flag of None \<Rightarrow> (pcclInternalError, x, flag)
        | Some cf \<Rightarrow>
          if \<not> ready then (pcclTimeout, x\<lparr>fx_last_result := pcclTimeout\<rparr>, flag)
          else if fx_stop x then (pcclInternalError, x, flag)
          else if fx_last_result x \<noteq> pcclSuccess then (fx_last_result x, x, flag)
          else
           (let seq = add64 (fx_seq_counter x) 1;
                slot = int (sub64 seq 1 mod int_to_size (fe_depth env));
                x1 = x\<lparr>fx_seq_counter := seq\<rparr>;
                (prepared, cf1) = prepareUserWait ok slot (rq_stream req) (rq_debug_op req) (fe_rank env) seq cf
            in if prepared \<noteq> 0 then (pcclDeviceError, x1, Some cf1)
               else (pcclSuccess, x1\<lparr>fx_queue := fx_queue x1 @ [\<lparr>fi_req = req, fi_seq = seq, fi_slot = slot\<rparr>]\<rparr>,
                     Some cf1))))"

definition fp_hasInflight :: "fp_executor \<Rightarrow> bool" where
  "fp_hasInflight x \<longleftrightarrow> fx_busy x \<or> fx_queue x \<noteq> []"

definition fp_waitForIdle :: "fp_env \<Rightarrow> bool \<Rightarrow> fp_executor \<Rightarrow> pccl_result \<times> fp_executor" where
  "fp_waitForIdle env idle x =
     (if \<not> fe_initialized env then (pcclSuccess, x)
      else if \<not> idle then (pcclTimeout, x\<lparr>fx_last_result := pcclTimeout\<rparr>)
      else (fx_last_result x, x))"

definition fp_drain :: "fp_env \<Rightarrow> bool \<Rightarrow> fp_executor \<Rightarrow> bool \<times> fp_executor" where
  "fp_drain env idle x = (let x' = snd (fp_waitForIdle env idle x) in (fx_last_result x' = pcclSuccess, x'))"

text \<open>The worker takes the oldest item, and its program; \<open>None\<close> when there is none.\<close>

definition fp_take :: "fp_env \<Rightarrow> fp_executor \<Rightarrow> (fp_item \<times> pccl_result fp_prog \<times> fp_executor) option" where
  "fp_take env x = (case fx_queue x of [] \<Rightarrow> None
     | item # rest \<Rightarrow> Some (item, execute env (fi_req item) (fi_slot item) (fi_seq item),
         x\<lparr>fx_queue := rest, fx_busy := True\<rparr>))"

definition fp_finishWork ::
  "(stream_op \<Rightarrow> bool) \<Rightarrow> pccl_result \<Rightarrow> fp_item \<Rightarrow> fp_executor \<times> completion_flag \<Rightarrow> fp_executor \<times> completion_flag" where
  "fp_finishWork ok result item st =
     (case st of (x, cf) \<Rightarrow>
       (let x1 = x\<lparr>fx_last_result := result\<rparr>
        in if result \<noteq> pcclSuccess then
             (x1\<lparr>fx_queue := [], fx_busy := False\<rparr>,
              foldl (\<lambda>cf q. snd (signalComplete ok (fi_slot q) (fi_seq q) cf)) cf (item # fx_queue x1))
           else (x1\<lparr>fx_busy := False\<rparr>, cf)))"

end
