(* ===== verification/FastPathRun.thy ===== *)
theory FastPathRun
  imports FastPath
begin

text \<open>
  All ranks executing one small-message request together: shared memory, streams and device
  memory under the programs of \<open>execute\<close>. A wait is a step that is possible when the awaited
  condition holds, or times out; a copy or reduction on a stream takes effect in one step, at
  any time after it was enqueued and in the order of its stream; any device call may fail.
  Until the user stream of a rank has reached the request, its work may still change the
  device memory of the rank.
\<close>

section \<open>Memory\<close>

type_synonym fp_mem = "fp_loc \<Rightarrow> 8 word"

definition read_bytes :: "fp_mem \<Rightarrow> fp_loc \<Rightarrow> nat \<Rightarrow> 8 word list" where
  "read_bytes m l n = map (\<lambda>i. m (loc_plus l i)) [0..<n]"

fun write_bytes :: "fp_loc \<Rightarrow> 8 word list \<Rightarrow> fp_mem \<Rightarrow> fp_mem" where
  "write_bytes l [] m = m"
| "write_bytes l (x # xs) m = (write_bytes (loc_plus l 1) xs m)(l := x)"

text \<open>\<open>red ty op\<close> is the device kernel of a reduction, destination bytes first.\<close>

type_synonym fp_kernel = "int \<Rightarrow> int \<Rightarrow> 8 word list \<Rightarrow> 8 word list \<Rightarrow> 8 word list"

fun do_work :: "fp_kernel \<Rightarrow> fp_work \<Rightarrow> fp_mem \<Rightarrow> fp_mem" where
  "do_work red (FpCopy d s n) m = write_bytes d (read_bytes m s n) m"
| "do_work red (FpReduce d s n ty op) m = write_bytes d (red ty op (read_bytes m d n) (read_bytes m s n)) m"
| "do_work red FpMark m = m"

section \<open>The world\<close>

record fp_world =
  fw_mem :: fp_mem
  fw_input :: fp_mem                \<comment> \<open>the memory as the user streams left it\<close>
  fw_ready :: "int \<Rightarrow> bool"         \<comment> \<open>the user stream has reached the request\<close>
  fw_shared :: shared_state
  fw_queue :: "int \<Rightarrow> fp_lane \<Rightarrow> fp_work list"
  fw_arrived :: "int \<Rightarrow> bool"
  fw_signalled :: "int \<Rightarrow> bool"
  fw_prog :: "int \<Rightarrow> pccl_result fp_prog"

record fp_system =
  fy_n :: int
  fy_env :: "int \<Rightarrow> fp_env"
  fy_req :: "int \<Rightarrow> fp_request"
  fy_slot :: int
  fy_seq :: nat
  fy_kernel :: fp_kernel

definition fy_comm :: "fp_system \<Rightarrow> int \<Rightarrow> int" where
  "fy_comm y r = fe_comm (fy_env y r)"

definition is_rank :: "fp_system \<Rightarrow> int \<Rightarrow> bool" where
  "is_rank y r \<longleftrightarrow> 0 \<le> r \<and> r < fy_n y"

text \<open>The replies a call of rank \<open>r\<close> can get.\<close>

fun can_reply :: "fp_system \<Rightarrow> fp_world \<Rightarrow> int \<Rightarrow> fp_call \<Rightarrow> nat \<Rightarrow> bool" where
  "can_reply y w r (WaitUserReady slot seq) n \<longleftrightarrow> n = (if fw_ready w r then 1 else 0)"
| "can_reply y w r (PublishReady slot seq) n \<longleftrightarrow> n = 0"
| "can_reply y w r (PublishDirect slot seq b) n \<longleftrightarrow> n = 0"
| "can_reply y w r (PublishStage slot seq) n \<longleftrightarrow> n = 0"
| "can_reply y w r (WaitStatus p slot seq) n \<longleftrightarrow>
     (let st = getFastpathDirectStatus (fw_shared w) (fy_comm y r) p slot seq in n = (if 0 \<le> st then nat st else 2))"
| "can_reply y w r (WaitPeerReady p slot seq) n \<longleftrightarrow>
     n = (if getFastpathReadySeq (fw_shared w) (fy_comm y r) p slot = seq then 1 else 0)"
| "can_reply y w r (WaitPeerStage p slot seq) n \<longleftrightarrow>
     n = (if getFastpathStageSeq (fw_shared w) (fy_comm y r) p slot = seq then 1 else 0)"
| "can_reply y w r (AskRemote p) n \<longleftrightarrow> n = fe_remote (fy_env y r) p"
| "can_reply y w r (Enqueue lane wk) n \<longleftrightarrow> n \<le> 1"
| "can_reply y w r (RecordLane lane) n \<longleftrightarrow> n \<le> 1"
| "can_reply y w r (WaitLane lane) n \<longleftrightarrow> n = 0 \<or> n = (if FpMark \<in> set (fw_queue w r lane) then 2 else 1)"
| "can_reply y w r (SyncLane lane) n \<longleftrightarrow> n = 0 \<or> n = 1 \<and> fw_queue w r lane = []"
| "can_reply y w r FpBarrier n \<longleftrightarrow> fw_arrived w r \<and> (n = 0 \<or> n = 1 \<and> list_all (fw_arrived w) [0..fy_n y - 1])"
| "can_reply y w r (Signal slot seq) n \<longleftrightarrow> n \<le> 1"

definition push_work :: "int \<Rightarrow> fp_lane \<Rightarrow> fp_work \<Rightarrow> fp_world \<Rightarrow> fp_world" where
  "push_work r lane wk w = w\<lparr>fw_queue := (fw_queue w)(r := (fw_queue w r)(lane := fw_queue w r lane @ [wk]))\<rparr>"

text \<open>What a call does to the world.\<close>

fun call_effect :: "fp_system \<Rightarrow> int \<Rightarrow> fp_call \<Rightarrow> nat \<Rightarrow> fp_world \<Rightarrow> fp_world" where
  "call_effect y r (PublishReady slot seq) n w =
     w\<lparr>fw_shared := publishFastpathReadySeq (fy_comm y r) r slot seq (fw_shared w)\<rparr>"
| "call_effect y r (PublishStage slot seq) n w =
     w\<lparr>fw_shared := publishFastpathStageSeq (fy_comm y r) r slot seq (fw_shared w)\<rparr>"
| "call_effect y r (PublishDirect slot seq b) n w =
     w\<lparr>fw_shared := publishFastpathDirectStatus (fy_comm y r) r slot seq b (fw_shared w)\<rparr>"
| "call_effect y r (Enqueue lane wk) n w = (if n = 1 then push_work r lane wk w else w)"
| "call_effect y r (RecordLane lane) n w = (if n = 1 then push_work r lane FpMark w else w)"
| "call_effect y r (Signal slot seq) n w = (if n = 1 then w\<lparr>fw_signalled := (fw_signalled w)(r := True)\<rparr> else w)"
| "call_effect y r _ n w = w"

inductive fp_step :: "fp_system \<Rightarrow> fp_world \<Rightarrow> fp_world \<Rightarrow> bool" for y :: fp_system where
  step_call: "is_rank y r \<Longrightarrow> fw_prog w r = Call c k \<Longrightarrow> can_reply y w r c n \<Longrightarrow>
    fp_step y w ((call_effect y r c n w)\<lparr>fw_prog := (fw_prog w)(r := k n)\<rparr>)"
| step_user: "is_rank y r \<Longrightarrow> \<not> fw_ready w r \<Longrightarrow> (\<And>p. (\<forall>a. p \<noteq> Dev r a) \<Longrightarrow> m p = fw_mem w p) \<Longrightarrow>
    fp_step y w (w\<lparr>fw_mem := m, fw_input := (\<lambda>p. if owner_of p = r then m p else fw_input w p),
      fw_ready := (fw_ready w)(r := True)\<rparr>)"
| step_arrive: "is_rank y r \<Longrightarrow> fw_prog w r = Call FpBarrier k \<Longrightarrow>
    fp_step y w (w\<lparr>fw_arrived := (fw_arrived w)(r := True)\<rparr>)"
| step_work: "is_rank y r \<Longrightarrow> fw_queue w r lane = wk # rest \<Longrightarrow>
    fp_step y w (w\<lparr>fw_mem := do_work (fy_kernel y) wk (fw_mem w),
      fw_queue := (fw_queue w)(r := (fw_queue w r)(lane := rest))\<rparr>)"

text \<open>Before the request: nothing published for its sequence number, streams idle.\<close>

definition fp_start :: "fp_system \<Rightarrow> fp_world \<Rightarrow> bool" where
  "fp_start y w \<longleftrightarrow> fw_input w = fw_mem w \<and>
     (\<forall>r. is_rank y r \<longrightarrow>
        fw_prog w r = execute (fy_env y r) (fy_req y r) (fy_slot y) (fy_seq y) \<and>
        (\<forall>lane. fw_queue w r lane = []) \<and> \<not> fw_arrived w r \<and> \<not> fw_signalled w r \<and>
        getFastpathReadySeq (fw_shared w) (fy_comm y r) r (fy_slot y) \<noteq> fy_seq y \<and>
        getFastpathStageSeq (fw_shared w) (fy_comm y r) r (fy_slot y) \<noteq> fy_seq y \<and>
        getFastpathDirectStatus (fw_shared w) (fy_comm y r) r (fy_slot y) (fy_seq y) = -1)"

section \<open>Memory facts\<close>

lemma loc_plus_plus [simp]: "loc_plus (loc_plus l a) b = loc_plus l (a + b)"
  by (cases l) simp_all

lemma loc_plus_0 [simp]: "loc_plus l 0 = l"
  by (cases l) simp_all

lemma loc_plus_inject [simp]: "loc_plus l a = loc_plus l b \<longleftrightarrow> a = b"
  by (cases l) simp_all

lemma owner_loc_plus [simp]: "owner_of (loc_plus l n) = owner_of l"
  by (cases l) simp_all

lemma length_read_bytes [simp]: "length (read_bytes m l n) = n"
  by (simp add: read_bytes_def)

lemma nth_read_bytes [simp]: "i < n \<Longrightarrow> read_bytes m l n ! i = m (loc_plus l i)"
  by (simp add: read_bytes_def)

definition in_range :: "fp_loc \<Rightarrow> nat \<Rightarrow> fp_loc \<Rightarrow> bool" where
  "in_range l n p \<longleftrightarrow> (\<exists>i < n. p = loc_plus l i)"

lemma write_bytes_at:
  "write_bytes l xs m (loc_plus l i) = (if i < length xs then xs ! i else m (loc_plus l i))"
proof (induction xs arbitrary: l i)
  case (Cons x xs)
  show ?case
  proof (cases i)
    case 0
    then show ?thesis by simp
  next
    case (Suc j)
    have "loc_plus l (Suc j) \<noteq> l" using loc_plus_inject[of l "Suc j" 0] by simp
    moreover have "loc_plus l (Suc j) = loc_plus (loc_plus l 1) j" by simp
    ultimately show ?thesis using Suc Cons.IH[of "loc_plus l 1" j] by (simp del: loc_plus_plus)
  qed
qed simp

lemma write_bytes_other: "\<not> in_range l (length xs) p \<Longrightarrow> write_bytes l xs m p = m p"
proof (induction xs arbitrary: l)
  case (Cons x xs)
  have "\<not> in_range (loc_plus l 1) (length xs) p"
  proof
    assume "in_range (loc_plus l 1) (length xs) p"
    then obtain i where "i < length xs" "p = loc_plus l (1 + i)" by (auto simp: in_range_def)
    then show False using Cons.prems by (auto simp: in_range_def intro!: exI[of _ "1 + i"])
  qed
  moreover have "p \<noteq> l" using Cons.prems by (auto simp: in_range_def intro: exI[of _ 0])
  ultimately show ?case using Cons.IH by simp
qed simp

lemma read_bytes_cong: "(\<And>i. i < n \<Longrightarrow> m (loc_plus l i) = m' (loc_plus l i)) \<Longrightarrow> read_bytes m l n = read_bytes m' l n"
  by (simp add: read_bytes_def)

lemma read_write_same: "length xs = n \<Longrightarrow> read_bytes (write_bytes l xs m) l n = xs"
  by (rule nth_equalityI) (simp_all add: write_bytes_at)

lemma read_write_other:
  assumes "\<And>i. i < n \<Longrightarrow> \<not> in_range d (length xs) (loc_plus l i)"
  shows "read_bytes (write_bytes d xs m) l n = read_bytes m l n"
  using assms by (intro read_bytes_cong) (simp add: write_bytes_other)

section \<open>Programs\<close>

text \<open>
  \<open>calls ok p\<close> are the calls of a program when each gets the reply \<open>ok\<close> gives, \<open>outcome ok p\<close>
  its result; \<open>strict ok E p\<close> says that a reply of failure ends it with a result in \<open>E\<close>.
\<close>

fun bad_reply :: "fp_call \<Rightarrow> nat \<Rightarrow> bool" where
  "bad_reply (PublishReady slot seq) n \<longleftrightarrow> False"
| "bad_reply (PublishDirect slot seq b) n \<longleftrightarrow> False"
| "bad_reply (PublishStage slot seq) n \<longleftrightarrow> False"
| "bad_reply (AskRemote p) n \<longleftrightarrow> False"
| "bad_reply (WaitStatus p slot seq) n \<longleftrightarrow> n = 2"
| "bad_reply (WaitLane lane) n \<longleftrightarrow> n = 0 \<or> n = 2"
| "bad_reply _ n \<longleftrightarrow> n = 0"

primrec calls :: "(fp_call \<Rightarrow> nat) \<Rightarrow> 'r fp_prog \<Rightarrow> fp_call list" where
  "calls ok (Ret r) = []"
| "calls ok (Call c k) = c # calls ok (k (ok c))"

primrec outcome :: "(fp_call \<Rightarrow> nat) \<Rightarrow> 'r fp_prog \<Rightarrow> 'r" where
  "outcome ok (Ret r) = r"
| "outcome ok (Call c k) = outcome ok (k (ok c))"

lemma calls_andthen: "calls ok (andthen p f) = calls ok p @ calls ok (f (outcome ok p))"
  by (induction p) simp_all

lemma outcome_andthen: "outcome ok (andthen p f) = outcome ok (f (outcome ok p))"
  by (induction p) simp_all

lemma calls_unless_failed:
  "calls ok (unless_failed p q) = calls ok p @ (if outcome ok p = pcclSuccess then calls ok q else [])"
  by (simp add: unless_failed_def calls_andthen)

lemma outcome_unless_failed:
  "outcome ok (unless_failed p q) = (if outcome ok p = pcclSuccess then outcome ok q else outcome ok p)"
  by (simp add: unless_failed_def outcome_andthen)

primrec strict :: "(fp_call \<Rightarrow> nat) \<Rightarrow> ('r \<Rightarrow> bool) \<Rightarrow> 'r fp_prog \<Rightarrow> bool" where
  "strict ok E (Ret r) \<longleftrightarrow> True"
| "strict ok E (Call c k) \<longleftrightarrow> strict ok E (k (ok c)) \<and> (\<forall>n. bad_reply c n \<longrightarrow> (\<exists>r. k n = Ret r \<and> E r))"

lemma strict_andthen:
  assumes "strict ok E p" "strict ok E' (f (outcome ok p))" "\<And>r. E r \<Longrightarrow> \<exists>r'. f r = Ret r' \<and> E' r'"
  shows "strict ok E' (andthen p f)"
  using assms by (induction p) fastforce+

abbreviation failed :: "pccl_result \<Rightarrow> bool" where
  "failed r \<equiv> r \<noteq> pcclSuccess"

lemma strict_unless_failed:
  "strict ok failed p \<Longrightarrow> (outcome ok p = pcclSuccess \<Longrightarrow> strict ok failed q) \<Longrightarrow> strict ok failed (unless_failed p q)"
  unfolding unless_failed_def by (rule strict_andthen[where E = failed]) auto

lemma strict_for_sources:
  "(\<And>s. s \<in> set ss \<Longrightarrow> strict ok failed (f s)) \<Longrightarrow> strict ok failed (for_sources f ss)"
  by (induction ss) (auto intro!: strict_unless_failed)

lemma strict_call:
  "e \<noteq> pcclSuccess \<Longrightarrow> (\<And>n. bad_reply c n \<Longrightarrow> n \<noteq> 1) \<Longrightarrow> strict ok failed (call_or e c)"
  by (auto simp: call_or_def)

lemma strict_do_call: "(\<And>n. \<not> bad_reply c n) \<Longrightarrow> strict ok failed (do_call c)"
  by (simp add: do_call_def)

lemma for_sources_calls:
  assumes "\<And>s. s \<in> set ss \<Longrightarrow> outcome ok (f s) = pcclSuccess" "\<And>s. s \<in> set ss \<Longrightarrow> calls ok (f s) = g s"
  shows "calls ok (for_sources f ss) = concat (map g ss) \<and> outcome ok (for_sources f ss) = pcclSuccess"
  using assms by (induction ss) (simp_all add: calls_unless_failed outcome_unless_failed)

lemma call_or_calls:
  "calls ok (call_or e c) = [c]" "outcome ok (call_or e c) = (if ok c = 1 then pcclSuccess else e)"
  "calls ok (do_call c) = [c]" "outcome ok (do_call c) = pcclSuccess"
  by (simp_all add: call_or_def do_call_def)

end
