(* ===== verification/FastPathScript.thy ===== *)
theory FastPathScript
  imports FastPathRun
begin

text \<open>
  What the program of one rank does when no call fails: its calls, the work it enqueues and
  the order between them.
\<close>

section \<open>Systems\<close>

definition fy_seg :: "fp_system \<Rightarrow> nat" where
  "fy_seg y = fp_seg_bytes (fy_req y 0)"

definition fy_kind :: "fp_system \<Rightarrow> fp_kind" where
  "fy_kind y = rq_kind (fy_req y 0)"

definition apart :: "nat \<Rightarrow> nat \<Rightarrow> nat \<Rightarrow> nat \<Rightarrow> bool" where
  "apart a m b n \<longleftrightarrow> a + m \<le> b \<or> b + n \<le> a"

text \<open>
  Where the buffers of a rank may lie: result and input apart, or in place as each collective
  defines it. AllReduce has to be out of place.
\<close>

definition placed :: "fp_system \<Rightarrow> int \<Rightarrow> bool" where
  "placed y r \<longleftrightarrow> (let send = rq_send (fy_req y r); recv = rq_recv (fy_req y r); seg = fy_seg y in
     send + nat (fy_n y) * seg < two64 \<and> recv + nat (fy_n y) * seg < two64 \<and>
     (case fy_kind y of
        FpAllGather \<Rightarrow> send = recv + nat r * seg \<or> apart recv (nat (fy_n y) * seg) send seg
      | FpAllReduce \<Rightarrow> apart recv seg send seg
      | FpReduceScatter \<Rightarrow> True
      | FpBroadcast \<Rightarrow> send = recv \<or> apart recv seg send seg))"

definition same_request :: "fp_request \<Rightarrow> fp_request \<Rightarrow> bool" where
  "same_request a b \<longleftrightarrow> rq_kind a = rq_kind b \<and> rq_seg_count a = rq_seg_count b \<and> rq_elem a = rq_elem b \<and>
     rq_root a = rq_root b \<and> rq_scalar a = rq_scalar b \<and> rq_op a = rq_op b"

text \<open>
  All ranks execute the same request, each with its own buffers; the process state resolves
  the input of another rank to the buffer of this request or to null, and the staging and
  scratch buffers exist.
\<close>

definition fy_rank_ok :: "fp_system \<Rightarrow> int \<Rightarrow> bool" where
  "fy_rank_ok y r \<longleftrightarrow>
     fe_rank (fy_env y r) = r \<and> fe_world (fy_env y r) = fy_n y \<and>
     fe_comm (fy_env y r) = fe_comm (fy_env y 0) \<and> fe_topology (fy_env y r) = fe_topology (fy_env y 0) \<and>
     canHandle True (fy_env y r) (fy_req y r) 0 \<and> same_request (fy_req y r) (fy_req y 0) \<and>
     slot_args_ok (fy_comm y r) r (fy_slot y) \<and> fy_slot y < fe_depth (fy_env y r) \<and>
     fe_scratch (fy_env y r) (fy_slot y) \<and>
     (\<forall>s. is_rank y s \<longrightarrow> fe_staging (fy_env y r) s \<and> fe_remote (fy_env y r) s \<in> {0, rq_send (fy_req y s)}) \<and>
     placed y r"

definition fy_ok :: "fp_system \<Rightarrow> bool" where
  "fy_ok y \<longleftrightarrow> 1 < fy_n y \<and> 0 < fy_seg y \<and> 0 < fy_seq y \<and> (\<forall>r. is_rank y r \<longrightarrow> fy_rank_ok y r) \<and>
     (\<forall>ty op xs zs. length (fy_kernel y ty op xs zs) = length xs)"

definition lad :: "fp_system \<Rightarrow> int \<Rightarrow> bool" where
  "lad y r \<longleftrightarrow> localNeedsAllDirectSources (fy_env y r) (fy_req y r)"

definition topo_direct :: "fp_system \<Rightarrow> bool" where
  "topo_direct y \<longleftrightarrow> collectiveTopologyCanAllDirect (fy_env y 0) (fy_req y 0)"

definition all_direct :: "fp_system \<Rightarrow> bool" where
  "all_direct y \<longleftrightarrow> topo_direct y \<and> (\<forall>p. is_rank y p \<longrightarrow> lad y p)"

definition may_direct :: "fp_system \<Rightarrow> int \<Rightarrow> bool" where
  "may_direct y r \<longleftrightarrow> remote_direct_allowed (fy_env y r) (fy_req y r) (all_direct y)"

text \<open>The reply each call gets when nothing fails.\<close>

fun good_reply :: "fp_system \<Rightarrow> int \<Rightarrow> fp_call \<Rightarrow> nat" where
  "good_reply y r (AskRemote s) = fe_remote (fy_env y r) s"
| "good_reply y r (WaitStatus p slot seq) = (if lad y p then 1 else 0)"
| "good_reply y r (PublishReady slot seq) = 0"
| "good_reply y r (PublishDirect slot seq b) = 0"
| "good_reply y r (PublishStage slot seq) = 0"
| "good_reply y r _ = 1"

definition fy_prog :: "fp_system \<Rightarrow> int \<Rightarrow> pccl_result fp_prog" where
  "fy_prog y r = execute (fy_env y r) (fy_req y r) (fy_slot y) (fy_seq y)"

definition script :: "fp_system \<Rightarrow> int \<Rightarrow> fp_call list" where
  "script y r = calls (good_reply y r) (fy_prog y r)"

section \<open>Basic facts\<close>

lemma fy_rank:
  assumes "fy_ok y" "is_rank y r"
  shows "fe_rank (fy_env y r) = r" "fe_world (fy_env y r) = fy_n y" "fp_ranks (fy_env y r) = [0..fy_n y - 1]"
    "fe_topology (fy_env y r) = fe_topology (fy_env y 0)" "rq_kind (fy_req y r) = fy_kind y"
    "fp_seg_bytes (fy_req y r) = fy_seg y" "rq_root (fy_req y r) = rq_root (fy_req y 0)"
    "rq_scalar (fy_req y r) = rq_scalar (fy_req y 0)" "rq_op (fy_req y r) = rq_op (fy_req y 0)"
  using assms by (simp_all add: fy_ok_def fy_rank_ok_def fp_ranks_def same_request_def fy_kind_def fy_seg_def fp_seg_bytes_def)

lemma fy_staging: "fy_ok y \<Longrightarrow> is_rank y r \<Longrightarrow> is_rank y s \<Longrightarrow> fe_staging (fy_env y r) s"
  by (simp add: fy_ok_def fy_rank_ok_def)

lemma fy_remote: "fy_ok y \<Longrightarrow> is_rank y r \<Longrightarrow> is_rank y s \<Longrightarrow> fe_remote (fy_env y r) s \<noteq> 0 \<Longrightarrow>
    fe_remote (fy_env y r) s = rq_send (fy_req y s)"
  using singletonD by (fastforce simp: fy_ok_def fy_rank_ok_def)

lemma fy_scratch: "fy_ok y \<Longrightarrow> is_rank y r \<Longrightarrow>
    0 \<le> fy_slot y \<and> fy_slot y < fe_depth (fy_env y r) \<and> fe_scratch (fy_env y r) (fy_slot y)"
  by (simp add: fy_ok_def fy_rank_ok_def slot_args_ok_def)

lemma fy_placed: "fy_ok y \<Longrightarrow> is_rank y r \<Longrightarrow> placed y r"
  by (simp add: fy_ok_def fy_rank_ok_def)

lemma fy_handled: "fy_ok y \<Longrightarrow> is_rank y r \<Longrightarrow> canHandle True (fy_env y r) (fy_req y r) 0"
  by (simp add: fy_ok_def fy_rank_ok_def)

lemma handled_facts:
  assumes "canHandle True env req 0"
  shows "rq_send req \<noteq> 0" "rq_recv req \<noteq> 0" "fp_seg_bytes req \<le> fe_threshold env" "logicalBytes req < fe_threshold env"
    "rq_kind req = FpAllReduce \<Longrightarrow> collectiveTopologyCanAllDirect env req"
    "rq_kind req = FpReduceScatter \<Longrightarrow> rq_send_segs req = fe_world env \<and> rq_recv_segs req = 1 \<and>
       (byteRangesOverlap (rq_send req) (mul64 (fp_seg_bytes req) (int_to_size (fe_world env)))
            (rq_recv req) (fp_seg_bytes req) \<longrightarrow>
          rq_recv req = add64 (rq_send req) (mul64 (int_to_size (fe_rank env)) (fp_seg_bytes req)))"
    "rq_kind req = FpBroadcast \<Longrightarrow> 0 \<le> rq_root req \<and> rq_root req < fe_world env"
    "fe_world env \<le> MAX_RANKS"
  using assms by (auto simp: canHandle_def split: if_splits fp_kind.splits)

lemma rank_0: "fy_ok y \<Longrightarrow> is_rank y 0"
  by (simp add: fy_ok_def is_rank_def)

lemma in_ranks [simp]: "r \<in> set [0..fy_n y - 1] \<longleftrightarrow> is_rank y r"
  by (auto simp: is_rank_def)

lemma topo_same:
  assumes "fy_ok y" "is_rank y r"
  shows "collectiveTopologyCanAllDirect (fy_env y r) (fy_req y r) = topo_direct y"
  using fy_rank[OF assms] fy_rank[OF assms(1) rank_0[OF assms(1)]]
  unfolding topo_direct_def collectiveTopologyCanAllDirect_def pairDirectAllowed_def source_needed_def by simp

lemma allreduce_topo: "fy_ok y \<Longrightarrow> fy_kind y = FpAllReduce \<Longrightarrow> topo_direct y"
  using handled_facts(5)[OF fy_handled[OF _ rank_0]] by (simp add: topo_direct_def fy_kind_def)

section \<open>The source of a rank\<close>

definition reads_direct :: "fp_system \<Rightarrow> int \<Rightarrow> int \<Rightarrow> bool" where
  "reads_direct y r s \<longleftrightarrow> may_direct y r \<and> fe_ipc (fy_env y r) \<and> peerDirectAllowed (fy_env y r) s \<and>
     fe_ipc_ready (fy_env y r) s \<and> fe_remote (fy_env y r) s \<noteq> 0"

definition source_loc :: "fp_system \<Rightarrow> int \<Rightarrow> int \<Rightarrow> fp_loc" where
  "source_loc y r s = (if s = r \<or> reads_direct y r s then Dev s (rq_send (fy_req y s)) else Staged s 0)"

definition source_calls :: "fp_system \<Rightarrow> int \<Rightarrow> int \<Rightarrow> fp_call list" where
  "source_calls y r s = (if s = r then []
     else WaitPeerReady s (fy_slot y) (fy_seq y) #
       (if may_direct y r \<and> fe_ipc (fy_env y r) \<and> peerDirectAllowed (fy_env y r) s \<and> fe_ipc_ready (fy_env y r) s
        then AskRemote s # (if fe_remote (fy_env y r) s \<noteq> 0 then [] else [WaitPeerStage s (fy_slot y) (fy_seq y)])
        else [WaitPeerStage s (fy_slot y) (fy_seq y)]))"

lemma source_info:
  assumes "fy_ok y" "is_rank y r" "is_rank y s"
  shows "calls (good_reply y r) (buildSourceInfo (fy_env y r) (fy_req y r) s (fy_slot y) (fy_seq y) (may_direct y r)) =
      source_calls y r s"
    "outcome (good_reply y r) (buildSourceInfo (fy_env y r) (fy_req y r) s (fy_slot y) (fy_seq y) (may_direct y r)) =
      Inr (source_loc y r s)"
  using assms fy_rank[OF assms(1,2)] fy_staging[OF assms] fy_remote[OF assms]
  by (auto simp: buildSourceInfo_def waitForFastpathReady_def waitForFastpathStage_def source_calls_def source_loc_def
    reads_direct_def calls_andthen outcome_andthen call_or_calls Let_def)

lemma with_source_calls:
  assumes "outcome ok p = Inr src"
  shows "calls ok (with_source p f) = calls ok p @ calls ok (f src)" "outcome ok (with_source p f) = outcome ok (f src)"
  using assms by (simp_all add: with_source_def calls_andthen outcome_andthen)

definition is_error :: "pccl_result + 'a \<Rightarrow> bool" where
  "is_error r \<longleftrightarrow> (\<exists>e. r = Inl e \<and> e \<noteq> pcclSuccess)"

lemma strict_source:
  "strict ok is_error (buildSourceInfo env req s slot seq allow)"
proof -
  have w: "strict ok failed (waitForFastpathReady env s slot seq)" "strict ok failed (waitForFastpathStage env s slot seq)"
    by (auto simp: waitForFastpathReady_def waitForFastpathStage_def intro!: strict_call)
  have st: "strict ok is_error (andthen (waitForFastpathStage env s slot seq) (\<lambda>r.
      if r \<noteq> pcclSuccess then Ret (Inl pcclTimeout)
      else if fe_staging env s then Ret (Inr (Staged s 0)) else Ret (Inl pcclInternalError)))"
    by (rule strict_andthen[OF w(2)]) (auto simp: is_error_def)
  show ?thesis unfolding buildSourceInfo_def
    by (rule strict_andthen[OF w(1)]) (use st in \<open>auto simp: is_error_def Let_def\<close>)
qed

lemma strict_with_source:
  assumes "strict ok is_error p" "\<And>src. strict ok failed (f src)"
  shows "strict ok failed (with_source p f)"
  unfolding with_source_def by (rule strict_andthen[OF assms(1)]) (use assms(2) in \<open>auto simp: is_error_def split: sum.splits\<close>)


section \<open>The calls of a program\<close>

definition mode_calls :: "fp_system \<Rightarrow> int \<Rightarrow> fp_call list" where
  "mode_calls y r = (if topo_direct y then PublishDirect (fy_slot y) (fy_seq y) (lad y r) #
     map (\<lambda>p. WaitStatus p (fy_slot y) (fy_seq y)) [0..fy_n y - 1] else [])"

definition stages :: "fp_system \<Rightarrow> int \<Rightarrow> bool" where
  "stages y r \<longleftrightarrow> \<not> all_direct y \<and> localSourceNeededByAnyRank (fy_env y r) (fy_req y r)"

definition stage_bytes :: "fp_system \<Rightarrow> nat" where
  "stage_bytes y = (if fy_kind y = FpReduceScatter then fy_seg y * nat (fy_n y) else fy_seg y)"

definition stage_copy :: "fp_system \<Rightarrow> int \<Rightarrow> fp_work" where
  "stage_copy y r = FpCopy (Staged r 0) (Dev r (rq_send (fy_req y r))) (stage_bytes y)"

definition stage_calls :: "fp_system \<Rightarrow> int \<Rightarrow> fp_call list" where
  "stage_calls y r = (if stages y r then [Enqueue LaneD2H (stage_copy y r), RecordLane LaneD2H, WaitLane LaneD2H] else []) @
     [PublishStage (fy_slot y) (fy_seq y)]"

definition result_loc :: "fp_system \<Rightarrow> int \<Rightarrow> fp_loc" where
  "result_loc y r = Dev r (rq_recv (fy_req y r))"

definition reduce_calls :: "fp_system \<Rightarrow> int \<Rightarrow> nat \<Rightarrow> int \<Rightarrow> fp_call list" where
  "reduce_calls y r off s = source_calls y r s @
     [Enqueue LaneReduce (FpCopy (Scratch r (fy_slot y) 0) (loc_plus (source_loc y r s) off) (fy_seg y)),
      Enqueue LaneReduce (FpReduce (result_loc y r) (Scratch r (fy_slot y) 0) (fy_seg y)
        (rq_scalar (fy_req y 0)) (rq_op (fy_req y 0)))]"

definition gather_calls :: "fp_system \<Rightarrow> int \<Rightarrow> int \<Rightarrow> fp_call list" where
  "gather_calls y r s = source_calls y r s @
     (if source_loc y r s = loc_plus (result_loc y r) (nat s * fy_seg y) then []
      else [Enqueue LaneD2D (FpCopy (loc_plus (result_loc y r) (nat s * fy_seg y)) (source_loc y r s) (fy_seg y))])"

definition seed_of :: "int \<Rightarrow> int" where
  "seed_of r = (if r = 0 then 1 else 0)"

definition sum_calls :: "fp_system \<Rightarrow> int \<Rightarrow> int \<Rightarrow> fp_call list" where
  "sum_calls y r s = (if s = seed_of r then []
     else if s = r then [Enqueue LaneReduce (FpReduce (result_loc y r) (Dev r (rq_send (fy_req y r))) (fy_seg y)
        (rq_scalar (fy_req y 0)) (rq_op (fy_req y 0)))]
     else reduce_calls y r 0 s)"

definition part_offset :: "fp_system \<Rightarrow> int \<Rightarrow> nat" where
  "part_offset y r = nat r * fy_seg y"

definition main_calls :: "fp_system \<Rightarrow> int \<Rightarrow> fp_call list" where
  "main_calls y r = (case fy_kind y of
       FpAllGather \<Rightarrow> concat (map (gather_calls y r) [0..fy_n y - 1]) @ [SyncLane LaneD2D]
     | FpBroadcast \<Rightarrow> source_calls y r (rq_root (fy_req y 0)) @
         (if source_loc y r (rq_root (fy_req y 0)) = result_loc y r then []
          else [Enqueue LaneD2D (FpCopy (result_loc y r) (source_loc y r (rq_root (fy_req y 0))) (fy_seg y)),
                SyncLane LaneD2D])
     | FpAllReduce \<Rightarrow> source_calls y r (seed_of r) @
         [Enqueue LaneReduce (FpCopy (result_loc y r) (source_loc y r (seed_of r)) (fy_seg y))] @
         concat (map (sum_calls y r) [0..fy_n y - 1]) @ [SyncLane LaneReduce]
     | FpReduceScatter \<Rightarrow>
         (if rq_send (fy_req y r) + part_offset y r = rq_recv (fy_req y r) then []
          else [Enqueue LaneReduce (FpCopy (result_loc y r) (Dev r (rq_send (fy_req y r) + part_offset y r)) (fy_seg y))]) @
         concat (map (\<lambda>s. if s = r then [] else reduce_calls y r (part_offset y r) s) [0..fy_n y - 1]) @
         [SyncLane LaneReduce])"

lemma resolve_calls:
  shows "calls (good_reply y r) (resolve_direct slot seq b ps) = map (\<lambda>p. WaitStatus p slot seq) ps"
    "outcome (good_reply y r) (resolve_direct slot seq b ps) = Inr (b \<and> (\<forall>p \<in> set ps. lad y p))"
    "strict (good_reply y r) is_error (resolve_direct slot seq b ps)"
  by (induction ps arbitrary: b) (auto simp: is_error_def)

lemma mode_info:
  assumes "fy_ok y" "is_rank y r"
  shows "calls (good_reply y r) (publishAndResolveDirectMode (fy_env y r) (fy_req y r) (fy_slot y) (fy_seq y)) = mode_calls y r"
    "outcome (good_reply y r) (publishAndResolveDirectMode (fy_env y r) (fy_req y r) (fy_slot y) (fy_seq y)) = Inr (all_direct y)"
    "strict (good_reply y r) is_error (publishAndResolveDirectMode (fy_env y r) (fy_req y r) (fy_slot y) (fy_seq y))"
proof -
  have a: "(\<forall>p \<in> set [0..fy_n y - 1]. lad y p) = (\<forall>p. is_rank y p \<longrightarrow> lad y p)" by (auto simp: is_rank_def)
  have l: "localNeedsAllDirectSources (fy_env y r) (fy_req y r) = lad y r" by (simp add: lad_def)
  show "calls (good_reply y r) (publishAndResolveDirectMode (fy_env y r) (fy_req y r) (fy_slot y) (fy_seq y)) = mode_calls y r"
    "outcome (good_reply y r) (publishAndResolveDirectMode (fy_env y r) (fy_req y r) (fy_slot y) (fy_seq y)) = Inr (all_direct y)"
    "strict (good_reply y r) is_error (publishAndResolveDirectMode (fy_env y r) (fy_req y r) (fy_slot y) (fy_seq y))"
    unfolding publishAndResolveDirectMode_def topo_same[OF assms] fy_rank(3)[OF assms] l
    by (simp_all add: resolve_calls a mode_calls_def all_direct_def del: set_upto)
qed

lemma stage_size:
  assumes "fy_ok y" "is_rank y r"
  shows "(if rq_kind (fy_req y r) = FpReduceScatter then mul64 (fp_seg_bytes (fy_req y r)) (int_to_size (fe_world (fy_env y r)))
      else fp_seg_bytes (fy_req y r)) = stage_bytes y"
    "0 < stage_bytes y" "stage_bytes y \<le> fe_threshold (fy_env y r)"
proof -
  note h = handled_facts[OF fy_handled[OF assms]]
  have n: "1 < fy_n y" "0 < fy_seg y" using assms(1) by (simp_all add: fy_ok_def)
  have m: "int_to_size (fy_n y) = nat (fy_n y)" using n(1) h(8) fy_rank(2)[OF assms] by (simp add: MAX_RANKS_def)
  have b: "fy_seg y * nat (fy_n y) < two64"
    using fy_placed[OF assms] by (auto simp: placed_def Let_def mult.commute)
  show k: "(if rq_kind (fy_req y r) = FpReduceScatter then mul64 (fp_seg_bytes (fy_req y r)) (int_to_size (fe_world (fy_env y r)))
      else fp_seg_bytes (fy_req y r)) = stage_bytes y"
    using fy_rank[OF assms] m b by (simp add: stage_bytes_def mul64_def)
  show "0 < stage_bytes y" using n by (simp add: stage_bytes_def)
  show "stage_bytes y \<le> fe_threshold (fy_env y r)"
  proof (cases "fy_kind y = FpReduceScatter")
    case True
    have "max (rq_send_segs (fy_req y r)) (rq_recv_segs (fy_req y r)) = fy_n y"
      using h(6) True fy_rank[OF assms] n(1) by simp
    then have "logicalBytes (fy_req y r) = fy_seg y * nat (fy_n y)"
      unfolding logicalBytes_def using m b fy_rank(6)[OF assms] by (simp add: fp_seg_bytes_def mul64_def)
    then show ?thesis using h(4) True by (simp add: stage_bytes_def)
  next
    case False
    then show ?thesis using h(3) fy_rank(6)[OF assms] by (simp add: stage_bytes_def)
  qed
qed


lemma stage_info:
  assumes "fy_ok y" "is_rank y r"
  defines "p \<equiv> (if \<not> all_direct y then stageLocalSource (fy_env y r) (fy_req y r) (fy_slot y) (fy_seq y)
      else do_call (PublishStage (fy_slot y) (fy_seq y)))"
  shows "calls (good_reply y r) p = stage_calls y r" "outcome (good_reply y r) p = pcclSuccess"
    "strict (good_reply y r) failed p"
proof -
  note b = stage_size[OF assms(1,2)]
  have c: "stageLocalSource (fy_env y r) (fy_req y r) (fy_slot y) (fy_seq y) =
     (if \<not> localSourceNeededByAnyRank (fy_env y r) (fy_req y r) then do_call (PublishStage (fy_slot y) (fy_seq y))
      else unless_failed (call_or pcclDeviceError (Enqueue LaneD2H (stage_copy y r)))
               (unless_failed (call_or pcclDeviceError (RecordLane LaneD2H))
               (unless_failed (waitEvent LaneD2H) (do_call (PublishStage (fy_slot y) (fy_seq y))))))"
    unfolding stageLocalSource_def b(1) stage_copy_def fy_rank(1)[OF assms(1,2)]
    using b(2,3) fy_staging[OF assms(1,2,2)] by (simp add: Let_def)
  have w: "calls (good_reply y r) (waitEvent LaneD2H) = [WaitLane LaneD2H]"
    "outcome (good_reply y r) (waitEvent LaneD2H) = pcclSuccess" "strict (good_reply y r) failed (waitEvent LaneD2H)"
    by (simp_all add: waitEvent_def)
  show "calls (good_reply y r) p = stage_calls y r" "outcome (good_reply y r) p = pcclSuccess"
    unfolding p_def c by (auto simp: stage_calls_def stages_def calls_unless_failed outcome_unless_failed call_or_calls w)
  show "strict (good_reply y r) failed p"
    unfolding p_def c using w(3) by (auto intro!: strict_unless_failed strict_call strict_do_call)
qed

lemma copy_info:
  assumes "0 < n"
  shows "calls ok (copySourceToDevice src dst n lane) = [Enqueue lane (FpCopy dst src n)]"
    "ok (Enqueue lane (FpCopy dst src n)) = 1 \<Longrightarrow> outcome ok (copySourceToDevice src dst n lane) = pcclSuccess"
    "strict ok failed (copySourceToDevice src dst n lane)"
  using assms by (auto simp: copySourceToDevice_def call_or_calls intro!: strict_call)

lemma reduce_info:
  assumes "fy_ok y" "is_rank y r"
  shows "calls (good_reply y r) (reduce_into (fy_req y r) d src) =
      [Enqueue LaneReduce (FpReduce d src (fy_seg y) (rq_scalar (fy_req y 0)) (rq_op (fy_req y 0)))]"
    "outcome (good_reply y r) (reduce_into (fy_req y r) d src) = pcclSuccess"
    "strict (good_reply y r) failed (reduce_into (fy_req y r) d src)"
  using fy_rank[OF assms] by (auto simp: reduce_into_def call_or_calls intro!: strict_call)

lemma reduce_source_info:
  fixes off :: nat
  assumes "fy_ok y" "is_rank y r" "is_rank y s"
  defines "p \<equiv> reduce_source (fy_env y r) (fy_req y r) (fy_slot y) (fy_seq y) (may_direct y r) off s"
  shows "calls (good_reply y r) p = reduce_calls y r off s" "outcome (good_reply y r) p = pcclSuccess"
    "strict (good_reply y r) failed p"
proof -
  note si = source_info[OF assms(1-3)] and w = with_source_calls[OF source_info(2)[OF assms(1-3)]]
  have sc: "0 \<le> fy_slot y \<and> fy_slot y < fe_depth (fy_env y r) \<and> fe_scratch (fy_env y r) (fy_slot y)"
    by (rule fy_scratch[OF assms(1,2)])
  have n: "0 < fy_seg y" using assms(1) by (simp add: fy_ok_def)
  note r = fy_rank[OF assms(1,2)] and c = copy_info[OF n] and ri = reduce_info[OF assms(1,2)]
  show "calls (good_reply y r) p = reduce_calls y r off s" "outcome (good_reply y r) p = pcclSuccess"
    unfolding p_def reduce_source_def w si using sc
    by (simp_all add: r c ri calls_unless_failed outcome_unless_failed reduce_calls_def result_loc_def)
  show "strict (good_reply y r) failed p"
    unfolding p_def reduce_source_def
    by (rule strict_with_source[OF strict_source]) (use c ri r in \<open>auto intro!: strict_unless_failed\<close>)
qed

lemma seed_is:
  assumes "fy_ok y" "is_rank y r" "rq_send (fy_req y r) \<noteq> rq_recv (fy_req y r)"
  shows "seed_source (fy_env y r) (fy_req y r) = seed_of r" "is_rank y (seed_of r)"
proof -
  have n: "1 < fy_n y" using assms(1) by (simp add: fy_ok_def)
  then have "[0..fy_n y - 1] = 0 # 1 # [2..fy_n y - 1]" by (simp add: upto.simps)
  then show "seed_source (fy_env y r) (fy_req y r) = seed_of r"
    using fy_rank[OF assms(1,2)] assms(3) n by (simp add: seed_source_def seed_of_def)
  show "is_rank y (seed_of r)" using n by (simp add: seed_of_def is_rank_def)
qed

lemma fy_ranks_mem: "s \<in> set [0..fy_n y - 1] \<Longrightarrow> is_rank y s"
  by (auto simp: is_rank_def)

lemma gather_info:
  assumes "fy_ok y" "is_rank y r" "fy_kind y = FpAllGather"
  defines "p \<equiv> run_collective (fy_env y r) (fy_req y r) (fy_slot y) (fy_seq y) (may_direct y r)"
  shows "calls (good_reply y r) p = main_calls y r" "outcome (good_reply y r) p = pcclSuccess"
    "strict (good_reply y r) failed p"
proof -
  note r = fy_rank[OF assms(1,2)]
  have n: "0 < fy_seg y" using assms(1) by (simp add: fy_ok_def)
  note c = copy_info[OF n]
  define f where "f = (\<lambda>source. with_source (buildSourceInfo (fy_env y r) (fy_req y r) source (fy_slot y) (fy_seq y) (may_direct y r)) (\<lambda>src.
          (let dst = Dev r (rq_recv (fy_req y r) + nat source * fy_seg y)
           in if src \<noteq> dst then copySourceToDevice src dst (fy_seg y) LaneD2D else Ret pcclSuccess)))"
  have p: "p = unless_failed (for_sources f [0..fy_n y - 1]) (synchronizeStream LaneD2D)"
    unfolding p_def run_collective_def executeAllGather_def r f_def using assms(3) by simp
  have fo: "outcome (good_reply y r) (f s) = pcclSuccess" "calls (good_reply y r) (f s) = gather_calls y r s"
    if "s \<in> set [0..fy_n y - 1]" for s
    using source_info[OF assms(1,2) fy_ranks_mem[OF that]] c
    unfolding f_def by (simp_all add: with_source_calls gather_calls_def Let_def result_loc_def)
  have fs: "calls (good_reply y r) (for_sources f [0..fy_n y - 1]) = concat (map (gather_calls y r) [0..fy_n y - 1]) \<and>
      outcome (good_reply y r) (for_sources f [0..fy_n y - 1]) = pcclSuccess"
    by (rule for_sources_calls) (rule fo, assumption)+
  show "calls (good_reply y r) p = main_calls y r" "outcome (good_reply y r) p = pcclSuccess"
    unfolding p calls_unless_failed outcome_unless_failed using fs
      assms(3) by (simp_all add: synchronizeStream_def call_or_calls main_calls_def)
  show "strict (good_reply y r) failed p" unfolding p
  proof (intro strict_unless_failed strict_for_sources)
    fix s show "strict (good_reply y r) failed (f s)" unfolding f_def
      by (rule strict_with_source[OF strict_source]) (use c in \<open>simp add: Let_def\<close>)
    show "strict (good_reply y r) failed (synchronizeStream LaneD2D)"
      by (auto simp: synchronizeStream_def intro!: strict_call)
  qed
qed


lemma broadcast_info:
  assumes "fy_ok y" "is_rank y r" "fy_kind y = FpBroadcast"
  defines "p \<equiv> run_collective (fy_env y r) (fy_req y r) (fy_slot y) (fy_seq y) (may_direct y r)"
  shows "calls (good_reply y r) p = main_calls y r" "outcome (good_reply y r) p = pcclSuccess"
    "strict (good_reply y r) failed p"
proof -
  note r = fy_rank[OF assms(1,2)]
  have n: "0 < fy_seg y" using assms(1) by (simp add: fy_ok_def)
  note c = copy_info[OF n]
  have k: "rq_kind (fy_req y r) = FpBroadcast" using r(5) assms(3) by simp
  have root: "is_rank y (rq_root (fy_req y 0))"
    using handled_facts(7)[OF fy_handled[OF assms(1,2)] k] r by (simp add: is_rank_def)
  note si = source_info[OF assms(1,2) root] and w = with_source_calls[OF source_info(2)[OF assms(1,2) root]]
  have p: "p = executeBroadcast (fy_env y r) (fy_req y r) (fy_slot y) (fy_seq y) (may_direct y r)"
    unfolding p_def run_collective_def by (simp add: k)
  have sy: "strict (good_reply y r) failed (synchronizeStream LaneD2D)"
    by (auto simp: synchronizeStream_def intro!: strict_call)
  show "calls (good_reply y r) p = main_calls y r" "outcome (good_reply y r) p = pcclSuccess"
    unfolding p executeBroadcast_def r w si
    using assms(3) by (simp_all add: calls_unless_failed outcome_unless_failed c synchronizeStream_def call_or_calls
      main_calls_def result_loc_def)
  show "strict (good_reply y r) failed p" unfolding p executeBroadcast_def
    by (rule strict_with_source[OF strict_source]) (use c sy r in \<open>auto intro!: strict_unless_failed\<close>)
qed

lemma allreduce_info:
  assumes "fy_ok y" "is_rank y r" "fy_kind y = FpAllReduce"
  defines "p \<equiv> run_collective (fy_env y r) (fy_req y r) (fy_slot y) (fy_seq y) (may_direct y r)"
  shows "calls (good_reply y r) p = main_calls y r" "outcome (good_reply y r) p = pcclSuccess"
    "strict (good_reply y r) failed p"
proof -
  note r = fy_rank[OF assms(1,2)]
  have n: "0 < fy_seg y" "1 < fy_n y" using assms(1) by (simp_all add: fy_ok_def)
  note c = copy_info[OF n(1)] and ri = reduce_info[OF assms(1,2)]
  have k: "rq_kind (fy_req y r) = FpAllReduce" using r(5) assms(3) by simp
  have ne: "rq_send (fy_req y r) \<noteq> rq_recv (fy_req y r)"
    using fy_placed[OF assms(1,2)] assms(3) n(1) by (auto simp: placed_def Let_def apart_def)
  note sd = seed_is[OF assms(1,2) ne]
  note si = source_info[OF assms(1,2) sd(2)] and w = with_source_calls[OF source_info(2)[OF assms(1,2) sd(2)]]
  define f where "f = (\<lambda>source.
      if source = seed_of r then Ret pcclSuccess
      else if source = r then reduce_into (fy_req y r) (result_loc y r) (Dev r (rq_send (fy_req y r)))
      else reduce_source (fy_env y r) (fy_req y r) (fy_slot y) (fy_seq y) (may_direct y r) 0 source)"
  define q where "q = with_source (buildSourceInfo (fy_env y r) (fy_req y r) (seed_of r) (fy_slot y) (fy_seq y) (may_direct y r))
     (\<lambda>src. copySourceToDevice src (result_loc y r) (fy_seg y) LaneReduce)"
  have p: "p = unless_failed q (unless_failed (for_sources f [0..fy_n y - 1]) (synchronizeStream LaneReduce))"
    unfolding p_def run_collective_def executeAllReduce_def f_def q_def sd r Let_def using k assms(3) ne n
    by (simp add: result_loc_def cong: if_cong)
  have q1: "calls (good_reply y r) q = source_calls y r (seed_of r) @
      [Enqueue LaneReduce (FpCopy (result_loc y r) (source_loc y r (seed_of r)) (fy_seg y))]"
    "outcome (good_reply y r) q = pcclSuccess"
    unfolding q_def w si by (simp_all add: c)
  have q2: "strict (good_reply y r) failed q"
    unfolding q_def by (rule strict_with_source[OF strict_source]) (rule c(3))
  have fo: "outcome (good_reply y r) (f s) = pcclSuccess" "calls (good_reply y r) (f s) = sum_calls y r s"
    "strict (good_reply y r) failed (f s)"
    if "s \<in> set [0..fy_n y - 1]" for s
    using reduce_source_info[OF assms(1,2) fy_ranks_mem[OF that]] ri unfolding f_def by (simp_all add: sum_calls_def)
  have fs: "calls (good_reply y r) (for_sources f [0..fy_n y - 1]) = concat (map (sum_calls y r) [0..fy_n y - 1]) \<and>
      outcome (good_reply y r) (for_sources f [0..fy_n y - 1]) = pcclSuccess"
    by (rule for_sources_calls) (rule fo, assumption)+
  show "calls (good_reply y r) p = main_calls y r" "outcome (good_reply y r) p = pcclSuccess"
    unfolding p calls_unless_failed outcome_unless_failed using fs q1 assms(3)
    by (simp_all add: synchronizeStream_def call_or_calls main_calls_def)
  show "strict (good_reply y r) failed p" unfolding p
    using q2 fo(3) by (auto intro!: strict_unless_failed strict_for_sources strict_call simp: synchronizeStream_def simp del: set_upto)
qed

lemma scatter_info:
  assumes "fy_ok y" "is_rank y r" "fy_kind y = FpReduceScatter"
  defines "p \<equiv> run_collective (fy_env y r) (fy_req y r) (fy_slot y) (fy_seq y) (may_direct y r)"
  shows "calls (good_reply y r) p = main_calls y r" "outcome (good_reply y r) p = pcclSuccess"
    "strict (good_reply y r) failed p"
proof -
  note r = fy_rank[OF assms(1,2)]
  have k: "rq_kind (fy_req y r) = FpReduceScatter" using r(5) assms(3) by simp
  define f where "f = (\<lambda>source. if source = r then Ret pcclSuccess
      else reduce_source (fy_env y r) (fy_req y r) (fy_slot y) (fy_seq y) (may_direct y r) (part_offset y r) source)"
  define q where "q = (if rq_send (fy_req y r) + part_offset y r \<noteq> rq_recv (fy_req y r) then
      call_or pcclDeviceError (Enqueue LaneReduce (FpCopy (result_loc y r) (Dev r (rq_send (fy_req y r) + part_offset y r)) (fy_seg y)))
      else Ret pcclSuccess)"
  have p: "p = unless_failed q (unless_failed (for_sources f [0..fy_n y - 1]) (synchronizeStream LaneReduce))"
    unfolding p_def run_collective_def executeReduceScatter_def f_def q_def r Let_def using k assms(3)
    by (simp add: result_loc_def part_offset_def cong: if_cong)
  have fo: "outcome (good_reply y r) (f s) = pcclSuccess"
    "calls (good_reply y r) (f s) = (if s = r then [] else reduce_calls y r (part_offset y r) s)"
    "strict (good_reply y r) failed (f s)"
    if "s \<in> set [0..fy_n y - 1]" for s
    using reduce_source_info[OF assms(1,2) fy_ranks_mem[OF that]] unfolding f_def by simp_all
  have fs: "calls (good_reply y r) (for_sources f [0..fy_n y - 1]) =
      concat (map (\<lambda>s. if s = r then [] else reduce_calls y r (part_offset y r) s) [0..fy_n y - 1]) \<and>
      outcome (good_reply y r) (for_sources f [0..fy_n y - 1]) = pcclSuccess"
    by (rule for_sources_calls) (rule fo, assumption)+
  show "calls (good_reply y r) p = main_calls y r" "outcome (good_reply y r) p = pcclSuccess"
    unfolding p calls_unless_failed outcome_unless_failed using fs assms(3)
    by (simp_all add: q_def synchronizeStream_def call_or_calls main_calls_def)
  show "strict (good_reply y r) failed p" unfolding p
    using fo(3) by (auto intro!: strict_unless_failed strict_for_sources strict_call simp: q_def synchronizeStream_def simp del: set_upto)
qed

lemma main_info:
  assumes "fy_ok y" "is_rank y r"
  defines "p \<equiv> run_collective (fy_env y r) (fy_req y r) (fy_slot y) (fy_seq y) (may_direct y r)"
  shows "calls (good_reply y r) p = main_calls y r" "outcome (good_reply y r) p = pcclSuccess"
    "strict (good_reply y r) failed p"
  unfolding p_def
  using gather_info[OF assms(1,2)] broadcast_info[OF assms(1,2)] allreduce_info[OF assms(1,2)] scatter_info[OF assms(1,2)]
  by (cases "fy_kind y"; simp)+

theorem script_calls:
  assumes "fy_ok y" "is_rank y r"
  shows "script y r = [WaitUserReady (fy_slot y) (fy_seq y), PublishReady (fy_slot y) (fy_seq y)] @
      mode_calls y r @ stage_calls y r @ main_calls y r @ [FpBarrier, Signal (fy_slot y) (fy_seq y)]"
    "outcome (good_reply y r) (fy_prog y r) = pcclSuccess"
    "strict (good_reply y r) failed (fy_prog y r)"
proof -
  define tail where "tail = unless_failed (run_collective (fy_env y r) (fy_req y r) (fy_slot y) (fy_seq y) (may_direct y r))
             (unless_failed (call_or pcclTimeout FpBarrier) (call_or pcclDeviceError (Signal (fy_slot y) (fy_seq y))))"
  define stage where "stage = (if \<not> all_direct y then stageLocalSource (fy_env y r) (fy_req y r) (fy_slot y) (fy_seq y)
      else do_call (PublishStage (fy_slot y) (fy_seq y)))"
  have z: "0 < fy_seg y" "fy_seg y \<le> fe_threshold (fy_env y r)"
    using assms(1) handled_facts(3)[OF fy_handled[OF assms]] fy_rank(6)[OF assms] by (auto simp: fy_ok_def)
  define mode where "mode = publishAndResolveDirectMode (fy_env y r) (fy_req y r) (fy_slot y) (fy_seq y)"
  define cont where "cont = (\<lambda>mode. case mode of Inl e \<Rightarrow> Ret e
          | Inr ad \<Rightarrow>
             unless_failed (if \<not> ad then stageLocalSource (fy_env y r) (fy_req y r) (fy_slot y) (fy_seq y)
               else do_call (PublishStage (fy_slot y) (fy_seq y)))
             (unless_failed (run_collective (fy_env y r) (fy_req y r) (fy_slot y) (fy_seq y)
                (remote_direct_allowed (fy_env y r) (fy_req y r) ad))
             (unless_failed (call_or pcclTimeout FpBarrier)
               (call_or pcclDeviceError (Signal (fy_slot y) (fy_seq y))))))"
  have e: "fy_prog y r = unless_failed (waitForUserReadyAndPublish (fy_slot y) (fy_seq y)) (andthen mode cont)"
    using z fy_rank(6)[OF assms] by (simp add: fy_prog_def execute_def mode_def cont_def)
  have ct: "cont (Inr (all_direct y)) = unless_failed stage tail"
    by (simp add: cont_def stage_def tail_def may_direct_def)
  note mi = mode_info[OF assms, folded mode_def] and st = stage_info[OF assms, folded stage_def] and ma = main_info[OF assms]
  show "script y r = [WaitUserReady (fy_slot y) (fy_seq y), PublishReady (fy_slot y) (fy_seq y)] @
      mode_calls y r @ stage_calls y r @ main_calls y r @ [FpBarrier, Signal (fy_slot y) (fy_seq y)]"
    "outcome (good_reply y r) (fy_prog y r) = pcclSuccess"
    unfolding script_def e calls_unless_failed outcome_unless_failed calls_andthen outcome_andthen mi ct tail_def ma st
    by (simp_all add: waitForUserReadyAndPublish_def calls_unless_failed outcome_unless_failed call_or_calls)
  have t: "strict (good_reply y r) failed tail" unfolding tail_def
    using ma(3) by (auto intro!: strict_unless_failed strict_call)
  have "strict (good_reply y r) failed (andthen mode cont)"
  proof (rule strict_andthen[OF mi(3)])
    show "strict (good_reply y r) failed (cont (outcome (good_reply y r) mode))"
      unfolding mi ct using st(3) t by (intro strict_unless_failed)
    fix v :: "pccl_result + bool" assume "is_error v"
    then show "\<exists>r'. cont v = Ret r' \<and> failed r'" by (auto simp: is_error_def cont_def)
  qed
  then show "strict (good_reply y r) failed (fy_prog y r)" unfolding e waitForUserReadyAndPublish_def
    by (auto intro!: strict_unless_failed strict_call strict_do_call)
qed

end
