(* ===== verification/FastPathWork.thy ===== *)
theory FastPathWork
  imports FastPathScript
begin

text \<open>
  The work of a program on its streams: the order of streams and waits in it, what it reads
  and what it writes, and what it computes when nobody interferes.
\<close>

section \<open>Order of the calls\<close>

text \<open>
  What may be outstanding on the streams of a rank: nothing, work on one lane, work on one lane
  that ends with a recorded event, or nothing for good (after the barrier).
\<close>

datatype lane_state = Idle | Busy fp_lane | Marked fp_lane | Final

fun lane_step :: "lane_state \<Rightarrow> fp_call \<Rightarrow> lane_state option" where
  "lane_step st (Enqueue l w) = (if st = Idle \<or> st = Busy l then Some (Busy l) else None)"
| "lane_step st (RecordLane l) = (if st = Idle \<or> st = Busy l then Some (Marked l) else None)"
| "lane_step st (WaitLane l) = (if st = Marked l then Some Idle else None)"
| "lane_step st (SyncLane l) = (if st = Idle \<or> st = Busy l then Some Idle else None)"
| "lane_step st (PublishStage slot seq) = (if st = Idle then Some Idle else None)"
| "lane_step st FpBarrier = (if st = Idle then Some Final else None)"
| "lane_step st _ = Some st"

fun run_lanes :: "lane_state \<Rightarrow> fp_call list \<Rightarrow> lane_state option" where
  "run_lanes st [] = Some st"
| "run_lanes st (c # cs) = (case lane_step st c of None \<Rightarrow> None | Some st' \<Rightarrow> run_lanes st' cs)"

lemma run_lanes_append:
  "run_lanes st (xs @ ys) = (case run_lanes st xs of None \<Rightarrow> None | Some st' \<Rightarrow> run_lanes st' ys)"
  by (induction xs arbitrary: st) (auto split: option.splits)

text \<open>
  A source is read after the calls that announce it: \<open>sig\<close> tells whom a call announces and
  \<open>need\<close> whose announcement a piece of work needs.
\<close>

fun source_of :: "fp_work \<Rightarrow> fp_loc option" where
  "source_of (FpCopy d s n) = Some s"
| "source_of (FpReduce d s n ty op) = Some s"
| "source_of FpMark = None"

fun ready_sig :: "fp_call \<Rightarrow> int option" where
  "ready_sig (WaitPeerReady s slot seq) = Some s"
| "ready_sig _ = None"

fun stage_sig :: "fp_call \<Rightarrow> int option" where
  "stage_sig (WaitPeerStage s slot seq) = Some s"
| "stage_sig _ = None"

definition reads_other :: "int \<Rightarrow> fp_work \<Rightarrow> int \<Rightarrow> bool" where
  "reads_other r w s \<longleftrightarrow> s \<noteq> r \<and> (\<exists>l. source_of w = Some l \<and> owner_of l = s)"

definition reads_staged :: "int \<Rightarrow> fp_work \<Rightarrow> int \<Rightarrow> bool" where
  "reads_staged r w s \<longleftrightarrow> s \<noteq> r \<and> (\<exists>a. source_of w = Some (Staged s a))"

fun guarded :: "(fp_call \<Rightarrow> int option) \<Rightarrow> (fp_work \<Rightarrow> int \<Rightarrow> bool) \<Rightarrow> int set \<Rightarrow> fp_call list \<Rightarrow> bool" where
  "guarded sig need S [] \<longleftrightarrow> True"
| "guarded sig need S (c # cs) \<longleftrightarrow>
     (case c of Enqueue l w \<Rightarrow> \<forall>s. need w s \<longrightarrow> s \<in> S | _ \<Rightarrow> True) \<and>
     guarded sig need (S \<union> set_option (sig c)) cs"

lemma guarded_mono: "guarded sig need S cs \<Longrightarrow> S \<subseteq> T \<Longrightarrow> guarded sig need T cs"
proof (induction cs arbitrary: S T)
  case (Cons c cs)
  have "guarded sig need (T \<union> set_option (sig c)) cs"
    by (rule Cons.IH[of "S \<union> set_option (sig c)"]) (use Cons.prems in auto)
  then show ?case using Cons.prems by (auto split: fp_call.splits)
qed simp

lemma guarded_append: "guarded sig need S xs \<Longrightarrow> guarded sig need {} ys \<Longrightarrow> guarded sig need S (xs @ ys)"
proof (induction xs arbitrary: S)
  case Nil
  then show ?case using guarded_mono[of sig need "{}" ys S] by simp
qed auto

lemma guarded_concat: "(\<And>xs. xs \<in> set xss \<Longrightarrow> guarded sig need {} xs) \<Longrightarrow> guarded sig need {} (concat xss)"
  by (induction xss) (auto intro: guarded_append)

lemma guarded_enqueue:
  assumes "guarded sig need S (xs @ Enqueue l w # ys)" "need w s"
  shows "s \<in> S \<or> (\<exists>c \<in> set xs. sig c = Some s)"
  using assms by (induction xs arbitrary: S) (fastforce split: option.splits)+

lemma guarded_after:
  assumes "\<And>c. c \<in> set xs \<Longrightarrow> \<forall>l w. c \<noteq> Enqueue l w" "guarded sig need (S \<union> (\<Union>c \<in> set xs. set_option (sig c))) ys"
  shows "guarded sig need S (xs @ ys)"
  using assms
proof (induction xs arbitrary: S)
  case (Cons c xs)
  have "guarded sig need (S \<union> set_option (sig c)) (xs @ ys)"
    by (rule Cons.IH) (use Cons.prems in \<open>auto simp: Un_assoc\<close>)
  moreover have "\<forall>l w. c \<noteq> Enqueue l w" using Cons.prems(1) by simp
  ultimately show ?case by (cases c) auto
qed simp

section \<open>The work enqueued\<close>

fun work_of :: "fp_call \<Rightarrow> fp_work list" where
  "work_of (Enqueue l w) = [w]"
| "work_of (RecordLane l) = [FpMark]"
| "work_of _ = []"

definition works :: "fp_call list \<Rightarrow> fp_work list" where
  "works cs = concat (map work_of cs)"

lemma works_simps [simp]:
  "works [] = []" "works (c # cs) = work_of c @ works cs" "works (xs @ ys) = works xs @ works ys"
  by (simp_all add: works_def)

lemma works_concat: "works (concat xss) = concat (map works xss)"
  by (induction xss) simp_all

text \<open>Calls of a source or of the mode enqueue nothing and leave the lanes alone.\<close>

definition quiet :: "fp_call list \<Rightarrow> bool" where
  "quiet cs \<longleftrightarrow> works cs = [] \<and> (\<forall>st. run_lanes st cs = Some st)"

lemma quiet_source: "quiet (source_calls y r s)"
  by (simp add: quiet_def source_calls_def)

lemma quiet_mode: "quiet (mode_calls y r)"
proof -
  have "works (map (\<lambda>p. WaitStatus p slot seq) ps) = [] \<and> run_lanes st (map (\<lambda>p. WaitStatus p slot seq) ps) = Some st" for ps st slot seq
    by (induction ps) simp_all
  then show ?thesis by (simp add: quiet_def mode_calls_def)
qed

definition own_free :: "int \<Rightarrow> (fp_work \<Rightarrow> int \<Rightarrow> bool) \<Rightarrow> bool" where
  "own_free r need \<longleftrightarrow> (\<forall>w s. need w s \<longrightarrow> (\<exists>l. source_of w = Some l \<and> owner_of l \<noteq> r))"

definition announced :: "fp_system \<Rightarrow> int \<Rightarrow> (fp_call \<Rightarrow> int option) \<Rightarrow> (fp_work \<Rightarrow> int \<Rightarrow> bool) \<Rightarrow> bool" where
  "announced y r sig need \<longleftrightarrow> (\<forall>d s off n s'. need (FpCopy d (loc_plus (source_loc y r s) off) n) s' \<longrightarrow>
     (\<exists>c \<in> set (source_calls y r s). sig c = Some s'))"

lemma no_enqueue: "c \<in> set (source_calls y r s) \<Longrightarrow> c \<noteq> Enqueue l w" "c \<in> set (mode_calls y r) \<Longrightarrow> c \<noteq> Enqueue l w"
  by (auto simp: source_calls_def mode_calls_def split: if_splits)

lemma guarded_mode: "guarded sig need {} (mode_calls y r)"
  using guarded_after[of "mode_calls y r" sig need "{}" "[]"] no_enqueue(2) by auto

lemma source_guard_nil: "guarded sig need {} (source_calls y r s)"
  using guarded_after[of "source_calls y r s" sig need "{}" "[]"] no_enqueue(1) by auto

lemma source_guard:
  assumes "announced y r sig need" "guarded sig need {} cs"
  shows "guarded sig need {} (source_calls y r s @ Enqueue l (FpCopy d (loc_plus (source_loc y r s) off) n) # cs)"
proof (rule guarded_after)
  let ?S = "{} \<union> (\<Union>c \<in> set (source_calls y r s). set_option (sig c))"
  have "guarded sig need (?S \<union> set_option (sig (Enqueue l (FpCopy d (loc_plus (source_loc y r s) off) n)))) cs"
    by (rule guarded_mono[OF assms(2)]) simp
  moreover have "s' \<in> ?S" if "need (FpCopy d (loc_plus (source_loc y r s) off) n) s'" for s'
    using assms(1) that unfolding announced_def by fastforce
  ultimately show "guarded sig need ?S (Enqueue l (FpCopy d (loc_plus (source_loc y r s) off) n) # cs)" by simp
qed (use no_enqueue(1) in blast)

lemma source_loc_staged: "loc_plus (source_loc y r s) n = Staged s' a \<Longrightarrow> s' = s \<and> s \<noteq> r \<and> \<not> reads_direct y r s"
  by (auto simp: source_loc_def split: if_splits)

lemma run_lanes_each:
  assumes "\<And>x st. x \<in> set xs \<Longrightarrow> st \<in> {Idle, Busy l} \<Longrightarrow> run_lanes st (f x) \<in> {Some Idle, Some (Busy l)}"
    "st \<in> {Idle, Busy l}"
  shows "run_lanes st (concat (map f xs)) \<in> {Some Idle, Some (Busy l)}"
  using assms
proof (induction xs arbitrary: st)
  case (Cons x xs)
  have "run_lanes st (f x) \<in> {Some Idle, Some (Busy l)}" using Cons.prems by simp
  then obtain st' where "run_lanes st (f x) = Some st'" "st' \<in> {Idle, Busy l}" by auto
  then show ?case using Cons by (simp add: run_lanes_append)
qed simp

lemma sync_after:
  "run_lanes st cs \<in> {Some Idle, Some (Busy l)} \<Longrightarrow> run_lanes st (cs @ [SyncLane l]) = Some Idle"
  by (auto simp: run_lanes_append)

lemma main_lanes: "run_lanes Idle (main_calls y r) = Some Idle"
proof -
  have q: "run_lanes st (source_calls y r s @ cs) = run_lanes st cs" for st s cs
    using quiet_source[of y r s] by (simp add: run_lanes_append quiet_def)
  have q': "run_lanes st (source_calls y r s) = Some st" for st s using q[of st s "[]"] by simp
  have rc: "run_lanes st (reduce_calls y r off s) = Some (Busy LaneReduce)" if "st \<in> {Idle, Busy LaneReduce}" for st off s
    using that by (auto simp: reduce_calls_def q)
  show ?thesis
  proof (cases "fy_kind y")
    case FpAllGather
    have "run_lanes Idle (concat (map (gather_calls y r) [0..fy_n y - 1])) \<in> {Some Idle, Some (Busy LaneD2D)}"
      by (rule run_lanes_each) (auto simp: gather_calls_def q q')
    then show ?thesis unfolding main_calls_def FpAllGather fp_kind.case by (rule sync_after)
  next
    case FpAllReduce
    have "run_lanes (Busy LaneReduce) (concat (map (sum_calls y r) [0..fy_n y - 1])) \<in> {Some Idle, Some (Busy LaneReduce)}"
      by (rule run_lanes_each) (auto simp: sum_calls_def rc)
    from sync_after[OF this] show ?thesis by (simp add: main_calls_def FpAllReduce q)
  next
    case FpReduceScatter
    have "run_lanes st (concat (map (\<lambda>s. if s = r then [] else reduce_calls y r (part_offset y r) s) [0..fy_n y - 1]))
        \<in> {Some Idle, Some (Busy LaneReduce)}" if "st \<in> {Idle, Busy LaneReduce}" for st
      by (rule run_lanes_each[OF _ that]) (auto simp: rc)
    from sync_after[OF this] show ?thesis by (simp add: main_calls_def FpReduceScatter)
  next
    case FpBroadcast
    then show ?thesis by (simp add: main_calls_def q q')
  qed
qed

lemma main_guarded:
  assumes "own_free r need" "announced y r sig need"
  shows "guarded sig need {} (main_calls y r)"
proof -
  have own: "\<not> need (FpCopy d (Dev r b) n) s" "\<not> need (FpReduce d (Dev r b) n ty op) s"
    "\<not> need (FpReduce d (Scratch r b' c) n ty op) s" for d b b' c n ty op s
    using assms(1) by (fastforce simp: own_free_def)+
  note src = source_guard[OF assms(2)]
  note src0 = src[where off = 0, simplified]
  have nil: "guarded sig need S []" for S by simp
  have rc: "guarded sig need {} (reduce_calls y r off s)" for off s
    unfolding reduce_calls_def by (rule src) (simp add: own)
  have gc: "guarded sig need {} (gather_calls y r s)" for s
    unfolding gather_calls_def using src0[OF nil] source_guard_nil[of sig need y r s] by simp
  have sc: "guarded sig need {} (sum_calls y r s)" for s
    by (simp add: sum_calls_def rc own)
  show ?thesis
  proof (cases "fy_kind y")
    case FpAllGather
    then show ?thesis unfolding main_calls_def by (auto intro!: guarded_append[OF guarded_concat] simp: gc)
  next
    case FpAllReduce
    have "guarded sig need {} (concat (map (sum_calls y r) [0..fy_n y - 1]) @ [SyncLane LaneReduce])"
      by (rule guarded_append[OF guarded_concat]) (auto simp: sc)
    then show ?thesis using src0 by (simp add: main_calls_def FpAllReduce)
  next
    case FpReduceScatter
    have "guarded sig need {} (concat (map (\<lambda>s. if s = r then [] else reduce_calls y r (part_offset y r) s) [0..fy_n y - 1]) @ [SyncLane LaneReduce])"
      by (rule guarded_append[OF guarded_concat]) (auto simp: rc)
    then show ?thesis using guarded_mono[of sig need "{}" _ "set_option x" for x] by (simp add: main_calls_def FpReduceScatter own)
  next
    case FpBroadcast
    have "guarded sig need {} [SyncLane LaneD2D]" by simp
    then show ?thesis using src0 source_guard_nil[of sig need y r] by (simp add: main_calls_def FpBroadcast)
  qed
qed

lemma script_lanes:
  assumes "fy_ok y" "is_rank y r"
  shows "run_lanes Idle (script y r) = Some Final"
  using quiet_mode[of y r] main_lanes[of y r]
  by (simp add: script_calls[OF assms] run_lanes_append quiet_def stage_calls_def)

lemma script_guarded:
  assumes "fy_ok y" "is_rank y r" "own_free r need" "announced y r sig need"
  shows "guarded sig need {} (script y r)"
proof -
  have "\<not> need (stage_copy y r) s" for s using assms(3) by (fastforce simp: own_free_def stage_copy_def)
  then have st: "guarded sig need {} (stage_calls y r)" by (simp add: stage_calls_def)
  have b: "guarded sig need {} [FpBarrier, Signal (fy_slot y) (fy_seq y)]"
    "guarded sig need {} [WaitUserReady (fy_slot y) (fy_seq y), PublishReady (fy_slot y) (fy_seq y)]" by simp_all
  show ?thesis unfolding script_calls[OF assms(1,2)]
    by (intro guarded_append b guarded_mode st main_guarded assms(3,4))
qed

lemma ready_guard: "own_free r (reads_other r)" "announced y r ready_sig (reads_other r)"
proof -
  show "own_free r (reads_other r)" by (auto simp: own_free_def reads_other_def)
  show "announced y r ready_sig (reads_other r)"
    by (auto simp: announced_def reads_other_def source_calls_def source_loc_def split: if_splits)
qed

lemma stage_guard: "own_free r (reads_staged r)" "announced y r stage_sig (reads_staged r)"
proof -
  show "own_free r (reads_staged r)" by (auto simp: own_free_def reads_staged_def)
  show "announced y r stage_sig (reads_staged r)"
    by (fastforce simp: announced_def reads_staged_def source_calls_def reads_direct_def dest!: source_loc_staged)
qed

definition main_works :: "fp_system \<Rightarrow> int \<Rightarrow> fp_work list" where
  "main_works y r = works (main_calls y r)"

lemma script_works:
  assumes "fy_ok y" "is_rank y r"
  shows "works (script y r) = (if stages y r then [stage_copy y r, FpMark] else []) @ main_works y r"
  using quiet_mode[of y r] by (simp add: script_calls[OF assms] quiet_def stage_calls_def main_works_def)

text \<open>The staging copy was enqueued and awaited before its announcement.\<close>

lemma script_stage_first:
  assumes "fy_ok y" "is_rank y r" "script y r = xs @ PublishStage slot seq # ys"
  shows "works xs = (if stages y r then [stage_copy y r, FpMark] else [])"
proof -
  define pre where "pre = [WaitUserReady (fy_slot y) (fy_seq y), PublishReady (fy_slot y) (fy_seq y)] @ mode_calls y r @
    (if stages y r then [Enqueue LaneD2H (stage_copy y r), RecordLane LaneD2H, WaitLane LaneD2H] else [])"
  define post where "post = main_calls y r @ [FpBarrier, Signal (fy_slot y) (fy_seq y)]"
  have s: "script y r = pre @ PublishStage (fy_slot y) (fy_seq y) # post"
    by (simp add: script_calls[OF assms(1,2)] pre_def post_def stage_calls_def)
  have np: "PublishStage a b \<notin> set pre" "PublishStage a b \<notin> set post" for a b
  proof -
    have "PublishStage a b \<notin> set (mode_calls y r)" by (auto simp: mode_calls_def)
    then show "PublishStage a b \<notin> set pre" by (simp add: pre_def)
    have "PublishStage a b \<notin> set (source_calls y r s)" for s by (simp add: source_calls_def)
    then have "PublishStage a b \<notin> set (main_calls y r)"
      by (auto simp: main_calls_def gather_calls_def sum_calls_def reduce_calls_def split: fp_kind.splits if_splits)
    then show "PublishStage a b \<notin> set post" by (simp add: post_def)
  qed
  have "PublishStage slot seq \<in> set (pre @ PublishStage (fy_slot y) (fy_seq y) # post)"
    using assms(3) s by (metis in_set_conv_decomp)
  then have "PublishStage slot seq = PublishStage (fy_slot y) (fy_seq y)" using np by simp
  then have "xs = pre" using append_Cons_eq_iff[OF np, of slot seq xs ys] s assms(3) by metis
  then show ?thesis using quiet_mode[of y r] by (simp add: pre_def quiet_def)
qed

end
