(* ===== verification/FastPathData.thy ===== *)
theory FastPathData
  imports FastPathWork
begin

text \<open>
  What the work of a rank reads and writes, and what it computes on the inputs of all ranks.
\<close>

section \<open>Areas\<close>

text \<open>Whether \<open>r\<close> reads the input of \<open>s\<close>, and from which byte on.\<close>

definition reads_from :: "fp_system \<Rightarrow> int \<Rightarrow> int \<Rightarrow> bool" where
  "reads_from y r s \<longleftrightarrow> is_rank y r \<and> is_rank y s \<and> s \<noteq> r \<and> (fy_kind y = FpBroadcast \<longrightarrow> s = rq_root (fy_req y 0))"

definition read_offset :: "fp_system \<Rightarrow> int \<Rightarrow> nat" where
  "read_offset y r = (if fy_kind y = FpReduceScatter then part_offset y r else 0)"

definition in_area :: "fp_system \<Rightarrow> int \<Rightarrow> int \<Rightarrow> nat \<Rightarrow> bool" where
  "in_area y s r a \<longleftrightarrow> rq_send (fy_req y s) + read_offset y r \<le> a \<and> a < rq_send (fy_req y s) + read_offset y r + fy_seg y"

definition may_write :: "fp_system \<Rightarrow> int \<Rightarrow> fp_loc \<Rightarrow> bool" where
  "may_write y r p \<longleftrightarrow> (\<exists>i. p = Scratch r (fy_slot y) i) \<or>
     (\<exists>a. p = Dev r a \<and> (\<forall>d. reads_from y d r \<longrightarrow> \<not> in_area y r d a))"

fun dest_of :: "fp_work \<Rightarrow> (fp_loc \<times> nat) option" where
  "dest_of (FpCopy d s n) = Some (d, n)"
| "dest_of (FpReduce d s n ty op) = Some (d, n)"
| "dest_of FpMark = None"

fun src_ok :: "fp_system \<Rightarrow> int \<Rightarrow> fp_work \<Rightarrow> bool" where
  "src_ok y r (FpCopy d s n) \<longleftrightarrow> owner_of s = r \<or>
     (\<exists>q. reads_from y r q \<and> s = loc_plus (source_loc y r q) (read_offset y r) \<and> n = fy_seg y)"
| "src_ok y r (FpReduce d s n ty op) \<longleftrightarrow> owner_of s = r"
| "src_ok y r FpMark \<longleftrightarrow> True"

definition dest_ok :: "fp_system \<Rightarrow> int \<Rightarrow> fp_work \<Rightarrow> bool" where
  "dest_ok y r w \<longleftrightarrow> (\<forall>d n p. dest_of w = Some (d, n) \<and> in_range d n p \<longrightarrow> may_write y r p)"

lemma scratch_range: "in_range (Scratch r s 0) n p \<Longrightarrow> \<exists>i. p = Scratch r s i"
  by (auto simp: in_range_def)

lemma dev_range: "in_range (Dev r a) n p \<longleftrightarrow> (\<exists>b. p = Dev r b \<and> a \<le> b \<and> b < a + n)"
proof -
  have "(\<exists>i < n. p = Dev r (a + i)) \<longleftrightarrow> (\<exists>b. p = Dev r b \<and> a \<le> b \<and> b < a + n)"
    by (metis add_less_cancel_left le_add1 le_iff_add)
  then show ?thesis by (simp add: in_range_def)
qed

text \<open>The result buffer of a rank does not meet what others read of its input.\<close>

lemma result_apart:
  assumes "fy_ok y" "is_rank y r" "fy_kind y \<noteq> FpAllGather" "fy_kind y = FpBroadcast \<Longrightarrow> r \<noteq> rq_root (fy_req y 0) \<or>
      rq_send (fy_req y r) \<noteq> rq_recv (fy_req y r)"
    "rq_recv (fy_req y r) \<le> b" "b < rq_recv (fy_req y r) + fy_seg y"
  shows "may_write y r (Dev r b)"
proof -
  have "\<not> in_area y r d b" if d: "reads_from y d r" for d
  proof (cases "fy_kind y")
    case FpAllReduce
    then show ?thesis using fy_placed[OF assms(1,2)] assms(5,6)
      by (auto simp: placed_def Let_def in_area_def read_offset_def apart_def)
  next
    case FpBroadcast
    have "r = rq_root (fy_req y 0)" using d FpBroadcast by (simp add: reads_from_def)
    then show ?thesis using fy_placed[OF assms(1,2)] assms(4)[OF FpBroadcast] FpBroadcast assms(5,6)
      by (auto simp: placed_def Let_def in_area_def read_offset_def apart_def)
  next
    case FpReduceScatter
    note h = handled_facts[OF fy_handled[OF assms(1,2)]] and rk = fy_rank[OF assms(1,2)]
    have n: "1 < fy_n y" "0 < fy_seg y" using assms(1) by (simp_all add: fy_ok_def)
    have dr: "is_rank y d" "d \<noteq> r" using d by (auto simp: reads_from_def)
    then have dn: "nat d < nat (fy_n y)" by (auto simp: is_rank_def)
    have rn: "nat r < nat (fy_n y)" using assms(2) by (auto simp: is_rank_def)
    have b1: "rq_send (fy_req y r) + nat (fy_n y) * fy_seg y < two64" "rq_recv (fy_req y r) + nat (fy_n y) * fy_seg y < two64"
      using fy_placed[OF assms(1,2)] by (auto simp: placed_def Let_def)
    have m: "int_to_size (fy_n y) = nat (fy_n y)" "int_to_size r = nat r"
      using n(1) h(8) rk(2) assms(2) by (auto simp: MAX_RANKS_def is_rank_def)
    have le: "nat d * fy_seg y + fy_seg y \<le> nat (fy_n y) * fy_seg y" "nat r * fy_seg y + fy_seg y \<le> nat (fy_n y) * fy_seg y"
      using mult_le_mono1[of "Suc (nat d)" "nat (fy_n y)" "fy_seg y"] mult_le_mono1[of "Suc (nat r)" "nat (fy_n y)" "fy_seg y"] dn rn by simp_all
    have seg1: "fy_seg y \<le> nat (fy_n y) * fy_seg y" using le(1) by linarith
    have b2: "rq_recv (fy_req y r) + fy_seg y < two64" using b1(2) seg1 by linarith
    have mm: "mul64 (fy_seg y) (nat (fy_n y)) = nat (fy_n y) * fy_seg y" "mul64 (nat r) (fy_seg y) = nat r * fy_seg y"
      using b1 le by (simp_all add: mul64_def mult.commute)
    show ?thesis
    proof (cases "byteRangesOverlap (rq_send (fy_req y r)) (nat (fy_n y) * fy_seg y) (rq_recv (fy_req y r)) (fy_seg y)")
      case True
      have k: "rq_kind (fy_req y r) = FpReduceScatter" using rk(5) FpReduceScatter by simp
      have "rq_recv (fy_req y r) = add64 (rq_send (fy_req y r)) (nat r * fy_seg y)"
        using h(6)[OF k] True rk m mm by simp
      also have "\<dots> = rq_send (fy_req y r) + nat r * fy_seg y" using b1 le by (simp add: add64_def)
      finally have e: "rq_recv (fy_req y r) = rq_send (fy_req y r) + nat r * fy_seg y" .
      have "nat d \<noteq> nat r" using dr assms(2) by (auto simp: is_rank_def)
      then consider "Suc (nat d) \<le> nat r" | "Suc (nat r) \<le> nat d" by linarith
      then have "nat d * fy_seg y + fy_seg y \<le> nat r * fy_seg y \<or> nat r * fy_seg y + fy_seg y \<le> nat d * fy_seg y"
        using mult_le_mono1[of "Suc (nat d)" "nat r" "fy_seg y"] mult_le_mono1[of "Suc (nat r)" "nat d" "fy_seg y"] by cases simp_all
      then show ?thesis using assms(5,6) e FpReduceScatter by (auto simp: in_area_def read_offset_def part_offset_def)
    next
      case False
      have "rq_send (fy_req y r) \<noteq> 0" "rq_recv (fy_req y r) \<noteq> 0" using h(1,2) by simp_all
      moreover have "add64 (rq_send (fy_req y r)) (nat (fy_n y) * fy_seg y) = rq_send (fy_req y r) + nat (fy_n y) * fy_seg y"
        "add64 (rq_recv (fy_req y r)) (fy_seg y) = rq_recv (fy_req y r) + fy_seg y"
        using b1(1) b2 by (simp_all add: add64_def)
      moreover have "0 < nat (fy_n y) * fy_seg y" using n by simp
      ultimately have "rq_recv (fy_req y r) + fy_seg y \<le> rq_send (fy_req y r) \<or>
          rq_send (fy_req y r) + nat (fy_n y) * fy_seg y \<le> rq_recv (fy_req y r)"
        using False n by (auto simp: byteRangesOverlap_def Let_def)
      then show ?thesis using assms(5,6) le FpReduceScatter by (auto simp: in_area_def read_offset_def part_offset_def)
    qed
  next
    case FpAllGather
    then show ?thesis using assms(3) by simp
  qed
  then show ?thesis by (simp add: may_write_def)
qed

lemma gather_apart:
  assumes "fy_ok y" "is_rank y r" "is_rank y s" "fy_kind y = FpAllGather"
    "\<not> (s = r \<and> rq_send (fy_req y r) = rq_recv (fy_req y r) + nat r * fy_seg y)"
    "rq_recv (fy_req y r) + nat s * fy_seg y \<le> b" "b < rq_recv (fy_req y r) + nat s * fy_seg y + fy_seg y"
  shows "may_write y r (Dev r b)"
proof -
  have sn: "Suc (nat s) \<le> nat (fy_n y)" "Suc (nat r) \<le> nat (fy_n y)" using assms(2,3) by (auto simp: is_rank_def)
  have le: "nat s * fy_seg y + fy_seg y \<le> nat (fy_n y) * fy_seg y" using mult_le_mono1[OF sn(1), of "fy_seg y"] by simp
  have "\<not> in_area y r d b" if d: "reads_from y d r" for d
  proof (cases "rq_send (fy_req y r) = rq_recv (fy_req y r) + nat r * fy_seg y")
    case True
    then have "s \<noteq> r" using assms(5) by simp
    then have "nat s \<noteq> nat r" using assms(2,3) by (auto simp: is_rank_def)
    then consider "Suc (nat s) \<le> nat r" | "Suc (nat r) \<le> nat s" by linarith
    then have "nat s * fy_seg y + fy_seg y \<le> nat r * fy_seg y \<or> nat r * fy_seg y + fy_seg y \<le> nat s * fy_seg y"
      using mult_le_mono1[of "Suc (nat s)" "nat r" "fy_seg y"] mult_le_mono1[of "Suc (nat r)" "nat s" "fy_seg y"] by cases simp_all
    then show ?thesis using True assms(4,6,7) by (auto simp: in_area_def read_offset_def)
  next
    case False
    then show ?thesis using fy_placed[OF assms(1,2)] assms(4,6,7) le
      by (auto simp: placed_def Let_def in_area_def read_offset_def apart_def)
  qed
  then show ?thesis by (simp add: may_write_def)
qed

section \<open>The work of the main part\<close>

lemma work_of_source: "works (source_calls y r s) = []"
  using quiet_source[of y r s] by (simp add: quiet_def)

lemma may_write_scratch: "may_write y r (Scratch r (fy_slot y) i)"
  by (simp add: may_write_def)

definition work_ok :: "fp_system \<Rightarrow> int \<Rightarrow> fp_work \<Rightarrow> bool" where
  "work_ok y r w \<longleftrightarrow> src_ok y r w \<and> dest_ok y r w"

lemma src_of_source:
  assumes "is_rank y r" "is_rank y s" "fy_kind y = FpBroadcast \<Longrightarrow> s = rq_root (fy_req y 0)"
  shows "src_ok y r (FpCopy d (loc_plus (source_loc y r s) (read_offset y r)) (fy_seg y))"
proof (cases "s = r")
  case True
  then show ?thesis by (simp add: source_loc_def)
next
  case False
  then show ?thesis using assms by (auto simp: reads_from_def)
qed

lemma main_work_ok:
  assumes "fy_ok y" "is_rank y r" "w \<in> set (main_works y r)"
  shows "work_ok y r w"
proof -
  have into: "dest_ok y r (FpCopy (result_loc y r) s (fy_seg y))" "dest_ok y r (FpReduce (result_loc y r) s (fy_seg y) ty op)"
    if "fy_kind y \<noteq> FpAllGather" "fy_kind y = FpBroadcast \<Longrightarrow> r \<noteq> rq_root (fy_req y 0) \<or> rq_send (fy_req y r) \<noteq> rq_recv (fy_req y r)"
    for s ty op
    using result_apart[OF assms(1,2) that] by (auto simp: dest_ok_def result_loc_def dev_range)
  have scr: "dest_ok y r (FpCopy (Scratch r (fy_slot y) 0) s n)" for s n
    using may_write_scratch by (auto simp: dest_ok_def dest!: scratch_range)
  have red: "work_ok y r w'" if "w' \<in> set (works (reduce_calls y r (read_offset y r) s))" "is_rank y s" "fy_kind y \<noteq> FpAllGather" "fy_kind y \<noteq> FpBroadcast" for s w'
  proof -
    have "w' \<in> {FpCopy (Scratch r (fy_slot y) 0) (loc_plus (source_loc y r s) (read_offset y r)) (fy_seg y),
        FpReduce (result_loc y r) (Scratch r (fy_slot y) 0) (fy_seg y) (rq_scalar (fy_req y 0)) (rq_op (fy_req y 0))}"
      using that(1) by (simp add: reduce_calls_def work_of_source)
    then show ?thesis using src_of_source[OF assms(2) that(2)] scr into that(3,4) by (auto simp: work_ok_def)
  qed
  have ranks: "is_rank y s" if "s \<in> set [0..fy_n y - 1]" for s by (rule fy_ranks_mem[OF that])
  show ?thesis
  proof (cases "fy_kind y")
    case FpAllGather
    have off: "read_offset y r = 0" using FpAllGather by (simp add: read_offset_def)
    obtain s where s: "s \<in> set [0..fy_n y - 1]" "w \<in> set (works (gather_calls y r s))"
      using assms(3) unfolding main_works_def main_calls_def FpAllGather by (auto simp: works_concat simp del: set_upto)
    then have w: "w = FpCopy (loc_plus (result_loc y r) (nat s * fy_seg y)) (source_loc y r s) (fy_seg y)"
      and ne: "source_loc y r s \<noteq> loc_plus (result_loc y r) (nat s * fy_seg y)"
      by (auto simp: gather_calls_def work_of_source split: if_splits)
    have "src_ok y r w" using src_of_source[OF assms(2) ranks[OF s(1)]] FpAllGather off unfolding w by simp
    moreover have "\<not> (s = r \<and> rq_send (fy_req y r) = rq_recv (fy_req y r) + nat r * fy_seg y)"
      using ne by (auto simp: source_loc_def result_loc_def)
    then have "dest_ok y r w" unfolding w
      using gather_apart[OF assms(1,2) ranks[OF s(1)] FpAllGather] by (auto simp: dest_ok_def result_loc_def dev_range)
    ultimately show ?thesis by (simp add: work_ok_def)
  next
    case FpAllReduce
    have off: "read_offset y r = 0" using FpAllReduce by (simp add: read_offset_def)
    have n: "1 < fy_n y" using assms(1) by (simp add: fy_ok_def)
    have sd: "is_rank y (seed_of r)" using n by (simp add: seed_of_def is_rank_def)
    have "w = FpCopy (result_loc y r) (source_loc y r (seed_of r)) (fy_seg y) \<or>
      (\<exists>s \<in> set [0..fy_n y - 1]. w \<in> set (works (sum_calls y r s)))"
      using assms(3) unfolding main_works_def main_calls_def FpAllReduce
      by (auto simp: works_concat work_of_source simp del: set_upto)
    then show ?thesis
    proof
      assume w: "w = FpCopy (result_loc y r) (source_loc y r (seed_of r)) (fy_seg y)"
      show ?thesis using src_of_source[OF assms(2) sd] into FpAllReduce off unfolding w by (simp add: work_ok_def)
    next
      assume "\<exists>s \<in> set [0..fy_n y - 1]. w \<in> set (works (sum_calls y r s))"
      then obtain s where s: "s \<in> set [0..fy_n y - 1]" "w \<in> set (works (sum_calls y r s))" by blast
      show ?thesis
      proof (cases "s = r")
        case True
        then show ?thesis using s into FpAllReduce by (auto simp: sum_calls_def work_ok_def split: if_splits)
      next
        case False
        then show ?thesis using s red[of w s] ranks[OF s(1)] FpAllReduce off by (auto simp: sum_calls_def split: if_splits)
      qed
    qed
  next
    case FpReduceScatter
    have off: "read_offset y r = part_offset y r" using FpReduceScatter by (simp add: read_offset_def)
    have "w = FpCopy (result_loc y r) (Dev r (rq_send (fy_req y r) + part_offset y r)) (fy_seg y) \<or>
      (\<exists>s \<in> set [0..fy_n y - 1]. w \<in> set (works (reduce_calls y r (part_offset y r) s)))"
      using assms(3) unfolding main_works_def main_calls_def FpReduceScatter
      by (auto simp: works_concat split: if_splits simp del: set_upto)
    then show ?thesis using into red off ranks FpReduceScatter by (auto simp: work_ok_def simp del: set_upto)
  next
    case FpBroadcast
    have off: "read_offset y r = 0" using FpBroadcast by (simp add: read_offset_def)
    note rk = fy_rank[OF assms(1,2)]
    have k: "rq_kind (fy_req y r) = FpBroadcast" using rk(5) FpBroadcast by simp
    have root: "is_rank y (rq_root (fy_req y 0))"
      using handled_facts(7)[OF fy_handled[OF assms(1,2)] k] rk by (simp add: is_rank_def)
    have w: "w = FpCopy (result_loc y r) (source_loc y r (rq_root (fy_req y 0))) (fy_seg y)"
      and ne: "source_loc y r (rq_root (fy_req y 0)) \<noteq> result_loc y r"
      using assms(3) unfolding main_works_def main_calls_def FpBroadcast by (auto simp: work_of_source split: if_splits)
    have "dest_ok y r w" unfolding w by (rule into) (use FpBroadcast ne in \<open>auto simp: source_loc_def result_loc_def\<close>)
    then show ?thesis using src_of_source[OF assms(2) root] off unfolding w by (simp add: work_ok_def)
  qed
qed

end
