(* ===== verification/FastPathResult.thy ===== *)
theory FastPathResult
  imports FastPathData
begin

text \<open>
  What the work of one rank computes from the inputs of all ranks: its result buffer at the
  end holds the gathered, broadcast or reduced inputs.
\<close>

section \<open>Runs of one rank\<close>

text \<open>
  The memory as rank \<open>r\<close> may rely on it: its own, the inputs of the others as they were, and
  their staging buffers with copies of these.
\<close>

definition ref_view :: "fp_system \<Rightarrow> int \<Rightarrow> fp_mem \<Rightarrow> fp_mem" where
  "ref_view y r m0 p = (if owner_of p = r then m0 p
     else case p of Staged s a \<Rightarrow> m0 (Dev s (rq_send (fy_req y s) + a)) | _ \<Rightarrow> m0 p)"

definition run_works :: "fp_system \<Rightarrow> fp_work list \<Rightarrow> fp_mem \<Rightarrow> fp_mem" where
  "run_works y ws m = foldl (\<lambda>m w. do_work (fy_kernel y) w m) m ws"

lemma run_works_simps [simp]:
  "run_works y [] m = m" "run_works y (w # ws) m = run_works y ws (do_work (fy_kernel y) w m)"
  "run_works y (ws @ vs) m = run_works y vs (run_works y ws m)"
  by (simp_all add: run_works_def)

definition local_run :: "fp_system \<Rightarrow> int \<Rightarrow> fp_mem \<Rightarrow> fp_work list \<Rightarrow> fp_mem" where
  "local_run y r m0 ws = run_works y ws (ref_view y r m0)"

lemma do_work_other:
  assumes "fy_ok y" "\<And>d n. dest_of w = Some (d, n) \<Longrightarrow> \<not> in_range d n p"
  shows "do_work (fy_kernel y) w m p = m p"
proof -
  have k: "length (fy_kernel y ty op xs zs) = length xs" for ty op xs zs using assms(1) by (simp add: fy_ok_def)
  show ?thesis using assms(2) by (cases w) (auto simp: write_bytes_other k)
qed

lemma run_works_other:
  assumes "fy_ok y" "\<And>w d n. w \<in> set ws \<Longrightarrow> dest_of w = Some (d, n) \<Longrightarrow> \<not> in_range d n p"
  shows "run_works y ws m p = m p"
  using assms(2)
proof (induction ws arbitrary: m)
  case (Cons w ws)
  have "run_works y ws (do_work (fy_kernel y) w m) p = do_work (fy_kernel y) w m p"
    by (rule Cons.IH) (use Cons.prems in \<open>meson list.set_intros\<close>)
  also have "\<dots> = m p" by (rule do_work_other[OF assms(1)]) (use Cons.prems in \<open>meson list.set_intros\<close>)
  finally show ?case by simp
qed simp

text \<open>Where the work of a script writes.\<close>

lemma script_dest:
  assumes "fy_ok y" "is_rank y r" "w \<in> set (works (script y r))" "dest_of w = Some (d, n)" "in_range d n p"
  shows "may_write y r p \<or> w = stage_copy y r \<and> stages y r \<and> (\<exists>i < stage_bytes y. p = Staged r i)"
proof -
  have "w \<in> set (main_works y r) \<or> w = stage_copy y r \<and> stages y r"
    using assms(3,4) by (auto simp: script_works[OF assms(1,2)] split: if_splits)
  then show ?thesis
  proof
    assume "w \<in> set (main_works y r)"
    from main_work_ok[OF assms(1,2) this] show ?thesis using assms(4,5) by (auto simp: work_ok_def dest_ok_def)
  qed (use assms(4,5) in \<open>auto simp: stage_copy_def in_range_def\<close>)
qed

lemma may_write_owner: "may_write y r p \<Longrightarrow> owner_of p = r"
  by (auto simp: may_write_def)

lemma local_other_owner:
  assumes "fy_ok y" "is_rank y r" "set ws \<subseteq> set (works (script y r))" "owner_of p \<noteq> r"
  shows "local_run y r m0 ws p = ref_view y r m0 p"
  unfolding local_run_def
  by (rule run_works_other[OF assms(1)])
    (use assms(3,4) script_dest[OF assms(1,2)] may_write_owner in fastforce)

lemma local_area:
  assumes "fy_ok y" "set ws \<subseteq> set (works (script y s))" "reads_from y r s" "in_area y s r a"
  shows "local_run y s m0 ws (Dev s a) = m0 (Dev s a)"
proof -
  have s: "is_rank y s" using assms(3) by (simp add: reads_from_def)
  have "local_run y s m0 ws (Dev s a) = ref_view y s m0 (Dev s a)"
    unfolding local_run_def
    by (rule run_works_other[OF assms(1)])
      (use assms(2-4) script_dest[OF assms(1) s] in \<open>fastforce simp: may_write_def\<close>)
  then show ?thesis by (simp add: ref_view_def)
qed

lemma local_staged:
  assumes "fy_ok y" "is_rank y s" "stages y s" "set ws \<subseteq> insert FpMark (set (main_works y s))" "i < stage_bytes y"
  shows "local_run y s m0 (stage_copy y s # ws) (Staged s i) = m0 (Dev s (rq_send (fy_req y s) + i))"
proof -
  let ?m = "do_work (fy_kernel y) (stage_copy y s) (ref_view y s m0)"
  have "run_works y ws ?m (Staged s i) = ?m (Staged s i)"
  proof (rule run_works_other[OF assms(1)])
    fix w d n assume "w \<in> set ws" "dest_of w = Some (d, n)"
    then show "\<not> in_range d n (Staged s i)"
      using main_work_ok[OF assms(1,2), of w] assms(4) by (fastforce simp: work_ok_def dest_ok_def may_write_def)
  qed
  moreover have "?m (Staged s i) = m0 (Dev s (rq_send (fy_req y s) + i))"
    using write_bytes_at[of "Staged s 0" "read_bytes (ref_view y s m0) (Dev s (rq_send (fy_req y s))) (stage_bytes y)" "ref_view y s m0" i] assms(5)
    by (simp add: stage_copy_def ref_view_def)
  ultimately show ?thesis by (simp add: local_run_def)
qed

section \<open>Results\<close>

definition fp_input :: "fp_system \<Rightarrow> fp_mem \<Rightarrow> int \<Rightarrow> int \<Rightarrow> 8 word list" where
  "fp_input y m0 r s = read_bytes m0 (Dev s (rq_send (fy_req y s) + read_offset y r)) (fy_seg y)"

definition fy_combine :: "fp_system \<Rightarrow> 8 word list \<Rightarrow> 8 word list \<Rightarrow> 8 word list" where
  "fy_combine y = fy_kernel y (rq_scalar (fy_req y 0)) (rq_op (fy_req y 0))"

definition reduce_all :: "fp_system \<Rightarrow> fp_mem \<Rightarrow> int \<Rightarrow> int \<Rightarrow> int list \<Rightarrow> 8 word list" where
  "reduce_all y m0 r seed ss = foldl (fy_combine y) (fp_input y m0 r seed) (map (fp_input y m0 r) (filter (\<lambda>s. s \<noteq> seed) ss))"

definition fp_result :: "fp_system \<Rightarrow> fp_mem \<Rightarrow> int \<Rightarrow> 8 word list" where
  "fp_result y m0 r = (case fy_kind y of
       FpAllGather \<Rightarrow> concat (map (fp_input y m0 r) [0..fy_n y - 1])
     | FpAllReduce \<Rightarrow> reduce_all y m0 r (seed_of r) [0..fy_n y - 1]
     | FpReduceScatter \<Rightarrow> reduce_all y m0 r r [0..fy_n y - 1]
     | FpBroadcast \<Rightarrow> fp_input y m0 r (rq_root (fy_req y 0)))"

lemma length_input [simp]: "length (fp_input y m0 r s) = fy_seg y"
  by (simp add: fp_input_def)

text \<open>A memory in which only the result, the scratch and the own staging buffer differ.\<close>

definition clean :: "fp_system \<Rightarrow> fp_mem \<Rightarrow> int \<Rightarrow> (fp_loc \<Rightarrow> bool) \<Rightarrow> fp_mem \<Rightarrow> bool" where
  "clean y m0 r out m \<longleftrightarrow> (\<forall>p. \<not> out p \<and> (\<forall>i. p \<noteq> Staged r i) \<and> (\<forall>i. p \<noteq> Scratch r (fy_slot y) i) \<longrightarrow> m p = ref_view y r m0 p)"

lemma read_source:
  assumes "clean y m0 r out m" "is_rank y r" "is_rank y s" "s \<noteq> r" "\<And>p. out p \<Longrightarrow> owner_of p = r"
  shows "read_bytes m (loc_plus (source_loc y r s) (read_offset y r)) (fy_seg y) = fp_input y m0 r s"
proof -
  have o: "owner_of (source_loc y r s) = s" by (simp add: source_loc_def)
  have "m (loc_plus (source_loc y r s) (read_offset y r + i)) = m0 (Dev s (rq_send (fy_req y s) + (read_offset y r + i)))" for i
  proof -
    let ?p = "loc_plus (source_loc y r s) (read_offset y r + i)"
    have "owner_of ?p = s" using o by simp
    then have "\<not> out ?p" "\<forall>i. ?p \<noteq> Staged r i" "\<forall>i. ?p \<noteq> Scratch r (fy_slot y) i"
      using assms(4) assms(5)[of ?p] by (auto dest: arg_cong[where f = owner_of])
    then have "m ?p = ref_view y r m0 ?p" using assms(1) by (simp add: clean_def)
    also have "\<dots> = m0 (Dev s (rq_send (fy_req y s) + (read_offset y r + i)))"
      using assms(4) by (simp add: ref_view_def source_loc_def)
    finally show ?thesis .
  qed
  then show ?thesis unfolding fp_input_def read_bytes_def by (simp add: add.assoc)
qed

text \<open>The memory the main part starts on.\<close>

lemma clean_start:
  assumes "fy_ok y"
  shows "clean y m0 r (\<lambda>_. False) (local_run y r m0 (if stages y r then [stage_copy y r, FpMark] else []))"
proof -
  have "\<not> in_range (Staged r 0) n p" if "\<forall>i. p \<noteq> Staged r i" for p n using that by (auto simp: in_range_def)
  then show ?thesis
    using do_work_other[OF assms, of "stage_copy y r"] by (auto simp: clean_def local_run_def stage_copy_def)
qed

lemma clean_weaken: "clean y m0 r out m \<Longrightarrow> (\<And>p. out p \<Longrightarrow> out' p) \<Longrightarrow> clean y m0 r out' m"
  by (auto simp: clean_def)

definition in_result :: "fp_system \<Rightarrow> int \<Rightarrow> fp_loc \<Rightarrow> bool" where
  "in_result y r p \<longleftrightarrow> in_range (result_loc y r) (fy_seg y) p"

lemma in_result_owner: "in_result y r p \<Longrightarrow> owner_of p = r"
  by (auto simp: in_result_def in_range_def result_loc_def)

text \<open>Copying into the result.\<close>

lemma copy_to_result:
  assumes "clean y m0 r (in_result y r) m"
  shows "clean y m0 r (in_result y r) (do_work (fy_kernel y) (FpCopy (result_loc y r) s (fy_seg y)) m)"
    "read_bytes (do_work (fy_kernel y) (FpCopy (result_loc y r) s (fy_seg y)) m) (result_loc y r) (fy_seg y) = read_bytes m s (fy_seg y)"
  using assms by (auto simp: clean_def in_result_def write_bytes_other read_write_same)

text \<open>Reducing one source into the result.\<close>

lemma reduce_from:
  assumes "fy_ok y" "clean y m0 r (in_result y r) m"
  shows "clean y m0 r (in_result y r) (do_work (fy_kernel y) (FpReduce (result_loc y r) s (fy_seg y) (rq_scalar (fy_req y 0)) (rq_op (fy_req y 0))) m)"
    "read_bytes (do_work (fy_kernel y) (FpReduce (result_loc y r) s (fy_seg y) (rq_scalar (fy_req y 0)) (rq_op (fy_req y 0))) m) (result_loc y r) (fy_seg y) =
      fy_combine y (read_bytes m (result_loc y r) (fy_seg y)) (read_bytes m s (fy_seg y))"
proof -
  have k: "length (fy_kernel y ty op xs zs) = length xs" for ty op xs zs using assms(1) by (simp add: fy_ok_def)
  show "clean y m0 r (in_result y r) (do_work (fy_kernel y) (FpReduce (result_loc y r) s (fy_seg y) (rq_scalar (fy_req y 0)) (rq_op (fy_req y 0))) m)"
    using assms(2) by (auto simp: clean_def in_result_def write_bytes_other k)
  show "read_bytes (do_work (fy_kernel y) (FpReduce (result_loc y r) s (fy_seg y) (rq_scalar (fy_req y 0)) (rq_op (fy_req y 0))) m) (result_loc y r) (fy_seg y) =
      fy_combine y (read_bytes m (result_loc y r) (fy_seg y)) (read_bytes m s (fy_seg y))"
    by (simp add: read_write_same k fy_combine_def)
qed

lemma reduce_one:
  assumes "fy_ok y" "is_rank y r" "is_rank y s" "s \<noteq> r" "clean y m0 r (in_result y r) m"
  defines "m' \<equiv> run_works y (works (reduce_calls y r (read_offset y r) s)) m"
  shows "clean y m0 r (in_result y r) m'"
    "read_bytes m' (result_loc y r) (fy_seg y) = fy_combine y (read_bytes m (result_loc y r) (fy_seg y)) (fp_input y m0 r s)"
proof -
  let ?scr = "Scratch r (fy_slot y) 0"
  define m1 where "m1 = do_work (fy_kernel y) (FpCopy ?scr (loc_plus (source_loc y r s) (read_offset y r)) (fy_seg y)) m"
  have in_s: "read_bytes m1 ?scr (fy_seg y) = fp_input y m0 r s"
    using read_source[OF assms(5,2,3,4) in_result_owner] by (simp add: m1_def read_write_same)
  have c1: "clean y m0 r (in_result y r) m1"
  proof -
    have "\<not> in_range ?scr n p" if "\<forall>i. p \<noteq> Scratch r (fy_slot y) i" for n p
      using that scratch_range[of r "fy_slot y" n p] by blast
    then show ?thesis using assms(5) by (simp add: clean_def m1_def write_bytes_other)
  qed
  have res: "read_bytes m1 (result_loc y r) (fy_seg y) = read_bytes m (result_loc y r) (fy_seg y)"
    unfolding m1_def do_work.simps by (rule read_write_other) (auto simp: in_range_def result_loc_def)
  have m': "m' = do_work (fy_kernel y) (FpReduce (result_loc y r) ?scr (fy_seg y) (rq_scalar (fy_req y 0)) (rq_op (fy_req y 0))) m1"
    by (simp add: m'_def m1_def reduce_calls_def work_of_source)
  show "clean y m0 r (in_result y r) m'" unfolding m' by (rule reduce_from(1)[OF assms(1) c1])
  show "read_bytes m' (result_loc y r) (fy_seg y) = fy_combine y (read_bytes m (result_loc y r) (fy_seg y)) (fp_input y m0 r s)"
    unfolding m' reduce_from(2)[OF assms(1) c1] in_s res ..
qed

text \<open>Reducing a list of sources, each by the calls \<open>f\<close>.\<close>

lemma reduce_list:
  assumes "\<And>s m. s \<in> set ss \<Longrightarrow> P s \<Longrightarrow> clean y m0 r (in_result y r) m \<Longrightarrow>
      clean y m0 r (in_result y r) (run_works y (works (f s)) m) \<and>
      read_bytes (run_works y (works (f s)) m) (result_loc y r) (fy_seg y) =
        fy_combine y (read_bytes m (result_loc y r) (fy_seg y)) (fp_input y m0 r s)"
    "\<And>s. s \<in> set ss \<Longrightarrow> \<not> P s \<Longrightarrow> works (f s) = []" "clean y m0 r (in_result y r) m"
  shows "read_bytes (run_works y (works (concat (map f ss))) m) (result_loc y r) (fy_seg y) =
    foldl (fy_combine y) (read_bytes m (result_loc y r) (fy_seg y)) (map (fp_input y m0 r) (filter P ss))"
  using assms
proof (induction ss arbitrary: m)
  case (Cons s ss)
  show ?case
  proof (cases "P s")
    case True
    have c: "clean y m0 r (in_result y r) (run_works y (works (f s)) m)"
      and v: "read_bytes (run_works y (works (f s)) m) (result_loc y r) (fy_seg y) =
        fy_combine y (read_bytes m (result_loc y r) (fy_seg y)) (fp_input y m0 r s)"
      using Cons.prems(1)[of s m] Cons.prems(3) True by simp_all
    show ?thesis using Cons.IH[OF Cons.prems(1,2) c] v True by simp
  next
    case False
    then show ?thesis using Cons.IH[OF Cons.prems(1,2,3)] Cons.prems(2)[of s] by simp
  qed
qed simp


lemma read_own_input:
  assumes "fy_ok y" "is_rank y r" "clean y m0 r (in_result y r) m" "fy_kind y = FpAllReduce"
  shows "read_bytes m (Dev r (rq_send (fy_req y r))) (fy_seg y) = fp_input y m0 r r"
proof -
  have "\<not> in_result y r (Dev r (rq_send (fy_req y r) + i))" if "i < fy_seg y" for i
    using fy_placed[OF assms(1,2)] assms(4) that
    by (auto simp: placed_def Let_def apart_def in_result_def result_loc_def dev_range)
  then have "m (Dev r (rq_send (fy_req y r) + i)) = m0 (Dev r (rq_send (fy_req y r) + i))" if "i < fy_seg y" for i
    using assms(3) that by (auto simp: clean_def ref_view_def)
  then show ?thesis using assms(4) by (simp add: fp_input_def read_offset_def read_bytes_def)
qed

lemma seed_other: "fy_ok y \<Longrightarrow> is_rank y r \<Longrightarrow> is_rank y (seed_of r) \<and> seed_of r \<noteq> r"
  by (simp add: fy_ok_def is_rank_def seed_of_def)

lemma allreduce_result:
  assumes "fy_ok y" "is_rank y r" "fy_kind y = FpAllReduce" "clean y m0 r (\<lambda>_. False) m"
  shows "read_bytes (run_works y (main_works y r) m) (result_loc y r) (fy_seg y) = fp_result y m0 r"
proof -
  have off: "read_offset y r = 0" using assms(3) by (simp add: read_offset_def)
  have c: "clean y m0 r (in_result y r) m" by (rule clean_weaken[OF assms(4)]) simp
  note sd = seed_other[OF assms(1,2)]
  define m1 where "m1 = do_work (fy_kernel y) (FpCopy (result_loc y r) (source_loc y r (seed_of r)) (fy_seg y)) m"
  have c1: "clean y m0 r (in_result y r) m1" unfolding m1_def by (rule copy_to_result(1)[OF c])
  have v1: "read_bytes m1 (result_loc y r) (fy_seg y) = fp_input y m0 r (seed_of r)"
    unfolding m1_def copy_to_result(2)[OF c]
    using read_source[OF c assms(2) _ _ in_result_owner, of "seed_of r"] sd off by simp
  have "read_bytes (run_works y (works (concat (map (sum_calls y r) [0..fy_n y - 1]))) m1) (result_loc y r) (fy_seg y) =
    foldl (fy_combine y) (read_bytes m1 (result_loc y r) (fy_seg y))
      (map (fp_input y m0 r) (filter (\<lambda>s. s \<noteq> seed_of r) [0..fy_n y - 1]))"
  proof (rule reduce_list[OF _ _ c1])
    fix s m assume s: "s \<in> set [0..fy_n y - 1]" "s \<noteq> seed_of r" and m: "clean y m0 r (in_result y r) m"
    note r = fy_ranks_mem[OF s(1)]
    show "clean y m0 r (in_result y r) (run_works y (works (sum_calls y r s)) m) \<and>
      read_bytes (run_works y (works (sum_calls y r s)) m) (result_loc y r) (fy_seg y) =
        fy_combine y (read_bytes m (result_loc y r) (fy_seg y)) (fp_input y m0 r s)"
    proof (cases "s = r")
      case True
      then show ?thesis using s(2) reduce_from[OF assms(1) m, of "Dev r (rq_send (fy_req y r))"]
          read_own_input[OF assms(1,2) m assms(3)] by (simp add: sum_calls_def)
    next
      case False
      then show ?thesis using s(2) reduce_one[OF assms(1,2) r False m] off by (simp add: sum_calls_def)
    qed
  qed (simp add: sum_calls_def)
  then show ?thesis using v1
    by (simp add: main_works_def main_calls_def assms(3) work_of_source m1_def fp_result_def reduce_all_def)
qed

lemma scatter_result:
  assumes "fy_ok y" "is_rank y r" "fy_kind y = FpReduceScatter" "clean y m0 r (\<lambda>_. False) m"
  shows "read_bytes (run_works y (main_works y r) m) (result_loc y r) (fy_seg y) = fp_result y m0 r"
proof -
  have off: "read_offset y r = part_offset y r" using assms(3) by (simp add: read_offset_def)
  have c: "clean y m0 r (in_result y r) m" by (rule clean_weaken[OF assms(4)]) simp
  let ?own = "Dev r (rq_send (fy_req y r) + part_offset y r)"
  have own: "read_bytes m ?own (fy_seg y) = fp_input y m0 r r"
    using assms(4) off by (simp add: fp_input_def read_bytes_def clean_def ref_view_def)
  define ws where "ws = (if rq_send (fy_req y r) + part_offset y r = rq_recv (fy_req y r) then []
      else [FpCopy (result_loc y r) ?own (fy_seg y)])"
  define m1 where "m1 = run_works y ws m"
  have c1: "clean y m0 r (in_result y r) m1" unfolding m1_def ws_def using copy_to_result(1)[OF c] c by simp
  have v1: "read_bytes m1 (result_loc y r) (fy_seg y) = fp_input y m0 r r"
    unfolding m1_def ws_def using copy_to_result(2)[OF c, of ?own] own by (auto simp: result_loc_def)
  let ?f = "\<lambda>s. if s = r then [] else reduce_calls y r (part_offset y r) s"
  have "read_bytes (run_works y (works (concat (map ?f [0..fy_n y - 1]))) m1) (result_loc y r) (fy_seg y) =
    foldl (fy_combine y) (read_bytes m1 (result_loc y r) (fy_seg y))
      (map (fp_input y m0 r) (filter (\<lambda>s. s \<noteq> r) [0..fy_n y - 1]))"
  proof (rule reduce_list[OF _ _ c1])
    fix s m assume s: "s \<in> set [0..fy_n y - 1]" "s \<noteq> r" and m: "clean y m0 r (in_result y r) m"
    show "clean y m0 r (in_result y r) (run_works y (works (?f s)) m) \<and>
      read_bytes (run_works y (works (?f s)) m) (result_loc y r) (fy_seg y) =
        fy_combine y (read_bytes m (result_loc y r) (fy_seg y)) (fp_input y m0 r s)"
      using reduce_one[OF assms(1,2) fy_ranks_mem[OF s(1)] s(2) m] s(2) off by simp
  qed simp
  moreover have "main_works y r = ws @ works (concat (map ?f [0..fy_n y - 1]))"
    by (simp add: main_works_def main_calls_def assms(3) ws_def)
  ultimately show ?thesis using v1 by (simp add: m1_def fp_result_def assms(3) reduce_all_def)
qed

lemma broadcast_result:
  assumes "fy_ok y" "is_rank y r" "fy_kind y = FpBroadcast" "clean y m0 r (\<lambda>_. False) m"
  shows "read_bytes (run_works y (main_works y r) m) (result_loc y r) (fy_seg y) = fp_result y m0 r"
proof -
  have off: "read_offset y r = 0" using assms(3) by (simp add: read_offset_def)
  have c: "clean y m0 r (in_result y r) m" by (rule clean_weaken[OF assms(4)]) simp
  let ?root = "rq_root (fy_req y 0)"
  note rk = fy_rank[OF assms(1,2)]
  have k: "rq_kind (fy_req y r) = FpBroadcast" using rk(5) assms(3) by simp
  have root: "is_rank y ?root"
    using handled_facts(7)[OF fy_handled[OF assms(1,2)] k] rk by (simp add: is_rank_def)
  have v: "read_bytes m (source_loc y r ?root) (fy_seg y) = fp_input y m0 r ?root"
  proof (cases "?root = r")
    case True
    then show ?thesis using assms(4) off by (simp add: source_loc_def fp_input_def read_bytes_def clean_def ref_view_def)
  next
    case False
    then show ?thesis using read_source[OF c assms(2) root False in_result_owner] off by simp
  qed
  show ?thesis
    using copy_to_result(2)[OF c, of "source_loc y r ?root"] v
    by (auto simp: main_works_def main_calls_def assms(3) work_of_source fp_result_def)
qed


definition piece_loc :: "fp_system \<Rightarrow> int \<Rightarrow> int \<Rightarrow> fp_loc" where
  "piece_loc y r s = loc_plus (result_loc y r) (nat s * fy_seg y)"

lemma pieces_apart:
  assumes "is_rank y s" "is_rank y t" "s \<noteq> t" "in_range (piece_loc y r s) (fy_seg y) p"
  shows "\<not> in_range (piece_loc y r t) (fy_seg y) p"
proof -
  have "nat s \<noteq> nat t" using assms(1-3) by (auto simp: is_rank_def)
  then consider "Suc (nat s) \<le> nat t" | "Suc (nat t) \<le> nat s" by linarith
  then have "nat s * fy_seg y + fy_seg y \<le> nat t * fy_seg y \<or> nat t * fy_seg y + fy_seg y \<le> nat s * fy_seg y"
    using mult_le_mono1[of "Suc (nat s)" "nat t" "fy_seg y"] mult_le_mono1[of "Suc (nat t)" "nat s" "fy_seg y"] by cases simp_all
  then show ?thesis using assms(4) by (auto simp: piece_loc_def result_loc_def dev_range)
qed

lemma own_input_kept:
  assumes "fy_ok y" "is_rank y r" "is_rank y s" "fy_kind y = FpAllGather" "i < fy_seg y"
    "s \<noteq> r \<or> rq_send (fy_req y r) \<noteq> rq_recv (fy_req y r) + nat r * fy_seg y"
  shows "\<not> in_range (piece_loc y r s) (fy_seg y) (Dev r (rq_send (fy_req y r) + i))"
proof (cases "rq_send (fy_req y r) = rq_recv (fy_req y r) + nat r * fy_seg y")
  case True
  then have e: "Dev r (rq_send (fy_req y r) + i) = loc_plus (piece_loc y r r) i" by (simp add: piece_loc_def result_loc_def)
  have "in_range (piece_loc y r r) (fy_seg y) (loc_plus (piece_loc y r r) i)" using assms(5) by (auto simp: in_range_def)
  then show ?thesis unfolding e using pieces_apart[OF assms(2,3), of r] assms(6) True by blast
next
  case False
  have "Suc (nat s) \<le> nat (fy_n y)" using assms(3) by (auto simp: is_rank_def)
  then have "nat s * fy_seg y + fy_seg y \<le> nat (fy_n y) * fy_seg y"
    using mult_le_mono1[of "Suc (nat s)" "nat (fy_n y)" "fy_seg y"] by simp
  then show ?thesis using False fy_placed[OF assms(1,2)] assms(4,5)
    by (auto simp: placed_def Let_def apart_def piece_loc_def result_loc_def dev_range)
qed

lemma gather_run:
  assumes "fy_ok y" "is_rank y r" "fy_kind y = FpAllGather" "clean y m0 r (\<lambda>_. False) m"
    "distinct ss" "\<And>s. s \<in> set ss \<Longrightarrow> is_rank y s"
  defines "out \<equiv> \<lambda>ss p. \<exists>s \<in> set ss. in_range (piece_loc y r s) (fy_seg y) p"
  shows "(\<forall>s \<in> set ss. read_bytes (run_works y (works (concat (map (gather_calls y r) ss))) m) (piece_loc y r s) (fy_seg y) = fp_input y m0 r s) \<and>
    clean y m0 r (out ss) (run_works y (works (concat (map (gather_calls y r) ss))) m)"
  using assms(5,6)
proof (induction ss rule: rev_induct)
  case Nil
  then show ?case using assms(4) by (simp add: out_def)
next
  case (snoc s ss)
  define M where "M = run_works y (works (concat (map (gather_calls y r) ss))) m"
  have off: "read_offset y r = 0" using assms(3) by (simp add: read_offset_def)
  have A: "\<forall>t \<in> set ss. read_bytes M (piece_loc y r t) (fy_seg y) = fp_input y m0 r t" and B: "clean y m0 r (out ss) M"
    using snoc by (auto simp: M_def)
  have rs: "is_rank y s" "s \<notin> set ss" "\<And>t. t \<in> set ss \<Longrightarrow> is_rank y t" using snoc.prems by auto
  have outo: "owner_of p = r" if "out ss p" for p
    using that by (auto simp: out_def in_range_def piece_loc_def result_loc_def)
  have kept: "M (Dev r (rq_send (fy_req y r) + i)) = m0 (Dev r (rq_send (fy_req y r) + i))" if "i < fy_seg y" "s = r" for i
  proof -
    have "\<not> out ss (Dev r (rq_send (fy_req y r) + i))"
      unfolding out_def using own_input_kept[OF assms(1,2) rs(3) assms(3) that(1)] rs(2) that(2) by blast
    then show ?thesis using B by (simp add: clean_def ref_view_def)
  qed
  have v: "read_bytes M (source_loc y r s) (fy_seg y) = fp_input y m0 r s"
  proof (cases "s = r")
    case True
    then show ?thesis using kept off by (simp add: source_loc_def fp_input_def read_bytes_def)
  next
    case False
    then show ?thesis using read_source[OF B assms(2) rs(1) False outo] off by simp
  qed
  define M' where "M' = run_works y (works (gather_calls y r s)) M"
  have M': "M' = (if source_loc y r s = piece_loc y r s then M else do_work (fy_kernel y) (FpCopy (piece_loc y r s) (source_loc y r s) (fy_seg y)) M)"
    by (simp add: M'_def gather_calls_def work_of_source piece_loc_def)
  have rd: "read_bytes M' (piece_loc y r s) (fy_seg y) = fp_input y m0 r s"
    unfolding M' using v by (auto simp: read_write_same)
  have oth: "M' p = M p" if "\<not> in_range (piece_loc y r s) (fy_seg y) p" for p
    unfolding M' using that by (simp add: write_bytes_other)
  have "read_bytes M' (piece_loc y r t) (fy_seg y) = fp_input y m0 r t" if t: "t \<in> set ss" for t
  proof -
    have "t \<noteq> s" using t rs(2) by auto
    then have "\<not> in_range (piece_loc y r s) (fy_seg y) (loc_plus (piece_loc y r t) i)" if "i < fy_seg y" for i
      using pieces_apart[OF rs(3)[OF t] rs(1), of r "loc_plus (piece_loc y r t) i"] that by (auto simp: in_range_def)
    then have "read_bytes M' (piece_loc y r t) (fy_seg y) = read_bytes M (piece_loc y r t) (fy_seg y)"
      by (intro read_bytes_cong oth)
    then show ?thesis using A t by simp
  qed
  then have "\<forall>t \<in> set (ss @ [s]). read_bytes M' (piece_loc y r t) (fy_seg y) = fp_input y m0 r t" using rd by simp
  moreover have "clean y m0 r (out (ss @ [s])) M'"
    using B oth by (auto simp: clean_def out_def)
  moreover have "run_works y (works (concat (map (gather_calls y r) (ss @ [s])))) m = M'" by (simp add: M'_def M_def)
  ultimately show ?case by simp
qed

lemma read_pieces:
  "read_bytes m l (k * n) = concat (map (\<lambda>i. read_bytes m (loc_plus l (i * n)) n) [0..<k])"
proof (induction k)
  case (Suc k)
  have "read_bytes m l (k * n + n) = read_bytes m l (k * n) @ read_bytes m (loc_plus l (k * n)) n"
    by (rule nth_equalityI) (auto simp: nth_append)
  then show ?case using Suc by (simp add: add.commute)
qed (simp add: read_bytes_def)

lemma int_ranks: "[0..fy_n y - 1] = map int [0..<nat (fy_n y)]"
proof -
  have "map int [0..<k] = [0..int k - 1]" for k
    by (induction k) (simp_all add: upto_rec2)
  then show ?thesis by (cases "0 \<le> fy_n y") simp_all
qed

lemma gather_result:
  assumes "fy_ok y" "is_rank y r" "fy_kind y = FpAllGather" "clean y m0 r (\<lambda>_. False) m"
  shows "read_bytes (run_works y (main_works y r) m) (result_loc y r) (nat (fy_n y) * fy_seg y) = fp_result y m0 r"
proof -
  have w: "main_works y r = works (concat (map (gather_calls y r) [0..fy_n y - 1]))"
    by (simp add: main_works_def main_calls_def assms(3))
  have g: "read_bytes (run_works y (main_works y r) m) (piece_loc y r s) (fy_seg y) = fp_input y m0 r s" if "s \<in> set [0..fy_n y - 1]" for s
    using gather_run[OF assms, of "[0..fy_n y - 1]"] fy_ranks_mem that unfolding w by auto
  have "read_bytes (run_works y (main_works y r) m) (result_loc y r) (nat (fy_n y) * fy_seg y) =
    concat (map (\<lambda>s. read_bytes (run_works y (main_works y r) m) (piece_loc y r s) (fy_seg y)) [0..fy_n y - 1])"
    unfolding read_pieces int_ranks by (simp add: piece_loc_def comp_def)
  also have "\<dots> = concat (map (fp_input y m0 r) [0..fy_n y - 1])"
    using g by (intro arg_cong[where f = concat] map_cong) auto
  finally show ?thesis by (simp add: fp_result_def assms(3))
qed

text \<open>All together.\<close>

definition result_bytes :: "fp_system \<Rightarrow> nat" where
  "result_bytes y = (if fy_kind y = FpAllGather then nat (fy_n y) * fy_seg y else fy_seg y)"

lemma script_result:
  assumes "fy_ok y" "is_rank y r"
  shows "read_bytes (local_run y r m0 (works (script y r))) (result_loc y r) (result_bytes y) = fp_result y m0 r"
proof -
  have e: "local_run y r m0 (works (script y r)) =
      run_works y (main_works y r) (local_run y r m0 (if stages y r then [stage_copy y r, FpMark] else []))"
    unfolding script_works[OF assms] local_run_def by simp
  show ?thesis unfolding e
    using clean_start[OF assms(1), of m0 r] gather_result[OF assms] allreduce_result[OF assms] scatter_result[OF assms]
      broadcast_result[OF assms]
    by (cases "fy_kind y") (simp_all add: result_bytes_def)
qed

end
