(* ===== verification/FastPathJoint.thy ===== *)
theory FastPathJoint
  imports FastPathResult
begin

text \<open>
  The invariant of the joint execution: every rank is at a position of its script, its streams
  hold the work it has enqueued and not yet executed, and its memory is what the executed work
  makes of the inputs.
\<close>

section \<open>Parameters of the calls\<close>

fun call_params :: "fp_system \<Rightarrow> int \<Rightarrow> fp_call \<Rightarrow> bool" where
  "call_params y r (WaitUserReady slot seq) \<longleftrightarrow> slot = fy_slot y \<and> seq = fy_seq y"
| "call_params y r (PublishReady slot seq) \<longleftrightarrow> slot = fy_slot y \<and> seq = fy_seq y"
| "call_params y r (PublishStage slot seq) \<longleftrightarrow> slot = fy_slot y \<and> seq = fy_seq y"
| "call_params y r (PublishDirect slot seq b) \<longleftrightarrow> slot = fy_slot y \<and> seq = fy_seq y \<and> b = lad y r"
| "call_params y r (WaitStatus p slot seq) \<longleftrightarrow> slot = fy_slot y \<and> seq = fy_seq y \<and> is_rank y p"
| "call_params y r (WaitPeerReady p slot seq) \<longleftrightarrow> slot = fy_slot y \<and> seq = fy_seq y \<and> is_rank y p"
| "call_params y r (WaitPeerStage p slot seq) \<longleftrightarrow> slot = fy_slot y \<and> seq = fy_seq y \<and> is_rank y p"
| "call_params y r _ \<longleftrightarrow> True"

lemma source_params: "is_rank y s \<Longrightarrow> c \<in> set (source_calls y r s) \<Longrightarrow> call_params y r c"
  by (auto simp: source_calls_def split: if_splits)

lemma main_params:
  assumes "fy_ok y" "is_rank y r" "c \<in> set (main_calls y r)"
  shows "call_params y r c"
proof -
  have rc: "call_params y r c'" if "is_rank y s" "c' \<in> set (reduce_calls y r off s)" for s off c'
    using that source_params by (auto simp: reduce_calls_def)
  have sc: "call_params y r c'" if "is_rank y s" "c' \<in> set (sum_calls y r s)" for s c'
    using that rc by (auto simp: sum_calls_def split: if_splits)
  have gc: "call_params y r c'" if "is_rank y s" "c' \<in> set (gather_calls y r s)" for s c'
    using that source_params by (auto simp: gather_calls_def split: if_splits)
  note rk = fy_rank[OF assms(1,2)]
  show ?thesis
  proof (cases "fy_kind y")
    case FpAllGather
    then show ?thesis using assms(3) gc fy_ranks_mem unfolding main_calls_def by (auto simp del: set_upto)
  next
    case FpAllReduce
    then show ?thesis using assms(3) sc fy_ranks_mem source_params seed_other[OF assms(1,2)]
      unfolding main_calls_def by (auto simp del: set_upto)
  next
    case FpReduceScatter
    then show ?thesis using assms(3) rc fy_ranks_mem unfolding main_calls_def by (auto simp del: set_upto split: if_splits)
  next
    case FpBroadcast
    have k: "rq_kind (fy_req y r) = FpBroadcast" using rk(5) FpBroadcast by simp
    have "is_rank y (rq_root (fy_req y 0))"
      using handled_facts(7)[OF fy_handled[OF assms(1,2)] k] rk by (simp add: is_rank_def)
    then show ?thesis using assms(3) source_params FpBroadcast unfolding main_calls_def by (auto split: if_splits)
  qed
qed

lemma script_params:
  assumes "fy_ok y" "is_rank y r" "c \<in> set (script y r)"
  shows "call_params y r c"
proof -
  have "c \<in> set (mode_calls y r) \<Longrightarrow> call_params y r c" using fy_ranks_mem
    by (auto simp: mode_calls_def simp del: set_upto)
  moreover have "c \<in> set (stage_calls y r) \<Longrightarrow> call_params y r c" by (auto simp: stage_calls_def split: if_splits)
  ultimately show ?thesis using assms(3) main_params[OF assms(1,2)] by (auto simp: script_calls[OF assms(1,2)])
qed

section \<open>Shared memory\<close>

definition announced_ready :: "fp_system \<Rightarrow> shared_state \<Rightarrow> int \<Rightarrow> bool" where
  "announced_ready y sh q \<longleftrightarrow> getFastpathReadySeq sh (fy_comm y q) q (fy_slot y) = fy_seq y"

definition announced_stage :: "fp_system \<Rightarrow> shared_state \<Rightarrow> int \<Rightarrow> bool" where
  "announced_stage y sh q \<longleftrightarrow> getFastpathStageSeq sh (fy_comm y q) q (fy_slot y) = fy_seq y"

definition direct_status :: "fp_system \<Rightarrow> shared_state \<Rightarrow> int \<Rightarrow> int" where
  "direct_status y sh q = getFastpathDirectStatus sh (fy_comm y q) q (fy_slot y) (fy_seq y)"

lemma fy_same_comm: "fy_ok y \<Longrightarrow> is_rank y r \<Longrightarrow> is_rank y q \<Longrightarrow> fy_comm y r = fy_comm y q"
  by (simp add: fy_ok_def fy_rank_ok_def fy_comm_def)

lemma fy_slot_args: "fy_ok y \<Longrightarrow> is_rank y r \<Longrightarrow> slot_args_ok (fy_comm y r) r (fy_slot y)"
  by (simp add: fy_ok_def fy_rank_ok_def)

lemma publish_ready:
  fixes sh :: shared_state
  assumes "fy_ok y" "is_rank y r" "is_rank y q"
  defines "sh' \<equiv> publishFastpathReadySeq (fy_comm y r) r (fy_slot y) (fy_seq y) sh"
  shows "announced_ready y sh' q \<longleftrightarrow> q = r \<or> announced_ready y sh q" "announced_stage y sh' q \<longleftrightarrow> announced_stage y sh q"
    "direct_status y sh' q = direct_status y sh q"
  using fy_slot_args[OF assms(1,2)] fy_slot_args[OF assms(1,3)]
  by (auto simp: sh'_def announced_ready_def announced_stage_def direct_status_def publishFastpathReadySeq_def
    getFastpathReadySeq_def getFastpathStageSeq_def getFastpathDirectStatus_def upd3_def)

lemma publish_stage:
  fixes sh :: shared_state
  assumes "fy_ok y" "is_rank y r" "is_rank y q"
  defines "sh' \<equiv> publishFastpathStageSeq (fy_comm y r) r (fy_slot y) (fy_seq y) sh"
  shows "announced_ready y sh' q \<longleftrightarrow> announced_ready y sh q" "announced_stage y sh' q \<longleftrightarrow> q = r \<or> announced_stage y sh q"
    "direct_status y sh' q = direct_status y sh q"
  using fy_slot_args[OF assms(1,2)] fy_slot_args[OF assms(1,3)]
  by (auto simp: sh'_def announced_ready_def announced_stage_def direct_status_def publishFastpathStageSeq_def
    getFastpathReadySeq_def getFastpathStageSeq_def getFastpathDirectStatus_def upd3_def)

lemma publish_direct:
  fixes sh :: shared_state and b :: bool
  assumes "fy_ok y" "is_rank y r" "is_rank y q"
  defines "sh' \<equiv> publishFastpathDirectStatus (fy_comm y r) r (fy_slot y) (fy_seq y) b sh"
  shows "announced_ready y sh' q \<longleftrightarrow> announced_ready y sh q" "announced_stage y sh' q \<longleftrightarrow> announced_stage y sh q"
    "direct_status y sh' q = (if q = r then if b then 1 else 0 else direct_status y sh q)"
proof -
  have z: "0 < fy_seq y" using assms(1) by (simp add: fy_ok_def)
  show "announced_ready y sh' q \<longleftrightarrow> announced_ready y sh q" "announced_stage y sh' q \<longleftrightarrow> announced_stage y sh q"
    "direct_status y sh' q = (if q = r then if b then 1 else 0 else direct_status y sh q)"
    using fy_slot_args[OF assms(1,2)] fy_slot_args[OF assms(1,3)] z
    by (auto simp: sh'_def announced_ready_def announced_stage_def direct_status_def publishFastpathDirectStatus_def
      getFastpathReadySeq_def getFastpathStageSeq_def getFastpathDirectStatus_def upd3_def Let_def)
qed

section \<open>Positions\<close>

text \<open>\<open>cs\<close> are the calls a rank has made with success.\<close>

definition on_track :: "fp_system \<Rightarrow> int \<Rightarrow> pccl_result fp_prog \<Rightarrow> fp_call list \<Rightarrow> bool" where
  "on_track y r p cs \<longleftrightarrow> script y r = cs @ calls (good_reply y r) p \<and> strict (good_reply y r) failed p \<and>
     outcome (good_reply y r) p = pcclSuccess"

definition gave_up :: "fp_system \<Rightarrow> int \<Rightarrow> pccl_result fp_prog \<Rightarrow> fp_call list \<Rightarrow> bool" where
  "gave_up y r p cs \<longleftrightarrow> (\<exists>more. script y r = cs @ more) \<and> (\<exists>e. p = Ret e \<and> failed e)"

definition position_ok :: "fp_system \<Rightarrow> int \<Rightarrow> pccl_result fp_prog \<Rightarrow> fp_call list \<Rightarrow> bool" where
  "position_ok y r p cs \<longleftrightarrow> on_track y r p cs \<or> gave_up y r p cs"

lemma position_prefix: "position_ok y r p cs \<Longrightarrow> \<exists>more. script y r = cs @ more"
  by (auto simp: position_ok_def on_track_def gave_up_def)

lemma position_call:
  assumes "position_ok y r (Call c k) cs"
  shows "script y r = cs @ c # calls (good_reply y r) (k (good_reply y r c))"
    "position_ok y r (k (good_reply y r c)) (cs @ [c])" "bad_reply c n \<Longrightarrow> position_ok y r (k n) cs"
proof -
  have t: "on_track y r (Call c k) cs" using assms by (auto simp: position_ok_def gave_up_def)
  then show "script y r = cs @ c # calls (good_reply y r) (k (good_reply y r c))" by (simp add: on_track_def)
  show "position_ok y r (k (good_reply y r c)) (cs @ [c])" using t by (simp add: position_ok_def on_track_def)
  show "position_ok y r (k n) cs" if "bad_reply c n"
    using t that by (auto simp: position_ok_def gave_up_def on_track_def)
qed

lemma position_start: "fy_ok y \<Longrightarrow> is_rank y r \<Longrightarrow> position_ok y r (fy_prog y r) []"
  using script_calls(2,3) by (simp add: position_ok_def on_track_def script_def)

lemma position_success: "position_ok y r (Ret pcclSuccess) cs \<Longrightarrow> cs = script y r"
  by (auto simp: position_ok_def on_track_def gave_up_def)

section \<open>Streams\<close>

definition pending :: "(fp_lane \<Rightarrow> fp_work list) \<Rightarrow> fp_work list" where
  "pending q = q LaneD2H @ q LaneD2D @ q LaneReduce"

text \<open>What the queues can hold at a state of the lanes.\<close>

fun lanes_match :: "lane_state \<Rightarrow> (fp_lane \<Rightarrow> fp_work list) \<Rightarrow> bool" where
  "lanes_match Idle q \<longleftrightarrow> (\<forall>l. q l = [])"
| "lanes_match Final q \<longleftrightarrow> (\<forall>l. q l = [])"
| "lanes_match (Busy l) q \<longleftrightarrow> (\<forall>l'. l' \<noteq> l \<longrightarrow> q l' = [])"
| "lanes_match (Marked l) q \<longleftrightarrow> (\<forall>l'. l' \<noteq> l \<longrightarrow> q l' = []) \<and> (q l = [] \<or> last (q l) = FpMark)"

lemma pending_one: "(\<And>l'. l' \<noteq> l \<Longrightarrow> q l' = []) \<Longrightarrow> pending q = q l"
  by (cases l) (simp_all add: pending_def)

lemma lanes_one:
  assumes "lanes_match st q" "q l \<noteq> []"
  shows "l' \<noteq> l \<Longrightarrow> q l' = []"
  using assms by (cases st; simp; metis)

lemma lanes_pop:
  assumes "lanes_match st q" "q l = w # rest"
  shows "lanes_match st (q(l := rest))" "pending q = w # rest" "pending (q(l := rest)) = rest"
proof -
  have o: "q l' = []" if "l' \<noteq> l" for l' using lanes_one[OF assms(1) _ that] assms(2) by simp
  show "lanes_match st (q(l := rest))" using assms o by (cases st) (auto split: if_splits)
  show "pending q = w # rest" using pending_one[of l q] o assms(2) by simp
  show "pending (q(l := rest)) = rest" using pending_one[of l "q(l := rest)"] o by simp
qed

lemma lanes_push:
  assumes "lanes_match st q" "st = Idle \<or> st = Busy l"
  shows "lanes_match (Busy l) (q(l := q l @ [w]))" "lanes_match (Marked l) (q(l := q l @ [FpMark]))"
    "pending (q(l := q l @ [w])) = pending q @ [w]"
proof -
  have o: "q l' = []" if "l' \<noteq> l" for l' using assms that by auto
  show "lanes_match (Busy l) (q(l := q l @ [w]))" "lanes_match (Marked l) (q(l := q l @ [FpMark]))" using o by auto
  show "pending (q(l := q l @ [w])) = pending q @ [w]"
    using pending_one[of l q] pending_one[of l "q(l := q l @ [w])"] o by simp
qed

end
