(* ===== verification/FastPathInv.thy ===== *)
theory FastPathInv
  imports FastPathJoint
begin

text \<open>
  The invariant of the joint execution and its preservation by every step.
\<close>

section \<open>The invariant\<close>

definition stage_works :: "fp_system \<Rightarrow> int \<Rightarrow> fp_work list" where
  "stage_works y r = (if stages y r then [stage_copy y r, FpMark] else [])"

definition staged_call :: "fp_call list \<Rightarrow> bool" where
  "staged_call cs \<longleftrightarrow> (\<exists>slot seq. PublishStage slot seq \<in> set cs)"

definition rank_inv :: "fp_system \<Rightarrow> fp_world \<Rightarrow> int \<Rightarrow> fp_call list \<Rightarrow> fp_work list \<Rightarrow> bool" where
  "rank_inv y w r cs ws \<longleftrightarrow>
     position_ok y r (fw_prog w r) cs \<and>
     (\<exists>st. run_lanes Idle cs = Some st \<and> lanes_match st (fw_queue w r)) \<and>
     works cs = ws @ pending (fw_queue w r) \<and>
     (\<forall>p. owner_of p = r \<longrightarrow> fw_mem w p = local_run y r (fw_input w) ws p) \<and>
     (cs \<noteq> [] \<longrightarrow> fw_ready w r) \<and>
     (staged_call cs \<longrightarrow> (\<exists>rest. ws = stage_works y r @ rest)) \<and>
     (fw_arrived w r \<longrightarrow> cs \<noteq> [] \<and> (\<exists>post. script y r = cs @ post \<and> works post = []) \<and>
        run_lanes Idle cs \<in> {Some Idle, Some Final})"

definition pair_inv :: "fp_system \<Rightarrow> fp_world \<Rightarrow> (int \<Rightarrow> fp_call list) \<Rightarrow> int \<Rightarrow> int \<Rightarrow> bool" where
  "pair_inv y w cs r q \<longleftrightarrow>
     (announced_ready y (fw_shared w) q \<longrightarrow> cs q \<noteq> []) \<and>
     (announced_stage y (fw_shared w) q \<longrightarrow> staged_call (cs q)) \<and>
     direct_status y (fw_shared w) q \<in> {-1, if lad y q then 1 else 0} \<and>
     (\<forall>c \<in> set (cs r). ready_sig c = Some q \<longrightarrow> cs q \<noteq> []) \<and>
     (\<forall>c \<in> set (cs r). stage_sig c = Some q \<longrightarrow> staged_call (cs q)) \<and>
     (FpBarrier \<in> set (cs r) \<longrightarrow> fw_arrived w q)"

definition joint_inv :: "fp_system \<Rightarrow> fp_world \<Rightarrow> bool" where
  "joint_inv y w \<longleftrightarrow> (\<exists>cs ws. (\<forall>r. is_rank y r \<longrightarrow> rank_inv y w r (cs r) (ws r)) \<and>
     (\<forall>r q. is_rank y r \<and> is_rank y q \<longrightarrow> pair_inv y w cs r q))"

lemma joint_start:
  assumes "fy_ok y" "fp_start y w"
  shows "joint_inv y w"
proof -
  have "rank_inv y w r [] []" if "is_rank y r" for r
    using assms(2) that position_start[OF assms(1) that]
    by (simp add: fp_start_def rank_inv_def fy_prog_def pending_def local_run_def ref_view_def staged_call_def)
  moreover have "pair_inv y w (\<lambda>_. []) r q" if "is_rank y r" "is_rank y q" for r q
    using assms(2) that by (simp add: fp_start_def pair_inv_def announced_ready_def announced_stage_def direct_status_def)
  ultimately show ?thesis unfolding joint_inv_def by (intro exI[of _ "\<lambda>_. []"]) simp
qed

section \<open>Work and its announcements\<close>

lemma works_split: "w \<in> set (works cs) \<Longrightarrow> source_of w \<noteq> None \<Longrightarrow> \<exists>xs l ys. cs = xs @ Enqueue l w # ys"
proof (induction cs)
  case (Cons c cs)
  show ?case
  proof (cases "w \<in> set (works cs)")
    case True
    then obtain xs l ys where "cs = xs @ Enqueue l w # ys" using Cons by blast
    then have "c # cs = (c # xs) @ Enqueue l w # ys" by simp
    then show ?thesis by blast
  next
    case False
    then have "c = Enqueue l w" if "c = Enqueue l v" for l v using Cons.prems that by simp
    moreover have "\<exists>l v. c = Enqueue l v" using Cons.prems False by (cases c) auto
    ultimately have "c # cs = [] @ Enqueue (case c of Enqueue l v \<Rightarrow> l) w # cs" by auto
    then show ?thesis by blast
  qed
qed simp

lemma work_announced:
  assumes "fy_ok y" "is_rank y r" "script y r = cs @ post" "w \<in> set (works cs)"
  shows "reads_other r w q \<Longrightarrow> \<exists>c \<in> set cs. ready_sig c = Some q" "reads_staged r w q \<Longrightarrow> \<exists>c \<in> set cs. stage_sig c = Some q"
proof -
  have *: "\<exists>c \<in> set cs. sig c = Some q" if n: "need w q" and g: "own_free r need" "announced y r sig need" for sig need
  proof -
    have "source_of w \<noteq> None" using g(1) n by (auto simp: own_free_def)
    then obtain xs l ys where "cs = xs @ Enqueue l w # ys" using works_split[OF assms(4)] by blast
    then show ?thesis using guarded_enqueue[of sig need "{}" xs l w "ys @ post" q] script_guarded[OF assms(1,2) g] assms(3) n
      by auto
  qed
  show "reads_other r w q \<Longrightarrow> \<exists>c \<in> set cs. ready_sig c = Some q" by (rule *[OF _ ready_guard])
  show "reads_staged r w q \<Longrightarrow> \<exists>c \<in> set cs. stage_sig c = Some q" by (rule *[OF _ stage_guard])
qed

lemma staged_needs:
  assumes "fy_ok y" "reads_from y r q" "\<not> reads_direct y r q"
  shows "stages y q"
proof -
  have r: "is_rank y r" "is_rank y q" "q \<noteq> r" using assms(2) by (auto simp: reads_from_def)
  note rk = fy_rank[OF assms(1) r(1)] and qk = fy_rank[OF assms(1) r(2)]
  have "localSourceNeededByAnyRank (fy_env y q) (fy_req y q)"
    using assms(2) qk by (auto simp: localSourceNeededByAnyRank_def reads_from_def)
  moreover have "\<not> all_direct y"
  proof
    assume a: "all_direct y"
    then have l: "lad y r" using r(1) by (simp add: all_direct_def)
    have "q \<in> set (fp_ranks (fy_env y r))" using rk(3) r(2) by (auto simp: is_rank_def)
    moreover have "sourceRankNeeded (fy_env y r) (fy_req y r) q"
      using assms(2) rk r by (auto simp: sourceRankNeeded_def reads_from_def is_rank_def)
    ultimately have "fe_ipc (fy_env y r) \<and> peerDirectAllowed (fy_env y r) q \<and> fe_ipc_ready (fy_env y r) q \<and> fe_remote (fy_env y r) q \<noteq> 0"
      using l unfolding lad_def localNeedsAllDirectSources_def list_all_iff by blast
    then show False using assms(3) a by (simp add: reads_direct_def may_direct_def remote_direct_allowed_def)
  qed
  ultimately show ?thesis by (simp add: stages_def)
qed

lemma offset_in_stage:
  assumes "is_rank y r" "i < fy_seg y"
  shows "read_offset y r + i < stage_bytes y"
proof (cases "fy_kind y = FpReduceScatter")
  case True
  have "Suc (nat r) \<le> nat (fy_n y)" using assms(1) by (auto simp: is_rank_def)
  then have "nat r * fy_seg y + fy_seg y \<le> fy_seg y * nat (fy_n y)"
    using mult_le_mono1[of "Suc (nat r)" "nat (fy_n y)" "fy_seg y"] by (simp add: mult.commute)
  then show ?thesis using assms(2) True by (simp add: read_offset_def part_offset_def stage_bytes_def)
qed (use assms(2) in \<open>simp add: read_offset_def stage_bytes_def\<close>)

section \<open>Reading at the right time\<close>

fun reads_at :: "fp_work \<Rightarrow> fp_loc \<Rightarrow> bool" where
  "reads_at (FpCopy d s n) p \<longleftrightarrow> in_range s n p"
| "reads_at (FpReduce d s n ty op) p \<longleftrightarrow> in_range s n p \<or> in_range d n p"
| "reads_at FpMark p \<longleftrightarrow> False"

lemma read_bytes_agree: "(\<And>p. in_range l n p \<Longrightarrow> m p = m' p) \<Longrightarrow> read_bytes m l n = read_bytes m' l n"
  by (rule read_bytes_cong) (auto simp: in_range_def)

lemma write_bytes_agree: "m p = m' p \<Longrightarrow> write_bytes l xs m p = write_bytes l xs m' p"
proof (cases "in_range l (length xs) p")
  case True
  then show ?thesis by (auto simp: in_range_def write_bytes_at)
qed (simp add: write_bytes_other)

lemma do_work_agree:
  assumes "\<And>p. reads_at w p \<Longrightarrow> m p = m' p" "m p = m' p"
  shows "do_work k w m p = do_work k w m' p"
proof (cases w)
  case (FpCopy d s n)
  then have "read_bytes m s n = read_bytes m' s n" using assms(1) by (intro read_bytes_agree) auto
  then show ?thesis using FpCopy write_bytes_agree[of m p m'] assms(2) by simp
next
  case (FpReduce d s n ty op)
  then have "read_bytes m s n = read_bytes m' s n" "read_bytes m d n = read_bytes m' d n"
    using assms(1) by (auto intro!: read_bytes_agree)
  then show ?thesis using FpReduce write_bytes_agree[of m p m'] assms(2) by simp
qed (use assms(2) in simp)

lemma script_work_cases:
  assumes "fy_ok y" "is_rank y r" "w \<in> set (works (script y r))"
  obtains (stage) "w = stage_copy y r" | (mark) "w = FpMark" | (main) "w \<in> set (main_works y r)" "work_ok y r w"
  using assms main_work_ok[OF assms(1,2)] by (auto simp: script_works[OF assms(1,2)] split: if_splits)

lemma range_owner: "in_range l n p \<Longrightarrow> owner_of p = owner_of l"
  by (auto simp: in_range_def)

text \<open>A rank that executes work sees its own memory and what it may rely on.\<close>

lemma reads_reference:
  assumes ok: "fy_ok y" and r: "is_rank y r"
    and inv: "\<And>q. is_rank y q \<Longrightarrow> rank_inv y w q (cs q) (ws q)" "\<And>r q. is_rank y r \<Longrightarrow> is_rank y q \<Longrightarrow> pair_inv y w cs r q"
    and wk: "wk \<in> set (works (cs r))" and p: "reads_at wk p"
  shows "fw_mem w p = local_run y r (fw_input w) (ws r) p"
proof -
  have own: "fw_mem w p = local_run y r (fw_input w) (ws r) p" if "owner_of p = r"
    using inv(1)[OF r] that by (simp add: rank_inv_def)
  obtain post where sc: "script y r = cs r @ post" using inv(1)[OF r] position_prefix by (fastforce simp: rank_inv_def)
  have pre: "set (ws q) \<subseteq> set (works (script y q))" if q: "is_rank y q" for q
  proof -
    obtain m where "script y q = cs q @ m" using inv(1)[OF q] position_prefix by (fastforce simp: rank_inv_def)
    moreover have "works (cs q) = ws q @ pending (fw_queue w q)" using inv(1)[OF q] by (simp add: rank_inv_def)
    ultimately show ?thesis by auto
  qed
  have wks: "wk \<in> set (works (script y r))" using wk sc by simp
  consider (stage) "wk = stage_copy y r" | (mark) "wk = FpMark" | (main) "wk \<in> set (main_works y r)" "work_ok y r wk"
    using script_work_cases[OF ok r wks] by blast
  then show ?thesis
  proof cases
    case stage
    then have "owner_of p = r" using p range_owner[of "Dev r (rq_send (fy_req y r))"] by (simp add: stage_copy_def)
    then show ?thesis by (rule own)
  next
    case mark
    then show ?thesis using p by simp
  next
    case main
    have dst: "owner_of p = r" if "dest_of wk = Some (d, n)" "in_range d n p" for d n
      using main(2) that may_write_owner by (auto simp: work_ok_def dest_ok_def)
    show ?thesis
    proof (cases "owner_of p = r")
      case True
      then show ?thesis by (rule own)
    next
      case False
      then obtain d s n where c: "wk = FpCopy d s n" "in_range s n p"
        using p main(2) dst by (cases wk) (auto simp: work_ok_def range_owner)
      then have "owner_of s \<noteq> r" using False range_owner by metis
      then obtain q where q: "reads_from y r q" "s = loc_plus (source_loc y r q) (read_offset y r)" "n = fy_seg y"
        using main(2) c by (auto simp: work_ok_def)
      then have qr: "is_rank y q" "q \<noteq> r" by (auto simp: reads_from_def)
      obtain i where i: "i < fy_seg y" "p = loc_plus (source_loc y r q) (read_offset y r + i)"
        using c(2) q(2,3) by (auto simp: in_range_def)
      have oth: "local_run y r (fw_input w) (ws r) p = ref_view y r (fw_input w) p"
        by (rule local_other_owner[OF ok r pre[OF r] False])
      show ?thesis
      proof (cases "reads_direct y r q")
        case True
        have pe: "p = Dev q (rq_send (fy_req y q) + (read_offset y r + i))" using i(2) True by (simp add: source_loc_def)
        have "in_area y q r (rq_send (fy_req y q) + (read_offset y r + i))" using i(1) by (simp add: in_area_def)
        then have "local_run y q (fw_input w) (ws q) p = fw_input w p"
          unfolding pe by (rule local_area[OF ok pre[OF qr(1)] q(1)])
        then have "fw_mem w p = fw_input w p" using inv(1)[OF qr(1)] by (simp add: rank_inv_def pe)
        then show ?thesis unfolding oth using qr(2) by (simp add: ref_view_def pe)
      next
        case nd: False
        have pe: "p = Staged q (read_offset y r + i)" using i(2) nd qr(2) by (simp add: source_loc_def)
        have st: "stages y q" by (rule staged_needs[OF ok q(1) nd])
        have "reads_staged r wk q" using c(1) q(2) nd qr(2) by (simp add: reads_staged_def source_loc_def)
        then obtain c' where "c' \<in> set (cs r)" "stage_sig c' = Some q" using work_announced(2)[OF ok r sc wk] by blast
        then have "staged_call (cs q)" using inv(2)[OF r qr(1)] unfolding pair_inv_def by blast
        then obtain rest where rest: "ws q = stage_copy y q # FpMark # rest"
          using inv(1)[OF qr(1)] st by (auto simp: rank_inv_def stage_works_def)
        have sub: "set (FpMark # rest) \<subseteq> insert FpMark (set (main_works y q))"
        proof -
          obtain m where m: "script y q = cs q @ m" using inv(1)[OF qr(1)] position_prefix by (fastforce simp: rank_inv_def)
          have "works (script y q) = ws q @ pending (fw_queue w q) @ works m"
            using inv(1)[OF qr(1)] m by (simp add: rank_inv_def)
          then have "main_works y q = rest @ pending (fw_queue w q) @ works m"
            using rest st by (simp add: script_works[OF ok qr(1)])
          then show ?thesis by auto
        qed
        have "local_run y q (fw_input w) (ws q) p = fw_input w (Dev q (rq_send (fy_req y q) + (read_offset y r + i)))"
          unfolding rest pe by (rule local_staged[OF ok qr(1) st sub offset_in_stage[OF r i(1)]])
        then have "fw_mem w p = fw_input w (Dev q (rq_send (fy_req y q) + (read_offset y r + i)))"
          using inv(1)[OF qr(1)] by (simp add: rank_inv_def pe)
        then show ?thesis unfolding oth using qr(2) by (simp add: ref_view_def pe)
      qed
    qed
  qed
qed


section \<open>Steps\<close>

lemma pair_cong:
  assumes "pair_inv y w cs r q" "fw_shared w' = fw_shared w" "fw_arrived w q \<Longrightarrow> fw_arrived w' q"
  shows "pair_inv y w' cs r q"
  using assms by (simp add: pair_inv_def)

lemma inv_work:
  assumes ok: "fy_ok y" and r: "is_rank y r" and q: "fw_queue w r lane = wk # rest" and inv: "joint_inv y w"
  shows "joint_inv y (w\<lparr>fw_mem := do_work (fy_kernel y) wk (fw_mem w),
      fw_queue := (fw_queue w)(r := (fw_queue w r)(lane := rest))\<rparr>)" (is "joint_inv y ?w")
proof -
  obtain cs ws where R: "\<And>r. is_rank y r \<Longrightarrow> rank_inv y w r (cs r) (ws r)"
    and P: "\<And>r q. is_rank y r \<Longrightarrow> is_rank y q \<Longrightarrow> pair_inv y w cs r q" using inv unfolding joint_inv_def by blast
  obtain st where st: "run_lanes Idle (cs r) = Some st" "lanes_match st (fw_queue w r)"
    using R[OF r] by (auto simp: rank_inv_def)
  note pop = lanes_pop[OF st(2) q]
  have wcs: "works (cs r) = ws r @ wk # rest" using R[OF r] pop(2) by (simp add: rank_inv_def)
  then have wk: "wk \<in> set (works (cs r))" by simp
  obtain post where sc: "script y r = cs r @ post" using R[OF r] position_prefix by (fastforce simp: rank_inv_def)
  have wks: "wk \<in> set (works (script y r))" using wk sc by simp
  have run1: "local_run y r m0 (ws r @ [wk]) = do_work (fy_kernel y) wk (local_run y r m0 (ws r))" for m0
    by (simp add: local_run_def)
  have rank_r: "rank_inv y ?w r (cs r) (ws r @ [wk])"
  proof -
    have "do_work (fy_kernel y) wk (fw_mem w) p = local_run y r (fw_input w) (ws r @ [wk]) p" if "owner_of p = r" for p
      unfolding run1
    proof (rule do_work_agree)
      fix p assume "reads_at wk p"
      then show "fw_mem w p = local_run y r (fw_input w) (ws r) p"
        using reads_reference[of y r w cs ws wk p] ok r R P wk by blast
    next
      show "fw_mem w p = local_run y r (fw_input w) (ws r) p" using R[OF r] that by (simp add: rank_inv_def)
    qed
    then show ?thesis using R[OF r] st pop wcs by (auto simp: rank_inv_def)
  qed
  have rank_q: "rank_inv y ?w s (cs s) (ws s)" if s: "is_rank y s" "s \<noteq> r" for s
  proof -
    have "do_work (fy_kernel y) wk (fw_mem w) p = fw_mem w p" if "owner_of p = s" for p
    proof (rule do_work_other[OF ok])
      fix d n assume "dest_of wk = Some (d, n)"
      then show "\<not> in_range d n p"
        using script_dest[OF ok r wks] may_write_owner that s(2) by fastforce
    qed
    then show ?thesis using R[OF s(1)] s(2) by (simp add: rank_inv_def)
  qed
  have "\<forall>s. is_rank y s \<longrightarrow> rank_inv y ?w s (cs s) ((ws(r := ws r @ [wk])) s)" using rank_r rank_q by simp
  moreover have "\<forall>a b. is_rank y a \<and> is_rank y b \<longrightarrow> pair_inv y ?w cs a b"
    using P pair_cong[of y w cs _ _ ?w] by simp
  ultimately show ?thesis unfolding joint_inv_def by blast
qed

text \<open>The memory of a rank whose user stream is not there yet is nobody's input so far.\<close>

lemma run_works_agree:
  assumes "fy_ok y" "\<And>p. owner_of p \<noteq> r \<Longrightarrow> m p = m' p"
    "\<And>w l. w \<in> set ws \<Longrightarrow> source_of w = Some l \<Longrightarrow> owner_of l \<noteq> r"
    "\<And>w d n p. w \<in> set ws \<Longrightarrow> dest_of w = Some (d, n) \<Longrightarrow> in_range d n p \<Longrightarrow> owner_of p \<noteq> r" "owner_of p \<noteq> r"
  shows "run_works y ws m p = run_works y ws m' p"
  using assms(2-4)
proof (induction ws arbitrary: m m')
  case Nil
  then show ?case using assms(5) by simp
next
  case (Cons w ws)
  have "do_work (fy_kernel y) w m p = do_work (fy_kernel y) w m' p" if "owner_of p \<noteq> r" for p
  proof (rule do_work_agree)
    fix p assume p: "reads_at w p"
    have "\<And>l. source_of w = Some l \<Longrightarrow> owner_of l \<noteq> r" "\<And>d n. dest_of w = Some (d, n) \<Longrightarrow> in_range d n p \<Longrightarrow> owner_of p \<noteq> r"
      using Cons.prems(2,3)[of w] by auto
    then have "owner_of p \<noteq> r" using p by (cases w) (auto simp: range_owner)
    then show "m p = m' p" by (rule Cons.prems(1))
  qed (rule Cons.prems(1)[OF that])
  then show ?case using Cons.IH[of "do_work (fy_kernel y) w m" "do_work (fy_kernel y) w m'"] Cons.prems(2,3)
    by (metis list.set_intros(2) run_works_simps(2))
qed

lemma inv_user:
  assumes ok: "fy_ok y" and r: "is_rank y r" and nr: "\<not> fw_ready w r"
    and m: "\<And>p. (\<forall>a. p \<noteq> Dev r a) \<Longrightarrow> m p = fw_mem w p" and inv: "joint_inv y w"
  shows "joint_inv y (w\<lparr>fw_mem := m, fw_input := (\<lambda>p. if owner_of p = r then m p else fw_input w p),
      fw_ready := (fw_ready w)(r := True)\<rparr>)" (is "joint_inv y ?w")
proof -
  obtain cs ws where R: "\<And>r. is_rank y r \<Longrightarrow> rank_inv y w r (cs r) (ws r)"
    and P: "\<And>r q. is_rank y r \<Longrightarrow> is_rank y q \<Longrightarrow> pair_inv y w cs r q" using inv unfolding joint_inv_def by blast
  have c0: "cs r = []" using R[OF r] nr by (auto simp: rank_inv_def)
  then have w0: "ws r = []" "pending (fw_queue w r) = []" using R[OF r] by (simp_all add: rank_inv_def)
  have rank_r: "rank_inv y ?w r (cs r) (ws r)"
    using R[OF r] c0 w0 by (simp add: rank_inv_def local_run_def ref_view_def)
  have rank_q: "rank_inv y ?w s (cs s) (ws s)" if s: "is_rank y s" "s \<noteq> r" for s
  proof -
    obtain post where sc: "script y s = cs s @ post" using R[OF s(1)] position_prefix by (fastforce simp: rank_inv_def)
    have wcs: "set (ws s) \<subseteq> set (works (cs s))" using R[OF s(1)] by (simp add: rank_inv_def)
    have src: "owner_of l \<noteq> r" if v: "v \<in> set (ws s)" "source_of v = Some l" for v l
    proof
      assume "owner_of l = r"
      then have "reads_other s v r" using v(2) s(2) by (auto simp: reads_other_def)
      then obtain c where "c \<in> set (cs s)" "ready_sig c = Some r"
        using work_announced(1)[OF ok s(1) sc] v(1) wcs by blast
      then have "cs r \<noteq> []" using P[OF s(1) r] unfolding pair_inv_def by blast
      then show False using c0 by simp
    qed
    have dst: "owner_of p \<noteq> r" if v: "v \<in> set (ws s)" "dest_of v = Some (d, n)" "in_range d n p" for v d n p
    proof -
      have "v \<in> set (works (script y s))" using v(1) wcs sc by auto
      from script_dest[OF ok s(1) this v(2,3)] show ?thesis using may_write_owner s(2) by fastforce
    qed
    have "local_run y s (\<lambda>p. if owner_of p = r then m p else fw_input w p) (ws s) p = local_run y s (fw_input w) (ws s) p"
      if "owner_of p = s" for p
      unfolding local_run_def
      by (rule run_works_agree[OF ok, of r]) (use src dst s(2) that in \<open>auto simp: ref_view_def split: fp_loc.splits\<close>)
    moreover have "m p = fw_mem w p" if "owner_of p = s" for p
    proof (rule m)
      show "\<forall>a. p \<noteq> Dev r a" using that s(2) by auto
    qed
    ultimately show ?thesis using R[OF s(1)] s(2) by (simp add: rank_inv_def)
  qed
  have "\<forall>s. is_rank y s \<longrightarrow> rank_inv y ?w s (cs s) (ws s)" using rank_r rank_q by blast
  moreover have "\<forall>a b. is_rank y a \<and> is_rank y b \<longrightarrow> pair_inv y ?w cs a b"
    using P pair_cong[of y w cs _ _ ?w] by simp
  ultimately show ?thesis unfolding joint_inv_def by blast
qed

end
