(* ===== verification/FastPathCalls.thy ===== *)
theory FastPathCalls
  imports FastPathInv
begin

text \<open>
  The invariant under the calls of the ranks, and in every reachable state.
\<close>

lemma lane_step_quiet:
  assumes "lane_step st c = Some st'" "st \<in> {Idle, Final}" "work_of c = []"
  shows "st' \<in> {Idle, Final}"
  using assms by (cases c) (auto split: if_splits)

lemma final_no_work: "run_lanes Final cs \<noteq> None \<Longrightarrow> works cs = []"
proof (induction cs)
  case (Cons c cs)
  then show ?case by (cases c) (auto split: option.splits if_splits)
qed simp

lemma run_lanes_snoc: "run_lanes st (cs @ [c]) = (case run_lanes st cs of None \<Rightarrow> None | Some st' \<Rightarrow> lane_step st' c)"
  by (simp add: run_lanes_append split: option.splits)

text \<open>A call answered as expected.\<close>

lemma inv_advance:
  assumes ok: "fy_ok y" and r: "is_rank y r"
    and R: "\<And>r. is_rank y r \<Longrightarrow> rank_inv y w r (cs r) (ws r)"
    and P: "\<And>r q. is_rank y r \<Longrightarrow> is_rank y q \<Longrightarrow> pair_inv y w cs r q"
    and prog: "fw_prog w r = Call c k"
    and lanes: "lane_step st c = Some st'" "run_lanes Idle (cs r) = Some st" "lanes_match st' Q" "pending (fw_queue w r) @ work_of c = pending Q"
    and stg: "\<And>slot seq. c = PublishStage slot seq \<Longrightarrow> pending (fw_queue w r) = []"
    and sh: "\<And>q. is_rank y q \<Longrightarrow> announced_ready y sh q \<Longrightarrow> announced_ready y (fw_shared w) q \<or> q = r"
      "\<And>q. is_rank y q \<Longrightarrow> announced_stage y sh q \<Longrightarrow> announced_stage y (fw_shared w) q \<or> q = r \<and> staged_call [c]"
      "\<And>q. is_rank y q \<Longrightarrow> direct_status y sh q \<in> {-1, if lad y q then 1 else 0}"
    and sig: "\<And>q. is_rank y q \<Longrightarrow> ready_sig c = Some q \<Longrightarrow> announced_ready y (fw_shared w) q"
      "\<And>q. is_rank y q \<Longrightarrow> stage_sig c = Some q \<Longrightarrow> announced_stage y (fw_shared w) q"
      "\<And>q. is_rank y q \<Longrightarrow> c = FpBarrier \<Longrightarrow> fw_arrived w q" "cs r = [] \<Longrightarrow> fw_ready w r"
  shows "joint_inv y (w\<lparr>fw_shared := sh, fw_queue := (fw_queue w)(r := Q), fw_signalled := sg,
      fw_prog := (fw_prog w)(r := k (good_reply y r c))\<rparr>)" (is "joint_inv y ?w")
proof -
  define cs' where "cs' = cs(r := cs r @ [c])"
  have pos: "position_ok y r (Call c k) (cs r)" using R[OF r] prog by (simp add: rank_inv_def)
  note pc = position_call[OF pos]
  have wcs: "works (cs r) = ws r @ pending (fw_queue w r)" using R[OF r] by (simp add: rank_inv_def)
  have st': "run_lanes Idle (cs r @ [c]) = Some st'" using lanes(1,2) by (simp add: run_lanes_snoc)
  have stage: "\<exists>rest. ws r = stage_works y r @ rest" if sc: "staged_call (cs r @ [c])"
  proof (cases "staged_call (cs r)")
    case True
    then show ?thesis using R[OF r] by (simp add: rank_inv_def)
  next
    case False
    then obtain slot seq where c: "c = PublishStage slot seq" using sc by (auto simp: staged_call_def)
    then have "works (cs r) = stage_works y r"
      using script_stage_first[OF ok r, of "cs r" slot seq] pc(1) by (simp add: stage_works_def)
    then show ?thesis using wcs stg[OF c] by simp
  qed
  have arr: "(\<exists>post. script y r = (cs r @ [c]) @ post \<and> works post = []) \<and> run_lanes Idle (cs r @ [c]) \<in> {Some Idle, Some Final}"
    if a: "fw_arrived w r"
  proof -
    obtain post where post: "script y r = cs r @ post" "works post = []" and i: "run_lanes Idle (cs r) \<in> {Some Idle, Some Final}"
      using R[OF r] a by (auto simp: rank_inv_def)
    have e: "post = c # calls (good_reply y r) (k (good_reply y r c))" using post(1) pc(1) by simp
    have "st' \<in> {Idle, Final}" by (rule lane_step_quiet[OF lanes(1)]) (use i lanes(2) post(2) e in auto)
    then show ?thesis using pc(1) post(2) e st' by auto
  qed
  have rank_r: "rank_inv y ?w r (cs' r) (ws r)"
    using R[OF r] pc(2) st' lanes(3,4) wcs stage arr sig(4) by (auto simp: rank_inv_def cs'_def)
  have rank_q: "rank_inv y ?w s (cs' s) (ws s)" if "is_rank y s" "s \<noteq> r" for s
    using R[OF that(1)] that(2) by (simp add: rank_inv_def cs'_def)
  have grow: "cs q \<noteq> [] \<Longrightarrow> cs' q \<noteq> []" "staged_call (cs q) \<Longrightarrow> staged_call (cs' q)" for q
    by (auto simp: cs'_def staged_call_def)
  have pair: "pair_inv y ?w cs' a b" if ab: "is_rank y a" "is_rank y b" for a b
  proof -
    have new: "c' = c \<and> a = r" if "c' \<in> set (cs' a)" "c' \<notin> set (cs a)" for c'
      using that by (auto simp: cs'_def split: if_splits)
    have p: "announced_ready y (fw_shared w) b \<Longrightarrow> cs b \<noteq> []" "announced_stage y (fw_shared w) b \<Longrightarrow> staged_call (cs b)"
      "\<And>c. c \<in> set (cs a) \<Longrightarrow> ready_sig c = Some b \<Longrightarrow> cs b \<noteq> []" "\<And>c. c \<in> set (cs a) \<Longrightarrow> stage_sig c = Some b \<Longrightarrow> staged_call (cs b)"
      "FpBarrier \<in> set (cs a) \<Longrightarrow> fw_arrived w b"
      using P[OF ab] by (auto simp: pair_inv_def)
    have "announced_ready y sh b \<Longrightarrow> cs' b \<noteq> []" using sh(1)[OF ab(2)] p(1) grow(1) by (auto simp: cs'_def)
    moreover have "announced_stage y sh b \<Longrightarrow> staged_call (cs' b)"
      using sh(2)[OF ab(2)] p(2) grow(2) by (auto simp: cs'_def staged_call_def)
    moreover have "cs' b \<noteq> []" if "c' \<in> set (cs' a)" "ready_sig c' = Some b" for c'
      using new[OF that(1)] p(1,3) sig(1)[OF ab(2)] that grow(1) by blast
    moreover have "staged_call (cs' b)" if "c' \<in> set (cs' a)" "stage_sig c' = Some b" for c'
      using new[OF that(1)] p(2,4) sig(2)[OF ab(2)] that grow(2) by blast
    moreover have "fw_arrived w b" if "FpBarrier \<in> set (cs' a)"
      using new[OF that] p(5) sig(3)[OF ab(2)] by blast
    ultimately show ?thesis using sh(3)[OF ab(2)] by (simp add: pair_inv_def)
  qed
  have "\<forall>s. is_rank y s \<longrightarrow> rank_inv y ?w s (cs' s) (ws s)" using rank_r rank_q by blast
  moreover have "\<forall>a b. is_rank y a \<and> is_rank y b \<longrightarrow> pair_inv y ?w cs' a b" using pair by blast
  ultimately show ?thesis unfolding joint_inv_def by blast
qed

text \<open>A call that failed.\<close>

lemma bad_effect: "bad_reply c n \<Longrightarrow> call_effect y r c n w = w"
  by (cases c) auto

lemma inv_fail:
  assumes r: "is_rank y r" and inv: "joint_inv y w" and prog: "fw_prog w r = Call c k" and bad: "bad_reply c n"
  shows "joint_inv y (w\<lparr>fw_prog := (fw_prog w)(r := k n)\<rparr>)" (is "joint_inv y ?w")
proof -
  obtain cs ws where R: "\<And>r. is_rank y r \<Longrightarrow> rank_inv y w r (cs r) (ws r)"
    and P: "\<And>r q. is_rank y r \<Longrightarrow> is_rank y q \<Longrightarrow> pair_inv y w cs r q" using inv unfolding joint_inv_def by blast
  have "position_ok y r (Call c k) (cs r)" using R[OF r] prog by (simp add: rank_inv_def)
  then have "rank_inv y ?w s (cs s) (ws s)" if "is_rank y s" for s
    using R[OF that] position_call(3)[OF _ bad] by (auto simp: rank_inv_def)
  moreover have "pair_inv y ?w cs a b" if "is_rank y a" "is_rank y b" for a b
    using P[OF that] pair_cong[of y w cs a b ?w] by simp
  ultimately show ?thesis unfolding joint_inv_def by blast
qed

text \<open>An answer is the expected one or a failure.\<close>

lemma reply_cases:
  assumes "fy_ok y" "is_rank y r" "call_params y r c" "can_reply y w r c n"
    "\<And>q. is_rank y q \<Longrightarrow> direct_status y (fw_shared w) q \<in> {-1, if lad y q then 1 else 0}"
  shows "n = good_reply y r c \<or> bad_reply c n"
proof (cases c)
  case (WaitStatus p slot seq)
  then have p: "is_rank y p" "slot = fy_slot y" "seq = fy_seq y" using assms(3) by simp_all
  have "n = (if 0 \<le> direct_status y (fw_shared w) p then nat (direct_status y (fw_shared w) p) else 2)"
    using assms(4) p fy_same_comm[OF assms(1,2) p(1)] by (simp add: WaitStatus direct_status_def Let_def)
  then show ?thesis using assms(5)[OF p(1)] by (auto simp: WaitStatus split: if_splits)
qed (use assms(4) in \<open>auto split: if_splits\<close>)

lemma peer_replies:
  "can_reply y w r (WaitPeerReady p slot seq) 1 \<longleftrightarrow> getFastpathReadySeq (fw_shared w) (fy_comm y r) p slot = seq"
  "can_reply y w r (WaitPeerStage p slot seq) 1 \<longleftrightarrow> getFastpathStageSeq (fw_shared w) (fy_comm y r) p slot = seq"
  by simp_all

lemma inv_call:
  assumes ok: "fy_ok y" and r: "is_rank y r" and prog: "fw_prog w r = Call c k" and rep: "can_reply y w r c n" and inv: "joint_inv y w"
  shows "joint_inv y ((call_effect y r c n w)\<lparr>fw_prog := (fw_prog w)(r := k n)\<rparr>)"
proof -
  obtain cs ws where R: "\<And>r. is_rank y r \<Longrightarrow> rank_inv y w r (cs r) (ws r)"
    and P: "\<And>r q. is_rank y r \<Longrightarrow> is_rank y q \<Longrightarrow> pair_inv y w cs r q" using inv unfolding joint_inv_def by blast
  have pos: "position_ok y r (Call c k) (cs r)" using R[OF r] prog by (simp add: rank_inv_def)
  note sc = position_call(1)[OF pos]
  have par: "call_params y r c" using script_params[OF ok r] sc by simp
  have dir: "direct_status y (fw_shared w) q \<in> {-1, if lad y q then 1 else 0}" if "is_rank y q" for q
    using P[OF r that] by (simp add: pair_inv_def)
  consider "bad_reply c n" | "n = good_reply y r c" using reply_cases[OF ok r par rep dir] by blast
  then show ?thesis
  proof cases
    case 1
    then show ?thesis unfolding bad_effect[OF 1] by (rule inv_fail[OF r inv prog])
  next
    case 2
    obtain st where st: "run_lanes Idle (cs r) = Some st" "lanes_match st (fw_queue w r)" using R[OF r] by (auto simp: rank_inv_def)
    obtain st' where st': "lane_step st c = Some st'"
      using script_lanes[OF ok r] st(1) unfolding sc run_lanes_append by (auto split: option.splits)
    have rdy: "cs r = [] \<Longrightarrow> fw_ready w r"
    proof -
      assume "cs r = []"
      then have c: "c = WaitUserReady (fy_slot y) (fy_seq y)" using sc unfolding script_calls(1)[OF ok r] by simp
      have "can_reply y w r (WaitUserReady (fy_slot y) (fy_seq y)) 1" using rep 2 unfolding c by simp
      then show "fw_ready w r" by (cases "fw_ready w r") simp_all
    qed
    note adv = inv_advance[OF ok r R P prog st' st(1)]
    have keep: "joint_inv y (w\<lparr>fw_shared := fw_shared w, fw_queue := (fw_queue w)(r := fw_queue w r), fw_signalled := sg,
        fw_prog := (fw_prog w)(r := k (good_reply y r c))\<rparr>)"
      if "work_of c = []" "lanes_match st' (fw_queue w r)" "\<not> staged_call [c]"
        "\<And>q. is_rank y q \<Longrightarrow> ready_sig c = Some q \<Longrightarrow> announced_ready y (fw_shared w) q"
        "\<And>q. is_rank y q \<Longrightarrow> stage_sig c = Some q \<Longrightarrow> announced_stage y (fw_shared w) q"
        "\<And>q. is_rank y q \<Longrightarrow> c = FpBarrier \<Longrightarrow> fw_arrived w q" for sg
      by (rule adv) (use that dir rdy in \<open>auto simp: staged_call_def\<close>)
    show ?thesis
    proof (cases c)
      case (Enqueue lane wk)
      have e: "st = Idle \<or> st = Busy lane" "st' = Busy lane" using st' by (auto simp: Enqueue split: if_splits)
      note pu = lanes_push(1)[OF st(2) e(1), of wk] lanes_push(3)[OF st(2) e(1), of wk]
      have "joint_inv y (w\<lparr>fw_shared := fw_shared w, fw_queue := (fw_queue w)(r := (fw_queue w r)(lane := fw_queue w r lane @ [wk])),
          fw_signalled := fw_signalled w, fw_prog := (fw_prog w)(r := k (good_reply y r c))\<rparr>)"
        by (rule adv) (use pu e dir rdy in \<open>auto simp: Enqueue staged_call_def\<close>)
      then show ?thesis using 2 by (simp add: Enqueue push_work_def)
    next
      case (RecordLane lane)
      have e: "st = Idle \<or> st = Busy lane" "st' = Marked lane" using st' by (auto simp: RecordLane split: if_splits)
      note pu = lanes_push(2)[OF st(2) e(1)] lanes_push(3)[OF st(2) e(1), of FpMark]
      have "joint_inv y (w\<lparr>fw_shared := fw_shared w, fw_queue := (fw_queue w)(r := (fw_queue w r)(lane := fw_queue w r lane @ [FpMark])),
          fw_signalled := fw_signalled w, fw_prog := (fw_prog w)(r := k (good_reply y r c))\<rparr>)"
        by (rule adv) (use pu e dir rdy in \<open>auto simp: RecordLane staged_call_def\<close>)
      then show ?thesis using 2 by (simp add: RecordLane push_work_def)
    next
      case (PublishReady slot seq)
      have sl: "slot = fy_slot y" "seq = fy_seq y" using par by (simp_all add: PublishReady)
      have "joint_inv y (w\<lparr>fw_shared := publishFastpathReadySeq (fy_comm y r) r slot seq (fw_shared w),
          fw_queue := (fw_queue w)(r := fw_queue w r), fw_signalled := fw_signalled w, fw_prog := (fw_prog w)(r := k (good_reply y r c))\<rparr>)"
        by (rule adv) (use st st' dir rdy publish_ready[OF ok r] sl in \<open>auto simp: PublishReady staged_call_def\<close>)
      then show ?thesis using 2 by (simp add: PublishReady)
    next
      case (PublishStage slot seq)
      have sl: "slot = fy_slot y" "seq = fy_seq y" using par by (simp_all add: PublishStage)
      have i: "st = Idle" "st' = Idle" using st' by (auto simp: PublishStage split: if_splits)
      then have "pending (fw_queue w r) = []" using st(2) by (simp add: pending_def)
      then have "joint_inv y (w\<lparr>fw_shared := publishFastpathStageSeq (fy_comm y r) r slot seq (fw_shared w),
          fw_queue := (fw_queue w)(r := fw_queue w r), fw_signalled := fw_signalled w, fw_prog := (fw_prog w)(r := k (good_reply y r c))\<rparr>)"
        by (intro adv) (use st i dir rdy publish_stage[OF ok r] sl in \<open>auto simp: PublishStage staged_call_def\<close>)
      then show ?thesis using 2 by (simp add: PublishStage)
    next
      case (PublishDirect slot seq b)
      have sl: "slot = fy_slot y" "seq = fy_seq y" "b = lad y r" using par by (simp_all add: PublishDirect)
      have "joint_inv y (w\<lparr>fw_shared := publishFastpathDirectStatus (fy_comm y r) r slot seq b (fw_shared w),
          fw_queue := (fw_queue w)(r := fw_queue w r), fw_signalled := fw_signalled w, fw_prog := (fw_prog w)(r := k (good_reply y r c))\<rparr>)"
      proof (rule adv)
        show "direct_status y (publishFastpathDirectStatus (fy_comm y r) r slot seq b (fw_shared w)) q \<in> {-1, if lad y q then 1 else 0}"
          if "is_rank y q" for q
          using publish_direct(3)[OF ok r that, of b "fw_shared w"] dir[OF that] sl by (cases "q = r") simp_all
      qed (use st st' rdy publish_direct(1,2)[OF ok r] sl in \<open>auto simp: PublishDirect staged_call_def\<close>)
      then show ?thesis using 2 by (simp add: PublishDirect)
    next
      case (WaitPeerReady p slot seq)
      have pr: "is_rank y p" "slot = fy_slot y" "seq = fy_seq y" using par by (simp_all add: WaitPeerReady)
      have "can_reply y w r (WaitPeerReady p (fy_slot y) (fy_seq y)) 1"
        using rep 2 pr unfolding WaitPeerReady by (simp del: can_reply.simps)
      then have "announced_ready y (fw_shared w) p"
        unfolding peer_replies by (simp add: announced_ready_def fy_same_comm[OF ok r pr(1)])
      then show ?thesis using keep[of "fw_signalled w"] st(2) st' 2 by (auto simp: WaitPeerReady staged_call_def)
    next
      case (WaitPeerStage p slot seq)
      have pr: "is_rank y p" "slot = fy_slot y" "seq = fy_seq y" using par by (simp_all add: WaitPeerStage)
      have "can_reply y w r (WaitPeerStage p (fy_slot y) (fy_seq y)) 1"
        using rep 2 pr unfolding WaitPeerStage by (simp del: can_reply.simps)
      then have "announced_stage y (fw_shared w) p"
        unfolding peer_replies by (simp add: announced_stage_def fy_same_comm[OF ok r pr(1)])
      then show ?thesis using keep[of "fw_signalled w"] st(2) st' 2 by (auto simp: WaitPeerStage staged_call_def)
    next
      case (WaitLane lane)
      have e: "st = Marked lane" "st' = Idle" using st' by (auto simp: WaitLane split: if_splits)
      have "can_reply y w r (WaitLane lane) 1" using rep 2 unfolding WaitLane by (simp del: can_reply.simps)
      then have "FpMark \<notin> set (fw_queue w r lane)" by (cases "FpMark \<in> set (fw_queue w r lane)") simp_all
      then have "fw_queue w r lane = []" using st(2) e(1) last_in_set[of "fw_queue w r lane"] by fastforce
      then have "\<forall>l. fw_queue w r l = []" using st(2) e(1) by auto
      then show ?thesis using keep[of "fw_signalled w"] e 2 by (simp add: WaitLane staged_call_def)
    next
      case (SyncLane lane)
      have e: "st = Idle \<or> st = Busy lane" "st' = Idle" using st' by (auto simp: SyncLane split: if_splits)
      have "fw_queue w r lane = []" using rep 2 by (simp add: SyncLane)
      then have "\<forall>l. fw_queue w r l = []" using st(2) e(1) by auto
      then show ?thesis using keep[of "fw_signalled w"] e 2 by (simp add: SyncLane staged_call_def)
    next
      case FpBarrier
      have e: "st = Idle" "st' = Final" using st' by (auto simp: FpBarrier split: if_splits)
      have "fw_arrived w q" if "is_rank y q" for q using rep 2 that by (simp add: FpBarrier list_all_iff is_rank_def)
      then show ?thesis using keep[of "fw_signalled w"] e st(2) 2 by (auto simp: FpBarrier staged_call_def)
    next
      case (Signal slot seq)
      then show ?thesis using keep[of "(fw_signalled w)(r := True)"] st(2) st' 2 by (simp add: staged_call_def)
    qed (use keep[of "fw_signalled w"] st(2) st' 2 in \<open>simp add: staged_call_def\<close>)+
  qed
qed

end
