(* ===== verification/FastPathProps.thy ===== *)
theory FastPathProps
  imports FastPathCalls
begin

text \<open>
  What the joint execution of a small-message request guarantees, in every interleaving and
  whatever calls fail on other ranks.
\<close>

section \<open>Reachable states\<close>

lemma inv_arrive:
  assumes ok: "fy_ok y" and r: "is_rank y r" and prog: "fw_prog w r = Call FpBarrier k" and inv: "joint_inv y w"
  shows "joint_inv y (w\<lparr>fw_arrived := (fw_arrived w)(r := True)\<rparr>)" (is "joint_inv y ?w")
proof -
  obtain cs ws where R: "\<And>r. is_rank y r \<Longrightarrow> rank_inv y w r (cs r) (ws r)"
    and P: "\<And>r q. is_rank y r \<Longrightarrow> is_rank y q \<Longrightarrow> pair_inv y w cs r q" using inv unfolding joint_inv_def by blast
  have pos: "position_ok y r (Call FpBarrier k) (cs r)" using R[OF r] prog by (simp add: rank_inv_def)
  note sc = position_call(1)[OF pos]
  obtain st where st: "run_lanes Idle (cs r) = Some st" using R[OF r] by (auto simp: rank_inv_def)
  have fin: "run_lanes st (FpBarrier # calls (good_reply y r) (k (good_reply y r FpBarrier))) = Some Final"
    using script_lanes[OF ok r] st unfolding sc run_lanes_append by simp
  then have i: "st = Idle" by (auto split: if_splits)
  have w0: "works (FpBarrier # calls (good_reply y r) (k (good_reply y r FpBarrier))) = []"
    using final_no_work[of "calls (good_reply y r) (k (good_reply y r FpBarrier))"] fin i by simp
  have ne: "cs r \<noteq> []"
  proof
    assume "cs r = []"
    then have "script y r = FpBarrier # calls (good_reply y r) (k (good_reply y r FpBarrier))" using sc by simp
    then show False unfolding script_calls(1)[OF ok r] by simp
  qed
  have "rank_inv y ?w s (cs s) (ws s)" if s: "is_rank y s" for s
  proof (cases "s = r")
    case True
    have "\<exists>post. script y r = cs r @ post \<and> works post = []" using sc w0 by blast
    then show ?thesis using R[OF r] True ne i st by (auto simp: rank_inv_def)
  next
    case False
    then show ?thesis using R[OF s] by (simp add: rank_inv_def)
  qed
  moreover have "pair_inv y ?w cs a b" if "is_rank y a" "is_rank y b" for a b
    by (rule pair_cong[OF P[OF that]]) simp_all
  ultimately show ?thesis unfolding joint_inv_def by blast
qed

lemma inv_step:
  assumes "fy_ok y" "fp_step y w w'" "joint_inv y w"
  shows "joint_inv y w'"
  using assms(2)
proof cases
  case (step_call r c k n)
  then show ?thesis using inv_call[OF assms(1)] assms(3) by blast
next
  case (step_user r m)
  show ?thesis unfolding step_user(1) by (rule inv_user[OF assms(1) step_user(2-4) assms(3)])
next
  case (step_arrive r k)
  then show ?thesis using inv_arrive[OF assms(1)] assms(3) by blast
next
  case (step_work r lane wk rest)
  then show ?thesis using inv_work[OF assms(1)] assms(3) by blast
qed

lemma inv_reach:
  assumes "fy_ok y" "reach (fp_start y) (fp_step y) w"
  shows "joint_inv y w"
  using assms(2) by (rule reach_invariant) (auto intro: joint_start[OF assms(1)] inv_step[OF assms(1)])

text \<open>A rank that succeeded has executed all its work, and every rank has come to the barrier.\<close>

lemma success_facts:
  assumes "fy_ok y" "joint_inv y w" "is_rank y r" "fw_prog w r = Ret pcclSuccess"
  shows "\<And>p. owner_of p = r \<Longrightarrow> fw_mem w p = local_run y r (fw_input w) (works (script y r)) p"
    "\<And>q. is_rank y q \<Longrightarrow> fw_arrived w q"
proof -
  obtain cs ws where R: "\<And>r. is_rank y r \<Longrightarrow> rank_inv y w r (cs r) (ws r)"
    and P: "\<And>r q. is_rank y r \<Longrightarrow> is_rank y q \<Longrightarrow> pair_inv y w cs r q" using assms(2) unfolding joint_inv_def by blast
  have cs: "cs r = script y r" using R[OF assms(3)] assms(4) position_success by (simp add: rank_inv_def)
  have "lanes_match Final (fw_queue w r)"
    using R[OF assms(3)] script_lanes[OF assms(1,3)] unfolding cs rank_inv_def by auto
  then have "ws r = works (script y r)" using R[OF assms(3)] cs by (simp add: rank_inv_def pending_def)
  then show "\<And>p. owner_of p = r \<Longrightarrow> fw_mem w p = local_run y r (fw_input w) (works (script y r)) p"
    using R[OF assms(3)] by (simp add: rank_inv_def)
  have "FpBarrier \<in> set (cs r)" unfolding cs script_calls(1)[OF assms(1,3)] by simp
  then show "\<And>q. is_rank y q \<Longrightarrow> fw_arrived w q" using P[OF assms(3)] by (simp add: pair_inv_def)
qed

definition all_arrived :: "fp_system \<Rightarrow> fp_world \<Rightarrow> bool" where
  "all_arrived y w \<longleftrightarrow> joint_inv y w \<and> (\<forall>q. is_rank y q \<longrightarrow> fw_arrived w q)"

lemma arrived_idle:
  assumes "all_arrived y w" "is_rank y q"
  shows "fw_queue w q lane = []" "fw_ready w q"
proof -
  obtain cs ws where R: "\<And>r. is_rank y r \<Longrightarrow> rank_inv y w r (cs r) (ws r)" using assms(1) unfolding joint_inv_def all_arrived_def by blast
  have "fw_arrived w q" using assms by (simp add: all_arrived_def)
  then have "run_lanes Idle (cs q) \<in> {Some Idle, Some Final}" "cs q \<noteq> []"
    "\<exists>st. run_lanes Idle (cs q) = Some st \<and> lanes_match st (fw_queue w q)"
    using R[OF assms(2)] by (auto simp: rank_inv_def)
  then show "fw_queue w q lane = []" "fw_ready w q" using R[OF assms(2)] by (auto simp: rank_inv_def)
qed

lemma call_effect_mem [simp]: "fw_mem (call_effect y r c n w) = fw_mem w" "fw_arrived (call_effect y r c n w) = fw_arrived w"
  by (cases c; simp add: push_work_def)+

lemma arrived_step:
  assumes "fy_ok y" "fp_step y w w'" "all_arrived y w"
  shows "all_arrived y w' \<and> fw_mem w' = fw_mem w"
proof -
  have j: "joint_inv y w'" by (rule inv_step[OF assms(1,2)]) (use assms(3) in \<open>simp add: all_arrived_def\<close>)
  show ?thesis using assms(2)
  proof cases
    case (step_user r m)
    then show ?thesis using arrived_idle(2)[OF assms(3)] by blast
  next
    case (step_work r lane wk rest)
    then show ?thesis using arrived_idle(1)[OF assms(3), of r lane] by simp
  qed (use assms(3) j in \<open>auto simp: all_arrived_def\<close>)
qed

lemma arrived_steps:
  assumes "fy_ok y" "(fp_step y)\<^sup>*\<^sup>* w w'" "all_arrived y w"
  shows "all_arrived y w' \<and> fw_mem w' = fw_mem w"
  using assms(2)
proof (induction rule: rtranclp_induct)
  case (step v u)
  then show ?case using arrived_step[OF assms(1)] by metis
qed (use assms(3) in simp)

section \<open>Properties\<close>


text \<open>
  C14. When the execution of one rank has returned success, no rank has a transfer pending and
  no further step changes any memory, so every rank may reuse its buffers.
\<close>

theorem fastpath_quiet:
  assumes "fy_ok y" "reach (fp_start y) (fp_step y) w" "is_rank y r" "fw_prog w r = Ret pcclSuccess" "(fp_step y)\<^sup>*\<^sup>* w w'"
  shows "fw_mem w' = fw_mem w \<and> (\<forall>q lane. is_rank y q \<longrightarrow> fw_queue w' q lane = [])"
proof -
  note j = inv_reach[OF assms(1,2)]
  have "all_arrived y w" using j success_facts(2)[OF assms(1) j assms(3,4)] by (simp add: all_arrived_def)
  from arrived_steps[OF assms(1,5) this] show ?thesis using arrived_idle(1) by blast
qed

lemma commuted_reduction:
  assumes "fy_ok y" "fy_kind y = FpAllReduce" "\<And>xs zs. length xs = length zs \<Longrightarrow> fy_combine y xs zs = fy_combine y zs xs"
    "is_rank y r"
  shows "fp_result y m0 r = foldl (fy_combine y) (fp_input y m0 r 0) (map (fp_input y m0 r) [1..fy_n y - 1])"
proof -
  have n: "1 < fy_n y" using assms(1) by (simp add: fy_ok_def)
  have l: "[0..fy_n y - 1] = 0 # 1 # [2..fy_n y - 1]" "[1..fy_n y - 1] = 1 # [2..fy_n y - 1]"
    using n by (simp_all add: upto.simps)
  have f: "filter (\<lambda>s. s \<noteq> 1) [2..fy_n y - 1] = [2..fy_n y - 1]" "filter (\<lambda>s. s \<noteq> 0) [2..fy_n y - 1] = [2..fy_n y - 1]"
    by (auto intro!: filter_True)
  have c: "fy_combine y (fp_input y m0 r 1) (fp_input y m0 r 0) = fy_combine y (fp_input y m0 r 0) (fp_input y m0 r 1)"
    by (rule assms(3)) simp
  show ?thesis unfolding l(2) using c by (auto simp: fp_result_def assms(2) reduce_all_def seed_of_def l(1) f)
qed


end
