(* ===== verification/FastPathLive.thy ===== *)
theory FastPathLive
  imports FastPathProps
begin

text \<open>
  The ranks never block each other: while none has failed, they can all run to the end.
\<close>

section \<open>Phases of a script\<close>

fun phase :: "fp_call \<Rightarrow> nat" where
  "phase (WaitUserReady slot seq) = 0"
| "phase (PublishReady slot seq) = 0"
| "phase (PublishDirect slot seq b) = 0"
| "phase (WaitStatus p slot seq) = 1"
| "phase (Enqueue lane w) = (if lane = LaneD2H then 1 else 2)"
| "phase (RecordLane lane) = 1"
| "phase (WaitLane lane) = 1"
| "phase (PublishStage slot seq) = 1"
| "phase FpBarrier = 3"
| "phase (Signal slot seq) = 4"
| "phase _ = 2"

lemma sorted_const: "(\<And>c. c \<in> set cs \<Longrightarrow> phase c = n) \<Longrightarrow> sorted (map phase cs)"
proof -
  assume "\<And>c. c \<in> set cs \<Longrightarrow> phase c = n"
  then have "map phase cs = replicate (length cs) n" by (induction cs) auto
  then show ?thesis by simp
qed

lemma source_phase: "c \<in> set (source_calls y r s) \<Longrightarrow> phase c = 2"
  by (auto simp: source_calls_def split: if_splits)

lemma main_phase:
  assumes "c \<in> set (main_calls y r)"
  shows "phase c = 2"
proof -
  have "phase c' = 2" if "c' \<in> set (reduce_calls y r off s)" for off s c' using that source_phase by (auto simp: reduce_calls_def)
  then show ?thesis using assms source_phase
    by (fastforce simp: main_calls_def gather_calls_def sum_calls_def split: fp_kind.splits if_splits)
qed

lemma mode_phase: "c \<in> set (mode_calls y r) \<Longrightarrow> phase c = 0 \<or> phase c = 1"
  by (auto simp: mode_calls_def split: if_splits)

lemma script_sorted:
  assumes "fy_ok y" "is_rank y r"
  shows "sorted (map phase (script y r))"
proof -
  have w: "sorted (map phase (map (\<lambda>p. WaitStatus p slot seq) ps))" for slot seq ps
    by (induction ps) auto
  have "sorted (map phase (mode_calls y r))"
    using w[of "fy_slot y" "fy_seq y" "[0..fy_n y - 1]"] by (simp add: mode_calls_def)
  moreover have "sorted (map phase (stage_calls y r))" by (simp add: stage_calls_def)
  moreover have "sorted (map phase (main_calls y r))" by (rule sorted_const[OF main_phase])
  moreover have "c \<in> set (stage_calls y r) \<Longrightarrow> phase c = 1" for c by (auto simp: stage_calls_def split: if_splits)
  ultimately show ?thesis unfolding script_calls(1)[OF assms]
    using mode_phase main_phase by (fastforce simp: sorted_append)
qed

section \<open>What was announced stays announced\<close>

definition rest_of :: "fp_system \<Rightarrow> fp_world \<Rightarrow> int \<Rightarrow> fp_call list" where
  "rest_of y w r = calls (good_reply y r) (fw_prog w r)"

definition on_course :: "fp_system \<Rightarrow> fp_world \<Rightarrow> int \<Rightarrow> bool" where
  "on_course y w r \<longleftrightarrow> outcome (good_reply y r) (fw_prog w r) = pcclSuccess"

definition told :: "fp_system \<Rightarrow> fp_world \<Rightarrow> int \<Rightarrow> bool" where
  "told y w q \<longleftrightarrow>
     (PublishReady (fy_slot y) (fy_seq y) \<notin> set (rest_of y w q) \<longrightarrow> announced_ready y (fw_shared w) q) \<and>
     (PublishStage (fy_slot y) (fy_seq y) \<notin> set (rest_of y w q) \<longrightarrow> announced_stage y (fw_shared w) q) \<and>
     (topo_direct y \<and> PublishDirect (fy_slot y) (fy_seq y) (lad y q) \<notin> set (rest_of y w q) \<longrightarrow>
        direct_status y (fw_shared w) q = (if lad y q then 1 else 0))"

definition live_inv :: "fp_system \<Rightarrow> fp_world \<Rightarrow> bool" where
  "live_inv y w \<longleftrightarrow> joint_inv y w \<and> (\<forall>q. is_rank y q \<and> on_course y w q \<longrightarrow> told y w q)"

lemma live_start:
  assumes "fy_ok y" "fp_start y w"
  shows "live_inv y w"
proof -
  have "told y w q" if q: "is_rank y q" for q
  proof -
    have r: "rest_of y w q = script y q" using assms(2) q by (simp add: fp_start_def rest_of_def script_def fy_prog_def)
    show ?thesis unfolding told_def r script_calls(1)[OF assms(1) q]
      by (cases "topo_direct y") (simp_all add: stage_calls_def mode_calls_def)
  qed
  then show ?thesis using joint_start[OF assms] by (simp add: live_inv_def)
qed

lemma joint_position:
  assumes "joint_inv y w" "is_rank y r"
  obtains cs where "position_ok y r (fw_prog w r) cs"
  using assms by (auto simp: joint_inv_def rank_inv_def)

text \<open>After a call a rank on course has been answered as expected.\<close>

lemma course_call:
  assumes "fy_ok y" "joint_inv y w" "is_rank y r" "fw_prog w r = Call c k" "can_reply y w r c n"
  shows "n = good_reply y r c \<or> bad_reply c n" "bad_reply c n \<Longrightarrow> outcome (good_reply y r) (k n) \<noteq> pcclSuccess"
    "call_params y r c"
proof -
  obtain cs where pos: "position_ok y r (Call c k) cs" using joint_position[OF assms(2,3)] assms(4) by metis
  show p: "call_params y r c" using script_params[OF assms(1,3)] position_call(1)[OF pos] by simp
  have d: "direct_status y (fw_shared w) q \<in> {-1, if lad y q then 1 else 0}" if "is_rank y q" for q
    using assms(2,3) that unfolding joint_inv_def pair_inv_def by blast
  show "n = good_reply y r c \<or> bad_reply c n" by (rule reply_cases[OF assms(1,3) p assms(5) d])
  have "strict (good_reply y r) failed (Call c k)" using pos by (auto simp: position_ok_def on_track_def gave_up_def)
  then show "bad_reply c n \<Longrightarrow> outcome (good_reply y r) (k n) \<noteq> pcclSuccess" by auto
qed

lemma told_call:
  assumes ok: "fy_ok y" and r: "is_rank y r" "is_rank y q" and j: "joint_inv y w" and prog: "fw_prog w r = Call c k"
    and rep: "can_reply y w r c n" and t: "told y w q"
    and n: "q = r \<Longrightarrow> n = good_reply y r c" "n = good_reply y r c \<or> bad_reply c n"
  shows "told y ((call_effect y r c n w)\<lparr>fw_prog := (fw_prog w)(r := k n)\<rparr>) q" (is "told y ?w q")
proof -
  note par = course_call(3)[OF ok j r(1) prog rep]
  have sh: "fw_shared ?w = (case c of PublishReady slot seq \<Rightarrow> publishFastpathReadySeq (fy_comm y r) r slot seq (fw_shared w)
      | PublishStage slot seq \<Rightarrow> publishFastpathStageSeq (fy_comm y r) r slot seq (fw_shared w)
      | PublishDirect slot seq b \<Rightarrow> publishFastpathDirectStatus (fy_comm y r) r slot seq b (fw_shared w)
      | _ \<Rightarrow> fw_shared w)"
    by (cases c) (simp_all add: push_work_def)
  have keep: "announced_ready y (fw_shared w) q \<Longrightarrow> announced_ready y (fw_shared ?w) q"
    "announced_stage y (fw_shared w) q \<Longrightarrow> announced_stage y (fw_shared ?w) q"
    "q \<noteq> r \<Longrightarrow> direct_status y (fw_shared ?w) q = direct_status y (fw_shared w) q"
    using par publish_ready[OF ok r] publish_stage[OF ok r] publish_direct[OF ok r] unfolding sh
    by (cases c; simp)+
  show ?thesis
  proof (cases "q = r")
    case False
    then have "rest_of y ?w q = rest_of y w q" by (simp add: rest_of_def)
    then show ?thesis using t keep False by (simp add: told_def)
  next
    case True
    have re: "rest_of y w r = c # rest_of y ?w r" using n(1)[OF True] by (simp add: rest_of_def prog)
    have a: "announced_ready y (fw_shared ?w) r" if "c = PublishReady (fy_slot y) (fy_seq y)"
      using publish_ready(1)[OF ok r(1,1)] that unfolding sh by simp
    have b: "announced_stage y (fw_shared ?w) r" if "c = PublishStage (fy_slot y) (fy_seq y)"
      using publish_stage(2)[OF ok r(1,1)] that unfolding sh by simp
    have d: "direct_status y (fw_shared ?w) r = (if lad y r then 1 else 0)"
      if "c = PublishDirect (fy_slot y) (fy_seq y) (lad y r) \<or> direct_status y (fw_shared w) r = (if lad y r then 1 else 0)"
    proof (cases "\<exists>slot seq b. c = PublishDirect slot seq b")
      case True
      then have "c = PublishDirect (fy_slot y) (fy_seq y) (lad y r)" using par by auto
      then show ?thesis using publish_direct(3)[OF ok r(1,1), of "lad y r" "fw_shared w"] unfolding sh by simp
    next
      case False
      then have "direct_status y (fw_shared ?w) r = direct_status y (fw_shared w) r"
        using par publish_ready(3)[OF ok r(1,1)] publish_stage(3)[OF ok r(1,1)] unfolding sh by (cases c) simp_all
      then show ?thesis using that False by simp
    qed
    show ?thesis using t keep a b d unfolding told_def True re by auto
  qed
qed

lemma live_step:
  assumes ok: "fy_ok y" and st: "fp_step y w w'" and inv: "live_inv y w"
  shows "live_inv y w'"
proof -
  have j: "joint_inv y w" using inv by (simp add: live_inv_def)
  have j': "joint_inv y w'" by (rule inv_step[OF ok st j])
  have "told y w' q" if q: "is_rank y q" "on_course y w' q" for q
    using st
  proof cases
    case (step_call r c k n)
    note cc = course_call[OF ok j step_call(2-4)]
    have g: "n = good_reply y r c" if "q = r" using q(2) cc(1,2) that unfolding step_call(1) by (auto simp: on_course_def)
    have "on_course y w q" using q(2) g unfolding step_call(1) on_course_def by (cases "q = r") (simp_all add: step_call(3))
    then have "told y w q" using inv q(1) by (simp add: live_inv_def)
    then show ?thesis unfolding step_call(1) using told_call[OF ok step_call(2) q(1) j step_call(3,4)] g cc(1) by blast
  next
    case (step_user r m)
    then show ?thesis using inv q by (simp add: live_inv_def told_def on_course_def rest_of_def)
  next
    case (step_arrive r k)
    then show ?thesis using inv q by (simp add: live_inv_def told_def on_course_def rest_of_def)
  next
    case (step_work r lane wk rest)
    then show ?thesis using inv q by (simp add: live_inv_def told_def on_course_def rest_of_def)
  qed
  then show ?thesis using j' by (simp add: live_inv_def)
qed

section \<open>Progress\<close>

definition unfinished :: "fp_system \<Rightarrow> fp_world \<Rightarrow> int \<Rightarrow> bool" where
  "unfinished y w r \<longleftrightarrow> is_rank y r \<and> rest_of y w r \<noteq> []"

definition next_phase :: "fp_system \<Rightarrow> fp_world \<Rightarrow> int \<Rightarrow> nat" where
  "next_phase y w r = phase (hd (rest_of y w r))"

definition all_on_course :: "fp_system \<Rightarrow> fp_world \<Rightarrow> bool" where
  "all_on_course y w \<longleftrightarrow> live_inv y w \<and> (\<forall>r. is_rank y r \<longrightarrow> on_course y w r)"

lemma course_script:
  assumes "joint_inv y w" "is_rank y r" "on_course y w r"
  shows "\<exists>cs. script y r = cs @ rest_of y w r \<and> (FpBarrier \<in> set cs \<longrightarrow> fw_arrived w r)"
proof -
  obtain cs ws where R: "\<And>r. is_rank y r \<Longrightarrow> rank_inv y w r (cs r) (ws r)"
    and P: "\<And>r q. is_rank y r \<Longrightarrow> is_rank y q \<Longrightarrow> pair_inv y w cs r q" using assms(1) unfolding joint_inv_def by blast
  have "position_ok y r (fw_prog w r) (cs r)" using R[OF assms(2)] by (simp add: rank_inv_def)
  then have "script y r = cs r @ rest_of y w r"
    using assms(3) by (auto simp: position_ok_def on_track_def gave_up_def rest_of_def on_course_def)
  then show ?thesis using P[OF assms(2,2)] by (auto simp: pair_inv_def)
qed

lemma earlier_done:
  assumes "fy_ok y" "all_on_course y w" "is_rank y q" "unfinished y w q \<Longrightarrow> n \<le> next_phase y w q" "phase d < n"
  shows "d \<notin> set (rest_of y w q)"
proof
  assume d: "d \<in> set (rest_of y w q)"
  then have n: "n \<le> phase (hd (rest_of y w q))"
    using assms(3) assms(4)[unfolded unfinished_def next_phase_def] by force
  have "joint_inv y w" "on_course y w q" using assms(2,3) by (simp_all add: all_on_course_def live_inv_def)
  then obtain cs where "script y q = cs @ rest_of y w q" using course_script assms(3) by blast
  then have "sorted (map phase (rest_of y w q))" using script_sorted[OF assms(1,3)] by (simp add: sorted_append)
  then have "phase (hd (rest_of y w q)) \<le> phase d" using d by (cases "rest_of y w q") auto
  then show False using n assms(5) by simp
qed

lemma status_asked:
  assumes "fy_ok y" "is_rank y r" "WaitStatus p slot seq \<in> set (script y r)"
  shows "topo_direct y"
  using assms(3) main_phase[of "WaitStatus p slot seq" y r]
  unfolding script_calls(1)[OF assms(1,2)] by (cases "topo_direct y") (auto simp: stage_calls_def mode_calls_def)

definition fp_left :: "fp_system \<Rightarrow> fp_world \<Rightarrow> int \<Rightarrow> nat" where
  "fp_left y w r = 2 * length (rest_of y w r) + length (pending (fw_queue w r)) +
     (if fw_arrived w r then 0 else 1) + (if fw_ready w r then 0 else 1)"

definition all_left :: "fp_system \<Rightarrow> fp_world \<Rightarrow> nat" where
  "all_left y w = sum_list (map (fp_left y w) [0..fy_n y - 1])"

lemma left_less:
  assumes "is_rank y r" "fp_left y w' r < fp_left y w r" "\<And>q. q \<noteq> r \<Longrightarrow> fp_left y w' q = fp_left y w q"
  shows "all_left y w' < all_left y w"
proof -
  have "sum_list (map (fp_left y w') rs) < sum_list (map (fp_left y w) rs)" if "r \<in> set rs" for rs
    using that
  proof (induction rs)
    case (Cons a rs)
    have "fp_left y w' b \<le> fp_left y w b" for b using assms(2,3) by (cases "b = r") auto
    then have le: "sum_list (map (fp_left y w') rs) \<le> sum_list (map (fp_left y w) rs)" by (rule sum_list_mono)
    show ?case
    proof (cases "a = r")
      case True
      then show ?thesis using assms(2) le by simp
    next
      case False
      then show ?thesis using Cons assms(3)[of a] by simp
    qed
  qed simp
  then show ?thesis using assms(1) by (simp add: all_left_def del: set_upto)
qed

text \<open>A step that brings a rank forward and keeps every rank on course.\<close>

definition advances :: "fp_system \<Rightarrow> fp_world \<Rightarrow> bool" where
  "advances y w \<longleftrightarrow> (\<exists>w'. fp_step y w w' \<and> all_on_course y w' \<and> all_left y w' < all_left y w)"

lemma advance_by:
  assumes "fy_ok y" "all_on_course y w" "fp_step y w w'" "is_rank y r" "fp_left y w' r < fp_left y w r"
    "\<And>q. q \<noteq> r \<Longrightarrow> fp_left y w' q = fp_left y w q" "\<And>q. is_rank y q \<Longrightarrow> on_course y w' q"
  shows "advances y w"
proof -
  have "all_on_course y w'"
    using live_step[OF assms(1,3)] assms(2,7) by (simp add: all_on_course_def)
  then show ?thesis using assms(3) left_less[OF assms(4-6)] unfolding advances_def by blast
qed

lemma pending_push:
  "length (pending (q(l := q l @ [w]))) = Suc (length (pending q))"
  by (cases l) (simp_all add: pending_def)

lemma pending_pop: "q l = w # rest \<Longrightarrow> Suc (length (pending (q(l := rest)))) = length (pending q)"
  by (cases l) (simp_all add: pending_def)

lemma effect_left:
  assumes "w' = (call_effect y r c n w)\<lparr>fw_prog := (fw_prog w)(r := p)\<rparr>"
  shows "fw_arrived w' = fw_arrived w" "fw_ready w' = fw_ready w" "q \<noteq> r \<Longrightarrow> fw_queue w' q = fw_queue w q"
    "length (pending (fw_queue w' r)) \<le> Suc (length (pending (fw_queue w r)))"
  unfolding assms using pending_push[of "fw_queue w r"] by (cases c; simp add: push_work_def)+

lemma advance_call:
  assumes "fy_ok y" "all_on_course y w" "is_rank y r" "fw_prog w r = Call c k" "can_reply y w r c (good_reply y r c)"
  shows "advances y w"
proof -
  define w' where "w' = (call_effect y r c (good_reply y r c) w)\<lparr>fw_prog := (fw_prog w)(r := k (good_reply y r c))\<rparr>"
  note e = effect_left[OF w'_def]
  have p: "fw_prog w' = (fw_prog w)(r := k (good_reply y r c))" by (simp add: w'_def)
  have "fp_step y w w'" unfolding w'_def by (rule step_call[OF assms(3-5)])
  moreover have "fp_left y w' r < fp_left y w r"
    using e(1,2,4) assms(4) by (simp add: fp_left_def rest_of_def p)
  moreover have "fp_left y w' q = fp_left y w q" if "q \<noteq> r" for q
    using e(1,2) e(3)[OF that] that by (simp add: fp_left_def rest_of_def p)
  moreover have "on_course y w' q" if "is_rank y q" for q
    using assms(2,4) that by (cases "q = r") (force simp: all_on_course_def on_course_def p)+
  ultimately show ?thesis by (rule advance_by[OF assms(1,2) _ assms(3)])
qed

lemma advance_work:
  assumes "fy_ok y" "all_on_course y w" "is_rank y r" "fw_queue w r lane \<noteq> []"
  shows "advances y w"
proof -
  obtain wk rest where q: "fw_queue w r lane = wk # rest" using assms(4) by (cases "fw_queue w r lane") auto
  show ?thesis
    by (rule advance_by[OF assms(1,2) step_work[OF assms(3) q] assms(3)])
      (use assms(2) pending_pop[of "fw_queue w r", OF q] in
        \<open>auto simp: fp_left_def rest_of_def all_on_course_def on_course_def\<close>)
qed

lemma advance_user:
  assumes "fy_ok y" "all_on_course y w" "is_rank y r" "\<not> fw_ready w r"
  shows "advances y w"
proof -
  have st: "fp_step y w (w\<lparr>fw_mem := fw_mem w, fw_input := (\<lambda>p. if owner_of p = r then fw_mem w p else fw_input w p),
      fw_ready := (fw_ready w)(r := True)\<rparr>)" by (rule step_user[OF assms(3,4)]) simp
  show ?thesis
    by (rule advance_by[OF assms(1,2) st assms(3)])
      (use assms(2,4) in \<open>auto simp: fp_left_def rest_of_def all_on_course_def on_course_def\<close>)
qed

lemma advance_arrive:
  assumes "fy_ok y" "all_on_course y w" "is_rank y r" "fw_prog w r = Call FpBarrier k" "\<not> fw_arrived w r"
  shows "advances y w"
  by (rule advance_by[OF assms(1,2) step_arrive[OF assms(3,4)] assms(3)])
    (use assms(2,5) in \<open>auto simp: fp_left_def rest_of_def all_on_course_def on_course_def\<close>)

lemma good_replies:
  "can_reply y w r (WaitLane lane) 1 \<longleftrightarrow> FpMark \<notin> set (fw_queue w r lane)"
  "can_reply y w r (SyncLane lane) 1 \<longleftrightarrow> fw_queue w r lane = []"
  "can_reply y w r (WaitUserReady slot seq) 1 \<longleftrightarrow> fw_ready w r"
  by simp_all

lemma told_others:
  assumes "fy_ok y" "all_on_course y w" "is_rank y q" "unfinished y w q \<Longrightarrow> n \<le> next_phase y w q"
  shows "0 < n \<Longrightarrow> announced_ready y (fw_shared w) q" "1 < n \<Longrightarrow> announced_stage y (fw_shared w) q"
    "0 < n \<Longrightarrow> topo_direct y \<Longrightarrow> direct_status y (fw_shared w) q = (if lad y q then 1 else 0)"
proof -
  have t: "told y w q" using assms(2,3) by (simp add: all_on_course_def live_inv_def)
  note d = earlier_done[OF assms]
  show "0 < n \<Longrightarrow> announced_ready y (fw_shared w) q" using t d[of "PublishReady (fy_slot y) (fy_seq y)"] by (simp add: told_def)
  show "1 < n \<Longrightarrow> announced_stage y (fw_shared w) q" using t d[of "PublishStage (fy_slot y) (fy_seq y)"] by (simp add: told_def)
  show "0 < n \<Longrightarrow> topo_direct y \<Longrightarrow> direct_status y (fw_shared w) q = (if lad y q then 1 else 0)"
    using t d[of "PublishDirect (fy_slot y) (fy_seq y) (lad y q)"] by (simp add: told_def)
qed

lemma barrier_next:
  assumes "fy_ok y" "all_on_course y w" "is_rank y q" "unfinished y w q \<Longrightarrow> 3 \<le> next_phase y w q" "\<not> fw_arrived w q"
  shows "\<exists>k. fw_prog w q = Call FpBarrier k"
proof -
  have j: "joint_inv y w" "on_course y w q" using assms(2,3) by (simp_all add: all_on_course_def live_inv_def)
  obtain cs where s: "script y q = cs @ rest_of y w q" "FpBarrier \<in> set cs \<Longrightarrow> fw_arrived w q"
    using course_script[OF j(1) assms(3) j(2)] by blast
  have "FpBarrier \<in> set (script y q)" unfolding script_calls(1)[OF assms(1,3)] by simp
  then have b: "FpBarrier \<in> set (rest_of y w q)" using s assms(5) by auto
  then obtain c k where c: "fw_prog w q = Call c k" by (cases "fw_prog w q") (auto simp: rest_of_def)
  then have h: "hd (rest_of y w q) = c" by (simp add: rest_of_def)
  have "sorted (map phase (rest_of y w q))" using script_sorted[OF assms(1,3)] s(1) by (simp add: sorted_append)
  then have "phase c \<le> phase FpBarrier" using b h by (cases "rest_of y w q") auto
  moreover have "3 \<le> phase c" using assms(3,4) b h unfolding unfinished_def next_phase_def by force
  ultimately have "phase c = 3" by simp
  then have "c = FpBarrier" by (cases c) (auto split: if_splits)
  then show ?thesis using c by blast
qed

lemma some_rank_advances:
  assumes "fy_ok y" "all_on_course y w" "unfinished y w r0"
  shows "advances y w"
proof -
  obtain r where r: "unfinished y w r" and least: "\<And>q. unfinished y w q \<Longrightarrow> next_phase y w r \<le> next_phase y w q"
    using ex_has_least_nat[of "unfinished y w" r0 "next_phase y w"] assms(3) by blast
  have rank: "is_rank y r" using r by (simp add: unfinished_def)
  obtain c k where prog: "fw_prog w r = Call c k"
    using r by (cases "fw_prog w r") (auto simp: unfinished_def rest_of_def)
  have ph: "next_phase y w r = phase c" by (simp add: next_phase_def rest_of_def prog)
  have j: "joint_inv y w" "on_course y w r" using assms(2) rank by (simp_all add: all_on_course_def live_inv_def)
  obtain cs where "script y r = cs @ rest_of y w r" using course_script[OF j(1) rank j(2)] by blast
  then have c: "c \<in> set (script y r)" by (simp add: rest_of_def prog)
  have par: "call_params y r c" by (rule script_params[OF assms(1) rank c])
  note others = told_others[OF assms(1,2) _ least, unfolded ph]
  note call = advance_call[OF assms(1,2) rank prog]
  show ?thesis
  proof (cases "can_reply y w r c (good_reply y r c)")
    case True
    then show ?thesis by (rule call)
  next
    case False
    show ?thesis
    proof (cases c)
      case (WaitUserReady slot seq)
      then have "\<not> can_reply y w r (WaitUserReady slot seq) 1" using False by (simp del: can_reply.simps)
      then show ?thesis using advance_user[OF assms(1,2) rank] unfolding good_replies by blast
    next
      case (WaitStatus p slot seq)
      then have p: "is_rank y p" "slot = fy_slot y" "seq = fy_seq y" using par by simp_all
      have "topo_direct y" using status_asked[OF assms(1) rank] c WaitStatus by blast
      then have "direct_status y (fw_shared w) p = (if lad y p then 1 else 0)"
        using others(3)[OF p(1)] WaitStatus by simp
      then show ?thesis using False p fy_same_comm[OF assms(1) rank p(1)]
        by (cases "lad y p") (simp_all add: WaitStatus direct_status_def Let_def)
    next
      case (WaitPeerReady p slot seq)
      then have p: "is_rank y p" "slot = fy_slot y" "seq = fy_seq y" using par by simp_all
      have "announced_ready y (fw_shared w) p" using others(1)[OF p(1)] WaitPeerReady by simp
      then show ?thesis using False p fy_same_comm[OF assms(1) rank p(1)]
        by (simp add: WaitPeerReady announced_ready_def)
    next
      case (WaitPeerStage p slot seq)
      then have p: "is_rank y p" "slot = fy_slot y" "seq = fy_seq y" using par by simp_all
      have "announced_stage y (fw_shared w) p" using others(2)[OF p(1)] WaitPeerStage by simp
      then show ?thesis using False p fy_same_comm[OF assms(1) rank p(1)]
        by (simp add: WaitPeerStage announced_stage_def)
    next
      case (WaitLane lane)
      then have "\<not> can_reply y w r (WaitLane lane) 1" using False by (simp del: can_reply.simps)
      then have "fw_queue w r lane \<noteq> []" unfolding good_replies by auto
      then show ?thesis by (rule advance_work[OF assms(1,2) rank])
    next
      case (SyncLane lane)
      then have "\<not> can_reply y w r (SyncLane lane) 1" using False by (simp del: can_reply.simps)
      then have "fw_queue w r lane \<noteq> []" unfolding good_replies .
      then show ?thesis by (rule advance_work[OF assms(1,2) rank])
    next
      case FpBarrier
      have "\<not> list_all (fw_arrived w) [0..fy_n y - 1] \<or> \<not> fw_arrived w r" using False by (auto simp: FpBarrier)
      then obtain q where q: "is_rank y q" "\<not> fw_arrived w q" using rank by (auto simp: list_all_iff simp del: set_upto)
      have "3 \<le> next_phase y w q" if "unfinished y w q" using least[OF that] ph FpBarrier by simp
      from barrier_next[OF assms(1,2) q(1) this q(2)] show ?thesis using advance_arrive[OF assms(1,2) q(1) _ q(2)] by blast
    qed (use False in simp_all)
  qed
qed

lemma all_complete:
  assumes "fy_ok y" "all_on_course y w"
  shows "\<exists>w'. (fp_step y)\<^sup>*\<^sup>* w w' \<and> (\<forall>r. is_rank y r \<longrightarrow> fw_prog w' r = Ret pcclSuccess)"
  using assms(2)
proof (induction "all_left y w" arbitrary: w rule: less_induct)
  case less
  show ?case
  proof (cases "\<exists>r. unfinished y w r")
    case True
    then obtain w' where w': "fp_step y w w'" "all_on_course y w'" "all_left y w' < all_left y w"
      using some_rank_advances[OF assms(1) less.prems] unfolding advances_def by blast
    from less.hyps[OF w'(3,2)] show ?thesis using converse_rtranclp_into_rtranclp[of "fp_step y", OF w'(1)] by blast
  next
    case False
    have "fw_prog w r = Ret pcclSuccess" if "is_rank y r" for r
    proof -
      have "rest_of y w r = []" "on_course y w r" using False less.prems that by (auto simp: unfinished_def all_on_course_def)
      then show ?thesis by (cases "fw_prog w r") (auto simp: rest_of_def on_course_def)
    qed
    then show ?thesis by blast
  qed
qed

lemma live_reach:
  assumes "fy_ok y" "reach (fp_start y) (fp_step y) w"
  shows "live_inv y w"
  using assms(2) by (rule reach_invariant) (auto intro: live_start[OF assms(1)] live_step[OF assms(1)])

section \<open>Property\<close>

text \<open>
  C9. Small-message fast path: from every reachable state in which no rank has failed, however
  far the ranks, their streams and their user streams have come, there is a continuation in
  which every rank returns success. The announcements, stagings and the barrier never leave
  the ranks waiting for each other.
\<close>

theorem fastpath_completes:
  assumes "fy_ok y" "reach (fp_start y) (fp_step y) w" "\<And>r e. is_rank y r \<Longrightarrow> fw_prog w r = Ret e \<Longrightarrow> e = pcclSuccess"
  shows "\<exists>w'. (fp_step y)\<^sup>*\<^sup>* w w' \<and> (\<forall>r. is_rank y r \<longrightarrow> fw_prog w' r = Ret pcclSuccess)"
proof (rule all_complete[OF assms(1)])
  have inv: "live_inv y w" by (rule live_reach[OF assms(1,2)])
  then obtain cs ws where R: "\<And>r. is_rank y r \<Longrightarrow> rank_inv y w r (cs r) (ws r)"
    unfolding live_inv_def joint_inv_def by blast
  have "on_course y w r" if r: "is_rank y r" for r
  proof -
    have "position_ok y r (fw_prog w r) (cs r)" using R[OF r] by (simp add: rank_inv_def)
    then show ?thesis using assms(3)[OF r] by (auto simp: position_ok_def on_track_def gave_up_def on_course_def)
  qed
  then show "all_on_course y w" using inv by (simp add: all_on_course_def)
qed

end
