(* ===== verification/FastPathExample.thy ===== *)
theory FastPathExample
  imports FastPathLive
begin

text \<open>
  A system of two ranks that meets the assumptions of the fast path: an AllReduce of two bytes
  in which only rank 1 can map the buffer of its peer, so that both fall back to staging.
\<close>

definition ex_topology :: local_topology where
  "ex_topology = \<lparr>num_gpus = 2, num_numa_nodes = 1, gpu_to_numa = [0, 0], numa_to_physical = [0],
     gpu_pci_bus_ids = ['''', ''''], has_nvlink = [[False, False], [False, False]],
     lca_is_pcie_switch = [[True, True], [True, True]], direct_peer_allowed = [[True, True], [True, True]]\<rparr>"

definition ex_env :: "int \<Rightarrow> fp_env" where
  "ex_env r = \<lparr>fe_rank = r, fe_world = 2, fe_device = r, fe_comm = 0, fe_initialized = True, fe_enabled = True,
     fe_env_enabled = True, fe_state_mgr = True, fe_multi_process = True, fe_topology = Some ex_topology,
     fe_threshold = 1024, fe_depth = 4, fe_ipc = True, fe_ipc_ready = (\<lambda>_. True),
     fe_remote = (\<lambda>s. if r = 1 then 100 else 0), fe_staging = (\<lambda>_. True), fe_scratch = (\<lambda>_. True)\<rparr>"

definition ex_request :: fp_request where
  "ex_request = \<lparr>rq_kind = FpAllReduce, rq_send = 100, rq_recv = 200, rq_seg_count = 2, rq_send_segs = 1,
     rq_recv_segs = 1, rq_root = 0, rq_elem = 1, rq_scalar = 0, rq_op = 0, rq_stream = 0, rq_debug_op = AllReduce_op\<rparr>"

text \<open>Addition of bytes, as many as the destination has.\<close>

definition ex_kernel :: fp_kernel where
  "ex_kernel ty op xs zs = map (\<lambda>i. xs ! i + (if i < length zs then zs ! i else 0)) [0..<length xs]"

definition ex_fp :: fp_system where
  "ex_fp = \<lparr>fy_n = 2, fy_env = ex_env, fy_req = (\<lambda>_. ex_request), fy_slot = 1, fy_seq = 5, fy_kernel = ex_kernel\<rparr>"

definition ex_fp_start :: fp_world where
  "ex_fp_start = \<lparr>fw_mem = (\<lambda>_. 7), fw_input = (\<lambda>_. 7), fw_ready = (\<lambda>_. False), fw_shared = zero_state,
     fw_queue = (\<lambda>_ _. []), fw_arrived = (\<lambda>_. False), fw_signalled = (\<lambda>_. False), fw_prog = fy_prog ex_fp\<rparr>"

lemma ex_fp_simps [simp]:
  "fy_n ex_fp = 2" "fy_env ex_fp = ex_env" "fy_req ex_fp r = ex_request" "fy_slot ex_fp = 1" "fy_seq ex_fp = 5"
  "fy_kernel ex_fp = ex_kernel"
  by (simp_all add: ex_fp_def)

lemma ex_fp_ranks: "is_rank ex_fp r \<longleftrightarrow> r = 0 \<or> r = 1"
  by (auto simp: is_rank_def)

lemma ex_seg: "fp_seg_bytes ex_request = 2" "logicalBytes ex_request = 2" "fy_seg ex_fp = 2" "fy_kind ex_fp = FpAllReduce"
  by (simp_all add: fp_seg_bytes_def logicalBytes_def ex_request_def mul64_def int_to_size_def fy_seg_def fy_kind_def)

lemma ex_env_simps:
  "fe_rank (ex_env r) = r" "fe_world (ex_env r) = 2" "fe_comm (ex_env r) = 0" "fe_initialized (ex_env r)"
  "fe_enabled (ex_env r)" "fe_env_enabled (ex_env r)" "fe_state_mgr (ex_env r)" "fe_multi_process (ex_env r)"
  "fe_topology (ex_env r) = Some ex_topology" "fe_threshold (ex_env r) = 1024" "fe_depth (ex_env r) = 4"
  "fe_remote (ex_env r) s = (if r = 1 then 100 else 0)" "fe_staging (ex_env r) s" "fe_scratch (ex_env r) t"
  by (simp_all add: ex_env_def)

lemma ex_request_simps:
  "rq_kind ex_request = FpAllReduce" "rq_send ex_request = 100" "rq_recv ex_request = 200" "rq_seg_count ex_request = 2"
  "rq_elem ex_request = 1" "rq_send_segs ex_request = 1" "rq_recv_segs ex_request = 1"
  by (simp_all add: ex_request_def)

lemma ex_direct: "collectiveTopologyCanAllDirect (ex_env r) ex_request"
proof -
  have "[0..1::int] = [0, 1]" by (simp add: upto.simps)
  then show ?thesis
    by (simp add: collectiveTopologyCanAllDirect_def fp_ranks_def ex_env_simps pairDirectAllowed_def
      pairLcaIsPcieSwitch_def pairDirectPeerAllowed_def ex_topology_def pair_entry_def)
qed

lemma ex_handled: "0 \<le> r \<Longrightarrow> r < 2 \<Longrightarrow> canHandle True (ex_env r) ex_request 0"
  using ex_direct[of r] by (simp add: canHandle_def ex_seg MAX_RANKS_def ex_env_simps ex_request_simps)

lemma ex_rank_ok:
  assumes "r = 0 \<or> r = 1"
  shows "fy_rank_ok ex_fp r"
proof -
  have "0 \<le> r" "r < 2" using assms by auto
  moreover have "placed ex_fp r"
    using assms by (simp add: placed_def ex_seg ex_request_simps apart_def)
  ultimately show ?thesis
    using ex_handled[of r] by (simp add: fy_rank_ok_def same_request_def slot_args_ok_def fy_comm_def ex_env_simps
      ex_request_simps MAX_RANKS_def PCCL_EXECUTOR_QUEUE_DEPTH_MAX_def PCCL_MAX_CONCURRENT_COMMS_def)
qed

lemma ex_fp_ok: "fy_ok ex_fp"
  using ex_rank_ok by (simp add: fy_ok_def ex_seg ex_fp_ranks ex_kernel_def)

lemma ex_fp_starts: "fp_start ex_fp ex_fp_start"
  by (simp add: fp_start_def ex_fp_start_def ex_fp_ranks fy_prog_def fy_comm_def getFastpathReadySeq_def
    getFastpathStageSeq_def getFastpathDirectStatus_def zero_state_def Let_def)

text \<open>Both ranks can run to the end.\<close>

lemma ex_fp_run:
  "\<exists>w. reach (fp_start ex_fp) (fp_step ex_fp) w \<and> fw_prog w 0 = Ret pcclSuccess \<and> fw_prog w 1 = Ret pcclSuccess"
proof -
  note init = reach_init[of "fp_start ex_fp" _ "fp_step ex_fp", OF ex_fp_starts]
  have inv: "live_inv ex_fp ex_fp_start" by (rule live_start[OF ex_fp_ok ex_fp_starts])
  have "on_course ex_fp ex_fp_start r" if "is_rank ex_fp r" for r
    using script_calls(2)[OF ex_fp_ok that] by (simp add: on_course_def ex_fp_start_def)
  then have "all_on_course ex_fp ex_fp_start" using inv by (simp add: all_on_course_def)
  from all_complete[OF ex_fp_ok this] obtain w
    where w: "(fp_step ex_fp)\<^sup>*\<^sup>* ex_fp_start w" "\<And>r. is_rank ex_fp r \<Longrightarrow> fw_prog w r = Ret pcclSuccess" by blast
  have "is_rank ex_fp 0" "is_rank ex_fp 1" by (simp_all add: ex_fp_ranks)
  then show ?thesis using reach_steps[OF init w(1)] w(2) by blast
qed

lemma ex_start_running: "is_rank ex_fp r \<Longrightarrow> fw_prog ex_fp_start r = Ret e \<Longrightarrow> e = pcclSuccess"
  using script_calls(2)[OF ex_fp_ok, of r] by (simp add: ex_fp_start_def)

lemma ex_kernel_commutes: "length xs = length zs \<Longrightarrow> fy_combine ex_fp xs zs = fy_combine ex_fp zs xs"
  by (simp add: fy_combine_def ex_kernel_def add.commute)

section \<open>The properties on the example\<close>

lemma fastpath_completes_witness:
  "\<exists>w. (fp_step ex_fp)\<^sup>*\<^sup>* ex_fp_start w \<and> fw_prog w 0 = Ret pcclSuccess \<and> fw_prog w 1 = Ret pcclSuccess"
proof -
  note init = reach_init[of "fp_start ex_fp" _ "fp_step ex_fp", OF ex_fp_starts]
  have "\<exists>w. (fp_step ex_fp)\<^sup>*\<^sup>* ex_fp_start w \<and> (\<forall>r. is_rank ex_fp r \<longrightarrow> fw_prog w r = Ret pcclSuccess)"
    by (rule fastpath_completes[OF ex_fp_ok init]) (rule ex_start_running)
  then obtain w
    where w: "(fp_step ex_fp)\<^sup>*\<^sup>* ex_fp_start w" "\<And>r. is_rank ex_fp r \<Longrightarrow> fw_prog w r = Ret pcclSuccess" by blast
  have "is_rank ex_fp 0" "is_rank ex_fp 1" by (simp_all add: ex_fp_ranks)
  then show ?thesis using w by blast
qed


lemma fastpath_quiet_witness:
  "\<exists>w. reach (fp_start ex_fp) (fp_step ex_fp) w \<and> fw_prog w 1 = Ret pcclSuccess \<and> fw_queue w 0 LaneReduce = []"
proof -
  obtain w where w: "reach (fp_start ex_fp) (fp_step ex_fp) w" "fw_prog w 1 = Ret pcclSuccess" using ex_fp_run by blast
  have r: "is_rank ex_fp 1" "is_rank ex_fp 0" by (simp_all add: ex_fp_ranks)
  from fastpath_quiet[OF ex_fp_ok w(1) r(1) w(2) rtranclp.rtrancl_refl] show ?thesis using w r(2) by blast
qed


end
