(* ===== verification/ProgressConc.thy ===== *)
theory ProgressConc
  imports SharedState
begin

text \<open>
  \<^verbatim>\<open>advanceReaderDone\<close> (\<^verbatim>\<open>memory/shared_state.hpp\<close>) as concurrent threads run it on one
  cell: the loads and compare-exchanges are single steps, interleaved in any order. Compare-
  exchange is weak: it may fail although the value is the expected one.
\<close>

datatype reader_pc =
  Idle
| LoadRd nat nat           \<comment> \<open>reader, new value\<close>
| CasRd nat nat nat        \<comment> \<open>reader, new value, \<^verbatim>\<open>old_rd\<close>\<close>
| Scan nat nat nat         \<comment> \<open>reader, next index, \<^verbatim>\<open>min_rd\<close>\<close>
| LoadCp nat               \<comment> \<open>\<^verbatim>\<open>min_rd\<close>\<close>
| CasCp nat nat            \<comment> \<open>\<^verbatim>\<open>min_rd\<close>, \<^verbatim>\<open>old_cp\<close>\<close>

record conc_state =
  c_rd :: "nat \<Rightarrow> nat"
  c_cp :: nat
  c_pc :: "nat \<Rightarrow> reader_pc"

definition set_pc :: "nat \<Rightarrow> reader_pc \<Rightarrow> conc_state \<Rightarrow> conc_state" where
  "set_pc t p s = s\<lparr>c_pc := (c_pc s)(t := p)\<rparr>"

text \<open>One step of thread \<open>t\<close>; \<open>n\<close> is \<^verbatim>\<open>num_readers\<close>.\<close>

inductive reader_step :: "nat \<Rightarrow> conc_state \<Rightarrow> conc_state \<Rightarrow> bool" for n :: nat where
  call: "c_pc s t = Idle \<Longrightarrow> r < n \<Longrightarrow> reader_step n s (set_pc t (LoadRd r x) s)"
| load_rd: "c_pc s t = LoadRd r x \<Longrightarrow> reader_step n s (set_pc t (CasRd r x (c_rd s r)) s)"
| cas_rd_skip: "c_pc s t = CasRd r x old \<Longrightarrow> \<not> old < x \<Longrightarrow> reader_step n s (set_pc t (Scan r 0 x) s)"
| cas_rd_ok: "c_pc s t = CasRd r x old \<Longrightarrow> old < x \<Longrightarrow> c_rd s r = old \<Longrightarrow>
    reader_step n s (set_pc t (Scan r 0 x) (s\<lparr>c_rd := (c_rd s)(r := x)\<rparr>))"
| cas_rd_fail: "c_pc s t = CasRd r x old \<Longrightarrow> old < x \<Longrightarrow>
    reader_step n s (set_pc t (CasRd r x (c_rd s r)) s)"
| scan: "c_pc s t = Scan r i m \<Longrightarrow> i < n \<Longrightarrow>
    reader_step n s (set_pc t (Scan r (Suc i) (if c_rd s i < m then c_rd s i else m)) s)"
| scan_end: "c_pc s t = Scan r i m \<Longrightarrow> \<not> i < n \<Longrightarrow> reader_step n s (set_pc t (LoadCp m) s)"
| load_cp: "c_pc s t = LoadCp m \<Longrightarrow> reader_step n s (set_pc t (CasCp m (c_cp s)) s)"
| cas_cp_skip: "c_pc s t = CasCp m old \<Longrightarrow> \<not> old < m \<Longrightarrow> reader_step n s (set_pc t Idle s)"
| cas_cp_ok: "c_pc s t = CasCp m old \<Longrightarrow> old < m \<Longrightarrow> c_cp s = old \<Longrightarrow>
    reader_step n s (set_pc t Idle (s\<lparr>c_cp := m\<rparr>))"
| cas_cp_fail: "c_pc s t = CasCp m old \<Longrightarrow> old < m \<Longrightarrow>
    reader_step n s (set_pc t (CasCp m (c_cp s)) s)"

definition conc_init :: "conc_state \<Rightarrow> bool" where
  "conc_init s \<longleftrightarrow> (\<forall>r. c_rd s r = 0) \<and> c_cp s = 0 \<and> (\<forall>t. c_pc s t = Idle)"

section \<open>Invariants\<close>

text \<open>What a thread knows: its minimum is below every cursor it has scanned.\<close>

fun pc_safe :: "nat \<Rightarrow> conc_state \<Rightarrow> reader_pc \<Rightarrow> bool" where
  "pc_safe n s (Scan r i m) = (i \<le> n \<and> (\<forall>j < i. m \<le> c_rd s j))"
| "pc_safe n s (LoadCp m) = (\<forall>j < n. m \<le> c_rd s j)"
| "pc_safe n s (CasCp m old) = ((\<forall>j < n. m \<le> c_rd s j) \<and> old \<le> c_cp s)"
| "pc_safe n s (CasRd r x old) = (r < n \<and> old \<le> c_rd s r)"
| "pc_safe n s (LoadRd r x) = (r < n)"
| "pc_safe n s Idle = True"

definition conc_safe :: "nat \<Rightarrow> conc_state \<Rightarrow> bool" where
  "conc_safe n s \<longleftrightarrow> (\<forall>j < n. c_cp s \<le> c_rd s j) \<and> (\<forall>t. pc_safe n s (c_pc s t))"

definition below_all :: "nat \<Rightarrow> conc_state \<Rightarrow> nat \<Rightarrow> bool" where
  "below_all n s k \<longleftrightarrow> (\<forall>j < n. k \<le> c_rd s j)"

text \<open>
  What is still to come: if \<open>k\<close> is below every cursor, then \<^verbatim>\<open>consume_progress\<close> has reached
  \<open>k\<close> or some thread carries a minimum of at least \<open>k\<close> towards it.
\<close>

fun carries :: "nat \<Rightarrow> reader_pc \<Rightarrow> bool" where
  "carries k (Scan r i m) = (k \<le> m)"
| "carries k (LoadCp m) = (k \<le> m)"
| "carries k (CasCp m old) = (k \<le> m)"
| "carries k _ = False"

definition conc_live :: "nat \<Rightarrow> conc_state \<Rightarrow> bool" where
  "conc_live n s \<longleftrightarrow> (\<forall>k. below_all n s k \<longrightarrow> k \<le> c_cp s \<or> (\<exists>t. carries k (c_pc s t)))"

lemma set_pc_sel [simp]:
  "c_pc (set_pc t p s) u = (if u = t then p else c_pc s u)"
  "c_rd (set_pc t p s) = c_rd s" "c_cp (set_pc t p s) = c_cp s"
  by (simp_all add: set_pc_def)

lemma pc_safe_set_pc [simp]: "pc_safe n (set_pc t p s) q = pc_safe n s q"
  by (cases q) simp_all

lemma pc_safe_mono:
  assumes "pc_safe n s q" "\<And>j. c_rd s j \<le> c_rd s' j" "c_cp s \<le> c_cp s'"
  shows "pc_safe n s' q"
  using assms by (cases q) (auto intro: order_trans)

lemma safe_set_pc:
  "conc_safe n s \<Longrightarrow> pc_safe n s p \<Longrightarrow> conc_safe n (set_pc t p s)"
  by (simp add: conc_safe_def)

lemma safe_rd:
  assumes "conc_safe n s" "c_rd s r < x"
  shows "conc_safe n (s\<lparr>c_rd := (c_rd s)(r := x)\<rparr>)"
proof -
  have m: "c_rd s j \<le> c_rd (s\<lparr>c_rd := (c_rd s)(r := x)\<rparr>) j" for j using assms(2) by simp
  have "\<forall>j < n. c_cp s \<le> c_rd (s\<lparr>c_rd := (c_rd s)(r := x)\<rparr>) j"
    using assms(1) m unfolding conc_safe_def by (meson order_trans)
  then show ?thesis
    using assms(1) pc_safe_mono[OF _ m] unfolding conc_safe_def by simp
qed

lemma safe_cp:
  assumes "conc_safe n s" "c_cp s \<le> m" "\<forall>j < n. m \<le> c_rd s j"
  shows "conc_safe n (s\<lparr>c_cp := m\<rparr>)"
  using assms pc_safe_mono[of n s _ "s\<lparr>c_cp := m\<rparr>"] unfolding conc_safe_def by auto

lemma conc_safe_step:
  assumes "conc_safe n s" "reader_step n s s'"
  shows "conc_safe n s'"
  using assms(2)
proof cases
  case (scan t r i m)
  have "pc_safe n s (Scan r i m)" using assms(1) scan(2) unfolding conc_safe_def by metis
  then have "pc_safe n s (Scan r (Suc i) (if c_rd s i < m then c_rd s i else m))"
    using scan(3) by (auto simp: less_Suc_eq intro: order_trans)
  then show ?thesis using assms(1) scan(1) by (simp add: safe_set_pc)
next
  case (scan_end t r i m)
  have "pc_safe n s (Scan r i m)" using assms(1) scan_end(2) unfolding conc_safe_def by metis
  then show ?thesis using assms(1) scan_end(1,3) by (simp add: safe_set_pc)
next
  case (cas_rd_ok t r x old)
  then have "conc_safe n (s\<lparr>c_rd := (c_rd s)(r := x)\<rparr>)" using assms(1) safe_rd by blast
  then show ?thesis using cas_rd_ok(1) by (simp add: safe_set_pc)
next
  case (cas_cp_ok t m old)
  have "pc_safe n s (CasCp m old)" using assms(1) cas_cp_ok(2) unfolding conc_safe_def by metis
  then have "conc_safe n (s\<lparr>c_cp := m\<rparr>)" using assms(1) cas_cp_ok by (intro safe_cp) auto
  then show ?thesis using cas_cp_ok(1) by (simp add: safe_set_pc)
next
  case (load_cp t m)
  have "pc_safe n s (LoadCp m)" using assms(1) load_cp(2) unfolding conc_safe_def by metis
  then show ?thesis using assms(1) load_cp(1) by (simp add: safe_set_pc)
next
  case (cas_cp_fail t m old)
  have "pc_safe n s (CasCp m old)" using assms(1) cas_cp_fail(2) unfolding conc_safe_def by metis
  then show ?thesis using assms(1) cas_cp_fail(1) by (simp add: safe_set_pc)
next
  case (load_rd t r x)
  have "pc_safe n s (LoadRd r x)" using assms(1) load_rd(2) unfolding conc_safe_def by metis
  then show ?thesis using assms(1) load_rd(1) by (simp add: safe_set_pc)
next
  case (cas_rd_fail t r x old)
  have "pc_safe n s (CasRd r x old)" using assms(1) cas_rd_fail(2) unfolding conc_safe_def by metis
  then show ?thesis using assms(1) cas_rd_fail(1) by (simp add: safe_set_pc)
qed (use assms(1) in \<open>simp_all add: safe_set_pc\<close>)

text \<open>Threads that do not move keep what they carry.\<close>

lemma live_set_pc:
  assumes "conc_live n s" "c_pc s t = q"
    and "\<And>k. below_all n s k \<Longrightarrow> carries k q \<Longrightarrow> carries k p \<or> k \<le> c_cp s"
  shows "conc_live n (set_pc t p s)"
  unfolding conc_live_def
proof (intro allI impI)
  fix k assume "below_all n (set_pc t p s) k"
  then have b: "below_all n s k" by (simp add: below_all_def)
  then consider "k \<le> c_cp s" | u where "carries k (c_pc s u)"
    using assms(1) unfolding conc_live_def by blast
  then show "k \<le> c_cp (set_pc t p s) \<or> (\<exists>u. carries k (c_pc (set_pc t p s) u))"
  proof cases
    case 1
    then show ?thesis by simp
  next
    case (2 u)
    show ?thesis
    proof (cases "u = t")
      case True
      then show ?thesis using assms(3)[OF b] 2 assms(2) by (auto intro!: exI[of _ t])
    next
      case False
      then show ?thesis using 2 by (auto intro!: exI[of _ u])
    qed
  qed
qed

lemma conc_live_step:
  assumes l: "conc_live n s" and s: "conc_safe n s" and "reader_step n s s'"
  shows "conc_live n s'"
  using assms(3)
proof cases
  case (cas_rd_ok t r x old)
  have r: "r < n" using s cas_rd_ok(2) unfolding conc_safe_def by (metis pc_safe.simps(4))
  have "carries k (Scan r 0 x)" if "below_all n s' k" for k
    using that r unfolding cas_rd_ok(1) by (auto simp: below_all_def)
  then show ?thesis unfolding conc_live_def cas_rd_ok(1) by (intro allI impI disjI2 exI[of _ t]) simp
next
  case (cas_cp_ok t m old)
  have m: "below_all n s m"
    using s cas_cp_ok(2) unfolding conc_safe_def below_all_def by (metis pc_safe.simps(3))
  show ?thesis unfolding conc_live_def
  proof (intro allI impI)
    fix k assume "below_all n s' k"
    then have b: "below_all n s k" by (simp add: below_all_def cas_cp_ok(1))
    consider "k \<le> c_cp s" | u where "carries k (c_pc s u)"
      using l b unfolding conc_live_def by blast
    then show "k \<le> c_cp s' \<or> (\<exists>u. carries k (c_pc s' u))"
    proof cases
      case 1
      then show ?thesis using cas_cp_ok by simp
    next
      case (2 u)
      then show ?thesis using cas_cp_ok by (cases "u = t") (auto intro!: exI[of _ u])
    qed
  qed
next
  case (scan t r i m)
  then show ?thesis using l by (auto intro!: live_set_pc simp: below_all_def)
next
  case (cas_cp_skip t m old)
  have "old \<le> c_cp s" using s cas_cp_skip(2) unfolding conc_safe_def by (metis pc_safe.simps(3))
  then show ?thesis unfolding cas_cp_skip(1)
    using cas_cp_skip(3) by (intro live_set_pc[OF l cas_cp_skip(2)]) auto
qed (use l in \<open>auto intro!: live_set_pc\<close>)

lemma conc_reach:
  assumes "reach conc_init (reader_step n) s"
  shows "conc_safe n s \<and> (0 < n \<longrightarrow> conc_live n s)"
proof (rule reach_invariant[OF assms])
  fix s assume "conc_init s"
  then show "conc_safe n s \<and> (0 < n \<longrightarrow> conc_live n s)"
    by (auto simp: conc_init_def conc_safe_def conc_live_def below_all_def)
next
  fix s t assume "conc_safe n s \<and> (0 < n \<longrightarrow> conc_live n s)" "reader_step n s t"
  then show "conc_safe n t \<and> (0 < n \<longrightarrow> conc_live n t)"
    using conc_safe_step conc_live_step by blast
qed

section \<open>Properties\<close>

text \<open>
  C10. Consume progress under concurrency. In every interleaving of threads that advance
  reader cursors of one cell, \<^verbatim>\<open>consume_progress\<close> never passes a reader's cursor; and
  whenever no call is in progress it is exactly the minimum of the cursors, so no update is
  lost.
\<close>

theorem consume_is_minimum:
  assumes "reach conc_init (reader_step n) s" and "0 < n"
  shows "(\<forall>j \<in> {..<n}. c_cp s \<le> c_rd s j) \<and>
    ((\<forall>t. c_pc s t = Idle) \<longrightarrow> c_cp s = Min (c_rd s ` {..<n}))"
proof -
  have safe: "\<forall>j < n. c_cp s \<le> c_rd s j" and live: "conc_live n s"
    using conc_reach[OF assms(1)] assms(2) by (auto simp: conc_safe_def)
  let ?M = "Min (c_rd s ` {..<n})"
  have ne: "c_rd s ` {..<n} \<noteq> {}" using assms(2) by auto
  have "c_cp s = ?M" if idle: "\<forall>t. c_pc s t = Idle"
  proof (rule antisym)
    show "c_cp s \<le> ?M" using safe ne by (intro Min.boundedI) auto
    have "below_all n s ?M" by (auto simp: below_all_def)
    then show "?M \<le> c_cp s" using live idle unfolding conc_live_def by fastforce
  qed
  then show ?thesis using safe by auto
qed

text \<open>Two readers: the first has advanced to 3, the second to 2.\<close>

definition ex_conc :: "(nat \<Rightarrow> nat) \<Rightarrow> nat \<Rightarrow> conc_state" where
  "ex_conc rd cp = \<lparr>c_rd = rd, c_cp = cp, c_pc = \<lambda>_. Idle\<rparr>"

lemma one_call:
  assumes "r < 2" "rd r < x" "rd' = rd(r := x)"
    and m: "m = (let a = (if rd' 0 < x then rd' 0 else x) in if rd' 1 < a then rd' 1 else a)"
    and cp: "cp' = (if cp < m then m else cp)"
  shows "(reader_step 2)\<^sup>*\<^sup>* (ex_conc rd cp) (ex_conc rd' cp')"
proof -
  let ?s = "\<lambda>rd cp p. set_pc 0 p (ex_conc rd cp)"
  let ?a = "if rd' 0 < x then rd' 0 else x"
  have [simp]: "set_pc t p (set_pc t q s) = set_pc t p s" for t p q s by (simp add: set_pc_def)
  have idle: "set_pc 0 Idle (ex_conc f k) = ex_conc f k" for f k
    by (simp add: set_pc_def ex_conc_def fun_upd_idem)
  have crd: "(set_pc t p s)\<lparr>c_rd := f\<rparr> = set_pc t p (s\<lparr>c_rd := f\<rparr>)"
    and ccp: "(set_pc t p s)\<lparr>c_cp := k\<rparr> = set_pc t p (s\<lparr>c_cp := k\<rparr>)" for t p s f k
    by (simp_all add: set_pc_def)
  have 1: "reader_step 2 (ex_conc rd cp) (?s rd cp (LoadRd r x))"
    using assms(1) by (intro reader_step.call) (simp_all add: ex_conc_def)
  have 2: "reader_step 2 (?s rd cp (LoadRd r x)) (?s rd cp (CasRd r x (rd r)))"
    using reader_step.load_rd[of "?s rd cp (LoadRd r x)" 0 r x 2] by (simp add: ex_conc_def)
  have 3: "reader_step 2 (?s rd cp (CasRd r x (rd r))) (?s rd' cp (Scan r 0 x))"
    using reader_step.cas_rd_ok[of "?s rd cp (CasRd r x (rd r))" 0 r x "rd r" 2] assms(2)
    by (simp add: crd assms(3)) (simp add: ex_conc_def)
  have 4: "reader_step 2 (?s rd' cp (Scan r 0 x)) (?s rd' cp (Scan r 1 ?a))"
    using reader_step.scan[of "?s rd' cp (Scan r 0 x)" 0 r 0 x 2] by (simp add: ex_conc_def cong: if_cong)
  have 5: "reader_step 2 (?s rd' cp (Scan r 1 ?a)) (?s rd' cp (Scan r 2 m))"
    using reader_step.scan[of "?s rd' cp (Scan r 1 ?a)" 0 r 1 ?a 2]
    by (simp add: ex_conc_def m Let_def numeral_2_eq_2 cong: if_cong)
  have 6: "reader_step 2 (?s rd' cp (Scan r 2 m)) (?s rd' cp (LoadCp m))"
    using reader_step.scan_end[of "?s rd' cp (Scan r 2 m)" 0 r 2 m 2] by simp
  have 7: "reader_step 2 (?s rd' cp (LoadCp m)) (?s rd' cp (CasCp m cp))"
    using reader_step.load_cp[of "?s rd' cp (LoadCp m)" 0 m 2] by (simp add: ex_conc_def)
  have 8: "reader_step 2 (?s rd' cp (CasCp m cp)) (ex_conc rd' cp')"
  proof (cases "cp < m")
    case True
    then show ?thesis
      using reader_step.cas_cp_ok[of "?s rd' cp (CasCp m cp)" 0 m cp 2]
      by (simp add: ccp cp) (simp add: ex_conc_def set_pc_def fun_upd_idem)
  next
    case False
    then show ?thesis
      using reader_step.cas_cp_skip[of "?s rd' cp (CasCp m cp)" 0 m cp 2] by (simp add: cp idle)
  qed
  show ?thesis
    using 1 2 3 4 5 6 7 8 by (meson converse_rtranclp_into_rtranclp rtranclp.rtrancl_refl)
qed

lemma ex_conc_reach:
  "reach conc_init (reader_step 2) (ex_conc ((\<lambda>_. 0)(0 := 3, 1 := 2)) 2)"
proof (rule reach_steps)
  show "reach conc_init (reader_step 2) (ex_conc (\<lambda>_. 0) 0)"
    by (rule reach_init) (simp add: conc_init_def ex_conc_def)
  have 1: "(reader_step 2)\<^sup>*\<^sup>* (ex_conc (\<lambda>_. 0) 0) (ex_conc ((\<lambda>_. 0)(0 := 3)) 0)"
    by (rule one_call[of 0 "\<lambda>_. 0" 3 "(\<lambda>_. 0)(0 := 3)" 0]) simp_all
  have 2: "(reader_step 2)\<^sup>*\<^sup>* (ex_conc ((\<lambda>_. 0)(0 := 3)) 0) (ex_conc ((\<lambda>_. 0)(0 := 3, 1 := 2)) 2)"
    by (rule one_call[of 1 "(\<lambda>_. 0)(0 := 3)" 2 "(\<lambda>_. 0)(0 := 3, 1 := 2)" 2]) simp_all
  show "(reader_step 2)\<^sup>*\<^sup>* (ex_conc (\<lambda>_. 0) 0) (ex_conc ((\<lambda>_. 0)(0 := 3, 1 := 2)) 2)"
    using 1 2 by (rule rtranclp_trans)
qed

theorem consume_is_minimum_witness:
  "c_cp (ex_conc ((\<lambda>_. 0)(0 := 3, 1 := 2)) 2) =
     Min (c_rd (ex_conc ((\<lambda>_. 0)(0 := 3, 1 := 2)) 2) ` {..<2})"
  using consume_is_minimum[OF ex_conc_reach] by (simp add: ex_conc_def)

end
