(* ===== verification/Seqlock.thy ===== *)
theory Seqlock
  imports SharedState
begin

text \<open>
  \<^verbatim>\<open>publishDeviceIpcBuffer\<close> and \<^verbatim>\<open>readDeviceIpcBuffer\<close> of \<^verbatim>\<open>memory/shared_state.cpp\<close>: one
  writer and any number of readers on a slot guarded by a sequence number. Every load and
  every store of a word or of a byte of the handle is a step of its own. A store goes to the
  store buffer of the writer and becomes visible later. With total store order (x86) the
  buffer is emptied in order. The code does not ask for more than a release store of the odd
  sequence number, which lets later relaxed stores become visible before it; on a host with
  the relaxed order (ARM) they may overtake it. The loads of a reader are in order on both:
  an acquire load comes first and an acquire fence last.
\<close>

section \<open>The slot and its two programs\<close>

text \<open>Words 0, 1, 2 are base address, offset and size; from 3 on come the handle bytes.\<close>

definition DEVICE_IPC_HANDLE_BYTES :: nat where "DEVICE_IPC_HANDLE_BYTES = 64"

definition DEVICE_IPC_BUFFER_KINDS :: int where "DEVICE_IPC_BUFFER_KINDS = 3"

definition slot_words :: nat where "slot_words = 3 + DEVICE_IPC_HANDLE_BYTES"

record ipc_args =
  ipc_base :: nat
  ipc_offset :: nat
  ipc_size :: nat
  ipc_handle :: "nat list"

text \<open>The guards at the head of the two functions.\<close>

definition publish_args_ok :: "int \<Rightarrow> int \<Rightarrow> ipc_args \<Rightarrow> bool" where
  "publish_args_ok kind rank a \<longleftrightarrow> 0 \<le> kind \<and> kind < DEVICE_IPC_BUFFER_KINDS \<and> 0 \<le> rank \<and>
     rank < MAX_RANKS \<and> length (ipc_handle a) \<le> DEVICE_IPC_HANDLE_BYTES"

text \<open>The stores of a publication between the two stores to the sequence number.\<close>

definition publish_stores :: "ipc_args \<Rightarrow> (nat \<times> nat) list" where
  "publish_stores a = [(0, ipc_base a), (1, ipc_offset a), (2, ipc_size a)] @
     map (\<lambda>i. (3 + i, 0)) [0..<DEVICE_IPC_HANDLE_BYTES] @
     map (\<lambda>i. (3 + i, ipc_handle a ! i)) [0..<length (ipc_handle a)]"

definition published :: "ipc_args \<Rightarrow> nat \<Rightarrow> nat" where
  "published a w = (if w = 0 then ipc_base a else if w = 1 then ipc_offset a
     else if w = 2 then ipc_size a
     else if w - 3 < length (ipc_handle a) then ipc_handle a ! (w - 3) else 0)"

definition do_stores :: "(nat \<times> nat) list \<Rightarrow> (nat \<Rightarrow> nat) \<Rightarrow> nat \<Rightarrow> nat" where
  "do_stores sts mem = foldl (\<lambda>m (w, x). m(w := x)) mem sts"

datatype store = SeqStore nat | WordStore nat nat

datatype store_order = TotalStoreOrder | RelaxedStoreOrder

text \<open>Whether a store may become visible before the older ones still in the buffer.\<close>

fun may_overtake :: "store_order \<Rightarrow> store list \<Rightarrow> store \<Rightarrow> bool" where
  "may_overtake mo [] st \<longleftrightarrow> True"
| "may_overtake TotalStoreOrder (_ # _) st \<longleftrightarrow> False"
| "may_overtake RelaxedStoreOrder (older # rest) st \<longleftrightarrow>
     (case st of SeqStore _ \<Rightarrow> False
      | WordStore w _ \<Rightarrow> (case older of SeqStore q \<Rightarrow> odd q | WordStore w' _ \<Rightarrow> w' \<noteq> w) \<and>
          may_overtake RelaxedStoreOrder rest st)"

datatype writer_pc =
  WIdle
| WLoaded nat ipc_args
| WStore nat "(nat \<times> nat) list" ipc_args

datatype reader_pc =
  RIdle
| RAttempt nat                              \<comment> \<open>attempts left\<close>
| RCopy nat nat nat "nat \<Rightarrow> nat"             \<comment> \<open>attempts left, \<^verbatim>\<open>seq1\<close>, next word, copy\<close>
| RDone nat "nat \<Rightarrow> nat"                    \<comment> \<open>\<^verbatim>\<open>seq1\<close> and the copy that is returned\<close>
| RFail

record slot_state =
  q_seq :: nat
  q_mem :: "nat \<Rightarrow> nat"
  q_buffer :: "store list"             \<comment> \<open>stores of the writer not yet visible, oldest first\<close>
  q_own_seq :: nat                     \<comment> \<open>the sequence number as the writer itself loads it\<close>
  q_writer :: writer_pc
  q_readers :: "nat \<Rightarrow> reader_pc"
  q_hist :: "nat \<Rightarrow> ipc_args option"   \<comment> \<open>what was published under a sequence number\<close>

definition set_reader :: "nat \<Rightarrow> reader_pc \<Rightarrow> slot_state \<Rightarrow> slot_state" where
  "set_reader t p s = s\<lparr>q_readers := (q_readers s)(t := p)\<rparr>"

fun make_visible :: "store \<Rightarrow> slot_state \<Rightarrow> slot_state" where
  "make_visible (SeqStore q) s = s\<lparr>q_seq := q\<rparr>"
| "make_visible (WordStore w x) s = s\<lparr>q_mem := (q_mem s)(w := x)\<rparr>"

inductive slot_step :: "store_order \<Rightarrow> slot_state \<Rightarrow> slot_state \<Rightarrow> bool" for mo :: store_order where
  w_call: "q_writer s = WIdle \<Longrightarrow> length (ipc_handle a) \<le> DEVICE_IPC_HANDLE_BYTES \<Longrightarrow>
    slot_step mo s (s\<lparr>q_writer := WLoaded (if odd (q_own_seq s) then q_own_seq s + 1 else q_own_seq s) a\<rparr>)"
| w_begin: "q_writer s = WLoaded q a \<Longrightarrow>
    slot_step mo s (s\<lparr>q_buffer := q_buffer s @ [SeqStore (q + 1)], q_own_seq := q + 1,
                   q_writer := WStore q (publish_stores a) a, q_hist := (q_hist s)(q + 2 := Some a)\<rparr>)"
| w_store: "q_writer s = WStore q ((w, x) # sts) a \<Longrightarrow>
    slot_step mo s (s\<lparr>q_buffer := q_buffer s @ [WordStore w x], q_writer := WStore q sts a\<rparr>)"
| w_end: "q_writer s = WStore q [] a \<Longrightarrow>
    slot_step mo s (s\<lparr>q_buffer := q_buffer s @ [SeqStore (q + 2)], q_own_seq := q + 2, q_writer := WIdle\<rparr>)"
| w_visible: "q_buffer s = older @ st # newer \<Longrightarrow> may_overtake mo older st \<Longrightarrow>
    slot_step mo s ((make_visible st s)\<lparr>q_buffer := older @ newer\<rparr>)"
| r_call: "q_readers s t = RIdle \<Longrightarrow> slot_step mo s (set_reader t (RAttempt 1000) s)"
| r_give_up: "q_readers s t = RAttempt 0 \<Longrightarrow> slot_step mo s (set_reader t RFail s)"
| r_busy: "q_readers s t = RAttempt (Suc n) \<Longrightarrow> q_seq s = 0 \<or> odd (q_seq s) \<Longrightarrow>
    slot_step mo s (set_reader t (RAttempt n) s)"
| r_load: "q_readers s t = RAttempt (Suc n) \<Longrightarrow> \<not> (q_seq s = 0 \<or> odd (q_seq s)) \<Longrightarrow>
    slot_step mo s (set_reader t (RCopy n (q_seq s) 0 (\<lambda>_. 0)) s)"
| r_copy: "q_readers s t = RCopy n q w tmp \<Longrightarrow> w < slot_words \<Longrightarrow>
    slot_step mo s (set_reader t (RCopy n q (Suc w) (tmp(w := q_mem s w))) s)"
| r_done: "q_readers s t = RCopy n q w tmp \<Longrightarrow> \<not> w < slot_words \<Longrightarrow> q = q_seq s \<and> even (q_seq s) \<Longrightarrow>
    slot_step mo s (set_reader t (RDone q tmp) s)"
| r_retry: "q_readers s t = RCopy n q w tmp \<Longrightarrow> \<not> w < slot_words \<Longrightarrow> \<not> (q = q_seq s \<and> even (q_seq s)) \<Longrightarrow>
    slot_step mo s (set_reader t (RAttempt n) s)"
| r_return: "q_readers s t = RDone q tmp \<or> q_readers s t = RFail \<Longrightarrow> slot_step mo s (set_reader t RIdle s)"

definition slot_init :: "slot_state \<Rightarrow> bool" where
  "slot_init s \<longleftrightarrow> q_seq s = 0 \<and> q_mem s = (\<lambda>_. 0) \<and> q_buffer s = [] \<and> q_own_seq s = 0 \<and> q_writer s = WIdle \<and>
     q_readers s = (\<lambda>_. RIdle) \<and> q_hist s = (\<lambda>_. None)"

section \<open>Invariant\<close>

type_synonym history = "nat \<Rightarrow> ipc_args option"

definition holds_rec :: "history \<Rightarrow> nat \<Rightarrow> (nat \<Rightarrow> nat) \<Rightarrow> bool" where
  "holds_rec h q m \<longleftrightarrow> (\<exists>a. h q = Some a \<and> (\<forall>w < slot_words. m w = published a w))"

text \<open>
  Stores that take a slot from one complete record to the next: at every even sequence number
  the words are those published under it.
\<close>

definition at_rest :: "history \<Rightarrow> nat \<Rightarrow> (nat \<Rightarrow> nat) \<Rightarrow> bool" where
  "at_rest h q m \<longleftrightarrow> even q \<and> (q = 0 \<or> holds_rec h q m)"

fun chain :: "history \<Rightarrow> nat \<Rightarrow> (nat \<Rightarrow> nat) \<Rightarrow> store list \<Rightarrow> bool" where
  "chain h q m [] \<longleftrightarrow> at_rest h q m"
| "chain h q m (SeqStore q' # sts) \<longleftrightarrow> q' = Suc q \<and> (even q \<longrightarrow> at_rest h q m) \<and> chain h q' m sts"
| "chain h q m (WordStore w x # sts) \<longleftrightarrow> odd q \<and> chain h q (m(w := x)) sts"

fun last_seq :: "nat \<Rightarrow> store list \<Rightarrow> nat" where
  "last_seq q [] = q"
| "last_seq q (SeqStore q' # sts) = last_seq q' sts"
| "last_seq q (WordStore w x # sts) = last_seq q sts"

definition word_stores :: "(nat \<times> nat) list \<Rightarrow> store list" where
  "word_stores sts = map (\<lambda>(w, x). WordStore w x) sts"

text \<open>What the publication in progress has still to store.\<close>

fun to_store :: "writer_pc \<Rightarrow> store list" where
  "to_store (WStore q sts a) = word_stores sts @ [SeqStore (q + 2)]"
| "to_store _ = []"

fun reader_ok :: "slot_state \<Rightarrow> reader_pc \<Rightarrow> bool" where
  "reader_ok s (RCopy n q w tmp) = (q \<noteq> 0 \<and> even q \<and> q \<le> q_seq s \<and>
     (q_seq s = q \<longrightarrow> (\<forall>j < w. tmp j = q_mem s j)))"
| "reader_ok s (RDone q tmp) = (q \<le> q_seq s \<and> holds_rec (q_hist s) q tmp)"
| "reader_ok s _ = True"

fun writer_ok :: "nat \<Rightarrow> writer_pc \<Rightarrow> bool" where
  "writer_ok own (WStore q sts a) \<longleftrightarrow> own = q + 1"
| "writer_ok own (WLoaded q a) \<longleftrightarrow> q = own \<and> length (ipc_handle a) \<le> DEVICE_IPC_HANDLE_BYTES"
| "writer_ok own WIdle \<longleftrightarrow> True"

definition slot_ok :: "slot_state \<Rightarrow> bool" where
  "slot_ok s \<longleftrightarrow> chain (q_hist s) (q_seq s) (q_mem s) (q_buffer s @ to_store (q_writer s)) \<and>
     last_seq (q_seq s) (q_buffer s) = q_own_seq s \<and>
     writer_ok (q_own_seq s) (q_writer s) \<and>
     (\<forall>t. reader_ok s (q_readers s t))"

lemma do_stores_Nil [simp]: "do_stores [] m = m"
  and do_stores_Cons [simp]: "do_stores ((w, x) # sts) m = do_stores sts (m(w := x))"
  by (simp_all add: do_stores_def)

lemma do_stores_append: "do_stores (xs @ ys) m = do_stores ys (do_stores xs m)"
  by (simp add: do_stores_def)

lemma do_stores_map:
  "do_stores (map (\<lambda>i. (3 + i, f i)) [0..<n]) m w = (if 3 \<le> w \<and> w < 3 + n then f (w - 3) else m w)"
  by (induction n) (auto simp: do_stores_append less_Suc_eq)

lemma publish_stores_effect:
  assumes "length (ipc_handle a) \<le> DEVICE_IPC_HANDLE_BYTES" and "w < slot_words"
  shows "do_stores (publish_stores a) m w = published a w"
proof -
  have "do_stores (publish_stores a) m w =
      (if 3 \<le> w \<and> w < 3 + length (ipc_handle a) then ipc_handle a ! (w - 3)
       else if 3 \<le> w \<and> w < 3 + DEVICE_IPC_HANDLE_BYTES then 0
       else (m(0 := ipc_base a, 1 := ipc_offset a, 2 := ipc_size a)) w)"
    by (simp add: publish_stores_def do_stores_append do_stores_map)
  then show ?thesis using assms by (auto simp: published_def slot_words_def)
qed

lemma word_stores_simps [simp]:
  "word_stores [] = []" "word_stores ((w, x) # sts) = WordStore w x # word_stores sts"
  by (simp_all add: word_stores_def)

lemma last_seq_append: "last_seq q (xs @ ys) = last_seq (last_seq q xs) ys"
  by (induction q xs rule: last_seq.induct) simp_all

lemma chain_last: "chain h q m sts \<Longrightarrow> even (last_seq q sts) \<and> q \<le> last_seq q sts"
  by (induction h q m sts rule: chain.induct) (auto simp: at_rest_def)

lemma chain_at_rest: "chain h q m sts \<Longrightarrow> even q \<Longrightarrow> at_rest h q m"
  by (cases "(h, q, m, sts)" rule: chain.cases) auto

lemma chain_history:
  "chain h q m sts \<Longrightarrow> last_seq q sts < q' \<Longrightarrow> chain (h(q' := r)) q m sts"
proof (induction h q m sts rule: chain.induct)
  case (2 h q m q'' sts)
  then have c: "q'' = Suc q" "chain h (Suc q) m sts" "even q \<Longrightarrow> at_rest h q m" "last_seq (Suc q) sts < q'" by auto
  have "Suc q \<le> last_seq (Suc q) sts" using chain_last[OF c(2)] by simp
  then show ?case using 2 c by (auto simp: at_rest_def holds_rec_def)
qed (auto simp: at_rest_def holds_rec_def)

lemma chain_words:
  assumes "odd q" "at_rest h (Suc q) (do_stores sts m)"
  shows "chain h q m (word_stores sts @ [SeqStore (Suc q)])"
  using assms(2)
proof (induction sts arbitrary: m)
  case (Cons st sts)
  then show ?case using assms(1) by (cases st) simp
qed (use assms(1) in simp)

text \<open>A further publication can follow a complete chain.\<close>

lemma chain_publish:
  assumes "chain h q m sts" "length (ipc_handle a) \<le> DEVICE_IPC_HANDLE_BYTES" "p = last_seq q sts"
  shows "chain (h(p + 2 := Some a)) q m (sts @ SeqStore (p + 1) # word_stores (publish_stores a) @ [SeqStore (p + 2)])"
  using assms(1,3)
proof (induction h q m sts rule: chain.induct)
  case (1 h q m)
  have "at_rest (h(q + 2 := Some a)) (q + 2) (do_stores (publish_stores a) m)"
    using 1 publish_stores_effect[OF assms(2)] by (simp add: at_rest_def holds_rec_def)
  then have "chain (h(q + 2 := Some a)) (q + 1) m (word_stores (publish_stores a) @ [SeqStore (q + 2)])"
    using chain_words[of "q + 1" "h(q + 2 := Some a)" "publish_stores a" m] 1 by (simp add: at_rest_def)
  then show ?case using 1 by (simp add: at_rest_def holds_rec_def fun_upd_def)
next
  case (2 h q m q' sts)
  then have c: "q' = Suc q" "chain h q' m sts" "p = last_seq q' sts" by auto
  have "q < p + 2" using chain_last[OF c(2)] c by simp
  then show ?case using 2 by (auto simp: at_rest_def holds_rec_def)
qed simp

lemma set_reader_sel [simp]:
  "q_seq (set_reader t p s) = q_seq s" "q_mem (set_reader t p s) = q_mem s" "q_buffer (set_reader t p s) = q_buffer s"
  "q_own_seq (set_reader t p s) = q_own_seq s" "q_writer (set_reader t p s) = q_writer s"
  "q_hist (set_reader t p s) = q_hist s" "q_readers (set_reader t p s) u = (if u = t then p else q_readers s u)"
  by (simp_all add: set_reader_def)

lemma ok_set_reader [simp]: "reader_ok (set_reader t p s) r = reader_ok s r"
  by (cases r) simp_all

lemma slot_ok_set_reader: "slot_ok s \<Longrightarrow> reader_ok s p \<Longrightarrow> slot_ok (set_reader t p s)"
  by (simp add: slot_ok_def)

lemma reader_ok_writes:
  "q_seq s' = q_seq s \<Longrightarrow> q_mem s' = q_mem s \<Longrightarrow> q_hist s' = q_hist s \<Longrightarrow> reader_ok s' p = reader_ok s p"
  by (cases p) simp_all

lemma slot_ok_visible:
  assumes ok: "slot_ok s" and buf: "q_buffer s = st # rest"
  shows "slot_ok ((make_visible st s)\<lparr>q_buffer := rest\<rparr>)" (is "slot_ok ?s")
proof -
  have ch: "chain (q_hist s) (q_seq s) (q_mem s) (st # rest @ to_store (q_writer s))" using ok by (simp add: slot_ok_def buf)
  have r: "reader_ok s (q_readers s t)" for t using ok by (simp add: slot_ok_def)
  show ?thesis
  proof (cases st)
    case (SeqStore q)
    have q: "q = Suc (q_seq s)" using ch SeqStore by simp
    have "reader_ok ?s p" if "reader_ok s p" for p using that by (cases p) (auto simp: SeqStore q)
    then show ?thesis using ok r ch by (auto simp: slot_ok_def buf SeqStore)
  next
    case (WordStore w x)
    have "odd (q_seq s)" using ch WordStore by simp
    then have "reader_ok ?s p" if "reader_ok s p" for p using that by (cases p) (auto simp: WordStore)
    then show ?thesis using ok r ch by (simp add: slot_ok_def buf WordStore)
  qed
qed

lemma may_overtake_total: "may_overtake TotalStoreOrder older st \<longleftrightarrow> older = []"
  by (cases older) simp_all

lemma slot_ok_step:
  assumes ok: "slot_ok s" and st: "slot_step TotalStoreOrder s s'"
  shows "slot_ok s'"
  using st
proof cases
  case (w_call a)
  have "even (q_own_seq s)" using ok chain_last[of "q_hist s" "q_seq s" "q_mem s" "q_buffer s"] w_call(2) by (simp add: slot_ok_def)
  moreover have "reader_ok s' p = reader_ok s p" for p by (rule reader_ok_writes) (simp_all add: w_call)
  ultimately show ?thesis using ok w_call by (simp add: slot_ok_def)
next
  case (w_begin q a)
  have q: "q = last_seq (q_seq s) (q_buffer s)" "length (ipc_handle a) \<le> DEVICE_IPC_HANDLE_BYTES"
    "chain (q_hist s) (q_seq s) (q_mem s) (q_buffer s)" using ok w_begin(2) by (auto simp: slot_ok_def)
  have le: "q_seq s \<le> q" using chain_last[OF q(3)] q(1) by simp
  have "reader_ok s' p" if "reader_ok s p" for p
    using that le by (cases p) (auto simp: w_begin holds_rec_def)
  moreover have "chain (q_hist s') (q_seq s') (q_mem s') (q_buffer s' @ to_store (q_writer s'))"
    using chain_publish[OF q(3,2,1)] by (simp add: w_begin)
  ultimately show ?thesis using ok by (auto simp: slot_ok_def w_begin last_seq_append)
next
  case (w_store q w x sts a)
  have "reader_ok s' p = reader_ok s p" for p by (rule reader_ok_writes) (simp_all add: w_store)
  then show ?thesis using ok w_store by (auto simp: slot_ok_def last_seq_append)
next
  case (w_end q a)
  have "reader_ok s' p = reader_ok s p" for p by (rule reader_ok_writes) (simp_all add: w_end)
  then show ?thesis using ok w_end by (auto simp: slot_ok_def last_seq_append)
next
  case (w_visible older st newer)
  then show ?thesis using slot_ok_visible[OF ok, of st newer] by (simp add: may_overtake_total)
next
  case (r_load t n)
  then show ?thesis using ok by (simp add: slot_ok_set_reader)
next
  case (r_copy t n q w tmp)
  have "reader_ok s (RCopy n q w tmp)" using ok r_copy(2) unfolding slot_ok_def by metis
  then have "reader_ok s (RCopy n q (Suc w) (tmp(w := q_mem s w)))"
    by (auto simp: less_Suc_eq)
  then show ?thesis using ok r_copy(1) by (simp add: slot_ok_set_reader)
next
  case (r_done t n q w tmp)
  have r: "reader_ok s (RCopy n q w tmp)" using ok r_done(2) unfolding slot_ok_def by metis
  have e: "q = q_seq s" "even (q_seq s)" using r_done(4) by simp_all
  have "at_rest (q_hist s) (q_seq s) (q_mem s)" using ok chain_at_rest[OF _ e(2)] by (auto simp: slot_ok_def)
  then have "holds_rec (q_hist s) q tmp"
    using r r_done(3) e by (auto simp: at_rest_def holds_rec_def)
  then show ?thesis using ok r_done(1) e by (simp add: slot_ok_set_reader)
qed (use ok in \<open>simp_all add: slot_ok_set_reader\<close>)

lemma slot_ok_reach:
  assumes "reach slot_init (slot_step TotalStoreOrder) s"
  shows "slot_ok s"
proof (rule reach_invariant[OF assms])
  show "slot_ok s" if "slot_init s" for s using that by (simp add: slot_init_def slot_ok_def at_rest_def)
qed (rule slot_ok_step)


section \<open>Runs\<close>

lemma run_stores:
  "(slot_step mo)\<^sup>*\<^sup>* (s\<lparr>q_writer := WStore q sts a\<rparr>)
     (s\<lparr>q_buffer := q_buffer s @ word_stores sts, q_writer := WStore q [] a\<rparr>)"
proof (induction sts arbitrary: s)
  case Nil
  then show ?case by simp
next
  case (Cons st sts)
  obtain w x where st: "st = (w, x)" by (cases st)
  let ?s = "s\<lparr>q_buffer := q_buffer s @ [WordStore w x]\<rparr>"
  have "slot_step mo (s\<lparr>q_writer := WStore q (st # sts) a\<rparr>) (?s\<lparr>q_writer := WStore q sts a\<rparr>)"
    using slot_step.w_store[of "s\<lparr>q_writer := WStore q (st # sts) a\<rparr>" q w x sts a] by (simp add: st)
  then show ?case using converse_rtranclp_into_rtranclp[of "slot_step mo", OF _ Cons.IH[of ?s]] by (simp add: st)
qed

lemma make_visible_buffer [simp]: "make_visible st (s\<lparr>q_buffer := b\<rparr>) = (make_visible st s)\<lparr>q_buffer := b\<rparr>"
  by (cases st) simp_all

lemma run_buffer: "(slot_step mo)\<^sup>*\<^sup>* (s\<lparr>q_buffer := sts\<rparr>) ((fold make_visible sts s)\<lparr>q_buffer := []\<rparr>)"
proof (induction sts arbitrary: s)
  case (Cons st sts)
  have "slot_step mo (s\<lparr>q_buffer := st # sts\<rparr>) ((make_visible st s)\<lparr>q_buffer := sts\<rparr>)"
    using slot_step.w_visible[of "s\<lparr>q_buffer := st # sts\<rparr>" "[]" st sts mo] by simp
  then show ?case using converse_rtranclp_into_rtranclp[of "slot_step mo", OF _ Cons.IH[of "make_visible st s"]] by simp
qed simp

lemma fold_words: "fold make_visible (word_stores sts) s = s\<lparr>q_mem := do_stores sts (q_mem s)\<rparr>"
proof (induction sts arbitrary: s)
  case (Cons st sts)
  then show ?case by (cases st) (simp add: fun_upd_def)
qed simp

lemma run_copy:
  assumes "w \<le> slot_words"
  shows "(slot_step mo)\<^sup>*\<^sup>* (set_reader t (RCopy n q 0 tmp) s)
     (set_reader t (RCopy n q w (\<lambda>i. if i < w then q_mem s i else tmp i)) s)"
  using assms
proof (induction w)
  case 0
  then show ?case by simp
next
  case (Suc w)
  have [simp]: "set_reader t p (set_reader t r s) = set_reader t p s" for p r
    by (simp add: set_reader_def)
  have e: "(\<lambda>i. if i < w then q_mem s i else tmp i)(w := q_mem s w) =
      (\<lambda>i. if i < Suc w then q_mem s i else tmp i)" by (auto simp: less_Suc_eq)
  have "slot_step mo (set_reader t (RCopy n q w (\<lambda>i. if i < w then q_mem s i else tmp i)) s)
      (set_reader t (RCopy n q (Suc w) (\<lambda>i. if i < Suc w then q_mem s i else tmp i)) s)"
    using slot_step.r_copy[of "set_reader t (RCopy n q w (\<lambda>i. if i < w then q_mem s i else tmp i)) s"
        t n q w "\<lambda>i. if i < w then q_mem s i else tmp i" mo] Suc.prems by (simp add: e)
  then show ?case using Suc by (simp add: rtranclp.rtrancl_into_rtrancl)
qed

text \<open>A whole read while the sequence number stays even.\<close>

lemma run_read:
  assumes "q_readers s t = RIdle" "q_seq s \<noteq> 0" "even (q_seq s)"
  shows "(slot_step mo)\<^sup>*\<^sup>* s (set_reader t (RDone (q_seq s) (\<lambda>i. if i < slot_words then q_mem s i else 0)) s)"
proof -
  have [simp]: "set_reader t p (set_reader t r s) = set_reader t p s" for p r
    by (simp add: set_reader_def)
  let ?tmp = "\<lambda>i. if i < slot_words then q_mem s i else 0"
  have 1: "slot_step mo s (set_reader t (RAttempt 1000) s)" by (rule slot_step.r_call) (rule assms(1))
  have 2: "slot_step mo (set_reader t (RAttempt 1000) s) (set_reader t (RCopy 999 (q_seq s) 0 (\<lambda>_. 0)) s)"
    using slot_step.r_load[of "set_reader t (RAttempt 1000) s" t 999 mo] assms(2,3) by simp
  note 3 = run_copy[of slot_words mo t 999 "q_seq s" "\<lambda>_. 0" s, OF order_refl]
  have 4: "slot_step mo (set_reader t (RCopy 999 (q_seq s) slot_words ?tmp) s) (set_reader t (RDone (q_seq s) ?tmp) s)"
    using slot_step.r_done[of "set_reader t (RCopy 999 (q_seq s) slot_words ?tmp) s" t 999 "q_seq s" slot_words ?tmp mo] assms(3)
    by simp
  show ?thesis
    using 1 2 3 4 by (meson converse_rtranclp_into_rtranclp rtranclp.rtrancl_into_rtrancl)
qed

text \<open>One publication, visible as a whole.\<close>

definition ex_args :: ipc_args where
  "ex_args = \<lparr>ipc_base = 4096, ipc_offset = 16, ipc_size = 100, ipc_handle = [7, 8]\<rparr>"

definition ex_slot0 :: slot_state where
  "ex_slot0 = \<lparr>q_seq = 0, q_mem = \<lambda>_. 0, q_buffer = [], q_own_seq = 0, q_writer = WIdle, q_readers = \<lambda>_. RIdle,
     q_hist = \<lambda>_. None\<rparr>"

definition ex_slot1 :: slot_state where
  "ex_slot1 = \<lparr>q_seq = 2, q_mem = do_stores (publish_stores ex_args) (\<lambda>_. 0), q_buffer = [], q_own_seq = 2,
     q_writer = WIdle, q_readers = \<lambda>_. RIdle, q_hist = (\<lambda>_. None)(2 := Some ex_args)\<rparr>"

lemma ex_slot1_reach: "reach slot_init (slot_step mo) ex_slot1"
proof -
  let ?h = "(\<lambda>_. None)(2 := Some ex_args)"
  let ?b = "ex_slot0\<lparr>q_buffer := [SeqStore 1], q_own_seq := 1, q_hist := ?h\<rparr>"
  let ?c = "?b\<lparr>q_buffer := SeqStore 1 # word_stores (publish_stores ex_args)\<rparr>"
  let ?d = "ex_slot0\<lparr>q_own_seq := 2, q_hist := ?h\<rparr>"
  let ?buf = "SeqStore 1 # word_stores (publish_stores ex_args) @ [SeqStore 2]"
  have 1: "slot_step mo ex_slot0 (ex_slot0\<lparr>q_writer := WLoaded 0 ex_args\<rparr>)"
    using slot_step.w_call[of ex_slot0 ex_args mo]
    by (simp add: ex_slot0_def ex_args_def DEVICE_IPC_HANDLE_BYTES_def)
  have 2: "slot_step mo (ex_slot0\<lparr>q_writer := WLoaded 0 ex_args\<rparr>)
      (?b\<lparr>q_writer := WStore 0 (publish_stores ex_args) ex_args\<rparr>)"
    using slot_step.w_begin[of "ex_slot0\<lparr>q_writer := WLoaded 0 ex_args\<rparr>" 0 ex_args mo]
    by (simp add: ex_slot0_def numeral_2_eq_2)
  have 3: "(slot_step mo)\<^sup>*\<^sup>* (?b\<lparr>q_writer := WStore 0 (publish_stores ex_args) ex_args\<rparr>) (?c\<lparr>q_writer := WStore 0 [] ex_args\<rparr>)"
    using run_stores[where s = ?b and q = 0 and sts = "publish_stores ex_args" and a = ex_args] by simp
  have 4: "slot_step mo (?c\<lparr>q_writer := WStore 0 [] ex_args\<rparr>) (?d\<lparr>q_buffer := ?buf\<rparr>)"
    using slot_step.w_end[of "?c\<lparr>q_writer := WStore 0 [] ex_args\<rparr>" 0 ex_args mo]
    by (simp add: ex_slot0_def numeral_2_eq_2)
  have 5: "(slot_step mo)\<^sup>*\<^sup>* (?d\<lparr>q_buffer := ?buf\<rparr>) ex_slot1"
    using run_buffer[where s = ?d and sts = ?buf] by (simp add: fold_words ex_slot0_def ex_slot1_def)
  have "reach slot_init (slot_step mo) ex_slot0" by (rule reach_init) (simp add: slot_init_def ex_slot0_def)
  from reach_step[OF reach_step[OF this 1] 2] have "reach slot_init (slot_step mo) (?c\<lparr>q_writer := WStore 0 [] ex_args\<rparr>)"
    by (rule reach_steps[OF _ 3])
  from reach_steps[OF reach_step[OF this 4] 5] show ?thesis .
qed

lemma ex_read_reach:
  "reach slot_init (slot_step mo) (set_reader 0 (RDone 2 (\<lambda>i. if i < slot_words then q_mem ex_slot1 i else 0)) ex_slot1)"
  using reach_steps[OF ex_slot1_reach run_read[of ex_slot1 0 mo]] by (simp add: ex_slot1_def)


section \<open>Without total store order\<close>

text \<open>
  A release store of the odd sequence number does not hold back the stores after it. A reader
  that finds the old even number before and after its copy can then return words of two
  publications.
\<close>

lemma torn_read_with_relaxed_stores:
  "\<exists>s tmp. reach slot_init (slot_step RelaxedStoreOrder) s \<and> q_readers s 0 = RDone 2 tmp \<and>
     q_hist s 2 = Some ex_args \<and> tmp 0 \<noteq> published ex_args 0 \<and> tmp 1 = published ex_args 1"
proof -
  let ?args = "ex_args\<lparr>ipc_base := 8192\<rparr>"
  let ?h = "(q_hist ex_slot1)(4 := Some ?args)"
  let ?b = "ex_slot1\<lparr>q_own_seq := 3, q_hist := ?h\<rparr>"
  let ?sts = "tl (publish_stores ?args)"
  let ?s = "?b\<lparr>q_writer := WStore 2 ?sts ?args, q_mem := (q_mem ?b)(0 := 8192), q_buffer := [SeqStore 3]\<rparr>"
  have p: "publish_stores ?args = (0, 8192) # ?sts" by (simp add: publish_stores_def)
  have 1: "slot_step RelaxedStoreOrder ex_slot1 (ex_slot1\<lparr>q_writer := WLoaded 2 ?args\<rparr>)"
    using slot_step.w_call[of ex_slot1 ?args RelaxedStoreOrder]
    by (simp add: ex_slot1_def ex_args_def DEVICE_IPC_HANDLE_BYTES_def)
  have 2: "slot_step RelaxedStoreOrder (ex_slot1\<lparr>q_writer := WLoaded 2 ?args\<rparr>)
      (?b\<lparr>q_buffer := [SeqStore 3], q_writer := WStore 2 ((0, 8192) # ?sts) ?args\<rparr>)"
    using slot_step.w_begin[of "ex_slot1\<lparr>q_writer := WLoaded 2 ?args\<rparr>" 2 ?args RelaxedStoreOrder] p
    by (simp add: ex_slot1_def)
  have 3: "slot_step RelaxedStoreOrder (?b\<lparr>q_buffer := [SeqStore 3], q_writer := WStore 2 ((0, 8192) # ?sts) ?args\<rparr>)
      (?b\<lparr>q_buffer := [SeqStore 3, WordStore 0 8192], q_writer := WStore 2 ?sts ?args\<rparr>)"
    using slot_step.w_store[of "?b\<lparr>q_buffer := [SeqStore 3], q_writer := WStore 2 ((0, 8192) # ?sts) ?args\<rparr>"
      2 0 8192 ?sts ?args RelaxedStoreOrder] by simp
  have 4: "slot_step RelaxedStoreOrder (?b\<lparr>q_buffer := [SeqStore 3, WordStore 0 8192], q_writer := WStore 2 ?sts ?args\<rparr>) ?s"
    using slot_step.w_visible[of "?b\<lparr>q_buffer := [SeqStore 3, WordStore 0 8192], q_writer := WStore 2 ?sts ?args\<rparr>"
      "[SeqStore 3]" "WordStore 0 8192" "[]" RelaxedStoreOrder] by simp
  define s where "s = ?s"
  define tmp where "tmp = (\<lambda>i. if i < slot_words then q_mem s i else 0)"
  have reach: "reach slot_init (slot_step RelaxedStoreOrder) s"
    using ex_slot1_reach[of RelaxedStoreOrder] 1 2 3 4 unfolding s_def by (meson reach_step)
  have e: "q_seq s = 2" "q_readers s 0 = RIdle" "q_hist s 2 = Some ex_args" "q_mem s 0 = 8192" "q_mem s 1 = q_mem ex_slot1 1"
    by (simp_all add: s_def ex_slot1_def)
  have "(slot_step RelaxedStoreOrder)\<^sup>*\<^sup>* s (set_reader 0 (RDone 2 tmp) s)"
    using run_read[of s 0 RelaxedStoreOrder] e(1,2) by (simp add: tmp_def)
  from reach_steps[OF reach this]
  have r: "reach slot_init (slot_step RelaxedStoreOrder) (set_reader 0 (RDone 2 tmp) s)" .
  have "published ex_args 0 = 4096" by (simp add: published_def ex_args_def)
  moreover have "q_mem ex_slot1 1 = published ex_args 1" "slot_words > 1"
    using publish_stores_effect[of ex_args 1 "\<lambda>_. 0"]
    by (simp_all add: ex_slot1_def ex_args_def DEVICE_IPC_HANDLE_BYTES_def slot_words_def)
  ultimately have t: "tmp 0 \<noteq> published ex_args 0" "tmp 1 = published ex_args 1" using e(4,5) by (simp_all add: tmp_def)
  show ?thesis by (rule exI[of _ "set_reader 0 (RDone 2 tmp) s"], rule exI[of _ tmp]) (use r t e(3) in simp)
qed

end
