(* ===== verification/Barrier.thy ===== *)
theory Barrier
  imports SharedState
begin

text \<open>
  The generation barrier of \<^verbatim>\<open>SharedStateManager::barrier\<close> (\<^verbatim>\<open>memory/shared_state.cpp\<close>) on
  one pair of counters, with \<open>n\<close> processes; loads, the \<^verbatim>\<open>fetch_add\<close> and the stores are
  single steps, and a waiting process may time out. The arrival of a process that timed out
  stays counted, and the process may call the barrier again; \<open>b_early\<close> records whether that
  has happened before the round of its time-out was over.
\<close>

text \<open>\<^verbatim>\<open>strstr(where, s) != nullptr\<close>.\<close>

fun has_prefix :: "string \<Rightarrow> string \<Rightarrow> bool" where
  "has_prefix [] s = True"
| "has_prefix (c # cs) [] = False"
| "has_prefix (c # cs) (d # ds) = (c = d \<and> has_prefix cs ds)"

fun contains_str :: "string \<Rightarrow> string \<Rightarrow> bool" where
  "contains_str pat [] = (pat = [])"
| "contains_str pat (c # cs) = (has_prefix pat (c # cs) \<or> contains_str pat cs)"

definition barrierSlotForWhere :: "string option \<Rightarrow> nat" where
  "barrierSlotForWhere loc =
     (case loc of None \<Rightarrow> 0
      | Some s \<Rightarrow>
         if contains_str ''ProcessState::initialize'' s then 0
         else if contains_str ''submitCollective'' s then 1
         else if contains_str ''GraphExecutor::runGraph'' s then 2
         else if contains_str ''SmallMessageExecutor::execute'' s then 3
         else if contains_str ''GraphExecutor::start'' s then 3
         else 0)"

definition barrier_expected :: "int \<Rightarrow> int \<Rightarrow> int" where
  "barrier_expected parties world_size = (if 0 < parties then parties else world_size)"

section \<open>The barrier's steps\<close>

datatype barrier_pc =
  BOut                \<comment> \<open>outside the barrier\<close>
| BGot nat            \<comment> \<open>\<^verbatim>\<open>my_gen\<close> loaded\<close>
| BWait nat           \<comment> \<open>arrived, spinning on the generation\<close>
| BLast nat           \<comment> \<open>arrived last\<close>
| BRelease nat        \<comment> \<open>count reset, generation not yet advanced\<close>
| BTimeout nat        \<comment> \<open>gave up: the call returned false\<close>

record barrier_state =
  b_count :: nat
  b_gen :: nat
  b_pc :: "nat \<Rightarrow> barrier_pc"
  b_arrived :: "nat \<Rightarrow> nat"   \<comment> \<open>how often each process has arrived\<close>
  b_passed :: "nat \<Rightarrow> nat"    \<comment> \<open>how often its call returned true\<close>
  b_early :: bool

inductive barrier_step :: "nat \<Rightarrow> barrier_state \<Rightarrow> barrier_state \<Rightarrow> bool" for n :: nat where
  b_load: "p < n \<Longrightarrow> b_pc s p = BOut \<Longrightarrow>
    barrier_step n s (s\<lparr>b_pc := (b_pc s)(p := BGot (b_gen s))\<rparr>)"
| b_arrive: "p < n \<Longrightarrow> b_pc s p = BGot g \<Longrightarrow>
    barrier_step n s (s\<lparr>b_count := b_count s + 1,
      b_pc := (b_pc s)(p := (if b_count s + 1 = n then BLast g else BWait g)),
      b_arrived := (b_arrived s)(p := b_arrived s p + 1)\<rparr>)"
| b_reset: "p < n \<Longrightarrow> b_pc s p = BLast g \<Longrightarrow>
    barrier_step n s (s\<lparr>b_count := 0, b_pc := (b_pc s)(p := BRelease g)\<rparr>)"
| b_advance: "p < n \<Longrightarrow> b_pc s p = BRelease g \<Longrightarrow>
    barrier_step n s (s\<lparr>b_gen := g + 1, b_pc := (b_pc s)(p := BOut),
      b_passed := (b_passed s)(p := b_passed s p + 1)\<rparr>)"
| b_leave: "p < n \<Longrightarrow> b_pc s p = BWait g \<Longrightarrow> \<not> b_gen s \<le> g \<Longrightarrow>
    barrier_step n s (s\<lparr>b_pc := (b_pc s)(p := BOut), b_passed := (b_passed s)(p := b_passed s p + 1)\<rparr>)"
| b_timeout: "p < n \<Longrightarrow> b_pc s p = BWait g \<Longrightarrow> b_gen s \<le> g \<Longrightarrow>
    barrier_step n s (s\<lparr>b_pc := (b_pc s)(p := BTimeout g)\<rparr>)"
| b_again: "p < n \<Longrightarrow> b_pc s p = BTimeout g \<Longrightarrow>
    barrier_step n s (s\<lparr>b_pc := (b_pc s)(p := BGot (b_gen s)), b_early := (b_early s \<or> b_gen s \<le> g)\<rparr>)"

definition barrier_init :: "barrier_state \<Rightarrow> bool" where
  "barrier_init s \<longleftrightarrow> b_count s = 0 \<and> b_gen s = 0 \<and> b_pc s = (\<lambda>_. BOut) \<and>
     b_arrived s = (\<lambda>_. 0) \<and> b_passed s = (\<lambda>_. 0) \<and> \<not> b_early s"

section \<open>Invariant\<close>

text \<open>A process that has arrived in the current round.\<close>

fun in_round :: "nat \<Rightarrow> barrier_pc \<Rightarrow> bool" where
  "in_round g (BWait h) = (h = g)"
| "in_round g (BTimeout h) = (h = g)"
| "in_round g (BLast h) = True"
| "in_round g (BRelease h) = True"
| "in_round g _ = False"

fun pc_ok :: "barrier_state \<Rightarrow> nat \<Rightarrow> barrier_pc \<Rightarrow> bool" where
  "pc_ok s p BOut = (b_arrived s p = b_gen s \<and> b_passed s p \<le> b_gen s)"
| "pc_ok s p (BGot g) = (g = b_gen s \<and> b_arrived s p = g \<and> b_passed s p \<le> g)"
| "pc_ok s p (BWait g) = (b_arrived s p = g + 1 \<and> b_passed s p \<le> g \<and> g \<le> b_gen s \<and> b_gen s \<le> g + 1)"
| "pc_ok s p (BTimeout g) = (b_arrived s p = g + 1 \<and> b_passed s p \<le> g \<and> g \<le> b_gen s \<and> b_gen s \<le> g + 1)"
| "pc_ok s p (BLast g) = (g = b_gen s \<and> b_arrived s p = g + 1 \<and> b_passed s p \<le> g)"
| "pc_ok s p (BRelease g) = (g = b_gen s \<and> b_arrived s p = g + 1 \<and> b_passed s p \<le> g)"

fun finishing :: "barrier_pc \<Rightarrow> bool" where
  "finishing (BLast g) = True"
| "finishing (BRelease g) = True"
| "finishing _ = False"

fun releasing :: "barrier_pc \<Rightarrow> bool" where
  "releasing (BRelease g) = True"
| "releasing _ = False"

definition round_set :: "nat \<Rightarrow> barrier_state \<Rightarrow> nat set" where
  "round_set n s = {p. p < n \<and> in_round (b_gen s) (b_pc s p)}"

definition barrier_ok :: "nat \<Rightarrow> barrier_state \<Rightarrow> bool" where
  "barrier_ok n s \<longleftrightarrow> (\<forall>p < n. pc_ok s p (b_pc s p)) \<and>
     (\<forall>p < n. finishing (b_pc s p) \<longrightarrow> round_set n s = {..<n} \<and>
        (\<forall>q < n. q \<noteq> p \<longrightarrow> \<not> finishing (b_pc s q))) \<and>
     (if \<exists>p < n. releasing (b_pc s p) then b_count s = 0 else b_count s = card (round_set n s))"

lemma pc_ok_cong:
  "b_gen s' = b_gen s \<Longrightarrow> b_arrived s' p = b_arrived s p \<Longrightarrow> b_passed s' p = b_passed s p \<Longrightarrow>
     pc_ok s' p q = pc_ok s p q"
  by (cases q) simp_all

text \<open>A step that moves one process between two positions of the same round status.\<close>

lemma finite_round_set [simp]: "finite (round_set n s)"
  by (simp add: round_set_def)

lemma round_full:
  assumes "card (round_set n s) = n"
  shows "round_set n s = {..<n}"
proof -
  have "round_set n s \<subseteq> {..<n}" by (auto simp: round_set_def)
  then show ?thesis using assms card_subset_eq[of "{..<n}" "round_set n s"] by simp
qed

lemma barrier_ok_load:
  assumes ok: "barrier_ok n s" and p: "p < n" "b_pc s p = BOut"
  shows "barrier_ok n (s\<lparr>b_pc := (b_pc s)(p := BGot (b_gen s))\<rparr>)" (is "barrier_ok n ?s")
proof -
  have r: "round_set n ?s = round_set n s" using p by (auto simp: round_set_def)
  have f: "finishing (b_pc ?s q) = finishing (b_pc s q)" "releasing (b_pc ?s q) = releasing (b_pc s q)" for q
    using p by auto
  have k: "pc_ok ?s q (b_pc ?s q)" if "q < n" for q
    using ok that p by (auto simp: barrier_ok_def pc_ok_cong[of ?s s])
  show ?thesis using ok k unfolding barrier_ok_def r f by simp
qed

lemma barrier_ok_timeout:
  assumes ok: "barrier_ok n s" and p: "p < n" "b_pc s p = BWait g"
  shows "barrier_ok n (s\<lparr>b_pc := (b_pc s)(p := BTimeout g)\<rparr>)" (is "barrier_ok n ?s")
proof -
  have r: "round_set n ?s = round_set n s" using p by (auto simp: round_set_def)
  have f: "finishing (b_pc ?s q) = finishing (b_pc s q)" "releasing (b_pc ?s q) = releasing (b_pc s q)" for q
    using p by auto
  have k: "pc_ok ?s q (b_pc ?s q)" if "q < n" for q
    using ok that p by (auto simp: barrier_ok_def pc_ok_cong[of ?s s])
  show ?thesis using ok k unfolding barrier_ok_def r f by simp
qed

lemma barrier_ok_again:
  assumes ok: "barrier_ok n s" and p: "p < n" "b_pc s p = BTimeout g" "\<not> b_gen s \<le> g"
  shows "barrier_ok n (s\<lparr>b_pc := (b_pc s)(p := BGot (b_gen s)), b_early := e\<rparr>)" (is "barrier_ok n ?s")
proof -
  have r: "round_set n ?s = round_set n s" using p by (auto simp: round_set_def)
  have f: "finishing (b_pc ?s q) = finishing (b_pc s q)" "releasing (b_pc ?s q) = releasing (b_pc s q)" for q
    using p by auto
  have pk: "pc_ok s p (BTimeout g)" using ok p unfolding barrier_ok_def by metis
  have k: "pc_ok ?s q (b_pc ?s q)" if "q < n" for q
  proof (cases "q = p")
    case True
    then show ?thesis using pk p(3) by simp
  next
    case False
    have "pc_ok ?s q x = pc_ok s q x" for x by (rule pc_ok_cong) (use False in simp_all)
    then show ?thesis using ok that False by (simp add: barrier_ok_def)
  qed
  show ?thesis using ok k unfolding barrier_ok_def r f by simp
qed

lemma barrier_ok_leave:
  assumes ok: "barrier_ok n s" and p: "p < n" "b_pc s p = BWait g" "\<not> b_gen s \<le> g"
  shows "barrier_ok n (s\<lparr>b_pc := (b_pc s)(p := BOut), b_passed := (b_passed s)(p := b_passed s p + 1)\<rparr>)"
    (is "barrier_ok n ?s")
proof -
  have r: "round_set n ?s = round_set n s" using p by (auto simp: round_set_def)
  have f: "finishing (b_pc ?s q) = finishing (b_pc s q)" "releasing (b_pc ?s q) = releasing (b_pc s q)" for q
    using p by auto
  have pk: "pc_ok s p (BWait g)" using ok p unfolding barrier_ok_def by metis
  have k: "pc_ok ?s q (b_pc ?s q)" if "q < n" for q
  proof (cases "q = p")
    case True
    then show ?thesis using pk p(3) by simp
  next
    case False
    have "pc_ok ?s q x = pc_ok s q x" for x by (rule pc_ok_cong) (use False in simp_all)
    then show ?thesis using ok that False by (simp add: barrier_ok_def)
  qed
  show ?thesis using ok k unfolding barrier_ok_def r f by simp
qed

lemma barrier_ok_reset:
  assumes ok: "barrier_ok n s" and p: "p < n" "b_pc s p = BLast g"
  shows "barrier_ok n (s\<lparr>b_count := 0, b_pc := (b_pc s)(p := BRelease g)\<rparr>)" (is "barrier_ok n ?s")
proof -
  have r: "round_set n ?s = round_set n s" using p by (auto simp: round_set_def)
  have f: "finishing (b_pc ?s q) = finishing (b_pc s q)" for q using p by auto
  have k: "pc_ok ?s q (b_pc ?s q)" if "q < n" for q
    using ok that p by (auto simp: barrier_ok_def pc_ok_cong[of ?s s])
  have rel: "\<exists>q < n. releasing (b_pc ?s q)" using p(1) by (intro exI[of _ p]) simp
  show ?thesis using ok k rel unfolding barrier_ok_def r f by simp
qed

lemma barrier_ok_arrive:
  assumes ok: "barrier_ok n s" and p: "p < n" "b_pc s p = BGot g"
  shows "barrier_ok n (s\<lparr>b_count := b_count s + 1,
      b_pc := (b_pc s)(p := (if b_count s + 1 = n then BLast g else BWait g)),
      b_arrived := (b_arrived s)(p := b_arrived s p + 1)\<rparr>)" (is "barrier_ok n ?s")
proof -
  have pk: "pc_ok s p (BGot g)" using ok p unfolding barrier_ok_def by metis
  have notin: "p \<notin> round_set n s" using p by (simp add: round_set_def)
  have nf: "\<not> finishing (b_pc s q)" if "q < n" for q
    using ok that notin p(1) unfolding barrier_ok_def by blast
  then have nr: "\<not> releasing (b_pc s q)" if "q < n" for q
    using nf[OF that] by (cases "b_pc s q") auto
  have cnt: "b_count s = card (round_set n s)" using ok nr unfolding barrier_ok_def by auto
  have r: "round_set n ?s = insert p (round_set n s)" using p pk by (auto simp: round_set_def)
  have c: "card (round_set n ?s) = b_count s + 1" unfolding r using notin cnt by simp
  have k: "pc_ok ?s q (b_pc ?s q)" if "q < n" for q
  proof (cases "q = p")
    case True
    then show ?thesis using pk by simp
  next
    case False
    have "pc_ok ?s q x = pc_ok s q x" for x by (rule pc_ok_cong) (use False in simp_all)
    then show ?thesis using ok that False by (simp add: barrier_ok_def)
  qed
  have fin: "round_set n ?s = {..<n} \<and> (\<forall>q' < n. q' \<noteq> q \<longrightarrow> \<not> finishing (b_pc ?s q'))"
    if "q < n" "finishing (b_pc ?s q)" for q
  proof -
    have "q = p" "b_count s + 1 = n" using that nf by (auto split: if_splits)
    then show ?thesis using round_full[of n ?s] c nf by auto
  qed
  have nrel: "\<not> (\<exists>q < n. releasing (b_pc ?s q))" using nr by auto
  show ?thesis unfolding barrier_ok_def using k fin nrel c by simp
qed

lemma barrier_ok_advance:
  assumes ok: "barrier_ok n s" and p: "p < n" "b_pc s p = BRelease g"
  shows "barrier_ok n (s\<lparr>b_gen := g + 1, b_pc := (b_pc s)(p := BOut),
      b_passed := (b_passed s)(p := b_passed s p + 1)\<rparr>)" (is "barrier_ok n ?s")
proof -
  have pk: "pc_ok s p (BRelease g)" using ok p unfolding barrier_ok_def by metis
  then have g: "g = b_gen s" by simp
  have full: "round_set n s = {..<n}" and only: "\<And>q. q < n \<Longrightarrow> q \<noteq> p \<Longrightarrow> \<not> finishing (b_pc s q)"
    using ok p unfolding barrier_ok_def by (metis finishing.simps(2))+
  have cnt: "b_count s = 0" using ok p unfolding barrier_ok_def by (metis releasing.simps(1))
  have others: "b_pc s q = BWait g \<or> b_pc s q = BTimeout g" if "q < n" "q \<noteq> p" for q
  proof -
    have "in_round (b_gen s) (b_pc s q)" using full that by (auto simp: round_set_def)
    then show ?thesis using only[OF that] g by (cases "b_pc s q") auto
  qed
  have k: "pc_ok ?s q (b_pc ?s q)" if "q < n" for q
  proof (cases "q = p")
    case True
    then show ?thesis using pk by simp
  next
    case False
    have "pc_ok s q (b_pc s q)" using ok that by (simp add: barrier_ok_def)
    then show ?thesis using others[OF that False] False g by auto
  qed
  have ni: "\<not> in_round (g + 1) (b_pc ?s q)" if "q < n" for q
    using others[of q] that by (cases "q = p") auto
  then have empty: "round_set n ?s = {}" by (auto simp: round_set_def)
  have nf: "\<not> finishing (b_pc ?s q)" if "q < n" for q using only that by auto
  then have nr: "\<not> (\<exists>q < n. releasing (b_pc ?s q))" 
    by (metis finishing.simps(2) releasing.elims(2))
  show ?thesis unfolding barrier_ok_def using k nf nr cnt empty by simp
qed

lemma barrier_ok_step:
  assumes ok: "barrier_ok n s" and st: "barrier_step n s s'" and e: "\<not> b_early s'"
  shows "barrier_ok n s'"
  using st
proof cases
  case (b_load p)
  then show ?thesis using barrier_ok_load[OF ok] by blast
next
  case (b_arrive p g)
  then show ?thesis using barrier_ok_arrive[OF ok b_arrive(2,3)] by blast
next
  case (b_reset p g)
  then show ?thesis using barrier_ok_reset[OF ok] by blast
next
  case (b_advance p g)
  then show ?thesis using barrier_ok_advance[OF ok b_advance(2,3)] by blast
next
  case (b_leave p g)
  then show ?thesis using barrier_ok_leave[OF ok b_leave(2-4)] by blast
next
  case (b_timeout p g)
  then show ?thesis using barrier_ok_timeout[OF ok] by blast
next
  case (b_again p g)
  then show ?thesis using barrier_ok_again[OF ok b_again(2,3)] e by simp
qed

lemma early_mono: "barrier_step n s s' \<Longrightarrow> b_early s \<Longrightarrow> b_early s'"
  by (cases rule: barrier_step.cases) auto

lemma barrier_reach:
  assumes "reach barrier_init (barrier_step n) s" "\<not> b_early s"
  shows "barrier_ok n s"
proof -
  have "b_early s \<or> barrier_ok n s"
  proof (rule reach_invariant[OF assms(1)])
    show "b_early s \<or> barrier_ok n s" if "barrier_init s" for s
      using that by (auto simp: barrier_init_def barrier_ok_def round_set_def)
  qed (use barrier_ok_step early_mono in blast)
  then show ?thesis using assms(2) by simp
qed


definition ex_barrier :: "nat \<Rightarrow> nat \<Rightarrow> barrier_state" where
  "ex_barrier g a = \<lparr>b_count = 0, b_gen = g, b_pc = \<lambda>_. BOut,
     b_arrived = (\<lambda>_. 0)(0 := a), b_passed = (\<lambda>_. 0)(0 := a), b_early = False\<rparr>"

lemma ex_barrier_reach: "reach barrier_init (barrier_step 1) (ex_barrier 1 1)"
proof (rule reach_steps)
  let ?s = "ex_barrier 0 0"
  show "reach barrier_init (barrier_step 1) ?s"
    by (rule reach_init) (simp add: barrier_init_def ex_barrier_def fun_upd_idem)
  let ?s1 = "?s\<lparr>b_pc := (\<lambda>_. BOut)(0 := BGot 0)\<rparr>"
  have 1: "barrier_step 1 ?s ?s1"
    using barrier_step.b_load[of 0 1 ?s] by (simp add: ex_barrier_def)
  let ?s2 = "?s1\<lparr>b_count := 1, b_pc := (\<lambda>_. BOut)(0 := BLast 0), b_arrived := (\<lambda>_. 0)(0 := 1)\<rparr>"
  have 2: "barrier_step 1 ?s1 ?s2"
    using barrier_step.b_arrive[of 0 1 ?s1 0] by (simp add: ex_barrier_def)
  let ?s3 = "?s2\<lparr>b_count := 0, b_pc := (\<lambda>_. BOut)(0 := BRelease 0)\<rparr>"
  have 3: "barrier_step 1 ?s2 ?s3"
    using barrier_step.b_reset[of 0 1 ?s2 0] by (simp add: ex_barrier_def)
  have 4: "barrier_step 1 ?s3 (ex_barrier 1 1)"
    using barrier_step.b_advance[of 0 1 ?s3 0] by (simp add: ex_barrier_def fun_upd_idem)
  show "(barrier_step 1)\<^sup>*\<^sup>* ?s (ex_barrier 1 1)"
    using 1 2 3 4 by (meson converse_rtranclp_into_rtranclp rtranclp.rtrancl_refl)
qed


text \<open>
  When a process that timed out calls the barrier again in the same round, its two arrivals
  release two processes although the other one has not arrived.
\<close>

lemma early_return_releases:
  "\<exists>s. reach barrier_init (barrier_step 2) s \<and> b_passed s 0 = 1 \<and> b_arrived s 1 = 0"
proof -
  define s0 where "s0 = \<lparr>b_count = 0, b_gen = 0, b_pc = \<lambda>_. BOut, b_arrived = \<lambda>_. 0, b_passed = \<lambda>_. 0, b_early = False\<rparr>"
  define s1 where "s1 = s0\<lparr>b_pc := (b_pc s0)(0 := BGot (b_gen s0))\<rparr>"
  define s2 where "s2 = s1\<lparr>b_count := b_count s1 + 1, b_pc := (b_pc s1)(0 := (if b_count s1 + 1 = 2 then BLast 0 else BWait 0)),
    b_arrived := (b_arrived s1)(0 := b_arrived s1 0 + 1)\<rparr>"
  define s3 where "s3 = s2\<lparr>b_pc := (b_pc s2)(0 := BTimeout 0)\<rparr>"
  define s4 where "s4 = s3\<lparr>b_pc := (b_pc s3)(0 := BGot (b_gen s3)), b_early := (b_early s3 \<or> b_gen s3 \<le> 0)\<rparr>"
  define s5 where "s5 = s4\<lparr>b_count := b_count s4 + 1, b_pc := (b_pc s4)(0 := (if b_count s4 + 1 = 2 then BLast 0 else BWait 0)),
    b_arrived := (b_arrived s4)(0 := b_arrived s4 0 + 1)\<rparr>"
  define s6 where "s6 = s5\<lparr>b_count := 0, b_pc := (b_pc s5)(0 := BRelease 0)\<rparr>"
  define s7 where "s7 = s6\<lparr>b_gen := 0 + 1, b_pc := (b_pc s6)(0 := BOut), b_passed := (b_passed s6)(0 := b_passed s6 0 + 1)\<rparr>"
  note defs = s7_def s6_def s5_def s4_def s3_def s2_def s1_def s0_def
  have 0: "barrier_init s0" by (simp add: barrier_init_def s0_def)
  have 1: "barrier_step 2 s0 s1" unfolding s1_def by (rule b_load) (simp_all add: s0_def)
  have 2: "barrier_step 2 s1 s2" unfolding s2_def by (rule b_arrive) (simp_all add: s1_def s0_def)
  have 3: "barrier_step 2 s2 s3" unfolding s3_def by (rule b_timeout) (simp_all add: s2_def s1_def s0_def)
  have 4: "barrier_step 2 s3 s4" unfolding s4_def by (rule b_again) (simp_all add: s3_def)
  have 5: "barrier_step 2 s4 s5" unfolding s5_def by (rule b_arrive) (simp_all add: s4_def s3_def s2_def s1_def s0_def)
  have 6: "barrier_step 2 s5 s6" unfolding s6_def by (rule b_reset) (simp_all add: s5_def s4_def s3_def s2_def s1_def s0_def)
  have 7: "barrier_step 2 s6 s7" unfolding s7_def by (rule b_advance) (simp_all add: s6_def)
  have "reach barrier_init (barrier_step 2) s7"
    using reach_init[of barrier_init, OF 0] 1 2 3 4 5 6 7 by (meson reach_step)
  then show ?thesis by (intro exI[of _ s7]) (simp add: defs)
qed

end
