(* ===== verification/Spec2Isabelle.thy ===== *)
theory Spec2Isabelle
  imports CompiledPipeline Binding ExecutorProps WorkQueue Tiling LoaderProps SplitPlanProps ControllerProps ShmAgreement CollectiveSafety Deviations FastPathExample ProgressConc Seqlock Barrier
begin

text \<open>
  A model of the PCIe collective library of HyLink.
\<close>

end
